(* ===== verification/Driver_Prelude.thy ===== *)
theory Driver_Prelude
  imports Main "HOL-Library.Word"
begin

unbundle bit_operations_syntax

text \<open>
  The prelude of the development: the C integer types of the driver as \<open>word\<close>
  types, the collections that the components' lemmas are declared into, and the
  generic facts on byte arrays, truncated arithmetic and sorted lists that more than
  one component uses.

  \<^item> \<open>UINT8\<close>, \<open>UINT16\<close>, \<open>UINT32\<close>, \<open>UINT64\<close> are the unsigned types of
    \<^verbatim>\<open>include/rtmp_type.h\<close>; \<open>ULONG\<close> is the 64-bit \<^verbatim>\<open>unsigned long\<close> of an
    LP64 kernel.
  \<^item> A C array is a list; \<open>move_at\<close> is \<^verbatim>\<open>NdisMoveMemory\<close> (\<^verbatim>\<open>memmove\<close>) into a
    destination array at an offset.
\<close>

section \<open>C integer types\<close>

type_synonym UINT8 = "8 word"
type_synonym UINT16 = "16 word"
type_synonym UINT32 = "32 word"
type_synonym UINT64 = "64 word"
type_synonym ULONG = "64 word"
type_synonym bytes = "UINT8 list"
type_synonym addr = nat \<comment> \<open>identity of a C object: the value of a pointer to it\<close>
type_synonym mac_addr = "UINT8 list"

named_theorems seq_simps \<open>arithmetic of 12-bit sequence numbers\<close>
named_theorems wf_intros \<open>introduction rules of the well-formedness invariants\<close>
named_theorems table_simps \<open>lookup and update facts of the driver's tables\<close>
named_theorems len_simps \<open>lengths of the byte arrays the operations return\<close>

section \<open>Arrays and memory moves\<close>

text \<open>
  \<open>move_at d off s\<close> is the destination array \<open>d\<close> after \<open>length s\<close> bytes were moved
  to offset \<open>off\<close>; \<open>set_at\<close> is the one-element case (a C assignment \<^verbatim>\<open>d[off] = v\<close>).
\<close>

definition move_at :: "'a list \<Rightarrow> nat \<Rightarrow> 'a list \<Rightarrow> 'a list" where
  "move_at d off s = take off d @ s @ drop (off + length s) d"

lemma length_move_at [simp, len_simps]:
  "off + length s \<le> length d \<Longrightarrow> length (move_at d off s) = length d"
  by (simp add: move_at_def)

lemma move_at_Nil [simp]: "move_at d off [] = d"
  by (simp add: move_at_def)

lemma take_move_at [simp]:
  "n \<le> off \<Longrightarrow> off \<le> length d \<Longrightarrow> take n (move_at d off s) = take n d"
  by (simp add: move_at_def min_def)

lemma take_move_at_end:
  "off \<le> length d \<Longrightarrow> take (off + length s) (move_at d off s) = take off d @ s"
  by (simp add: move_at_def)

lemma drop_move_at_beyond:
  "off \<le> length d \<Longrightarrow> off + length s \<le> n \<Longrightarrow> drop n (move_at d off s) = drop n d"
  by (simp add: move_at_def)

lemma move_at_append_left:
  "off = length a \<Longrightarrow> length s \<le> length b \<Longrightarrow>
     move_at (a @ b) off s = a @ s @ drop (length s) b"
  by (simp add: move_at_def)

section \<open>Byte order\<close>

text \<open>The memory of an integer on the little-endian host, and the byte swaps of \<^verbatim>\<open>include/rtmp_comm.h\<close>.\<close>

definition le16_bytes :: "UINT16 \<Rightarrow> bytes" where
  "le16_bytes w = [ucast w, ucast (drop_bit 8 w)]"

definition le32_bytes :: "UINT32 \<Rightarrow> bytes" where
  "le32_bytes w = [ucast w, ucast (drop_bit 8 w), ucast (drop_bit 16 w), ucast (drop_bit 24 w)]"

definition le64_bytes :: "UINT64 \<Rightarrow> bytes" where
  "le64_bytes w = map (\<lambda>i. ucast (drop_bit (8 * i) w)) [0..<8]"

definition le32_at :: "bytes \<Rightarrow> nat \<Rightarrow> UINT32" where
  "le32_at b i = ucast (b ! i) OR push_bit 8 (ucast (b ! (i + 1))) OR push_bit 16 (ucast (b ! (i + 2)))
     OR push_bit 24 (ucast (b ! (i + 3)))"

definition SWAP32 :: "UINT32 \<Rightarrow> UINT32" where
  "SWAP32 x = push_bit 24 (x AND 0xff) OR push_bit 8 (x AND 0xff00) OR drop_bit 8 (x AND 0xff0000)
     OR drop_bit 24 (x AND 0xff000000)"

definition SWAP64 :: "UINT64 \<Rightarrow> UINT64" where
  "SWAP64 x = push_bit 56 (x AND 0xff) OR push_bit 40 (x AND 0xff00) OR push_bit 24 (x AND 0xff0000)
     OR push_bit 8 (x AND 0xff000000) OR drop_bit 8 (x AND 0xff00000000) OR drop_bit 24 (x AND 0xff0000000000)
     OR drop_bit 40 (x AND 0xff000000000000) OR drop_bit 56 (x AND 0xff00000000000000)"

abbreviation cpu2be32 :: "UINT32 \<Rightarrow> UINT32" where "cpu2be32 \<equiv> SWAP32"
abbreviation cpu2be64 :: "UINT64 \<Rightarrow> UINT64" where "cpu2be64 \<equiv> SWAP64"

lemma length_le_bytes [simp, len_simps]: "length (le16_bytes v) = 2" "length (le32_bytes w) = 4" "length (le64_bytes x) = 8"
  by (simp_all add: le16_bytes_def le32_bytes_def le64_bytes_def)

lemma byte_masks:
  "(0xff :: 'a::len word) = push_bit 0 (mask 8)" "(0xff00 :: 'a::len word) = push_bit 8 (mask 8)"
  "(0xff0000 :: 'a::len word) = push_bit 16 (mask 8)" "(0xff000000 :: 'a::len word) = push_bit 24 (mask 8)"
  "(0xff00000000 :: 'a::len word) = push_bit 32 (mask 8)" "(0xff0000000000 :: 'a::len word) = push_bit 40 (mask 8)"
  "(0xff000000000000 :: 'a::len word) = push_bit 48 (mask 8)" "(0xff00000000000000 :: 'a::len word) = push_bit 56 (mask 8)"
  by (simp_all add: mask_eq_exp_minus_1 push_bit_eq_mult)

lemma SWAP32_bytes: "le32_bytes (SWAP32 w) = rev (le32_bytes w)"
  unfolding le32_bytes_def SWAP32_def byte_masks rev.simps append.simps list.inject
  by (intro conjI refl bit_word_eqI) (auto simp: bit_simps)

lemma upt8: "[0..<8] = [0, 1, 2, 3, 4, 5, 6, 7]"
  by (simp add: upt_rec)

lemma SWAP64_bytes: "le64_bytes (SWAP64 w) = rev (le64_bytes w)"
  unfolding le64_bytes_def SWAP64_def byte_masks upt8 rev.simps append.simps list.map list.inject
  by (intro conjI refl bit_word_eqI) (simp_all add: bit_simps flip: add.assoc)

lemma le32_at_bytes: "le32_at (a @ le32_bytes w @ z) (length a) = w"
proof (rule bit_word_eqI)
  fix n assume "n < LENGTH(32)"
  then show "bit (le32_at (a @ le32_bytes w @ z) (length a)) n = bit w n"
    by (cases "n < 24"; cases "n < 16") (auto simp: le32_at_def le32_bytes_def bit_simps nth_append not_less)
qed

lemma le32_bytes_at: "le32_bytes (le32_at b i) = [b ! i, b ! (i + 1), b ! (i + 2), b ! (i + 3)]"
  unfolding le32_at_def le32_bytes_def list.inject
  by (intro conjI refl bit_word_eqI) (auto simp: bit_simps dest: bit_imp_le_length)

section \<open>Bytewise exclusive or\<close>

definition xor_bytes :: "bytes \<Rightarrow> bytes \<Rightarrow> bytes" where
  "xor_bytes xs ys = map2 (XOR) xs ys"

lemma length_xor_bytes [simp]: "length (xor_bytes a b) = min (length a) (length b)"
  by (simp add: xor_bytes_def)

lemma nth_xor_bytes [simp]: "i < length a \<Longrightarrow> i < length b \<Longrightarrow> xor_bytes a b ! i = a ! i XOR b ! i"
  by (simp add: xor_bytes_def)

lemma xor_bytes_twice [simp]: "length a \<le> length b \<Longrightarrow> xor_bytes (xor_bytes a b) b = a"
  by (rule nth_equalityI) (auto simp: xor.assoc)

lemma xor_bytes_zero [simp]: "length a \<le> n \<Longrightarrow> xor_bytes a (replicate n 0) = a"
  by (rule nth_equalityI) auto

lemma xor_bytes_append: "length a = length c \<Longrightarrow> xor_bytes (a @ b) (c @ d) = xor_bytes a c @ xor_bytes b d"
  by (simp add: xor_bytes_def)

lemma xor_bytes_swap: "length a = length k \<Longrightarrow> length b = length k \<Longrightarrow> xor_bytes a k = b \<longleftrightarrow> a = xor_bytes b k"
  by auto

section \<open>Strictly increasing lists of integers\<close>

definition incr :: "int list \<Rightarrow> bool" where
  "incr xs \<longleftrightarrow> sorted_wrt (<) xs"

lemma incr_Nil [simp]: "incr []"
  by (simp add: incr_def)

lemma incr_Cons [simp]: "incr (x # xs) \<longleftrightarrow> (\<forall>y \<in> set xs. x < y) \<and> incr xs"
  by (simp add: incr_def)

lemma incr_append [simp]:
  "incr (xs @ ys) \<longleftrightarrow> incr xs \<and> incr ys \<and> (\<forall>x \<in> set xs. \<forall>y \<in> set ys. x < y)"
  by (auto simp: incr_def sorted_wrt_append)

lemma incr_distinct: "incr xs \<Longrightarrow> distinct xs"
  by (induction xs) auto

lemma incr_shift: "incr (map (\<lambda>x. f x - c) xs) = incr (map f xs)"
  by (induction xs) auto

section \<open>Counting with list updates\<close>

lemma filter_length_upd_same:
  assumes "i < length xs" and "P (xs ! i) = P x"
  shows "length (filter P (xs[i := x])) = length (filter P xs)"
proof -
  have "filter P xs = filter P (take i xs) @ filter P (xs ! i # drop (Suc i) xs)"
    using assms(1) by (metis filter_append id_take_nth_drop)
  then show ?thesis
    using assms by (simp add: upd_conv_take_nth_drop)
qed

lemma filter_length_upd_new:
  assumes "i < length xs" and "\<not> P (xs ! i)" and "P x"
  shows "length (filter P (xs[i := x])) = Suc (length (filter P xs))"
proof -
  have "filter P xs = filter P (take i xs) @ filter P (xs ! i # drop (Suc i) xs)"
    using assms(1) by (metis filter_append id_take_nth_drop)
  then show ?thesis
    using assms by (simp add: upd_conv_take_nth_drop)
qed

lemma filter_length_upd_del:
  assumes "i < length xs" and "P (xs ! i)" and "\<not> P x"
  shows "Suc (length (filter P (xs[i := x]))) = length (filter P xs)"
proof -
  have "filter P xs = filter P (take i xs) @ filter P (xs ! i # drop (Suc i) xs)"
    using assms(1) by (metis filter_append id_take_nth_drop)
  then show ?thesis
    using assms by (simp add: upd_conv_take_nth_drop)
qed

end
