(* ===== verification/BA_Reorder.thy ===== *)
theory BA_Reorder
  imports Driver_Prelude "HOL-Library.Multiset"
begin

text \<open>
  The receive side of a block-ack session: the reordering buffer of
  \<^verbatim>\<open>src/common/ba_action.c\<close>.

  The buffer of a session (\<^verbatim>\<open>struct reordering_list\<close>) is the list of its blocks in
  link order with the counter \<^verbatim>\<open>qlen\<close> that the code keeps beside it. A block carries
  its address, so that the pool's free list and the sessions' buffers can be compared
  for leaks and double use. What leaves the buffer is recorded in the order in which
  it leaves, as a log of \<open>rx_event\<close>s. A dereference of a NULL block sets \<open>null_deref\<close> and
  stops the loop that made it.

  The kernel's tick rate \<^verbatim>\<open>OS_HZ\<close> is a parameter (\<open>hz\<close>) of the operations that read it.
\<close>

section \<open>Sequence numbers\<close>

definition MAXSEQ :: UINT32 where
  "MAXSEQ = 0xFFF"

definition RESET_RCV_SEQ :: UINT16 where
  "RESET_RCV_SEQ = 0xFFFF"

definition SEQ_STEPONE :: "UINT16 \<Rightarrow> UINT16 \<Rightarrow> bool" where
  "SEQ_STEPONE s1 s2 \<longleftrightarrow> (ucast s1 :: UINT32) = (ucast s2 + 1) AND MAXSEQ"

definition SEQ_SMALLER :: "UINT16 \<Rightarrow> UINT16 \<Rightarrow> bool" where
  "SEQ_SMALLER s1 s2 \<longleftrightarrow>
     ((ucast s1 - ucast s2 :: UINT32) AND drop_bit 1 (MAXSEQ + 1)) \<noteq> 0"

section \<open>Blocks, lists, the block pool\<close>

record reordering_mpdu =
  blk_addr :: addr
  pPacket :: nat
  Sequence :: UINT16
  bAMSDU :: bool
  OpMode :: UINT8

record reordering_list =
  mpdus :: "reordering_mpdu list"
  qlen :: int

datatype rx_path = PathAMSDU | PathEAPOL | PathLegacy | Path8023

datatype rx_event = Up rx_path UINT16 nat | Release nat

record rx_ctx =
  freelist :: reordering_list
  events :: "rx_event list"
  null_deref :: bool

datatype REC_BLOCKACK_STATUS = Recipient_NONE | Recipient_USED | Recipient_HandleRes | Recipient_Accept

record BA_REC_ENTRY =
  rec_Wcid :: UINT8
  rec_TID :: UINT8
  rec_BAWinSize :: UINT8
  LastIndSeq :: UINT16
  rec_TimeOutValue :: UINT16
  LastIndSeqAtTimer :: ULONG
  nDropPacket :: ULONG
  rcvSeq :: ULONG
  REC_BA_Status :: REC_BLOCKACK_STATUS
  reorder_list :: reordering_list

record RX_BLK =
  rx_Sequence :: UINT16
  rx_pRxPacket :: nat
  rx_DataSize :: UINT16
  rx_AMSDU :: bool
  rx_EAP :: bool
  rx_OpMode :: UINT8
  RxWIWirelessCliID :: UINT8
  RxWITID :: UINT8

definition emit :: "rx_event \<Rightarrow> rx_ctx \<Rightarrow> rx_ctx" where
  "emit ev c = c\<lparr>events := events c @ [ev]\<rparr>"

definition Announce_Reordering_Packet :: "rx_ctx \<Rightarrow> reordering_mpdu \<Rightarrow> rx_ctx" where
  "Announce_Reordering_Packet c m =
     (if bAMSDU m then emit (Up PathAMSDU (Sequence m) (pPacket m)) c
      else emit (Up Path8023 (Sequence m) (pPacket m)) c)"

definition INDICATE_LEGACY_OR_AMSDU :: "rx_ctx \<Rightarrow> RX_BLK \<Rightarrow> rx_ctx" where
  "INDICATE_LEGACY_OR_AMSDU c b =
     (if rx_AMSDU b then emit (Up PathAMSDU (rx_Sequence b) (rx_pRxPacket b)) c
      else if rx_EAP b then emit (Up PathEAPOL (rx_Sequence b) (rx_pRxPacket b)) c
      else emit (Up PathLegacy (rx_Sequence b) (rx_pRxPacket b)) c)"

definition RELEASE_NDIS_PACKET :: "rx_ctx \<Rightarrow> nat \<Rightarrow> rx_ctx" where
  "RELEASE_NDIS_PACKET c p = emit (Release p) c"

section \<open>List operations\<close>

text \<open>The scan of \<^verbatim>\<open>ba_reordering_mpdu_insertsorted\<close>: \<open>None\<close> is the duplicate case.\<close>

fun insert_scan :: "reordering_mpdu list \<Rightarrow> reordering_mpdu \<Rightarrow> reordering_mpdu list option" where
  "insert_scan [] m = Some [m]"
| "insert_scan (x # xs) m =
     (if SEQ_SMALLER (Sequence x) (Sequence m) then map_option ((#) x) (insert_scan xs m)
      else if Sequence x = Sequence m then None
      else Some (m # x # xs))"

definition ba_reordering_mpdu_insertsorted ::
  "reordering_list \<Rightarrow> reordering_mpdu \<Rightarrow> bool \<times> reordering_list" where
  "ba_reordering_mpdu_insertsorted l m =
     (case insert_scan (mpdus l) m of
        None \<Rightarrow> (False, l)
      | Some ms \<Rightarrow> (True, l\<lparr>mpdus := ms, qlen := qlen l + 1\<rparr>))"

definition ba_enqueue :: "reordering_list \<Rightarrow> reordering_mpdu \<Rightarrow> reordering_list" where
  "ba_enqueue l m = l\<lparr>mpdus := m # mpdus l, qlen := qlen l + 1\<rparr>"

definition ba_dequeue :: "reordering_list \<Rightarrow> reordering_mpdu option \<times> reordering_list" where
  "ba_dequeue l =
     (if qlen l \<noteq> 0 then
        (case mpdus l of
           [] \<Rightarrow> (None, l\<lparr>qlen := qlen l - 1\<rparr>)
         | m # ms \<Rightarrow> (Some m, l\<lparr>mpdus := ms, qlen := qlen l - 1\<rparr>))
      else (None, l))"

definition ba_reordering_mpdu_dequeue ::
  "reordering_list \<Rightarrow> reordering_mpdu option \<times> reordering_list" where
  "ba_reordering_mpdu_dequeue l = ba_dequeue l"

definition ba_reordering_mpdu_probe :: "reordering_list \<Rightarrow> reordering_mpdu option" where
  "ba_reordering_mpdu_probe l = (case mpdus l of [] \<Rightarrow> None | m # _ \<Rightarrow> Some m)"

definition zero_mpdu :: "addr \<Rightarrow> reordering_mpdu" where
  "zero_mpdu a = \<lparr>blk_addr = a, pPacket = 0, Sequence = 0, bAMSDU = False, OpMode = 0\<rparr>"

definition ba_mpdu_blk_alloc :: "rx_ctx \<Rightarrow> reordering_mpdu option \<times> rx_ctx" where
  "ba_mpdu_blk_alloc c =
     (case ba_dequeue (freelist c) of
        (None, fl) \<Rightarrow> (None, c\<lparr>freelist := fl\<rparr>)
      | (Some m, fl) \<Rightarrow> (Some (zero_mpdu (blk_addr m)), c\<lparr>freelist := fl\<rparr>))"

definition ba_mpdu_blk_free :: "rx_ctx \<Rightarrow> reordering_mpdu \<Rightarrow> rx_ctx" where
  "ba_mpdu_blk_free c m = c\<lparr>freelist := ba_enqueue (freelist c) m\<rparr>"

text \<open>
  \<^verbatim>\<open>ba_reordering_resource_init\<close>: block \<open>i\<close> of the array of \<open>num\<close> blocks at
  \<^verbatim>\<open>mem\<close> has address \<open>base + i\<close>; \<open>None\<close> for \<^verbatim>\<open>mem\<close> is the failed allocation.
\<close>

fun build_freelist :: "addr \<Rightarrow> nat \<Rightarrow> reordering_list \<Rightarrow> reordering_list" where
  "build_freelist a 0 l = l"
| "build_freelist a (Suc n) l = build_freelist (Suc a) n (ba_enqueue l (zero_mpdu a))"

definition ba_reordering_resource_init :: "rx_ctx \<Rightarrow> addr option \<Rightarrow> nat \<Rightarrow> bool \<times> rx_ctx" where
  "ba_reordering_resource_init c mem num =
     (let c0 = c\<lparr>freelist := \<lparr>mpdus = [], qlen = 0\<rparr>\<rparr>
      in case mem of
           None \<Rightarrow> (False, c0)
         | Some a \<Rightarrow> (True, c0\<lparr>freelist := build_freelist a num (freelist c0)\<rparr>))"

section \<open>Handing blocks to the upper layer\<close>

text \<open>
  Each loop runs on the session's list; every iteration takes one block off the list,
  so the list's length bounds the iterations.
\<close>

lemma ba_dequeue_shorter [termination_simp]:
  "(Some m, l') = ba_dequeue l \<Longrightarrow> length (mpdus l') < length (mpdus l)"
  by (auto simp: ba_dequeue_def split: if_splits list.splits)

function in_order_loop ::
  "rx_ctx \<Rightarrow> reordering_list \<Rightarrow> UINT16 \<Rightarrow> UINT16 \<Rightarrow> rx_ctx \<times> reordering_list \<times> UINT16" where
  "in_order_loop c l StartSeq LastInd =
     (case ba_reordering_mpdu_probe l of
        None \<Rightarrow> (c, l, LastInd)
      | Some p \<Rightarrow>
          if \<not> SEQ_STEPONE (Sequence p) StartSeq then (c, l, LastInd)
          else (case ba_reordering_mpdu_dequeue l of
                  (None, l') \<Rightarrow> (c\<lparr>null_deref := True\<rparr>, l', LastInd)
                | (Some m, l') \<Rightarrow>
                    in_order_loop (ba_mpdu_blk_free (Announce_Reordering_Packet c m) m) l'
                      (Sequence m) (Sequence m)))"
  by pat_completeness auto
termination
  by (relation "measure (\<lambda>(c, l, s, t). length (mpdus l))")
     (auto simp: ba_reordering_mpdu_dequeue_def dest: ba_dequeue_shorter)

definition ba_indicate_reordering_mpdus_in_order ::
  "rx_ctx \<Rightarrow> BA_REC_ENTRY \<Rightarrow> UINT16 \<Rightarrow> rx_ctx \<times> BA_REC_ENTRY \<times> UINT16" where
  "ba_indicate_reordering_mpdus_in_order c e StartSeq =
     (case in_order_loop c (reorder_list e) StartSeq RESET_RCV_SEQ of
        (c', l', s) \<Rightarrow> (c', e\<lparr>reorder_list := l'\<rparr>, s))"

function le_seq_loop :: "rx_ctx \<Rightarrow> reordering_list \<Rightarrow> UINT16 \<Rightarrow> rx_ctx \<times> reordering_list" where
  "le_seq_loop c l Seq =
     (case ba_reordering_mpdu_probe l of
        None \<Rightarrow> (c, l)
      | Some p \<Rightarrow>
          if Sequence p = Seq \<or> SEQ_SMALLER (Sequence p) Seq then
            (case ba_reordering_mpdu_dequeue l of
               (None, l') \<Rightarrow> (c\<lparr>null_deref := True\<rparr>, l')
             | (Some m, l') \<Rightarrow>
                 le_seq_loop (ba_mpdu_blk_free (Announce_Reordering_Packet c m) m) l' Seq)
          else (c, l))"
  by pat_completeness auto
termination
  by (relation "measure (\<lambda>(c, l, s). length (mpdus l))")
     (auto simp: ba_reordering_mpdu_dequeue_def dest: ba_dequeue_shorter)

definition ba_indicate_reordering_mpdus_le_seq ::
  "rx_ctx \<Rightarrow> BA_REC_ENTRY \<Rightarrow> UINT16 \<Rightarrow> rx_ctx \<times> BA_REC_ENTRY" where
  "ba_indicate_reordering_mpdus_le_seq c e Seq =
     (case le_seq_loop c (reorder_list e) Seq of (c', l') \<Rightarrow> (c', e\<lparr>reorder_list := l'\<rparr>))"

function refresh_loop :: "rx_ctx \<Rightarrow> BA_REC_ENTRY \<Rightarrow> rx_ctx \<times> BA_REC_ENTRY" where
  "refresh_loop c e =
     (case ba_reordering_mpdu_dequeue (reorder_list e) of
        (None, l') \<Rightarrow> (c, e\<lparr>reorder_list := l'\<rparr>)
      | (Some m, l') \<Rightarrow>
          refresh_loop (ba_mpdu_blk_free (Announce_Reordering_Packet c m) m)
            (e\<lparr>reorder_list := l', LastIndSeq := Sequence m\<rparr>))"
  by pat_completeness auto
termination
  by (relation "measure (\<lambda>(c, e). length (mpdus (reorder_list e)))")
     (auto simp: ba_reordering_mpdu_dequeue_def dest: ba_dequeue_shorter)

definition ba_refresh_reordering_mpdus :: "rx_ctx \<Rightarrow> BA_REC_ENTRY \<Rightarrow> rx_ctx \<times> BA_REC_ENTRY" where
  "ba_refresh_reordering_mpdus c e =
     (case refresh_loop c e of (c', e') \<Rightarrow> (c', e'\<lparr>LastIndSeq := RESET_RCV_SEQ\<rparr>))"

section \<open>Time-outs\<close>

definition RTMP_TIME_AFTER :: "ULONG \<Rightarrow> ULONG \<Rightarrow> bool" where
  "RTMP_TIME_AFTER a b \<longleftrightarrow> sint (b - a) < 0"

definition REORDERING_PACKET_TIMEOUT :: "nat \<Rightarrow> nat" where
  "REORDERING_PACKET_TIMEOUT hz = (100 * hz) div 1000"

definition MAX_REORDERING_PACKET_TIMEOUT :: "nat \<Rightarrow> nat" where
  "MAX_REORDERING_PACKET_TIMEOUT hz = (3000 * hz) div 1000"

text \<open>
  The second time-out branch of \<^verbatim>\<open>ba_flush_reordering_timeout_mpdus\<close> (``flush one''):
  the last indicated sequence number is forced to move on by one.
\<close>

definition flush_one :: "rx_ctx \<Rightarrow> BA_REC_ENTRY \<Rightarrow> ULONG \<Rightarrow> rx_ctx \<times> BA_REC_ENTRY" where
  "flush_one c e Now32 =
     (let Seq = ucast ((ucast (LastIndSeq e) + 1) AND MAXSEQ) in
      case ba_indicate_reordering_mpdus_le_seq c e Seq of
        (c1, e1) \<Rightarrow>
          (case ba_indicate_reordering_mpdus_in_order c1
                  (e1\<lparr>LastIndSeqAtTimer := Now32, LastIndSeq := Seq\<rparr>) Seq of
             (c2, e2, s) \<Rightarrow>
               (c2, if s \<noteq> RESET_RCV_SEQ then e2\<lparr>LastIndSeq := s\<rparr> else e2)))"

definition ba_flush_reordering_timeout_mpdus ::
  "nat \<Rightarrow> rx_ctx \<Rightarrow> BA_REC_ENTRY \<Rightarrow> ULONG \<Rightarrow> rx_ctx \<times> BA_REC_ENTRY" where
  "ba_flush_reordering_timeout_mpdus hz c e Now32 =
     (if qlen (reorder_list e) \<le> 0 then (c, e)
      else if RTMP_TIME_AFTER Now32
                (LastIndSeqAtTimer e + of_nat (MAX_REORDERING_PACKET_TIMEOUT hz div 6))
              \<and> qlen (reorder_list e) > 1 then
        (case ba_refresh_reordering_mpdus c e of
           (c1, e1) \<Rightarrow> (c1, e1\<lparr>LastIndSeqAtTimer := Now32\<rparr>))
      else if RTMP_TIME_AFTER Now32
                (LastIndSeqAtTimer e + of_nat (REORDERING_PACKET_TIMEOUT hz))
              \<and> qlen (reorder_list e) > 0 then flush_one c e Now32
      else (c, e))"

section \<open>Receiving\<close>

definition ba_enqueue_reordering_packet ::
  "rx_ctx \<Rightarrow> BA_REC_ENTRY \<Rightarrow> RX_BLK \<Rightarrow> rx_ctx \<times> BA_REC_ENTRY" where
  "ba_enqueue_reordering_packet c e b =
     (let Seq = rx_Sequence b in
      case ba_mpdu_blk_alloc c of
        (blk, c1) \<Rightarrow>
          (case (if rx_EAP b then None else blk) of
             Some m \<Rightarrow>
               (let m1 = m\<lparr>Sequence := Seq, OpMode := rx_OpMode b, bAMSDU := rx_AMSDU b,
                           pPacket := rx_pRxPacket b\<rparr> in
                case ba_reordering_mpdu_insertsorted (reorder_list e) m1 of
                  (True, l') \<Rightarrow> (c1, e\<lparr>reorder_list := l'\<rparr>)
                | (False, l') \<Rightarrow>
                    (ba_mpdu_blk_free (RELEASE_NDIS_PACKET c1 (rx_pRxPacket b)) m1,
                     e\<lparr>reorder_list := l'\<rparr>))
           | None \<Rightarrow>
               (case ba_indicate_reordering_mpdus_le_seq c1 e Seq of
                  (c2, e2) \<Rightarrow>
                    (INDICATE_LEGACY_OR_AMSDU c2 b, e2\<lparr>LastIndSeq := Seq\<rparr>))))"

text \<open>
  The window start of case V of \<^verbatim>\<open>Indicate_AMPDU_Packet\<close>: the C code works on
  \<^verbatim>\<open>LONG\<close>s and adds 4096 to a negative difference by hand.
\<close>

definition WinStart :: "UINT16 \<Rightarrow> UINT8 \<Rightarrow> UINT16" where
  "WinStart Seq win =
     (let t = uint Seq - uint win - 1;
          t' = (if t < 0 then (uint MAXSEQ + 1) + t else t)
      in word_of_int ((t' + 1) AND uint MAXSEQ))"

text \<open>Case I of \<^verbatim>\<open>Indicate_AMPDU_Packet\<close>: the frame is the next in order.\<close>

definition Indicate_in_order ::
  "rx_ctx \<Rightarrow> BA_REC_ENTRY \<Rightarrow> RX_BLK \<Rightarrow> ULONG \<Rightarrow> rx_ctx \<times> BA_REC_ENTRY" where
  "Indicate_in_order c e b Now32 =
     (case ba_indicate_reordering_mpdus_in_order (INDICATE_LEGACY_OR_AMSDU c b)
             (e\<lparr>LastIndSeq := rx_Sequence b\<rparr>) (rx_Sequence b) of
        (c2, e2, s) \<Rightarrow>
          (c2, (if s \<noteq> RESET_RCV_SEQ then e2\<lparr>LastIndSeq := s\<rparr> else e2)
                 \<lparr>LastIndSeqAtTimer := Now32\<rparr>))"

text \<open>Case V: the frame lies beyond the window, which moves so that the frame is its end.\<close>

definition Indicate_beyond_window ::
  "rx_ctx \<Rightarrow> BA_REC_ENTRY \<Rightarrow> RX_BLK \<Rightarrow> ULONG \<Rightarrow> rx_ctx \<times> BA_REC_ENTRY" where
  "Indicate_beyond_window c e b Now32 =
     (let W = WinStart (rx_Sequence b) (rec_BAWinSize e) in
      case ba_indicate_reordering_mpdus_le_seq c e W of
        (c2, e2) \<Rightarrow>
          (case ba_enqueue_reordering_packet c2
                  (e2\<lparr>LastIndSeq := W, LastIndSeqAtTimer := Now32\<rparr>) b of
             (c3, e3) \<Rightarrow>
               (case ba_indicate_reordering_mpdus_in_order c3 e3 (LastIndSeq e3) of
                  (c4, e4, s) \<Rightarrow>
                    (c4, if s \<noteq> RESET_RCV_SEQ then e4\<lparr>LastIndSeq := s\<rparr> else e4))))"

text \<open>The case distinction of \<^verbatim>\<open>Indicate_AMPDU_Packet\<close> on the frame's sequence number.\<close>

definition Indicate_cases ::
  "rx_ctx \<Rightarrow> BA_REC_ENTRY \<Rightarrow> RX_BLK \<Rightarrow> ULONG \<Rightarrow> rx_ctx \<times> BA_REC_ENTRY" where
  "Indicate_cases c e b Now32 =
     (let Seq = rx_Sequence b in
      if LastIndSeq e = RESET_RCV_SEQ then
        (INDICATE_LEGACY_OR_AMSDU c b, e\<lparr>LastIndSeq := Seq, LastIndSeqAtTimer := Now32\<rparr>)
      else if SEQ_STEPONE Seq (LastIndSeq e) then Indicate_in_order c e b Now32
      else if Seq = LastIndSeq e then
        (RELEASE_NDIS_PACKET c (rx_pRxPacket b), e\<lparr>nDropPacket := nDropPacket e + 1\<rparr>)
      else if SEQ_SMALLER Seq (LastIndSeq e) then
        (RELEASE_NDIS_PACKET c (rx_pRxPacket b), e\<lparr>nDropPacket := nDropPacket e + 1\<rparr>)
      else if SEQ_SMALLER Seq
                (ucast ((ucast (LastIndSeq e) + ucast (rec_BAWinSize e) + 1) AND MAXSEQ)) then
        ba_enqueue_reordering_packet c e b
      else Indicate_beyond_window c e b Now32)"

text \<open>\<^verbatim>\<open>Indicate_AMPDU_Packet\<close> from the update of the last receive time on.\<close>

definition Indicate_AMPDU_session ::
  "nat \<Rightarrow> rx_ctx \<Rightarrow> BA_REC_ENTRY \<Rightarrow> RX_BLK \<Rightarrow> ULONG \<Rightarrow> rx_ctx \<times> BA_REC_ENTRY" where
  "Indicate_AMPDU_session hz c e b Now32 =
     (case ba_flush_reordering_timeout_mpdus hz c (e\<lparr>rcvSeq := ucast (rx_Sequence b)\<rparr>) Now32 of
        (c0, e0) \<Rightarrow> Indicate_cases c0 (e0\<lparr>LastIndSeqAtTimer := Now32\<rparr>) b Now32)"

text \<open>\<^verbatim>\<open>CntlEnqueueForRecv\<close> once the session is found: a block-ack request with \<open>StartSeq\<close>.\<close>

definition BAR_session :: "rx_ctx \<Rightarrow> BA_REC_ENTRY \<Rightarrow> UINT16 \<Rightarrow> rx_ctx \<times> BA_REC_ENTRY" where
  "BAR_session c e StartSeq =
     (if SEQ_SMALLER (LastIndSeq e) StartSeq then
        (case ba_indicate_reordering_mpdus_le_seq c e StartSeq of
           (c1, e1) \<Rightarrow>
             (c1, e1\<lparr>LastIndSeq := (if StartSeq = 0 then ucast MAXSEQ else StartSeq - 1)\<rparr>))
      else (c, e))"


section \<open>Sequence arithmetic\<close>

text \<open>
  \<open>sdist l s\<close> is how far \<open>s\<close> lies ahead of \<open>l\<close> on the circle of 4096 sequence
  numbers. The two comparison macros of the code are read off it.
\<close>

definition sdist :: "UINT16 \<Rightarrow> UINT16 \<Rightarrow> int" where
  "sdist l s = (uint s - uint l) mod 4096"

abbreviation is_seq :: "UINT16 \<Rightarrow> bool" where
  "is_seq s \<equiv> uint s < 4096"

lemma and_MAXSEQ: "(w AND MAXSEQ) = take_bit 12 w"
  by (simp add: MAXSEQ_def take_bit_eq_mask mask_eq_exp_minus_1)

lemma uint_ucast32: "uint (ucast (s :: UINT16) :: UINT32) = uint s"
  by (simp add: uint_up_ucast is_up)

lemma uint_ucast32_Suc: "uint (ucast (l :: UINT16) + 1 :: UINT32) = uint l + 1"
proof -
  have "uint l < 65536" using uint_bounded [of l] by simp
  then show ?thesis by (simp add: uint_word_ariths uint_ucast32)
qed

lemma uint_and_MAXSEQ: "uint (w AND MAXSEQ) = uint w mod 4096"
  by (simp only: and_MAXSEQ unsigned_take_bit_eq) (simp add: take_bit_eq_mod)

lemma SEQ_STEPONE_iff: "SEQ_STEPONE s l \<longleftrightarrow> uint s = (uint l + 1) mod 4096"
  by (simp only: SEQ_STEPONE_def word_uint_eq_iff uint_ucast32 uint_and_MAXSEQ uint_ucast32_Suc)

lemma odd_div_iff: "odd ((x::int) div 2048) \<longleftrightarrow> 2048 \<le> x mod 4096"
proof -
  have "x mod 4096 = 2048 * (x div 2048 mod 2) + x mod 2048"
    using mod_mult2_eq' [of x 2048 2] by simp
  then show ?thesis
    by (cases "even (x div 2048)") (simp_all add: even_iff_mod_2_eq_zero odd_iff_mod_2_eq_one not_le)
qed

lemma SEQ_SMALLER_iff: "SEQ_SMALLER a b \<longleftrightarrow> 2048 \<le> (uint a - uint b) mod 4096"
proof -
  let ?w = "ucast a - ucast b :: UINT32"
  have "drop_bit 1 (MAXSEQ + 1) = (2 ^ 11 :: UINT32)"
    by (simp add: MAXSEQ_def)
  then have "SEQ_SMALLER a b \<longleftrightarrow> bit ?w 11"
    by (simp add: SEQ_SMALLER_def and_exp_eq_0_iff_not_bit del: power_numeral)
  also have "?w = of_int (uint a - uint b)"
    by (simp only: of_int_diff of_int_uint)
  also have "bit (of_int (uint a - uint b) :: UINT32) 11 \<longleftrightarrow> bit (uint a - uint b) 11"
    by (simp only: bit_word_of_int_iff) simp
  also have "\<dots> \<longleftrightarrow> 2048 \<le> (uint a - uint b) mod 4096"
    by (simp add: bit_iff_odd odd_div_iff)
  finally show ?thesis .
qed

lemma sdist_range [simp]: "0 \<le> sdist l s" "sdist l s < 4096"
  by (simp_all add: sdist_def)

lemma sdist_self [simp]: "sdist l l = 0"
  by (simp add: sdist_def)

lemma sdist_diff: "(uint a - uint b) mod 4096 = (sdist l a - sdist l b) mod 4096"
proof -
  have "(sdist l a - sdist l b) mod 4096 = ((uint a - uint l) - (uint b - uint l)) mod 4096"
    unfolding sdist_def by (rule mod_diff_eq)
  then show ?thesis by simp
qed

lemma sdist_shift: "sdist m s = (sdist l s - sdist l m) mod 4096"
  using sdist_diff [of s m l] by (simp add: sdist_def)

lemma SEQ_SMALLER_sdist:
  assumes "- 2048 \<le> sdist l a - sdist l b" and "sdist l a - sdist l b < 2048"
  shows "SEQ_SMALLER a b \<longleftrightarrow> sdist l a < sdist l b"
proof -
  let ?d = "sdist l a - sdist l b"
  have "SEQ_SMALLER a b \<longleftrightarrow> 2048 \<le> ?d mod 4096"
    by (simp only: SEQ_SMALLER_iff sdist_diff [of a b l])
  also have "\<dots> \<longleftrightarrow> ?d < 0"
  proof (cases "?d < 0")
    case True
    then have "?d mod 4096 = ?d + 4096"
      using assms by (intro mod_pos_pos_trivial [of "?d + 4096" 4096, simplified]) auto
    with True assms show ?thesis by simp
  next
    case False
    with assms show ?thesis by simp
  qed
  finally show ?thesis by simp
qed

lemma sdist_ahead:
  assumes "sdist l m \<le> sdist l s"
  shows "sdist m s = sdist l s - sdist l m"
proof -
  have "0 \<le> sdist l s - sdist l m" and "sdist l s - sdist l m < 4096"
    using assms sdist_range [of l s] sdist_range [of l m] by linarith+
  then show ?thesis
    by (simp add: sdist_shift [of m s l])
qed

lemma is_seq_eqI: "is_seq a \<Longrightarrow> is_seq b \<Longrightarrow> sdist l a = sdist l b \<Longrightarrow> a = b"
proof -
  assume "is_seq a" "is_seq b" and eq: "sdist l a = sdist l b"
  have "(uint a - uint b) mod 4096 = 0"
    using sdist_diff [of a b l] eq by simp
  then have "uint a mod 4096 = uint b mod 4096"
    by (metis mod_eq_dvd_iff dvd_eq_mod_eq_0)
  with \<open>is_seq a\<close> \<open>is_seq b\<close> show "a = b"
    by (simp add: word_uint_eq_iff)
qed

lemma SEQ_STEPONE_sdist:
  assumes "is_seq s"
  shows "SEQ_STEPONE s l \<longleftrightarrow> sdist l s = 1"
proof
  assume "SEQ_STEPONE s l"
  then have "uint s = (uint l + 1) mod 4096" by (simp add: SEQ_STEPONE_iff)
  then have "sdist l s = ((uint l + 1) - uint l) mod 4096"
    unfolding sdist_def by (simp add: mod_diff_left_eq)
  then show "sdist l s = 1" by simp
next
  assume "sdist l s = 1"
  then have "(uint s - uint l + uint l) mod 4096 = (1 + uint l) mod 4096"
    unfolding sdist_def by (metis mod_add_left_eq)
  with assms show "SEQ_STEPONE s l"
    by (simp add: SEQ_STEPONE_iff add.commute)
qed


section \<open>The loops as prefixes of the buffer\<close>

text \<open>
  \<open>hand_up c ms\<close> is the context after the blocks \<open>ms\<close> were announced and freed in
  order. Each loop hands up a prefix of the buffer and keeps the rest: the run of
  consecutive sequence numbers, the blocks up to a sequence number, or everything.
\<close>

definition wf_list :: "reordering_list \<Rightarrow> bool" where
  "wf_list l \<longleftrightarrow> qlen l = int (length (mpdus l))"

definition up_event :: "reordering_mpdu \<Rightarrow> rx_event" where
  "up_event m = Up (if bAMSDU m then PathAMSDU else Path8023) (Sequence m) (pPacket m)"

definition hand_up :: "rx_ctx \<Rightarrow> reordering_mpdu list \<Rightarrow> rx_ctx" where
  "hand_up c ms = c\<lparr>events := events c @ map up_event ms,
      freelist := \<lparr>mpdus = rev ms @ mpdus (freelist c), qlen = qlen (freelist c) + int (length ms)\<rparr>\<rparr>"

definition keep_from :: "reordering_list \<Rightarrow> nat \<Rightarrow> reordering_list" where
  "keep_from l n = l\<lparr>mpdus := drop n (mpdus l), qlen := qlen l - int n\<rparr>"

fun consecutive :: "UINT16 \<Rightarrow> reordering_mpdu list \<Rightarrow> reordering_mpdu list" where
  "consecutive s [] = []"
| "consecutive s (m # ms) = (if SEQ_STEPONE (Sequence m) s then m # consecutive (Sequence m) ms else [])"

definition upto_seq :: "UINT16 \<Rightarrow> reordering_mpdu \<Rightarrow> bool" where
  "upto_seq s m \<longleftrightarrow> Sequence m = s \<or> SEQ_SMALLER (Sequence m) s"

lemma hand_up_Nil [simp]: "hand_up c [] = c"
  by (cases c) (simp add: hand_up_def)

lemma hand_up_append [simp]: "hand_up (hand_up c xs) ys = hand_up c (xs @ ys)"
  by (simp add: hand_up_def)

lemma announce_free: "ba_mpdu_blk_free (Announce_Reordering_Packet c m) m = hand_up c [m]"
  by (simp add: ba_mpdu_blk_free_def Announce_Reordering_Packet_def ba_enqueue_def emit_def
      hand_up_def up_event_def)

lemma keep_from_0 [simp]: "keep_from l 0 = l"
  by (simp add: keep_from_def)

lemma mpdus_keep_from [simp]: "mpdus (keep_from l n) = drop n (mpdus l)"
  by (simp add: keep_from_def)

lemma wf_keep_from [simp]: "wf_list l \<Longrightarrow> n \<le> length (mpdus l) \<Longrightarrow> wf_list (keep_from l n)"
  by (simp add: wf_list_def keep_from_def)

lemma ba_dequeue_Cons:
  "wf_list l \<Longrightarrow> mpdus l = m # ms \<Longrightarrow> ba_dequeue l = (Some m, keep_from l (Suc 0))"
  by (simp add: ba_dequeue_def wf_list_def keep_from_def)

lemma ba_dequeue_Nil: "wf_list l \<Longrightarrow> mpdus l = [] \<Longrightarrow> ba_dequeue l = (None, l)"
  by (simp add: ba_dequeue_def wf_list_def)

lemma probe_simps:
  "mpdus l = [] \<Longrightarrow> ba_reordering_mpdu_probe l = None"
  "mpdus l = m # ms \<Longrightarrow> ba_reordering_mpdu_probe l = Some m"
  by (simp_all add: ba_reordering_mpdu_probe_def)

lemmas list_op_simps = ba_reordering_mpdu_dequeue_def ba_dequeue_Cons ba_dequeue_Nil probe_simps announce_free

lemma keep_from_keep_from [simp]: "keep_from (keep_from l a) b = keep_from l (a + b)"
  by (simp add: keep_from_def add.commute)

lemma length_consecutive: "length (consecutive s ms) \<le> length ms"
  by (induction s ms rule: consecutive.induct) auto

declare in_order_loop.simps [simp del] le_seq_loop.simps [simp del] refresh_loop.simps [simp del]

lemma in_order_loop_eq:
  "wf_list l \<Longrightarrow> in_order_loop c l s t =
     (let ms = consecutive s (mpdus l) in
      (hand_up c ms, keep_from l (length ms), if ms = [] then t else Sequence (last ms)))"
proof (induction "mpdus l" arbitrary: c l s t)
  case Nil
  then show ?case
    by (subst in_order_loop.simps) (simp add: list_op_simps)
next
  case (Cons m ms)
  note hd = Cons.hyps(2) [symmetric] and wf = Cons.prems
  have IH: "in_order_loop c' (keep_from l (Suc 0)) s' t' =
      (let ns = consecutive s' ms in
       (hand_up c' ns, keep_from (keep_from l (Suc 0)) (length ns), if ns = [] then t' else Sequence (last ns)))"
    for c' s' t'
    using Cons.hyps(1) [of "keep_from l (Suc 0)"] wf hd by simp
  show ?case
    by (subst in_order_loop.simps) (simp add: list_op_simps hd wf IH Let_def)
qed

lemma le_seq_loop_eq:
  "wf_list l \<Longrightarrow> le_seq_loop c l s =
     (let ms = takeWhile (upto_seq s) (mpdus l) in (hand_up c ms, keep_from l (length ms)))"
proof (induction "mpdus l" arbitrary: c l)
  case Nil
  then show ?case
    by (subst le_seq_loop.simps) (simp add: list_op_simps)
next
  case (Cons m ms)
  note hd = Cons.hyps(2) [symmetric] and wf = Cons.prems
  have IH: "le_seq_loop c' (keep_from l (Suc 0)) s =
      (let ns = takeWhile (upto_seq s) ms in
       (hand_up c' ns, keep_from (keep_from l (Suc 0)) (length ns)))"
    for c'
    using Cons.hyps(1) [of "keep_from l (Suc 0)"] wf hd by simp
  show ?case
    by (subst le_seq_loop.simps) (simp add: list_op_simps hd wf IH Let_def upto_seq_def)
qed

lemma refresh_loop_eq:
  "wf_list (reorder_list e) \<Longrightarrow> \<exists>s. refresh_loop c e =
     (let ms = mpdus (reorder_list e) in
      (hand_up c ms, e\<lparr>reorder_list := keep_from (reorder_list e) (length ms), LastIndSeq := s\<rparr>))"
proof (induction "mpdus (reorder_list e)" arbitrary: c e)
  case Nil
  then have "refresh_loop c e = (c, e\<lparr>LastIndSeq := LastIndSeq e\<rparr>)"
    by (subst refresh_loop.simps) (simp add: list_op_simps)
  with Nil show ?case
    by (intro exI [of _ "LastIndSeq e"]) simp
next
  case (Cons m ms)
  note hd = Cons.hyps(2) [symmetric] and wf = Cons.prems
  let ?e = "e\<lparr>reorder_list := keep_from (reorder_list e) (Suc 0), LastIndSeq := Sequence m\<rparr>"
  obtain s where "refresh_loop (hand_up c [m]) ?e =
      (hand_up (hand_up c [m]) ms, ?e\<lparr>reorder_list := keep_from (keep_from (reorder_list e) (Suc 0)) (length ms), LastIndSeq := s\<rparr>)"
    using Cons.hyps(1) [of ?e "hand_up c [m]"] wf hd by (auto simp: Let_def)
  then show ?case
    by (subst refresh_loop.simps, intro exI [of _ s]) (simp add: list_op_simps hd wf Let_def)
qed

lemma in_order_eq:
  assumes "wf_list (reorder_list e)"
  shows "ba_indicate_reordering_mpdus_in_order c e s =
     (let ms = consecutive s (mpdus (reorder_list e)) in
      (hand_up c ms, e\<lparr>reorder_list := keep_from (reorder_list e) (length ms)\<rparr>,
       if ms = [] then RESET_RCV_SEQ else Sequence (last ms)))"
  using assms by (simp add: ba_indicate_reordering_mpdus_in_order_def in_order_loop_eq Let_def)

lemma le_seq_eq:
  assumes "wf_list (reorder_list e)"
  shows "ba_indicate_reordering_mpdus_le_seq c e s =
     (let ms = takeWhile (upto_seq s) (mpdus (reorder_list e)) in
      (hand_up c ms, e\<lparr>reorder_list := keep_from (reorder_list e) (length ms)\<rparr>))"
  using assms by (simp add: ba_indicate_reordering_mpdus_le_seq_def le_seq_loop_eq Let_def)

lemma refresh_eq:
  assumes "wf_list (reorder_list e)"
  shows "ba_refresh_reordering_mpdus c e =
     (let ms = mpdus (reorder_list e) in
      (hand_up c ms, e\<lparr>reorder_list := keep_from (reorder_list e) (length ms), LastIndSeq := RESET_RCV_SEQ\<rparr>))"
  using refresh_loop_eq [OF assms, of c]
  by (auto simp: ba_refresh_reordering_mpdus_def Let_def)


section \<open>Buffers inside a window\<close>

text \<open>
  \<open>buffered lo hi L ms\<close>: the blocks \<open>ms\<close> are in strictly increasing order of their
  distance from \<open>L\<close>, and all these distances lie in \<open>{lo..hi}\<close>.
\<close>

definition buffered :: "int \<Rightarrow> int \<Rightarrow> UINT16 \<Rightarrow> reordering_mpdu list \<Rightarrow> bool" where
  "buffered lo hi L ms \<longleftrightarrow>
     incr (map (\<lambda>m. sdist L (Sequence m)) ms) \<and>
     (\<forall>m \<in> set ms. is_seq (Sequence m) \<and> lo \<le> sdist L (Sequence m) \<and> sdist L (Sequence m) \<le> hi)"

lemma buffered_Nil [simp]: "buffered lo hi L []"
  by (simp add: buffered_def)

lemma buffered_mono: "buffered lo hi L ms \<Longrightarrow> lo' \<le> lo \<Longrightarrow> hi \<le> hi' \<Longrightarrow> buffered lo' hi' L ms"
  by (fastforce simp: buffered_def)

lemma buffered_Cons:
  "buffered lo hi L (m # ms) \<longleftrightarrow>
     is_seq (Sequence m) \<and> lo \<le> sdist L (Sequence m) \<and> sdist L (Sequence m) \<le> hi \<and>
     buffered (sdist L (Sequence m) + 1) hi L ms"
  by (fastforce simp: buffered_def)

lemma buffered_append:
  "buffered lo hi L (xs @ ys) \<Longrightarrow> buffered lo hi L xs \<and> buffered lo hi L ys"
  by (auto simp: buffered_def)

lemma buffered_rebase:
  assumes "buffered lo hi L ms" and "sdist L M \<le> lo"
  shows "buffered (lo - sdist L M) (hi - sdist L M) M ms"
proof -
  have d: "sdist M (Sequence m) = sdist L (Sequence m) - sdist L M" if "m \<in> set ms" for m
    using that assms by (intro sdist_ahead) (auto simp: buffered_def)
  have "map (\<lambda>m. sdist M (Sequence m)) ms = map (\<lambda>m. sdist L (Sequence m) - sdist L M) ms"
    using d by simp
  then have "incr (map (\<lambda>m. sdist M (Sequence m)) ms) = incr (map (\<lambda>m. sdist L (Sequence m)) ms)"
    by (simp only: incr_shift)
  with d assms(1) show ?thesis
    by (auto simp: buffered_def)
qed

lemma upto_seq_sdist:
  assumes "is_seq W" and "is_seq (Sequence m)"
    and "sdist L W \<le> 2048" and "sdist L (Sequence m) < 2048"
  shows "upto_seq W m \<longleftrightarrow> sdist L (Sequence m) \<le> sdist L W"
proof -
  have "SEQ_SMALLER (Sequence m) W \<longleftrightarrow> sdist L (Sequence m) < sdist L W"
    using assms sdist_range [of L W] sdist_range [of L "Sequence m"]
    by (intro SEQ_SMALLER_sdist) linarith+
  moreover have "Sequence m = W \<longleftrightarrow> sdist L (Sequence m) = sdist L W"
    using assms is_seq_eqI by blast
  ultimately show ?thesis by (auto simp: upto_seq_def)
qed

lemma upto_seq_split:
  assumes "buffered lo hi L ms" and "is_seq W" and "sdist L W \<le> 2048" and "hi < 2048"
  shows "buffered lo (min hi (sdist L W)) L (takeWhile (upto_seq W) ms)"
    and "buffered (max lo (sdist L W + 1)) hi L (drop (length (takeWhile (upto_seq W) ms)) ms)"
proof -
  let ?P = "\<lambda>m. sdist L (Sequence m) \<le> sdist L W"
  have eq: "takeWhile (upto_seq W) ms = takeWhile ?P ms"
    using assms by (intro takeWhile_cong) (auto simp: upto_seq_sdist buffered_def)
  have "buffered lo (min hi (sdist L W)) L (takeWhile ?P ms) \<and>
        buffered (max lo (sdist L W + 1)) hi L (drop (length (takeWhile ?P ms)) ms)"
    using assms(1)
  proof (induction ms arbitrary: lo)
    case (Cons m ms)
    show ?case
    proof (cases "?P m")
      case True
      from Cons.prems have "buffered (sdist L (Sequence m) + 1) hi L ms"
        by (simp add: buffered_Cons)
      from Cons.IH [OF this] True Cons.prems show ?thesis
        by (auto simp: buffered_Cons elim!: buffered_mono)
    next
      case False
      with Cons.prems show ?thesis
        by (auto simp: buffered_Cons elim!: buffered_mono)
    qed
  qed simp
  with eq show "buffered lo (min hi (sdist L W)) L (takeWhile (upto_seq W) ms)"
    and "buffered (max lo (sdist L W + 1)) hi L (drop (length (takeWhile (upto_seq W) ms)) ms)"
    by simp_all
qed

lemma insert_scan_buffered:
  assumes "buffered lo hi L ms" and "is_seq (Sequence m)" and "0 \<le> lo" and "hi < 2048"
    and "lo \<le> sdist L (Sequence m)" and "sdist L (Sequence m) \<le> hi"
  shows "case insert_scan ms m of
           None \<Rightarrow> Sequence m \<in> Sequence ` set ms
         | Some ms' \<Rightarrow> Sequence m \<notin> Sequence ` set ms \<and> buffered lo hi L ms' \<and>
                       (\<exists>xs ys. ms = xs @ ys \<and> ms' = xs @ m # ys)"
  using assms
proof (induction ms arbitrary: lo)
  case Nil
  then show ?case by (simp add: buffered_Cons)
next
  case (Cons x xs)
  have x: "is_seq (Sequence x)" "lo \<le> sdist L (Sequence x)" "sdist L (Sequence x) \<le> hi"
    and tl: "buffered (sdist L (Sequence x) + 1) hi L xs"
    using Cons.prems(1) by (auto simp: buffered_Cons)
  have smaller: "SEQ_SMALLER (Sequence x) (Sequence m) \<longleftrightarrow> sdist L (Sequence x) < sdist L (Sequence m)"
    using Cons.prems x by (intro SEQ_SMALLER_sdist) linarith+
  consider (less) "sdist L (Sequence x) < sdist L (Sequence m)" | (eq) "Sequence x = Sequence m"
    | (gr) "sdist L (Sequence m) < sdist L (Sequence x)"
    using is_seq_eqI [OF x(1) Cons.prems(2), of L] by linarith
  then show ?case
  proof cases
    case less
    with Cons.IH [OF tl] Cons.prems have
      "case insert_scan xs m of
           None \<Rightarrow> Sequence m \<in> Sequence ` set xs
         | Some ms' \<Rightarrow> Sequence m \<notin> Sequence ` set xs \<and>
              buffered (sdist L (Sequence x) + 1) hi L ms' \<and>
              (\<exists>us vs. xs = us @ vs \<and> ms' = us @ m # vs)"
      by auto
    moreover have "Sequence m \<noteq> Sequence x" using less by auto
    moreover have "\<exists>us' vs'. x # us @ vs = us' @ vs' \<and> x # us @ m # vs = us' @ m # vs'" for us vs
      by (metis append_Cons)
    ultimately show ?thesis
      using less smaller x by (fastforce simp: buffered_Cons split: option.splits)
  next
    case eq
    then show ?thesis using smaller by auto
  next
    case gr
    then have "Sequence x \<noteq> Sequence m" by auto
    moreover have "Sequence m \<notin> Sequence ` set xs"
      using tl gr by (auto simp: buffered_def)
    moreover have "buffered lo hi L (m # x # xs)"
      using Cons.prems gr x tl by (auto simp: buffered_Cons elim!: buffered_mono)
    ultimately show ?thesis
      using gr smaller by (auto intro: exI [of _ "[]"])
  qed
qed


section \<open>Forward progress\<close>

text \<open>
  \<open>advances L us L'\<close>: read without wrap-around, the sequence numbers \<open>us\<close> are strictly
  increasing, lie after \<open>L\<close> and not after \<open>L'\<close>.
\<close>

definition advances :: "UINT16 \<Rightarrow> UINT16 list \<Rightarrow> UINT16 \<Rightarrow> bool" where
  "advances L us L' \<longleftrightarrow>
     (\<exists>ds D. 0 \<le> D \<and> incr ds \<and> (\<forall>d \<in> set ds. 1 \<le> d \<and> d \<le> D) \<and>
        map uint us = map (\<lambda>d. (uint L + d) mod 4096) ds \<and> uint L' = (uint L + D) mod 4096)"

lemma advancesI:
  "0 \<le> D \<Longrightarrow> incr ds \<Longrightarrow> \<forall>d \<in> set ds. 1 \<le> d \<and> d \<le> D \<Longrightarrow>
   map uint us = map (\<lambda>d. (uint L + d) mod 4096) ds \<Longrightarrow> uint L' = (uint L + D) mod 4096 \<Longrightarrow>
   advances L us L'"
  by (auto simp: advances_def)

lemma advances_refl [simp]: "is_seq L \<Longrightarrow> advances L [] L"
  by (rule advancesI [of 0 "[]"]) auto

lemma advances_trans:
  assumes "advances L us M" and "advances M vs N"
  shows "advances L (us @ vs) N"
proof -
  obtain ds D where a: "0 \<le> D" "incr ds" "\<forall>d \<in> set ds. 1 \<le> d \<and> d \<le> D"
      "map uint us = map (\<lambda>d. (uint L + d) mod 4096) ds" "uint M = (uint L + D) mod 4096"
    using assms(1) by (auto simp: advances_def)
  obtain es E where b: "0 \<le> E" "incr es" "\<forall>d \<in> set es. 1 \<le> d \<and> d \<le> E"
      "map uint vs = map (\<lambda>d. (uint M + d) mod 4096) es" "uint N = (uint M + E) mod 4096"
    using assms(2) by (auto simp: advances_def)
  have sh: "(uint M + d) mod 4096 = (uint L + (d + D)) mod 4096" for d
    unfolding a(5) mod_add_left_eq by (simp add: ac_simps)
  have inc: "incr (map (\<lambda>d. d + D) es)"
    using b(2) incr_shift [of "\<lambda>x. x" "- D" es] by simp
  show ?thesis
  proof (rule advancesI [of "E + D" "ds @ map (\<lambda>d. d + D) es"])
    show "incr (ds @ map (\<lambda>d. d + D) es)"
      using a(2,3) b(3) inc by fastforce
    show "map uint (us @ vs) = map (\<lambda>d. (uint L + d) mod 4096) (ds @ map (\<lambda>d. d + D) es)"
      by (simp add: a(4) b(4) sh)
    show "uint N = (uint L + (E + D)) mod 4096" by (simp add: b(5) sh)
    show "\<forall>d \<in> set (ds @ map (\<lambda>d. d + D) es). 1 \<le> d \<and> d \<le> E + D"
      using a(1,3) b(1,3) by fastforce
  qed (use a b in simp)
qed

lemma uint_sdist: "is_seq s \<Longrightarrow> (uint l + sdist l s) mod 4096 = uint s"
  by (simp add: sdist_def mod_add_right_eq)

lemma advances_buffered:
  assumes "buffered 1 hi L ms" and "hi \<le> sdist L W" and "is_seq W"
  shows "advances L (map Sequence ms) W"
proof (rule advancesI [of "sdist L W" "map (\<lambda>m. sdist L (Sequence m)) ms"])
  show "map uint (map Sequence ms) = map (\<lambda>d. (uint L + d) mod 4096) (map (\<lambda>m. sdist L (Sequence m)) ms)"
    using assms(1) by (auto simp: buffered_def uint_sdist)
qed (use assms in \<open>auto simp: buffered_def uint_sdist\<close>)

lemma advances_one:
  "is_seq s \<Longrightarrow> 1 \<le> sdist L s \<Longrightarrow> advances L [s] s"
  by (rule advancesI [of "sdist L s" "[sdist L s]"]) (auto simp: uint_sdist)

lemma advances_none:
  "is_seq s \<Longrightarrow> advances L [] s"
  by (rule advancesI [of "sdist L s" "[]"]) (auto simp: uint_sdist)

lemma consecutive_spec:
  assumes "buffered 1 hi L ms" and "is_seq L"
  shows "let t = consecutive L ms; L' = (if t = [] then L else Sequence (last t)) in
           advances L (map Sequence t) L' \<and> is_seq L' \<and>
           buffered 2 hi L' (drop (length t) ms)"
  using assms
proof (induction ms arbitrary: L hi)
  case Nil
  then show ?case by (simp add: Let_def)
next
  case (Cons m ms)
  have m: "is_seq (Sequence m)" "1 \<le> sdist L (Sequence m)" "sdist L (Sequence m) \<le> hi"
    and tl: "buffered (sdist L (Sequence m) + 1) hi L ms"
    using Cons.prems by (auto simp: buffered_Cons)
  show ?case
  proof (cases "sdist L (Sequence m) = 1")
    case True
    then have step: "SEQ_STEPONE (Sequence m) L" by (simp add: SEQ_STEPONE_sdist m)
    let ?t = "consecutive (Sequence m) ms"
    let ?L = "if ?t = [] then Sequence m else Sequence (last ?t)"
    have "buffered 1 (hi - 1) (Sequence m) ms"
      using buffered_rebase [OF tl, of "Sequence m"] True by simp
    then have "advances (Sequence m) (map Sequence ?t) ?L \<and> is_seq ?L \<and>
               buffered 2 (hi - 1) ?L (drop (length ?t) ms)"
      using Cons.IH m(1) by (simp add: Let_def)
    moreover have "advances L [Sequence m] (Sequence m)"
      using m by (intro advances_one) auto
    ultimately show ?thesis
      using step advances_trans [of L "[Sequence m]" "Sequence m"]
      by (auto simp: Let_def elim!: buffered_mono)
  next
    case False
    then have "\<not> SEQ_STEPONE (Sequence m) L" by (simp add: SEQ_STEPONE_sdist m)
    moreover have "buffered 2 hi L (m # ms)"
      using False m tl by (simp add: buffered_Cons)
    ultimately show ?thesis using Cons.prems by (simp add: Let_def)
  qed
qed


section \<open>The session invariant and its steps\<close>

abbreviation buffer :: "BA_REC_ENTRY \<Rightarrow> reordering_mpdu list" where
  "buffer e \<equiv> mpdus (reorder_list e)"

abbreviation win :: "BA_REC_ENTRY \<Rightarrow> int" where
  "win e \<equiv> uint (rec_BAWinSize e)"

definition wf_lists :: "rx_ctx \<Rightarrow> BA_REC_ENTRY \<Rightarrow> bool" where
  "wf_lists c e \<longleftrightarrow> wf_list (freelist c) \<and> wf_list (reorder_list e) \<and> 1 \<le> win e"

text \<open>An open window: \<open>lo\<close> is 2 between the operations and 1 while one of them runs.\<close>

definition open_session :: "int \<Rightarrow> rx_ctx \<Rightarrow> BA_REC_ENTRY \<Rightarrow> bool" where
  "open_session lo c e \<longleftrightarrow>
     wf_lists c e \<and> is_seq (LastIndSeq e) \<and> buffered lo (win e) (LastIndSeq e) (buffer e)"

definition wf_session :: "rx_ctx \<Rightarrow> BA_REC_ENTRY \<Rightarrow> bool" where
  "wf_session c e \<longleftrightarrow>
     (if LastIndSeq e = RESET_RCV_SEQ then wf_lists c e \<and> buffer e = [] else open_session 2 c e)"

fun up_seqs :: "rx_event list \<Rightarrow> UINT16 list" where
  "up_seqs [] = []"
| "up_seqs (Up p s k # evs) = s # up_seqs evs"
| "up_seqs (Release k # evs) = up_seqs evs"

fun ev_pkt :: "rx_event \<Rightarrow> nat" where
  "ev_pkt (Up p s k) = k"
| "ev_pkt (Release k) = k"

definition packets :: "rx_ctx \<Rightarrow> BA_REC_ENTRY \<Rightarrow> nat multiset" where
  "packets c e = mset (map ev_pkt (events c)) + mset (map pPacket (buffer e))"

definition blocks :: "rx_ctx \<Rightarrow> BA_REC_ENTRY \<Rightarrow> addr multiset" where
  "blocks c e = mset (map blk_addr (mpdus (freelist c))) + mset (map blk_addr (buffer e))"

text \<open>
  \<open>progress X c e c' e'\<close>: the blocks of the pool and the buffer are the same, the
  packets are those of before and \<open>X\<close>, no NULL block was followed, and what went up
  moved the last indicated sequence number forward.
\<close>

definition progress :: "nat multiset \<Rightarrow> rx_ctx \<Rightarrow> BA_REC_ENTRY \<Rightarrow> rx_ctx \<Rightarrow> BA_REC_ENTRY \<Rightarrow> bool" where
  "progress X c e c' e' \<longleftrightarrow>
     rec_BAWinSize e' = rec_BAWinSize e \<and> null_deref c' = null_deref c \<and>
     blocks c' e' = blocks c e \<and> packets c' e' = packets c e + X \<and>
     (\<exists>evs. events c' = events c @ evs \<and> advances (LastIndSeq e) (up_seqs evs) (LastIndSeq e'))"

lemma up_seqs_append [simp]: "up_seqs (xs @ ys) = up_seqs xs @ up_seqs ys"
  by (induction xs rule: up_seqs.induct) auto

lemma up_seqs_up_event [simp]: "up_seqs (map up_event ms) = map Sequence ms"
  by (induction ms) (simp_all add: up_event_def)

lemma ev_pkt_up_event [simp]: "ev_pkt (up_event m) = pPacket m"
  by (simp add: up_event_def)

lemma is_seq_not_RESET [simp]: "is_seq s \<Longrightarrow> s \<noteq> RESET_RCV_SEQ"
  by (auto simp: RESET_RCV_SEQ_def)

lemma RESET_not_is_seq [simp]: "\<not> is_seq RESET_RCV_SEQ"
  by (simp add: RESET_RCV_SEQ_def)

lemma win_bound: "win e \<le> 255"
  using uint_bounded [of "rec_BAWinSize e"] by simp

lemma progress_refl: "is_seq (LastIndSeq e) \<Longrightarrow> progress {#} c e c e"
  by (auto simp: progress_def)

lemma progress_trans:
  assumes "progress X c e c1 e1" and "progress Y c1 e1 c2 e2"
  shows "progress (X + Y) c e c2 e2"
  using assms by (fastforce simp: progress_def ac_simps intro: advances_trans)

lemma hand_up_simps [simp]:
  "events (hand_up c ms) = events c @ map up_event ms"
  "null_deref (hand_up c ms) = null_deref c"
  "mpdus (freelist (hand_up c ms)) = rev ms @ mpdus (freelist c)"
  "wf_list (freelist (hand_up c ms)) = wf_list (freelist c)"
  by (auto simp: hand_up_def wf_list_def)

lemma drain_conserves:
  assumes "buffer e = ms @ rest"
  shows "blocks (hand_up c ms) (e\<lparr>reorder_list := keep_from (reorder_list e) (length ms), LastIndSeq := s\<rparr>) = blocks c e"
    and "packets (hand_up c ms) (e\<lparr>reorder_list := keep_from (reorder_list e) (length ms), LastIndSeq := s\<rparr>) = packets c e"
  using assms by (auto simp: blocks_def packets_def comp_def)

lemma drain_progress:
  assumes "open_session lo c e" and "buffer e = ms @ rest"
    and "advances (LastIndSeq e) (map Sequence ms) L'" and "is_seq L'"
    and "buffered lo' (win e) L' rest"
  shows "open_session lo' (hand_up c ms) (e\<lparr>reorder_list := keep_from (reorder_list e) (length ms), LastIndSeq := L'\<rparr>)"
    and "progress {#} c e (hand_up c ms) (e\<lparr>reorder_list := keep_from (reorder_list e) (length ms), LastIndSeq := L'\<rparr>)"
  using assms drain_conserves [OF assms(2)]
  by (auto simp: open_session_def wf_lists_def progress_def)

lemma le_seq_progress:
  assumes "open_session 1 c e" and "is_seq W" and "sdist (LastIndSeq e) W \<le> 2048"
    and "ba_indicate_reordering_mpdus_le_seq c e W = (c', e')"
  shows "open_session 1 c' (e'\<lparr>LastIndSeq := W\<rparr>)" and "progress {#} c e c' (e'\<lparr>LastIndSeq := W\<rparr>)"
proof -
  let ?L = "LastIndSeq e" and ?ms = "takeWhile (upto_seq W) (buffer e)"
  let ?rest = "drop (length ?ms) (buffer e)"
  have wf: "wf_list (reorder_list e)" and buf: "buffered 1 (win e) ?L (buffer e)"
    using assms(1) by (auto simp: open_session_def wf_lists_def)
  have eqs: "c' = hand_up c ?ms" "e' = e\<lparr>reorder_list := keep_from (reorder_list e) (length ?ms)\<rparr>"
    using assms(4) le_seq_eq [OF wf, of c W] by (auto simp: Let_def)
  have split: "buffered 1 (min (win e) (sdist ?L W)) ?L ?ms"
      "buffered (max 1 (sdist ?L W + 1)) (win e) ?L ?rest"
    using upto_seq_split [OF buf assms(2,3)] win_bound [of e] by auto
  have adv: "advances ?L (map Sequence ?ms) W"
    using split(1) assms(2) by (intro advances_buffered) auto
  have "buffered 1 (win e) W ?rest"
    using buffered_rebase [OF split(2), of W] sdist_range [of ?L W] by (auto elim!: buffered_mono)
  moreover have "buffer e = ?ms @ ?rest"
    by (simp add: dropWhile_eq_drop [symmetric])
  ultimately show "open_session 1 c' (e'\<lparr>LastIndSeq := W\<rparr>)"
      and "progress {#} c e c' (e'\<lparr>LastIndSeq := W\<rparr>)"
    using drain_progress [OF assms(1) _ adv assms(2)] by (auto simp: eqs)
qed

lemma consecutive_prefix: "ms = consecutive s ms @ drop (length (consecutive s ms)) ms"
  by (induction s ms rule: consecutive.induct) auto

lemma in_order_progress:
  assumes "open_session 1 c e"
    and "ba_indicate_reordering_mpdus_in_order c e (LastIndSeq e) = (c', e', s)"
  shows "open_session 2 c' (if s \<noteq> RESET_RCV_SEQ then e'\<lparr>LastIndSeq := s\<rparr> else e')"
    and "progress {#} c e c' (if s \<noteq> RESET_RCV_SEQ then e'\<lparr>LastIndSeq := s\<rparr> else e')"
proof -
  let ?L = "LastIndSeq e" and ?ms = "consecutive (LastIndSeq e) (buffer e)"
  let ?L' = "if ?ms = [] then ?L else Sequence (last ?ms)"
  have wf: "wf_list (reorder_list e)" and buf: "buffered 1 (win e) ?L (buffer e)" and L: "is_seq ?L"
    using assms(1) by (auto simp: open_session_def wf_lists_def)
  have eqs: "c' = hand_up c ?ms" "e' = e\<lparr>reorder_list := keep_from (reorder_list e) (length ?ms)\<rparr>"
      "s = (if ?ms = [] then RESET_RCV_SEQ else Sequence (last ?ms))"
    using assms(2) in_order_eq [OF wf, of c ?L] by (auto simp: Let_def)
  have spec: "advances ?L (map Sequence ?ms) ?L'" "is_seq ?L'"
      "buffered 2 (win e) ?L' (drop (length ?ms) (buffer e))"
    using consecutive_spec [OF buf L] by (auto simp: Let_def)
  have final: "(if s \<noteq> RESET_RCV_SEQ then e'\<lparr>LastIndSeq := s\<rparr> else e') =
      e\<lparr>reorder_list := keep_from (reorder_list e) (length ?ms), LastIndSeq := ?L'\<rparr>"
    using spec(2) by (auto simp: eqs)
  show "open_session 2 c' (if s \<noteq> RESET_RCV_SEQ then e'\<lparr>LastIndSeq := s\<rparr> else e')"
    and "progress {#} c e c' (if s \<noteq> RESET_RCV_SEQ then e'\<lparr>LastIndSeq := s\<rparr> else e')"
    using drain_progress [OF assms(1) consecutive_prefix spec] unfolding final eqs(1) by auto
qed


definition normal_frame :: "RX_BLK \<Rightarrow> bool" where
  "normal_frame b \<longleftrightarrow> is_seq (rx_Sequence b) \<and> \<not> rx_EAP b"

lemma alloc_Cons:
  assumes "wf_list (freelist c)" and "mpdus (freelist c) = m # ms"
  shows "ba_mpdu_blk_alloc c = (Some (zero_mpdu (blk_addr m)), c\<lparr>freelist := keep_from (freelist c) (Suc 0)\<rparr>)"
  using assms by (simp add: ba_mpdu_blk_alloc_def ba_dequeue_Cons)

lemma enqueue_progress:
  assumes "open_session lo c e" and "0 \<le> lo" and "normal_frame b" and "mpdus (freelist c) \<noteq> []"
    and "lo \<le> sdist (LastIndSeq e) (rx_Sequence b)" and "sdist (LastIndSeq e) (rx_Sequence b) \<le> win e"
    and "ba_enqueue_reordering_packet c e b = (c', e')"
  shows "open_session lo c' e' \<and> progress {#rx_pRxPacket b#} c e c' e' \<and> LastIndSeq e' = LastIndSeq e"
proof -
  obtain m ms where fl: "mpdus (freelist c) = m # ms" using assms(4) by (cases "mpdus (freelist c)") auto
  have wf: "wf_list (freelist c)" "wf_list (reorder_list e)"
    and buf: "buffered lo (win e) (LastIndSeq e) (buffer e)" and L: "is_seq (LastIndSeq e)"
    using assms(1) by (auto simp: open_session_def wf_lists_def)
  let ?c = "c\<lparr>freelist := keep_from (freelist c) (Suc 0)\<rparr>"
  let ?m = "(zero_mpdu (blk_addr m))\<lparr>Sequence := rx_Sequence b, OpMode := rx_OpMode b,
              bAMSDU := rx_AMSDU b, pPacket := rx_pRxPacket b\<rparr>"
  have m: "Sequence ?m = rx_Sequence b" "blk_addr ?m = blk_addr m" "pPacket ?m = rx_pRxPacket b"
    by (simp_all add: zero_mpdu_def)
  have scan: "case insert_scan (buffer e) ?m of
           None \<Rightarrow> True
         | Some ms' \<Rightarrow> buffered lo (win e) (LastIndSeq e) ms' \<and>
                       (\<exists>xs ys. buffer e = xs @ ys \<and> ms' = xs @ ?m # ys)"
    using insert_scan_buffered [OF buf, of ?m] assms(2,3,5,6) win_bound [of e] m(1)
    by (auto simp: normal_frame_def split: option.splits)
  show ?thesis
  proof (cases "insert_scan (buffer e) ?m")
    case None
    then have "c' = ba_mpdu_blk_free (RELEASE_NDIS_PACKET ?c (rx_pRxPacket b)) ?m" "e' = e"
      using assms(3,7)
      by (auto simp: ba_enqueue_reordering_packet_def normal_frame_def alloc_Cons [OF wf(1) fl]
          ba_reordering_mpdu_insertsorted_def Let_def)
    then show ?thesis
      using assms(1) fl m L
      by (auto simp: open_session_def wf_lists_def progress_def blocks_def packets_def wf_list_def
          ba_mpdu_blk_free_def ba_enqueue_def RELEASE_NDIS_PACKET_def emit_def keep_from_def)
  next
    case (Some ms')
    then have "c' = ?c" "e' = e\<lparr>reorder_list := (reorder_list e)\<lparr>mpdus := ms', qlen := qlen (reorder_list e) + 1\<rparr>\<rparr>"
      using assms(3,7)
      by (auto simp: ba_enqueue_reordering_packet_def normal_frame_def alloc_Cons [OF wf(1) fl]
          ba_reordering_mpdu_insertsorted_def Let_def)
    then show ?thesis
      using assms(1) fl m L scan Some
      by (auto simp: open_session_def wf_lists_def progress_def blocks_def packets_def wf_list_def
          keep_from_def)
  qed
qed

lemma freelist_size:
  assumes "blocks c' e' = blocks c e"
  shows "length (mpdus (freelist c')) + length (buffer e') = length (mpdus (freelist c)) + length (buffer e)"
proof -
  have "size (blocks c' e') = size (blocks c e)" using assms by simp
  then show ?thesis by (simp add: blocks_def)
qed

lemma buffered_length: "buffered lo hi L ms \<Longrightarrow> lo \<le> hi + 1 \<Longrightarrow> int (length ms) \<le> hi - lo + 1"
proof (induction ms arbitrary: lo)
  case (Cons m ms)
  then have "int (length ms) \<le> hi - (sdist L (Sequence m) + 1) + 1"
    by (intro Cons.IH) (auto simp: buffered_Cons)
  with Cons.prems show ?case by (auto simp: buffered_Cons)
qed simp

text \<open>The pool holds a block for every place of the window that the buffer leaves free.\<close>

definition enough_blocks :: "rx_ctx \<Rightarrow> BA_REC_ENTRY \<Rightarrow> bool" where
  "enough_blocks c e \<longleftrightarrow> win e < int (length (mpdus (freelist c)) + length (buffer e))"

lemma enough_blocks_free:
  assumes "open_session 1 c e" and "enough_blocks c e"
  shows "mpdus (freelist c) \<noteq> []"
  using assms buffered_length [of 1 "win e" "LastIndSeq e" "buffer e"]
  by (auto simp: open_session_def enough_blocks_def wf_lists_def)

lemma progress_enough:
  "progress X c e c' e' \<Longrightarrow> enough_blocks c e \<Longrightarrow> enough_blocks c' e'"
  using freelist_size [of c' e' c e] by (auto simp: progress_def enough_blocks_def)

lemma open_session_mono: "open_session lo c e \<Longrightarrow> lo' \<le> lo \<Longrightarrow> open_session lo' c e"
  by (auto simp: open_session_def elim!: buffered_mono)

lemma next_seq:
  assumes "is_seq l" and "s = (ucast ((ucast (l :: UINT16) + 1) AND MAXSEQ) :: UINT16)"
  shows "uint s = (uint l + 1) mod 4096" and "is_seq s" and "sdist l s = 1"
proof -
  let ?w = "(ucast l + 1) AND MAXSEQ :: UINT32"
  have w: "uint ?w = (uint l + 1) mod 4096"
    by (simp only: uint_and_MAXSEQ uint_ucast32_Suc)
  then have "uint ?w < 4096" by simp
  then have "uint (ucast ?w :: UINT16) = uint ?w"
    by (simp add: unsigned_ucast_eq take_bit_int_eq_self_iff)
  with w assms(2) show u: "uint s = (uint l + 1) mod 4096" by simp
  then show "is_seq s" by simp
  with u show "sdist l s = 1" using SEQ_STEPONE_iff SEQ_STEPONE_sdist by blast
qed

definition stalled :: "nat \<Rightarrow> BA_REC_ENTRY \<Rightarrow> ULONG \<Rightarrow> bool" where
  "stalled hz e Now32 \<longleftrightarrow>
     RTMP_TIME_AFTER Now32 (LastIndSeqAtTimer e + of_nat (MAX_REORDERING_PACKET_TIMEOUT hz div 6))
     \<and> qlen (reorder_list e) > 1"

lemma open_session_frame [simp]:
  "open_session lo c (e\<lparr>LastIndSeqAtTimer := t\<rparr>) = open_session lo c e"
  "open_session lo c (e\<lparr>nDropPacket := n\<rparr>) = open_session lo c e"
  "open_session lo c (e\<lparr>rcvSeq := r\<rparr>) = open_session lo c e"
  by (simp_all add: open_session_def wf_lists_def)

lemma progress_frame [simp]:
  "progress X c e c' (e'\<lparr>LastIndSeqAtTimer := t\<rparr>) = progress X c e c' e'"
  "progress X c e c' (e'\<lparr>nDropPacket := n\<rparr>) = progress X c e c' e'"
  "progress X c (e\<lparr>rcvSeq := r\<rparr>) c' e' = progress X c e c' e'"
  "progress X c (e\<lparr>LastIndSeqAtTimer := t\<rparr>) c' e' = progress X c e c' e'"
  by (simp_all add: progress_def blocks_def packets_def)

lemma flush_one_progress:
  assumes "open_session 2 c e" and "flush_one c e Now32 = (c', e')"
  shows "open_session 2 c' e' \<and> progress {#} c e c' e'"
proof -
  have L: "is_seq (LastIndSeq e)" using assms(1) by (simp add: open_session_def)
  define Seq where "Seq = (ucast ((ucast (LastIndSeq e) + 1) AND MAXSEQ) :: UINT16)"
  have Seq: "is_seq Seq" "sdist (LastIndSeq e) Seq = 1" using next_seq [OF L Seq_def] by auto
  obtain c1 e1 where le: "ba_indicate_reordering_mpdus_le_seq c e Seq = (c1, e1)" by fastforce
  let ?e1 = "e1\<lparr>LastIndSeqAtTimer := Now32, LastIndSeq := Seq\<rparr>"
  have e1: "?e1 = (e1\<lparr>LastIndSeq := Seq\<rparr>)\<lparr>LastIndSeqAtTimer := Now32\<rparr>" by simp
  obtain c2 e2 s where io: "ba_indicate_reordering_mpdus_in_order c1 ?e1 Seq = (c2, e2, s)"
    by (metis prod_cases3)
  have p1: "open_session 1 c1 ?e1" "progress {#} c e c1 ?e1"
    unfolding e1 open_session_frame progress_frame
    using le_seq_progress [OF open_session_mono [OF assms(1)] Seq(1) _ le] Seq(2) by simp_all
  have "c' = c2" "e' = (if s \<noteq> RESET_RCV_SEQ then e2\<lparr>LastIndSeq := s\<rparr> else e2)"
    using assms(2) le io by (simp_all add: flush_one_def Seq_def [symmetric] Let_def)
  then show ?thesis
    using in_order_progress [OF p1(1), of c2 e2 s] io progress_trans [OF p1(2)] by auto
qed

lemma flush_progress:
  assumes "open_session 2 c e" and "\<not> stalled hz e Now32"
    and "ba_flush_reordering_timeout_mpdus hz c e Now32 = (c', e')"
  shows "open_session 2 c' e' \<and> progress {#} c e c' e'"
proof -
  have "(c', e') = (c, e) \<or> (c', e') = flush_one c e Now32"
    using assms(2,3) by (auto simp: ba_flush_reordering_timeout_mpdus_def stalled_def split: if_splits)
  moreover have "is_seq (LastIndSeq e)" using assms(1) by (simp add: open_session_def)
  ultimately show ?thesis
    using assms(1) flush_one_progress by (metis prod.inject progress_refl)
qed


section \<open>Receiving a frame\<close>

lemma window_end:
  fixes e :: BA_REC_ENTRY
  assumes "is_seq l" and "E = (ucast ((ucast l + ucast (rec_BAWinSize e) + 1) AND MAXSEQ) :: UINT16)"
  shows "is_seq E" and "sdist l E = win e + 1"
proof -
  let ?w = "ucast l + ucast (rec_BAWinSize e) + 1 :: UINT32"
  have "uint (ucast (rec_BAWinSize e) :: UINT32) = win e"
    by (simp add: uint_up_ucast is_up)
  then have w: "uint ?w = uint l + win e + 1"
    using assms(1) win_bound [of e] by (simp add: uint_word_ariths uint_ucast32)
  have m: "uint (?w AND MAXSEQ) = (uint l + win e + 1) mod 4096"
    by (simp only: uint_and_MAXSEQ w)
  then have "uint (?w AND MAXSEQ) < 4096" by simp
  then have "uint (ucast (?w AND MAXSEQ) :: UINT16) = uint (?w AND MAXSEQ)"
    by (simp add: unsigned_ucast_eq take_bit_int_eq_self_iff)
  with m assms(2) have u: "uint E = (uint l + win e + 1) mod 4096" by simp
  then show "is_seq E" by simp
  have "sdist l E = (uint l + win e + 1 - uint l) mod 4096"
    unfolding sdist_def u by (rule mod_diff_left_eq)
  also have "\<dots> = win e + 1" using win_bound [of e] by simp
  finally show "sdist l E = win e + 1" .
qed

lemma WinStart_spec:
  assumes "is_seq s" and "win e + 1 \<le> sdist l s"
  shows "is_seq (WinStart s (rec_BAWinSize e))"
    and "sdist l (WinStart s (rec_BAWinSize e)) = sdist l s - win e"
    and "sdist (WinStart s (rec_BAWinSize e)) s = win e"
proof -
  let ?W = "WinStart s (rec_BAWinSize e)"
  have M: "uint MAXSEQ = mask 12" by (simp add: MAXSEQ_def mask_eq_exp_minus_1)
  have A: "x AND uint MAXSEQ = x mod 4096" for x :: int
    unfolding M take_bit_eq_mask [symmetric] by (simp add: take_bit_eq_mod)
  have b: "0 \<le> win e" "win e \<le> 255" using win_bound [of e] by auto
  have "?W = word_of_int ((uint s - win e) mod 4096)"
    unfolding WinStart_def Let_def A by (simp add: MAXSEQ_def)
  then have u: "uint ?W = (uint s - win e) mod 4096"
    by (simp add: uint_word_of_int_eq take_bit_int_eq_self_iff)
  then show "is_seq ?W" by simp
  have "sdist l ?W = (sdist l s - win e) mod 4096"
    unfolding sdist_def u by (simp add: mod_simps algebra_simps)
  also have "\<dots> = sdist l s - win e"
    using assms(2) b sdist_range [of l s] by (intro mod_pos_pos_trivial) linarith+
  finally show d: "sdist l ?W = sdist l s - win e" .
  show "sdist ?W s = win e"
    using sdist_ahead [of l ?W s] d b by simp
qed

text \<open>The five cases of \<^verbatim>\<open>Indicate_AMPDU_Packet\<close>, by the distance from the last indicated frame.\<close>

lemma SEQ_cases:
  assumes "is_seq l" and "is_seq s" and "win e \<ge> 1"
    and "E = (ucast ((ucast l + ucast (rec_BAWinSize e) + 1) AND MAXSEQ) :: UINT16)"
  shows "SEQ_STEPONE s l \<longleftrightarrow> sdist l s = 1"
    and "s = l \<longleftrightarrow> sdist l s = 0"
    and "SEQ_SMALLER s l \<longleftrightarrow> 2048 \<le> sdist l s"
    and "sdist l s < 2048 \<Longrightarrow> SEQ_SMALLER s E \<longleftrightarrow> sdist l s \<le> win e"
proof -
  show "SEQ_STEPONE s l \<longleftrightarrow> sdist l s = 1" using assms(2) by (rule SEQ_STEPONE_sdist)
  show "s = l \<longleftrightarrow> sdist l s = 0" using is_seq_eqI [OF assms(2,1), of l] by auto
  show "SEQ_SMALLER s l \<longleftrightarrow> 2048 \<le> sdist l s" by (simp add: SEQ_SMALLER_iff sdist_def)
  assume lt: "sdist l s < 2048"
  have "sdist l E = win e + 1" using window_end [OF assms(1,4)] by blast
  then show "SEQ_SMALLER s E \<longleftrightarrow> sdist l s \<le> win e"
    using SEQ_SMALLER_sdist [of l s E] lt win_bound [of e] sdist_range [of l s] assms(3) by auto
qed

lemma indicate_progress:
  assumes "open_session 1 c e" and "is_seq (rx_Sequence b)" and "1 \<le> sdist (LastIndSeq e) (rx_Sequence b)"
    and "buffered lo (win e) (rx_Sequence b) (buffer e)"
  shows "open_session lo (INDICATE_LEGACY_OR_AMSDU c b) (e\<lparr>LastIndSeq := rx_Sequence b\<rparr>)"
    and "progress {#rx_pRxPacket b#} c e (INDICATE_LEGACY_OR_AMSDU c b) (e\<lparr>LastIndSeq := rx_Sequence b\<rparr>)"
  using assms advances_one [OF assms(2,3)]
  by (auto simp: open_session_def wf_lists_def progress_def blocks_def packets_def
      INDICATE_LEGACY_OR_AMSDU_def emit_def)

lemma Indicate_in_order_progress:
  assumes "open_session 2 c e" and "is_seq (rx_Sequence b)" and "sdist (LastIndSeq e) (rx_Sequence b) = 1"
    and "Indicate_in_order c e b Now32 = (c', e')"
  shows "open_session 2 c' e' \<and> progress {#rx_pRxPacket b#} c e c' e'"
proof -
  let ?c1 = "INDICATE_LEGACY_OR_AMSDU c b" and ?e1 = "e\<lparr>LastIndSeq := rx_Sequence b\<rparr>"
  have "buffered 2 (win e) (LastIndSeq e) (buffer e)" using assms(1) by (simp add: open_session_def)
  then have "buffered 1 (win e) (rx_Sequence b) (buffer e)"
    using buffered_rebase [of 2 "win e" "LastIndSeq e" "buffer e" "rx_Sequence b"] assms(3)
    by (auto elim!: buffered_mono)
  then have p1: "open_session 1 ?c1 ?e1" "progress {#rx_pRxPacket b#} c e ?c1 ?e1"
    using indicate_progress [OF open_session_mono [OF assms(1)], where lo = 1 and b = b] assms(2,3) by auto
  obtain c2 e2 s where io: "ba_indicate_reordering_mpdus_in_order ?c1 ?e1 (rx_Sequence b) = (c2, e2, s)"
    by (metis prod_cases3)
  let ?e2 = "if s \<noteq> RESET_RCV_SEQ then e2\<lparr>LastIndSeq := s\<rparr> else e2"
  have "c' = c2" "e' = ?e2\<lparr>LastIndSeqAtTimer := Now32\<rparr>"
    using assms(4) io by (simp_all only: Indicate_in_order_def prod.case prod.inject)
  moreover have "open_session 2 c2 ?e2" "progress {#} ?c1 ?e1 c2 ?e2"
    using in_order_progress [OF p1(1)] io by simp_all
  ultimately show ?thesis
    using progress_trans [OF p1(2)] by (simp del: if_split)
qed

lemma Indicate_beyond_window_progress:
  assumes "open_session 2 c e" and "normal_frame b" and "enough_blocks c e"
    and "win e + 1 \<le> sdist (LastIndSeq e) (rx_Sequence b)" and "sdist (LastIndSeq e) (rx_Sequence b) < 2048"
    and "Indicate_beyond_window c e b Now32 = (c', e')"
  shows "open_session 2 c' e' \<and> progress {#rx_pRxPacket b#} c e c' e'"
proof -
  let ?W = "WinStart (rx_Sequence b) (rec_BAWinSize e)"
  have s: "is_seq (rx_Sequence b)" using assms(2) by (simp add: normal_frame_def)
  note W = WinStart_spec [OF s assms(4)]
  have Wle: "sdist (LastIndSeq e) ?W \<le> 2048"
    using W(2) assms(5) uint_ge_0 [of "rec_BAWinSize e"] by linarith
  obtain c1 e1 where le: "ba_indicate_reordering_mpdus_le_seq c e ?W = (c1, e1)" by fastforce
  let ?e1 = "e1\<lparr>LastIndSeq := ?W, LastIndSeqAtTimer := Now32\<rparr>"
  have p1: "open_session 1 c1 ?e1" "progress {#} c e c1 ?e1"
    unfolding open_session_frame progress_frame
    using le_seq_progress [OF open_session_mono [OF assms(1)] W(1) Wle le] by simp_all
  have w1: "win ?e1 = win e" "LastIndSeq ?e1 = ?W" using p1(2) by (simp_all add: progress_def)
  obtain c2 e2 where enq: "ba_enqueue_reordering_packet c1 ?e1 b = (c2, e2)" by fastforce
  have "enough_blocks c1 ?e1" using progress_enough [OF p1(2) assms(3)] .
  then have "mpdus (freelist c1) \<noteq> []" by (rule enough_blocks_free [OF p1(1)])
  moreover have "1 \<le> win e" using assms(1) by (simp add: open_session_def wf_lists_def)
  ultimately have p2: "open_session 1 c2 e2" "progress {#rx_pRxPacket b#} c1 ?e1 c2 e2"
    using enqueue_progress [OF p1(1) _ assms(2) _ _ _ enq] W(3) w1 by auto
  obtain c3 e3 t where io: "ba_indicate_reordering_mpdus_in_order c2 e2 (LastIndSeq e2) = (c3, e3, t)"
    by (metis prod_cases3)
  have "c' = c3" "e' = (if t \<noteq> RESET_RCV_SEQ then e3\<lparr>LastIndSeq := t\<rparr> else e3)"
    using assms(6) le enq io by (simp_all add: Indicate_beyond_window_def Let_def)
  then show ?thesis
    using in_order_progress [OF p2(1) io] progress_trans [OF progress_trans [OF p1(2) p2(2)]] by auto
qed

lemma timer_frame:
  "ba_indicate_reordering_mpdus_in_order c e s = (c', e', t) \<Longrightarrow> LastIndSeqAtTimer e' = LastIndSeqAtTimer e"
  "ba_indicate_reordering_mpdus_le_seq c e s = (c', e') \<Longrightarrow> LastIndSeqAtTimer e' = LastIndSeqAtTimer e"
  by (auto simp: ba_indicate_reordering_mpdus_in_order_def ba_indicate_reordering_mpdus_le_seq_def
      split: prod.splits)

lemma enqueue_timer:
  "LastIndSeqAtTimer (snd (ba_enqueue_reordering_packet c e b)) = LastIndSeqAtTimer e"
  by (auto simp: ba_enqueue_reordering_packet_def Let_def dest: timer_frame(2)
      split: prod.splits option.splits if_splits bool.splits)

lemma Indicate_cases_timer:
  assumes "LastIndSeqAtTimer e = Now32"
  shows "LastIndSeqAtTimer (snd (Indicate_cases c e b Now32)) = Now32"
proof -
  have "LastIndSeqAtTimer (snd (Indicate_in_order c e b Now32)) = Now32"
    by (auto simp: Indicate_in_order_def split: prod.splits)
  moreover have "LastIndSeqAtTimer (snd (Indicate_beyond_window c e b Now32)) = Now32"
  proof -
    let ?W = "WinStart (rx_Sequence b) (rec_BAWinSize e)"
    obtain c1 e1 where 1: "ba_indicate_reordering_mpdus_le_seq c e ?W = (c1, e1)" by fastforce
    obtain c2 e2 where 2: "ba_enqueue_reordering_packet c1
        (e1\<lparr>LastIndSeq := ?W, LastIndSeqAtTimer := Now32\<rparr>) b = (c2, e2)" by fastforce
    obtain c3 e3 s where 3: "ba_indicate_reordering_mpdus_in_order c2 e2 (LastIndSeq e2) = (c3, e3, s)"
      by (metis prod_cases3)
    show ?thesis
      using enqueue_timer [of c1 "e1\<lparr>LastIndSeq := ?W, LastIndSeqAtTimer := Now32\<rparr>" b]
      by (simp add: Indicate_beyond_window_def Let_def 1 2 3 timer_frame(1) [OF 3])
  qed
  ultimately show ?thesis
    using assms by (simp add: Indicate_cases_def Let_def enqueue_timer)
qed

text \<open>One received frame in an open window.\<close>

lemma Indicate_cases_sdist:
  assumes "is_seq (LastIndSeq e)" and "is_seq (rx_Sequence b)" and "1 \<le> win e"
    and "d = sdist (LastIndSeq e) (rx_Sequence b)"
  shows "Indicate_cases c e b Now32 =
     (if d = 1 then Indicate_in_order c e b Now32
      else if d = 0 \<or> 2048 \<le> d then
        (RELEASE_NDIS_PACKET c (rx_pRxPacket b), e\<lparr>nDropPacket := nDropPacket e + 1\<rparr>)
      else if d \<le> win e then ba_enqueue_reordering_packet c e b
      else Indicate_beyond_window c e b Now32)"
  using SEQ_cases [OF assms(1-3) refl] assms(1)
  by (simp add: Indicate_cases_def Let_def assms(4))

lemma drop_progress:
  assumes "open_session 2 c e"
  shows "open_session 2 (RELEASE_NDIS_PACKET c p) (e\<lparr>nDropPacket := n\<rparr>)"
    and "progress {#p#} c e (RELEASE_NDIS_PACKET c p) (e\<lparr>nDropPacket := n\<rparr>)"
  using assms by (auto simp: open_session_def wf_lists_def progress_def blocks_def packets_def
      RELEASE_NDIS_PACKET_def emit_def)

lemma Indicate_cases_progress:
  assumes "open_session 2 c e" and "normal_frame b" and "enough_blocks c e"
    and "Indicate_cases c e b Now32 = (c', e')"
  shows "open_session 2 c' e' \<and> progress {#rx_pRxPacket b#} c e c' e'"
proof -
  let ?d = "sdist (LastIndSeq e) (rx_Sequence b)"
  have s: "is_seq (rx_Sequence b)" using assms(2) by (simp add: normal_frame_def)
  have L: "is_seq (LastIndSeq e)" and w: "1 \<le> win e"
    using assms(1) by (simp_all add: open_session_def wf_lists_def)
  note res = assms(4) [unfolded Indicate_cases_sdist [OF L s w refl]]
  consider (I) "?d = 1" | (II) "?d = 0 \<or> 2048 \<le> ?d" | (IV) "2 \<le> ?d" "?d < 2048" "?d \<le> win e"
    | (V) "2 \<le> ?d" "?d < 2048" "win e + 1 \<le> ?d"
    using sdist_range(1) [of "LastIndSeq e" "rx_Sequence b"] by linarith
  then show ?thesis
  proof cases
    case I
    then show ?thesis using Indicate_in_order_progress [OF assms(1) s] res by auto
  next
    case II
    then show ?thesis using drop_progress [OF assms(1)] res by auto
  next
    case IV
    have fl: "mpdus (freelist c) \<noteq> []"
      by (rule enough_blocks_free [OF open_session_mono [OF assms(1)] assms(3)]) simp
    have "ba_enqueue_reordering_packet c e b = (c', e')" using IV res by simp
    from enqueue_progress [OF assms(1) _ assms(2) fl IV(1,3) this] show ?thesis by simp
  next
    case V
    then show ?thesis using Indicate_beyond_window_progress [OF assms(1-3)] res by auto
  qed
qed

lemma Indicate_open:
  assumes "open_session 2 c e" and "normal_frame b" and "enough_blocks c e" and "\<not> stalled hz e Now32"
    and "Indicate_AMPDU_session hz c e b Now32 = (c', e')"
  shows "open_session 2 c' e' \<and> progress {#rx_pRxPacket b#} c e c' e' \<and> LastIndSeqAtTimer e' = Now32"
proof -
  let ?e = "e\<lparr>rcvSeq := ucast (rx_Sequence b)\<rparr>"
  obtain c0 e0 where fl: "ba_flush_reordering_timeout_mpdus hz c ?e Now32 = (c0, e0)" by fastforce
  have "\<not> stalled hz ?e Now32" using assms(4) by (simp add: stalled_def)
  then have f: "open_session 2 c0 e0" "progress {#} c e c0 e0"
    using flush_progress [of c ?e hz Now32 c0 e0] assms(1) fl by simp_all
  define e1 where "e1 = e0\<lparr>LastIndSeqAtTimer := Now32\<rparr>"
  have p1: "open_session 2 c0 e1" "progress {#} c e c0 e1" using f by (simp_all add: e1_def)
  have res: "Indicate_cases c0 e1 b Now32 = (c', e')"
    using assms(5) by (simp add: Indicate_AMPDU_session_def fl e1_def)
  have "open_session 2 c' e' \<and> progress {#rx_pRxPacket b#} c0 e1 c' e'"
    by (rule Indicate_cases_progress [OF p1(1) assms(2) progress_enough [OF p1(2) assms(3)] res])
  moreover have "LastIndSeqAtTimer e' = Now32"
    using Indicate_cases_timer [of e1 Now32 c0 b] res by (simp add: e1_def)
  ultimately show ?thesis using progress_trans [OF p1(2)] by auto
qed

text \<open>A run of received frames, each with the time of its arrival.\<close>

fun rx_run :: "nat \<Rightarrow> rx_ctx \<Rightarrow> BA_REC_ENTRY \<Rightarrow> (RX_BLK \<times> ULONG) list \<Rightarrow> rx_ctx \<times> BA_REC_ENTRY" where
  "rx_run hz c e [] = (c, e)"
| "rx_run hz c e ((b, t) # bs) =
     (case Indicate_AMPDU_session hz c e b t of (c', e') \<Rightarrow> rx_run hz c' e' bs)"

text \<open>No two consecutive arrivals are further apart than the flush-all time-out.\<close>

fun steady :: "nat \<Rightarrow> ULONG \<Rightarrow> (RX_BLK \<times> ULONG) list \<Rightarrow> bool" where
  "steady hz t0 [] = True"
| "steady hz t0 ((b, t) # bs) =
     (\<not> RTMP_TIME_AFTER t (t0 + of_nat (MAX_REORDERING_PACKET_TIMEOUT hz div 6)) \<and> steady hz t bs)"

lemma rx_run_open:
  assumes "open_session 2 c e" and "enough_blocks c e" and "\<forall>(b, t) \<in> set bs. normal_frame b"
    and "steady hz (LastIndSeqAtTimer e) bs" and "rx_run hz c e bs = (c', e')"
  shows "open_session 2 c' e' \<and> progress (mset (map (\<lambda>(b, t). rx_pRxPacket b) bs)) c e c' e'"
  using assms
proof (induction bs arbitrary: c e)
  case Nil
  then show ?case by (simp add: progress_refl open_session_def)
next
  case (Cons x bs)
  obtain b t where x: "x = (b, t)" by (cases x)
  obtain c1 e1 where ind: "Indicate_AMPDU_session hz c e b t = (c1, e1)" by fastforce
  have "\<not> stalled hz e t" using Cons.prems(4) by (simp add: x stalled_def)
  then have s: "open_session 2 c1 e1" "progress {#rx_pRxPacket b#} c e c1 e1" "LastIndSeqAtTimer e1 = t"
    using Indicate_open [OF Cons.prems(1) _ Cons.prems(2) _ ind] Cons.prems(3) by (simp_all add: x)
  have "open_session 2 c' e' \<and> progress (mset (map (\<lambda>(b, t). rx_pRxPacket b) bs)) c1 e1 c' e'"
    using Cons.prems s by (intro Cons.IH progress_enough [OF s(2)]) (auto simp: x ind)
  then show ?case
    using progress_trans [OF s(2)] by (auto simp: x)
qed

lemma Indicate_first:
  assumes "wf_lists c e" and "buffer e = []" and "LastIndSeq e = RESET_RCV_SEQ" and "is_seq (rx_Sequence b)"
    and "Indicate_AMPDU_session hz c e b t = (c', e')"
  shows "open_session 2 c' e'" and "LastIndSeq e' = rx_Sequence b" and "LastIndSeqAtTimer e' = t"
    and "\<exists>p. events c' = events c @ [Up p (rx_Sequence b) (rx_pRxPacket b)]"
    and "rec_BAWinSize e' = rec_BAWinSize e" and "null_deref c' = null_deref c"
    and "blocks c' e' = blocks c e" and "packets c' e' = packets c e + {#rx_pRxPacket b#}"
proof -
  have "qlen (reorder_list e) \<le> 0" using assms(1,2) by (simp add: wf_lists_def wf_list_def)
  then have "c' = INDICATE_LEGACY_OR_AMSDU c b"
      "e' = e\<lparr>rcvSeq := ucast (rx_Sequence b), LastIndSeq := rx_Sequence b, LastIndSeqAtTimer := t\<rparr>"
    using assms(3,5)
    by (simp_all add: Indicate_AMPDU_session_def ba_flush_reordering_timeout_mpdus_def
        Indicate_cases_def Let_def)
  then show "open_session 2 c' e'" and "LastIndSeq e' = rx_Sequence b" and "LastIndSeqAtTimer e' = t"
    and "\<exists>p. events c' = events c @ [Up p (rx_Sequence b) (rx_pRxPacket b)]"
    and "rec_BAWinSize e' = rec_BAWinSize e" and "null_deref c' = null_deref c"
    and "blocks c' e' = blocks c e" and "packets c' e' = packets c e + {#rx_pRxPacket b#}"
    using assms(1,2,4)
    by (auto simp: INDICATE_LEGACY_OR_AMSDU_def emit_def open_session_def wf_lists_def blocks_def packets_def)
qed


section \<open>Properties\<close>

definition steady_from :: "nat \<Rightarrow> BA_REC_ENTRY \<Rightarrow> (RX_BLK \<times> ULONG) list \<Rightarrow> bool" where
  "steady_from hz e bs =
     (if LastIndSeq e = RESET_RCV_SEQ then (case bs of [] \<Rightarrow> True | (b, t) # r \<Rightarrow> steady hz t r)
      else steady hz (LastIndSeqAtTimer e) bs)"

lemma enough_blocks_cong:
  "blocks c' e' = blocks c e \<Longrightarrow> rec_BAWinSize e' = rec_BAWinSize e \<Longrightarrow> enough_blocks c e \<Longrightarrow> enough_blocks c' e'"
  using freelist_size [of c' e' c e] by (simp add: enough_blocks_def)

lemma rx_run_first:
  assumes "wf_session c e" and "LastIndSeq e = RESET_RCV_SEQ" and "enough_blocks c e"
    and "\<forall>(b, t) \<in> set ((b, t) # bs). normal_frame b" and "steady hz t bs"
    and "rx_run hz c e ((b, t) # bs) = (c', e')"
  obtains c1 e1 p where "open_session 2 c1 e1" and "LastIndSeq e1 = rx_Sequence b"
    and "events c1 = events c @ [Up p (rx_Sequence b) (rx_pRxPacket b)]"
    and "null_deref c1 = null_deref c" and "blocks c1 e1 = blocks c e"
    and "packets c1 e1 = packets c e + {#rx_pRxPacket b#}"
    and "open_session 2 c' e'" and "progress (mset (map (\<lambda>(b, t). rx_pRxPacket b) bs)) c1 e1 c' e'"
proof -
  obtain c1 e1 where ind: "Indicate_AMPDU_session hz c e b t = (c1, e1)" by fastforce
  have "wf_lists c e" "buffer e = []" using assms(1,2) by (simp_all add: wf_session_def)
  note f = Indicate_first [OF this assms(2) _ ind]
  have s: "is_seq (rx_Sequence b)" using assms(4) by (simp add: normal_frame_def)
  obtain p where "events c1 = events c @ [Up p (rx_Sequence b) (rx_pRxPacket b)]"
    using f(4) [OF s] by blast
  moreover have "open_session 2 c' e' \<and> progress (mset (map (\<lambda>(b, t). rx_pRxPacket b) bs)) c1 e1 c' e'"
    using rx_run_open [OF f(1) [OF s] enough_blocks_cong [OF f(7) [OF s] f(5) [OF s] assms(3)], of bs hz c' e']
      assms(4-6) f(3) [OF s] ind by simp
  ultimately show thesis using that f [OF s] by blast
qed


lemma rx_run_keeps:
  assumes "wf_session c e" and "enough_blocks c e" and "\<forall>(b, t) \<in> set bs. normal_frame b"
    and "steady_from hz e bs" and "rx_run hz c e bs = (c', e')"
  shows "wf_session c' e' \<and> blocks c' e' = blocks c e \<and> null_deref c' = null_deref c \<and>
         packets c' e' = packets c e + mset (map (\<lambda>(b, t). rx_pRxPacket b) bs)"
proof -
  have wf: "open_session 2 c2 e2 \<Longrightarrow> wf_session c2 e2" for c2 e2
    by (auto simp: wf_session_def open_session_def)
  show ?thesis
  proof (cases "LastIndSeq e = RESET_RCV_SEQ \<and> bs \<noteq> []")
    case False
    show ?thesis
    proof (cases "bs = []")
      case True
      with assms(1,5) show ?thesis by simp
    next
      case ne: False
      with False assms(1) have "open_session 2 c e" by (simp add: wf_session_def)
      then show ?thesis
        using rx_run_open [of c e bs hz c' e'] assms(2-5) ne False wf
        by (auto simp: steady_from_def progress_def)
    qed
  next
    case True
    then obtain b t r where bs: "bs = (b, t) # r" by (cases bs) auto
    have h: "\<forall>(b, t) \<in> set ((b, t) # r). normal_frame b" "steady hz t r"
        "rx_run hz c e ((b, t) # r) = (c', e')"
      using assms(3-5) True by (simp_all add: bs steady_from_def)
    obtain c1 e1 where 1: "null_deref c1 = null_deref c" "blocks c1 e1 = blocks c e"
        "packets c1 e1 = packets c e + {#rx_pRxPacket b#}" "open_session 2 c' e'"
        "progress (mset (map (\<lambda>(b, t). rx_pRxPacket b) r)) c1 e1 c' e'"
      by (rule rx_run_first [OF assms(1) conjunct1 [OF True] assms(2) h])
    then show ?thesis
      using wf by (simp add: bs progress_def ac_simps)
  qed
qed

lemmas rx_run_wf = rx_run_keeps [THEN conjunct1]


text \<open>
  A session for the examples: window of 8 frames, last indicated 4094, frames 0 and 1 of the
  next turn buffered, and a pool of 9 free blocks.
\<close>

definition mk_blk :: "UINT16 \<Rightarrow> nat \<Rightarrow> RX_BLK" where
  "mk_blk s p = \<lparr>rx_Sequence = s, rx_pRxPacket = p, rx_DataSize = 100, rx_AMSDU = False,
     rx_EAP = False, rx_OpMode = 0, RxWIWirelessCliID = 1, RxWITID = 0\<rparr>"

definition mk_mpdu :: "addr \<Rightarrow> UINT16 \<Rightarrow> nat \<Rightarrow> reordering_mpdu" where
  "mk_mpdu a s p = (zero_mpdu a)\<lparr>Sequence := s, pPacket := p\<rparr>"

definition mk_rec :: "UINT16 \<Rightarrow> reordering_mpdu list \<Rightarrow> BA_REC_ENTRY" where
  "mk_rec L ms = \<lparr>rec_Wcid = 1, rec_TID = 0, rec_BAWinSize = 8, LastIndSeq = L, rec_TimeOutValue = 0,
     LastIndSeqAtTimer = 1000, nDropPacket = 0, rcvSeq = 0, REC_BA_Status = Recipient_Accept,
     reorder_list = \<lparr>mpdus = ms, qlen = int (length ms)\<rparr>\<rparr>"

definition mk_ctx :: "nat \<Rightarrow> rx_ctx" where
  "mk_ctx n = \<lparr>freelist = build_freelist 100 n \<lparr>mpdus = [], qlen = 0\<rparr>, events = [], null_deref = False\<rparr>"

definition ex_rec :: BA_REC_ENTRY where
  "ex_rec = mk_rec 4094 [mk_mpdu 1 0 50, mk_mpdu 2 1 51]"

definition ex_frames :: "(RX_BLK \<times> ULONG) list" where
  "ex_frames = [(mk_blk 4095 52, 1001), (mk_blk 3 53, 1002), (mk_blk 2 54, 1003), (mk_blk 20 55, 1004)]"

lemma build_freelist_eq:
  "build_freelist a n l =
     l\<lparr>mpdus := map zero_mpdu (rev [a..<a + n]) @ mpdus l, qlen := qlen l + int n\<rparr>"
proof (induction a n l rule: build_freelist.induct)
  case (2 a n l)
  then show ?case
    by (simp add: ba_enqueue_def upt_conv_Cons del: upt_Suc)
qed simp

lemmas example_simps = mk_ctx_def mk_rec_def mk_mpdu_def mk_blk_def ex_rec_def ex_frames_def
  build_freelist_eq zero_mpdu_def

lemma ex_hyps:
  "wf_session (mk_ctx 9) ex_rec" "enough_blocks (mk_ctx 9) ex_rec"
  "\<forall>(b, t) \<in> set ex_frames. normal_frame b" "steady_from 1000 ex_rec ex_frames"
  by (simp_all add: example_simps wf_session_def RESET_RCV_SEQ_def open_session_def wf_lists_def
      wf_list_def buffered_def sdist_def enough_blocks_def normal_frame_def steady_from_def
      RTMP_TIME_AFTER_def MAX_REORDERING_PACKET_TIMEOUT_def)


lemmas exec_simps = Indicate_AMPDU_session_def Indicate_cases_def Indicate_in_order_def
  Indicate_beyond_window_def ba_flush_reordering_timeout_mpdus_def RTMP_TIME_AFTER_def
  MAX_REORDERING_PACKET_TIMEOUT_def REORDERING_PACKET_TIMEOUT_def SEQ_SMALLER_def SEQ_STEPONE_def
  MAXSEQ_def RESET_RCV_SEQ_def INDICATE_LEGACY_OR_AMSDU_def RELEASE_NDIS_PACKET_def emit_def
  in_order_eq le_seq_eq wf_list_def hand_up_def keep_from_def up_event_def
  ba_enqueue_reordering_packet_def ba_mpdu_blk_alloc_def ba_dequeue_def
  ba_reordering_mpdu_insertsorted_def ba_mpdu_blk_free_def ba_enqueue_def WinStart_def upto_seq_def



lemma incr_length:
  assumes "incr ds" and "\<forall>d \<in> set ds. lo \<le> d \<and> d \<le> hi" and "lo \<le> hi + 1"
  shows "int (length ds) \<le> hi - lo + 1"
proof -
  have "card (set ds) \<le> card {lo..hi}"
    using assms(2) by (intro card_mono) auto
  then show ?thesis
    using assms(3) incr_distinct [OF assms(1)] by (simp add: distinct_card)
qed

lemma wf_session_qlen:
  assumes "wf_session c e"
  shows "0 \<le> qlen (reorder_list e) \<and> qlen (reorder_list e) < win e"
proof (cases "LastIndSeq e = RESET_RCV_SEQ")
  case True
  with assms show ?thesis by (simp add: wf_session_def wf_lists_def wf_list_def)
next
  case False
  with assms have o: "open_session 2 c e" by (simp add: wf_session_def)
  then show ?thesis
    using incr_length [of "map (\<lambda>m. sdist (LastIndSeq e) (Sequence m)) (buffer e)" 2 "win e"]
    by (auto simp: open_session_def wf_lists_def wf_list_def buffered_def)
qed



section \<open>Stalls, block-ack requests and EAPOL frames\<close>

text \<open>
  \<^bold>\<open>C4\<close>. A stalled session recovers. When 500 ms passed since the last frame and more than one
  frame is buffered, the next frame flushes the whole buffer upwards in its order, goes up itself
  right after, and restarts the session at its own sequence number, with all blocks back in the
  pool.
\<close>

theorem stalled_session_flushes:
  assumes "wf_session c e" and "stalled hz e Now32"
    and "Indicate_AMPDU_session hz c e b Now32 = (c', e')"
  shows "\<exists>p. events c' = events c @ map up_event (mpdus (reorder_list e)) @
                 [Up p (rx_Sequence b) (rx_pRxPacket b)] \<and>
         mpdus (reorder_list e') = [] \<and> qlen (reorder_list e') = 0 \<and>
         LastIndSeq e' = rx_Sequence b \<and> LastIndSeqAtTimer e' = Now32 \<and>
         blocks c' e' = blocks c e \<and> null_deref c' = null_deref c"
proof -
  let ?e = "e\<lparr>rcvSeq := ucast (rx_Sequence b)\<rparr>"
  have wf: "wf_list (reorder_list ?e)" "wf_list (reorder_list e)"
    using assms(1) by (auto simp: wf_session_def open_session_def wf_lists_def split: if_splits)
  have fl: "ba_flush_reordering_timeout_mpdus hz c ?e Now32 =
      (hand_up c (buffer e), ?e\<lparr>reorder_list := keep_from (reorder_list e) (length (buffer e)),
         LastIndSeq := RESET_RCV_SEQ, LastIndSeqAtTimer := Now32\<rparr>)"
    using assms(2) refresh_eq [OF wf(1), of c]
    by (simp add: ba_flush_reordering_timeout_mpdus_def stalled_def Let_def)
  show ?thesis
    using assms(3) wf(2)
    by (auto simp: Indicate_AMPDU_session_def fl Indicate_cases_def INDICATE_LEGACY_OR_AMSDU_def
        emit_def blocks_def keep_from_def wf_list_def split: if_splits)
qed

theorem stalled_session_flushes_witness:
  "mpdus (reorder_list (snd (Indicate_AMPDU_session 1000 (mk_ctx 9) ex_rec (mk_blk 5 60) 1501))) = [] \<and>
   up_seqs (events (fst (Indicate_AMPDU_session 1000 (mk_ctx 9) ex_rec (mk_blk 5 60) 1501))) = [0, 1, 5]"
proof -
  have "stalled 1000 ex_rec 1501"
    by (simp add: example_simps stalled_def RTMP_TIME_AFTER_def MAX_REORDERING_PACKET_TIMEOUT_def)
  from stalled_session_flushes [OF ex_hyps(1) this prod.collapse [symmetric], of "mk_blk 5 60"]
  show ?thesis by (auto simp: example_simps up_event_def)
qed

lemma SEQ_SMALLER_ahead:
  assumes "is_seq l" and "is_seq s"
  shows "SEQ_SMALLER l s \<longleftrightarrow> 1 \<le> sdist l s \<and> sdist l s \<le> 2048"
proof -
  have "(uint l - uint s) mod 4096 = (- sdist l s) mod 4096"
    by (simp add: sdist_def mod_minus_eq)
  also have "\<dots> = (if sdist l s = 0 then 0 else 4096 - sdist l s)"
    using sdist_range [of l s] by (simp add: zmod_zminus1_eq_if)
  finally show ?thesis
    using sdist_range [of l s] by (auto simp: SEQ_SMALLER_iff split: if_splits)
qed

definition prev_seq :: "UINT16 \<Rightarrow> UINT16" where
  "prev_seq s = (if s = 0 then ucast MAXSEQ else s - 1)"

lemma prev_seq:
  assumes "is_seq s"
  shows "is_seq (prev_seq s)" and "sdist (prev_seq s) s = 1"
proof -
  have "uint (prev_seq s) = (if s = 0 then 4095 else uint s - 1)"
    by (auto simp: prev_seq_def MAXSEQ_def uint_word_ariths word_uint_eq_iff)
      (smt (verit) uint_ge_0 mod_pos_pos_trivial assms)
  then show "is_seq (prev_seq s)" "sdist (prev_seq s) s = 1"
    using assms by (auto simp: sdist_def)
qed

lemma sdist_ahead_prev:
  assumes "is_seq s" and "1 \<le> sdist l s"
  shows "sdist l (prev_seq s) = sdist l s - 1"
proof -
  have "(sdist l s - sdist (prev_seq s) s) mod 4096 = ((uint s - uint l) - (uint s - uint (prev_seq s))) mod 4096"
    unfolding sdist_def by (rule mod_diff_eq)
  then have "sdist l (prev_seq s) = (sdist l s - 1) mod 4096"
    using prev_seq(2) [OF assms(1)] by (simp add: sdist_def)
  then show ?thesis
    using assms(2) sdist_range(2) [of l s] by simp
qed

lemma BAR_open:
  assumes "open_session 2 c e" and "is_seq s" and "BAR_session c e s = (c', e')"
    and "1 \<le> sdist (LastIndSeq e) s" and "sdist (LastIndSeq e) s \<le> 2048"
  shows "events c' = events c @ map up_event
           (filter (\<lambda>m. sdist (LastIndSeq e) (Sequence m) \<le> sdist (LastIndSeq e) s) (buffer e))"
    and "buffer e' = filter (\<lambda>m. \<not> sdist (LastIndSeq e) (Sequence m) \<le> sdist (LastIndSeq e) s) (buffer e)"
    and "LastIndSeq e' = prev_seq s" and "open_session 2 c' e'"
    and "blocks c' e' = blocks c e" and "packets c' e' = packets c e" and "null_deref c' = null_deref c"
proof -
  let ?L = "LastIndSeq e" and ?ms = "takeWhile (upto_seq s) (buffer e)"
  let ?rest = "drop (length ?ms) (buffer e)" and ?P = "\<lambda>m. sdist (LastIndSeq e) (Sequence m) \<le> sdist (LastIndSeq e) s"
  have L: "is_seq ?L" and wf: "wf_list (reorder_list e)" "wf_list (freelist c)" and w: "1 \<le> win e"
    and buf: "buffered 2 (win e) ?L (buffer e)"
    using assms(1) by (auto simp: open_session_def wf_lists_def)
  have "SEQ_SMALLER ?L s" using SEQ_SMALLER_ahead [OF L assms(2)] assms(4,5) by simp
  then have eqs: "c' = hand_up c ?ms"
      "e' = e\<lparr>reorder_list := keep_from (reorder_list e) (length ?ms), LastIndSeq := prev_seq s\<rparr>"
    using assms(3) le_seq_eq [OF wf(1), of c s] by (auto simp: BAR_session_def Let_def prev_seq_def)
  have win: "win e < 2048" using win_bound [of e] by linarith
  have sp: "buffered 2 (min (win e) (sdist ?L s)) ?L ?ms" "buffered (max 2 (sdist ?L s + 1)) (win e) ?L ?rest"
    by (rule upto_seq_split [OF buf assms(2,5) win])+
  have cat: "buffer e = ?ms @ ?rest" by (metis append_take_drop_id takeWhile_eq_take)
  have f: "filter ?P ?ms = ?ms" "filter ?P ?rest = []" "filter (\<lambda>m. \<not> ?P m) ?ms = []"
      "filter (\<lambda>m. \<not> ?P m) ?rest = ?rest"
    using sp by (auto simp: buffered_def filter_empty_conv intro!: filter_True)
  have "filter ?P (buffer e) = ?ms" "filter (\<lambda>m. \<not> ?P m) (buffer e) = ?rest"
    using f by (subst cat, simp)+
  then show "events c' = events c @ map up_event (filter ?P (buffer e))"
    and "buffer e' = filter (\<lambda>m. \<not> ?P m) (buffer e)" and "LastIndSeq e' = prev_seq s"
    by (simp_all add: eqs)
  show "blocks c' e' = blocks c e" "packets c' e' = packets c e" "null_deref c' = null_deref c"
    using drain_conserves [OF cat] by (simp_all add: eqs)
  have d: "sdist ?L (prev_seq s) = sdist ?L s - 1"
    using sdist_ahead_prev [OF assms(2,4)] by simp
  have "buffered (sdist ?L s + 1) (win e) ?L ?rest" using sp(2) by (rule buffered_mono) auto
  then have "buffered 2 (win e) (prev_seq s) ?rest"
    using buffered_rebase [of "sdist ?L s + 1" "win e" ?L ?rest "prev_seq s"] d assms(4)
    by (auto elim!: buffered_mono)
  then show "open_session 2 c' e'"
    using wf w prev_seq [OF assms(2)] length_takeWhile_le [of "upto_seq s" "buffer e"]
    by (simp add: open_session_def wf_lists_def eqs)
qed

text \<open>
  \<^bold>\<open>C5\<close>. A block-ack request moves the window forward and never back. If the start sequence of
  the request is 1 to 2048 ahead of the last indicated frame, exactly the buffered frames up to it go
  up, in buffer order, the session continues right before the start sequence and the session invariant
  holds; otherwise nothing changes.
\<close>

theorem BAR_session_correct:
  assumes "open_session 2 c e" and "is_seq StartSeq" and "BAR_session c e StartSeq = (c', e')"
  shows "(if 1 \<le> sdist (LastIndSeq e) StartSeq \<and> sdist (LastIndSeq e) StartSeq \<le> 2048 then
            events c' = events c @ map up_event
              (filter (\<lambda>m. sdist (LastIndSeq e) (Sequence m) \<le> sdist (LastIndSeq e) StartSeq)
                 (mpdus (reorder_list e))) \<and>
            mpdus (reorder_list e') =
              filter (\<lambda>m. \<not> sdist (LastIndSeq e) (Sequence m) \<le> sdist (LastIndSeq e) StartSeq)
                 (mpdus (reorder_list e)) \<and>
            LastIndSeq e' = prev_seq StartSeq \<and> open_session 2 c' e' \<and>
            blocks c' e' = blocks c e \<and> packets c' e' = packets c e
          else (c', e') = (c, e))"
proof (cases "1 \<le> sdist (LastIndSeq e) StartSeq \<and> sdist (LastIndSeq e) StartSeq \<le> 2048")
  case True
  then show ?thesis using BAR_open [OF assms] by simp
next
  case False
  moreover have "is_seq (LastIndSeq e)" using assms(1) by (simp add: open_session_def)
  ultimately have "\<not> SEQ_SMALLER (LastIndSeq e) StartSeq"
    using SEQ_SMALLER_ahead assms(2) by blast
  then have "(c', e') = (c, e)" using assms(3) by (simp add: BAR_session_def)
  with False show ?thesis by (simp only: if_False)
qed

lemma ex_open: "open_session 2 (mk_ctx 9) ex_rec"
  using ex_hyps(1) by (simp add: wf_session_def example_simps RESET_RCV_SEQ_def)

theorem BAR_session_correct_witness:
  "LastIndSeq (snd (BAR_session (mk_ctx 9) ex_rec 1)) = 0 \<and>
   up_seqs (events (fst (BAR_session (mk_ctx 9) ex_rec 1))) = [0, 1]"
proof -
  have "is_seq (1 :: UINT16)" by simp
  from BAR_session_correct [OF ex_open this prod.collapse [symmetric]]
  show ?thesis by (simp add: example_simps sdist_def prev_seq_def up_event_def)
qed

text \<open>
  A buffered frame can go up twice. If the frame with the start sequence of a block-ack
  request is itself buffered, the request hands it up but leaves the session right before it, so
  a retransmission of that frame is taken as the next in order and handed up again.
\<close>

theorem BAR_then_retransmission_duplicates:
  assumes "open_session 2 c e" and "m \<in> set (mpdus (reorder_list e))"
    and "BAR_session c e (Sequence m) = (c1, e1)" and "rx_Sequence b = Sequence m"
    and "Indicate_cases c1 e1 b Now32 = (c2, e2)"
  shows "\<exists>evs p. events c1 = events c @ evs \<and> Sequence m \<in> set (up_seqs evs) \<and>
           (\<exists>evs'. events c2 = events c1 @ Up p (Sequence m) (rx_pRxPacket b) # evs')"
proof -
  have w: "win e < 2048" using win_bound [of e] by linarith
  have m: "is_seq (Sequence m)" "1 \<le> sdist (LastIndSeq e) (Sequence m)" "sdist (LastIndSeq e) (Sequence m) \<le> 2048"
    using assms(1,2) w by (force simp: open_session_def buffered_def)+
  note B = BAR_open [OF assms(1) m(1) assms(3) m(2,3)]
  have o: "open_session 2 c1 e1" by (rule B(4))
  then have L: "is_seq (LastIndSeq e1)" and w1: "1 \<le> win e1" and wf: "wf_list (reorder_list e1)"
    by (auto simp: open_session_def wf_lists_def)
  have s: "is_seq (rx_Sequence b)" and d: "1 = sdist (LastIndSeq e1) (rx_Sequence b)"
    using assms(4) m(1) prev_seq(2) [OF m(1)] B(3) by auto
  have ind: "Indicate_in_order c1 e1 b Now32 = (c2, e2)"
    using Indicate_cases_sdist [OF L s w1 d] assms(5) by simp
  have wf': "wf_list (reorder_list (e1\<lparr>LastIndSeq := rx_Sequence b\<rparr>))" using wf by simp
  have "\<exists>evs'. events c2 = events (INDICATE_LEGACY_OR_AMSDU c1 b) @ evs'"
    using ind by (auto simp: Indicate_in_order_def in_order_eq [OF wf'] Let_def split: if_splits)
  moreover have "\<exists>p. events (INDICATE_LEGACY_OR_AMSDU c1 b) = events c1 @ [Up p (Sequence m) (rx_pRxPacket b)]"
    using assms(4) by (simp add: INDICATE_LEGACY_OR_AMSDU_def emit_def)
  moreover have "Sequence m \<in> set (up_seqs (map up_event
      (filter (\<lambda>m'. sdist (LastIndSeq e) (Sequence m') \<le> sdist (LastIndSeq e) (Sequence m)) (buffer e))))"
    using assms(2) by auto
  ultimately show ?thesis using B(1) by fastforce
qed

theorem BAR_then_retransmission_duplicates_witness:
  "\<exists>evs p. events (fst (BAR_session (mk_ctx 9) ex_rec 1)) = events (mk_ctx 9) @ evs \<and>
     1 \<in> set (up_seqs evs) \<and>
     (\<exists>evs'. events (fst (Indicate_cases (fst (BAR_session (mk_ctx 9) ex_rec 1))
                            (snd (BAR_session (mk_ctx 9) ex_rec 1)) (mk_blk 1 60) 1001)) =
        events (fst (BAR_session (mk_ctx 9) ex_rec 1)) @ Up p 1 60 # evs')"
proof -
  have m: "mk_mpdu 2 1 51 \<in> set (mpdus (reorder_list ex_rec))" "rx_Sequence (mk_blk 1 60) = Sequence (mk_mpdu 2 1 51)"
    by (simp_all add: example_simps)
  show ?thesis
    using BAR_then_retransmission_duplicates [OF ex_open m(1) prod.collapse [symmetric] m(2) prod.collapse [symmetric]]
    by (simp add: mk_mpdu_def mk_blk_def)
qed

text \<open>
  An EAPOL frame that falls inside the window leaks a block of the pool: a block is
  allocated, the frame is handed up directly, and the block reaches neither the buffer nor the free
  list. Repeated, this empties the pool.
\<close>

theorem eapol_frame_leaks_block:
  assumes "wf_lists c e" and "rx_EAP b" and "mpdus (freelist c) = m # ms"
    and "ba_enqueue_reordering_packet c e b = (c', e')"
  shows "blocks c e = add_mset (blk_addr m) (blocks c' e')"
proof -
  let ?c = "c\<lparr>freelist := keep_from (freelist c) (Suc 0)\<rparr>"
  let ?ms = "takeWhile (upto_seq (rx_Sequence b)) (buffer e)"
  have wf: "wf_list (freelist c)" "wf_list (reorder_list e)" using assms(1) by (auto simp: wf_lists_def)
  have "ba_mpdu_blk_alloc c = (Some (zero_mpdu (blk_addr m)), ?c)"
    using wf(1) assms(3) by (simp add: ba_mpdu_blk_alloc_def ba_dequeue_Cons)
  then have "c' = INDICATE_LEGACY_OR_AMSDU (hand_up ?c ?ms) b"
      "e' = e\<lparr>reorder_list := keep_from (reorder_list e) (length ?ms), LastIndSeq := rx_Sequence b\<rparr>"
    using assms(2,4) le_seq_eq [OF wf(2), of ?c "rx_Sequence b"]
    by (auto simp: ba_enqueue_reordering_packet_def Let_def)
  moreover have "blocks (INDICATE_LEGACY_OR_AMSDU c0 b) e0 = blocks c0 e0" for c0 e0
    by (simp add: blocks_def INDICATE_LEGACY_OR_AMSDU_def emit_def)
  moreover have "buffer e = ?ms @ drop (length ?ms) (buffer e)"
    by (metis append_take_drop_id takeWhile_eq_take)
  ultimately have "blocks c' e' = blocks ?c e" using drain_conserves by metis
  then show ?thesis using assms(3) by (simp add: blocks_def)
qed

theorem eapol_frame_leaks_block_witness:
  "blocks (mk_ctx 9) ex_rec = add_mset 108
     (blocks (fst (ba_enqueue_reordering_packet (mk_ctx 9) ex_rec (mk_blk 3 60\<lparr>rx_EAP := True\<rparr>)))
             (snd (ba_enqueue_reordering_packet (mk_ctx 9) ex_rec (mk_blk 3 60\<lparr>rx_EAP := True\<rparr>))))"
proof -
  have "wf_lists (mk_ctx 9) ex_rec" using ex_open by (simp add: open_session_def)
  moreover have "mpdus (freelist (mk_ctx 9)) = zero_mpdu 108 # map zero_mpdu (rev [100..<108])"
    by (simp add: mk_ctx_def build_freelist_eq)
  ultimately show ?thesis
    using eapol_frame_leaks_block [OF _ _ _ prod.collapse [symmetric], of "mk_ctx 9" ex_rec "mk_blk 3 60\<lparr>rx_EAP := True\<rparr>"]
    by (simp add: zero_mpdu_def)
qed

text \<open>
  The EAPOL path also breaks the order. With frame 13 buffered after 10, the EAPOL frame 12
  goes up without the buffer being drained; a retransmitted 13 then leaves the stale block at the head,
  which keeps 15 in the buffer although 14 was indicated, and after 100 ms of silence the stale 13 is
  handed up a second time, after 14.
\<close>

theorem eapol_frame_breaks_order:
  "up_seqs (events (fst (rx_run 1000 (mk_ctx 9) (mk_rec 10 [mk_mpdu 1 13 50])
     [(mk_blk 12 51\<lparr>rx_EAP := True\<rparr>, 1001), (mk_blk 13 52, 1002), (mk_blk 15 53, 1003),
      (mk_blk 14 54, 1004), (mk_blk 17 55, 1105)]))) = [12, 13, 14, 13, 15]"
  by (simp add: exec_simps example_simps upt_rec flush_one_def)

text \<open>
  The pool after its initialisation holds every block of the allocated array once, the
  counter included; without memory it stays empty and the failure is reported.
\<close>

theorem resource_init_correct:
  "case ba_reordering_resource_init c mem num of (ok, c') \<Rightarrow>
     ok = (mem \<noteq> None) \<and> wf_list (freelist c') \<and>
     mset (map blk_addr (mpdus (freelist c'))) =
       (case mem of None \<Rightarrow> {#} | Some a \<Rightarrow> mset [a..<a + num])"
  by (simp add: ba_reordering_resource_init_def build_freelist_eq wf_list_def zero_mpdu_def
      image_mset.compositionality comp_def split: option.split)

end
