(* ===== verification/Adapter.thy ===== *)
theory Adapter
  imports BA_Reorder
begin

text \<open>
  The part of \<^verbatim>\<open>RTMP_ADAPTER\<close> that the station table (\<^verbatim>\<open>mgmt/mgmt_entrytb.c\<close>) and
  the block-ack sessions (\<^verbatim>\<open>common/ba_action.c\<close>, \<^verbatim>\<open>common/action.c\<close>) share.

  \<^item> A pointer to a table entry is the entry's index; \<open>None\<close> is NULL.
  \<^item> Writes to the chip, timers and outgoing frames are recorded in \<open>dev\<close> in the order in
    which the code issues them.
  \<^item> \<open>mem\<close> decides the outcome of each memory allocation in turn; past its end
    allocations succeed.
  \<^item> \<open>oob\<close> is set by an array access with an index outside the array, and the
    operation stops there.

  Fields of \<^verbatim>\<open>MAC_TABLE_ENTRY\<close> that none of the modelled operations reads or
  writes are left out, and so are the rate-control and key-handshake fields that
  \<^verbatim>\<open>MacTableInsertEntry\<close> only sets to constants.
\<close>

section \<open>Constants\<close>

definition MAX_LEN_OF_MAC_TABLE :: nat where "MAX_LEN_OF_MAC_TABLE = 32"
definition MAX_LEN_OF_BA_REC_TABLE :: nat where "MAX_LEN_OF_BA_REC_TABLE = 128"
definition MAX_LEN_OF_BA_ORI_TABLE :: nat where "MAX_LEN_OF_BA_ORI_TABLE = 128"
definition NUM_OF_TID :: nat where "NUM_OF_TID = 8"
definition HASH_TABLE_SIZE :: nat where "HASH_TABLE_SIZE = 256"
definition MAC_ADDR_LEN :: nat where "MAC_ADDR_LEN = 6"

definition ENTRY_NONE :: UINT32 where "ENTRY_NONE = 0"
definition ENTRY_CLIENT :: UINT32 where "ENTRY_CLIENT = 1"

lemmas size_defs = MAX_LEN_OF_MAC_TABLE_def MAX_LEN_OF_BA_REC_TABLE_def MAX_LEN_OF_BA_ORI_TABLE_def
  NUM_OF_TID_def HASH_TABLE_SIZE_def MAC_ADDR_LEN_def

section \<open>Tables\<close>

datatype ORI_BLOCKACK_STATUS = Originator_NONE | Originator_USED | Originator_WaitRes | Originator_Done

record BA_ORI_ENTRY =
  ori_Wcid :: UINT8
  ori_TID :: UINT8
  ori_BAWinSize :: UINT8
  ori_Token :: UINT8
  ori_Sequence :: UINT16
  ori_TimeOutValue :: UINT16
  ORI_BA_Status :: ORI_BLOCKACK_STATUS

datatype SST = SST_NOT_AUTH | SST_AUTH | SST_ASSOC

record MAC_TABLE_ENTRY =
  EntryType :: UINT32
  EnqueueEapolStartTimerRunning :: UINT8
  apidx :: UINT8
  RSNIE_Len :: UINT8
  AuthMode :: nat
  WepStatus :: nat
  PairwiseKeyLen :: UINT8
  PortSecured :: bool
  Addr :: mac_addr
  HdrAddr1 :: mac_addr
  HdrAddr2 :: mac_addr
  HdrAddr3 :: mac_addr
  Sst :: SST
  Aid :: UINT16
  CapabilityInfo :: UINT16
  AssocDeadLine :: ULONG
  RalinkChipset :: bool
  HtSta :: bool
  MaxRAmpduFactor :: UINT8
  RXBAbitmap :: UINT16
  TXBAbitmap :: UINT16
  BADeclineBitmap :: UINT16
  BARecWcidArray :: "UINT16 list"
  BAOriWcidArray :: "UINT16 list"
  TxSeq :: "UINT16 list"
  pNext :: "nat option"

datatype mgmt_frame =
    ADDBA_Req (f_wcid: UINT8) (f_tid: UINT8) (f_token: UINT8) (f_bufsize: UINT16) (f_start: UINT16)
  | ADDBA_Rsp (f_wcid: UINT8) (f_tid: UINT8) (f_token: UINT8) (f_status: UINT16) (f_bufsize: UINT16)
  | DELBA_Req (f_wcid: UINT8) (f_tid: UINT8) (f_init: bool)
  | BAR (f_wcid: UINT8) (f_tid: UINT8) (f_start: UINT16)

datatype timer = ORIBATimer nat | RECBATimer nat | RetryTimer nat | EnqueueStartForPSKTimer nat

datatype dev_event =
    TimerInit timer
  | TimerCancel timer
  | TimerSet timer ULONG
  | TimerRelease timer
  | AsicAddBA UINT16 UINT8
  | AsicDelBA UINT8 UINT8
  | AsicAddEntry nat mac_addr
  | AsicResetEntry nat
  | AsicRemoveKey nat
  | AsicUpdateProtect
  | Tx mgmt_frame
  | MlmeAddBA UINT8 UINT8 UINT8 UINT8

record RTMP_ADAPTER =
  Hash :: "nat option list"
  Content :: "MAC_TABLE_ENTRY list"
  Size :: UINT16
  BARecEntry :: "BA_REC_ENTRY list"
  BAOriEntry :: "BA_ORI_ENTRY list"
  numAsRecipient :: ULONG
  numAsOriginator :: ULONG
  numDoneOriginator :: ULONG
  rx :: rx_ctx
  dev :: "dev_event list"
  mem :: "bool list"
  oob :: bool

text \<open>The settings the operations read and never write.\<close>

record ba_config =
  MACVersion :: UINT32
  AutoBA :: bool
  RxBAWinLimit :: UINT8
  bBADecline :: bool
  FixedTxMode :: UINT8
  MonitorOn :: bool
  ScanBusy :: bool
  HaltInProgress :: bool
  StaTgnWifi :: bool
  StaBssInfra :: bool
  StaAuthMode :: nat
  StaWepStatus :: nat
  CurrentAddress :: mac_addr

definition log_dev :: "dev_event \<Rightarrow> RTMP_ADAPTER \<Rightarrow> RTMP_ADAPTER" where
  "log_dev ev a = a\<lparr>dev := dev a @ [ev]\<rparr>"

definition out_of_bounds :: "RTMP_ADAPTER \<Rightarrow> RTMP_ADAPTER" where
  "out_of_bounds a = a\<lparr>oob := True\<rparr>"

definition alloc_mem :: "RTMP_ADAPTER \<Rightarrow> bool \<times> RTMP_ADAPTER" where
  "alloc_mem a = (case mem a of [] \<Rightarrow> (True, a) | ok # rest \<Rightarrow> (ok, a\<lparr>mem := rest\<rparr>))"

definition upd_entry :: "nat \<Rightarrow> (MAC_TABLE_ENTRY \<Rightarrow> MAC_TABLE_ENTRY) \<Rightarrow> RTMP_ADAPTER \<Rightarrow> RTMP_ADAPTER" where
  "upd_entry w f a = a\<lparr>Content := (Content a)[w := f (Content a ! w)]\<rparr>"

definition upd_rec :: "nat \<Rightarrow> (BA_REC_ENTRY \<Rightarrow> BA_REC_ENTRY) \<Rightarrow> RTMP_ADAPTER \<Rightarrow> RTMP_ADAPTER" where
  "upd_rec i f a = a\<lparr>BARecEntry := (BARecEntry a)[i := f (BARecEntry a ! i)]\<rparr>"

definition upd_ori :: "nat \<Rightarrow> (BA_ORI_ENTRY \<Rightarrow> BA_ORI_ENTRY) \<Rightarrow> RTMP_ADAPTER \<Rightarrow> RTMP_ADAPTER" where
  "upd_ori i f a = a\<lparr>BAOriEntry := (BAOriEntry a)[i := f (BAOriEntry a ! i)]\<rparr>"

text \<open>The bit of a traffic identifier in the 16-bit session bitmaps.\<close>

definition set_tid :: "UINT8 \<Rightarrow> UINT16 \<Rightarrow> UINT16" where
  "set_tid t bm = bm OR push_bit (unat t) 1"

definition clr_tid :: "UINT8 \<Rightarrow> UINT16 \<Rightarrow> UINT16" where
  "clr_tid t bm = bm AND NOT (push_bit (unat t) 1)"

definition tst_tid :: "UINT8 \<Rightarrow> UINT16 \<Rightarrow> bool" where
  "tst_tid t bm \<longleftrightarrow> bm AND push_bit (unat t) 1 \<noteq> 0"

text \<open>An entry after \<^verbatim>\<open>NdisZeroMemory\<close>.\<close>

definition zero_entry :: MAC_TABLE_ENTRY where
  "zero_entry = \<lparr>EntryType = ENTRY_NONE, EnqueueEapolStartTimerRunning = 0, apidx = 0, RSNIE_Len = 0,
     AuthMode = 0, WepStatus = 0, PairwiseKeyLen = 0, PortSecured = False, Addr = replicate 6 0,
     HdrAddr1 = replicate 6 0, HdrAddr2 = replicate 6 0, HdrAddr3 = replicate 6 0, Sst = SST_NOT_AUTH, Aid = 0,
     CapabilityInfo = 0, AssocDeadLine = 0, RalinkChipset = False, HtSta = False, MaxRAmpduFactor = 0,
     RXBAbitmap = 0, TXBAbitmap = 0, BADeclineBitmap = 0, BARecWcidArray = replicate NUM_OF_TID 0,
     BAOriWcidArray = replicate NUM_OF_TID 0, TxSeq = replicate NUM_OF_TID 0, pNext = None\<rparr>"

section \<open>Facts\<close>

lemma tst_tid_bit: "tst_tid t bm \<longleftrightarrow> bit bm (unat t)"
  by (simp add: tst_tid_def push_bit_eq_mult and_exp_eq_0_iff_not_bit)

lemma bit_set_tid: "unat t < 16 \<Longrightarrow> bit (set_tid t bm) n \<longleftrightarrow> n = unat t \<or> bit bm n"
  by (auto simp: set_tid_def bit_or_iff bit_exp_iff)

lemma bit_clr_tid: "bit (clr_tid t bm) n \<longleftrightarrow> n \<noteq> unat t \<and> bit bm n"
  by (auto simp: clr_tid_def bit_and_iff bit_not_iff bit_exp_iff dest: bit_imp_le_length)

lemma log_dev_simps [simp]:
  "Hash (log_dev ev a) = Hash a" "Content (log_dev ev a) = Content a" "Size (log_dev ev a) = Size a"
  "BARecEntry (log_dev ev a) = BARecEntry a" "BAOriEntry (log_dev ev a) = BAOriEntry a"
  "numAsRecipient (log_dev ev a) = numAsRecipient a" "numAsOriginator (log_dev ev a) = numAsOriginator a"
  "numDoneOriginator (log_dev ev a) = numDoneOriginator a" "rx (log_dev ev a) = rx a"
  "dev (log_dev ev a) = dev a @ [ev]" "mem (log_dev ev a) = mem a" "oob (log_dev ev a) = oob a"
  by (simp_all add: log_dev_def)

lemma upd_simps [simp]:
  "Content (upd_entry w f a) = (Content a)[w := f (Content a ! w)]"
  "BARecEntry (upd_entry w f a) = BARecEntry a" "BAOriEntry (upd_entry w f a) = BAOriEntry a"
  "numAsRecipient (upd_entry w f a) = numAsRecipient a" "numAsOriginator (upd_entry w f a) = numAsOriginator a"
  "numDoneOriginator (upd_entry w f a) = numDoneOriginator a" "rx (upd_entry w f a) = rx a"
  "Hash (upd_entry w f a) = Hash a" "Size (upd_entry w f a) = Size a" "dev (upd_entry w f a) = dev a"
  "mem (upd_entry w f a) = mem a" "oob (upd_entry w f a) = oob a"
  "BARecEntry (upd_rec i g a) = (BARecEntry a)[i := g (BARecEntry a ! i)]"
  "Content (upd_rec i g a) = Content a" "BAOriEntry (upd_rec i g a) = BAOriEntry a"
  "numAsRecipient (upd_rec i g a) = numAsRecipient a" "numAsOriginator (upd_rec i g a) = numAsOriginator a"
  "numDoneOriginator (upd_rec i g a) = numDoneOriginator a" "rx (upd_rec i g a) = rx a"
  "Hash (upd_rec i g a) = Hash a" "Size (upd_rec i g a) = Size a" "dev (upd_rec i g a) = dev a"
  "mem (upd_rec i g a) = mem a" "oob (upd_rec i g a) = oob a"
  "BAOriEntry (upd_ori i h a) = (BAOriEntry a)[i := h (BAOriEntry a ! i)]"
  "Content (upd_ori i h a) = Content a" "BARecEntry (upd_ori i h a) = BARecEntry a"
  "numAsRecipient (upd_ori i h a) = numAsRecipient a" "numAsOriginator (upd_ori i h a) = numAsOriginator a"
  "numDoneOriginator (upd_ori i h a) = numDoneOriginator a" "rx (upd_ori i h a) = rx a"
  "Hash (upd_ori i h a) = Hash a" "Size (upd_ori i h a) = Size a" "dev (upd_ori i h a) = dev a"
  "mem (upd_ori i h a) = mem a" "oob (upd_ori i h a) = oob a"
  by (simp_all add: upd_entry_def upd_rec_def upd_ori_def)

lemma alloc_mem_ok [simp]: "mem a = [] \<Longrightarrow> alloc_mem a = (True, a)"
  by (simp add: alloc_mem_def)

lemma zero_entry_fields [simp]:
  "EntryType zero_entry = ENTRY_NONE" "RXBAbitmap zero_entry = 0" "TXBAbitmap zero_entry = 0" "HtSta zero_entry = False"
  "BARecWcidArray zero_entry = replicate 8 0" "BAOriWcidArray zero_entry = replicate 8 0" "TxSeq zero_entry = replicate 8 0"
  "BADeclineBitmap zero_entry = 0"
  by (simp_all add: zero_entry_def NUM_OF_TID_def)

end
