(* ===== verification/BA_Session.thy ===== *)
theory BA_Session
  imports Adapter
begin

text \<open>
  The session half of \<^verbatim>\<open>common/ba_action.c\<close>: the tables of block-ack sessions, the
  ADDBA, DELBA and BAR handlers, and the entry points of the reordering buffer that
  look a session up before they work on it.

  A session belongs to a peer (a WCID, index into the station table) and a traffic
  identifier (TID). The station table entry holds, per TID, the session's index into the
  recipient and the originator table (0 for none) and a bitmap of the active sessions; the
  session entry holds the WCID and the TID. The invariant \<open>ba_inv\<close> says that these
  cross references and the three counters agree.
\<close>

section \<open>Messages\<close>

record MLME_ELEM =
  el_Wcid :: UINT8
  el_Msg :: bytes
  el_MsgLen :: nat

definition le16 :: "bytes \<Rightarrow> nat \<Rightarrow> UINT16" where
  "le16 b i = ucast (b ! i) OR push_bit 8 (ucast (b ! Suc i))"

definition LENGTH_802_11 :: nat where
  "LENGTH_802_11 = 24"

record BA_PARM =
  BAPolicy :: bool
  par_TID :: UINT8
  par_BufSize :: UINT16

definition ba_parm_of :: "UINT16 \<Rightarrow> BA_PARM" where
  "ba_parm_of w = \<lparr>BAPolicy = bit w 1, par_TID = ucast (take_bit 4 (drop_bit 2 w)),
     par_BufSize = drop_bit 6 w\<rparr>"

record FRAME_ADDBA_REQ =
  req_Addr2 :: mac_addr
  req_Token :: UINT8
  req_BaParm :: BA_PARM
  req_TimeOutValue :: UINT16
  req_StartSeq :: UINT16

record FRAME_ADDBA_RSP =
  rsp_StatusCode :: UINT16
  rsp_BaParm :: BA_PARM
  rsp_TimeOutValue :: UINT16

record FRAME_DELBA_REQ =
  del_Initiator :: bool
  del_TID :: UINT8

definition addba_req_of :: "bytes \<Rightarrow> FRAME_ADDBA_REQ" where
  "addba_req_of m = \<lparr>req_Addr2 = take 6 (drop 10 m), req_Token = m ! (LENGTH_802_11 + 2),
     req_BaParm = ba_parm_of (le16 m (LENGTH_802_11 + 3)), req_TimeOutValue = le16 m (LENGTH_802_11 + 5),
     req_StartSeq = drop_bit 4 (le16 m (LENGTH_802_11 + 7))\<rparr>"

definition addba_rsp_of :: "bytes \<Rightarrow> FRAME_ADDBA_RSP" where
  "addba_rsp_of m = \<lparr>rsp_StatusCode = le16 m (LENGTH_802_11 + 3),
     rsp_BaParm = ba_parm_of (le16 m (LENGTH_802_11 + 5)), rsp_TimeOutValue = le16 m (LENGTH_802_11 + 7)\<rparr>"

definition delba_req_of :: "bytes \<Rightarrow> FRAME_DELBA_REQ" where
  "delba_req_of m = (let w = le16 m (LENGTH_802_11 + 2) in
     \<lparr>del_Initiator = bit w 11, del_TID = ucast (drop_bit 12 w)\<rparr>)"

definition PeerAddBAReqActionSanity :: "MLME_ELEM \<Rightarrow> bool \<times> mac_addr option" where
  "PeerAddBAReqActionSanity el =
     (if el_MsgLen el < LENGTH_802_11 + 9 then (False, None)
      else (BAPolicy (req_BaParm (addba_req_of (el_Msg el))), Some (req_Addr2 (addba_req_of (el_Msg el)))))"

definition PeerAddBARspActionSanity :: "MLME_ELEM \<Rightarrow> bool" where
  "PeerAddBARspActionSanity el \<longleftrightarrow>
     \<not> el_MsgLen el < LENGTH_802_11 + 9 \<and> BAPolicy (rsp_BaParm (addba_rsp_of (el_Msg el)))"

definition PeerDelBAActionSanity :: "MLME_ELEM \<Rightarrow> bool" where
  "PeerDelBAActionSanity el \<longleftrightarrow>
     el_MsgLen el = LENGTH_802_11 + 6 \<and> \<not> unat (el_Wcid el) \<ge> MAX_LEN_OF_MAC_TABLE"

section \<open>The session tables\<close>

definition rec_none :: "BA_REC_ENTRY \<Rightarrow> bool" where
  "rec_none e \<longleftrightarrow> REC_BA_Status e = Recipient_NONE"

definition ori_none :: "BA_ORI_ENTRY \<Rightarrow> bool" where
  "ori_none e \<longleftrightarrow> ORI_BA_Status e = Originator_NONE"

text \<open>
  The two allocators return the entry they stopped at (\<open>None\<close> for NULL) and the
  index, which keeps its value when no free entry is found.
\<close>

definition BATableAllocRecEntry :: "RTMP_ADAPTER \<Rightarrow> UINT16 \<Rightarrow> nat option \<times> UINT16 \<times> RTMP_ADAPTER" where
  "BATableAllocRecEntry a Idx =
     (if numAsRecipient a \<ge> of_nat (MAX_LEN_OF_BA_REC_TABLE - 1) then (None, Idx, a)
      else (case List.find (\<lambda>i. rec_none (BARecEntry a ! i)) [1..<MAX_LEN_OF_BA_REC_TABLE] of
              Some i \<Rightarrow>
                (Some i, of_nat i,
                 upd_rec i (\<lambda>e. e\<lparr>REC_BA_Status := Recipient_USED\<rparr>) a
                   \<lparr>numAsRecipient := numAsRecipient a + 1\<rparr>)
            | None \<Rightarrow> (Some (MAX_LEN_OF_BA_REC_TABLE - 1), Idx, a)))"

definition BATableAllocOriEntry :: "RTMP_ADAPTER \<Rightarrow> UINT16 \<Rightarrow> nat option \<times> UINT16 \<times> RTMP_ADAPTER" where
  "BATableAllocOriEntry a Idx =
     (if numAsOriginator a \<ge> of_nat (MAX_LEN_OF_BA_ORI_TABLE - 1) then (None, Idx, a)
      else (case List.find (\<lambda>i. ori_none (BAOriEntry a ! i)) [1..<MAX_LEN_OF_BA_ORI_TABLE] of
              Some i \<Rightarrow>
                (Some i, of_nat i,
                 upd_ori i (\<lambda>e. e\<lparr>ORI_BA_Status := Originator_USED\<rparr>) a
                   \<lparr>numAsOriginator := numAsOriginator a + 1\<rparr>)
            | None \<Rightarrow> (Some (MAX_LEN_OF_BA_ORI_TABLE - 1), Idx, a)))"

definition BATableFreeOriEntry :: "RTMP_ADAPTER \<Rightarrow> nat \<Rightarrow> RTMP_ADAPTER" where
  "BATableFreeOriEntry a Idx =
     (if Idx = 0 \<or> Idx \<ge> MAX_LEN_OF_BA_ORI_TABLE then a
      else let e = BAOriEntry a ! Idx; w = unat (ori_Wcid e); t = unat (ori_TID e) in
        if ori_none e then a
        else if w \<ge> MAX_LEN_OF_MAC_TABLE \<or> t \<ge> NUM_OF_TID then out_of_bounds a
        else
          let a1 = upd_entry w (\<lambda>m. m\<lparr>BAOriWcidArray := (BAOriWcidArray m)[t := 0]\<rparr>) a;
              a2 = (if ORI_BA_Status e = Originator_Done then
                      upd_entry w (\<lambda>m. m\<lparr>TXBAbitmap := clr_tid (ori_TID e) (TXBAbitmap m)\<rparr>) a1
                        \<lparr>numDoneOriginator := numDoneOriginator a1 - 1\<rparr>
                    else a1)
          in upd_ori Idx (\<lambda>e. e\<lparr>ORI_BA_Status := Originator_NONE, ori_Token := 0\<rparr>) a2
               \<lparr>numAsOriginator := numAsOriginator a2 - 1\<rparr>)"

definition BATableFreeRecEntry :: "RTMP_ADAPTER \<Rightarrow> nat \<Rightarrow> RTMP_ADAPTER" where
  "BATableFreeRecEntry a Idx =
     (if Idx = 0 \<or> Idx \<ge> MAX_LEN_OF_BA_REC_TABLE then a
      else let e = BARecEntry a ! Idx; w = unat (rec_Wcid e); t = unat (rec_TID e) in
        if rec_none e then a
        else if w \<ge> MAX_LEN_OF_MAC_TABLE \<or> t \<ge> NUM_OF_TID then out_of_bounds a
        else
          let a1 = upd_entry w (\<lambda>m. m\<lparr>BARecWcidArray := (BARecWcidArray m)[t := 0]\<rparr>) a
          in upd_rec Idx (\<lambda>e. e\<lparr>REC_BA_Status := Recipient_NONE\<rparr>) a1
               \<lparr>numAsRecipient := numAsRecipient a1 - 1\<rparr>)"

definition on_session :: "nat \<Rightarrow> (rx_ctx \<Rightarrow> BA_REC_ENTRY \<Rightarrow> rx_ctx \<times> BA_REC_ENTRY) \<Rightarrow> RTMP_ADAPTER \<Rightarrow> RTMP_ADAPTER" where
  "on_session i f a =
     (case f (rx a) (BARecEntry a ! i) of (c, e) \<Rightarrow> a\<lparr>rx := c, BARecEntry := (BARecEntry a)[i := e]\<rparr>)"

section \<open>Originator\<close>

definition FIXED_TXMODE_HT :: UINT8 where "FIXED_TXMODE_HT = 0"

definition RTMPStaFixedTxMode :: "ba_config \<Rightarrow> UINT8" where
  "RTMPStaFixedTxMode cfg = FixedTxMode cfg"

definition ori_busy :: "BA_ORI_ENTRY \<Rightarrow> bool" where
  "ori_busy e \<longleftrightarrow> ORI_BA_Status e = Originator_WaitRes \<or> ORI_BA_Status e = Originator_Done"

text \<open>\<^verbatim>\<open>BAOriSessionSetUp\<close> from the allocated or found entry \<open>i\<close> on.\<close>

definition ori_setup_entry ::
  "ba_config \<Rightarrow> RTMP_ADAPTER \<Rightarrow> nat \<Rightarrow> UINT8 \<Rightarrow> UINT16 \<Rightarrow> ULONG \<Rightarrow> nat \<Rightarrow> UINT16 \<Rightarrow> RTMP_ADAPTER" where
  "ori_setup_entry cfg a w TID TimeOut DelayTime i Idx =
     (if ori_busy (BAOriEntry a ! i) then a
      else
        let m = Content a ! w;
            a1 = upd_entry w (\<lambda>m. m\<lparr>BAOriWcidArray := (BAOriWcidArray m)[unat TID := Idx]\<rparr>) a;
            a2 = upd_ori i (\<lambda>e. e\<lparr>ORI_BA_Status := Originator_WaitRes, ori_Wcid := ucast (Aid m),
                   ori_BAWinSize := RxBAWinLimit cfg, ori_Sequence := TxSeq m ! unat TID,
                   ori_Token := 1, ori_TID := TID, ori_TimeOutValue := TimeOut\<rparr>) a1;
            a3 = log_dev (if tst_tid TID (TXBAbitmap m) then TimerCancel (ORIBATimer i)
                          else TimerInit (ORIBATimer i)) a2
        in log_dev (TimerSet (ORIBATimer i) DelayTime) a3)"

definition BAOriSessionSetUp ::
  "ba_config \<Rightarrow> RTMP_ADAPTER \<Rightarrow> nat \<Rightarrow> UINT8 \<Rightarrow> UINT16 \<Rightarrow> ULONG \<Rightarrow> bool \<Rightarrow> RTMP_ADAPTER" where
  "BAOriSessionSetUp cfg a w TID TimeOut DelayTime isForced =
     (let m = Content a ! w in
      if unat TID \<ge> NUM_OF_TID then a
      else if \<not> AutoBA cfg \<and> \<not> isForced then a
      else if RTMPStaFixedTxMode cfg \<noteq> FIXED_TXMODE_HT then a
      else
        let delay = (if tst_tid TID (BADeclineBitmap m) \<and> \<not> isForced then 3000 else DelayTime);
            Idx = BAOriWcidArray m ! unat TID
        in if Idx = 0 then
             (case BATableAllocOriEntry a Idx of
                (None, _, a1) \<Rightarrow> a1
              | (Some i, Idx1, a1) \<Rightarrow> ori_setup_entry cfg a1 w TID TimeOut delay i Idx1)
           else if unat Idx \<ge> MAX_LEN_OF_BA_ORI_TABLE then out_of_bounds a
           else ori_setup_entry cfg a w TID TimeOut delay (unat Idx) Idx)"

definition IS_RT65XX :: "ba_config \<Rightarrow> bool" where
  "IS_RT65XX cfg \<longleftrightarrow>
     (MACVersion cfg AND 0xFFFF0000) = 0x65900000 \<or> (MACVersion cfg AND 0xfffff000) = 0x85592000 \<or>
     (MACVersion cfg AND 0xffff0000) = 0x76500000 \<or> (MACVersion cfg AND 0xffff0000) = 0x76620000"

definition Ndis802_11EncryptionDisabled :: nat where
  "Ndis802_11EncryptionDisabled = 1"

definition BA_MaxWinSizeReasign :: "ba_config \<Rightarrow> MAC_TABLE_ENTRY \<Rightarrow> UINT8 \<Rightarrow> UINT8" where
  "BA_MaxWinSizeReasign cfg m WinSize =
     (let f = 2 ^ (unat (MaxRAmpduFactor m) + 3);
          MaxPeerRxSize = (if RalinkChipset m then word_of_nat f else word_of_int (int f * 10 div 16 - 1)) :: UINT8;
          coded = (if WepStatus m \<noteq> Ndis802_11EncryptionDisabled then 7 else 13);
          MaxSize = (if IS_RT65XX cfg then 31
                     else if MACVersion cfg \<ge> 0x28830300 then
                       (if MACVersion cfg \<ge> 0x30700200 then coded else 31)
                     else if MACVersion cfg \<ge> 0x28720200 then coded
                     else 7);
          MaxSize' = min MaxPeerRxSize MaxSize
      in if WinSize > MaxSize' then MaxSize' else WinSize)"

definition BAOriSessionAdd :: "ba_config \<Rightarrow> RTMP_ADAPTER \<Rightarrow> nat \<Rightarrow> FRAME_ADDBA_RSP \<Rightarrow> RTMP_ADAPTER" where
  "BAOriSessionAdd cfg a w f =
     (let TID = par_TID (rsp_BaParm f); m = Content a ! w in
      if unat TID \<ge> NUM_OF_TID then out_of_bounds a
      else
        let Idx = unat (BAOriWcidArray m ! unat TID) in
        if Idx \<ge> MAX_LEN_OF_BA_ORI_TABLE then out_of_bounds a
        else
          let e = BAOriEntry a ! Idx in
          if Idx \<noteq> 0 \<and> ori_TID e = TID \<and> ORI_BA_Status e = Originator_WaitRes then
            let buf = ucast (par_BufSize (rsp_BaParm f)) :: UINT8;
                MaxPeerBufSize = (if buf > 0 then buf - 1 else 0);
                a1 = upd_ori Idx (\<lambda>e. e\<lparr>ori_BAWinSize := BA_MaxWinSizeReasign cfg m (min (ori_BAWinSize e) MaxPeerBufSize),
                       ori_TimeOutValue := rsp_TimeOutValue f, ORI_BA_Status := Originator_Done,
                       ori_Sequence := TxSeq m ! unat TID\<rparr>) a;
                a2 = upd_entry w (\<lambda>m. m\<lparr>TXBAbitmap := set_tid TID (TXBAbitmap m)\<rparr>)
                       (a1\<lparr>numDoneOriginator := numDoneOriginator a1 + 1\<rparr>);
                a3 = log_dev (TimerCancel (ORIBATimer Idx)) a2
            in case alloc_mem a3 of
                 (False, a4) \<Rightarrow> a4
               | (True, a4) \<Rightarrow> log_dev (Tx (BAR (ori_Wcid e) TID (TxSeq m ! unat TID))) a4
          else a)"

section \<open>Tear-down\<close>

definition MlmeDelBAReqSanity :: "RTMP_ADAPTER \<Rightarrow> mac_addr \<Rightarrow> UINT8 \<Rightarrow> UINT8 \<Rightarrow> bool" where
  "MlmeDelBAReqSanity a addr Wcid TID \<longleftrightarrow>
     \<not> unat Wcid \<ge> MAX_LEN_OF_MAC_TABLE \<and> TID AND 0xf0 = 0 \<and> Addr (Content a ! unat Wcid) = addr"

definition MlmeDELBAAction :: "RTMP_ADAPTER \<Rightarrow> mac_addr \<Rightarrow> UINT8 \<Rightarrow> UINT8 \<Rightarrow> bool \<Rightarrow> RTMP_ADAPTER" where
  "MlmeDELBAAction a addr Wcid TID Initiator =
     (if MlmeDelBAReqSanity a addr Wcid TID \<and> Wcid > 0 then
        (case alloc_mem a of
           (False, a1) \<Rightarrow> a1
         | (True, a1) \<Rightarrow>
             (case alloc_mem a1 of
                (False, a2) \<Rightarrow> a2
              | (True, a2) \<Rightarrow>
                  if unat TID \<ge> NUM_OF_TID then out_of_bounds a2
                  else log_dev (Tx (DELBA_Req Wcid TID Initiator))
                         (log_dev (Tx (BAR Wcid TID (TxSeq (Content a ! unat Wcid) ! unat TID))) a2)))
      else a)"

text \<open>The allocation of the queue element and the call of \<^verbatim>\<open>MlmeDELBAAction\<close>.\<close>

definition send_delba :: "RTMP_ADAPTER \<Rightarrow> UINT8 \<Rightarrow> UINT8 \<Rightarrow> bool \<Rightarrow> bool \<times> RTMP_ADAPTER" where
  "send_delba a Wcid TID Initiator =
     (case alloc_mem a of
        (False, a1) \<Rightarrow> (False, a1)
      | (True, a1) \<Rightarrow> (True, MlmeDELBAAction a1 (Addr (Content a1 ! unat Wcid)) Wcid TID Initiator))"

definition BAOriSessionTearDown :: "RTMP_ADAPTER \<Rightarrow> UINT8 \<Rightarrow> UINT8 \<Rightarrow> bool \<Rightarrow> bool \<Rightarrow> RTMP_ADAPTER" where
  "BAOriSessionTearDown a Wcid TID bPassive bForceSend =
     (if unat Wcid \<ge> MAX_LEN_OF_MAC_TABLE then a
      else if unat TID \<ge> NUM_OF_TID then out_of_bounds a
      else
        let Idx = unat (BAOriWcidArray (Content a ! unat Wcid) ! unat TID) in
        if Idx = 0 \<or> Idx \<ge> MAX_LEN_OF_BA_ORI_TABLE then
          (if bForceSend then snd (send_delba a Wcid TID True) else a)
        else
          let e = BAOriEntry a ! Idx;
              (ok, a1) = (if \<not> bPassive \<and> TID = ori_TID e \<and> ORI_BA_Status e = Originator_Done
                          then send_delba a Wcid (ori_TID e) True else (True, a))
          in if \<not> ok then a1
             else BATableFreeOriEntry (log_dev (TimerCancel (ORIBATimer Idx)) a1) Idx)"

definition BARecSessionTearDown :: "RTMP_ADAPTER \<Rightarrow> UINT8 \<Rightarrow> UINT8 \<Rightarrow> bool \<Rightarrow> RTMP_ADAPTER" where
  "BARecSessionTearDown a Wcid TID bPassive =
     (if unat Wcid \<ge> MAX_LEN_OF_MAC_TABLE then a
      else if unat TID \<ge> NUM_OF_TID then out_of_bounds a
      else
        let Idx = unat (BARecWcidArray (Content a ! unat Wcid) ! unat TID) in
        if Idx = 0 then a
        else if Idx \<ge> MAX_LEN_OF_BA_REC_TABLE then out_of_bounds a
        else
          let e = BARecEntry a ! Idx in
          if TID = rec_TID e \<and> REC_BA_Status e = Recipient_Accept then
            let a1 = log_dev (TimerCancel (RECBATimer Idx)) a;
                (ok, a2) = (if bPassive then (True, a1) else send_delba a1 Wcid TID False)
            in if \<not> ok then a2
               else
                 let a3 = on_session Idx ba_refresh_reordering_mpdus a2;
                     a4 = upd_rec Idx (\<lambda>e. e\<lparr>LastIndSeq := RESET_RCV_SEQ, rec_BAWinSize := 0\<rparr>) a3;
                     a5 = upd_entry (unat Wcid) (\<lambda>m. m\<lparr>RXBAbitmap := clr_tid (rec_TID e) (RXBAbitmap m),
                            BARecWcidArray := (BARecWcidArray m)[unat TID := 0]\<rparr>) a4
                 in BATableFreeRecEntry (log_dev (AsicDelBA Wcid TID) a5) Idx
          else BATableFreeRecEntry a Idx)"

fun teardown_tids :: "RTMP_ADAPTER \<Rightarrow> UINT8 \<Rightarrow> nat list \<Rightarrow> RTMP_ADAPTER" where
  "teardown_tids a Wcid [] = a"
| "teardown_tids a Wcid (i # is) =
     teardown_tids (BARecSessionTearDown (BAOriSessionTearDown a Wcid (of_nat i) False False)
                      Wcid (of_nat i) False) Wcid is"

definition BASessionTearDownALL :: "RTMP_ADAPTER \<Rightarrow> UINT8 \<Rightarrow> RTMP_ADAPTER" where
  "BASessionTearDownALL a Wcid = teardown_tids a Wcid [0..<NUM_OF_TID]"

section \<open>Recipient\<close>

definition rec_winsize :: "ba_config \<Rightarrow> FRAME_ADDBA_REQ \<Rightarrow> UINT8" where
  "rec_winsize cfg f =
     (let w = min (ucast (par_BufSize (req_BaParm f))) (RxBAWinLimit cfg) in if w = 0 then 64 else w)"

text \<open>\<^verbatim>\<open>BARecSessionAdd\<close> from the filling in of the entry \<open>i\<close> on.\<close>

definition rec_fill_entry ::
  "ba_config \<Rightarrow> RTMP_ADAPTER \<Rightarrow> nat \<Rightarrow> FRAME_ADDBA_REQ \<Rightarrow> nat \<Rightarrow> UINT16 \<Rightarrow> RTMP_ADAPTER" where
  "rec_fill_entry cfg a w f i Idx =
     (let TID = par_TID (req_BaParm f); m = Content a ! w;
          a1 = upd_rec i (\<lambda>e. e\<lparr>rec_BAWinSize := rec_winsize cfg f, rec_Wcid := ucast (Aid m), rec_TID := TID,
                 rec_TimeOutValue := req_TimeOutValue f, REC_BA_Status := Recipient_Accept,
                 LastIndSeq := RESET_RCV_SEQ\<rparr>) a;
          a2 = log_dev (if tst_tid TID (RXBAbitmap m) then TimerCancel (RECBATimer i)
                        else TimerInit (RECBATimer i)) a1;
          a3 = upd_entry w (\<lambda>m. m\<lparr>RXBAbitmap := set_tid TID (RXBAbitmap m),
                 BARecWcidArray := (BARecWcidArray m)[unat TID := Idx],
                 BADeclineBitmap := clr_tid TID (BADeclineBitmap m)\<rparr>) a2
      in log_dev (AsicAddBA (Aid m) TID) a3)"

definition BARecSessionAdd :: "ba_config \<Rightarrow> RTMP_ADAPTER \<Rightarrow> nat \<Rightarrow> FRAME_ADDBA_REQ \<Rightarrow> bool \<times> RTMP_ADAPTER" where
  "BARecSessionAdd cfg a w f =
     (let TID = par_TID (req_BaParm f); m = Content a ! w in
      if unat TID \<ge> NUM_OF_TID then (False, out_of_bounds a)
      else
        let Idx = BARecWcidArray m ! unat TID in
        if Idx = 0 then
          (case BATableAllocRecEntry a Idx of
             (None, _, a1) \<Rightarrow> (False, a1)
           | (Some i, Idx1, a1) \<Rightarrow> (True, rec_fill_entry cfg a1 w f i Idx1))
        else if unat Idx \<ge> MAX_LEN_OF_BA_REC_TABLE then (False, out_of_bounds a)
        else (True, rec_fill_entry cfg (on_session (unat Idx) ba_refresh_reordering_mpdus a) w f (unat Idx) Idx))"

section \<open>Time-outs\<close>

definition ORI_SESSION_MAX_RETRY :: UINT8 where "ORI_SESSION_MAX_RETRY = 8"
definition ORI_BA_SESSION_TIMEOUT :: ULONG where "ORI_BA_SESSION_TIMEOUT = 2000"
definition REC_BA_SESSION_IDLE_TIMEOUT :: ULONG where "REC_BA_SESSION_IDLE_TIMEOUT = 1000"

definition BAOriSessionSetupTimeout :: "ba_config \<Rightarrow> RTMP_ADAPTER \<Rightarrow> nat \<Rightarrow> RTMP_ADAPTER" where
  "BAOriSessionSetupTimeout cfg a i =
     (let e = BAOriEntry a ! i; w = unat (ori_Wcid e) in
      if MonitorOn cfg then a
      else if w \<ge> MAX_LEN_OF_MAC_TABLE then out_of_bounds a
      else if ORI_BA_Status e = Originator_WaitRes \<and> ori_Token e < ORI_SESSION_MAX_RETRY then
        (if ScanBusy cfg then log_dev (TimerSet (ORIBATimer i) ORI_BA_SESSION_TIMEOUT) a
         else log_dev (TimerSet (ORIBATimer i) ORI_BA_SESSION_TIMEOUT)
                (upd_ori i (\<lambda>e. e\<lparr>ori_Token := ori_Token e + 1\<rparr>)
                   (log_dev (MlmeAddBA (ucast (Aid (Content a ! w))) (ori_TID e) (RxBAWinLimit cfg) (ori_Token e)) a)))
      else if unat (ori_TID e) \<ge> NUM_OF_TID then out_of_bounds a
      else BATableFreeOriEntry a (unat (BAOriWcidArray (Content a ! w) ! unat (ori_TID e))))"

definition BARecSessionIdleTimeout :: "RTMP_ADAPTER \<Rightarrow> nat \<Rightarrow> ULONG \<Rightarrow> RTMP_ADAPTER" where
  "BARecSessionIdleTimeout a i Now32 =
     (let e = BARecEntry a ! i in
      if REC_BA_Status e = Recipient_Accept \<and>
         RTMP_TIME_AFTER Now32 (LastIndSeqAtTimer e + REC_BA_SESSION_IDLE_TIMEOUT)
      then on_session i ba_refresh_reordering_mpdus a else a)"

section \<open>Action frames from the peer\<close>

text \<open>
  The status of the ADDBA response and the state after the request was handled;
  the response is sent in every case in which a buffer for it can be allocated.
\<close>

definition addba_decide :: "ba_config \<Rightarrow> RTMP_ADAPTER \<Rightarrow> MLME_ELEM \<Rightarrow> UINT16 \<times> RTMP_ADAPTER" where
  "addba_decide cfg a el =
     (let w = unat (el_Wcid el) in
      if fst (PeerAddBAReqActionSanity el) then
        if \<not> bBADecline cfg \<and> HtSta (Content a ! w) then
          (case BARecSessionAdd cfg a w (addba_req_of (el_Msg el)) of
             (True, a1) \<Rightarrow> (0, a1) | (False, a1) \<Rightarrow> (38, a1))
        else (37, a)
      else (1, a))"

definition PeerAddBAReqAction :: "ba_config \<Rightarrow> RTMP_ADAPTER \<Rightarrow> MLME_ELEM \<Rightarrow> RTMP_ADAPTER" where
  "PeerAddBAReqAction cfg a el =
     (if unat (el_Wcid el) \<ge> MAX_LEN_OF_MAC_TABLE then a
      else case addba_decide cfg a el of
        (Status, a1) \<Rightarrow>
          if oob a1 then a1
          else (case alloc_mem a1 of
                  (False, a2) \<Rightarrow> a2
                | (True, a2) \<Rightarrow>
                    let f = addba_req_of (el_Msg el) in
                    log_dev (Tx (ADDBA_Rsp (el_Wcid el) (par_TID (req_BaParm f)) (req_Token f) Status
                                   (ucast (rec_winsize cfg f)))) a2))"

definition PeerAddBARspAction :: "ba_config \<Rightarrow> RTMP_ADAPTER \<Rightarrow> MLME_ELEM \<Rightarrow> RTMP_ADAPTER" where
  "PeerAddBARspAction cfg a el =
     (if unat (el_Wcid el) \<ge> MAX_LEN_OF_MAC_TABLE then a
      else if PeerAddBARspActionSanity el then
        let f = addba_rsp_of (el_Msg el); w = unat (el_Wcid el); TID = par_TID (rsp_BaParm f);
            a1 = (if rsp_StatusCode f = 0 then BAOriSessionAdd cfg a w f
                  else BAOriSessionTearDown a (el_Wcid el) TID True False)
        in if oob a1 then a1
           else if rsp_StatusCode f = 37 \<or> (StaTgnWifi cfg \<and> rsp_StatusCode f \<noteq> 0) then
             upd_entry w (\<lambda>m. m\<lparr>BADeclineBitmap := set_tid TID (BADeclineBitmap m)\<rparr>) a1
           else a1
      else a)"

definition PeerDelBAAction :: "RTMP_ADAPTER \<Rightarrow> MLME_ELEM \<Rightarrow> RTMP_ADAPTER" where
  "PeerDelBAAction a el =
     (if PeerDelBAActionSanity el then
        let f = delba_req_of (el_Msg el) in
        if del_Initiator f then BARecSessionTearDown a (el_Wcid el) (del_TID f) True
        else BAOriSessionTearDown a (el_Wcid el) (del_TID f) True False
      else a)"

section \<open>Entry points of the reordering buffer\<close>

definition MGMT_DMA_BUFFER_SIZE :: nat where "MGMT_DMA_BUFFER_SIZE = 1600"
definition MAX_RX_PKT_LEN :: UINT16 where "MAX_RX_PKT_LEN = 1520"

definition CntlEnqueueForRecv :: "ba_config \<Rightarrow> RTMP_ADAPTER \<Rightarrow> nat \<Rightarrow> bytes \<Rightarrow> bool \<times> RTMP_ADAPTER" where
  "CntlEnqueueForRecv cfg a Wcid m =
     (let TID = drop_bit 12 (le16 m 16); StartSeq = drop_bit 4 (le16 m 18) in
      if HaltInProgress cfg then (False, a)
      else if length m > MGMT_DMA_BUFFER_SIZE then (False, a)
      else if length m \<noteq> 20 then (False, a)
      else if Wcid < MAX_LEN_OF_MAC_TABLE \<and> TID < 8 then
        let Idx = unat (BARecWcidArray (Content a ! Wcid) ! unat TID) in
        if Idx \<ge> MAX_LEN_OF_BA_REC_TABLE then (False, out_of_bounds a)
        else (True, on_session Idx (\<lambda>c e. BAR_session c e StartSeq) a)
      else (False, a))"

definition Indicate_AMPDU_Packet :: "nat \<Rightarrow> RTMP_ADAPTER \<Rightarrow> RX_BLK \<Rightarrow> ULONG \<Rightarrow> RTMP_ADAPTER" where
  "Indicate_AMPDU_Packet hz a b Now32 =
     (let Wcid = unat (RxWIWirelessCliID b); TID = unat (RxWITID b) in
      if \<not> rx_AMSDU b \<and> rx_DataSize b > MAX_RX_PKT_LEN then
        a\<lparr>rx := RELEASE_NDIS_PACKET (rx a) (rx_pRxPacket b)\<rparr>
      else if Wcid < MAX_LEN_OF_MAC_TABLE then
        if TID \<ge> NUM_OF_TID then out_of_bounds a
        else
          let Idx = unat (BARecWcidArray (Content a ! Wcid) ! TID) in
          if Idx = 0 then a\<lparr>rx := INDICATE_LEGACY_OR_AMSDU (rx a) b\<rparr>
          else if Idx \<ge> MAX_LEN_OF_BA_REC_TABLE then out_of_bounds a
          else on_session Idx (\<lambda>c e. Indicate_AMPDU_session hz c e b Now32) a
      else a\<lparr>rx := RELEASE_NDIS_PACKET (rx a) (rx_pRxPacket b)\<rparr>)"

fun maintain_tids :: "nat \<Rightarrow> RTMP_ADAPTER \<Rightarrow> nat \<Rightarrow> ULONG \<Rightarrow> nat list \<Rightarrow> RTMP_ADAPTER" where
  "maintain_tids hz a w Now32 [] = a"
| "maintain_tids hz a w Now32 (t # ts) =
     (let Idx = unat (BARecWcidArray (Content a ! w) ! t) in
      if Idx \<ge> MAX_LEN_OF_BA_REC_TABLE then out_of_bounds a
      else maintain_tids hz
             (on_session Idx (\<lambda>c e. ba_flush_reordering_timeout_mpdus hz c e Now32) a) w Now32 ts)"

fun maintain_wcids :: "nat \<Rightarrow> RTMP_ADAPTER \<Rightarrow> ULONG \<Rightarrow> nat list \<Rightarrow> RTMP_ADAPTER" where
  "maintain_wcids hz a Now32 [] = a"
| "maintain_wcids hz a Now32 (w # ws) =
     maintain_wcids hz
       (if EntryType (Content a ! w) = ENTRY_NONE then a
        else maintain_tids hz a w Now32 [0..<NUM_OF_TID]) Now32 ws"

definition BaReOrderingBufferMaintain :: "nat \<Rightarrow> RTMP_ADAPTER \<Rightarrow> ULONG \<Rightarrow> RTMP_ADAPTER" where
  "BaReOrderingBufferMaintain hz a Now32 = maintain_wcids hz a Now32 [1..<MAX_LEN_OF_MAC_TABLE]"


section \<open>Cross references\<close>

text \<open>
  \<open>linked arr used own\<close>: the reference array \<open>arr\<close> (0 for none) and the owners of
  the used entries are inverse to each other. Both session tables keep this relation,
  by the two updates below.
\<close>

definition linked :: "(nat \<times> nat \<Rightarrow> nat) \<Rightarrow> (nat \<Rightarrow> bool) \<Rightarrow> (nat \<Rightarrow> nat \<times> nat) \<Rightarrow> bool" where
  "linked arr used own \<longleftrightarrow>
     (\<forall>i. 0 < i \<and> i < 128 \<and> used i \<longrightarrow> fst (own i) < 32 \<and> snd (own i) < 8 \<and> arr (own i) = i) \<and>
     (\<forall>w < 32. \<forall>t < 8. arr (w, t) \<noteq> 0 \<longrightarrow>
        arr (w, t) < 128 \<and> used (arr (w, t)) \<and> own (arr (w, t)) = (w, t))"

definition busy :: "(nat \<Rightarrow> bool) \<Rightarrow> nat set" where
  "busy used = {i. 0 < i \<and> i < 128 \<and> used i}"

lemma linked_add:
  assumes "linked arr used own" and "arr (w, t) = 0" and "\<not> used i" and "0 < i" "i < 128" and "w < 32" "t < 8"
  shows "linked (arr((w, t) := i)) (used(i := True)) (own(i := (w, t)))"
proof -
  have "own j \<noteq> (w, t)" if "0 < j" "j < 128" "used j" for j
    using assms(1,2) that by (auto simp: linked_def)
  moreover have "arr (w', t') \<noteq> i" if "w' < 32" "t' < 8" for w' t'
    using assms(1,3,4) that unfolding linked_def by (metis neq0_conv)
  ultimately show ?thesis
    using assms unfolding linked_def by auto
qed

lemma linked_del:
  assumes "linked arr used own" and "0 < i" "i < 128" and "used i"
  shows "linked (arr(own i := 0)) (used(i := False)) own"
  using assms unfolding linked_def
  by (intro conjI allI impI; simp split: if_splits; metis prod.collapse)

lemma linkedD:
  assumes "linked arr used own" and "w < 32" and "t < 8" and "arr (w, t) \<noteq> 0"
  shows "arr (w, t) < 128" and "used (arr (w, t))" and "own (arr (w, t)) = (w, t)"
  using assms by (simp_all add: linked_def)

lemma linked_usedD:
  assumes "linked arr used own" and "0 < i" and "i < 128" and "used i"
  shows "fst (own i) < 32" and "snd (own i) < 8" and "arr (own i) = i"
  using assms by (simp_all add: linked_def)

lemma busy_finite [simp]: "finite (busy used)"
  by (rule finite_subset [of _ "{..<128}"]) (auto simp: busy_def)

lemma busy_le: "card (busy used) \<le> 127"
proof -
  have "busy used \<subseteq> {1..<128}" by (auto simp: busy_def)
  then show ?thesis using card_mono [of "{1..<128::nat}" "busy used"] by simp
qed

lemma card_busy_add: "\<not> used i \<Longrightarrow> 0 < i \<Longrightarrow> i < 128 \<Longrightarrow> card (busy (used(i := True))) = Suc (card (busy used))"
proof -
  assume "\<not> used i" "0 < i" "i < 128"
  then have "busy (used(i := True)) = insert i (busy used)" "i \<notin> busy used" by (auto simp: busy_def)
  then show ?thesis by simp
qed

lemma card_busy_del: "used i \<Longrightarrow> 0 < i \<Longrightarrow> i < 128 \<Longrightarrow> Suc (card (busy (used(i := False)))) = card (busy used)"
proof -
  assume "used i" "0 < i" "i < 128"
  then have "busy used = insert i (busy (used(i := False)))" "i \<notin> busy (used(i := False))" by (auto simp: busy_def)
  then show ?thesis by simp
qed

lemma count_add: "c = of_nat (card (busy used)) \<Longrightarrow> \<not> used i \<Longrightarrow> 0 < i \<Longrightarrow> i < 128 \<Longrightarrow>
  (c :: ULONG) + 1 = of_nat (card (busy (used(i := True))))"
  using card_busy_add [of used i] by simp

lemma count_del: "c = of_nat (card (busy used)) \<Longrightarrow> used i \<Longrightarrow> 0 < i \<Longrightarrow> i < 128 \<Longrightarrow>
  (c :: ULONG) - 1 = of_nat (card (busy (used(i := False))))"
  using card_busy_del [of used i] by (metis add_diff_cancel_left' of_nat_Suc)

text \<open>A counter below 127 leaves a free entry among 1 to 127.\<close>

lemma free_entry:
  assumes "c = (of_nat (card (busy used)) :: ULONG)" and "\<not> c \<ge> 127"
  shows "\<exists>i. 0 < i \<and> i < 128 \<and> \<not> used i"
proof (rule ccontr)
  assume "\<nexists>i. 0 < i \<and> i < 128 \<and> \<not> used i"
  then have "busy used = {1..<128}" by (auto simp: busy_def)
  then have "card (busy used) = 127" by simp
  with assms show False by simp
qed

section \<open>Session operations keep the lists well formed\<close>

definition same_session :: "BA_REC_ENTRY \<Rightarrow> BA_REC_ENTRY \<Rightarrow> bool" where
  "same_session e e' \<longleftrightarrow>
     REC_BA_Status e' = REC_BA_Status e \<and> rec_Wcid e' = rec_Wcid e \<and> rec_TID e' = rec_TID e"

definition wf2 :: "rx_ctx \<Rightarrow> BA_REC_ENTRY \<Rightarrow> bool" where
  "wf2 c e \<longleftrightarrow> wf_list (freelist c) \<and> wf_list (reorder_list e)"

definition session_op :: "(rx_ctx \<Rightarrow> BA_REC_ENTRY \<Rightarrow> rx_ctx \<times> BA_REC_ENTRY) \<Rightarrow> bool" where
  "session_op f \<longleftrightarrow> (\<forall>c e c' e'. wf2 c e \<longrightarrow> f c e = (c', e') \<longrightarrow> wf2 c' e' \<and> same_session e e')"

definition keeps_empty :: "(rx_ctx \<Rightarrow> BA_REC_ENTRY \<Rightarrow> rx_ctx \<times> BA_REC_ENTRY) \<Rightarrow> bool" where
  "keeps_empty f \<longleftrightarrow>
     (\<forall>c e c' e'. wf2 c e \<longrightarrow> buffer e = [] \<longrightarrow> f c e = (c', e') \<longrightarrow> buffer e' = [])"

lemma wf2_upd [simp]:
  "wf2 c (e\<lparr>LastIndSeq := x\<rparr>) = wf2 c e" "wf2 c (e\<lparr>LastIndSeqAtTimer := t\<rparr>) = wf2 c e"
  "wf2 c (e\<lparr>rcvSeq := r\<rparr>) = wf2 c e" "wf2 c (e\<lparr>nDropPacket := n\<rparr>) = wf2 c e"
  "wf2 (c\<lparr>events := evs\<rparr>) e = wf2 c e" "wf2 (emit ev c) e = wf2 c e"
  "wf2 (INDICATE_LEGACY_OR_AMSDU c b) e = wf2 c e" "wf2 (RELEASE_NDIS_PACKET c p) e = wf2 c e"
  by (simp_all add: wf2_def emit_def INDICATE_LEGACY_OR_AMSDU_def RELEASE_NDIS_PACKET_def)

lemma same_session_upd [simp]:
  "same_session e (e'\<lparr>LastIndSeq := x\<rparr>) = same_session e e'"
  "same_session e (e'\<lparr>LastIndSeqAtTimer := t\<rparr>) = same_session e e'"
  "same_session e (e'\<lparr>rcvSeq := r\<rparr>) = same_session e e'"
  "same_session e (e'\<lparr>nDropPacket := n\<rparr>) = same_session e e'"
  "same_session e (e'\<lparr>reorder_list := l\<rparr>) = same_session e e'"
  "same_session (e\<lparr>LastIndSeq := x\<rparr>) e' = same_session e e'"
  "same_session (e\<lparr>LastIndSeqAtTimer := t\<rparr>) e' = same_session e e'"
  "same_session (e\<lparr>rcvSeq := r\<rparr>) e' = same_session e e'"
  "same_session e e"
  by (simp_all add: same_session_def)

lemma same_session_trans: "same_session e e1 \<Longrightarrow> same_session e1 e2 \<Longrightarrow> same_session e e2"
  by (simp add: same_session_def)

lemma in_order_wf2:
  assumes "wf2 c e" and "ba_indicate_reordering_mpdus_in_order c e s = (c', e', t)"
  shows "wf2 c' e' \<and> same_session e e' \<and> (buffer e = [] \<longrightarrow> buffer e' = [])"
  using assms length_consecutive [of s "buffer e"]
  by (auto simp: wf2_def in_order_eq Let_def split: if_splits)

lemma le_seq_wf2:
  assumes "wf2 c e" and "ba_indicate_reordering_mpdus_le_seq c e s = (c', e')"
  shows "wf2 c' e' \<and> same_session e e' \<and> (buffer e = [] \<longrightarrow> buffer e' = [])"
  using assms length_takeWhile_le [of "upto_seq s" "buffer e"]
  by (auto simp: wf2_def le_seq_eq Let_def)

lemma refresh_session_op: "session_op ba_refresh_reordering_mpdus"
  by (auto simp: session_op_def wf2_def refresh_eq Let_def)

lemma refresh_empties:
  "wf2 c e \<Longrightarrow> ba_refresh_reordering_mpdus c e = (c', e') \<Longrightarrow> buffer e' = []"
  by (auto simp: wf2_def refresh_eq Let_def)

lemma flush_one_wf2:
  assumes "wf2 c e" and "flush_one c e n = (c', e')"
  shows "wf2 c' e' \<and> same_session e e' \<and> (buffer e = [] \<longrightarrow> buffer e' = [])"
proof -
  let ?s = "ucast ((ucast (LastIndSeq e) + 1) AND MAXSEQ) :: UINT16"
  obtain c1 e1 where 1: "ba_indicate_reordering_mpdus_le_seq c e ?s = (c1, e1)" by fastforce
  let ?e1 = "e1\<lparr>LastIndSeqAtTimer := n, LastIndSeq := ?s\<rparr>"
  obtain c2 e2 t where 2: "ba_indicate_reordering_mpdus_in_order c1 ?e1 ?s = (c2, e2, t)" by (metis prod_cases3)
  have "wf2 c1 ?e1" "same_session e e1" "buffer e = [] \<longrightarrow> buffer ?e1 = []"
    using le_seq_wf2 [OF assms(1) 1] by auto
  moreover from in_order_wf2 [OF this(1) 2]
  have "wf2 c2 e2" "same_session e1 e2" "buffer ?e1 = [] \<longrightarrow> buffer e2 = []" by auto
  moreover have "c' = c2" "e' = e2 \<or> e' = e2\<lparr>LastIndSeq := t\<rparr>"
    using assms(2) by (auto simp: flush_one_def 1 2 split: if_splits)
  ultimately show ?thesis by (auto intro: same_session_trans)
qed

lemma flush_wf2:
  assumes "wf2 c e" and "ba_flush_reordering_timeout_mpdus hz c e n = (c', e')"
  shows "wf2 c' e' \<and> same_session e e' \<and> (buffer e = [] \<longrightarrow> buffer e' = [])"
proof -
  obtain c1 e1 where r: "ba_refresh_reordering_mpdus c e = (c1, e1)" by fastforce
  have "wf2 c1 e1 \<and> same_session e e1 \<and> buffer e1 = []"
    using refresh_session_op refresh_empties r assms(1) by (auto simp: session_op_def)
  moreover have "(c', e') = (c, e) \<or> (c', e') = (c1, e1\<lparr>LastIndSeqAtTimer := n\<rparr>) \<or> (c', e') = flush_one c e n"
    using assms(2) by (auto simp: ba_flush_reordering_timeout_mpdus_def r split: if_splits)
  ultimately show ?thesis
    using assms(1) flush_one_wf2 [OF assms(1), of n c' e'] by auto
qed

lemma flush_session_op: "session_op (\<lambda>c e. ba_flush_reordering_timeout_mpdus hz c e n)"
  and flush_keeps_empty: "keeps_empty (\<lambda>c e. ba_flush_reordering_timeout_mpdus hz c e n)"
  using flush_wf2 by (auto simp: session_op_def keeps_empty_def)

lemma BAR_session_op: "session_op (\<lambda>c e. BAR_session c e s)"
  and BAR_keeps_empty: "keeps_empty (\<lambda>c e. BAR_session c e s)"
  by (auto simp: session_op_def keeps_empty_def BAR_session_def split: prod.splits if_splits
      dest!: le_seq_wf2 [rotated])

lemma length_insert_scan: "insert_scan ms m = Some ms' \<Longrightarrow> length ms' = Suc (length ms)"
  by (induction ms arbitrary: ms') (auto split: if_splits)

lemma enqueue_wf2:
  assumes "wf2 c e" and "ba_enqueue_reordering_packet c e b = (c', e')"
  shows "wf2 c' e' \<and> same_session e e'"
proof -
  obtain blk c1 where al: "ba_mpdu_blk_alloc c = (blk, c1)" by fastforce
  then have w1: "wf2 c1 e"
    using assms(1)
    by (cases "mpdus (freelist c)")
       (auto simp: wf2_def ba_mpdu_blk_alloc_def ba_dequeue_Cons ba_dequeue_Nil)
  show ?thesis
  proof (cases "if rx_EAP b then None else blk")
    case None
    then show ?thesis
      using assms(2) le_seq_wf2 [OF w1] by (auto simp: ba_enqueue_reordering_packet_def al Let_def split: prod.splits)
  next
    case (Some m)
    let ?m = "m\<lparr>Sequence := rx_Sequence b, OpMode := rx_OpMode b, bAMSDU := rx_AMSDU b, pPacket := rx_pRxPacket b\<rparr>"
    show ?thesis
    proof (cases "insert_scan (buffer e) ?m")
      case None
      with assms(2) w1 show ?thesis
        by (auto simp: ba_enqueue_reordering_packet_def al Some ba_reordering_mpdu_insertsorted_def wf2_def
            wf_list_def ba_mpdu_blk_free_def ba_enqueue_def RELEASE_NDIS_PACKET_def emit_def)
    next
      case ins: (Some ms)
      with assms(2) w1 length_insert_scan [OF ins] show ?thesis
        by (auto simp: ba_enqueue_reordering_packet_def al Some ba_reordering_mpdu_insertsorted_def wf2_def wf_list_def)
    qed
  qed
qed

lemma in_order_case_wf2:
  assumes "wf2 c e" and "Indicate_in_order c e b n = (c', e')"
  shows "wf2 c' e' \<and> same_session e e'"
  using assms in_order_wf2 [of "INDICATE_LEGACY_OR_AMSDU c b" "e\<lparr>LastIndSeq := rx_Sequence b\<rparr>"]
  by (auto simp: Indicate_in_order_def split: prod.splits if_splits)

lemma beyond_window_wf2:
  assumes "wf2 c e" and "Indicate_beyond_window c e b n = (c', e')"
  shows "wf2 c' e' \<and> same_session e e'"
proof -
  let ?W = "WinStart (rx_Sequence b) (rec_BAWinSize e)"
  obtain c1 e1 where 1: "ba_indicate_reordering_mpdus_le_seq c e ?W = (c1, e1)" by fastforce
  obtain c2 e2 where 2: "ba_enqueue_reordering_packet c1 (e1\<lparr>LastIndSeq := ?W, LastIndSeqAtTimer := n\<rparr>) b = (c2, e2)"
    by fastforce
  obtain c3 e3 t where 3: "ba_indicate_reordering_mpdus_in_order c2 e2 (LastIndSeq e2) = (c3, e3, t)"
    by (metis prod_cases3)
  have "wf2 c1 e1" "same_session e e1" using le_seq_wf2 [OF assms(1) 1] by auto
  moreover from this(1) have "wf2 c2 e2" "same_session e1 e2" using enqueue_wf2 [OF _ 2] by auto
  moreover from this(1) have "wf2 c3 e3" "same_session e2 e3" using in_order_wf2 [OF _ 3] by auto
  moreover have "c' = c3" "e' = e3 \<or> e' = e3\<lparr>LastIndSeq := t\<rparr>"
    using assms(2) by (auto simp: Indicate_beyond_window_def 1 2 3 Let_def split: if_splits)
  ultimately show ?thesis by (auto intro: same_session_trans)
qed

lemma Indicate_cases_wf2:
  assumes "wf2 c e" and "Indicate_cases c e b n = (c', e')"
  shows "wf2 c' e' \<and> same_session e e'"
proof -
  consider "(c', e') = (INDICATE_LEGACY_OR_AMSDU c b, e\<lparr>LastIndSeq := rx_Sequence b, LastIndSeqAtTimer := n\<rparr>)"
    | "Indicate_in_order c e b n = (c', e')"
    | "(c', e') = (RELEASE_NDIS_PACKET c (rx_pRxPacket b), e\<lparr>nDropPacket := nDropPacket e + 1\<rparr>)"
    | "ba_enqueue_reordering_packet c e b = (c', e')" | "Indicate_beyond_window c e b n = (c', e')"
    using assms(2) by (simp only: Indicate_cases_def Let_def split: if_splits)
  then show ?thesis
  proof cases
    case 2
    with assms(1) show ?thesis by (rule in_order_case_wf2)
  next
    case 4
    with assms(1) show ?thesis by (rule enqueue_wf2)
  next
    case 5
    with assms(1) show ?thesis by (rule beyond_window_wf2)
  qed (use assms(1) in simp_all)
qed

lemma Indicate_session_op: "session_op (\<lambda>c e. Indicate_AMPDU_session hz c e b n)"
  unfolding session_op_def
proof (intro allI impI)
  fix c e c' e' assume wf: "wf2 c e" and r: "Indicate_AMPDU_session hz c e b n = (c', e')"
  let ?e = "e\<lparr>rcvSeq := ucast (rx_Sequence b)\<rparr>"
  obtain c0 e0 where f: "ba_flush_reordering_timeout_mpdus hz c ?e n = (c0, e0)" by fastforce
  have "wf2 c0 e0" "same_session e e0" using flush_wf2 [OF _ f] wf by auto
  then show "wf2 c' e' \<and> same_session e e'"
    using r Indicate_cases_wf2 [of c0 "e0\<lparr>LastIndSeqAtTimer := n\<rparr>"]
    by (auto simp: Indicate_AMPDU_session_def f intro: same_session_trans)
qed

section \<open>The invariant\<close>

definition rec_arr :: "RTMP_ADAPTER \<Rightarrow> nat \<times> nat \<Rightarrow> nat" where
  "rec_arr a = (\<lambda>(w, t). unat (BARecWcidArray (Content a ! w) ! t))"

definition rec_used :: "RTMP_ADAPTER \<Rightarrow> nat \<Rightarrow> bool" where
  "rec_used a i \<longleftrightarrow> \<not> rec_none (BARecEntry a ! i)"

definition rec_own :: "RTMP_ADAPTER \<Rightarrow> nat \<Rightarrow> nat \<times> nat" where
  "rec_own a i = (unat (rec_Wcid (BARecEntry a ! i)), unat (rec_TID (BARecEntry a ! i)))"

definition ori_arr :: "RTMP_ADAPTER \<Rightarrow> nat \<times> nat \<Rightarrow> nat" where
  "ori_arr a = (\<lambda>(w, t). unat (BAOriWcidArray (Content a ! w) ! t))"

definition ori_used :: "RTMP_ADAPTER \<Rightarrow> nat \<Rightarrow> bool" where
  "ori_used a i \<longleftrightarrow> \<not> ori_none (BAOriEntry a ! i)"

definition ori_done :: "RTMP_ADAPTER \<Rightarrow> nat \<Rightarrow> bool" where
  "ori_done a i \<longleftrightarrow> ORI_BA_Status (BAOriEntry a ! i) = Originator_Done"

definition ori_own :: "RTMP_ADAPTER \<Rightarrow> nat \<Rightarrow> nat \<times> nat" where
  "ori_own a i = (unat (ori_Wcid (BAOriEntry a ! i)), unat (ori_TID (BAOriEntry a ! i)))"

text \<open>The sizes of the arrays, and that a peer's association id is its index.\<close>

definition entry_shape :: "nat \<Rightarrow> MAC_TABLE_ENTRY \<Rightarrow> bool" where
  "entry_shape w m \<longleftrightarrow>
     length (BARecWcidArray m) = NUM_OF_TID \<and> length (BAOriWcidArray m) = NUM_OF_TID \<and>
     length (TxSeq m) = NUM_OF_TID \<and> (HtSta m \<or> EntryType m \<noteq> ENTRY_NONE \<longrightarrow> Aid m = of_nat w)"

definition shape :: "RTMP_ADAPTER \<Rightarrow> bool" where
  "shape a \<longleftrightarrow>
     length (Content a) = MAX_LEN_OF_MAC_TABLE \<and> length (BARecEntry a) = MAX_LEN_OF_BA_REC_TABLE \<and>
     length (BAOriEntry a) = MAX_LEN_OF_BA_ORI_TABLE \<and>
     (\<forall>w < MAX_LEN_OF_MAC_TABLE. entry_shape w (Content a ! w))"

definition buffers_ok :: "RTMP_ADAPTER \<Rightarrow> bool" where
  "buffers_ok a \<longleftrightarrow>
     (\<forall>i < 128. wf2 (rx a) (BARecEntry a ! i) \<and>
                (i = 0 \<or> \<not> rec_used a i \<longrightarrow> buffer (BARecEntry a ! i) = []))"

definition rec_inv :: "RTMP_ADAPTER \<Rightarrow> bool" where
  "rec_inv a \<longleftrightarrow>
     linked (rec_arr a) (rec_used a) (rec_own a) \<and>
     (\<forall>i. 0 < i \<and> i < 128 \<and> rec_used a i \<longrightarrow> REC_BA_Status (BARecEntry a ! i) = Recipient_Accept) \<and>
     (\<forall>w < 32. \<forall>t < 8. bit (RXBAbitmap (Content a ! w)) t \<longleftrightarrow> rec_arr a (w, t) \<noteq> 0) \<and>
     numAsRecipient a = of_nat (card (busy (rec_used a))) \<and> buffers_ok a"

definition ori_inv :: "RTMP_ADAPTER \<Rightarrow> bool" where
  "ori_inv a \<longleftrightarrow>
     linked (ori_arr a) (ori_used a) (ori_own a) \<and>
     (\<forall>i. 0 < i \<and> i < 128 \<and> ori_used a i \<longrightarrow> ori_busy (BAOriEntry a ! i)) \<and>
     (\<forall>w < 32. \<forall>t < 8. bit (TXBAbitmap (Content a ! w)) t \<longleftrightarrow>
        ori_arr a (w, t) \<noteq> 0 \<and> ori_done a (ori_arr a (w, t))) \<and>
     numAsOriginator a = of_nat (card (busy (ori_used a))) \<and>
     numDoneOriginator a = of_nat (card (busy (ori_done a)))"

definition ba_inv :: "RTMP_ADAPTER \<Rightarrow> bool" where
  "ba_inv a \<longleftrightarrow> shape a \<and> rec_inv a \<and> ori_inv a"

lemma rec_inv_cong:
  assumes "rec_arr a' = rec_arr a" and "BARecEntry a' = BARecEntry a"
    and "\<And>w t. w < 32 \<Longrightarrow> t < 8 \<Longrightarrow> bit (RXBAbitmap (Content a' ! w)) t = bit (RXBAbitmap (Content a ! w)) t"
    and "numAsRecipient a' = numAsRecipient a" and "rx a' = rx a"
  shows "rec_inv a' = rec_inv a"
proof -
  have "rec_used a' = rec_used a" "rec_own a' = rec_own a"
    using assms(2) by (simp_all add: fun_eq_iff rec_used_def rec_own_def)
  with assms show ?thesis by (simp add: rec_inv_def buffers_ok_def)
qed

lemma ori_inv_cong:
  assumes "ori_arr a' = ori_arr a" and "BAOriEntry a' = BAOriEntry a"
    and "\<And>w t. w < 32 \<Longrightarrow> t < 8 \<Longrightarrow> bit (TXBAbitmap (Content a' ! w)) t = bit (TXBAbitmap (Content a ! w)) t"
    and "numAsOriginator a' = numAsOriginator a" and "numDoneOriginator a' = numDoneOriginator a"
  shows "ori_inv a' = ori_inv a"
proof -
  have "ori_used a' = ori_used a" "ori_own a' = ori_own a" "ori_done a' = ori_done a"
    using assms(2) by (simp_all add: fun_eq_iff ori_used_def ori_own_def ori_done_def)
  with assms show ?thesis by (simp add: ori_inv_def)
qed

lemma inv_log [simp]: "ba_inv (log_dev ev a) = ba_inv a"
  by (simp add: ba_inv_def shape_def rec_inv_cong [of "log_dev ev a" a] ori_inv_cong [of "log_dev ev a" a]
      rec_arr_def ori_arr_def)

lemma inv_mem [simp]: "ba_inv (a\<lparr>mem := x\<rparr>) = ba_inv a"
  by (simp add: ba_inv_def shape_def rec_inv_cong [of "a\<lparr>mem := x\<rparr>" a] ori_inv_cong [of "a\<lparr>mem := x\<rparr>" a]
      rec_arr_def ori_arr_def)

lemma inv_alloc_mem: "alloc_mem a = (ok, a') \<Longrightarrow> ba_inv a \<Longrightarrow> ba_inv a' \<and> oob a' = oob a"
  by (auto simp: alloc_mem_def split: list.splits)

lemma arr_upd:
  assumes "shape a" and "w < 32" and "t < 8"
  shows "rec_arr (upd_entry w (\<lambda>m. (f m)\<lparr>BARecWcidArray := (BARecWcidArray m)[t := x]\<rparr>) a) = (rec_arr a)((w, t) := unat x)"
    and "ori_arr (upd_entry w (\<lambda>m. (g m)\<lparr>BAOriWcidArray := (BAOriWcidArray m)[t := x]\<rparr>) a) = (ori_arr a)((w, t) := unat x)"
  using assms
  by (auto simp: rec_arr_def ori_arr_def fun_eq_iff shape_def entry_shape_def size_defs nth_list_update)

text \<open>The three ways in which the recipient side changes.\<close>

lemma rec_inv_add:
  assumes inv: "rec_inv a" and "w < 32" and "t < 8" and "rec_arr a (w, t) = 0"
    and "0 < i" and "i < 128" and "\<not> rec_used a i"
    and "rec_arr a' = (rec_arr a)((w, t) := i)" and R: "BARecEntry a' = (BARecEntry a)[i := e]"
    and "i < length (BARecEntry a)"
    and e: "REC_BA_Status e = Recipient_Accept" "unat (rec_Wcid e) = w" "unat (rec_TID e) = t"
       "reorder_list e = reorder_list (BARecEntry a ! i)"
    and bits: "\<And>w' t'. w' < 32 \<Longrightarrow> t' < 8 \<Longrightarrow> bit (RXBAbitmap (Content a' ! w')) t' =
       ((w', t') = (w, t) \<or> bit (RXBAbitmap (Content a ! w')) t')"
    and num: "numAsRecipient a' = numAsRecipient a + 1" and "rx a' = rx a"
  shows "rec_inv a'"
proof -
  have u: "rec_used a' = (rec_used a)(i := True)" "rec_own a' = (rec_own a)(i := (w, t))"
    using R e assms(10) by (auto simp: rec_used_def rec_own_def rec_none_def fun_eq_iff nth_list_update)
  have "linked (rec_arr a') (rec_used a') (rec_own a')"
    unfolding assms(8) u using inv assms(2-7) by (intro linked_add) (simp_all add: rec_inv_def)
  moreover have "numAsRecipient a' = of_nat (card (busy (rec_used a')))"
    unfolding num u(1) using inv assms(5-7) by (intro count_add) (simp_all add: rec_inv_def)
  moreover have "buffers_ok a'"
    using inv R e assms(5,10,17) u(1) by (auto simp: rec_inv_def buffers_ok_def nth_list_update wf2_def)
  ultimately show ?thesis
    using inv R e(1) assms(5,8,10) bits u(1) by (auto simp: rec_inv_def nth_list_update)
qed

lemma rec_inv_del:
  assumes inv: "rec_inv a" and "0 < i" and "i < 128" and "rec_used a i"
    and "rec_arr a' = (rec_arr a)(rec_own a i := 0)" and R: "BARecEntry a' = (BARecEntry a)[i := e]"
    and "i < length (BARecEntry a)"
    and e: "REC_BA_Status e = Recipient_NONE" "rec_Wcid e = rec_Wcid (BARecEntry a ! i)"
       "rec_TID e = rec_TID (BARecEntry a ! i)" "wf_list (reorder_list e)" "buffer e = []"
    and bits: "\<And>w' t'. w' < 32 \<Longrightarrow> t' < 8 \<Longrightarrow> bit (RXBAbitmap (Content a' ! w')) t' =
       ((w', t') \<noteq> rec_own a i \<and> bit (RXBAbitmap (Content a ! w')) t')"
    and num: "numAsRecipient a' = numAsRecipient a - 1" and "wf_list (freelist (rx a'))"
  shows "rec_inv a'"
proof -
  have u: "rec_used a' = (rec_used a)(i := False)" "rec_own a' = rec_own a"
    using R e assms(7) by (auto simp: rec_used_def rec_own_def rec_none_def fun_eq_iff nth_list_update)
  have "linked (rec_arr a') (rec_used a') (rec_own a')"
    unfolding assms(5) u using inv assms(2-4) by (intro linked_del) (simp_all add: rec_inv_def)
  moreover have "numAsRecipient a' = of_nat (card (busy (rec_used a')))"
    unfolding num u(1) using inv assms(2-4) by (intro count_del) (simp_all add: rec_inv_def)
  moreover have "buffers_ok a'"
    using inv R e assms(7,15) u(1) by (auto simp: rec_inv_def buffers_ok_def nth_list_update wf2_def)
  ultimately show ?thesis
    using inv R assms(5,7) bits u(1) by (auto simp: rec_inv_def nth_list_update)
qed

lemma on_session_inv:
  assumes inv: "ba_inv a" and "i < 128" and f: "session_op f" and z: "i = 0 \<Longrightarrow> keeps_empty f"
    and z': "\<not> rec_used a i \<Longrightarrow> keeps_empty f"
  shows "ba_inv (on_session i f a)"
proof -
  obtain c e where fe: "f (rx a) (BARecEntry a ! i) = (c, e)" by fastforce
  let ?a = "a\<lparr>rx := c, BARecEntry := (BARecEntry a)[i := e]\<rparr>"
  have L: "i < length (BARecEntry a)" and b: "buffers_ok a"
    using inv assms(2) by (simp_all add: ba_inv_def shape_def size_defs rec_inv_def)
  have wf: "wf2 (rx a) (BARecEntry a ! i)" using b assms(2) by (simp add: buffers_ok_def)
  have s: "wf2 c e" "same_session (BARecEntry a ! i) e" using f wf fe by (auto simp: session_op_def)
  have em: "buffer e = []" if "i = 0 \<or> \<not> rec_used a i"
    using that z z' b wf fe assms(2) unfolding keeps_empty_def buffers_ok_def by metis
  have u: "rec_used ?a = rec_used a" "rec_own ?a = rec_own a" "rec_arr ?a = rec_arr a"
    using s(2) L by (auto simp: fun_eq_iff rec_used_def rec_own_def rec_arr_def rec_none_def same_session_def nth_list_update)
  have "buffers_ok ?a"
    unfolding buffers_ok_def u(1) using b s(1) em L
    by (auto simp: buffers_ok_def nth_list_update wf2_def)
  moreover have "REC_BA_Status (BARecEntry ?a ! j) = REC_BA_Status (BARecEntry a ! j)" for j
    using s(2) L by (simp add: same_session_def nth_list_update)
  ultimately have "rec_inv ?a"
    using inv u by (simp add: ba_inv_def rec_inv_def)
  moreover have "shape ?a" "ori_inv ?a"
    using inv by (simp_all add: ba_inv_def shape_def ori_inv_cong [of ?a a] ori_arr_def)
  ultimately show ?thesis by (simp add: ba_inv_def on_session_def fe)
qed

text \<open>The four ways in which the originator side changes.\<close>

lemma ori_inv_add:
  assumes inv: "ori_inv a" and "w < 32" and "t < 8" and "ori_arr a (w, t) = 0"
    and "0 < i" and "i < 128" and "\<not> ori_used a i"
    and "ori_arr a' = (ori_arr a)((w, t) := i)" and R: "BAOriEntry a' = (BAOriEntry a)[i := e]"
    and "i < length (BAOriEntry a)"
    and e: "ORI_BA_Status e = Originator_WaitRes" "unat (ori_Wcid e) = w" "unat (ori_TID e) = t"
    and bits: "\<And>w'. w' < 32 \<Longrightarrow> TXBAbitmap (Content a' ! w') = TXBAbitmap (Content a ! w')"
    and num: "numAsOriginator a' = numAsOriginator a + 1" "numDoneOriginator a' = numDoneOriginator a"
  shows "ori_inv a'"
proof -
  have u: "ori_used a' = (ori_used a)(i := True)" "ori_own a' = (ori_own a)(i := (w, t))"
    using R e assms(10) by (auto simp: ori_used_def ori_own_def ori_none_def fun_eq_iff nth_list_update)
  have d: "ori_done a' = ori_done a"
    using R e assms(7,10) by (auto simp: ori_done_def ori_used_def ori_none_def fun_eq_iff nth_list_update)
  have "linked (ori_arr a') (ori_used a') (ori_own a')"
    unfolding assms(8) u using inv assms(2-7) by (intro linked_add) (simp_all add: ori_inv_def)
  moreover have "numAsOriginator a' = of_nat (card (busy (ori_used a')))"
    unfolding num u(1) using inv assms(5-7) by (intro count_add) (simp_all add: ori_inv_def)
  moreover have "\<not> ori_done a i" using assms(7) by (auto simp: ori_done_def ori_used_def ori_none_def)
  ultimately show ?thesis
    using inv R e(1) assms(2-8,10) bits u(1) d num(2)
    by (auto simp: ori_inv_def nth_list_update ori_busy_def)
qed

lemma ori_inv_del:
  assumes inv: "ori_inv a" and "0 < i" and "i < 128" and "ori_used a i"
    and "ori_arr a' = (ori_arr a)(ori_own a i := 0)" and R: "BAOriEntry a' = (BAOriEntry a)[i := e]"
    and "i < length (BAOriEntry a)"
    and e: "ORI_BA_Status e = Originator_NONE" "ori_Wcid e = ori_Wcid (BAOriEntry a ! i)"
       "ori_TID e = ori_TID (BAOriEntry a ! i)"
    and bits: "\<And>w' t'. w' < 32 \<Longrightarrow> t' < 8 \<Longrightarrow> bit (TXBAbitmap (Content a' ! w')) t' =
       (\<not> (ori_done a i \<and> (w', t') = ori_own a i) \<and> bit (TXBAbitmap (Content a ! w')) t')"
    and num: "numAsOriginator a' = numAsOriginator a - 1"
       "numDoneOriginator a' = numDoneOriginator a - (if ori_done a i then 1 else 0)"
  shows "ori_inv a'"
proof -
  have u: "ori_used a' = (ori_used a)(i := False)" "ori_own a' = ori_own a" "ori_done a' = (ori_done a)(i := False)"
    using R e assms(7) by (auto simp: ori_used_def ori_own_def ori_done_def ori_none_def fun_eq_iff nth_list_update)
  have l: "linked (ori_arr a) (ori_used a) (ori_own a)" using inv by (simp add: ori_inv_def)
  have "linked (ori_arr a') (ori_used a') (ori_own a')"
    unfolding assms(5) u using l assms(2-4) by (intro linked_del) simp_all
  moreover have "numAsOriginator a' = of_nat (card (busy (ori_used a')))"
    unfolding num u(1) using inv assms(2-4) by (intro count_del) (simp_all add: ori_inv_def)
  moreover have "numDoneOriginator a' = of_nat (card (busy (ori_done a')))"
  proof (cases "ori_done a i")
    case True
    then show ?thesis
      unfolding num u(3) using inv assms(2,3) by (simp only: if_True, intro count_del) (simp_all add: ori_inv_def)
  next
    case False
    then show ?thesis using inv num(2) u(3) by (simp add: ori_inv_def fun_upd_idem)
  qed
  moreover have own: "ori_arr a (ori_own a i) = i" "fst (ori_own a i) < 32" "snd (ori_own a i) < 8"
    using linked_usedD [OF l assms(2-4)] by auto
  have "bit (TXBAbitmap (Content a' ! w')) t' \<longleftrightarrow> ori_arr a' (w', t') \<noteq> 0 \<and> ori_done a' (ori_arr a' (w', t'))"
    if w: "w' < 32" "t' < 8" for w' t'
  proof -
    have old: "bit (TXBAbitmap (Content a ! w')) t' \<longleftrightarrow> ori_arr a (w', t') \<noteq> 0 \<and> ori_done a (ori_arr a (w', t'))"
      using inv w by (simp add: ori_inv_def)
    have "ori_arr a (w', t') \<noteq> i \<or> (w', t') = ori_own a i"
      using linkedD(3) [OF l w] assms(2) by (cases "ori_arr a (w', t') = i") auto
    note ne = this
    show ?thesis
    proof (cases "(w', t') = ori_own a i")
      case True
      have "ori_arr a (w', t') = i" using own(1) True by simp
      then show ?thesis unfolding bits [OF w] old assms(5) using True by simp blast
    next
      case False
      then show ?thesis using ne bits [OF w] old by (simp add: assms(5) u(3))
    qed
  qed
  ultimately show ?thesis
    using inv R u assms(7) by (auto simp: ori_inv_def nth_list_update)
qed

lemma ori_inv_done:
  assumes inv: "ori_inv a" and "w < 32" and "t < 8" and "ori_arr a (w, t) = i" and "i \<noteq> 0"
    and st: "ORI_BA_Status (BAOriEntry a ! i) = Originator_WaitRes"
    and "ori_arr a' = ori_arr a" and R: "BAOriEntry a' = (BAOriEntry a)[i := e]" and "i < length (BAOriEntry a)"
    and e: "ORI_BA_Status e = Originator_Done" "ori_Wcid e = ori_Wcid (BAOriEntry a ! i)"
       "ori_TID e = ori_TID (BAOriEntry a ! i)"
    and bits: "\<And>w' t'. w' < 32 \<Longrightarrow> t' < 8 \<Longrightarrow> bit (TXBAbitmap (Content a' ! w')) t' =
       ((w', t') = (w, t) \<or> bit (TXBAbitmap (Content a ! w')) t')"
    and num: "numAsOriginator a' = numAsOriginator a" "numDoneOriginator a' = numDoneOriginator a + 1"
  shows "ori_inv a'"
proof -
  have u: "ori_used a' = ori_used a" "ori_own a' = ori_own a" "ori_done a' = (ori_done a)(i := True)"
    using R e assms(9) st by (auto simp: ori_used_def ori_own_def ori_done_def ori_none_def fun_eq_iff nth_list_update)
  have l: "linked (ori_arr a) (ori_used a) (ori_own a)" using inv by (simp add: ori_inv_def)
  have i: "0 < i" "i < 128" "ori_own a i = (w, t)" using linkedD [OF l assms(2,3)] assms(4,5) by auto
  have nd: "\<not> ori_done a i" using st by (simp add: ori_done_def)
  have "numDoneOriginator a' = of_nat (card (busy (ori_done a')))"
    unfolding num u(3) using inv i nd by (intro count_add) (simp_all add: ori_inv_def)
  moreover have "bit (TXBAbitmap (Content a' ! w')) t' \<longleftrightarrow> ori_arr a' (w', t') \<noteq> 0 \<and> ori_done a' (ori_arr a' (w', t'))"
    if w: "w' < 32" "t' < 8" for w' t'
  proof -
    have old: "bit (TXBAbitmap (Content a ! w')) t' \<longleftrightarrow> ori_arr a (w', t') \<noteq> 0 \<and> ori_done a (ori_arr a (w', t'))"
      using inv w by (simp add: ori_inv_def)
    have "ori_arr a (w', t') \<noteq> i \<or> (w', t') = (w, t)"
      using linkedD(3) [OF l w] i by (cases "ori_arr a (w', t') = i") auto
    then show ?thesis
      using bits [OF w] old i(1) assms(4) by (auto simp: assms(7) u(3))
  qed
  ultimately show ?thesis
    using inv R e(1) u assms(7,9) num(1) by (auto simp: ori_inv_def nth_list_update ori_busy_def)
qed

lemma ori_inv_same:
  assumes inv: "ba_inv a" and "ORI_BA_Status (f (BAOriEntry a ! i)) = ORI_BA_Status (BAOriEntry a ! i)"
    and "ori_Wcid (f (BAOriEntry a ! i)) = ori_Wcid (BAOriEntry a ! i)" "ori_TID (f (BAOriEntry a ! i)) = ori_TID (BAOriEntry a ! i)"
  shows "ba_inv (upd_ori i f a)"
proof -
  let ?a = "upd_ori i f a"
  have st: "ORI_BA_Status ((BAOriEntry a)[i := f (BAOriEntry a ! i)] ! j) = ORI_BA_Status (BAOriEntry a ! j)"
      "ori_Wcid ((BAOriEntry a)[i := f (BAOriEntry a ! i)] ! j) = ori_Wcid (BAOriEntry a ! j)"
      "ori_TID ((BAOriEntry a)[i := f (BAOriEntry a ! i)] ! j) = ori_TID (BAOriEntry a ! j)" for j
    using assms(2-4) by (cases "i < length (BAOriEntry a)"; auto simp: nth_list_update list_update_beyond)+
  have "ori_used ?a = ori_used a" "ori_own ?a = ori_own a" "ori_done ?a = ori_done a" "ori_arr ?a = ori_arr a"
    by (simp_all add: fun_eq_iff ori_used_def ori_own_def ori_done_def ori_none_def st ori_arr_def)
  moreover have "rec_inv ?a = rec_inv a" by (intro rec_inv_cong) (simp_all add: rec_arr_def)
  ultimately show ?thesis
    using inv by (simp add: ba_inv_def ori_inv_def shape_def ori_busy_def st)
qed

section \<open>Every operation keeps the invariant\<close>

lemma shapeD:
  assumes "ba_inv a" and "w < 32"
  shows "w < length (Content a)" "length (BARecWcidArray (Content a ! w)) = 8"
    "length (BAOriWcidArray (Content a ! w)) = 8" "length (BARecEntry a) = 128" "length (BAOriEntry a) = 128"
    "HtSta (Content a ! w) \<or> EntryType (Content a ! w) \<noteq> ENTRY_NONE \<Longrightarrow> Aid (Content a ! w) = of_nat w"
  using assms by (auto simp: ba_inv_def shape_def entry_shape_def size_defs)

lemma unat_small: "n < 32 \<Longrightarrow> unat (ucast (of_nat n :: UINT16) :: UINT8) = n"
  by (simp add: unsigned_ucast_eq unsigned_of_nat take_bit_nat_eq_self)

lemma shape_upd_entry:
  assumes "shape a" and "\<And>m. entry_shape w m \<Longrightarrow> entry_shape w (f m)"
  shows "shape (upd_entry w f a)"
  using assms
  by (cases "w < length (Content a)") (auto simp: shape_def nth_list_update list_update_beyond)

lemma FreeOri_inv:
  assumes inv: "ba_inv a"
  shows "ba_inv (BATableFreeOriEntry a i)" and "oob (BATableFreeOriEntry a i) = oob a"
proof -
  have "ba_inv (BATableFreeOriEntry a i) \<and> oob (BATableFreeOriEntry a i) = oob a"
  proof (cases "i = 0 \<or> i \<ge> 128 \<or> ori_none (BAOriEntry a ! i)")
    case True
    with inv show ?thesis by (auto simp: BATableFreeOriEntry_def size_defs Let_def)
  next
    case False
    let ?e = "BAOriEntry a ! i" and ?w = "fst (ori_own a i)" and ?t = "snd (ori_own a i)"
    have u: "ori_used a i" "0 < i" "i < 128" and l: "linked (ori_arr a) (ori_used a) (ori_own a)"
      and sh: "shape a" and oi: "ori_inv a" and ri: "rec_inv a"
      using False inv by (auto simp: ori_used_def ba_inv_def ori_inv_def)
    have wt: "?w < 32" "?t < 8" using linked_usedD [OF l u(2,3,1)] by auto
    have own: "unat (ori_Wcid ?e) = ?w" "unat (ori_TID ?e) = ?t" by (simp_all add: ori_own_def)
    note S = shapeD [OF inv wt(1)]
    define a1 where "a1 = upd_entry ?w (\<lambda>m. m\<lparr>BAOriWcidArray := (BAOriWcidArray m)[?t := 0]\<rparr>) a"
    define a2 where "a2 = (if ORI_BA_Status ?e = Originator_Done then
        upd_entry ?w (\<lambda>m. m\<lparr>TXBAbitmap := clr_tid (ori_TID ?e) (TXBAbitmap m)\<rparr>) a1
          \<lparr>numDoneOriginator := numDoneOriginator a1 - 1\<rparr> else a1)"
    define a3 where "a3 = upd_ori i (\<lambda>e. e\<lparr>ORI_BA_Status := Originator_NONE, ori_Token := 0\<rparr>) a2
        \<lparr>numAsOriginator := numAsOriginator a2 - 1\<rparr>"
    have eq: "BATableFreeOriEntry a i = a3"
      using False wt by (simp add: BATableFreeOriEntry_def size_defs Let_def own a1_def a2_def a3_def)
    have "shape a1" unfolding a1_def by (rule shape_upd_entry [OF sh]) (simp add: entry_shape_def)
    then have "shape a2"
      using shape_upd_entry [of a1 ?w "\<lambda>m. m\<lparr>TXBAbitmap := clr_tid (ori_TID ?e) (TXBAbitmap m)\<rparr>"]
      by (auto simp: a2_def entry_shape_def shape_def)
    then have s3: "shape a3" by (simp add: a3_def shape_def)
    have arr1: "ori_arr a1 = (ori_arr a)(ori_own a i := 0)"
      using arr_upd(2) [OF sh wt, where g = "\<lambda>m. m" and x = 0] by (simp add: a1_def)
    have C: "Content a3 = (Content a)[?w := (Content a ! ?w)\<lparr>BAOriWcidArray := (BAOriWcidArray (Content a ! ?w))[?t := 0],
        TXBAbitmap := (if ori_done a i then clr_tid (ori_TID ?e) (TXBAbitmap (Content a ! ?w)) else TXBAbitmap (Content a ! ?w))\<rparr>]"
      using S(1) by (auto simp: a3_def a2_def a1_def ori_done_def)
    have "ori_arr a3 = ori_arr a1" using S(1) by (auto simp: ori_arr_def C a1_def fun_eq_iff nth_list_update)
    moreover have "bit (TXBAbitmap (Content a3 ! w')) t' =
        (\<not> (ori_done a i \<and> (w', t') = ori_own a i) \<and> bit (TXBAbitmap (Content a ! w')) t')" if "w' < 32" for w' t'
      using S(1) own by (cases "w' = ?w") (auto simp: C bit_clr_tid prod_eq_iff)
    moreover have F: "BAOriEntry a3 = (BAOriEntry a)[i := ?e\<lparr>ORI_BA_Status := Originator_NONE, ori_Token := 0\<rparr>]"
        "numAsOriginator a3 = numAsOriginator a - 1"
        "numDoneOriginator a3 = numDoneOriginator a - (if ori_done a i then 1 else 0)"
        "BARecEntry a3 = BARecEntry a" "numAsRecipient a3 = numAsRecipient a" "rx a3 = rx a" "oob a3 = oob a"
      by (simp_all add: a3_def a2_def a1_def ori_done_def)
    ultimately have "ori_inv a3"
      using ori_inv_del [OF oi u(2,3,1), of a3] arr1 S(5) u(3) by simp
    moreover have "rec_inv a3"
      using rec_inv_cong [of a3 a] ri S(1) F(4-6)
      by (auto simp: C rec_arr_def fun_eq_iff nth_list_update)
    ultimately show ?thesis using s3 F(7) by (simp add: eq ba_inv_def)
  qed
  then show "ba_inv (BATableFreeOriEntry a i)" "oob (BATableFreeOriEntry a i) = oob a" by auto
qed

text \<open>Steps that only consume allocations and log output.\<close>

definition only_io :: "RTMP_ADAPTER \<Rightarrow> RTMP_ADAPTER \<Rightarrow> bool" where
  "only_io a a' \<longleftrightarrow> (\<exists>m d. a' = a\<lparr>mem := m, dev := d\<rparr>)"

lemma only_io_refl [simp]: "only_io a a"
  unfolding only_io_def by (intro exI [of _ "mem a"] exI [of _ "dev a"]) simp

lemma only_io_log [intro]: "only_io a b \<Longrightarrow> only_io a (log_dev ev b)"
  by (cases a) (auto simp: only_io_def log_dev_def)

lemma only_io_mem: "only_io a b \<Longrightarrow> only_io a (b\<lparr>mem := m\<rparr>)"
  by (cases a) (auto simp: only_io_def)

lemma only_io_alloc: "alloc_mem b = (ok, c) \<Longrightarrow> only_io a b \<Longrightarrow> only_io a c"
  by (auto simp: alloc_mem_def only_io_mem split: list.splits)

lemma MlmeDELBA_io:
  assumes "only_io a b" and "unat T < 8"
  shows "only_io a (MlmeDELBAAction b addr W T I)"
proof -
  obtain ok1 b1 where 1: "alloc_mem b = (ok1, b1)" by fastforce
  obtain ok2 b2 where 2: "alloc_mem b1 = (ok2, b2)" by fastforce
  have "only_io a b1" by (rule only_io_alloc [OF 1 assms(1)])
  moreover from this have "only_io a b2" by (rule only_io_alloc [OF 2])
  ultimately show ?thesis
    using assms by (simp add: MlmeDELBAAction_def 1 2 size_defs only_io_log split: bool.split)
qed

lemma send_delba_io:
  assumes "unat T < 8"
  shows "only_io a (snd (send_delba a W T I))"
proof -
  obtain ok1 b1 where 1: "alloc_mem a = (ok1, b1)" by fastforce
  then have "only_io a b1" by (rule only_io_alloc) simp
  then show ?thesis
    using assms by (simp add: send_delba_def 1 MlmeDELBA_io split: bool.split)
qed

lemma inv_dev [simp]: "ba_inv (a\<lparr>mem := m, dev := d\<rparr>) = ba_inv a"
  by (simp add: ba_inv_def shape_def rec_inv_cong [of "a\<lparr>mem := m, dev := d\<rparr>" a]
      ori_inv_cong [of "a\<lparr>mem := m, dev := d\<rparr>" a] rec_arr_def ori_arr_def)

lemma only_io_inv: "only_io a b \<Longrightarrow> ba_inv a \<Longrightarrow> ba_inv b \<and> oob b = oob a"
  by (auto simp: only_io_def)

lemma OriTearDown_inv:
  assumes inv: "ba_inv a" and t: "unat T < 8"
  shows "ba_inv (BAOriSessionTearDown a W T p s)" and "oob (BAOriSessionTearDown a W T p s) = oob a"
proof -
  have d: "ba_inv (snd (send_delba a W T True)) \<and> oob (snd (send_delba a W T True)) = oob a"
    using inv by (rule only_io_inv [OF send_delba_io [OF t]])
  have "ba_inv (BAOriSessionTearDown a W T p s) \<and> oob (BAOriSessionTearDown a W T p s) = oob a"
  proof (cases "unat W < 32 \<and> \<not> (ori_arr a (unat W, unat T) = 0 \<or> ori_arr a (unat W, unat T) \<ge> 128)")
    case False
    then show ?thesis
      using inv t d by (auto simp: BAOriSessionTearDown_def size_defs Let_def ori_arr_def)
  next
    case True
    let ?i = "ori_arr a (unat W, unat T)"
    let ?c = "\<not> p \<and> T = ori_TID (BAOriEntry a ! ?i) \<and> ORI_BA_Status (BAOriEntry a ! ?i) = Originator_Done"
    obtain ok a1 where sd: "(if ?c then send_delba a W (ori_TID (BAOriEntry a ! ?i)) True else (True, a)) = (ok, a1)"
      by fastforce
    then have i1: "ba_inv a1 \<and> oob a1 = oob a" using d inv by (auto split: if_splits)
    have i: "unat (BAOriWcidArray (Content a ! unat W) ! unat T) = ?i" by (simp add: ori_arr_def)
    have "BAOriSessionTearDown a W T p s =
        (if \<not> ok then a1 else BATableFreeOriEntry (log_dev (TimerCancel (ORIBATimer ?i)) a1) ?i)"
      unfolding BAOriSessionTearDown_def size_defs Let_def i sd using True t by simp
    then show ?thesis using i1 FreeOri_inv [of "log_dev (TimerCancel (ORIBATimer ?i)) a1" ?i] by simp
  qed
  then show "ba_inv (BAOriSessionTearDown a W T p s)" "oob (BAOriSessionTearDown a W T p s) = oob a" by auto
qed

text \<open>What remains of \<^verbatim>\<open>BARecSessionTearDown\<close> once the DELBA was sent.\<close>

definition rec_release :: "RTMP_ADAPTER \<Rightarrow> UINT8 \<Rightarrow> UINT8 \<Rightarrow> nat \<Rightarrow> RTMP_ADAPTER" where
  "rec_release a W T i =
     BATableFreeRecEntry (log_dev (AsicDelBA W T)
       (upd_entry (unat W) (\<lambda>m. m\<lparr>RXBAbitmap := clr_tid T (RXBAbitmap m),
            BARecWcidArray := (BARecWcidArray m)[unat T := 0]\<rparr>)
         (upd_rec i (\<lambda>e. e\<lparr>LastIndSeq := RESET_RCV_SEQ, rec_BAWinSize := 0\<rparr>)
           (on_session i ba_refresh_reordering_mpdus a)))) i"

lemma on_session_simps [simp]:
  "Content (on_session i f a) = Content a" "BAOriEntry (on_session i f a) = BAOriEntry a"
  "numAsRecipient (on_session i f a) = numAsRecipient a" "numAsOriginator (on_session i f a) = numAsOriginator a"
  "numDoneOriginator (on_session i f a) = numDoneOriginator a" "oob (on_session i f a) = oob a"
  "mem (on_session i f a) = mem a" "dev (on_session i f a) = dev a" "length (BARecEntry (on_session i f a)) = length (BARecEntry a)"
  "Hash (on_session i f a) = Hash a" "Size (on_session i f a) = Size a"
  by (simp_all add: on_session_def split: prod.splits)

lemma refresh_on_session:
  assumes "ba_inv a" and "i < 128"
  shows "buffer (BARecEntry (on_session i ba_refresh_reordering_mpdus a) ! i) = []"
    and "same_session (BARecEntry a ! i) (BARecEntry (on_session i ba_refresh_reordering_mpdus a) ! i)"
proof -
  obtain c e where r: "ba_refresh_reordering_mpdus (rx a) (BARecEntry a ! i) = (c, e)" by fastforce
  have wf: "wf2 (rx a) (BARecEntry a ! i)" and L: "i < length (BARecEntry a)"
    using assms by (auto simp: ba_inv_def rec_inv_def buffers_ok_def shape_def size_defs)
  show "buffer (BARecEntry (on_session i ba_refresh_reordering_mpdus a) ! i) = []"
    and "same_session (BARecEntry a ! i) (BARecEntry (on_session i ba_refresh_reordering_mpdus a) ! i)"
    using refresh_empties [OF wf r] refresh_session_op wf r L by (auto simp: on_session_def session_op_def)
qed

lemma rec_release_inv:
  assumes inv: "ba_inv a" and w: "unat W < 32" and t: "unat T < 8" and i: "rec_arr a (unat W, unat T) = i" "i \<noteq> 0"
  shows "ba_inv (rec_release a W T i)" and "oob (rec_release a W T i) = oob a"
    and "rec_arr (rec_release a W T i) = (rec_arr a)((unat W, unat T) := 0)"
    and "ori_arr (rec_release a W T i) = ori_arr a"
proof -
  have l: "linked (rec_arr a) (rec_used a) (rec_own a)" using inv by (simp add: ba_inv_def rec_inv_def)
  have u: "0 < i" "i < 128" "rec_used a i" "rec_own a i = (unat W, unat T)" using linkedD [OF l w t] i by auto
  define b where "b = on_session i ba_refresh_reordering_mpdus a"
  have bi: "ba_inv b" unfolding b_def
    using inv u refresh_session_op by (intro on_session_inv) auto
  have bf: "buffer (BARecEntry b ! i) = []" "same_session (BARecEntry a ! i) (BARecEntry b ! i)"
    unfolding b_def using refresh_on_session [OF inv u(2)] by auto
  have bu: "rec_used b i" "rec_own b i = (unat W, unat T)" "rec_arr b = rec_arr a" "Content b = Content a"
    using u(3,4) bf(2) by (auto simp: rec_used_def rec_own_def rec_none_def same_session_def rec_arr_def b_def)
  note S = shapeD [OF bi w]
  let ?e = "BARecEntry b ! i" and ?m = "Content b ! unat W"
  let ?e' = "?e\<lparr>LastIndSeq := RESET_RCV_SEQ, rec_BAWinSize := 0, REC_BA_Status := Recipient_NONE\<rparr>"
  define r where "r = rec_release a W T i"
  have own: "unat (rec_Wcid ?e) = unat W" "unat (rec_TID ?e) = unat T" using bu(2) by (auto simp: rec_own_def)
  have r: "Content r = (Content b)[unat W := ?m\<lparr>RXBAbitmap := clr_tid T (RXBAbitmap ?m),
            BARecWcidArray := (BARecWcidArray ?m)[unat T := 0]\<rparr>]"
      "BARecEntry r = (BARecEntry b)[i := ?e']" "numAsRecipient r = numAsRecipient b - 1" "rx r = rx b"
      "BAOriEntry r = BAOriEntry b" "numAsOriginator r = numAsOriginator b" "numDoneOriginator r = numDoneOriginator b"
      "oob r = oob a"
    using u(1,2) w t S own bu(1)
    by (simp_all add: r_def rec_release_def b_def [symmetric] BATableFreeRecEntry_def size_defs Let_def rec_none_def rec_used_def)
       (simp add: b_def)
  have "shape r"
    using bi r(1,2,5) S by (auto simp: ba_inv_def shape_def size_defs nth_list_update entry_shape_def)
  moreover have arr: "rec_arr r = (rec_arr b)((unat W, unat T) := 0)"
    using S t by (auto simp: rec_arr_def r(1) fun_eq_iff nth_list_update)
  have "rec_inv r"
  proof (rule rec_inv_del [of b i r ?e'])
    show "bit (RXBAbitmap (Content r ! w')) t' =
        ((w', t') \<noteq> rec_own b i \<and> bit (RXBAbitmap (Content b ! w')) t')" if "w' < 32" "t' < 8" for w' t'
      using S by (cases "w' = unat W") (auto simp: r(1) bit_clr_tid bu(2))
    have "wf2 (rx b) ?e" using bi u(2) by (simp add: ba_inv_def rec_inv_def buffers_ok_def)
    then show "wf_list (reorder_list ?e')" "wf_list (freelist (rx r))" by (simp_all add: wf2_def r(4))
  qed (use bi u bu S arr r bf in \<open>simp_all add: ba_inv_def\<close>)
  moreover have "ori_arr r = ori_arr b"
    using S by (auto simp: ori_arr_def r(1) fun_eq_iff nth_list_update)
  moreover from this have "ori_inv r"
    using ori_inv_cong [of r b] bi S by (auto simp: r ba_inv_def nth_list_update)
  ultimately show "ba_inv (rec_release a W T i)" "oob (rec_release a W T i) = oob a"
      "rec_arr (rec_release a W T i) = (rec_arr a)((unat W, unat T) := 0)" "ori_arr (rec_release a W T i) = ori_arr a"
    using arr bu(3,4) r(8) by (auto simp: ba_inv_def r_def [symmetric] ori_arr_def b_def)
qed

lemma RecTearDown_eq:
  assumes inv: "ba_inv a" and w: "unat W < 32" and t: "unat T < 8" and i: "rec_arr a (unat W, unat T) = i" "i \<noteq> 0"
  shows "BARecSessionTearDown a W T p =
     (let a1 = log_dev (TimerCancel (RECBATimer i)) a;
          (ok, a2) = (if p then (True, a1) else send_delba a1 W T False)
      in if \<not> ok then a2 else rec_release a2 W T i)"
proof -
  have l: "linked (rec_arr a) (rec_used a) (rec_own a)"
    and acc: "\<forall>i. 0 < i \<and> i < 128 \<and> rec_used a i \<longrightarrow> REC_BA_Status (BARecEntry a ! i) = Recipient_Accept"
    using inv by (auto simp: ba_inv_def rec_inv_def)
  have u: "0 < i" "i < 128" "rec_used a i" "rec_own a i = (unat W, unat T)" using linkedD [OF l w t] i by auto
  have e: "rec_TID (BARecEntry a ! i) = T" "REC_BA_Status (BARecEntry a ! i) = Recipient_Accept"
    using u acc by (auto simp: rec_own_def word_unat_eq_iff)
  have idx: "unat (BARecWcidArray (Content a ! unat W) ! unat T) = i" using i(1) by (simp add: rec_arr_def)
  show ?thesis
    unfolding BARecSessionTearDown_def size_defs Let_def idx e rec_release_def
    using w t u by (simp add: case_prod_beta)
qed

lemma RecTearDown_inv:
  assumes inv: "ba_inv a" and t: "unat T < 8"
  shows "ba_inv (BARecSessionTearDown a W T p)" and "oob (BARecSessionTearDown a W T p) = oob a"
proof -
  have "ba_inv (BARecSessionTearDown a W T p) \<and> oob (BARecSessionTearDown a W T p) = oob a"
  proof (cases "unat W < 32 \<and> rec_arr a (unat W, unat T) \<noteq> 0")
    case False
    then show ?thesis
      using inv t by (auto simp: BARecSessionTearDown_def size_defs Let_def rec_arr_def)
  next
    case True
    let ?i = "rec_arr a (unat W, unat T)" and ?a1 = "log_dev (TimerCancel (RECBATimer (rec_arr a (unat W, unat T)))) a"
    obtain ok a2 where sd: "(if p then (True, ?a1) else send_delba ?a1 W T False) = (ok, a2)" by fastforce
    have "only_io a a2"
    proof (cases p)
      case False
      then have "only_io ?a1 a2" using send_delba_io [OF t, of ?a1 W False] sd by simp
      then show ?thesis by (cases a) (auto simp: only_io_def log_dev_def)
    qed (use sd in auto)
    then have i2: "ba_inv a2 \<and> oob a2 = oob a" "rec_arr a2 = rec_arr a"
      using only_io_inv inv by (auto simp: only_io_def rec_arr_def)
    have "BARecSessionTearDown a W T p = (if \<not> ok then a2 else rec_release a2 W T ?i)"
      using RecTearDown_eq [OF inv _ t refl] True sd by (simp add: Let_def)
    then show ?thesis
      using i2 rec_release_inv [of a2 W T ?i] True t by simp
  qed
  then show "ba_inv (BARecSessionTearDown a W T p)" "oob (BARecSessionTearDown a W T p) = oob a" by auto
qed

lemma unat_tid: "n < 8 \<Longrightarrow> unat (of_nat n :: UINT8) = n"
  by (simp add: unsigned_of_nat take_bit_nat_eq_self)

lemma teardown_tids_inv:
  "ba_inv a \<Longrightarrow> \<forall>t \<in> set ts. t < 8 \<Longrightarrow>
     ba_inv (teardown_tids a W ts) \<and> oob (teardown_tids a W ts) = oob a"
proof (induction ts arbitrary: a)
  case (Cons t ts)
  have t: "unat (of_nat t :: UINT8) < 8" using Cons.prems(2) by (simp add: unat_tid)
  then show ?case using Cons OriTearDown_inv RecTearDown_inv by simp
qed simp

lemma TearDownALL_inv:
  assumes "ba_inv a"
  shows "ba_inv (BASessionTearDownALL a W)" and "oob (BASessionTearDownALL a W) = oob a"
  using teardown_tids_inv [OF assms, of "[0..<8]"] by (auto simp: BASessionTearDownALL_def size_defs)

text \<open>Setting sessions up.\<close>

text \<open>
  Both allocators: refuse at 127 sessions, else take the first free entry. With a counter that
  agrees with the entries, an allocation that is not refused finds a free entry, so the
  fall-through of the scan, which would hand out the last entry without an index, is never taken.
\<close>

locale session_table =
  fixes entries :: "RTMP_ADAPTER \<Rightarrow> 'e list" and none :: "'e \<Rightarrow> bool" and num :: "RTMP_ADAPTER \<Rightarrow> ULONG"
    and claim :: "nat \<Rightarrow> RTMP_ADAPTER \<Rightarrow> RTMP_ADAPTER"
    and alloc :: "RTMP_ADAPTER \<Rightarrow> UINT16 \<Rightarrow> nat option \<times> UINT16 \<times> RTMP_ADAPTER"
  assumes full: "num a \<ge> 127 \<Longrightarrow> alloc a Idx = (None, Idx, a)"
    and first: "\<not> num a \<ge> 127 \<Longrightarrow> List.find (\<lambda>i. none (entries a ! i)) [1..<128] = Some i \<Longrightarrow>
      alloc a Idx = (Some i, of_nat i, claim i a)"
begin

lemma alloc_spec:
  assumes n: "num a = of_nat (card (busy (\<lambda>i. \<not> none (entries a ! i))))"
  shows "(alloc a Idx = (None, Idx, a) \<and> card (busy (\<lambda>i. \<not> none (entries a ! i))) = 127) \<or>
         (\<exists>i. 0 < i \<and> i < 128 \<and> none (entries a ! i) \<and> alloc a Idx = (Some i, of_nat i, claim i a))"
proof (cases "num a \<ge> 127")
  case True
  then have "card (busy (\<lambda>i. \<not> none (entries a ! i))) \<ge> 127"
    using n busy_le [of "\<lambda>i. \<not> none (entries a ! i)"]
    by (simp add: word_le_nat_alt unsigned_of_nat take_bit_nat_eq_self)
  with True busy_le [of "\<lambda>i. \<not> none (entries a ! i)"] full show ?thesis by simp
next
  case False
  obtain j where "0 < j" "j < 128" "none (entries a ! j)" using free_entry [OF n False] by blast
  then have "List.find (\<lambda>i. none (entries a ! i)) [1..<128] \<noteq> None"
    by (auto simp: find_None_iff)
  then obtain i where f: "List.find (\<lambda>i. none (entries a ! i)) [1..<128] = Some i" by blast
  then have "i \<in> set [1..<128]" "none (entries a ! i)" by (auto simp: find_Some_iff)
  with first [OF False f] show ?thesis by auto
qed

end

interpretation rec_tab: session_table BARecEntry rec_none numAsRecipient
  "\<lambda>i a. upd_rec i (\<lambda>e. e\<lparr>REC_BA_Status := Recipient_USED\<rparr>) a\<lparr>numAsRecipient := numAsRecipient a + 1\<rparr>"
  BATableAllocRecEntry
  by unfold_locales (simp_all add: BATableAllocRecEntry_def size_defs)

interpretation ori_tab: session_table BAOriEntry ori_none numAsOriginator
  "\<lambda>i a. upd_ori i (\<lambda>e. e\<lparr>ORI_BA_Status := Originator_USED\<rparr>) a\<lparr>numAsOriginator := numAsOriginator a + 1\<rparr>"
  BATableAllocOriEntry
  by unfold_locales (simp_all add: BATableAllocOriEntry_def size_defs)

lemma busy_used:
  "busy (\<lambda>i. \<not> rec_none (BARecEntry a ! i)) = busy (rec_used a)"
  "busy (\<lambda>i. \<not> ori_none (BAOriEntry a ! i)) = busy (ori_used a)"
  by (simp_all add: busy_def rec_used_def ori_used_def)

lemma shape_set:
  assumes "shape a" and "Content r = (Content a)[w := m]" and "entry_shape w m"
    and "length (BARecEntry r) = length (BARecEntry a)" "length (BAOriEntry r) = length (BAOriEntry a)"
  shows "shape r"
  using assms by (cases "w < length (Content a)") (auto simp: shape_def nth_list_update list_update_beyond)

lemma shape_entry: "ba_inv a \<Longrightarrow> w < 32 \<Longrightarrow> entry_shape w (Content a ! w)"
  by (simp add: ba_inv_def shape_def size_defs)

lemma ori_setup_inv:
  assumes inv: "ba_inv a" and w: "w < 32" and act: "EntryType (Content a ! w) \<noteq> ENTRY_NONE" and t: "unat T < 8"
    and z: "ori_arr a (w, unat T) = 0" and i: "0 < i" "i < 128" "ori_none (BAOriEntry a ! i)"
  shows "let r = ori_setup_entry cfg (upd_ori i (\<lambda>e. e\<lparr>ORI_BA_Status := Originator_USED\<rparr>) a
             \<lparr>numAsOriginator := numAsOriginator a + 1\<rparr>) w T to dl i (of_nat i)
         in ba_inv r \<and> oob r = oob a"
proof -
  let ?b = "upd_ori i (\<lambda>e. e\<lparr>ORI_BA_Status := Originator_USED\<rparr>) a\<lparr>numAsOriginator := numAsOriginator a + 1\<rparr>"
  define r where "r = ori_setup_entry cfg ?b w T to dl i (of_nat i)"
  note S = shapeD [OF inv w]
  let ?m = "Content a ! w"
  let ?e = "(BAOriEntry a ! i)\<lparr>ORI_BA_Status := Originator_WaitRes, ori_Wcid := ucast (Aid ?m),
     ori_BAWinSize := RxBAWinLimit cfg, ori_Sequence := TxSeq ?m ! unat T, ori_Token := 1, ori_TID := T, ori_TimeOutValue := to\<rparr>"
  have F: "Content r = (Content a)[w := ?m\<lparr>BAOriWcidArray := (BAOriWcidArray ?m)[unat T := of_nat i]\<rparr>]"
      "BAOriEntry r = (BAOriEntry a)[i := ?e]" "numAsOriginator r = numAsOriginator a + 1"
      "numDoneOriginator r = numDoneOriginator a" "BARecEntry r = BARecEntry a" "numAsRecipient r = numAsRecipient a"
      "rx r = rx a" "oob r = oob a"
    using i(2) S by (simp_all add: r_def ori_setup_entry_def ori_busy_def Let_def)
  have "shape r"
    using shape_set [of a r w] shape_entry [OF inv w] inv F(1,2,5) by (simp add: ba_inv_def entry_shape_def)
  moreover have "rec_inv r"
    using rec_inv_cong [of r a] inv F S(1) by (auto simp: ba_inv_def rec_arr_def fun_eq_iff nth_list_update)
  moreover have "ori_inv r"
  proof (rule ori_inv_add [of a w "unat T" i r ?e])
    show "ori_arr r = (ori_arr a)((w, unat T) := i)"
      using S t i(2) by (auto simp: ori_arr_def F fun_eq_iff nth_list_update unsigned_of_nat take_bit_nat_eq_self)
    show "unat (ori_Wcid ?e) = w" using S(6) act w by (simp add: unat_small)
    show "TXBAbitmap (Content r ! w') = TXBAbitmap (Content a ! w')" for w'
      by (cases "w' = w") (use S(1) in \<open>auto simp: F\<close>)
  qed (use inv w t z i S F in \<open>auto simp: ba_inv_def ori_used_def\<close>)
  ultimately show ?thesis using F(8) by (simp add: ba_inv_def r_def [symmetric])
qed

lemma SetUp_inv:
  assumes inv: "ba_inv a" and w: "w < 32" and act: "EntryType (Content a ! w) \<noteq> ENTRY_NONE"
  shows "ba_inv (BAOriSessionSetUp cfg a w T to dl f)" and "oob (BAOriSessionSetUp cfg a w T to dl f) = oob a"
proof -
  let ?t = "unat T" and ?m = "Content a ! w" and ?r = "BAOriSessionSetUp cfg a w T to dl f"
  let ?delay = "if tst_tid T (BADeclineBitmap ?m) \<and> \<not> f then 3000 else dl"
  have l: "linked (ori_arr a) (ori_used a) (ori_own a)" and n: "numAsOriginator a = of_nat (card (busy (ori_used a)))"
    and oi: "ori_inv a" and ob: "\<forall>i. 0 < i \<and> i < 128 \<and> ori_used a i \<longrightarrow> ori_busy (BAOriEntry a ! i)"
    using inv by (auto simp: ba_inv_def ori_inv_def)
  note S = shapeD [OF inv w]
  have arr: "ori_arr a (w, ?t) = unat (BAOriWcidArray ?m ! ?t)" by (simp add: ori_arr_def)
  have "ba_inv ?r \<and> oob ?r = oob a"
  proof (cases "?t \<ge> 8 \<or> (\<not> AutoBA cfg \<and> \<not> f) \<or> RTMPStaFixedTxMode cfg \<noteq> FIXED_TXMODE_HT")
    case True
    then show ?thesis using inv by (auto simp: BAOriSessionSetUp_def size_defs Let_def)
  next
    case False
    then have t: "?t < 8" by simp
    show ?thesis
    proof (cases "BAOriWcidArray ?m ! ?t = 0")
      case False': False
      then have nz: "ori_arr a (w, ?t) \<noteq> 0" by (simp add: arr unat_eq_0)
      note L = linkedD [OF l w t nz]
      have "ori_busy (BAOriEntry a ! ori_arr a (w, ?t))" using ob L nz by simp
      then have "?r = a"
        using False False' L(1) by (simp add: BAOriSessionSetUp_def size_defs Let_def ori_setup_entry_def arr)
      with inv show ?thesis by simp
    next
      case True
      then have z: "ori_arr a (w, ?t) = 0" by (simp add: arr)
      consider (full) "BATableAllocOriEntry a 0 = (None, 0, a)"
        | (new) i where "0 < i" "i < 128" "ori_none (BAOriEntry a ! i)"
          "BATableAllocOriEntry a 0 = (Some i, of_nat i,
             upd_ori i (\<lambda>e. e\<lparr>ORI_BA_Status := Originator_USED\<rparr>) a\<lparr>numAsOriginator := numAsOriginator a + 1\<rparr>)"
        using ori_tab.alloc_spec [of a 0] n by (auto simp: busy_used)
      then show ?thesis
      proof cases
        case full
        then show ?thesis using False True inv by (auto simp: BAOriSessionSetUp_def size_defs Let_def)
      next
        case new
        let ?b = "upd_ori i (\<lambda>e. e\<lparr>ORI_BA_Status := Originator_USED\<rparr>) a\<lparr>numAsOriginator := numAsOriginator a + 1\<rparr>"
        have r: "?r = ori_setup_entry cfg ?b w T to ?delay i (of_nat i)"
          using False True new(4) by (auto simp: BAOriSessionSetUp_def size_defs Let_def)
        show ?thesis unfolding r by (rule ori_setup_inv [OF inv w act t z new(1-3), unfolded Let_def])
      qed
    qed
  qed
  then show "ba_inv ?r" "oob ?r = oob a" by auto
qed

lemma OriAdd_inv:
  assumes inv: "ba_inv a" and w: "w < 32" and t: "unat (par_TID (rsp_BaParm f)) < 8"
  shows "ba_inv (BAOriSessionAdd cfg a w f)" and "oob (BAOriSessionAdd cfg a w f) = oob a"
proof -
  let ?T = "par_TID (rsp_BaParm f)" and ?m = "Content a ! w" and ?r = "BAOriSessionAdd cfg a w f"
  let ?i = "ori_arr a (w, unat ?T)"
  let ?e = "BAOriEntry a ! ?i"
  have idx: "unat (BAOriWcidArray ?m ! unat ?T) = ?i" by (simp add: ori_arr_def)
  have l: "linked (ori_arr a) (ori_used a) (ori_own a)" using inv by (auto simp: ba_inv_def ori_inv_def)
  have lt: "?i < 128" using linkedD(1) [OF l w t] by (cases "?i = 0") auto
  note S = shapeD [OF inv w]
  have "ba_inv ?r \<and> oob ?r = oob a"
  proof (cases "?i \<noteq> 0 \<and> ori_TID ?e = ?T \<and> ORI_BA_Status ?e = Originator_WaitRes")
    case False
    then show ?thesis
      using inv t lt unfolding BAOriSessionAdd_def Let_def idx by (auto simp: size_defs)
  next
    case True
    define buf where "buf = (ucast (par_BufSize (rsp_BaParm f)) :: UINT8)"
    define e' where "e' = ?e\<lparr>ori_BAWinSize := BA_MaxWinSizeReasign cfg ?m (min (ori_BAWinSize ?e) (if buf > 0 then buf - 1 else 0)),
        ori_TimeOutValue := rsp_TimeOutValue f, ORI_BA_Status := Originator_Done, ori_Sequence := TxSeq ?m ! unat ?T\<rparr>"
    define b where "b = log_dev (TimerCancel (ORIBATimer ?i))
        (upd_entry w (\<lambda>m. m\<lparr>TXBAbitmap := set_tid ?T (TXBAbitmap m)\<rparr>)
          (upd_ori ?i (\<lambda>e. e') a\<lparr>numDoneOriginator := numDoneOriginator a + 1\<rparr>))"
    obtain ok b' where al: "alloc_mem b = (ok, b')" by fastforce
    have r: "?r = (if ok then log_dev (Tx (BAR (ori_Wcid ?e) ?T (TxSeq ?m ! unat ?T))) b' else b')"
      using True t lt al unfolding BAOriSessionAdd_def Let_def idx b_def e'_def buf_def
      by (simp add: size_defs upd_ori_def split: bool.split)
    have F: "Content b = (Content a)[w := ?m\<lparr>TXBAbitmap := set_tid ?T (TXBAbitmap ?m)\<rparr>]"
        "BAOriEntry b = (BAOriEntry a)[?i := e']" "numAsOriginator b = numAsOriginator a"
        "numDoneOriginator b = numDoneOriginator a + 1" "BARecEntry b = BARecEntry a"
        "numAsRecipient b = numAsRecipient a" "rx b = rx a" "oob b = oob a"
      by (simp_all add: b_def)
    have "shape b"
      using shape_set [of a b w] shape_entry [OF inv w] inv F(1,2,5) by (simp add: ba_inv_def entry_shape_def)
    moreover have "rec_inv b"
      using rec_inv_cong [of b a] inv F S(1) by (auto simp: ba_inv_def rec_arr_def fun_eq_iff nth_list_update)
    moreover have "ori_inv b"
    proof (rule ori_inv_done [of a w "unat ?T" ?i b e'])
      show "ori_arr b = ori_arr a" using S by (auto simp: ori_arr_def F fun_eq_iff nth_list_update)
      show "bit (TXBAbitmap (Content b ! w')) t' =
          ((w', t') = (w, unat ?T) \<or> bit (TXBAbitmap (Content a ! w')) t')" for w' t'
        using S(1) t by (cases "w' = w") (auto simp: F bit_set_tid)
    qed (use inv w t True lt S F in \<open>auto simp: ba_inv_def e'_def\<close>)
    ultimately have "ba_inv b" by (simp add: ba_inv_def)
    with inv_alloc_mem [OF al] F(8) show ?thesis by (simp add: r)
  qed
  then show "ba_inv ?r" "oob ?r = oob a" by auto
qed

lemma rec_fill_fields:
  fixes w :: nat and f :: FRAME_ADDBA_REQ
  assumes "i < length (BARecEntry a)"
  defines "m \<equiv> Content a ! w" and "T \<equiv> par_TID (req_BaParm f)"
  shows "Content (rec_fill_entry cfg a w f i Idx) = (Content a)[w := m\<lparr>RXBAbitmap := set_tid T (RXBAbitmap m),
           BARecWcidArray := (BARecWcidArray m)[unat T := Idx], BADeclineBitmap := clr_tid T (BADeclineBitmap m)\<rparr>]"
    and "BARecEntry (rec_fill_entry cfg a w f i Idx) = (BARecEntry a)[i := (BARecEntry a ! i)
           \<lparr>rec_BAWinSize := rec_winsize cfg f, rec_Wcid := ucast (Aid m), rec_TID := T,
            rec_TimeOutValue := req_TimeOutValue f, REC_BA_Status := Recipient_Accept, LastIndSeq := RESET_RCV_SEQ\<rparr>]"
    and "numAsRecipient (rec_fill_entry cfg a w f i Idx) = numAsRecipient a" "rx (rec_fill_entry cfg a w f i Idx) = rx a"
    and "BAOriEntry (rec_fill_entry cfg a w f i Idx) = BAOriEntry a"
      "numAsOriginator (rec_fill_entry cfg a w f i Idx) = numAsOriginator a"
      "numDoneOriginator (rec_fill_entry cfg a w f i Idx) = numDoneOriginator a" "oob (rec_fill_entry cfg a w f i Idx) = oob a"
  using assms(1) by (simp_all add: rec_fill_entry_def Let_def m_def T_def)

lemma rec_fill_ori:
  assumes "ba_inv a" and "w < 32" and "i < 128"
  shows "shape (rec_fill_entry cfg a w f i Idx)" and "ori_inv (rec_fill_entry cfg a w f i Idx)"
proof -
  note S = shapeD [OF assms(1,2)]
  note F = rec_fill_fields [of i a cfg w f Idx]
  let ?r = "rec_fill_entry cfg a w f i Idx"
  show "shape ?r"
    using shape_set [of a ?r w] shape_entry [OF assms(1,2)] assms(1,3) F S(4) by (simp add: ba_inv_def entry_shape_def)
  show "ori_inv ?r"
    using ori_inv_cong [of ?r a] assms(1,3) F S(1,4)
    by (auto simp: ba_inv_def ori_arr_def fun_eq_iff nth_list_update)
qed

lemma rec_new_inv:
  assumes inv: "ba_inv a" and w: "w < 32" and ht: "HtSta (Content a ! w)"
    and t: "unat (par_TID (req_BaParm f)) < 8" and z: "rec_arr a (w, unat (par_TID (req_BaParm f))) = 0"
    and i: "0 < i" "i < 128" "rec_none (BARecEntry a ! i)"
  shows "let r = rec_fill_entry cfg (upd_rec i (\<lambda>e. e\<lparr>REC_BA_Status := Recipient_USED\<rparr>) a
             \<lparr>numAsRecipient := numAsRecipient a + 1\<rparr>) w f i (of_nat i)
         in ba_inv r \<and> oob r = oob a \<and> rec_arr r (w, unat (par_TID (req_BaParm f))) \<noteq> 0"
proof -
  let ?T = "par_TID (req_BaParm f)" and ?m = "Content a ! w"
  let ?b = "upd_rec i (\<lambda>e. e\<lparr>REC_BA_Status := Recipient_USED\<rparr>) a\<lparr>numAsRecipient := numAsRecipient a + 1\<rparr>"
  define r where "r = rec_fill_entry cfg ?b w f i (of_nat i)"
  note S = shapeD [OF inv w]
  have aid: "unat (ucast (Aid ?m) :: UINT8) = w" using S(6) ht w by (simp add: unat_small)
  have il: "i < length (BARecEntry ?b)" using S(4) i(2) by simp
  note F = rec_fill_fields [OF il, of cfg w f "of_nat i", folded r_def, simplified]
  have nz: "unat (of_nat i :: UINT16) = i" using i(2) by (simp add: unsigned_of_nat take_bit_nat_eq_self)
  have arr: "rec_arr r = (rec_arr a)((w, unat ?T) := i)"
    using S t nz by (auto simp: rec_arr_def F(1) fun_eq_iff nth_list_update)
  have "shape r"
    using shape_set [of a r w] shape_entry [OF inv w] inv F S(4) by (simp add: ba_inv_def entry_shape_def)
  moreover have "ori_inv r"
    using ori_inv_cong [of r a] inv F S(1) by (auto simp: ba_inv_def ori_arr_def fun_eq_iff nth_list_update)
  moreover have "rec_inv r"
  proof (rule rec_inv_add [of a w "unat ?T" i r])
    show "bit (RXBAbitmap (Content r ! w')) t' =
        ((w', t') = (w, unat ?T) \<or> bit (RXBAbitmap (Content a ! w')) t')" for w' t'
      using S(1) t by (cases "w' = w") (auto simp: F bit_set_tid)
    show "BARecEntry r = (BARecEntry a)[i := (BARecEntry a ! i)\<lparr>rec_BAWinSize := rec_winsize cfg f,
        rec_Wcid := ucast (Aid ?m), rec_TID := ?T, rec_TimeOutValue := req_TimeOutValue f,
        REC_BA_Status := Recipient_Accept, LastIndSeq := RESET_RCV_SEQ\<rparr>]"
      using S(4) i(2) by (simp add: F)
  qed (use inv w t z i S F arr aid in \<open>auto simp: ba_inv_def rec_used_def\<close>)
  ultimately show ?thesis using F(8) arr i(1) by (simp add: ba_inv_def r_def [symmetric])
qed

lemma RecAdd_inv:
  assumes inv: "ba_inv a" and w: "w < 32" and ht: "HtSta (Content a ! w)"
    and t: "unat (par_TID (req_BaParm f)) < 8" and res: "BARecSessionAdd cfg a w f = (ok, a')"
  shows "ba_inv a'" and "oob a' = oob a"
    and "ok = (rec_arr a (w, unat (par_TID (req_BaParm f))) \<noteq> 0 \<or> card (busy (rec_used a)) < 127)"
    and "ok \<Longrightarrow> rec_arr a' (w, unat (par_TID (req_BaParm f))) \<noteq> 0" and "\<not> ok \<Longrightarrow> a' = a"
proof -
  let ?T = "par_TID (req_BaParm f)" and ?m = "Content a ! w" and ?i = "rec_arr a (w, unat (par_TID (req_BaParm f)))"
  have idx: "?i = unat (BARecWcidArray ?m ! unat ?T)" by (simp add: rec_arr_def)
  have l: "linked (rec_arr a) (rec_used a) (rec_own a)" and n: "numAsRecipient a = of_nat (card (busy (rec_used a)))"
    using inv by (auto simp: ba_inv_def rec_inv_def)
  note S = shapeD [OF inv w]
  have aid: "unat (ucast (Aid ?m) :: UINT8) = w" using S(6) ht w by (simp add: unat_small)
  have "ba_inv a' \<and> oob a' = oob a \<and> ok = (?i \<noteq> 0 \<or> card (busy (rec_used a)) < 127) \<and>
      (ok \<longrightarrow> rec_arr a' (w, unat ?T) \<noteq> 0) \<and> (\<not> ok \<longrightarrow> a' = a)"
  proof (cases "?i = 0")
    case False
    note L = linkedD [OF l w t False]
    define b where "b = on_session ?i ba_refresh_reordering_mpdus a"
    have bi: "ba_inv b" unfolding b_def
      using inv L refresh_session_op False by (intro on_session_inv) auto
    have bc: "Content b = Content a" "rec_arr b = rec_arr a" "oob b = oob a" by (simp_all add: b_def rec_arr_def)
    have bs: "same_session (BARecEntry a ! ?i) (BARecEntry b ! ?i)"
      unfolding b_def using refresh_on_session(2) [OF inv L(1)] .
    have r: "ok = True" "a' = rec_fill_entry cfg b w f ?i (of_nat ?i)"
      using res False L(1) t by (auto simp: BARecSessionAdd_def size_defs Let_def idx b_def unat_eq_0)
    have il: "?i < length (BARecEntry b)" using shapeD(4) [OF bi w] L(1) by simp
    note F = rec_fill_fields [OF il, of cfg w f "of_nat ?i", folded r(2), unfolded bc]
    have u: "rec_used b ?i" "rec_own b ?i = (w, unat ?T)"
      using L(2,3) bs by (auto simp: rec_used_def rec_own_def rec_none_def same_session_def)
    have arr: "rec_arr a' = rec_arr b"
      using S t L(1) by (auto simp: rec_arr_def F(1) bc(1) fun_eq_iff nth_list_update)
    have ru: "rec_used a' = rec_used b" "rec_own a' = rec_own b"
      using u aid il by (auto simp: rec_used_def rec_own_def rec_none_def F(2) fun_eq_iff nth_list_update)
    have bb: "bit (RXBAbitmap ?m) (unat ?T)" using bi w t False by (simp add: ba_inv_def rec_inv_def bc)
    have "rec_inv a'"
      using bi il S(1) t bb
      by (auto simp: ba_inv_def rec_inv_def buffers_ok_def arr ru F bc nth_list_update bit_set_tid wf2_def)
    then have "ba_inv a'" using rec_fill_ori [OF bi w L(1)] by (simp add: ba_inv_def r(2))
    then show ?thesis using False r(1) arr bc F(8) by simp
  next
    case True
    then have z: "BARecWcidArray ?m ! unat ?T = 0" by (simp add: idx unat_eq_0)
    consider (full) "BATableAllocRecEntry a 0 = (None, 0, a)" "card (busy (rec_used a)) = 127"
      | (new) i where "0 < i" "i < 128" "rec_none (BARecEntry a ! i)"
        "BATableAllocRecEntry a 0 = (Some i, of_nat i,
           upd_rec i (\<lambda>e. e\<lparr>REC_BA_Status := Recipient_USED\<rparr>) a\<lparr>numAsRecipient := numAsRecipient a + 1\<rparr>)"
      using rec_tab.alloc_spec [of a 0] n by (auto simp: busy_used)
    then show ?thesis
    proof cases
      case full
      then show ?thesis using res z t inv True by (auto simp: BARecSessionAdd_def size_defs Let_def)
    next
      case new
      let ?b = "upd_rec i (\<lambda>e. e\<lparr>REC_BA_Status := Recipient_USED\<rparr>) a\<lparr>numAsRecipient := numAsRecipient a + 1\<rparr>"
      have "ok = True \<and> a' = rec_fill_entry cfg ?b w f i (of_nat i)"
        using res z t new(4) by (auto simp: BARecSessionAdd_def size_defs Let_def)
      moreover have "card (busy (rec_used a)) < 127"
      proof -
        have "\<not> rec_used a i" using new(3) by (simp add: rec_used_def)
        then show ?thesis
          using card_busy_add [of "rec_used a" i] new busy_le [of "(rec_used a)(i := True)"] by simp
      qed
      ultimately show ?thesis
        using rec_new_inv [OF inv w ht t True new(1-3)] by (simp add: Let_def)
    qed
  qed
  then show "ba_inv a'" "oob a' = oob a" "ok = (?i \<noteq> 0 \<or> card (busy (rec_used a)) < 127)"
      "ok \<Longrightarrow> rec_arr a' (w, unat ?T) \<noteq> 0" "\<not> ok \<Longrightarrow> a' = a" by auto
qed

text \<open>Time-outs, handlers and entry points: each keeps the invariant unless it faults.\<close>

lemma OriTimeout_inv:
  assumes "ba_inv a"
  shows "oob (BAOriSessionSetupTimeout cfg a i) \<or> ba_inv (BAOriSessionSetupTimeout cfg a i)"
proof -
  have u: "ba_inv (upd_ori i (\<lambda>e. e\<lparr>ori_Token := ori_Token e + 1\<rparr>) (log_dev ev a))" for ev
    using assms by (intro ori_inv_same) simp_all
  show ?thesis
    using assms FreeOri_inv(1) [OF assms] u
    by (simp add: BAOriSessionSetupTimeout_def Let_def out_of_bounds_def)
qed

lemma RecIdleTimeout_inv:
  assumes "ba_inv a" and "0 < i" and "i < 128"
  shows "ba_inv (BARecSessionIdleTimeout a i n)"
proof -
  have "ba_inv (on_session i ba_refresh_reordering_mpdus a)" if "rec_used a i"
    using that assms refresh_session_op by (intro on_session_inv) auto
  then show ?thesis
    using assms by (auto simp: BARecSessionIdleTimeout_def Let_def rec_used_def rec_none_def)
qed

lemma AddReq_inv:
  assumes inv: "ba_inv a"
  shows "oob (PeerAddBAReqAction cfg a el) \<or> ba_inv (PeerAddBAReqAction cfg a el)"
proof -
  let ?w = "unat (el_Wcid el)" and ?f = "addba_req_of (el_Msg el)"
  have d: "oob (snd (addba_decide cfg a el)) \<or> ba_inv (snd (addba_decide cfg a el))" if w: "?w < 32"
  proof (cases "fst (PeerAddBAReqActionSanity el) \<and> \<not> bBADecline cfg \<and> HtSta (Content a ! ?w)")
    case True
    obtain ok a1 where r: "BARecSessionAdd cfg a ?w ?f = (ok, a1)" by fastforce
    have "oob a1 \<or> ba_inv a1"
    proof (cases "unat (par_TID (req_BaParm ?f)) < 8")
      case t: True
      with RecAdd_inv(1) [OF inv w _ t r] True show ?thesis by simp
    next
      case False
      with r show ?thesis by (auto simp: BARecSessionAdd_def size_defs Let_def out_of_bounds_def)
    qed
    then show ?thesis using True by (cases ok) (simp_all add: addba_decide_def r)
  qed (use inv in \<open>auto simp: addba_decide_def Let_def\<close>)
  obtain s a1 where ds: "addba_decide cfg a el = (s, a1)" by fastforce
  obtain ok a2 where al: "alloc_mem a1 = (ok, a2)" by fastforce
  show ?thesis
    using inv d inv_alloc_mem [OF al] ds al
    by (cases ok) (auto simp: PeerAddBAReqAction_def size_defs Let_def)
qed

lemma inv_decline: "ba_inv a \<Longrightarrow> ba_inv (upd_entry w (\<lambda>m. m\<lparr>BADeclineBitmap := g m\<rparr>) a)"
proof -
  assume inv: "ba_inv a"
  let ?a = "upd_entry w (\<lambda>m. m\<lparr>BADeclineBitmap := g m\<rparr>) a"
  have C: "BARecWcidArray (Content ?a ! v) = BARecWcidArray (Content a ! v)"
      "BAOriWcidArray (Content ?a ! v) = BAOriWcidArray (Content a ! v)"
      "RXBAbitmap (Content ?a ! v) = RXBAbitmap (Content a ! v)" "TXBAbitmap (Content ?a ! v) = TXBAbitmap (Content a ! v)" for v
    by (cases "w < length (Content a)"; auto simp: nth_list_update list_update_beyond)+
  have "shape ?a" using inv by (intro shape_upd_entry) (simp_all add: ba_inv_def entry_shape_def)
  moreover have "rec_inv ?a = rec_inv a" "ori_inv ?a = ori_inv a"
    by (intro rec_inv_cong ori_inv_cong; (simp only: rec_arr_def ori_arr_def C)?; simp)+
  ultimately show "ba_inv ?a" using inv by (simp add: ba_inv_def)
qed

lemma AddRsp_inv:
  assumes inv: "ba_inv a"
  shows "oob (PeerAddBARspAction cfg a el) \<or> ba_inv (PeerAddBARspAction cfg a el)"
proof -
  let ?f = "addba_rsp_of (el_Msg el)" and ?w = "unat (el_Wcid el)"
  let ?T = "par_TID (rsp_BaParm ?f)"
  define a1 where "a1 = (if rsp_StatusCode ?f = 0 then BAOriSessionAdd cfg a ?w ?f
                         else BAOriSessionTearDown a (el_Wcid el) ?T True False)"
  have "oob a1 \<or> ba_inv a1" if w: "?w < 32"
  proof (cases "unat ?T < 8")
    case True
    then show ?thesis using OriAdd_inv(1) [OF inv w True] OriTearDown_inv(1) [OF inv True] by (simp add: a1_def)
  next
    case False
    then show ?thesis
      using w by (simp add: a1_def BAOriSessionAdd_def BAOriSessionTearDown_def size_defs Let_def out_of_bounds_def)
  qed
  then show ?thesis
    using inv inv_decline by (auto simp: PeerAddBARspAction_def Let_def a1_def [symmetric] size_defs)
qed

lemma DelBA_inv:
  assumes inv: "ba_inv a"
  shows "oob (PeerDelBAAction a el) \<or> ba_inv (PeerDelBAAction a el)"
proof -
  let ?f = "delba_req_of (el_Msg el)"
  show ?thesis
  proof (cases "unat (del_TID ?f) < 8")
    case True
    then show ?thesis
      using inv OriTearDown_inv(1) [OF inv True] RecTearDown_inv(1) [OF inv True] by (simp add: PeerDelBAAction_def Let_def)
  next
    case False
    then show ?thesis
      using inv by (simp add: PeerDelBAAction_def PeerDelBAActionSanity_def BARecSessionTearDown_def
          BAOriSessionTearDown_def size_defs Let_def out_of_bounds_def)
  qed
qed

lemma Cntl_inv:
  assumes inv: "ba_inv a"
  shows "oob (snd (CntlEnqueueForRecv cfg a w m)) \<or> ba_inv (snd (CntlEnqueueForRecv cfg a w m))"
proof -
  have "ba_inv (on_session i (\<lambda>c e. BAR_session c e s) a)" if "i < 128" for i s
    using inv that BAR_session_op BAR_keeps_empty by (intro on_session_inv) auto
  then show ?thesis using inv by (simp add: CntlEnqueueForRecv_def Let_def size_defs out_of_bounds_def)
qed

lemma rec_arr_used: "ba_inv a \<Longrightarrow> w < 32 \<Longrightarrow> t < 8 \<Longrightarrow> rec_arr a (w, t) \<noteq> 0 \<Longrightarrow> rec_used a (rec_arr a (w, t))"
  by (auto simp: ba_inv_def rec_inv_def dest: linkedD(2))

lemma inv_rx_events:
  "ba_inv a \<Longrightarrow> wf_list (freelist c) \<Longrightarrow> ba_inv (a\<lparr>rx := c\<rparr>)"
  by (auto simp: ba_inv_def shape_def rec_inv_def buffers_ok_def wf2_def rec_used_def [abs_def] rec_own_def [abs_def]
      rec_arr_def ori_inv_cong [of "a\<lparr>rx := c\<rparr>" a] ori_arr_def)

lemma Indicate_AMPDU_inv:
  assumes inv: "ba_inv a"
  shows "oob (Indicate_AMPDU_Packet hz a b n) \<or> ba_inv (Indicate_AMPDU_Packet hz a b n)"
proof -
  let ?w = "unat (RxWIWirelessCliID b)" and ?t = "unat (RxWITID b)"
  have s: "ba_inv (on_session i (\<lambda>c e. Indicate_AMPDU_session hz c e b n) a)"
    if "i < 128" "i \<noteq> 0" "rec_used a i" for i
    using inv that Indicate_session_op by (intro on_session_inv) auto
  have "wf_list (freelist (rx a))" using inv by (force simp: ba_inv_def rec_inv_def buffers_ok_def wf2_def)
  then have r: "ba_inv (a\<lparr>rx := RELEASE_NDIS_PACKET (rx a) p\<rparr>)" "ba_inv (a\<lparr>rx := INDICATE_LEGACY_OR_AMSDU (rx a) b\<rparr>)" for p
    using inv by (auto intro!: inv_rx_events simp: RELEASE_NDIS_PACKET_def INDICATE_LEGACY_OR_AMSDU_def emit_def)
  show ?thesis
    using r s rec_arr_used [OF inv, of ?w ?t]
    by (auto simp: Indicate_AMPDU_Packet_def Let_def size_defs out_of_bounds_def rec_arr_def)
qed

lemma maintain_tids_inv:
  "ba_inv a \<Longrightarrow> oob (maintain_tids hz a w n ts) \<or> ba_inv (maintain_tids hz a w n ts)"
proof (induction ts arbitrary: a)
  case (Cons t ts)
  have "ba_inv (on_session i (\<lambda>c e. ba_flush_reordering_timeout_mpdus hz c e n) a)" if "i < 128" for i
    using Cons.prems that flush_session_op flush_keeps_empty by (intro on_session_inv) auto
  then show ?case using Cons.IH by (auto simp: Let_def size_defs out_of_bounds_def)
qed simp

lemma maintain_tids_oob: "oob a \<Longrightarrow> oob (maintain_tids hz a w n ts)"
  by (induction ts arbitrary: a) (auto simp: Let_def out_of_bounds_def)

lemma maintain_wcids_oob: "oob a \<Longrightarrow> oob (maintain_wcids hz a n ws)"
  by (induction ws arbitrary: a) (auto simp: maintain_tids_oob)

lemma maintain_wcids_inv:
  "ba_inv a \<Longrightarrow> oob (maintain_wcids hz a n ws) \<or> ba_inv (maintain_wcids hz a n ws)"
proof (induction ws arbitrary: a)
  case (Cons w ws)
  show ?case
    using Cons.IH [of a] Cons.IH [of "maintain_tids hz a w n [0..<NUM_OF_TID]"] Cons.prems
      maintain_tids_inv [OF Cons.prems, of hz w n "[0..<NUM_OF_TID]"] maintain_wcids_oob by auto
qed simp

section \<open>Runs\<close>

text \<open>
  Any interleaving of the entry points, with any frame contents. A run stops at the first
  out-of-bounds access.
\<close>

inductive ba_step :: "ba_config \<Rightarrow> nat \<Rightarrow> RTMP_ADAPTER \<Rightarrow> RTMP_ADAPTER \<Rightarrow> bool" for cfg hz where
  st_setup: "w < MAX_LEN_OF_MAC_TABLE \<Longrightarrow> EntryType (Content a ! w) \<noteq> ENTRY_NONE \<Longrightarrow>
     ba_step cfg hz a (BAOriSessionSetUp cfg a w T to dl f)"
| st_addba_req: "ba_step cfg hz a (PeerAddBAReqAction cfg a el)"
| st_addba_rsp: "ba_step cfg hz a (PeerAddBARspAction cfg a el)"
| st_delba: "ba_step cfg hz a (PeerDelBAAction a el)"
| st_teardown: "ba_step cfg hz a (BASessionTearDownALL a W)"
| st_ori_timer: "ba_step cfg hz a (BAOriSessionSetupTimeout cfg a i)"
| st_rec_timer: "0 < i \<Longrightarrow> i < MAX_LEN_OF_BA_REC_TABLE \<Longrightarrow> ba_step cfg hz a (BARecSessionIdleTimeout a i n)"
| st_bar: "ba_step cfg hz a (snd (CntlEnqueueForRecv cfg a w m))"
| st_ampdu: "ba_step cfg hz a (Indicate_AMPDU_Packet hz a b n)"
| st_maintain: "ba_step cfg hz a (BaReOrderingBufferMaintain hz a n)"

inductive ba_run :: "ba_config \<Rightarrow> nat \<Rightarrow> RTMP_ADAPTER \<Rightarrow> RTMP_ADAPTER \<Rightarrow> bool" for cfg hz a where
  run_start: "ba_run cfg hz a a"
| run_step: "ba_run cfg hz a b \<Longrightarrow> \<not> oob b \<Longrightarrow> ba_step cfg hz b c \<Longrightarrow> ba_run cfg hz a c"

lemma ba_step_inv:
  assumes "ba_step cfg hz a a'" and "ba_inv a"
  shows "oob a' \<or> ba_inv a'"
  using assms(1)
proof (cases rule: ba_step.cases)
  case (st_setup w T to dl f)
  then show ?thesis using SetUp_inv(1) [OF assms(2)] by (simp add: size_defs)
next
  case (st_rec_timer i n)
  then show ?thesis using RecIdleTimeout_inv [OF assms(2)] by (simp add: size_defs)
next
  case (st_teardown W)
  then show ?thesis using TearDownALL_inv(1) [OF assms(2)] by simp
qed (simp_all add: AddReq_inv AddRsp_inv DelBA_inv OriTimeout_inv Cntl_inv Indicate_AMPDU_inv
      BaReOrderingBufferMaintain_def maintain_wcids_inv assms(2))

text \<open>
  \<^bold>\<open>C6\<close>. Session bookkeeping is consistent. From a consistent state, over any interleaving of set-ups,
  action frames, tear-downs, timers, block-ack requests, received frames and periodic flushes, as
  long as no array was accessed out of bounds: references and owners are inverse, the bitmaps mark
  exactly the active sessions, the three counters are exact, every session in the recipient table is
  accepted, and the buffers of unused entries are empty.
\<close>

theorem ba_run_consistent:
  assumes "ba_run cfg hz a a'" and "ba_inv a"
  shows "oob a' \<or> ba_inv a'"
  using assms
proof (induction rule: ba_run.induct)
  case (run_step b c)
  then show ?case using ba_step_inv by blast
qed simp

text \<open>An adapter with one associated 802.11n peer at index 1 and empty session tables.\<close>

definition zero_rec :: BA_REC_ENTRY where
  "zero_rec = \<lparr>rec_Wcid = 0, rec_TID = 0, rec_BAWinSize = 0, LastIndSeq = 0, rec_TimeOutValue = 0,
     LastIndSeqAtTimer = 0, nDropPacket = 0, rcvSeq = 0, REC_BA_Status = Recipient_NONE,
     reorder_list = \<lparr>mpdus = [], qlen = 0\<rparr>\<rparr>"

definition zero_ori :: BA_ORI_ENTRY where
  "zero_ori = \<lparr>ori_Wcid = 0, ori_TID = 0, ori_BAWinSize = 0, ori_Token = 0, ori_Sequence = 0,
     ori_TimeOutValue = 0, ORI_BA_Status = Originator_NONE\<rparr>"

definition zero_adapter :: RTMP_ADAPTER where
  "zero_adapter = \<lparr>Hash = replicate HASH_TABLE_SIZE None, Content = replicate MAX_LEN_OF_MAC_TABLE zero_entry,
     Size = 0, BARecEntry = replicate MAX_LEN_OF_BA_REC_TABLE zero_rec,
     BAOriEntry = replicate MAX_LEN_OF_BA_ORI_TABLE zero_ori, numAsRecipient = 0, numAsOriginator = 0,
     numDoneOriginator = 0, rx = \<lparr>freelist = \<lparr>mpdus = [], qlen = 0\<rparr>, events = [], null_deref = False\<rparr>,
     dev = [], mem = [], oob = False\<rparr>"

definition peer_adapter :: RTMP_ADAPTER where
  "peer_adapter = upd_entry 1 (\<lambda>m. m\<lparr>EntryType := ENTRY_CLIENT, Aid := 1, HtSta := True\<rparr>) zero_adapter"

definition ex_cfg :: ba_config where
  "ex_cfg = \<lparr>MACVersion = 0x76502000, AutoBA = True, RxBAWinLimit = 32, bBADecline = False, FixedTxMode = 0,
     MonitorOn = False, ScanBusy = False, HaltInProgress = False, StaTgnWifi = False, StaBssInfra = True,
     StaAuthMode = 0, StaWepStatus = 0, CurrentAddress = replicate 6 0\<rparr>"

text \<open>An ADDBA request frame with a given TID, immediate policy and buffer size 64.\<close>

definition addba_elem :: "UINT16 \<Rightarrow> MLME_ELEM" where
  "addba_elem T = (let w = 2 OR push_bit 2 T OR push_bit 6 64 in
     \<lparr>el_Wcid = 1, el_Msg = replicate 24 0 @ [3, 0, 7, ucast w, ucast (drop_bit 8 w), 0, 0, 0, 0], el_MsgLen = 33\<rparr>)"

lemma peer_entry:
  "w < 32 \<Longrightarrow> Content peer_adapter ! w =
     (if w = 1 then zero_entry\<lparr>EntryType := ENTRY_CLIENT, Aid := 1, HtSta := True\<rparr> else zero_entry)"
  by (simp add: peer_adapter_def zero_adapter_def nth_list_update size_defs)

lemma peer_adapter_fields [simp]:
  "length (Content peer_adapter) = 32" "BARecEntry peer_adapter = replicate 128 zero_rec"
  "BAOriEntry peer_adapter = replicate 128 zero_ori" "numAsRecipient peer_adapter = 0" "numAsOriginator peer_adapter = 0"
  "numDoneOriginator peer_adapter = 0" "mem peer_adapter = []" "oob peer_adapter = False"
  "rx peer_adapter = \<lparr>freelist = \<lparr>mpdus = [], qlen = 0\<rparr>, events = [], null_deref = False\<rparr>"
  by (simp_all add: peer_adapter_def zero_adapter_def size_defs)

lemma peer_adapter_inv: "ba_inv peer_adapter"
proof -
  have e: "entry_shape w (Content peer_adapter ! w)" if "w < 32" for w
    using that by (auto simp: peer_entry entry_shape_def size_defs)
  have b: "busy P = {}" if "\<And>i. 0 < i \<Longrightarrow> i < 128 \<Longrightarrow> \<not> P i" for P using that by (auto simp: busy_def)
  have u: "\<not> rec_used peer_adapter i" "\<not> ori_used peer_adapter i" "\<not> ori_done peer_adapter i" if "i < 128" for i
    using that by (auto simp: rec_used_def ori_used_def ori_done_def rec_none_def ori_none_def zero_rec_def zero_ori_def)
  have a: "rec_arr peer_adapter (w, t) = 0" "ori_arr peer_adapter (w, t) = 0" if "w < 32" "t < 8" for w t
    using that by (auto simp: rec_arr_def ori_arr_def peer_entry)
  show ?thesis
    using e u a
    by (auto simp: ba_inv_def shape_def size_defs rec_inv_def ori_inv_def linked_def b peer_entry buffers_ok_def wf2_def
        wf_list_def zero_rec_def)
qed

theorem ba_run_consistent_witness:
  "oob (PeerAddBAReqAction ex_cfg peer_adapter (addba_elem 5)) \<or>
   ba_inv (PeerAddBAReqAction ex_cfg peer_adapter (addba_elem 5))"
proof -
  have "ba_run ex_cfg 1000 peer_adapter (PeerAddBAReqAction ex_cfg peer_adapter (addba_elem 5))"
    by (rule run_step [OF run_start _ st_addba_req]) simp
  then show ?thesis using peer_adapter_inv by (rule ba_run_consistent)
qed

section \<open>Tear-down is complete\<close>

lemma send_delba_ok:
  assumes "mem a = []" and "unat T < 8"
  shows "\<exists>d. send_delba a W T I = (True, a\<lparr>dev := d\<rparr>)"
  using assms
  by (cases "MlmeDelBAReqSanity a (Addr (Content a ! unat W)) W T \<and> W > 0")
     (auto simp: send_delba_def MlmeDELBAAction_def size_defs log_dev_def intro: exI [of _ "dev a"])

lemma FreeOri_effect:
  assumes inv: "ba_inv a" and u: "0 < i" "i < 128" "ori_used a i"
  shows "ori_arr (BATableFreeOriEntry a i) = (ori_arr a)(ori_own a i := 0)"
    and "rec_arr (BATableFreeOriEntry a i) = rec_arr a" and "mem (BATableFreeOriEntry a i) = mem a"
proof -
  let ?w = "fst (ori_own a i)" and ?t = "snd (ori_own a i)"
  have l: "linked (ori_arr a) (ori_used a) (ori_own a)" using inv by (simp add: ba_inv_def ori_inv_def)
  have wt: "?w < 32" "?t < 8" using linked_usedD [OF l u] by auto
  have own: "unat (ori_Wcid (BAOriEntry a ! i)) = ?w" "unat (ori_TID (BAOriEntry a ! i)) = ?t"
    by (simp_all add: ori_own_def)
  note S = shapeD [OF inv wt(1)]
  have f: "\<not> (i = 0 \<or> i \<ge> 128)" "\<not> ori_none (BAOriEntry a ! i)" "\<not> (?w \<ge> 32 \<or> ?t \<ge> 8)"
    using u wt by (auto simp: ori_used_def)
  have C: "\<exists>bm. Content (BATableFreeOriEntry a i) = (Content a)[?w := (Content a ! ?w)
      \<lparr>BAOriWcidArray := (BAOriWcidArray (Content a ! ?w))[?t := 0], TXBAbitmap := bm\<rparr>]"
    using f S(1)
    by (cases "ORI_BA_Status (BAOriEntry a ! i) = Originator_Done")
       (auto simp: BATableFreeOriEntry_def size_defs Let_def own intro: exI [of _ "TXBAbitmap (Content a ! ?w)"])
  obtain bm where C': "Content (BATableFreeOriEntry a i) = (Content a)[?w := (Content a ! ?w)
      \<lparr>BAOriWcidArray := (BAOriWcidArray (Content a ! ?w))[?t := 0], TXBAbitmap := bm\<rparr>]" using C ..
  show "ori_arr (BATableFreeOriEntry a i) = (ori_arr a)(ori_own a i := 0)" "rec_arr (BATableFreeOriEntry a i) = rec_arr a"
    using S wt by (auto simp: ori_arr_def rec_arr_def C' fun_eq_iff nth_list_update prod_eq_iff)
  show "mem (BATableFreeOriEntry a i) = mem a"
    using f by (simp add: BATableFreeOriEntry_def size_defs Let_def own)
qed

lemma arr_dev [simp]:
  "rec_arr (a\<lparr>dev := d\<rparr>) = rec_arr a" "ori_arr (a\<lparr>dev := d\<rparr>) = ori_arr a" "ori_own (a\<lparr>dev := d\<rparr>) = ori_own a"
  "ori_used (a\<lparr>dev := d\<rparr>) = ori_used a" "rec_arr (log_dev ev a) = rec_arr a" "ori_arr (log_dev ev a) = ori_arr a"
  "ori_own (log_dev ev a) = ori_own a" "ori_used (log_dev ev a) = ori_used a"
  by (auto simp: rec_arr_def ori_arr_def ori_own_def ori_used_def fun_eq_iff)

lemma inv_dev1 [simp]: "ba_inv (a\<lparr>dev := d\<rparr>) = ba_inv a"
  by (simp add: ba_inv_def shape_def rec_inv_cong [of "a\<lparr>dev := d\<rparr>" a] ori_inv_cong [of "a\<lparr>dev := d\<rparr>" a]
      rec_arr_def ori_arr_def)

lemma OriTearDown_effect:
  assumes inv: "ba_inv a" and m: "mem a = []" and w: "unat W < 32" and t: "unat T < 8"
  shows "ori_arr (BAOriSessionTearDown a W T p False) = (ori_arr a)((unat W, unat T) := 0)"
    and "rec_arr (BAOriSessionTearDown a W T p False) = rec_arr a" and "mem (BAOriSessionTearDown a W T p False) = []"
proof -
  let ?i = "ori_arr a (unat W, unat T)"
  have idx: "unat (BAOriWcidArray (Content a ! unat W) ! unat T) = ?i" by (simp add: ori_arr_def)
  have l: "linked (ori_arr a) (ori_used a) (ori_own a)" using inv by (simp add: ba_inv_def ori_inv_def)
  have "ori_arr (BAOriSessionTearDown a W T p False) = (ori_arr a)((unat W, unat T) := 0) \<and>
      rec_arr (BAOriSessionTearDown a W T p False) = rec_arr a \<and> mem (BAOriSessionTearDown a W T p False) = []"
  proof (cases "?i = 0")
    case True
    then have "BAOriSessionTearDown a W T p False = a"
      using w t unfolding BAOriSessionTearDown_def Let_def idx by (simp add: size_defs)
    then show ?thesis using True m by (simp add: fun_upd_idem)
  next
    case False
    note L = linkedD [OF l w t False]
    obtain d where sd: "send_delba a W T True = (True, a\<lparr>dev := d\<rparr>)" using send_delba_ok [OF m t] by blast
    obtain d' where r: "BAOriSessionTearDown a W T p False = BATableFreeOriEntry (a\<lparr>dev := d'\<rparr>) ?i"
    proof (cases "\<not> p \<and> T = ori_TID (BAOriEntry a ! ?i) \<and> ORI_BA_Status (BAOriEntry a ! ?i) = Originator_Done")
      case True
      then have "BAOriSessionTearDown a W T p False = BATableFreeOriEntry (a\<lparr>dev := d @ [TimerCancel (ORIBATimer ?i)]\<rparr>) ?i"
        using w t L(1) False sd unfolding BAOriSessionTearDown_def Let_def idx by (simp add: size_defs log_dev_def)
      then show ?thesis by (rule that)
    next
      case False
      then have "BAOriSessionTearDown a W T p False = BATableFreeOriEntry (a\<lparr>dev := dev a @ [TimerCancel (ORIBATimer ?i)]\<rparr>) ?i"
        using w t L(1) \<open>?i \<noteq> 0\<close> unfolding BAOriSessionTearDown_def Let_def idx by (auto simp: size_defs log_dev_def)
      then show ?thesis by (rule that)
    qed
    show ?thesis
      unfolding r using FreeOri_effect [of "a\<lparr>dev := d'\<rparr>" ?i] inv L False m by simp
  qed
  then show "ori_arr (BAOriSessionTearDown a W T p False) = (ori_arr a)((unat W, unat T) := 0)"
    "rec_arr (BAOriSessionTearDown a W T p False) = rec_arr a" "mem (BAOriSessionTearDown a W T p False) = []" by auto
qed

lemma rec_release_mem: "mem (rec_release a W T i) = mem a"
  by (simp add: rec_release_def BATableFreeRecEntry_def Let_def out_of_bounds_def)

lemma RecTearDown_effect:
  assumes inv: "ba_inv a" and m: "mem a = []" and w: "unat W < 32" and t: "unat T < 8"
  shows "rec_arr (BARecSessionTearDown a W T p) = (rec_arr a)((unat W, unat T) := 0)"
    and "ori_arr (BARecSessionTearDown a W T p) = ori_arr a" and "mem (BARecSessionTearDown a W T p) = []"
proof -
  let ?i = "rec_arr a (unat W, unat T)"
  have "rec_arr (BARecSessionTearDown a W T p) = (rec_arr a)((unat W, unat T) := 0) \<and>
      ori_arr (BARecSessionTearDown a W T p) = ori_arr a \<and> mem (BARecSessionTearDown a W T p) = []"
  proof (cases "?i = 0")
    case True
    then have "unat (BARecWcidArray (Content a ! unat W) ! unat T) = 0" by (simp add: rec_arr_def)
    then have "BARecSessionTearDown a W T p = a"
      using w t by (simp add: BARecSessionTearDown_def size_defs Let_def)
    then show ?thesis using True m by (simp add: fun_upd_idem)
  next
    case False
    let ?a = "log_dev (TimerCancel (RECBATimer ?i)) a"
    obtain d where sd: "send_delba ?a W T False = (True, ?a\<lparr>dev := d\<rparr>)" using send_delba_ok [of ?a T W False] m t by auto
    have "\<exists>d. BARecSessionTearDown a W T p = rec_release (a\<lparr>dev := d\<rparr>) W T ?i"
      using RecTearDown_eq [OF inv w t refl False, of p] sd
      by (cases p) (auto simp: Let_def log_dev_def)
    then obtain d' where r: "BARecSessionTearDown a W T p = rec_release (a\<lparr>dev := d'\<rparr>) W T ?i" ..
    show ?thesis
      unfolding r using rec_release_inv [of "a\<lparr>dev := d'\<rparr>" W T ?i] rec_release_mem inv w t m False by simp
  qed
  then show "rec_arr (BARecSessionTearDown a W T p) = (rec_arr a)((unat W, unat T) := 0)"
    "ori_arr (BARecSessionTearDown a W T p) = ori_arr a" "mem (BARecSessionTearDown a W T p) = []" by auto
qed

lemma teardown_tids_effect:
  assumes "ba_inv a" and "mem a = []" and "unat W < 32" and "\<forall>t \<in> set ts. t < 8"
  shows "rec_arr (teardown_tids a W ts) (w, t) = (if w = unat W \<and> t \<in> set ts then 0 else rec_arr a (w, t)) \<and>
         ori_arr (teardown_tids a W ts) (w, t) = (if w = unat W \<and> t \<in> set ts then 0 else ori_arr a (w, t))"
  using assms(1,2,4)
proof (induction ts arbitrary: a)
  case (Cons x xs)
  let ?T = "of_nat x :: UINT8"
  have x: "unat ?T < 8" "unat ?T = x" using Cons.prems(3) by (simp_all add: unat_tid)
  let ?b = "BAOriSessionTearDown a W ?T False False" and ?c = "BARecSessionTearDown (BAOriSessionTearDown a W ?T False False) W ?T False"
  note o = OriTearDown_effect [OF Cons.prems(1,2) assms(3) x(1), of False] and oi = OriTearDown_inv(1) [OF Cons.prems(1) x(1), of W False False]
  note r = RecTearDown_effect [OF oi o(3) assms(3) x(1), of False] and ri = RecTearDown_inv(1) [OF oi x(1), of W False]
  show ?case
    using Cons.IH [OF ri r(3)] Cons.prems(3) by (auto simp: o r x(2))
qed simp

text \<open>
  Tear-down is complete and local. When its allocations succeed, tearing down a peer
  leaves none of its eight TIDs with a session in either direction, clears the corresponding bits of
  both bitmaps, leaves no session entry owned by the peer in either table, and keeps the session
  references of every other peer.
\<close>

theorem BASessionTearDownALL_complete:
  assumes "ba_inv a" and "mem a = []" and "unat Wcid < MAX_LEN_OF_MAC_TABLE"
    and "a' = BASessionTearDownALL a Wcid"
  shows "(\<forall>t < NUM_OF_TID. rec_arr a' (unat Wcid, t) = 0 \<and> ori_arr a' (unat Wcid, t) = 0 \<and>
            \<not> bit (RXBAbitmap (Content a' ! unat Wcid)) t \<and> \<not> bit (TXBAbitmap (Content a' ! unat Wcid)) t) \<and>
         (\<forall>i. 0 < i \<and> i < 128 \<longrightarrow> (rec_used a' i \<longrightarrow> fst (rec_own a' i) \<noteq> unat Wcid) \<and>
                                 (ori_used a' i \<longrightarrow> fst (ori_own a' i) \<noteq> unat Wcid)) \<and>
         (\<forall>w t. w \<noteq> unat Wcid \<longrightarrow> rec_arr a' (w, t) = rec_arr a (w, t) \<and> ori_arr a' (w, t) = ori_arr a (w, t))"
proof -
  have w: "unat Wcid < 32" using assms(3) by (simp add: size_defs)
  have inv: "ba_inv a'" unfolding assms(4) by (rule TearDownALL_inv(1) [OF assms(1)])
  have arr: "rec_arr a' (w, t) = (if w = unat Wcid \<and> t < 8 then 0 else rec_arr a (w, t))"
      "ori_arr a' (w, t) = (if w = unat Wcid \<and> t < 8 then 0 else ori_arr a (w, t))" for w t
    using teardown_tids_effect [OF assms(1,2) w, of "[0..<8]" w t]
    unfolding assms(4) by (auto simp: BASessionTearDownALL_def size_defs)
  have lr: "linked (rec_arr a') (rec_used a') (rec_own a')" and lo: "linked (ori_arr a') (ori_used a') (ori_own a')"
    using inv by (simp_all add: ba_inv_def rec_inv_def ori_inv_def)
  have r: "rec_arr a' (rec_own a' i) = i" "snd (rec_own a' i) < 8" if "0 < i" "i < 128" "rec_used a' i" for i
    using linked_usedD [OF lr that] by auto
  have o: "ori_arr a' (ori_own a' i) = i" "snd (ori_own a' i) < 8" if "0 < i" "i < 128" "ori_used a' i" for i
    using linked_usedD [OF lo that] by auto
  have "\<not> (rec_used a' i \<and> fst (rec_own a' i) = unat Wcid)" "\<not> (ori_used a' i \<and> fst (ori_own a' i) = unat Wcid)"
    if "0 < i" "i < 128" for i
    using r [OF that] o [OF that] arr [of "unat Wcid" "snd (rec_own a' i)"] arr [of "unat Wcid" "snd (ori_own a' i)"] that
    by (metis less_numeral_extra(3) prod.collapse)+
  moreover have "\<not> bit (RXBAbitmap (Content a' ! unat Wcid)) t \<and> \<not> bit (TXBAbitmap (Content a' ! unat Wcid)) t" if "t < 8" for t
    using inv w that arr by (simp add: ba_inv_def rec_inv_def ori_inv_def)
  ultimately show ?thesis using arr by (auto simp: size_defs)
qed

lemma SetUp_mem: "mem (BAOriSessionSetUp cfg a w T to dl f) = mem a"
  by (auto simp: BAOriSessionSetUp_def Let_def ori_setup_entry_def BATableAllocOriEntry_def out_of_bounds_def
      split: option.splits)

theorem BASessionTearDownALL_complete_witness:
  "let a = BAOriSessionSetUp ex_cfg peer_adapter 1 3 0 0 True; a' = BASessionTearDownALL a 1 in
   ori_arr a (1, 3) = 1 \<and> ori_arr a' (1, 3) = 0 \<and> \<not> bit (TXBAbitmap (Content a' ! 1)) 3"
proof -
  define a where "a = BAOriSessionSetUp ex_cfg peer_adapter 1 3 0 0 True"
  have inv: "ba_inv a"
    unfolding a_def by (rule SetUp_inv [OF peer_adapter_inv]) (simp_all add: peer_entry ENTRY_CLIENT_def ENTRY_NONE_def)
  have mem: "mem a = []" by (simp add: a_def SetUp_mem)
  have "unat (1 :: UINT8) < MAX_LEN_OF_MAC_TABLE" by (simp add: size_defs)
  note T = BASessionTearDownALL_complete [OF inv mem this refl]
  have "List.find (\<lambda>i. ori_none (BAOriEntry peer_adapter ! i)) [1..<128] = Some 1"
    by (simp add: upt_conv_Cons zero_ori_def ori_none_def)
  then have "ori_arr a (1, 3) = 1"
    by (simp add: a_def ori_arr_def BAOriSessionSetUp_def Let_def peer_entry ex_cfg_def RTMPStaFixedTxMode_def
        FIXED_TXMODE_HT_def BATableAllocOriEntry_def size_defs ori_setup_entry_def ori_busy_def)
  then show ?thesis unfolding a_def [symmetric] Let_def using T by (simp add: size_defs)
qed

section \<open>Answers to ADDBA requests\<close>

lemma RecAdd_form:
  assumes inv: "ba_inv a" and w: "w < 32" and t: "unat (par_TID (req_BaParm f)) < 8"
    and res: "BARecSessionAdd cfg a w f = (True, a')"
  shows "\<exists>b i. a' = rec_fill_entry cfg b w f i (of_nat i) \<and> 0 < i \<and> i < 128 \<and> length (BARecEntry b) = 128 \<and>
           Content b = Content a"
proof -
  let ?T = "par_TID (req_BaParm f)" and ?m = "Content a ! w" and ?i = "rec_arr a (w, unat (par_TID (req_BaParm f)))"
  have idx: "?i = unat (BARecWcidArray ?m ! unat ?T)" by (simp add: rec_arr_def)
  have l: "linked (rec_arr a) (rec_used a) (rec_own a)" and n: "numAsRecipient a = of_nat (card (busy (rec_used a)))"
    using inv by (auto simp: ba_inv_def rec_inv_def)
  note S = shapeD [OF inv w]
  show ?thesis
  proof (cases "?i = 0")
    case False
    note L = linkedD [OF l w t False]
    have "a' = rec_fill_entry cfg (on_session ?i ba_refresh_reordering_mpdus a) w f ?i (of_nat ?i)"
      using res False L(1) t
      by (auto simp: BARecSessionAdd_def size_defs Let_def unat_eq_0 idx)
    then show ?thesis
      using L(1) False S(4) by (intro exI [of _ "on_session ?i ba_refresh_reordering_mpdus a"] exI [of _ ?i]) simp
  next
    case True
    then have z: "BARecWcidArray ?m ! unat ?T = 0" using idx by (simp add: unat_eq_0)
    have "\<exists>i. 0 < i \<and> i < 128 \<and> a' = rec_fill_entry cfg
        (upd_rec i (\<lambda>e. e\<lparr>REC_BA_Status := Recipient_USED\<rparr>) a\<lparr>numAsRecipient := numAsRecipient a + 1\<rparr>) w f i (of_nat i)"
      using rec_tab.alloc_spec [of a 0] n res z t by (auto simp: BARecSessionAdd_def size_defs Let_def busy_used)
    then obtain i where "0 < i" "i < 128" "a' = rec_fill_entry cfg
        (upd_rec i (\<lambda>e. e\<lparr>REC_BA_Status := Recipient_USED\<rparr>) a\<lparr>numAsRecipient := numAsRecipient a + 1\<rparr>) w f i (of_nat i)"
      by blast
    then show ?thesis
      using S(4) by (intro exI [of _ "upd_rec i (\<lambda>e. e\<lparr>REC_BA_Status := Recipient_USED\<rparr>) a
        \<lparr>numAsRecipient := numAsRecipient a + 1\<rparr>"] exI [of _ i]) simp
  qed
qed

lemma RecAdd_session:
  assumes "ba_inv a" and "w < 32" and "unat (par_TID (req_BaParm f)) < 8"
    and "BARecSessionAdd cfg a w f = (True, a')"
  shows "let e = BARecEntry a' ! rec_arr a' (w, unat (par_TID (req_BaParm f))) in
         rec_BAWinSize e = rec_winsize cfg f \<and> LastIndSeq e = RESET_RCV_SEQ \<and> REC_BA_Status e = Recipient_Accept"
proof -
  obtain b i where a': "a' = rec_fill_entry cfg b w f i (of_nat i)" and i: "0 < i" "i < 128" "length (BARecEntry b) = 128"
    and C: "Content b = Content a" using RecAdd_form [OF assms] by blast
  note S = shapeD [OF assms(1,2)]
  have il: "i < length (BARecEntry b)" using i by simp
  note F = rec_fill_fields [OF il, of cfg w f "of_nat i", folded a', unfolded C]
  have "rec_arr a' (w, unat (par_TID (req_BaParm f))) = i"
    using S assms(3) i by (simp add: rec_arr_def F(1) unsigned_of_nat take_bit_nat_eq_self)
  then show ?thesis using i by (simp add: F(2) Let_def)
qed

text \<open>The status code the standard's procedure gives for a request.\<close>

definition addba_status :: "ba_config \<Rightarrow> RTMP_ADAPTER \<Rightarrow> MLME_ELEM \<Rightarrow> UINT16" where
  "addba_status cfg a el =
     (let w = unat (el_Wcid el); T = unat (par_TID (req_BaParm (addba_req_of (el_Msg el)))) in
      if \<not> fst (PeerAddBAReqActionSanity el) then 1
      else if bBADecline cfg \<or> \<not> HtSta (Content a ! w) then 37
      else if rec_arr a (w, T) \<noteq> 0 \<or> card (busy (rec_used a)) < 127 then 0
      else 38)"

text \<open>
  \<^bold>\<open>C7\<close>. Every ADDBA request from a known peer with a TID below 8 is answered with the right status,
  and the answer is true: status 0 is sent exactly when the session was accepted, which then has the window
  that the response announces and waits for its first frame; with any other status no session changes.
\<close>

theorem addba_request_answered:
  assumes "ba_inv a" and "\<not> oob a" and "mem a = []" and "unat (el_Wcid el) < MAX_LEN_OF_MAC_TABLE"
    and "unat (par_TID (req_BaParm (addba_req_of (el_Msg el)))) < NUM_OF_TID"
    and "a' = PeerAddBAReqAction cfg a el"
  shows "let f = addba_req_of (el_Msg el); w = unat (el_Wcid el); T = par_TID (req_BaParm f);
             s = addba_status cfg a el; e = BARecEntry a' ! rec_arr a' (w, unat T) in
         last (dev a') = Tx (ADDBA_Rsp (el_Wcid el) T (req_Token f) s (ucast (rec_winsize cfg f))) \<and>
         (if s = 0 then rec_arr a' (w, unat T) \<noteq> 0 \<and> rec_BAWinSize e = rec_winsize cfg f \<and>
                        LastIndSeq e = RESET_RCV_SEQ \<and> REC_BA_Status e = Recipient_Accept
          else BARecEntry a' = BARecEntry a \<and> Content a' = Content a \<and> rx a' = rx a)"
proof -
  let ?f = "addba_req_of (el_Msg el)" and ?w = "unat (el_Wcid el)"
  let ?T = "par_TID (req_BaParm ?f)"
  let ?rsp = "\<lambda>s. Tx (ADDBA_Rsp (el_Wcid el) ?T (req_Token ?f) s (ucast (rec_winsize cfg ?f)))"
  have w: "?w < 32" and t: "unat ?T < 8" using assms(4,5) by (simp_all add: size_defs)
  show ?thesis
  proof (cases "fst (PeerAddBAReqActionSanity el) \<and> \<not> bBADecline cfg \<and> HtSta (Content a ! ?w)")
    case False
    then have "a' = log_dev (?rsp (addba_status cfg a el)) a" "addba_status cfg a el \<noteq> 0"
      using assms(2,3,6) w
      by (auto simp: PeerAddBAReqAction_def addba_decide_def addba_status_def size_defs Let_def)
    then show ?thesis by (simp add: Let_def)
  next
    case True
    obtain ok a1 where r: "BARecSessionAdd cfg a ?w ?f = (ok, a1)" by fastforce
    note R = RecAdd_inv [OF assms(1) w _ t r]
    have s: "addba_status cfg a el = (if ok then 0 else 38)"
      using True R(3) by (simp add: addba_status_def Let_def)
    have m: "mem a1 = []"
      using r assms(3)
      by (auto simp: BARecSessionAdd_def rec_fill_entry_def BATableAllocRecEntry_def Let_def out_of_bounds_def
          split: option.splits if_splits)
    have a': "a' = log_dev (?rsp (if ok then 0 else 38)) a1"
      using True assms(2,6) w r m R(2)
      by (cases ok) (simp_all add: PeerAddBAReqAction_def addba_decide_def size_defs Let_def)
    show ?thesis
    proof (cases ok)
      case ok: True
      then have "rec_arr a1 (?w, unat ?T) \<noteq> 0" using R(4) True by simp
      then show ?thesis
        using RecAdd_session [OF assms(1) w t] r ok s by (simp add: a' Let_def)
    next
      case False
      then show ?thesis using R(5) True s by (simp add: a' Let_def)
    qed
  qed
qed

lemma addba_elem_5:
  "unat (el_Wcid (addba_elem 5)) = 1" "fst (PeerAddBAReqActionSanity (addba_elem 5))"
  "par_TID (req_BaParm (addba_req_of (el_Msg (addba_elem 5)))) = 5"
  by (simp_all add: addba_elem_def PeerAddBAReqActionSanity_def addba_req_of_def LENGTH_802_11_def Let_def le16_def
      nth_append ba_parm_of_def)

theorem addba_request_answered_witness:
  "rec_arr (PeerAddBAReqAction ex_cfg peer_adapter (addba_elem 5)) (1, 5) \<noteq> 0"
proof -
  have "unat (el_Wcid (addba_elem 5)) < MAX_LEN_OF_MAC_TABLE"
      "unat (par_TID (req_BaParm (addba_req_of (el_Msg (addba_elem 5))))) < NUM_OF_TID"
    by (simp_all add: addba_elem_5 size_defs)
  note A = addba_request_answered [OF peer_adapter_inv _ _ this refl, of ex_cfg]
  have "busy (rec_used peer_adapter) = {}"
    by (auto simp: busy_def rec_used_def rec_none_def zero_rec_def)
  then have "addba_status ex_cfg peer_adapter (addba_elem 5) = 0"
    by (simp add: addba_status_def addba_elem_5 peer_entry ex_cfg_def Let_def)
  then show ?thesis using A by (simp add: addba_elem_5 Let_def)
qed

lemma alloc_oob: "alloc_mem a = (ok, a') \<Longrightarrow> oob a' = oob a"
  by (auto simp: alloc_mem_def split: list.splits)

text \<open>
  \<^bold>\<open>C8\<close>. The TID of an ADDBA request is four bits wide and is used as an index into arrays of eight
  entries without a check: a request that the driver is ready to accept accesses memory out of bounds
  exactly when its TID is 8 or more.
\<close>

theorem addba_request_tid_out_of_bounds:
  assumes "ba_inv a" and "\<not> oob a" and "unat (el_Wcid el) < MAX_LEN_OF_MAC_TABLE"
    and "fst (PeerAddBAReqActionSanity el)" and "\<not> bBADecline cfg" and "HtSta (Content a ! unat (el_Wcid el))"
  shows "oob (PeerAddBAReqAction cfg a el) \<longleftrightarrow>
           \<not> unat (par_TID (req_BaParm (addba_req_of (el_Msg el)))) < NUM_OF_TID"
proof -
  let ?f = "addba_req_of (el_Msg el)" and ?w = "unat (el_Wcid el)"
  have w: "?w < 32" using assms(3) by (simp add: size_defs)
  obtain ok a1 where r: "BARecSessionAdd cfg a ?w ?f = (ok, a1)" by fastforce
  obtain ok2 a2 where al: "alloc_mem a1 = (ok2, a2)" by fastforce
  have o: "oob (PeerAddBAReqAction cfg a el) = oob a1"
    using w assms(4-6) r al alloc_oob [OF al]
    by (cases ok; cases ok2) (simp_all add: PeerAddBAReqAction_def addba_decide_def size_defs Let_def)
  show ?thesis
  proof (cases "unat (par_TID (req_BaParm ?f)) < 8")
    case True
    then show ?thesis using RecAdd_inv(2) [OF assms(1) w assms(6) True r] assms(2) o by (simp add: size_defs)
  next
    case False
    then show ?thesis using r o by (auto simp: BARecSessionAdd_def size_defs Let_def out_of_bounds_def)
  qed
qed

theorem addba_request_tid_out_of_bounds_witness:
  "oob (PeerAddBAReqAction ex_cfg peer_adapter (addba_elem 9))"
proof -
  have e: "unat (el_Wcid (addba_elem 9)) = 1" "fst (PeerAddBAReqActionSanity (addba_elem 9))"
      "par_TID (req_BaParm (addba_req_of (el_Msg (addba_elem 9)))) = 9"
    by (simp_all add: addba_elem_def PeerAddBAReqActionSanity_def addba_req_of_def LENGTH_802_11_def Let_def le16_def
        nth_append ba_parm_of_def)
  show ?thesis
    using addba_request_tid_out_of_bounds [OF peer_adapter_inv, of "addba_elem 9" ex_cfg]
    by (simp add: e peer_entry ex_cfg_def size_defs)
qed

end
