(* ===== verification/Mac_Table.thy ===== *)
theory Mac_Table
  imports BA_Session
begin

text \<open>
  The station table of \<^verbatim>\<open>mgmt/mgmt_entrytb.c\<close>: 32 entries, found by their index (the WCID) or
  by MAC address through a hash table whose 256 buckets are chains of entries linked by
  \<^verbatim>\<open>pNext\<close>.

  The walks along a chain are partial functions: a cyclic chain would make the code
  loop. \<open>mac_rep\<close> says that the chains are finite and duplicate free and partition the
  entries in use by the hash of their address; under it every walk ends.

  Taking and releasing the table's lock, the operating mode that is reset when the table becomes empty and
  \<^verbatim>\<open>pWeakestEntry\<close> are left out.
\<close>

section \<open>Definitions\<close>

definition MAC_ADDR_HASH_INDEX :: "mac_addr \<Rightarrow> nat" where
  "MAC_ADDR_HASH_INDEX addr =
     unat ((addr ! 0 XOR addr ! 1 XOR addr ! 2 XOR addr ! 3 XOR addr ! 4 XOR addr ! 5) AND 0xFF)"

definition entry_none :: "MAC_TABLE_ENTRY \<Rightarrow> bool" where
  "entry_none m \<longleftrightarrow> EntryType m = ENTRY_NONE"

partial_function (option) lookup_loop ::
  "MAC_TABLE_ENTRY list \<Rightarrow> mac_addr \<Rightarrow> nat option \<Rightarrow> nat option option" where
  "lookup_loop ct addr p =
     (case p of
        None \<Rightarrow> Some None
      | Some i \<Rightarrow>
          if entry_none (ct ! i) then Some (Some i)
          else if Addr (ct ! i) = addr then Some (Some i)
          else lookup_loop ct addr (pNext (ct ! i)))"

definition MacTableLookup :: "RTMP_ADAPTER \<Rightarrow> mac_addr \<Rightarrow> nat option option" where
  "MacTableLookup a addr = lookup_loop (Content a) addr (Hash a ! MAC_ADDR_HASH_INDEX addr)"

text \<open>The entry as \<^verbatim>\<open>MacTableInsertEntry\<close> fills it in.\<close>

definition new_entry :: "ba_config \<Rightarrow> nat \<Rightarrow> mac_addr \<Rightarrow> UINT8 \<Rightarrow> bool \<Rightarrow> MAC_TABLE_ENTRY" where
  "new_entry cfg i addr idx op_sta =
     (let m = zero_entry\<lparr>EntryType := ENTRY_CLIENT, EnqueueEapolStartTimerRunning := 0, RSNIE_Len := 0,
                apidx := idx, AuthMode := StaAuthMode cfg, WepStatus := StaWepStatus cfg, PairwiseKeyLen := 0,
                PortSecured := False, Addr := addr, HdrAddr1 := addr\<rparr>;
          m' = (if op_sta then m\<lparr>HdrAddr2 := CurrentAddress cfg, HdrAddr3 := addr\<rparr> else m)
      in m'\<lparr>Sst := SST_NOT_AUTH, Aid := of_nat i, CapabilityInfo := 0, AssocDeadLine := 5\<rparr>)"

text \<open>The walk to the end of a bucket's chain.\<close>

partial_function (option) last_loop :: "MAC_TABLE_ENTRY list \<Rightarrow> nat \<Rightarrow> nat option" where
  "last_loop ct i = (case pNext (ct ! i) of None \<Rightarrow> Some i | Some j \<Rightarrow> last_loop ct j)"

definition hash_append :: "RTMP_ADAPTER \<Rightarrow> nat \<Rightarrow> nat \<Rightarrow> RTMP_ADAPTER option" where
  "hash_append a h i =
     (case Hash a ! h of
        None \<Rightarrow> Some (a\<lparr>Hash := (Hash a)[h := Some i]\<rparr>)
      | Some p \<Rightarrow>
          (case last_loop (Content a) p of
             None \<Rightarrow> None
           | Some l \<Rightarrow> Some (upd_entry l (\<lambda>m. m\<lparr>pNext := Some i\<rparr>) a)))"

definition FirstWcid :: "ba_config \<Rightarrow> nat" where
  "FirstWcid cfg = (if StaBssInfra cfg then 2 else 1)"

definition fill_entry :: "ba_config \<Rightarrow> RTMP_ADAPTER \<Rightarrow> nat \<Rightarrow> mac_addr \<Rightarrow> UINT8 \<Rightarrow> bool \<Rightarrow> RTMP_ADAPTER" where
  "fill_entry cfg a i addr idx op_sta =
     (let a1 = log_dev (TimerCancel (EnqueueStartForPSKTimer i)) (log_dev (TimerCancel (RetryTimer i)) a);
          a2 = log_dev (TimerInit (EnqueueStartForPSKTimer i)) a1;
          a3 = upd_entry i (\<lambda>_. new_entry cfg i addr idx op_sta) a2;
          a4 = a3\<lparr>Size := Size a3 + 1\<rparr>
      in log_dev (AsicAddEntry i addr) (log_dev (AsicRemoveKey i) a4))"

definition MacTableInsertEntry ::
  "ba_config \<Rightarrow> RTMP_ADAPTER \<Rightarrow> mac_addr \<Rightarrow> UINT8 \<Rightarrow> bool \<Rightarrow> (nat option \<times> RTMP_ADAPTER) option" where
  "MacTableInsertEntry cfg a addr idx op_sta =
     (if unat (Size a) \<ge> MAX_LEN_OF_MAC_TABLE then Some (None, a)
      else case List.find (\<lambda>i. entry_none (Content a ! i)) [FirstWcid cfg..<MAX_LEN_OF_MAC_TABLE] of
             None \<Rightarrow> Some (None, a)
           | Some i \<Rightarrow>
               (case hash_append (fill_entry cfg a i addr idx op_sta) (MAC_ADDR_HASH_INDEX addr) i of
                  None \<Rightarrow> None
                | Some a' \<Rightarrow> Some (Some i, a')))"

text \<open>The walk of \<^verbatim>\<open>MacTableDeleteEntry\<close> that takes entry \<open>t\<close> out of bucket \<open>h\<close>.\<close>

partial_function (option) unlink_loop ::
  "nat \<Rightarrow> nat \<Rightarrow> nat option \<Rightarrow> nat \<Rightarrow> RTMP_ADAPTER \<Rightarrow> RTMP_ADAPTER option" where
  "unlink_loop h t prev probe a =
     (if probe = t then
        Some (case prev of
                None \<Rightarrow> a\<lparr>Hash := (Hash a)[h := pNext (Content a ! t)]\<rparr>
              | Some p \<Rightarrow> upd_entry p (\<lambda>m. m\<lparr>pNext := pNext (Content a ! t)\<rparr>) a)
      else (case pNext (Content a ! probe) of
              None \<Rightarrow> Some a
            | Some q \<Rightarrow> unlink_loop h t (Some probe) q a))"

definition hash_unlink :: "RTMP_ADAPTER \<Rightarrow> nat \<Rightarrow> nat \<Rightarrow> RTMP_ADAPTER option" where
  "hash_unlink a h t = (case Hash a ! h of None \<Rightarrow> Some a | Some p \<Rightarrow> unlink_loop h t None p a)"

text \<open>What follows the unlinking: timers, the entry itself, the counter.\<close>

definition clear_entry :: "RTMP_ADAPTER \<Rightarrow> nat \<Rightarrow> RTMP_ADAPTER" where
  "clear_entry a w =
     (let a1 = (if EnqueueEapolStartTimerRunning (Content a ! w) \<noteq> 0 then
                  upd_entry w (\<lambda>m. m\<lparr>EnqueueEapolStartTimerRunning := 0\<rparr>)
                    (log_dev (TimerCancel (EnqueueStartForPSKTimer w)) a)
                else a);
          a2 = log_dev (TimerRelease (EnqueueStartForPSKTimer w)) a1;
          a3 = upd_entry w (\<lambda>m. m\<lparr>Addr := replicate MAC_ADDR_LEN 0, EntryType := ENTRY_NONE\<rparr>) a2
      in a3\<lparr>Size := Size a3 - 1\<rparr>)"

definition MacTableDeleteEntry :: "RTMP_ADAPTER \<Rightarrow> nat \<Rightarrow> mac_addr \<Rightarrow> (bool \<times> RTMP_ADAPTER) option" where
  "MacTableDeleteEntry a wcid addr =
     (if wcid \<ge> MAX_LEN_OF_MAC_TABLE then Some (False, a)
      else
        let m = Content a ! wcid;
            r = (if entry_none m then Some a
                 else
                   let a1 = log_dev (TimerCancel (EnqueueStartForPSKTimer wcid)) (log_dev (TimerCancel (RetryTimer wcid)) a) in
                   if Addr m = addr then
                     let a2 = BASessionTearDownALL (log_dev (AsicResetEntry wcid) a1) (ucast (Aid m)) in
                     map_option (\<lambda>a3. clear_entry a3 wcid) (hash_unlink a2 (MAC_ADDR_HASH_INDEX addr) wcid)
                   else Some a1)
        in map_option (\<lambda>b. (True, if Size b = 0 then log_dev AsicUpdateProtect b else b)) r)"

fun reset_loop :: "RTMP_ADAPTER \<Rightarrow> nat list \<Rightarrow> RTMP_ADAPTER option" where
  "reset_loop a [] = Some a"
| "reset_loop a (i # is) =
     (let a1 = (if EntryType (Content a ! i) = ENTRY_CLIENT then
                  upd_entry i (\<lambda>m. m\<lparr>EnqueueEapolStartTimerRunning := 0\<rparr>)
                    (log_dev (TimerRelease (EnqueueStartForPSKTimer i)) a)
                else a)
      in case MacTableDeleteEntry a1 i (Addr (Content a1 ! i)) of
           None \<Rightarrow> None
         | Some (_, a2) \<Rightarrow> reset_loop a2 is)"

definition MacTableReset :: "RTMP_ADAPTER \<Rightarrow> RTMP_ADAPTER option" where
  "MacTableReset a = reset_loop a [1..<MAX_LEN_OF_MAC_TABLE]"

section \<open>Chains\<close>

fun chain :: "MAC_TABLE_ENTRY list \<Rightarrow> nat option \<Rightarrow> nat list \<Rightarrow> bool" where
  "chain ct p [] \<longleftrightarrow> p = None"
| "chain ct p (i # is) \<longleftrightarrow> p = Some i \<and> i < length ct \<and> chain ct (pNext (ct ! i)) is"

lemma chain_cong:
  "length ct' = length ct \<Longrightarrow> \<forall>i \<in> set xs. pNext (ct' ! i) = pNext (ct ! i) \<Longrightarrow> chain ct' p xs = chain ct p xs"
  by (induction xs arbitrary: p) auto

lemma chain_upd: "l \<notin> set xs \<Longrightarrow> chain (ct[l := m]) p xs = chain ct p xs"
proof (rule chain_cong)
  assume l: "l \<notin> set xs"
  show "\<forall>i \<in> set xs. pNext (ct[l := m] ! i) = pNext (ct ! i)"
  proof
    fix i assume "i \<in> set xs"
    with l have "l \<noteq> i" by auto
    then show "pNext (ct[l := m] ! i) = pNext (ct ! i)" by simp
  qed
qed simp

lemma chain_lookup:
  "chain ct p xs \<Longrightarrow> \<forall>i \<in> set xs. \<not> entry_none (ct ! i) \<Longrightarrow>
     lookup_loop ct addr p = Some (List.find (\<lambda>i. Addr (ct ! i) = addr) xs)"
proof (induction xs arbitrary: p)
  case Nil
  then show ?case by (subst lookup_loop.simps) simp
next
  case (Cons i xs)
  then show ?case by (subst lookup_loop.simps) auto
qed

lemma chain_last: "chain ct (Some i) (i # xs) \<Longrightarrow> last_loop ct i = Some (last (i # xs))"
proof (induction xs arbitrary: i)
  case Nil
  then show ?case by (subst last_loop.simps) simp
next
  case (Cons j xs)
  then show ?case by (subst last_loop.simps) simp
qed

lemma chain_snoc:
  "chain ct p xs \<Longrightarrow> xs \<noteq> [] \<Longrightarrow> distinct xs \<Longrightarrow> n \<notin> set xs \<Longrightarrow> n < length ct \<Longrightarrow> pNext (ct ! n) = None \<Longrightarrow>
     chain (ct[last xs := (ct ! last xs)\<lparr>pNext := Some n\<rparr>]) p (xs @ [n])"
proof (induction xs arbitrary: p)
  case (Cons i xs)
  let ?ct = "ct[last (i # xs) := (ct ! last (i # xs))\<lparr>pNext := Some n\<rparr>]"
  show ?case
  proof (cases "xs = []")
    case False
    then have "last (i # xs) \<noteq> i" using Cons.prems(3) by (auto simp: last_in_set)
    with Cons False show ?thesis by auto
  qed (use Cons.prems in auto)
qed simp

lemma chain_unlink:
  assumes "chain (Content a) (Some p) xs" and "distinct xs" and "t \<in> set xs"
  shows "\<exists>us vs. xs = us @ t # vs \<and>
    unlink_loop h t prev p a = Some (case (if us = [] then prev else Some (last us)) of
        None \<Rightarrow> a\<lparr>Hash := (Hash a)[h := pNext (Content a ! t)]\<rparr>
      | Some l \<Rightarrow> upd_entry l (\<lambda>m. m\<lparr>pNext := pNext (Content a ! t)\<rparr>) a)"
  using assms
proof (induction xs arbitrary: p prev)
  case (Cons i xs)
  then have [simp]: "i = p" by simp
  show ?case
  proof (cases "p = t")
    case True
    then show ?thesis by (intro exI [of _ "[]"] exI [of _ xs]) (subst unlink_loop.simps, simp)
  next
    case False
    then have t: "t \<in> set xs" using Cons.prems(3) by simp
    then obtain q ys where xs: "xs = q # ys" by (cases xs) auto
    then have q: "pNext (Content a ! p) = Some q" "chain (Content a) (Some q) xs" using Cons.prems(1) by auto
    obtain us vs where IH: "xs = us @ t # vs"
      "unlink_loop h t (Some p) q a = Some (case (if us = [] then Some p else Some (last us)) of
          None \<Rightarrow> a\<lparr>Hash := (Hash a)[h := pNext (Content a ! t)]\<rparr>
        | Some l \<Rightarrow> upd_entry l (\<lambda>m. m\<lparr>pNext := pNext (Content a ! t)\<rparr>) a)"
      using Cons.IH [OF q(2) _ t, of "Some p"] Cons.prems(2) by auto
    show ?thesis
      using IH False q(1)
      by (intro exI [of _ "p # us"] exI [of _ vs]) (subst unlink_loop.simps, simp split: if_splits)
  qed
qed simp

lemma chain_split: "chain ct p (us @ t # vs) \<Longrightarrow> chain ct (pNext (ct ! t)) vs \<and> t < length ct"
  by (induction us arbitrary: p) auto

lemma chain_remove:
  "chain ct p (us @ t # vs) \<Longrightarrow> us \<noteq> [] \<Longrightarrow> distinct (us @ t # vs) \<Longrightarrow>
     chain (ct[last us := (ct ! last us)\<lparr>pNext := pNext (ct ! t)\<rparr>]) p (us @ vs)"
proof (induction us arbitrary: p)
  case (Cons i us)
  let ?ct = "ct[last (i # us) := (ct ! last (i # us))\<lparr>pNext := pNext (ct ! t)\<rparr>]"
  show ?case
  proof (cases "us = []")
    case True
    have "chain ?ct (pNext (ct ! t)) vs = chain ct (pNext (ct ! t)) vs"
      using Cons.prems True by (intro chain_upd) auto
    moreover have "p = Some i" "i < length ct" "chain ct (pNext (ct ! t)) vs" using Cons.prems(1) True by auto
    ultimately show ?thesis using True by simp
  next
    case False
    then have "last (i # us) \<noteq> i" using Cons.prems(3) by (auto simp: last_in_set)
    with Cons False show ?thesis by auto
  qed
qed simp


section \<open>The table and its buckets\<close>

definition used_entries :: "RTMP_ADAPTER \<Rightarrow> nat set" where
  "used_entries a = {i. 0 < i \<and> i < 32 \<and> \<not> entry_none (Content a ! i)}"

abbreviation hash_of :: "RTMP_ADAPTER \<Rightarrow> nat \<Rightarrow> nat" where
  "hash_of a i \<equiv> MAC_ADDR_HASH_INDEX (Addr (Content a ! i))"

definition mac_rep :: "RTMP_ADAPTER \<Rightarrow> (nat \<Rightarrow> nat list) \<Rightarrow> bool" where
  "mac_rep a bk \<longleftrightarrow>
     length (Hash a) = 256 \<and> length (Content a) = 32 \<and> entry_none (Content a ! 0) \<and>
     (\<forall>h < 256. chain (Content a) (Hash a ! h) (bk h) \<and> distinct (bk h) \<and>
                set (bk h) = {i \<in> used_entries a. hash_of a i = h}) \<and>
     Size a = of_nat (card (used_entries a))"

lemma hash_bound: "MAC_ADDR_HASH_INDEX addr < 256"
proof -
  have "unat (w :: UINT8) < 256" for w using unsigned_less [of w, where 'a = nat] by simp
  then show ?thesis unfolding MAC_ADDR_HASH_INDEX_def .
qed

lemma used_finite [simp]: "finite (used_entries a)"
  by (rule finite_subset [of _ "{..<32}"]) (auto simp: used_entries_def)

lemma used_card: "card (used_entries a) \<le> 31"
proof -
  have "used_entries a \<subseteq> {1..<32}" by (auto simp: used_entries_def)
  then show ?thesis using card_mono [of "{1..<32::nat}" "used_entries a"] by simp
qed

lemma mac_repD:
  assumes "mac_rep a bk" and "h < 256"
  shows "chain (Content a) (Hash a ! h) (bk h)" "distinct (bk h)" "set (bk h) = {i \<in> used_entries a. hash_of a i = h}"
  using assms by (simp_all add: mac_rep_def)

lemma lookup_bucket:
  assumes "mac_rep a bk"
  shows "MacTableLookup a addr =
    Some (List.find (\<lambda>i. Addr (Content a ! i) = addr) (bk (MAC_ADDR_HASH_INDEX addr)))"
  unfolding MacTableLookup_def
  using mac_repD [OF assms hash_bound, of addr] by (intro chain_lookup) (auto simp: used_entries_def)

lemma Size_unat: "mac_rep a bk \<Longrightarrow> unat (Size a) = card (used_entries a)"
  using used_card [of a] by (simp add: mac_rep_def unsigned_of_nat take_bit_nat_eq_self)

text \<open>Inserting: the new entry goes to the end of its bucket.\<close>

lemma fill_entry_fields:
  "Content (fill_entry cfg a i addr idx op) = (Content a)[i := new_entry cfg i addr idx op]"
  "Hash (fill_entry cfg a i addr idx op) = Hash a" "Size (fill_entry cfg a i addr idx op) = Size a + 1"
  "BARecEntry (fill_entry cfg a i addr idx op) = BARecEntry a" "BAOriEntry (fill_entry cfg a i addr idx op) = BAOriEntry a"
  "numAsRecipient (fill_entry cfg a i addr idx op) = numAsRecipient a"
  "numAsOriginator (fill_entry cfg a i addr idx op) = numAsOriginator a"
  "numDoneOriginator (fill_entry cfg a i addr idx op) = numDoneOriginator a" "rx (fill_entry cfg a i addr idx op) = rx a"
  "mem (fill_entry cfg a i addr idx op) = mem a" "oob (fill_entry cfg a i addr idx op) = oob a"
  by (simp_all add: fill_entry_def Let_def)

lemma new_entry_fields [simp]:
  "EntryType (new_entry cfg i addr idx op) = ENTRY_CLIENT" "Addr (new_entry cfg i addr idx op) = addr"
  "pNext (new_entry cfg i addr idx op) = None" "Aid (new_entry cfg i addr idx op) = of_nat i"
  "HtSta (new_entry cfg i addr idx op) = False" "RXBAbitmap (new_entry cfg i addr idx op) = 0"
  "TXBAbitmap (new_entry cfg i addr idx op) = 0" "BARecWcidArray (new_entry cfg i addr idx op) = replicate 8 0"
  "BAOriWcidArray (new_entry cfg i addr idx op) = replicate 8 0" "TxSeq (new_entry cfg i addr idx op) = replicate 8 0"
  by (simp_all add: new_entry_def Let_def zero_entry_def NUM_OF_TID_def)

lemma ENTRY_CLIENT_not_none [simp]: "ENTRY_CLIENT \<noteq> ENTRY_NONE"
  by (simp add: ENTRY_CLIENT_def ENTRY_NONE_def)

lemma new_entry_not_none [simp]: "\<not> entry_none (new_entry cfg i addr idx op)"
  by (simp add: entry_none_def)

text \<open>
  \<open>relink a b\<close>: same table up to the hash chains (the heads and the \<^verbatim>\<open>pNext\<close> fields).
\<close>

definition relink :: "RTMP_ADAPTER \<Rightarrow> RTMP_ADAPTER \<Rightarrow> bool" where
  "relink a b \<longleftrightarrow> (\<exists>hs ct. b = a\<lparr>Hash := hs, Content := ct\<rparr> \<and> length hs = length (Hash a) \<and>
     length ct = length (Content a) \<and> (\<forall>i < length ct. \<exists>p. ct ! i = (Content a ! i)\<lparr>pNext := p\<rparr>))"

lemma relink_hash: "relink a (a\<lparr>Hash := (Hash a)[h := p]\<rparr>)"
  unfolding relink_def
proof (intro exI conjI)
  show "a\<lparr>Hash := (Hash a)[h := p]\<rparr> = a\<lparr>Hash := (Hash a)[h := p], Content := Content a\<rparr>" by simp
  show "\<forall>i < length (Content a). \<exists>p. Content a ! i = (Content a ! i)\<lparr>pNext := p\<rparr>"
  proof (intro allI impI)
    fix i show "\<exists>p. Content a ! i = (Content a ! i)\<lparr>pNext := p\<rparr>" by (intro exI [of _ "pNext (Content a ! i)"]) simp
  qed
qed simp_all

lemma relink_next: "relink a (upd_entry l (\<lambda>m. m\<lparr>pNext := p\<rparr>) a)"
  unfolding relink_def
proof (intro exI conjI)
  show "upd_entry l (\<lambda>m. m\<lparr>pNext := p\<rparr>) a =
      a\<lparr>Hash := Hash a, Content := (Content a)[l := (Content a ! l)\<lparr>pNext := p\<rparr>]\<rparr>" by (simp add: upd_entry_def)
  show "\<forall>i < length ((Content a)[l := (Content a ! l)\<lparr>pNext := p\<rparr>]).
      \<exists>p'. (Content a)[l := (Content a ! l)\<lparr>pNext := p\<rparr>] ! i = (Content a ! i)\<lparr>pNext := p'\<rparr>"
  proof (intro allI impI)
    fix i assume "i < length ((Content a)[l := (Content a ! l)\<lparr>pNext := p\<rparr>])"
    then show "\<exists>p'. (Content a)[l := (Content a ! l)\<lparr>pNext := p\<rparr>] ! i = (Content a ! i)\<lparr>pNext := p'\<rparr>"
      by (cases "i = l") (auto intro: exI [of _ "pNext (Content a ! i)"])
  qed
qed simp_all

lemma relink_entry:
  assumes "relink a b" and "i < length (Content a)"
  shows "EntryType (Content b ! i) = EntryType (Content a ! i)" "Addr (Content b ! i) = Addr (Content a ! i)"
    "Aid (Content b ! i) = Aid (Content a ! i)" "HtSta (Content b ! i) = HtSta (Content a ! i)"
    "BARecWcidArray (Content b ! i) = BARecWcidArray (Content a ! i)" "BAOriWcidArray (Content b ! i) = BAOriWcidArray (Content a ! i)"
    "RXBAbitmap (Content b ! i) = RXBAbitmap (Content a ! i)" "TXBAbitmap (Content b ! i) = TXBAbitmap (Content a ! i)"
    "TxSeq (Content b ! i) = TxSeq (Content a ! i)"
proof -
  obtain p where "Content b ! i = (Content a ! i)\<lparr>pNext := p\<rparr>" using assms unfolding relink_def by auto
  then show "EntryType (Content b ! i) = EntryType (Content a ! i)" "Addr (Content b ! i) = Addr (Content a ! i)"
    "Aid (Content b ! i) = Aid (Content a ! i)" "HtSta (Content b ! i) = HtSta (Content a ! i)"
    "BARecWcidArray (Content b ! i) = BARecWcidArray (Content a ! i)" "BAOriWcidArray (Content b ! i) = BAOriWcidArray (Content a ! i)"
    "RXBAbitmap (Content b ! i) = RXBAbitmap (Content a ! i)" "TXBAbitmap (Content b ! i) = TXBAbitmap (Content a ! i)"
    "TxSeq (Content b ! i) = TxSeq (Content a ! i)" by simp_all
qed

lemma insert_rep:
  fixes addr :: mac_addr and cfg :: ba_config and idx :: UINT8 and op :: bool
  assumes rep: "mac_rep a bk" and i: "0 < i" "i < 32" "entry_none (Content a ! i)"
  defines "h \<equiv> MAC_ADDR_HASH_INDEX addr" and "b \<equiv> fill_entry cfg a i addr idx op"
  shows "\<exists>a'. hash_append b h i = Some a' \<and> relink b a' \<and> mac_rep a' (bk(h := bk h @ [i])) \<and>
              used_entries a' = insert i (used_entries a)"
proof -
  have L: "length (Hash a) = 256" "length (Content a) = 32" using rep by (simp_all add: mac_rep_def)
  have h: "h < 256" by (simp add: h_def hash_bound)
  note F = fill_entry_fields [of cfg a i addr idx op, folded b_def]
  note B = mac_repD [OF rep]
  have iu: "i \<notin> used_entries a" using i by (simp add: used_entries_def)
  have ub: "used_entries b = insert i (used_entries a)"
    using i L by (auto simp: used_entries_def F nth_list_update)
  have ob: "Addr (Content b ! j) = Addr (Content a ! j)" "pNext (Content b ! j) = pNext (Content a ! j)" if "j \<noteq> i" for j
    using that by (simp_all add: F)
  have cb: "chain (Content b) (Hash b ! k) (bk k)" if "k < 256" for k
  proof -
    have "i \<notin> set (bk k)" using B(3) [OF that] iu by auto
    with B(1) [OF that] show ?thesis by (simp add: F chain_upd)
  qed
  have iB: "pNext (Content b ! i) = None" "Addr (Content b ! i) = addr" "i < length (Content b)"
    using i L by (simp_all add: F)
  have nin: "i \<notin> set (bk k)" if "k < 256" for k using B(3) [OF that] iu by auto
  define a' where "a' = (if bk h = [] then b\<lparr>Hash := (Hash b)[h := Some i]\<rparr>
                         else upd_entry (last (bk h)) (\<lambda>m. m\<lparr>pNext := Some i\<rparr>) b)"
  have app: "hash_append b h i = Some a'"
  proof (cases "bk h")
    case Nil
    then show ?thesis using cb [OF h] by (simp add: hash_append_def a'_def)
  next
    case (Cons p xs)
    then have "Hash b ! h = Some p" "last_loop (Content b) p = Some (last (bk h))"
      using cb [OF h] chain_last [of "Content b" p xs] by auto
    with Cons show ?thesis by (simp add: hash_append_def a'_def)
  qed
  have rl: "relink b a'" by (auto simp: a'_def relink_hash relink_next)
  have lb: "length (Content b) = 32" "length (Hash b) = 256" using L by (simp_all add: F)
  have e: "entry_none (Content a' ! j) = entry_none (Content b ! j)" "Addr (Content a' ! j) = Addr (Content b ! j)"
    if "j < 32" for j using relink_entry [OF rl, of j] that lb by (simp_all add: entry_none_def)
  have ua: "used_entries a' = insert i (used_entries a)"
    unfolding ub [symmetric] using e by (auto simp: used_entries_def)
  have "chain (Content a') (Hash a' ! h) (bk h @ [i])"
    using cb [OF h] B(2) [OF h] nin [OF h] iB h L chain_snoc [of "Content b" "Hash b ! h" "bk h" i]
    by (auto simp: a'_def F)
  moreover have "chain (Content a') (Hash a' ! k) (bk k)" if k: "k < 256" "k \<noteq> h" for k
  proof (cases "bk h = []")
    case True
    then show ?thesis using cb [OF k(1)] k by (simp add: a'_def)
  next
    case False
    then have "last (bk h) \<notin> set (bk k)" using B(3) [OF h] B(3) [OF k(1)] k(2) last_in_set by fastforce
    then have "chain (Content a') (Hash b ! k) (bk k) = chain (Content b) (Hash b ! k) (bk k)"
      using False by (simp add: a'_def chain_upd)
    then show ?thesis using cb [OF k(1)] False by (simp add: a'_def)
  qed
  moreover have "set ((bk(h := bk h @ [i])) k) = {j \<in> used_entries a'. hash_of a' j = k}" if k: "k < 256" for k
  proof -
    have "hash_of a' j = (if j = i then h else hash_of a j)" if "j \<in> used_entries a'" for j
      using that e iB by (auto simp: used_entries_def ob h_def)
    then show ?thesis using B(3) [OF k] iu ua by auto
  qed
  moreover have "Size a' = of_nat (card (used_entries a'))"
  proof -
    have "Size a' = Size a + 1" by (simp add: a'_def F)
    then show ?thesis using rep iu unfolding ua by (simp add: mac_rep_def)
  qed
  moreover have "length (Content a') = 32" "length (Hash a') = 256" using lb by (auto simp: a'_def)
  moreover have "entry_none (Content a' ! 0)" using e [of 0] rep i by (simp add: F mac_rep_def)
  ultimately have "mac_rep a' (bk(h := bk h @ [i]))"
    using B(2) nin h by (auto simp: mac_rep_def)
  with app rl ua show ?thesis by blast
qed

text \<open>Deleting: tear-down keeps the table's part of the state, then the entry leaves its bucket.\<close>

definition mac_part :: "MAC_TABLE_ENTRY \<Rightarrow> UINT32 \<times> mac_addr \<times> nat option \<times> UINT16 \<times> bool" where
  "mac_part m = (EntryType m, Addr m, pNext m, Aid m, HtSta m)"

definition same_mac :: "RTMP_ADAPTER \<Rightarrow> RTMP_ADAPTER \<Rightarrow> bool" where
  "same_mac a b \<longleftrightarrow> Hash b = Hash a \<and> Size b = Size a \<and> length (Content b) = length (Content a) \<and>
     (\<forall>i. mac_part (Content b ! i) = mac_part (Content a ! i))"

lemma same_mac_refl [simp]: "same_mac a a"
  by (simp add: same_mac_def)

lemma same_mac_trans: "same_mac a b \<Longrightarrow> same_mac b c \<Longrightarrow> same_mac a c"
  by (simp add: same_mac_def)

lemma same_mac_upd [simp]:
  "same_mac a (log_dev ev b) = same_mac a b" "same_mac a (out_of_bounds b) = same_mac a b"
  "same_mac a (upd_rec i g b) = same_mac a b" "same_mac a (upd_ori i k b) = same_mac a b"
  "same_mac a (on_session i s b) = same_mac a b" "same_mac a (b\<lparr>mem := x\<rparr>) = same_mac a b"
  "same_mac a (b\<lparr>numAsRecipient := n\<rparr>) = same_mac a b" "same_mac a (b\<lparr>numAsOriginator := n\<rparr>) = same_mac a b"
  "same_mac a (b\<lparr>numDoneOriginator := n\<rparr>) = same_mac a b"
  by (simp_all add: same_mac_def out_of_bounds_def)

lemma same_mac_entry:
  assumes "same_mac a b" and "\<And>m. mac_part (f m) = mac_part m"
  shows "same_mac a (upd_entry w f b)"
proof -
  have "mac_part ((Content b)[w := f (Content b ! w)] ! i) = mac_part (Content b ! i)" for i
    using assms(2) by (cases "w < length (Content b)"; cases "i = w") (simp_all add: list_update_beyond)
  then show ?thesis using assms(1) by (simp add: same_mac_def)
qed

lemma same_mac_io: "only_io a b \<Longrightarrow> same_mac a b"
  by (auto simp: only_io_def same_mac_def)

lemma FreeOri_mac: "same_mac a b \<Longrightarrow> same_mac a (BATableFreeOriEntry b i)"
  by (auto simp: BATableFreeOriEntry_def Let_def mac_part_def intro!: same_mac_entry)

lemma FreeRec_mac: "same_mac a b \<Longrightarrow> same_mac a (BATableFreeRecEntry b i)"
  by (auto simp: BATableFreeRecEntry_def Let_def mac_part_def intro!: same_mac_entry)

lemma send_delba_mac:
  assumes "unat T < 8" shows "same_mac a (snd (send_delba a W T I))"
  by (rule same_mac_io [OF send_delba_io [OF assms]])

lemma OriTearDown_mac:
  assumes "unat T < 8" shows "same_mac a (BAOriSessionTearDown a W T p s)"
proof -
  have sd: "same_mac a a1" if "send_delba a W T True = (ok, a1)" for ok a1
    using send_delba_mac [OF assms, of a W True] that by simp
  show ?thesis
    using sd by (auto simp: BAOriSessionTearDown_def Let_def split: prod.splits if_splits intro!: FreeOri_mac)
qed

lemma RecTearDown_mac:
  assumes "unat T < 8" shows "same_mac a (BARecSessionTearDown a W T p)"
proof -
  have sd: "same_mac a a1" if "send_delba (log_dev ev a) W T False = (ok, a1)" for ok a1 ev
    using same_mac_trans [OF _ send_delba_mac [OF assms, of "log_dev ev a" W False], of a] that by simp
  show ?thesis
    using sd by (auto simp: BARecSessionTearDown_def Let_def mac_part_def split: prod.splits if_splits
        intro!: FreeRec_mac same_mac_entry)
qed

lemma teardown_tids_mac: "\<forall>t \<in> set ts. t < 8 \<Longrightarrow> same_mac a (teardown_tids a W ts)"
proof (induction ts arbitrary: a)
  case (Cons t ts)
  then have t: "unat (of_nat t :: UINT8) < 8" by (simp add: unat_tid)
  have "same_mac a (BARecSessionTearDown (BAOriSessionTearDown a W (of_nat t) False False) W (of_nat t) False)"
    using OriTearDown_mac [OF t] RecTearDown_mac [OF t] same_mac_trans by blast
  then show ?case using Cons same_mac_trans by simp
qed simp

lemma TearDownALL_mac: "same_mac a (BASessionTearDownALL a W)"
  by (simp add: BASessionTearDownALL_def teardown_tids_mac size_defs)

lemma same_macD:
  assumes "same_mac a b"
  shows "Hash b = Hash a" "Size b = Size a" "length (Content b) = length (Content a)"
    "EntryType (Content b ! i) = EntryType (Content a ! i)" "Addr (Content b ! i) = Addr (Content a ! i)"
    "pNext (Content b ! i) = pNext (Content a ! i)" "Aid (Content b ! i) = Aid (Content a ! i)"
    "HtSta (Content b ! i) = HtSta (Content a ! i)"
proof -
  have "mac_part (Content b ! i) = mac_part (Content a ! i)" using assms by (simp add: same_mac_def)
  then show "EntryType (Content b ! i) = EntryType (Content a ! i)" "Addr (Content b ! i) = Addr (Content a ! i)"
    "pNext (Content b ! i) = pNext (Content a ! i)" "Aid (Content b ! i) = Aid (Content a ! i)"
    "HtSta (Content b ! i) = HtSta (Content a ! i)" by (simp_all add: mac_part_def)
qed (use assms in \<open>simp_all add: same_mac_def\<close>)

lemma same_mac_used:
  assumes "same_mac a b"
  shows "used_entries b = used_entries a"
  by (simp only: used_entries_def entry_none_def same_macD [OF assms])

lemma same_mac_rep:
  assumes "same_mac a b"
  shows "mac_rep b bk = mac_rep a bk"
proof -
  have "chain (Content b) p xs = chain (Content a) p xs" for p xs
    using same_macD [OF assms] by (intro chain_cong) simp_all
  then show ?thesis
    by (simp only: mac_rep_def same_mac_used [OF assms] entry_none_def same_macD [OF assms])
qed

lemma clear_entry_fields:
  defines "stop m \<equiv> if EnqueueEapolStartTimerRunning m \<noteq> 0 then m\<lparr>EnqueueEapolStartTimerRunning := 0\<rparr> else m"
  shows "Content (clear_entry a w) = (Content a)[w := (stop (Content a ! w))\<lparr>Addr := replicate 6 0, EntryType := ENTRY_NONE\<rparr>]"
  "Hash (clear_entry a w) = Hash a" "Size (clear_entry a w) = Size a - 1"
  "BARecEntry (clear_entry a w) = BARecEntry a" "BAOriEntry (clear_entry a w) = BAOriEntry a"
  "numAsRecipient (clear_entry a w) = numAsRecipient a" "numAsOriginator (clear_entry a w) = numAsOriginator a"
  "numDoneOriginator (clear_entry a w) = numDoneOriginator a" "rx (clear_entry a w) = rx a"
  "mem (clear_entry a w) = mem a" "oob (clear_entry a w) = oob a"
proof -
  show "Content (clear_entry a w) = (Content a)[w := (stop (Content a ! w))\<lparr>Addr := replicate 6 0, EntryType := ENTRY_NONE\<rparr>]"
    by (cases "w < length (Content a)") (simp_all add: clear_entry_def Let_def MAC_ADDR_LEN_def stop_def list_update_beyond)
qed (simp_all add: clear_entry_def Let_def)

lemma delete_rep:
  assumes rep: "mac_rep a bk" and t: "t \<in> used_entries a" and h: "hash_of a t = h"
  shows "\<exists>a1 bk'. hash_unlink a h t = Some a1 \<and> relink a a1 \<and> mac_rep (clear_entry a1 t) bk' \<and>
           used_entries (clear_entry a1 t) = used_entries a - {t} \<and>
           (\<forall>k < 256. bk' k = filter (\<lambda>i. i \<noteq> t) (bk k))"
proof -
  have L: "length (Hash a) = 256" "length (Content a) = 32" using rep by (simp_all add: mac_rep_def)
  have h256: "h < 256" using h hash_bound by blast
  note B = mac_repD [OF rep]
  have tb: "t \<in> set (bk h)" "t < 32" "0 < t" using B(3) [OF h256] t h by (auto simp: used_entries_def)
  then obtain p where p: "Hash a ! h = Some p" using B(1) [OF h256] by (cases "bk h") auto
  obtain us vs where uv: "bk h = us @ t # vs"
    and ul: "unlink_loop h t None p a = Some (case (if us = [] then None else Some (last us)) of
        None \<Rightarrow> a\<lparr>Hash := (Hash a)[h := pNext (Content a ! t)]\<rparr>
      | Some l \<Rightarrow> upd_entry l (\<lambda>m. m\<lparr>pNext := pNext (Content a ! t)\<rparr>) a)"
    using chain_unlink [OF _ B(2) [OF h256] tb(1)] B(1) [OF h256] p by metis
  define a1 where "a1 = (if us = [] then a\<lparr>Hash := (Hash a)[h := pNext (Content a ! t)]\<rparr>
      else upd_entry (last us) (\<lambda>m. m\<lparr>pNext := pNext (Content a ! t)\<rparr>) a)"
  have un: "hash_unlink a h t = Some a1" using ul by (auto simp: hash_unlink_def p a1_def split: if_splits)
  have rl: "relink a a1" by (auto simp: a1_def relink_hash relink_next)
  have e: "EntryType (Content a1 ! j) = EntryType (Content a ! j)" "Addr (Content a1 ! j) = Addr (Content a ! j)"
    if "j < 32" for j using relink_entry [OF rl, of j] that L by simp_all
  let ?b = "clear_entry a1 t" and ?bk = "\<lambda>k. filter (\<lambda>i. i \<noteq> t) (bk k)"
  note F = clear_entry_fields [of a1 t]
  have d: "distinct (us @ t # vs)" using B(2) [OF h256] uv by simp
  have "filter (\<lambda>i. i \<noteq> t) us = us" "filter (\<lambda>i. i \<noteq> t) vs = vs" using d by (auto intro!: filter_True)
  then have bkh: "?bk h = us @ vs" by (simp add: uv)
  have bko: "?bk k = bk k" "t \<notin> set (bk k)" if "k < 256" "k \<noteq> h" for k
    using B(3) [OF that(1)] h that(2) by (auto simp: filter_id_conv)
  have l1: "length (Content a1) = 32" "length (Hash a1) = 256" using L by (auto simp: a1_def)
  have ub: "used_entries ?b = used_entries a - {t}"
    using e l1 tb by (auto simp: used_entries_def F nth_list_update entry_none_def)
  have "chain (Content ?b) (Hash ?b ! h) (us @ vs)"
  proof -
    have "chain (Content a1) (Hash a1 ! h) (us @ vs)"
    proof (cases "us = []")
      case True
      then show ?thesis using chain_split [of "Content a" _ "[]" t vs] B(1) [OF h256] uv h256 L
        by (simp add: a1_def)
    next
      case False
      then show ?thesis using chain_remove [OF _ False d] B(1) [OF h256] uv by (simp add: a1_def)
    qed
    then show ?thesis using d by (simp add: F chain_upd)
  qed
  moreover have "chain (Content ?b) (Hash ?b ! k) (bk k)" if k: "k < 256" "k \<noteq> h" for k
  proof -
    have "us \<noteq> [] \<Longrightarrow> last us \<notin> set (bk k)"
      using B(3) [OF h256] B(3) [OF k(1)] k(2) uv last_in_set [of us] by fastforce
    then have "chain (Content a1) (Hash a1 ! k) (bk k)"
      using B(1) [OF k(1)] k by (auto simp: a1_def chain_upd)
    then show ?thesis using bko(2) [OF k] by (simp add: F chain_upd)
  qed
  ultimately have ch: "chain (Content ?b) (Hash ?b ! k) (?bk k)" if "k < 256" for k
    using that bkh bko by (cases "k = h") auto
  have st: "set (?bk k) = {i \<in> used_entries ?b. hash_of ?b i = k}" if k: "k < 256" for k
  proof -
    have "hash_of ?b j = hash_of a j" if "j \<in> used_entries ?b" for j
      using that e unfolding ub by (simp add: F used_entries_def)
    then show ?thesis using B(3) [OF k] ub by auto
  qed
  have "Suc (card (used_entries ?b)) = card (used_entries a)"
    using card_Suc_Diff1 [OF used_finite t] by (simp only: ub)
  moreover have "Size a1 = Size a" by (simp add: a1_def)
  then have "Size ?b = Size a - 1" by (simp add: F)
  ultimately have sz: "Size ?b = of_nat (card (used_entries ?b))"
    using rep by (simp add: mac_rep_def flip: of_nat_Suc) (metis add_diff_cancel_left' of_nat_Suc)
  have "entry_none (Content ?b ! 0)" using rep e [of 0] tb by (simp add: F mac_rep_def entry_none_def)
  then have "mac_rep ?b ?bk"
    using ch st sz B(2) l1 by (simp add: mac_rep_def F)
  with un rl ub show ?thesis by blast
qed

section \<open>The table together with the block-ack sessions\<close>

text \<open>An entry that is not in use has no sessions.\<close>

definition idle_clean :: "RTMP_ADAPTER \<Rightarrow> bool" where
  "idle_clean a \<longleftrightarrow>
     (\<forall>w < 32. entry_none (Content a ! w) \<longrightarrow> (\<forall>t < 8. rec_arr a (w, t) = 0 \<and> ori_arr a (w, t) = 0))"

definition adapter_inv :: "RTMP_ADAPTER \<Rightarrow> (nat \<Rightarrow> nat list) \<Rightarrow> bool" where
  "adapter_inv a bk \<longleftrightarrow> mac_rep a bk \<and> ba_inv a \<and> idle_clean a \<and> \<not> oob a"

lemma linked_cong:
  assumes "\<And>w t. w < 32 \<Longrightarrow> t < 8 \<Longrightarrow> arr' (w, t) = arr (w, t)" and "linked arr used own"
  shows "linked arr' used own"
proof -
  have "arr' (own i) = arr (own i)" if "fst (own i) < 32" "snd (own i) < 8" for i
    using assms(1) [OF that] by simp
  then show ?thesis using assms unfolding linked_def by metis
qed

lemma ba_inv_content:
  assumes inv: "ba_inv a" and "shape b"
    and arr: "\<And>w t. w < 32 \<Longrightarrow> t < 8 \<Longrightarrow> rec_arr b (w, t) = rec_arr a (w, t) \<and> ori_arr b (w, t) = ori_arr a (w, t) \<and>
       bit (RXBAbitmap (Content b ! w)) t = bit (RXBAbitmap (Content a ! w)) t \<and>
       bit (TXBAbitmap (Content b ! w)) t = bit (TXBAbitmap (Content a ! w)) t"
    and same: "BARecEntry b = BARecEntry a" "BAOriEntry b = BAOriEntry a" "numAsRecipient b = numAsRecipient a"
      "numAsOriginator b = numAsOriginator a" "numDoneOriginator b = numDoneOriginator a" "rx b = rx a"
  shows "ba_inv b"
proof -
  have u: "rec_used b = rec_used a" "rec_own b = rec_own a" "ori_used b = ori_used a" "ori_own b = ori_own a" "ori_done b = ori_done a"
    using same by (simp_all add: fun_eq_iff rec_used_def rec_own_def ori_used_def ori_own_def ori_done_def)
  have "linked (rec_arr b) (rec_used b) (rec_own b)" "linked (ori_arr b) (ori_used b) (ori_own b)"
    using inv arr unfolding u by (auto simp: ba_inv_def rec_inv_def ori_inv_def intro: linked_cong)
  then show ?thesis
    using inv assms(2) arr same u by (simp add: ba_inv_def rec_inv_def ori_inv_def buffers_ok_def)
qed

lemma fill_entry_inv:
  assumes inv: "ba_inv a" and i: "i < 32" and z: "\<forall>t < 8. rec_arr a (i, t) = 0 \<and> ori_arr a (i, t) = 0"
  shows "ba_inv (fill_entry cfg a i addr idx op)"
proof (rule ba_inv_content [OF inv])
  let ?b = "fill_entry cfg a i addr idx op"
  note F = fill_entry_fields [of cfg a i addr idx op] and S = shapeD [OF inv i]
  have "entry_shape i (new_entry cfg i addr idx op)" by (simp add: entry_shape_def size_defs)
  then show "shape ?b" using shape_set [of a ?b i] inv F by (simp add: ba_inv_def)
  fix w t :: nat assume wt: "w < 32" "t < 8"
  have b: "bit (RXBAbitmap (Content a ! i)) t = False" "bit (TXBAbitmap (Content a ! i)) t = False"
    using inv i wt z by (simp_all add: ba_inv_def rec_inv_def ori_inv_def)
  show "rec_arr ?b (w, t) = rec_arr a (w, t) \<and> ori_arr ?b (w, t) = ori_arr a (w, t) \<and>
       bit (RXBAbitmap (Content ?b ! w)) t = bit (RXBAbitmap (Content a ! w)) t \<and>
       bit (TXBAbitmap (Content ?b ! w)) t = bit (TXBAbitmap (Content a ! w)) t"
  proof (cases "w = i")
    case True
    then show ?thesis using S(1) wt z b by (auto simp: rec_arr_def ori_arr_def F)
  qed (simp add: rec_arr_def ori_arr_def F)
qed (simp_all add: fill_entry_fields)

lemma relink_fields:
  assumes "relink a b"
  shows "BARecEntry b = BARecEntry a" "BAOriEntry b = BAOriEntry a" "numAsRecipient b = numAsRecipient a"
    "numAsOriginator b = numAsOriginator a" "numDoneOriginator b = numDoneOriginator a" "rx b = rx a" "oob b = oob a"
    "mem b = mem a" "length (Content b) = length (Content a)" "Size b = Size a"
  using assms by (auto simp: relink_def)

lemma relink_arr:
  assumes "relink a b" and "length (Content a) = 32" and "w < 32"
  shows "rec_arr b (w, t) = rec_arr a (w, t)" "ori_arr b (w, t) = ori_arr a (w, t)"
  using relink_entry [OF assms(1)] assms(2,3) by (simp_all add: rec_arr_def ori_arr_def)

lemma relink_inv:
  assumes inv: "ba_inv a" and r: "relink a b"
  shows "ba_inv b"
proof (rule ba_inv_content [OF inv])
  have L: "length (Content a) = 32" using shapeD(1) [OF inv] inv by (simp add: ba_inv_def shape_def size_defs)
  note E = relink_entry [OF r] and F = relink_fields [OF r]
  have "entry_shape w (Content b ! w)" if "w < 32" for w
    using shape_entry [OF inv that] E [of w] L that by (simp add: entry_shape_def)
  then show "shape b" using inv F by (simp add: ba_inv_def shape_def size_defs)
  fix w t :: nat assume "w < 32" "t < 8"
  then show "rec_arr b (w, t) = rec_arr a (w, t) \<and> ori_arr b (w, t) = ori_arr a (w, t) \<and>
       bit (RXBAbitmap (Content b ! w)) t = bit (RXBAbitmap (Content a ! w)) t \<and>
       bit (TXBAbitmap (Content b ! w)) t = bit (TXBAbitmap (Content a ! w)) t"
    using relink_arr [OF r L] E L by simp
qed (simp_all add: relink_fields [OF r])

lemma clear_entry_inv:
  assumes inv: "ba_inv a" and w: "w < 32" and aid: "Aid (Content a ! w) = of_nat w"
  shows "ba_inv (clear_entry a w)"
proof (rule ba_inv_content [OF inv])
  note F = clear_entry_fields [of a w] and S = shapeD [OF inv w]
  show "shape (clear_entry a w)"
    using shape_set [of a "clear_entry a w" w] shape_entry [OF inv w] inv F aid by (simp add: ba_inv_def entry_shape_def)
  fix v t :: nat
  show "rec_arr (clear_entry a w) (v, t) = rec_arr a (v, t) \<and> ori_arr (clear_entry a w) (v, t) = ori_arr a (v, t) \<and>
       bit (RXBAbitmap (Content (clear_entry a w) ! v)) t = bit (RXBAbitmap (Content a ! v)) t \<and>
       bit (TXBAbitmap (Content (clear_entry a w) ! v)) t = bit (TXBAbitmap (Content a ! v)) t"
    using S(1) by (cases "v = w") (simp_all add: rec_arr_def ori_arr_def F)
qed (simp_all add: clear_entry_fields)

lemma clear_entry_arr:
  assumes "w < length (Content a)"
  shows "rec_arr (clear_entry a w) = rec_arr a" "ori_arr (clear_entry a w) = ori_arr a"
proof -
  have "BARecWcidArray (Content (clear_entry a w) ! v) = BARecWcidArray (Content a ! v)"
    "BAOriWcidArray (Content (clear_entry a w) ! v) = BAOriWcidArray (Content a ! v)" for v
    using assms by (cases "v = w"; simp add: clear_entry_fields)+
  then show "rec_arr (clear_entry a w) = rec_arr a" "ori_arr (clear_entry a w) = ori_arr a"
    by (simp_all add: rec_arr_def ori_arr_def)
qed

lemma lookup_result:
  assumes "mac_rep a bk"
  shows "\<exists>r. MacTableLookup a addr = Some r \<and>
           (case r of None \<Rightarrow> \<forall>i \<in> used_entries a. Addr (Content a ! i) \<noteq> addr
                    | Some i \<Rightarrow> i \<in> used_entries a \<and> Addr (Content a ! i) = addr)"
proof -
  let ?h = "MAC_ADDR_HASH_INDEX addr"
  have s: "set (bk ?h) = {i \<in> used_entries a. hash_of a i = ?h}" by (rule mac_repD(3) [OF assms hash_bound])
  show ?thesis
  proof (cases "List.find (\<lambda>i. Addr (Content a ! i) = addr) (bk ?h)")
    case None
    then have "\<forall>i \<in> set (bk ?h). Addr (Content a ! i) \<noteq> addr" by (auto simp: find_None_iff)
    then show ?thesis using s by (auto simp: lookup_bucket [OF assms] None)
  next
    case (Some i)
    then have "i \<in> set (bk ?h)" "Addr (Content a ! i) = addr" by (auto simp: find_Some_iff)
    then show ?thesis using s by (auto simp: lookup_bucket [OF assms] Some)
  qed
qed

lemma find_append: "List.find P (xs @ ys) = (case List.find P xs of None \<Rightarrow> List.find P ys | Some x \<Rightarrow> Some x)"
  by (induction xs) auto

lemma find_filter_neq:
  "\<not> P t \<Longrightarrow> List.find P (filter (\<lambda>i. i \<noteq> t) xs) = List.find P xs"
  by (induction xs) auto

lemma insert_vacant:
  assumes inv: "adapter_inv a bk" and i: "0 < i" "i < 32" "entry_none (Content a ! i)"
    and app: "hash_append (fill_entry cfg a i addr idx op) (MAC_ADDR_HASH_INDEX addr) i = Some a'"
  defines "h \<equiv> MAC_ADDR_HASH_INDEX addr"
  shows "used_entries a' = insert i (used_entries a)" and "Addr (Content a' ! i) = addr"
    and "adapter_inv a' (bk(h := bk h @ [i]))" and "mem a' = mem a"
    and "\<And>j. j \<in> used_entries a \<Longrightarrow> Addr (Content a' ! j) = Addr (Content a ! j)"
    and "MacTableLookup a' x = (if x = addr \<and> MacTableLookup a x = Some None then Some (Some i) else MacTableLookup a x)"
proof -
  let ?b = "fill_entry cfg a i addr idx op"
  note F = fill_entry_fields [of cfg a i addr idx op]
  have rep: "mac_rep a bk" and bi: "ba_inv a" and ic: "idle_clean a" and L: "length (Content a) = 32"
    using inv by (auto simp: adapter_inv_def mac_rep_def)
  obtain a1 where "hash_append ?b h i = Some a1" "relink ?b a1" "mac_rep a1 (bk(h := bk h @ [i]))"
      "used_entries a1 = insert i (used_entries a)"
    using insert_rep [OF rep i, of cfg addr idx op] by (auto simp: h_def)
  with app have rl: "relink ?b a'" and rep': "mac_rep a' (bk(h := bk h @ [i]))"
    and ua: "used_entries a' = insert i (used_entries a)" by (auto simp: h_def)
  have z: "\<forall>t < 8. rec_arr a (i, t) = 0 \<and> ori_arr a (i, t) = 0" using ic i by (simp add: idle_clean_def)
  have Lb: "length (Content ?b) = 32" using L by (simp add: F)
  have bi': "ba_inv a'" by (rule relink_inv [OF fill_entry_inv [OF bi i(2) z] rl])
  have ad: "Addr (Content a' ! j) = (if j = i then addr else Addr (Content a ! j))"
    "entry_none (Content a' ! j) = (j \<noteq> i \<and> entry_none (Content a ! j))" if "j < 32" for j
    using relink_entry(1,2) [OF rl, of j] that Lb L by (cases "j = i"; simp add: F entry_none_def)+
  have "idle_clean a'"
    unfolding idle_clean_def
  proof (intro allI impI)
    fix w t :: nat assume w: "w < 32" "entry_none (Content a' ! w)" "t < 8"
    then have "w \<noteq> i" "entry_none (Content a ! w)" using ad(2) by auto
    then show "rec_arr a' (w, t) = 0 \<and> ori_arr a' (w, t) = 0"
      using ic w relink_arr [OF rl Lb w(1)] by (simp add: idle_clean_def rec_arr_def ori_arr_def F)
  qed
  then show "adapter_inv a' (bk(h := bk h @ [i]))" "mem a' = mem a"
    using rep' bi' inv relink_fields [OF rl] by (simp_all add: adapter_inv_def F)
  show "used_entries a' = insert i (used_entries a)" "Addr (Content a' ! i) = addr" using ua ad i by auto
  show adr: "Addr (Content a' ! j) = Addr (Content a ! j)" if "j \<in> used_entries a" for j
    using that ad(1) [of j] i by (auto simp: used_entries_def)
  have bj: "j \<in> used_entries a" if "j \<in> set (bk k)" "k < 256" for j k using mac_repD(3) [OF rep that(2)] that(1) by auto
  have eq: "List.find (\<lambda>j. Addr (Content a' ! j) = x) (bk (MAC_ADDR_HASH_INDEX x)) =
      List.find (\<lambda>j. Addr (Content a ! j) = x) (bk (MAC_ADDR_HASH_INDEX x))"
    using adr bj [OF _ hash_bound, of _ x] by (intro find_cong) auto
  show "MacTableLookup a' x = (if x = addr \<and> MacTableLookup a x = Some None then Some (Some i) else MacTableLookup a x)"
    unfolding lookup_bucket [OF rep'] lookup_bucket [OF rep]
    using eq ad(1) [of i] i by (auto simp: find_append h_def split: option.splits)
qed

lemma insert_result:
  assumes "adapter_inv a bk"
  shows "\<exists>r a'. MacTableInsertEntry cfg a addr idx op = Some (r, a') \<and>
     (case r of
        None \<Rightarrow> a' = a \<and> (\<forall>i. FirstWcid cfg \<le> i \<and> i < MAX_LEN_OF_MAC_TABLE \<longrightarrow> i \<in> used_entries a)
      | Some i \<Rightarrow> FirstWcid cfg \<le> i \<and> i < MAX_LEN_OF_MAC_TABLE \<and> i \<notin> used_entries a \<and>
          used_entries a' = insert i (used_entries a) \<and> Addr (Content a' ! i) = addr \<and>
          (\<exists>bk'. adapter_inv a' bk') \<and> mem a' = mem a \<and>
          (\<forall>j \<in> used_entries a. Addr (Content a' ! j) = Addr (Content a ! j)) \<and>
          (\<forall>x. MacTableLookup a' x =
             (if x = addr \<and> MacTableLookup a x = Some None then Some (Some i) else MacTableLookup a x)))"
proof -
  have rep: "mac_rep a bk" using assms by (simp add: adapter_inv_def)
  have f1: "0 < FirstWcid cfg" by (simp add: FirstWcid_def)
  have sz: "\<not> unat (Size a) \<ge> MAX_LEN_OF_MAC_TABLE" using Size_unat [OF rep] used_card [of a] by (simp add: size_defs)
  show ?thesis
  proof (cases "List.find (\<lambda>i. entry_none (Content a ! i)) [FirstWcid cfg..<MAX_LEN_OF_MAC_TABLE]")
    case None
    then have "\<forall>i. FirstWcid cfg \<le> i \<and> i < MAX_LEN_OF_MAC_TABLE \<longrightarrow> i \<in> used_entries a"
      using f1 by (auto simp: find_None_iff used_entries_def size_defs)
    then show ?thesis using None sz by (simp add: MacTableInsertEntry_def)
  next
    case (Some i)
    then have i: "FirstWcid cfg \<le> i" "i < 32" "entry_none (Content a ! i)"
      using nth_mem by (fastforce simp: find_Some_iff size_defs)+
    have i0: "0 < i" using f1 i(1) by simp
    obtain a' where app: "hash_append (fill_entry cfg a i addr idx op) (MAC_ADDR_HASH_INDEX addr) i = Some a'"
      using insert_rep [OF rep i0 i(2,3)] by blast
    note I = insert_vacant [OF assms i0 i(2,3) app]
    have "MacTableInsertEntry cfg a addr idx op = Some (Some i, a')"
      using sz Some app by (simp add: MacTableInsertEntry_def)
    moreover have "i \<notin> used_entries a" using i by (simp add: used_entries_def)
    ultimately show ?thesis using I i by (auto simp: size_defs)
  qed
qed

lemma teardown_tids_mem:
  assumes "ba_inv a" and "mem a = []" and "unat W < 32" and "\<forall>t \<in> set ts. t < 8"
  shows "mem (teardown_tids a W ts) = []"
  using assms(1,2,4)
proof (induction ts arbitrary: a)
  case (Cons x xs)
  let ?T = "of_nat x :: UINT8"
  have x: "unat ?T < 8" using Cons.prems(3) by (simp add: unat_tid)
  note o = OriTearDown_effect [OF Cons.prems(1,2) assms(3) x, of False] and oi = OriTearDown_inv(1) [OF Cons.prems(1) x, of W False False]
  note r = RecTearDown_effect [OF oi o(3) assms(3) x, of False] and ri = RecTearDown_inv(1) [OF oi x, of W False]
  show ?case using Cons.IH [OF ri r(3)] Cons.prems(3) by simp
qed simp

lemma delete_used:
  assumes inv: "adapter_inv a bk" and m: "mem a = []" and w: "w \<in> used_entries a"
  shows "\<exists>a' bk'. MacTableDeleteEntry a w (Addr (Content a ! w)) = Some (True, a') \<and>
     used_entries a' = used_entries a - {w} \<and> adapter_inv a' bk' \<and> mem a' = [] \<and>
     (\<forall>j \<in> used_entries a - {w}. Addr (Content a' ! j) = Addr (Content a ! j)) \<and>
     (\<forall>t < 8. rec_arr a' (w, t) = 0 \<and> ori_arr a' (w, t) = 0) \<and>
     (\<forall>v t. v < 32 \<and> v \<noteq> w \<longrightarrow> rec_arr a' (v, t) = rec_arr a (v, t) \<and> ori_arr a' (v, t) = ori_arr a (v, t)) \<and>
     (\<forall>x. x \<noteq> Addr (Content a ! w) \<longrightarrow> MacTableLookup a' x = MacTableLookup a x) \<and>
     HtSta (Content a' ! w) = HtSta (Content a ! w)"
proof -
  have rep: "mac_rep a bk" and bi: "ba_inv a" and ic: "idle_clean a" and no: "\<not> oob a" and L: "length (Content a) = 32"
    using inv by (auto simp: adapter_inv_def mac_rep_def)
  have w32: "w < 32" "0 < w" "\<not> entry_none (Content a ! w)" using w by (auto simp: used_entries_def)
  have aid: "Aid (Content a ! w) = of_nat w" using shapeD(6) [OF bi w32(1)] w32(3) by (simp add: entry_none_def)
  define W where "W = (ucast (Aid (Content a ! w)) :: UINT8)"
  have W: "unat W = w" using aid w32 by (simp add: W_def unat_small)
  define a0 where "a0 = log_dev (AsicResetEntry w) (log_dev (TimerCancel (EnqueueStartForPSKTimer w)) (log_dev (TimerCancel (RetryTimer w)) a))"
  have a0: "ba_inv a0" "mem a0 = []" "same_mac a a0" "rec_arr a0 = rec_arr a" "ori_arr a0 = ori_arr a" "oob a0 = oob a"
    using bi m by (simp_all add: a0_def)
  define b where "b = BASessionTearDownALL a0 W"
  have sm: "same_mac a b" using same_mac_trans [OF a0(3) TearDownALL_mac] by (simp add: b_def)
  have bb: "ba_inv b" "oob b = oob a" using TearDownALL_inv [OF a0(1), of W] a0(6) by (simp_all add: b_def)
  have W32: "unat W < 32" using W w32 by simp
  have arr: "rec_arr b (v, t) = (if v = w \<and> t < 8 then 0 else rec_arr a (v, t))"
      "ori_arr b (v, t) = (if v = w \<and> t < 8 then 0 else ori_arr a (v, t))" for v t
    using teardown_tids_effect [OF a0(1,2) W32, of "[0..<8]" v t] a0(4,5) W
    by (auto simp: b_def BASessionTearDownALL_def size_defs)
  have mb: "mem b = []"
    using teardown_tids_mem [OF a0(1,2) W32, of "[0..<8]"] by (simp add: b_def BASessionTearDownALL_def size_defs)
  have repb: "mac_rep b bk" using same_mac_rep [OF sm] rep by simp
  have ub: "used_entries b = used_entries a" by (rule same_mac_used [OF sm])
  note E = same_macD [OF sm]
  obtain c bk' where ul: "hash_unlink b (hash_of a w) w = Some c" and rl: "relink b c"
    and rep': "mac_rep (clear_entry c w) bk'" and uc: "used_entries (clear_entry c w) = used_entries b - {w}"
    and bk': "\<forall>k < 256. bk' k = filter (\<lambda>i. i \<noteq> w) (bk k)"
    using delete_rep [OF repb, of w "hash_of a w"] w ub E(5) by auto
  let ?d = "clear_entry c w"
  have Lb: "length (Content b) = 32" using E(3) L by simp
  have Lc: "length (Content c) = 32" using relink_fields(9) [OF rl] Lb by simp
  note R = relink_entry [OF rl]
  have bc: "ba_inv ?d"
    using clear_entry_inv [OF relink_inv [OF bb(1) rl] w32(1)] R(3) [of w] Lb w32 E(7) aid by simp
  have ard: "rec_arr ?d (v, t) = rec_arr b (v, t)" "ori_arr ?d (v, t) = ori_arr b (v, t)" if "v < 32" for v t
    using relink_arr [OF rl Lb that] clear_entry_arr [of w c] Lc w32 by simp_all
  have ed: "entry_none (Content ?d ! v) = (v = w \<or> entry_none (Content a ! v))" if "v < 32" for v
    using that w32 Lc R(1) [of v] Lb E(4) [of v] by (cases "v = w") (simp_all add: clear_entry_fields entry_none_def)
  have "idle_clean ?d"
    using ic ed ard arr by (auto simp: idle_clean_def)
  have inv': "adapter_inv ?d bk'"
    using rep' bc \<open>idle_clean ?d\<close> no bb(2) relink_fields(7) [OF rl] by (simp add: adapter_inv_def clear_entry_fields)
  have adr: "Addr (Content ?d ! j) = Addr (Content a ! j)" if "j < 32" "j \<noteq> w" for j
    using that R(2) [of j] Lb E(5) [of j] by (simp add: clear_entry_fields)
  define e where "e = (if Size ?d = 0 then log_dev AsicUpdateProtect ?d else ?d)"
  have del: "MacTableDeleteEntry a w (Addr (Content a ! w)) = Some (True, e)"
    using w32 ul by (simp add: MacTableDeleteEntry_def size_defs Let_def b_def a0_def W_def e_def)
  have e: "Content e = Content ?d" "Hash e = Hash ?d" "mem e = []" "same_mac ?d e"
    using mb relink_fields(8) [OF rl] by (auto simp: e_def clear_entry_fields)
  have einv: "adapter_inv e bk'"
    using inv' same_mac_rep [OF e(4)] by (auto simp: e_def adapter_inv_def idle_clean_def)
  have repe: "mac_rep e bk'" using einv by (simp add: adapter_inv_def)
  have look: "MacTableLookup e x = MacTableLookup a x" if "x \<noteq> Addr (Content a ! w)" for x
  proof -
    let ?k = "MAC_ADDR_HASH_INDEX x"
    have s: "set (bk ?k) \<subseteq> used_entries a" using mac_repD(3) [OF rep hash_bound, of x] by auto
    have "List.find (\<lambda>i. Addr (Content e ! i) = x) (bk' ?k) = List.find (\<lambda>i. Addr (Content a ! i) = x) (bk' ?k)"
      using s bk' hash_bound [of x] adr by (intro find_cong) (auto simp: e used_entries_def)
    also have "\<dots> = List.find (\<lambda>i. Addr (Content a ! i) = x) (bk ?k)"
      using that bk' hash_bound [of x] by (simp add: find_filter_neq)
    finally show ?thesis by (simp add: lookup_bucket [OF repe] lookup_bucket [OF rep])
  qed
  have re: "rec_arr e = rec_arr ?d" "ori_arr e = ori_arr ?d" by (simp_all add: e_def)
  have "used_entries e = used_entries a - {w}" using uc ub same_mac_used [OF e(4)] by simp
  moreover have "HtSta (Content e ! w) = HtSta (Content a ! w)"
    using R(4) [of w] Lb Lc w32 E(8) [of w] by (simp add: e clear_entry_fields)
  ultimately show ?thesis
    using del einv e(3) adr look ard arr w32
    by (intro exI [of _ e] exI [of _ bk']) (auto simp: e re used_entries_def)
qed

lemma entry_timer_inv:
  fixes i :: nat and ev :: dev_event
  assumes "adapter_inv a bk" and "mem a = []"
  defines "b \<equiv> upd_entry i (\<lambda>m. m\<lparr>EnqueueEapolStartTimerRunning := 0\<rparr>) (log_dev ev a)"
  shows "adapter_inv b bk" and "mem b = []" and "used_entries b = used_entries a"
    and "\<And>j. Addr (Content b ! j) = Addr (Content a ! j)"
proof -
  have sm: "same_mac a b" by (auto simp: b_def mac_part_def intro: same_mac_entry)
  show "mem b = []" "used_entries b = used_entries a" "\<And>j. Addr (Content b ! j) = Addr (Content a ! j)"
    using assms(2) same_mac_used [OF sm] same_macD [OF sm] by (simp_all add: b_def)
  have inv: "ba_inv a" and ic: "idle_clean a" using assms(1) by (simp_all add: adapter_inv_def)
  have same: "BARecWcidArray (Content b ! w) = BARecWcidArray (Content a ! w)"
    "BAOriWcidArray (Content b ! w) = BAOriWcidArray (Content a ! w)" "RXBAbitmap (Content b ! w) = RXBAbitmap (Content a ! w)"
    "TXBAbitmap (Content b ! w) = TXBAbitmap (Content a ! w)" "TxSeq (Content b ! w) = TxSeq (Content a ! w)" for w
    by (cases "i < length (Content a)"; cases "w = i"; simp add: b_def list_update_beyond)+
  have e: "entry_shape w (Content b ! w)" if "w < 32" for w
    using shape_entry [OF inv that] same same_macD [OF sm] by (simp add: entry_shape_def)
  have "ba_inv b"
    by (rule ba_inv_content [OF inv])
       (use inv e same in \<open>simp_all add: rec_arr_def ori_arr_def ba_inv_def shape_def size_defs b_def\<close>)
  moreover have "idle_clean b"
    using ic same same_macD(4) [OF sm] by (simp add: idle_clean_def entry_none_def rec_arr_def ori_arr_def)
  ultimately show "adapter_inv b bk"
    using assms(1) same_mac_rep [OF sm] by (simp add: adapter_inv_def b_def)
qed

lemma delete_none:
  assumes "adapter_inv a bk" and "mem a = []" and "w < 32" and "entry_none (Content a ! w)"
  shows "\<exists>a'. MacTableDeleteEntry a w addr = Some (True, a') \<and> adapter_inv a' bk \<and> mem a' = [] \<and> Content a' = Content a"
proof -
  let ?b = "if Size a = 0 then log_dev AsicUpdateProtect a else a"
  have "same_mac a ?b" by simp
  then have "adapter_inv ?b bk"
    using assms(1) same_mac_rep [of a ?b] by (auto simp: adapter_inv_def idle_clean_def)
  then show ?thesis using assms(2-) by (auto simp: MacTableDeleteEntry_def size_defs)
qed

lemma reset_loop_result:
  assumes "adapter_inv a bk" and "mem a = []" and "\<forall>i \<in> set is. 0 < i \<and> i < 32"
  shows "\<exists>a' bk'. reset_loop a is = Some a' \<and> adapter_inv a' bk' \<and> used_entries a' = used_entries a - set is"
  using assms
proof (induction "is" arbitrary: a bk)
  case (Cons i xs)
  have i: "0 < i" "i < 32" using Cons.prems(3) by auto
  define a1 where "a1 = (if EntryType (Content a ! i) = ENTRY_CLIENT then
      upd_entry i (\<lambda>m. m\<lparr>EnqueueEapolStartTimerRunning := 0\<rparr>) (log_dev (TimerRelease (EnqueueStartForPSKTimer i)) a) else a)"
  have a1: "adapter_inv a1 bk" "mem a1 = []" "used_entries a1 = used_entries a"
    using entry_timer_inv [OF Cons.prems(1,2), of i "TimerRelease (EnqueueStartForPSKTimer i)"] Cons.prems(1,2)
    by (simp_all add: a1_def)
  obtain b a2 bk2 where d: "MacTableDeleteEntry a1 i (Addr (Content a1 ! i)) = Some (b, a2)" "adapter_inv a2 bk2" "mem a2 = []"
    "used_entries a2 = used_entries a - {i}"
  proof (cases "entry_none (Content a1 ! i)")
    case True
    then have "i \<notin> used_entries a1" by (simp add: used_entries_def)
    with delete_none [OF a1(1,2) i(2) True, of "Addr (Content a1 ! i)"] a1(3) that show ?thesis
      by (auto simp: used_entries_def)
  next
    case False
    then have "i \<in> used_entries a1" using i by (simp add: used_entries_def)
    from delete_used [OF a1(1,2) this] that a1(3) show ?thesis by metis
  qed
  obtain a' bk' where "reset_loop a2 xs = Some a'" "adapter_inv a' bk'" "used_entries a' = used_entries a2 - set xs"
    using Cons.IH [OF d(2,3)] Cons.prems(3) by auto
  then show ?case using d(1,4) by (auto simp: a1_def [symmetric] Let_def)
qed auto

section \<open>The table as an address table\<close>

text \<open>
  The interface the connection code uses: it looks an address up, and inserts it only when it is not there.
  The client facts are that addresses stay unique, that an inserted address is found, and that
  deleting it again restores all lookups.
\<close>

locale address_table =
  fixes ok :: "'s \<Rightarrow> bool" and used :: "'s \<Rightarrow> nat set" and key :: "'s \<Rightarrow> nat \<Rightarrow> 'k"
    and look :: "'s \<Rightarrow> 'k \<Rightarrow> nat option option"
    and ins :: "'s \<Rightarrow> 'k \<Rightarrow> (nat option \<times> 's) option"
    and del :: "'s \<Rightarrow> nat \<Rightarrow> 'k \<Rightarrow> (bool \<times> 's) option"
  assumes look_law: "ok s \<Longrightarrow> \<exists>r. look s k = Some r \<and>
      (case r of None \<Rightarrow> \<forall>i \<in> used s. key s i \<noteq> k | Some i \<Rightarrow> i \<in> used s \<and> key s i = k)"
    and ins_law: "ok s \<Longrightarrow> ins s k = Some (Some i, s') \<Longrightarrow>
      ok s' \<and> i \<notin> used s \<and> used s' = insert i (used s) \<and> key s' i = k \<and> (\<forall>j \<in> used s. key s' j = key s j)"
    and del_law: "ok s \<Longrightarrow> i \<in> used s \<Longrightarrow>
      \<exists>s'. del s i (key s i) = Some (True, s') \<and> ok s' \<and> used s' = used s - {i} \<and> (\<forall>j \<in> used s'. key s' j = key s j)"
begin

lemma look_unique:
  assumes "ok s" and "inj_on (key s) (used s)" and "i \<in> used s"
  shows "look s (key s i) = Some (Some i)"
  using look_law [OF assms(1), of "key s i"] assms(2,3) by (auto simp: inj_on_def split: option.splits)

lemma insert_unique:
  assumes "ok s" and "inj_on (key s) (used s)" and "look s k = Some None" and "ins s k = Some (Some i, s')"
  shows "inj_on (key s') (used s')" and "look s' k = Some (Some i)"
proof -
  note I = ins_law [OF assms(1,4)]
  have "\<forall>j \<in> used s. key s j \<noteq> k" using look_law [OF assms(1), of k] assms(3) by auto
  then show u: "inj_on (key s') (used s')" using I assms(2) by (auto simp: inj_on_def)
  then show "look s' k = Some (Some i)" using look_unique [of s' i] I by auto
qed

lemma look_cong:
  assumes "ok s" "ok s'" and "used s' = used s" and "\<forall>j \<in> used s. key s' j = key s j" and "inj_on (key s) (used s)"
  shows "look s' x = look s x"
proof -
  from look_law [OF assms(1), of x] obtain r where r: "look s x = Some r"
    "case r of None \<Rightarrow> \<forall>i \<in> used s. key s i \<noteq> x | Some i \<Rightarrow> i \<in> used s \<and> key s i = x" by auto
  from look_law [OF assms(2), of x] obtain r' where r': "look s' x = Some r'"
    "case r' of None \<Rightarrow> \<forall>i \<in> used s'. key s' i \<noteq> x | Some i \<Rightarrow> i \<in> used s' \<and> key s' i = x" by auto
  have "r' = r" using r(2) r'(2) assms(3-5) by (auto simp: inj_on_def split: option.splits)
  then show ?thesis using r r' by simp
qed

lemma delete_unique:
  assumes "ok s" and "inj_on (key s) (used s)" and "i \<in> used s"
  shows "\<exists>s'. del s i (key s i) = Some (True, s') \<and> ok s' \<and> inj_on (key s') (used s') \<and> look s' (key s i) = Some None"
proof -
  obtain s' where d: "del s i (key s i) = Some (True, s')" "ok s'" "used s' = used s - {i}" "\<forall>j \<in> used s'. key s' j = key s j"
    using del_law [OF assms(1,3)] by auto
  have "look s' (key s i) = Some None"
  proof -
    from look_law [OF d(2), of "key s i"] obtain r where r: "look s' (key s i) = Some r"
      "case r of None \<Rightarrow> \<forall>j \<in> used s'. key s' j \<noteq> key s i | Some j \<Rightarrow> j \<in> used s' \<and> key s' j = key s i" by auto
    have "r = None" using r(2) d(3,4) assms(2,3) by (cases r) (auto simp: inj_on_def)
    then show ?thesis using r(1) by simp
  qed
  then show ?thesis using d assms(2) by (auto simp: inj_on_def)
qed

lemma insert_delete_restores:
  assumes "ok s" and "inj_on (key s) (used s)" and "look s k = Some None" and "ins s k = Some (Some i, s')"
  shows "look s' k = Some (Some i) \<and> (\<exists>s''. del s' i k = Some (True, s'') \<and> ok s'' \<and> (\<forall>x. look s'' x = look s x))"
proof -
  note I = ins_law [OF assms(1,4)]
  obtain s'' where d: "del s' i k = Some (True, s'')" "ok s''" "used s'' = used s' - {i}" "\<forall>j \<in> used s''. key s'' j = key s' j"
    using del_law [of s' i] I by auto
  have "look s'' x = look s x" for x
    using look_cong [OF assms(1) d(2) _ _ assms(2)] I d(3,4) by auto
  then show ?thesis using insert_unique [OF assms] d by blast
qed

end

definition table_ok :: "RTMP_ADAPTER \<Rightarrow> bool" where
  "table_ok a \<longleftrightarrow> (\<exists>bk. adapter_inv a bk) \<and> mem a = []"

interpretation mactab: address_table table_ok used_entries "\<lambda>a i. Addr (Content a ! i)" MacTableLookup
  "\<lambda>a k. MacTableInsertEntry cfg a k idx op" MacTableDeleteEntry
proof (unfold_locales, goal_cases)
  case (1 s k)
  then show ?case using lookup_result by (auto simp: table_ok_def adapter_inv_def)
next
  case (2 s k i s')
  then obtain bk where bk: "adapter_inv s bk" "mem s = []" by (auto simp: table_ok_def)
  from insert_result [OF bk(1), of cfg k idx op] 2(2) bk(2) show ?case by (auto simp: table_ok_def)
next
  case (3 s i)
  then obtain bk where bk: "adapter_inv s bk" "mem s = []" by (auto simp: table_ok_def)
  from delete_used [OF this 3(2)] show ?case by (fastforce simp: table_ok_def)
qed

section \<open>Properties\<close>

text \<open>The table of an adapter that has just started, with one peer for the examples.\<close>

lemma zero_entry_nth: "w < 32 \<Longrightarrow> Content zero_adapter ! w = zero_entry"
  by (simp add: zero_adapter_def size_defs)

lemma zero_adapter_ok: "adapter_inv zero_adapter (\<lambda>_. [])" "mem zero_adapter = []" "used_entries zero_adapter = {}"
proof -
  have e: "entry_shape w (Content zero_adapter ! w)" if "w < 32" for w
    using that by (auto simp: zero_entry_nth entry_shape_def size_defs)
  have b: "busy P = {}" if "\<And>i. 0 < i \<Longrightarrow> i < 128 \<Longrightarrow> \<not> P i" for P using that by (auto simp: busy_def)
  have f: "BARecEntry zero_adapter = replicate 128 zero_rec" "BAOriEntry zero_adapter = replicate 128 zero_ori"
    "length (Content zero_adapter) = 32" "Hash zero_adapter = replicate 256 None" "Size zero_adapter = 0" "\<not> oob zero_adapter"
    "numAsRecipient zero_adapter = 0" "numAsOriginator zero_adapter = 0" "numDoneOriginator zero_adapter = 0"
    "rx zero_adapter = \<lparr>freelist = \<lparr>mpdus = [], qlen = 0\<rparr>, events = [], null_deref = False\<rparr>"
    by (simp_all add: zero_adapter_def size_defs)
  have u: "\<not> rec_used zero_adapter i" "\<not> ori_used zero_adapter i" "\<not> ori_done zero_adapter i" if "i < 128" for i
    using that by (auto simp: f rec_used_def ori_used_def ori_done_def rec_none_def ori_none_def zero_rec_def zero_ori_def)
  have a: "rec_arr zero_adapter (w, t) = 0" "ori_arr zero_adapter (w, t) = 0" if "w < 32" "t < 8" for w t
    using that by (auto simp: rec_arr_def ori_arr_def zero_entry_nth)
  have "ba_inv zero_adapter"
    using e u a
    by (auto simp: ba_inv_def shape_def size_defs rec_inv_def ori_inv_def linked_def b zero_entry_nth buffers_ok_def wf2_def
        wf_list_def zero_rec_def f)
  moreover show ue: "used_entries zero_adapter = {}" by (auto simp: used_entries_def zero_entry_nth entry_none_def)
  moreover have "mac_rep zero_adapter (\<lambda>_. [])"
    by (auto simp: mac_rep_def f ue zero_entry_nth entry_none_def)
  ultimately show "adapter_inv zero_adapter (\<lambda>_. [])"
    using a f(6) by (auto simp: adapter_inv_def idle_clean_def)
  show "mem zero_adapter = []" by (simp add: zero_adapter_def)
qed

definition ex_peer :: mac_addr where "ex_peer = [0x00, 0x0C, 0x43, 0x76, 0x10, 0x01]"

lemma ex_insert:
  "\<exists>a'. MacTableInsertEntry ex_cfg zero_adapter ex_peer 0 True = Some (Some 2, a') \<and> table_ok a' \<and>
        used_entries a' = {2} \<and> Addr (Content a' ! 2) = ex_peer"
proof -
  have "List.find (\<lambda>i. entry_none (Content zero_adapter ! i)) [FirstWcid ex_cfg..<MAX_LEN_OF_MAC_TABLE] = Some 2"
    by (simp add: FirstWcid_def ex_cfg_def size_defs upt_conv_Cons zero_entry_nth entry_none_def)
  then have e: "MacTableInsertEntry ex_cfg zero_adapter ex_peer 0 True =
      map_option (Pair (Some 2)) (hash_append (fill_entry ex_cfg zero_adapter 2 ex_peer 0 True) (MAC_ADDR_HASH_INDEX ex_peer) 2)"
    by (simp add: MacTableInsertEntry_def zero_adapter_def size_defs split: option.splits)
  from insert_result [OF zero_adapter_ok(1), of ex_cfg ex_peer 0 True] show ?thesis
    using zero_adapter_ok(2,3) by (auto simp: e table_ok_def)
qed

text \<open>
  Lookup ends and is right: it returns an entry in use with the address it was asked for, or
  NULL exactly when no entry in use has this address.
\<close>

theorem MacTableLookup_correct:
  assumes "mac_rep a bk"
  shows "\<exists>r. MacTableLookup a addr = Some r \<and>
           (case r of None \<Rightarrow> \<forall>i \<in> used_entries a. Addr (Content a ! i) \<noteq> addr
                    | Some i \<Rightarrow> i \<in> used_entries a \<and> Addr (Content a ! i) = addr)"
  by (rule lookup_result [OF assms])

theorem MacTableLookup_correct_witness:
  "\<exists>a'. MacTableInsertEntry ex_cfg zero_adapter ex_peer 0 True = Some (Some 2, a') \<and> MacTableLookup a' ex_peer = Some (Some 2)"
proof -
  obtain a' bk where a': "MacTableInsertEntry ex_cfg zero_adapter ex_peer 0 True = Some (Some 2, a')" "mac_rep a' bk"
      "used_entries a' = {2}" "Addr (Content a' ! 2) = ex_peer"
    using ex_insert by (auto simp: table_ok_def adapter_inv_def)
  from MacTableLookup_correct [OF a'(2), of ex_peer] show ?thesis
    using a' by (auto split: option.splits)
qed

text \<open>
  \<^bold>\<open>C9\<close>. Inserting a peer ends. It fails exactly when there is no vacancy from the first usable index on, and
  then changes nothing; otherwise it takes a vacant index, the lookup finds the peer there if its address was
  not in the table before, every other lookup is unchanged, and the table and the block-ack
  bookkeeping are consistent again.
\<close>

theorem MacTableInsertEntry_correct:
  assumes "adapter_inv a bk"
  shows "\<exists>r a'. MacTableInsertEntry cfg a addr idx op = Some (r, a') \<and>
     (case r of
        None \<Rightarrow> a' = a \<and> (\<forall>i. FirstWcid cfg \<le> i \<and> i < MAX_LEN_OF_MAC_TABLE \<longrightarrow> i \<in> used_entries a)
      | Some i \<Rightarrow> FirstWcid cfg \<le> i \<and> i < MAX_LEN_OF_MAC_TABLE \<and> i \<notin> used_entries a \<and>
          used_entries a' = insert i (used_entries a) \<and> Addr (Content a' ! i) = addr \<and>
          (\<exists>bk'. adapter_inv a' bk') \<and>
          (\<forall>x. MacTableLookup a' x =
             (if x = addr \<and> MacTableLookup a x = Some None then Some (Some i) else MacTableLookup a x)))"
proof -
  obtain r a' where "MacTableInsertEntry cfg a addr idx op = Some (r, a')" using insert_result [OF assms] by blast
  with insert_result [OF assms, of cfg addr idx op] show ?thesis by (cases r) auto
qed

theorem MacTableInsertEntry_correct_witness:
  "\<exists>i a'. MacTableInsertEntry ex_cfg zero_adapter ex_peer 0 True = Some (Some i, a') \<and> 2 \<le> i \<and>
          MacTableLookup a' (replicate 6 7) = MacTableLookup zero_adapter (replicate 6 7)"
proof -
  obtain a' where "MacTableInsertEntry ex_cfg zero_adapter ex_peer 0 True = Some (Some 2, a')" using ex_insert by auto
  moreover have "ex_peer \<noteq> replicate 6 7" by (rule notI, drule arg_cong [where f = hd]) (simp add: ex_peer_def)
  ultimately show ?thesis
    using MacTableInsertEntry_correct [OF zero_adapter_ok(1), of ex_cfg ex_peer 0 True]
    by (auto simp: FirstWcid_def ex_cfg_def)
qed



text \<open>
  The client that inserts an address only after a failed lookup keeps the addresses of the table
  unique: the new address is found at its index, and deleting that entry again restores every lookup.
\<close>

theorem MacTable_insert_delete_restores:
  assumes "table_ok a" and "inj_on (\<lambda>i. Addr (Content a ! i)) (used_entries a)" and "MacTableLookup a addr = Some None"
    and "MacTableInsertEntry cfg a addr idx op = Some (Some i, a')"
  shows "MacTableLookup a' addr = Some (Some i) \<and> inj_on (\<lambda>i. Addr (Content a' ! i)) (used_entries a') \<and>
    (\<exists>a''. MacTableDeleteEntry a' i addr = Some (True, a'') \<and> table_ok a'' \<and> (\<forall>x. MacTableLookup a'' x = MacTableLookup a x))"
  using mactab.insert_delete_restores [OF assms] mactab.insert_unique [OF assms] by blast

theorem MacTable_insert_delete_restores_witness:
  "\<exists>a' a''. MacTableInsertEntry ex_cfg zero_adapter ex_peer 0 True = Some (Some 2, a') \<and>
            MacTableDeleteEntry a' 2 ex_peer = Some (True, a'') \<and> MacTableLookup a'' ex_peer = MacTableLookup zero_adapter ex_peer"
proof -
  have ok: "table_ok zero_adapter" using zero_adapter_ok by (auto simp: table_ok_def)
  have inj: "inj_on (\<lambda>i. Addr (Content zero_adapter ! i)) (used_entries zero_adapter)" by (simp add: zero_adapter_ok)
  obtain a' where a': "MacTableInsertEntry ex_cfg zero_adapter ex_peer 0 True = Some (Some 2, a')" using ex_insert by auto
  have "mac_rep zero_adapter (\<lambda>_. [])" using zero_adapter_ok by (simp add: adapter_inv_def)
  then have "MacTableLookup zero_adapter ex_peer = Some None" by (simp add: lookup_bucket)
  from MacTable_insert_delete_restores [OF ok inj this a'] a' show ?thesis by auto
qed

text \<open>
  \<^verbatim>\<open>MacTableReset\<close> ends with an empty table: no entry in use, size 0, every lookup
  fails, no block-ack session of either direction is left and the session counters are 0.
\<close>

theorem MacTableReset_empties:
  assumes "adapter_inv a bk" and "mem a = []"
  shows "\<exists>a' bk'. MacTableReset a = Some a' \<and> adapter_inv a' bk' \<and> used_entries a' = {} \<and> Size a' = 0 \<and>
     (\<forall>x. MacTableLookup a' x = Some None) \<and> numAsRecipient a' = 0 \<and> numAsOriginator a' = 0 \<and>
     (\<forall>w < MAX_LEN_OF_MAC_TABLE. \<forall>t < NUM_OF_TID. rec_arr a' (w, t) = 0 \<and> ori_arr a' (w, t) = 0)"
proof -
  have "\<forall>i \<in> set [1..<32]. 0 < i \<and> i < (32::nat)" by auto
  from reset_loop_result [OF assms this] obtain a' bk' where r: "reset_loop a [1..<32] = Some a'" "adapter_inv a' bk'"
      "used_entries a' = used_entries a - set [1..<32]" by blast
  have u: "used_entries a' = {}" unfolding r(3) by (auto simp: used_entries_def)
  have rep: "mac_rep a' bk'" and bi: "ba_inv a'" and ic: "idle_clean a'" using r(2) by (simp_all add: adapter_inv_def)
  have "entry_none (Content a' ! w)" if "w < 32" for w
    using that u rep by (cases "w = 0") (auto simp: used_entries_def mac_rep_def)
  then have z: "rec_arr a' (w, t) = 0 \<and> ori_arr a' (w, t) = 0" if "w < 32" "t < 8" for w t
    using ic that by (simp add: idle_clean_def)
  have "busy (rec_used a') = {}" "busy (ori_used a') = {}"
  proof -
    have z': "rec_arr a' p = 0 \<and> ori_arr a' p = 0" if "fst p < 32" "snd p < 8" for p using z [OF that] by simp
    have l: "linked (rec_arr a') (rec_used a') (rec_own a')" "linked (ori_arr a') (ori_used a') (ori_own a')"
      using bi by (simp_all add: ba_inv_def rec_inv_def ori_inv_def)
    show "busy (rec_used a') = {}" "busy (ori_used a') = {}"
      using linked_usedD [OF l(1)] linked_usedD [OF l(2)] z' by (fastforce simp: busy_def)+
  qed
  then have "numAsRecipient a' = 0" "numAsOriginator a' = 0" using bi by (simp_all add: ba_inv_def rec_inv_def ori_inv_def)
  moreover have "MacTableLookup a' x = Some None" for x using lookup_result [OF rep, of x] u by (auto split: option.splits)
  moreover have "Size a' = 0" using rep u by (simp add: mac_rep_def)
  ultimately show ?thesis using r(1,2) u z by (auto simp: MacTableReset_def size_defs)
qed

theorem MacTableReset_empties_witness:
  "\<exists>a' a''. MacTableInsertEntry ex_cfg zero_adapter ex_peer 0 True = Some (Some 2, a') \<and>
            MacTableReset a' = Some a'' \<and> MacTableLookup a'' ex_peer = Some None"
proof -
  obtain a' bk where a': "MacTableInsertEntry ex_cfg zero_adapter ex_peer 0 True = Some (Some 2, a')" "adapter_inv a' bk" "mem a' = []"
    using ex_insert by (auto simp: table_ok_def)
  from MacTableReset_empties [OF a'(2,3)] a' show ?thesis by auto
qed

text \<open>
  Deleting a peer clears only its type and address: the HT capability flag stays, since the
  zeroing of the entry is commented out. An ADDBA request that arrives for the
  deleted index is therefore accepted as if the peer were still there, and opens a session for a vacant entry.
\<close>

theorem deleted_peer_opens_session:
  assumes "adapter_inv a bk" and "mem a = []" and "w \<in> used_entries a" and "HtSta (Content a ! w)"
    and "unat (el_Wcid el) = w" and "fst (PeerAddBAReqActionSanity el)" and "\<not> bBADecline cfg"
    and "T = unat (par_TID (req_BaParm (addba_req_of (el_Msg el))))" and "T < NUM_OF_TID"
  shows "\<exists>a'. MacTableDeleteEntry a w (Addr (Content a ! w)) = Some (True, a') \<and> entry_none (Content a' ! w) \<and>
           rec_arr a' (w, T) = 0 \<and>
           (card (busy (rec_used a')) < 127 \<longrightarrow> rec_arr (PeerAddBAReqAction cfg a' el) (w, T) \<noteq> 0)"
proof -
  obtain a' bk' where d: "MacTableDeleteEntry a w (Addr (Content a ! w)) = Some (True, a')" "used_entries a' = used_entries a - {w}"
     "HtSta (Content a' ! w)" "adapter_inv a' bk'" "mem a' = []" "\<forall>t < 8. rec_arr a' (w, t) = 0 \<and> ori_arr a' (w, t) = 0"
    using delete_used [OF assms(1-3)] assms(4) by metis
  have w: "w < 32" using assms(3) by (simp add: used_entries_def)
  have "entry_none (Content a' ! w)" using d(2) assms(3) by (auto simp: used_entries_def)
  moreover have "rec_arr (PeerAddBAReqAction cfg a' el) (w, T) \<noteq> 0" if c: "card (busy (rec_used a')) < 127"
  proof -
    have inv: "ba_inv a'" "\<not> oob a'" using d(4) by (simp_all add: adapter_inv_def)
    let ?f = "addba_req_of (el_Msg el)"
    obtain ok a1 where r: "BARecSessionAdd cfg a' w ?f = (ok, a1)" by fastforce
    have t: "unat (par_TID (req_BaParm ?f)) < 8" using assms(8,9) by (simp add: size_defs)
    note R = RecAdd_inv [OF inv(1) w d(3) t r]
    obtain ok2 a2 where al: "alloc_mem a1 = (ok2, a2)" by fastforce
    have "rec_arr a2 = rec_arr a1" using al by (auto simp: alloc_mem_def fun_eq_iff rec_arr_def split: list.splits)
    moreover have "ok" "rec_arr a1 (w, T) \<noteq> 0" using R(3,4) c assms(8) by simp_all
    moreover have "\<not> oob a1" using R(2) inv(2) by simp
    ultimately show ?thesis
      using assms(5-7) w r al d(3) by (cases ok2) (simp_all add: PeerAddBAReqAction_def addba_decide_def size_defs Let_def)
  qed
  ultimately show ?thesis using d(1,6) assms(9) by (auto simp: size_defs)
qed

definition linked_peer :: RTMP_ADAPTER where
  "linked_peer = peer_adapter\<lparr>Hash := (Hash peer_adapter)[0 := Some 1], Size := 1\<rparr>"

lemma linked_peer_ok: "adapter_inv linked_peer ((\<lambda>_. [])(0 := [1]))" "used_entries linked_peer = {1}" "mem linked_peer = []"
proof -
  have c: "Content linked_peer = Content peer_adapter" by (simp add: linked_peer_def)
  show u: "used_entries linked_peer = {1}"
    by (auto simp: used_entries_def c peer_entry entry_none_def split: if_splits)
  have h: "hash_of linked_peer 1 = 0" by (simp add: c peer_entry zero_entry_def MAC_ADDR_HASH_INDEX_def)
  have n: "pNext (Content peer_adapter ! 1) = None" by (simp add: peer_entry zero_entry_def)
  have hh: "Hash linked_peer ! k = (if k = 0 then Some 1 else None)" if "k < 256" for k
    using that by (simp add: linked_peer_def peer_adapter_def zero_adapter_def size_defs nth_list_update)
  have "mac_rep linked_peer ((\<lambda>_. [])(0 := [1]))"
    using u h n hh by (auto simp: mac_rep_def c peer_entry entry_none_def)
       (auto simp: linked_peer_def peer_adapter_def zero_adapter_def size_defs)
  moreover have "ba_inv linked_peer"
    by (rule ba_inv_content [OF peer_adapter_inv])
       (use peer_adapter_inv in \<open>simp_all add: ba_inv_def shape_def linked_peer_def rec_arr_def ori_arr_def\<close>)
  moreover have "idle_clean linked_peer"
    by (simp add: idle_clean_def c rec_arr_def ori_arr_def peer_entry)
  ultimately show "adapter_inv linked_peer ((\<lambda>_. [])(0 := [1]))" by (simp add: adapter_inv_def linked_peer_def)
  show "mem linked_peer = []" by (simp add: linked_peer_def)
qed

theorem deleted_peer_opens_session_witness:
  "\<exists>a'. MacTableDeleteEntry linked_peer 1 (replicate 6 0) = Some (True, a') \<and> entry_none (Content a' ! 1) \<and> rec_arr a' (1, 5) = 0 \<and>
     (card (busy (rec_used a')) < 127 \<longrightarrow> rec_arr (PeerAddBAReqAction ex_cfg a' (addba_elem 5)) (1, 5) \<noteq> 0)"
proof -
  have a: "Addr (Content linked_peer ! 1) = replicate 6 0" "HtSta (Content linked_peer ! 1)"
    by (simp_all add: linked_peer_def peer_entry zero_entry_def)
  have t: "(5 :: nat) = unat (par_TID (req_BaParm (addba_req_of (el_Msg (addba_elem 5)))))" by (simp add: addba_elem_5)
  show ?thesis
    using deleted_peer_opens_session [OF linked_peer_ok(1,3) _ a(2) addba_elem_5(1,2) _ t, of ex_cfg] linked_peer_ok(2) a(1)
    by (simp add: ex_cfg_def size_defs)
qed

end
