(* ===== verification/Mlme_Queue.thy ===== *)
theory Mlme_Queue
  imports Driver_Prelude
begin

text \<open>
  The queue between the driver's threads and the management state machines
  (\<^verbatim>\<open>common/mlme.c\<close>, \<^verbatim>\<open>include/mlme.h\<close>): a ring of 40 elements that the receive
  path, the timers and the ioctl handlers fill and the MLME task empties.

  \<^item> \<open>Num\<close>, \<open>Head\<close> and \<open>Tail\<close> are the C counters, at their width; a pointer to an
    element is its index in \<open>Entry\<close>.
  \<^item> A message is passed by pointer, so it is the memory at that pointer, a function
    from offsets to bytes; \<open>None\<close> is NULL. Reads past the length that the caller
    declares see the bytes that follow the message.
  \<^item> The critical sections of the two enqueue functions are \<open>queue_put\<close>; the test for
    a full queue is a critical section of its own, as in the code.
  \<^item> Calls that leave the modelled state alone (timers, radio, wireless events, waking
    the MLME task) are recorded in \<open>Events\<close> in order.
\<close>

section \<open>Data\<close>

definition MAX_LEN_OF_MLME_QUEUE :: nat where "MAX_LEN_OF_MLME_QUEUE = 40"
definition MGMT_DMA_BUFFER_SIZE :: nat where "MGMT_DMA_BUFFER_SIZE = 1600"

type_synonym mem = "nat \<Rightarrow> UINT8"

record MLME_QUEUE_ELEM =
  Msg :: bytes
  Machine :: ULONG
  MsgType :: ULONG
  MsgLen :: ULONG
  TimeStampLow :: UINT32
  TimeStampHigh :: UINT32
  Rssi0 :: UINT8
  Rssi1 :: UINT8
  Rssi2 :: UINT8
  Signal :: UINT8
  Channel :: UINT8
  Wcid :: UINT8
  Occupied :: bool
  OpMode :: UINT8
  Priv :: ULONG

record MLME_QUEUE =
  Num :: ULONG
  Head :: ULONG
  Tail :: ULONG
  Entry :: "MLME_QUEUE_ELEM list"

section \<open>Operations on the ring\<close>

definition MlmeQueueInit :: "MLME_QUEUE \<Rightarrow> MLME_QUEUE" where
  "MlmeQueueInit q = q\<lparr>Num := 0, Head := 0, Tail := 0,
     Entry := map (\<lambda>e. e\<lparr>Occupied := False, MsgLen := 0, Msg := replicate MGMT_DMA_BUFFER_SIZE 0\<rparr>) (Entry q)\<rparr>"

definition MlmeQueueDestroy :: "MLME_QUEUE \<Rightarrow> MLME_QUEUE" where
  "MlmeQueueDestroy q = q\<lparr>Num := 0, Head := 0, Tail := 0\<rparr>"

definition MlmeQueueEmpty :: "MLME_QUEUE \<Rightarrow> bool" where
  "MlmeQueueEmpty q \<longleftrightarrow> Num q = 0"

definition MlmeQueueFull :: "MLME_QUEUE \<Rightarrow> UINT8 \<Rightarrow> bool" where
  "MlmeQueueFull q SendId = (if SendId = 0
     then of_nat (MAX_LEN_OF_MLME_QUEUE div 2) \<le> Num q \<or> Occupied (Entry q ! unat (Tail q))
     else Num q = of_nat MAX_LEN_OF_MLME_QUEUE)"

definition next_slot :: "ULONG \<Rightarrow> ULONG" where
  "next_slot i = (if i + 1 = of_nat MAX_LEN_OF_MLME_QUEUE then 0 else i + 1)"

definition queue_put :: "(MLME_QUEUE_ELEM \<Rightarrow> MLME_QUEUE_ELEM) \<Rightarrow> MLME_QUEUE \<Rightarrow> MLME_QUEUE" where
  "queue_put fill q = q\<lparr>Tail := next_slot (Tail q), Num := Num q + 1,
     Entry := (Entry q)[unat (Tail q) := fill (Entry q ! unat (Tail q))]\<rparr>"

definition MlmeDequeue :: "MLME_QUEUE \<Rightarrow> nat \<times> MLME_QUEUE" where
  "MlmeDequeue q = (unat (Head q), q\<lparr>Num := Num q - 1, Head := next_slot (Head q)\<rparr>)"

text \<open>\<^verbatim>\<open>NdisMoveMemory\<close> of \<open>n\<close> bytes at a pointer into the element's buffer.\<close>

definition copy_msg :: "mem option \<Rightarrow> ULONG \<Rightarrow> bytes \<Rightarrow> bytes" where
  "copy_msg m n buf = (case m of None \<Rightarrow> buf | Some p \<Rightarrow> move_at buf 0 (map p [0..<unat n]))"

section \<open>The adapter\<close>

text \<open>The names of the functions in the transition tables.\<close>

datatype sm_func = Drop
  | MlmeAssocReqAction | MlmeReassocReqAction | MlmeDisassocReqAction | PeerDisassocAction
  | InvalidStateWhenAssoc | InvalidStateWhenReassoc | InvalidStateWhenDisassociate
  | PeerAssocRspAction | PeerReassocRspAction
  | AssocTimeoutAction | ReassocTimeoutAction | DisassocTimeoutAction
  | MlmeAuthReqAction | InvalidStateWhenAuth | PeerAuthRspAtSeq2Action | PeerAuthRspAtSeq4Action
  | AuthTimeoutAction | PeerDeauthAction
  | MlmeScanReqAction | MlmeForceScanReqAction | MlmeJoinReqAction | MlmeForceJoinReqAction
  | MlmeStartReqAction | PeerBeacon | PeerProbeReqAction | InvalidStateWhenStart
  | PeerBeaconAtJoinAction | BeaconTimeoutAtJoinAction | PeerBeaconAtScanAction | ScanTimeoutAction
  | PeerSpectrumAction | PeerQOSAction | ReservedAction | PeerBAAction | PeerHTAction
  | MlmeADDBAAction | MlmeDELBAAction | PeerPublicAction | PeerRMAction | MlmeQOSAction
  | MlmeDLSAction | MlmeInvalidAction
  | WpaEAPPacketAction | WpaEAPOLStartAction | WpaEAPOLLogoffAction | WpaEAPOLKeyAction
  | WpaEAPOLASFAlertAction
  | MlmeCntlMachinePerformAction

record STATE_MACHINE =
  Base :: ULONG
  NrState :: ULONG
  NrMsg :: ULONG
  CurrState :: ULONG
  TransFunc :: "sm_func list"

datatype mlme_timer = AssocTimer | ReassocTimer | DisassocTimer | AuthTimer | BeaconTimer | ScanTimer
  | LinkDownTimer | StaQuickResponeForRateUpTimer | WpaDisassocAndBlockAssocTimer | AutoWakeupTimer
  | PeriodicTimer | RxAntEvalTimer

datatype mlme_event =
    InitTimer mlme_timer
  | SetTimer mlme_timer ULONG
  | CancelTimer mlme_timer
  | SwitchChannel UINT8
  | LockChannel UINT8
  | SetAgc UINT8
  | SetBw UINT8
  | DeQueuePackets
  | ScanTabInit
  | Cls2err
  | MlmeTaskUp
  | Restarted MLME_QUEUE_ELEM
  | Performed sm_func MLME_QUEUE_ELEM
  | Illegal MLME_QUEUE_ELEM

record MLME_STRUCT =
  CntlMachine :: STATE_MACHINE
  AssocMachine :: STATE_MACHINE
  AuthMachine :: STATE_MACHINE
  AuthRspMachine :: STATE_MACHINE
  SyncMachine :: STATE_MACHINE
  WpaPskMachine :: STATE_MACHINE
  ActMachine :: STATE_MACHINE
  WpaMachine :: STATE_MACHINE
  bRunning :: bool
  Queue :: MLME_QUEUE

record MLME_ADAPTER =
  Mlme :: MLME_STRUCT
  Flags :: ULONG
  LatchChannel :: UINT8
  CfgChannel :: UINT8
  CentralChannel :: UINT8
  R66CurrentValue :: UINT8
  BBPCurrentBW :: UINT8
  bbp_bw :: UINT8
  Events :: "mlme_event list"

definition fRTMP_ADAPTER_MLME_RESET_IN_PROGRESS :: ULONG where "fRTMP_ADAPTER_MLME_RESET_IN_PROGRESS = 0x20"
definition fRTMP_ADAPTER_HALT_IN_PROGRESS :: ULONG where "fRTMP_ADAPTER_HALT_IN_PROGRESS = 0x40"
definition fRTMP_ADAPTER_NIC_NOT_EXIST :: ULONG where "fRTMP_ADAPTER_NIC_NOT_EXIST = 0x100"
definition fRTMP_ADAPTER_BSS_SCAN_IN_PROGRESS :: ULONG where "fRTMP_ADAPTER_BSS_SCAN_IN_PROGRESS = 0x4000"
definition fRTMP_ADAPTER_SUSPEND :: ULONG where "fRTMP_ADAPTER_SUSPEND = 0x800000"

definition RTMP_TEST_FLAG :: "MLME_ADAPTER \<Rightarrow> ULONG \<Rightarrow> bool" where
  "RTMP_TEST_FLAG a f \<longleftrightarrow> Flags a AND f \<noteq> 0"

definition log_ev :: "mlme_event \<Rightarrow> MLME_ADAPTER \<Rightarrow> MLME_ADAPTER" where
  "log_ev e a = a\<lparr>Events := Events a @ [e]\<rparr>"

definition upd_queue :: "(MLME_QUEUE \<Rightarrow> MLME_QUEUE) \<Rightarrow> MLME_ADAPTER \<Rightarrow> MLME_ADAPTER" where
  "upd_queue f a = a\<lparr>Mlme := (Mlme a)\<lparr>Queue := f (Queue (Mlme a))\<rparr>\<rparr>"

abbreviation the_queue :: "MLME_ADAPTER \<Rightarrow> MLME_QUEUE" where
  "the_queue a \<equiv> Queue (Mlme a)"

section \<open>Machine and message numbers\<close>

definition ASSOC_STATE_MACHINE :: ULONG where "ASSOC_STATE_MACHINE = 1"
definition AUTH_STATE_MACHINE :: ULONG where "AUTH_STATE_MACHINE = 2"
definition AUTH_RSP_STATE_MACHINE :: ULONG where "AUTH_RSP_STATE_MACHINE = 3"
definition SYNC_STATE_MACHINE :: ULONG where "SYNC_STATE_MACHINE = 4"
definition MLME_CNTL_STATE_MACHINE :: ULONG where "MLME_CNTL_STATE_MACHINE = 5"
definition WPA_PSK_STATE_MACHINE :: ULONG where "WPA_PSK_STATE_MACHINE = 6"
definition ACTION_STATE_MACHINE :: ULONG where "ACTION_STATE_MACHINE = 9"
definition WPA_STATE_MACHINE :: ULONG where "WPA_STATE_MACHINE = 23"

lemmas machine_defs = ASSOC_STATE_MACHINE_def AUTH_STATE_MACHINE_def AUTH_RSP_STATE_MACHINE_def
  SYNC_STATE_MACHINE_def MLME_CNTL_STATE_MACHINE_def WPA_PSK_STATE_MACHINE_def
  ACTION_STATE_MACHINE_def WPA_STATE_MACHINE_def

definition RESERVED_WCID :: UINT8 where "RESERVED_WCID = 0xff"
definition LENGTH_802_11 :: nat where "LENGTH_802_11 = 24"
definition LENGTH_802_1_H :: nat where "LENGTH_802_1_H = 8"
definition BTYPE_DATA :: UINT8 where "BTYPE_DATA = 2"
definition MAX_PEER_CATE_MSG :: UINT8 where "MAX_PEER_CATE_MSG = 17"
definition MT2_ACT_INVALID :: ULONG where "MT2_ACT_INVALID = 23"
definition MT2_RESET_CONF :: ULONG where "MT2_RESET_CONF = 45"

text \<open>The bit fields of the frame control word and the 16-bit fields of the body.\<close>

definition FC_Type :: "mem \<Rightarrow> UINT8" where
  "FC_Type p = drop_bit 2 (p 0) AND 3"

definition FC_SubType :: "mem \<Rightarrow> UINT8" where
  "FC_SubType p = drop_bit 4 (p 0)"

definition Octet :: "mem \<Rightarrow> nat \<Rightarrow> UINT8" where
  "Octet p i = p (LENGTH_802_11 + i)"

definition le16 :: "UINT8 \<Rightarrow> UINT8 \<Rightarrow> UINT16" where
  "le16 lo hi = ucast lo OR push_bit 8 (ucast hi)"

section \<open>Enqueue\<close>

definition WpaMsgTypeSubst :: "UINT8 \<Rightarrow> ULONG option" where
  "WpaMsgTypeSubst EAPType = (
     if EAPType = 0 then Some 0
     else if EAPType = 1 then Some 1
     else if EAPType = 2 then Some 2
     else if EAPType = 3 then Some 3
     else if EAPType = 4 then Some 4
     else None)"

text \<open>
  The machine and the message type of a received frame; \<open>None\<close> is the return value
  FALSE. The out parameters keep the caller's values where the code does not assign
  them (an authentication frame of another algorithm).
\<close>

definition MsgTypeSubst :: "mem \<Rightarrow> ULONG \<times> ULONG \<Rightarrow> (ULONG \<times> ULONG) option" where
  "MsgTypeSubst p out = (
     if FC_Type p = BTYPE_DATA then
       map_option (Pair WPA_STATE_MACHINE) (WpaMsgTypeSubst (p (LENGTH_802_11 + LENGTH_802_1_H + 1)))
     else let st = FC_SubType p in
       if st = 0 then Some (ASSOC_STATE_MACHINE, 4)
       else if st = 1 then Some (ASSOC_STATE_MACHINE, 5)
       else if st = 2 then Some (ASSOC_STATE_MACHINE, 6)
       else if st = 3 then Some (ASSOC_STATE_MACHINE, 7)
       else if st = 4 then Some (SYNC_STATE_MACHINE, 9)
       else if st = 5 then Some (SYNC_STATE_MACHINE, 4)
       else if st = 8 then Some (SYNC_STATE_MACHINE, 3)
       else if st = 9 then Some (SYNC_STATE_MACHINE, 5)
       else if st = 10 then Some (ASSOC_STATE_MACHINE, 3)
       else if st = 11 then
         (let Seq = le16 (Octet p 2) (Octet p 3); Alg = le16 (Octet p 0) (Octet p 1)
          in if Seq = 1 \<or> Seq = 3 then Some (AUTH_RSP_STATE_MACHINE, 1)
             else if Seq = 2 \<or> Seq = 4 then
               (if Alg = 0 \<or> Alg = 1 then Some (AUTH_STATE_MACHINE, 1) else Some out)
             else None)
       else if st = 12 then Some (AUTH_RSP_STATE_MACHINE, 2)
       else if st = 13 \<or> st = 14 then
         (let c = Octet p 0 AND 0x7F
          in Some (ACTION_STATE_MACHINE, if MAX_PEER_CATE_MSG < c then MT2_ACT_INVALID else ucast c))
       else None)"

definition fill_local :: "ULONG \<Rightarrow> ULONG \<Rightarrow> ULONG \<Rightarrow> mem option \<Rightarrow> ULONG \<Rightarrow> MLME_QUEUE_ELEM \<Rightarrow> MLME_QUEUE_ELEM"
  where
  "fill_local mach mt len msg prv e = e\<lparr>Wcid := RESERVED_WCID, Occupied := True, Machine := mach,
     MsgType := mt, MsgLen := len, Priv := prv, Msg := copy_msg msg len (Msg e)\<rparr>"

definition MlmeEnqueue ::
    "ULONG \<Rightarrow> ULONG \<Rightarrow> ULONG \<Rightarrow> mem option \<Rightarrow> ULONG \<Rightarrow> MLME_ADAPTER \<Rightarrow> bool \<times> MLME_ADAPTER" where
  "MlmeEnqueue mach mt len msg prv a = (
     if RTMP_TEST_FLAG a (fRTMP_ADAPTER_HALT_IN_PROGRESS OR fRTMP_ADAPTER_NIC_NOT_EXIST) then (False, a)
     else if of_nat MGMT_DMA_BUFFER_SIZE < len then (False, a)
     else if MlmeQueueFull (the_queue a) 1 then (False, a)
     else (True, upd_queue (queue_put (fill_local mach mt len msg prv)) a))"

record rx_info =
  rx_Wcid :: ULONG
  rx_TimeStampHigh :: ULONG
  rx_TimeStampLow :: ULONG
  rx_Rssi0 :: UINT8
  rx_Rssi1 :: UINT8
  rx_Rssi2 :: UINT8
  rx_Signal :: UINT8
  rx_OpMode :: UINT8

definition fill_recv :: "rx_info \<Rightarrow> ULONG \<Rightarrow> mem \<Rightarrow> ULONG \<times> ULONG \<Rightarrow> UINT8 \<Rightarrow> MLME_QUEUE_ELEM \<Rightarrow> MLME_QUEUE_ELEM"
  where
  "fill_recv i len p mm ch e = e\<lparr>Occupied := True, Machine := fst mm, MsgType := snd mm, MsgLen := len,
     TimeStampLow := ucast (rx_TimeStampLow i), TimeStampHigh := ucast (rx_TimeStampHigh i),
     Rssi0 := rx_Rssi0 i, Rssi1 := rx_Rssi1 i, Rssi2 := rx_Rssi2 i, Signal := rx_Signal i,
     Wcid := ucast (rx_Wcid i), OpMode := rx_OpMode i, Priv := 0, Channel := ch,
     Msg := copy_msg (Some p) len (Msg e)\<rparr>"

definition MlmeEnqueueForRecv :: "rx_info \<Rightarrow> ULONG \<Rightarrow> mem \<Rightarrow> MLME_ADAPTER \<Rightarrow> bool \<times> MLME_ADAPTER" where
  "MlmeEnqueueForRecv i len p a = (
     if RTMP_TEST_FLAG a (fRTMP_ADAPTER_HALT_IN_PROGRESS OR fRTMP_ADAPTER_NIC_NOT_EXIST) then (False, a)
     else if of_nat MGMT_DMA_BUFFER_SIZE < len then (False, a)
     else if MlmeQueueFull (the_queue a) 0 then (False, a)
     else case MsgTypeSubst p (0xff, 0) of
         None \<Rightarrow> (False, a)
       | Some mm \<Rightarrow> (True, log_ev MlmeTaskUp (upd_queue (queue_put (fill_recv i len p mm (LatchChannel a))) a)))"

section \<open>Invariant and abstraction\<close>

text \<open>
  The ring is well formed when the counters describe a window of \<open>Num\<close> slots from
  \<open>Head\<close> on; its contents are the elements of that window in order, of which \<open>view\<close>
  keeps what a state machine is told: machine, message type, the bytes of the message
  and the private argument.
\<close>

type_synonym qmsg = "ULONG \<times> ULONG \<times> bytes \<times> ULONG"

definition slot :: "MLME_QUEUE \<Rightarrow> nat \<Rightarrow> nat" where
  "slot q k = (unat (Head q) + k) mod MAX_LEN_OF_MLME_QUEUE"

definition queue_wf :: "MLME_QUEUE \<Rightarrow> bool" where
  "queue_wf q \<longleftrightarrow> length (Entry q) = MAX_LEN_OF_MLME_QUEUE
     \<and> (\<forall>e \<in> set (Entry q). length (Msg e) = MGMT_DMA_BUFFER_SIZE)
     \<and> unat (Head q) < MAX_LEN_OF_MLME_QUEUE \<and> unat (Num q) \<le> MAX_LEN_OF_MLME_QUEUE
     \<and> unat (Tail q) = slot q (unat (Num q))"

definition view :: "MLME_QUEUE_ELEM \<Rightarrow> qmsg" where
  "view e = (Machine e, MsgType e, take (unat (MsgLen e)) (Msg e), Priv e)"

definition elems :: "MLME_QUEUE \<Rightarrow> MLME_QUEUE_ELEM list" where
  "elems q = map (\<lambda>k. Entry q ! slot q k) [0..<unat (Num q)]"

definition contents :: "MLME_QUEUE \<Rightarrow> qmsg list" where
  "contents q = map view (elems q)"

lemmas queue_consts = MAX_LEN_OF_MLME_QUEUE_def MGMT_DMA_BUFFER_SIZE_def

lemma length_elems [simp]: "length (elems q) = unat (Num q)"
  by (simp add: elems_def)

lemma length_contents [simp]: "length (contents q) = unat (Num q)"
  by (simp add: contents_def)

lemma queue_wfD:
  assumes "queue_wf q"
  shows "length (Entry q) = 40" "unat (Head q) < 40" "unat (Num q) \<le> 40"
    "unat (Tail q) = (unat (Head q) + unat (Num q)) mod 40"
    "unat (Tail q) < 40"
    "e \<in> set (Entry q) \<Longrightarrow> length (Msg e) = 1600"
  using assms by (auto simp: queue_wf_def slot_def queue_consts)

lemma slot_less [simp]: "slot q k < 40"
  by (simp add: slot_def queue_consts)

lemma wf_Msg [simp]: "queue_wf q \<Longrightarrow> i < 40 \<Longrightarrow> length (Msg (Entry q ! i)) = 1600"
  by (metis nth_mem queue_wfD(1) queue_wfD(6))

lemma unat_add_1: "unat (x :: ULONG) < 2 ^ 63 \<Longrightarrow> unat (x + 1) = unat x + 1"
  by (simp add: unat_word_ariths)

lemma unat_numeral_40: "unat (40 :: ULONG) = 40"
  by simp

lemma unat_numeral_39: "unat (39 :: ULONG) = 39"
  by simp

lemma unat_next_slot: "unat i < 40 \<Longrightarrow> unat (next_slot i) = (unat i + 1) mod 40"
proof -
  assume i: "unat i < 40"
  then have u: "unat (i + 1) = unat i + 1"
    by (intro unat_add_1) simp
  have "i + 1 = 40 \<longleftrightarrow> unat i + 1 = 40"
    using u by (metis unat_numeral_40 word_unat_eq_iff)
  then show ?thesis
    using i u by (auto simp: next_slot_def queue_consts)
qed

lemma mod_slot_inj: "(h + k) mod 40 = (h + n) mod 40 \<Longrightarrow> k < n \<Longrightarrow> n < 40 \<Longrightarrow> False" for h k n :: nat
  using mod_eq_dvd_iff_nat[of "h + k" "h + n" 40] nat_dvd_not_less[of "n - k" 40] by auto

lemma slot_put [simp]: "slot (queue_put f q) k = slot q k"
  by (simp add: slot_def queue_put_def)

lemma slot_neq_tail: "queue_wf q \<Longrightarrow> k < unat (Num q) \<Longrightarrow> unat (Num q) < 40 \<Longrightarrow> slot q k \<noteq> unat (Tail q)"
  using mod_slot_inj by (auto simp: slot_def queue_consts queue_wfD(4))

lemma unat_Num_put: "queue_wf q \<Longrightarrow> unat (Num (queue_put f q)) = unat (Num q) + 1"
  using queue_wfD(3)[of q] by (simp add: queue_put_def unat_add_1)

lemma elems_put:
  assumes "queue_wf q" and "unat (Num q) < 40"
  shows "elems (queue_put f q) = elems q @ [f (Entry q ! unat (Tail q))]"
proof -
  have t: "slot q (unat (Num q)) = unat (Tail q)" and tl: "unat (Tail q) < length (Entry q)"
    using assms(1) queue_wfD[OF assms(1)] by (auto simp: slot_def queue_consts)
  have "map (\<lambda>k. Entry (queue_put f q) ! slot q k) [0..<unat (Num q)] = elems q"
    unfolding elems_def using slot_neq_tail[OF assms(1) _ assms(2)]
    by (intro map_cong refl) (simp add: queue_put_def nth_list_update_neq[OF not_sym])
  moreover have "Entry (queue_put f q) ! slot q (unat (Num q)) = f (Entry q ! unat (Tail q))"
    unfolding t using tl by (simp add: queue_put_def)
  ultimately show ?thesis
    by (simp add: elems_def[of "queue_put f q"] unat_Num_put[OF assms(1)])
qed

lemma mod_Suc_slot: "((h + n) mod 40 + 1) mod 40 = (h + (n + 1)) mod 40" for h n :: nat
  by (simp add: mod_Suc_eq)

lemma queue_put_wf [wf_intros]:
  assumes "queue_wf q" and "unat (Num q) < 40"
    and "\<And>e. length (Msg e) = 1600 \<Longrightarrow> length (Msg (f e)) = 1600"
  shows "queue_wf (queue_put f q)"
proof -
  note D = queue_wfD[OF assms(1)]
  have e: "length (Msg e) = 1600" if "e \<in> set (Entry (queue_put f q))" for e
  proof -
    have "e \<in> insert (f (Entry q ! unat (Tail q))) (set (Entry q))"
      using that set_update_subset_insert by (fastforce simp: queue_put_def)
    then show ?thesis
      using D(5,6) assms(1,3) by auto
  qed
  have "unat (Tail (queue_put f q)) = slot q (unat (Num q) + 1)"
    using D(5) mod_Suc_slot[of "unat (Head q)" "unat (Num q)"]
    by (simp add: queue_put_def unat_next_slot D(4) slot_def queue_consts)
  then show ?thesis
    using D(1,2) assms(2) e unat_Num_put[OF assms(1), of f]
    by (auto simp: queue_wf_def queue_consts) (simp_all add: queue_put_def)
qed

lemma unat_sub_1: "x \<noteq> 0 \<Longrightarrow> unat (x - 1 :: ULONG) = unat x - 1"
  by (simp add: unat_minus_one)

lemma fst_MlmeDequeue [simp]: "fst (MlmeDequeue q) = unat (Head q)"
  and Entry_MlmeDequeue [simp]: "Entry (snd (MlmeDequeue q)) = Entry q"
  and Tail_MlmeDequeue [simp]: "Tail (snd (MlmeDequeue q)) = Tail q"
  and Num_MlmeDequeue: "Num (snd (MlmeDequeue q)) = Num q - 1"
  by (simp_all add: MlmeDequeue_def)

lemma slot_dequeue: "queue_wf q \<Longrightarrow> slot (snd (MlmeDequeue q)) k = slot q (k + 1)"
  using queue_wfD(2)[of q] by (simp add: MlmeDequeue_def slot_def unat_next_slot queue_consts mod_simps)

lemma MlmeDequeue_wf [wf_intros]:
  assumes "queue_wf q" and "Num q \<noteq> 0"
  shows "queue_wf (snd (MlmeDequeue q))"
proof -
  have n: "unat (Num q - 1) = unat (Num q) - 1" "unat (Num q) > 0"
    using assms(2) by (simp_all add: unat_sub_1 unat_gt_0)
  have "unat (Head (snd (MlmeDequeue q))) < 40"
    using queue_wfD(2)[OF assms(1)] by (simp add: MlmeDequeue_def unat_next_slot)
  then show ?thesis
    using assms(1) n slot_dequeue[OF assms(1), of "unat (Num q) - 1"]
    by (auto simp: queue_wf_def queue_consts Num_MlmeDequeue)
qed

lemma elems_dequeue:
  assumes "queue_wf q" and "Num q \<noteq> 0"
  shows "elems q = Entry q ! fst (MlmeDequeue q) # elems (snd (MlmeDequeue q))"
proof -
  have n: "unat (Num q) = Suc (unat (Num q - 1))"
    using assms(2) by (simp add: unat_sub_1 unat_gt_0)
  have "slot q 0 = unat (Head q)"
    using queue_wfD(2)[OF assms(1)] by (simp add: slot_def queue_consts)
  moreover have "map (\<lambda>k. Entry q ! slot q k) [1..<Suc (unat (Num q - 1))]
      = map (\<lambda>k. Entry q ! slot q (k + 1)) [0..<unat (Num q - 1)]"
    by (simp only: map_Suc_upt[symmetric] One_nat_def map_map comp_def add_Suc_right add_0_right)
  ultimately show ?thesis
    by (simp only: elems_def n upt_conv_Cons[OF zero_less_Suc] list.map slot_dequeue[OF assms(1)]
        Num_MlmeDequeue fst_MlmeDequeue Entry_MlmeDequeue One_nat_def)
qed

section \<open>The contract of a bounded FIFO\<close>

text \<open>
  What the senders and the MLME task rely on: a message that is admitted is appended, one
  that is refused leaves the queue alone, and messages come out in the order in which they
  went in. \<open>qrun\<close> is a sequence of sends and receives as the threads interleave them; a
  receive is guarded by the emptiness test as in the loop of the MLME task.
\<close>

datatype 'm qop = Send 'm | Receive

fun qrun :: "('m \<Rightarrow> 's \<Rightarrow> bool \<times> 's) \<Rightarrow> ('s \<Rightarrow> bool) \<Rightarrow> ('s \<Rightarrow> 'v \<times> 's) \<Rightarrow> 'm qop list \<Rightarrow> 's \<Rightarrow>
    'm list \<times> 'v list \<times> 's" where
  "qrun enq isempty deq [] s = ([], [], s)"
| "qrun enq isempty deq (Send m # ops) s =
     (case enq m s of (ok, s1) \<Rightarrow>
      case qrun enq isempty deq ops s1 of (acc, del, s2) \<Rightarrow> (if ok then m # acc else acc, del, s2))"
| "qrun enq isempty deq (Receive # ops) s =
     (if isempty s then qrun enq isempty deq ops s
      else case deq s of (v, s1) \<Rightarrow>
           case qrun enq isempty deq ops s1 of (acc, del, s2) \<Rightarrow> (acc, v # del, s2))"

locale bounded_fifo =
  fixes inv :: "'s \<Rightarrow> bool" and msgs :: "'s \<Rightarrow> 'v list" and cap :: nat
    and admits :: "'m \<Rightarrow> 's \<Rightarrow> bool" and shown :: "'m \<Rightarrow> 'v"
    and enq :: "'m \<Rightarrow> 's \<Rightarrow> bool \<times> 's" and isempty :: "'s \<Rightarrow> bool" and deq :: "'s \<Rightarrow> 'v \<times> 's"
  assumes bounded: "inv s \<Longrightarrow> length (msgs s) \<le> cap"
    and enq_admitted: "inv s \<Longrightarrow> admits m s \<Longrightarrow>
      \<exists>s'. enq m s = (True, s') \<and> inv s' \<and> msgs s' = msgs s @ [shown m]"
    and enq_refused: "inv s \<Longrightarrow> \<not> admits m s \<Longrightarrow> enq m s = (False, s)"
    and isempty_iff: "inv s \<Longrightarrow> isempty s \<longleftrightarrow> msgs s = []"
    and deq_head: "inv s \<Longrightarrow> msgs s \<noteq> [] \<Longrightarrow>
      inv (snd (deq s)) \<and> msgs s = fst (deq s) # msgs (snd (deq s))"
begin

lemma run_fifo:
  "inv s \<Longrightarrow> qrun enq isempty deq ops s = (acc, del, s') \<Longrightarrow>
     inv s' \<and> msgs s @ map shown acc = del @ msgs s'"
proof (induction ops arbitrary: s acc del)
  case Nil
  then show ?case by simp
next
  case (Cons x ops)
  show ?case
  proof (cases x)
    case (Send m)
    show ?thesis
    proof (cases "admits m s")
      case True
      then obtain s1 where "enq m s = (True, s1)" "inv s1" "msgs s1 = msgs s @ [shown m]"
        using enq_admitted Cons.prems(1) by blast
      then show ?thesis
        using Cons.IH[of s1] Cons.prems(2) Send by (auto split: prod.splits)
    next
      case False
      then show ?thesis
        using Cons.IH[of s] Cons.prems Send by (auto simp: enq_refused split: prod.splits)
    qed
  next
    case Receive
    show ?thesis
    proof (cases "isempty s")
      case True
      then show ?thesis
        using Cons.IH[of s] Cons.prems Receive by simp
    next
      case False
      then have "inv (snd (deq s))" "msgs s = fst (deq s) # msgs (snd (deq s))"
        using deq_head isempty_iff Cons.prems(1) by auto
      then show ?thesis
        using Cons.IH[of "snd (deq s)"] Cons.prems(2) Receive False by (auto split: prod.splits)
    qed
  qed
qed

lemma run_bounded:
  "inv s \<Longrightarrow> qrun enq isempty deq ops s = (acc, del, s') \<Longrightarrow>
     length acc \<le> length del + cap"
  using run_fifo[of s ops acc del s'] bounded[of s']
  by (metis add_le_mono le_refl length_append length_map le_add2 order_trans)

end

section \<open>The MLME queue keeps it\<close>

text \<open>
  The two ways into the queue: \<open>Post\<close> is \<^verbatim>\<open>MlmeEnqueue\<close> with a message buffer,
  \<open>Frame\<close> is \<^verbatim>\<open>MlmeEnqueueForRecv\<close>.
\<close>

datatype mlme_post = Post ULONG ULONG ULONG mem ULONG | Frame rx_info ULONG mem

fun post :: "mlme_post \<Rightarrow> MLME_ADAPTER \<Rightarrow> bool \<times> MLME_ADAPTER" where
  "post (Post mach mt len p prv) a = MlmeEnqueue mach mt len (Some p) prv a"
| "post (Frame i len p) a = MlmeEnqueueForRecv i len p a"

fun admitted :: "mlme_post \<Rightarrow> MLME_ADAPTER \<Rightarrow> bool" where
  "admitted (Post mach mt len p prv) a \<longleftrightarrow>
     \<not> RTMP_TEST_FLAG a (fRTMP_ADAPTER_HALT_IN_PROGRESS OR fRTMP_ADAPTER_NIC_NOT_EXIST)
     \<and> unat len \<le> MGMT_DMA_BUFFER_SIZE \<and> length (contents (the_queue a)) < MAX_LEN_OF_MLME_QUEUE"
| "admitted (Frame i len p) a \<longleftrightarrow>
     \<not> RTMP_TEST_FLAG a (fRTMP_ADAPTER_HALT_IN_PROGRESS OR fRTMP_ADAPTER_NIC_NOT_EXIST)
     \<and> unat len \<le> MGMT_DMA_BUFFER_SIZE \<and> length (contents (the_queue a)) < MAX_LEN_OF_MLME_QUEUE div 2
     \<and> \<not> Occupied (Entry (the_queue a) ! unat (Tail (the_queue a)))
     \<and> MsgTypeSubst p (0xff, 0) \<noteq> None"

fun posted :: "mlme_post \<Rightarrow> qmsg" where
  "posted (Post mach mt len p prv) = (mach, mt, map p [0..<unat len], prv)"
| "posted (Frame i len p) =
     (fst (the (MsgTypeSubst p (0xff, 0))), snd (the (MsgTypeSubst p (0xff, 0))), map p [0..<unat len], 0)"

definition take_message :: "MLME_ADAPTER \<Rightarrow> qmsg \<times> MLME_ADAPTER" where
  "take_message a = (case MlmeDequeue (the_queue a) of
     (i, q) \<Rightarrow> (view (Entry q ! i), upd_queue (\<lambda>_. q) a))"

lemma upd_queue_simps [simp]:
  "the_queue (upd_queue f a) = f (the_queue a)" "Flags (upd_queue f a) = Flags a"
  "the_queue (log_ev e a) = the_queue a" "Flags (log_ev e a) = Flags a"
  "LatchChannel (upd_queue f a) = LatchChannel a" "Events (upd_queue f a) = Events a"
  "Events (log_ev e a) = Events a @ [e]" "Mlme (log_ev e a) = Mlme a"
  by (simp_all add: upd_queue_def log_ev_def)

lemma length_copy_msg [simp]: "unat len \<le> length buf \<Longrightarrow> length (copy_msg m len buf) = length buf"
  by (simp add: copy_msg_def split: option.splits)

lemma take_copy_msg [simp]:
  "unat len \<le> length buf \<Longrightarrow> take (unat len) (copy_msg (Some p) len buf) = map p [0..<unat len]"
  by (simp add: copy_msg_def move_at_def)

lemma len_ok: "\<not> (1600 :: ULONG) < len \<longleftrightarrow> unat len \<le> 1600"
  by (simp add: not_less word_le_nat_alt)

lemma full_local: "queue_wf q \<Longrightarrow> MlmeQueueFull q 1 \<longleftrightarrow> \<not> unat (Num q) < 40"
  using queue_wfD(3)[of q] unat_numeral_40 by (auto simp: MlmeQueueFull_def queue_consts word_unat_eq_iff)

lemma full_recv:
  "MlmeQueueFull q 0 \<longleftrightarrow> \<not> unat (Num q) < 20 \<or> Occupied (Entry q ! unat (Tail q))"
  by (simp add: MlmeQueueFull_def queue_consts word_le_nat_alt not_less)

lemma MlmeEnqueue_admitted:
  assumes "queue_wf (the_queue a)" and "admitted (Post mach mt len p prv) a"
  shows "\<exists>a'. MlmeEnqueue mach mt len (Some p) prv a = (True, a') \<and> queue_wf (the_queue a')
    \<and> contents (the_queue a') = contents (the_queue a) @ [(mach, mt, map p [0..<unat len], prv)]"
  using assms queue_wfD(5)[OF assms(1)]
  by (auto simp: MlmeEnqueue_def full_local queue_consts len_ok contents_def elems_put view_def
      fill_local_def intro!: queue_put_wf)

lemma MlmeEnqueueForRecv_admitted:
  assumes "queue_wf (the_queue a)" and "admitted (Frame i len p) a"
  shows "\<exists>a'. MlmeEnqueueForRecv i len p a = (True, a') \<and> queue_wf (the_queue a')
    \<and> contents (the_queue a') = contents (the_queue a) @ [posted (Frame i len p)]"
  using assms queue_wfD(5)[OF assms(1)]
  by (auto simp: MlmeEnqueueForRecv_def full_recv queue_consts len_ok contents_def elems_put view_def
      fill_recv_def intro!: queue_put_wf)

lemma post_refused: "queue_wf (the_queue a) \<Longrightarrow> \<not> admitted m a \<Longrightarrow> post m a = (False, a)"
  by (cases m) (auto simp: MlmeEnqueue_def MlmeEnqueueForRecv_def full_local full_recv queue_consts len_ok
      split: option.splits)

lemma take_message_head:
  assumes "queue_wf (the_queue a)" and "contents (the_queue a) \<noteq> []"
  shows "queue_wf (the_queue (snd (take_message a)))
    \<and> contents (the_queue a) = fst (take_message a) # contents (the_queue (snd (take_message a)))"
proof -
  have "Num (the_queue a) \<noteq> 0"
    using assms(2) by (auto simp: contents_def elems_def)
  then have "queue_wf (snd (MlmeDequeue (the_queue a)))"
    and "contents (the_queue a) = view (Entry (the_queue a) ! fst (MlmeDequeue (the_queue a)))
      # contents (snd (MlmeDequeue (the_queue a)))"
    using MlmeDequeue_wf[OF assms(1)] by (simp_all add: contents_def elems_dequeue[OF assms(1)])
  then show ?thesis
    by (simp add: take_message_def case_prod_beta)
qed

interpretation mq: bounded_fifo "\<lambda>a. queue_wf (the_queue a)" "\<lambda>a. contents (the_queue a)"
  MAX_LEN_OF_MLME_QUEUE admitted posted post "\<lambda>a. MlmeQueueEmpty (the_queue a)" take_message
proof unfold_locales
  fix a :: MLME_ADAPTER and m
  assume wf: "queue_wf (the_queue a)"
  show "length (contents (the_queue a)) \<le> MAX_LEN_OF_MLME_QUEUE"
    using queue_wfD(3)[OF wf] by (simp add: queue_consts)
  show "MlmeQueueEmpty (the_queue a) \<longleftrightarrow> contents (the_queue a) = []"
    by (auto simp: MlmeQueueEmpty_def contents_def elems_def unat_eq_0)
  show "\<exists>s'. post m a = (True, s') \<and> queue_wf (the_queue s')
      \<and> contents (the_queue s') = contents (the_queue a) @ [posted m]" if "admitted m a"
    using that MlmeEnqueue_admitted[OF wf] MlmeEnqueueForRecv_admitted[OF wf] by (cases m) auto
  show "post m a = (False, a)" if "\<not> admitted m a"
    using that post_refused[OF wf] by blast
  show "queue_wf (the_queue (snd (take_message a)))
      \<and> contents (the_queue a) = fst (take_message a) # contents (the_queue (snd (take_message a)))"
    if "contents (the_queue a) \<noteq> []"
    using that take_message_head[OF wf] by blast
qed

lemma MlmeQueueInit_wf [wf_intros]:
  assumes "length (Entry q) = MAX_LEN_OF_MLME_QUEUE"
  shows "queue_wf (MlmeQueueInit q)" and "contents (MlmeQueueInit q) = []"
  using assms by (auto simp: MlmeQueueInit_def queue_wf_def slot_def contents_def elems_def queue_consts)

section \<open>Properties\<close>

text \<open>
  \<^bold>\<open>C17\<close> Every entry point of the queue refines a bounded FIFO. In a well-formed
  state, a post is accepted exactly when the device is present, the message fits the
  element and there is room (half of the ring and a free slot for received frames, which
  also need a state machine that takes them); an accepted message is appended behind the
  queued ones, byte for byte, and a refused one changes nothing. \<^verbatim>\<open>MlmeQueueEmpty\<close>
  is exact, and \<^verbatim>\<open>MlmeDequeue\<close> hands out the oldest message.
\<close>

theorem mlme_queue_refines_fifo:
  assumes "queue_wf (the_queue a)"
  shows "fst (post m a) = admitted m a \<and> queue_wf (the_queue (snd (post m a)))
    \<and> contents (the_queue (snd (post m a)))
        = (if admitted m a then contents (the_queue a) @ [posted m] else contents (the_queue a))
    \<and> (\<not> admitted m a \<longrightarrow> snd (post m a) = a)
    \<and> (MlmeQueueEmpty (the_queue a) \<longleftrightarrow> contents (the_queue a) = [])
    \<and> (\<not> MlmeQueueEmpty (the_queue a) \<longrightarrow> queue_wf (the_queue (snd (take_message a)))
        \<and> contents (the_queue a) = fst (take_message a) # contents (the_queue (snd (take_message a))))"
proof (cases "admitted m a")
  case True
  then show ?thesis
    using mq.enq_admitted[OF assms True] mq.isempty_iff[OF assms] mq.deq_head[OF assms] by auto
next
  case False
  then show ?thesis
    using mq.enq_refused[OF assms False] assms mq.isempty_iff[OF assms] mq.deq_head[OF assms] by auto
qed

definition zero_elem :: MLME_QUEUE_ELEM where
  "zero_elem = \<lparr>Msg = replicate MGMT_DMA_BUFFER_SIZE 0, Machine = 0, MsgType = 0, MsgLen = 0, TimeStampLow = 0,
     TimeStampHigh = 0, Rssi0 = 0, Rssi1 = 0, Rssi2 = 0, Signal = 0, Channel = 0, Wcid = 0, Occupied = False,
     OpMode = 0, Priv = 0\<rparr>"

definition zero_machine :: STATE_MACHINE where
  "zero_machine = \<lparr>Base = 0, NrState = 0, NrMsg = 0, CurrState = 0, TransFunc = []\<rparr>"

definition zero_queue :: MLME_QUEUE where
  "zero_queue = \<lparr>Num = 0, Head = 0, Tail = 0, Entry = replicate MAX_LEN_OF_MLME_QUEUE zero_elem\<rparr>"

definition zero_mlme :: MLME_ADAPTER where
  "zero_mlme = \<lparr>Mlme = \<lparr>CntlMachine = zero_machine, AssocMachine = zero_machine, AuthMachine = zero_machine,
       AuthRspMachine = zero_machine, SyncMachine = zero_machine, WpaPskMachine = zero_machine,
       ActMachine = zero_machine, WpaMachine = zero_machine, bRunning = False, Queue = zero_queue\<rparr>,
     Flags = 0, LatchChannel = 6, CfgChannel = 6, CentralChannel = 6, R66CurrentValue = 0,
     BBPCurrentBW = 0, bbp_bw = 0, Events = []\<rparr>"

lemma zero_queue_wf: "queue_wf zero_queue" "Num zero_queue = 0" "Occupied (Entry zero_queue ! unat (Tail zero_queue)) = False"
  by (simp_all add: queue_wf_def zero_queue_def zero_elem_def slot_def queue_consts)

lemma the_queue_zero [simp]: "the_queue zero_mlme = zero_queue" "Flags zero_mlme = 0"
  by (simp_all add: zero_mlme_def)

text \<open>A beacon of four bytes is accepted for the SYNC machine on an empty queue.\<close>

definition beacon_mem :: mem where
  "beacon_mem = (\<lambda>i. if i = 0 then 0x80 else 7)"

definition zero_rx :: rx_info where
  "zero_rx = \<lparr>rx_Wcid = 1, rx_TimeStampHigh = 0, rx_TimeStampLow = 0, rx_Rssi0 = 0, rx_Rssi1 = 0, rx_Rssi2 = 0,
     rx_Signal = 0, rx_OpMode = 0\<rparr>"

lemma beacon_subst: "MsgTypeSubst beacon_mem (0xff, 0) = Some (SYNC_STATE_MACHINE, 3)"
  by (simp add: MsgTypeSubst_def FC_Type_def FC_SubType_def beacon_mem_def BTYPE_DATA_def)

lemma beacon_bytes: "map beacon_mem [0..<unat (4 :: ULONG)] = [0x80, 7, 7, 7]"
  by (simp add: beacon_mem_def upt_conv_Cons)

lemma beacon_admitted: "admitted (Frame zero_rx 4 beacon_mem) zero_mlme"
  using zero_queue_wf by (simp add: beacon_subst queue_consts RTMP_TEST_FLAG_def)

lemma zero_contents: "contents zero_queue = []"
  by (simp add: contents_def elems_def zero_queue_wf)

lemma mlme_queue_refines_fifo_witness:
  "queue_wf (the_queue zero_mlme) \<and> contents (the_queue (snd (post (Frame zero_rx 4 beacon_mem) zero_mlme)))
    = [(SYNC_STATE_MACHINE, 3, [0x80, 7, 7, 7], 0)]"
  using mlme_queue_refines_fifo[of zero_mlme "Frame zero_rx 4 beacon_mem"] zero_queue_wf(1) beacon_admitted
  by (simp only: the_queue_zero posted.simps beacon_subst beacon_bytes option.sel fst_conv snd_conv
      zero_contents if_True append_Nil simp_thms)

text \<open>
  Ordering across threads. From the initialised queue, however the sends and
  the receives of the MLME task are interleaved, the messages delivered followed by those
  still queued are exactly the accepted ones in the order of their acceptance: none is
  lost, duplicated, reordered or altered, and at most 40 are outstanding.
\<close>

theorem mlme_queue_fifo:
  assumes "length (Entry (the_queue a)) = MAX_LEN_OF_MLME_QUEUE"
    and "qrun post (\<lambda>s. MlmeQueueEmpty (the_queue s)) take_message ops (upd_queue MlmeQueueInit a) = (acc, del, a')"
  shows "map posted acc = del @ contents (the_queue a') \<and> length acc \<le> length del + 40"
  using mq.run_fifo[OF _ assms(2)] mq.run_bounded[OF _ assms(2)] MlmeQueueInit_wf[OF assms(1)]
  by (simp add: queue_consts)

lemma init_zero_queue: "MlmeQueueInit zero_queue = zero_queue"
  by (simp add: MlmeQueueInit_def zero_queue_def zero_elem_def)

definition start_mlme :: MLME_ADAPTER where
  "start_mlme = upd_queue MlmeQueueInit zero_mlme"

lemma start_mlme_eq: "start_mlme = zero_mlme"
  by (simp add: start_mlme_def upd_queue_def zero_mlme_def init_zero_queue)

lemma mlme_queue_fifo_witness:
  "\<exists>acc del a'. length (Entry (the_queue zero_mlme)) = MAX_LEN_OF_MLME_QUEUE
     \<and> qrun post (\<lambda>s. MlmeQueueEmpty (the_queue s)) take_message [Send (Frame zero_rx 4 beacon_mem), Receive]
         (upd_queue MlmeQueueInit zero_mlme) = (acc, del, a')
     \<and> map posted acc = del @ contents (the_queue a')"
  using mlme_queue_fifo[of zero_mlme "[Send (Frame zero_rx 4 beacon_mem), Receive]"]
  by (metis (no_types, lifting) prod_cases3 the_queue_zero(1) zero_queue_wf(1) queue_wf_def)

text \<open>
  The test for a full queue and the insertion are separate critical sections.
  When the queue has one free slot and two threads both pass the test before either
  inserts, the second insertion takes the slot of the oldest message that nobody has read
  yet, and the counter says 41 messages for 40 slots.
\<close>

theorem enqueue_check_race:
  assumes "queue_wf q" and "length (contents q) = 39"
    and "q2 = queue_put (fill_local m2 t2 l2 p2 v2) (queue_put (fill_local m1 t1 l1 p1 v1) q)"
  shows "\<not> MlmeQueueFull q 1 \<and> Num q2 = 41 \<and> \<not> queue_wf q2
    \<and> Entry q2 ! unat (Head q2) = fill_local m2 t2 l2 p2 v2 (Entry q ! unat (Head q))"
proof -
  define f g where "f = fill_local m1 t1 l1 p1 v1" and "g = fill_local m2 t2 l2 p2 v2"
  note D = queue_wfD[OF assms(1)]
  have n: "unat (Num q) = 39"
    using assms(2) by simp
  have t1: "unat (Tail (queue_put f q)) = unat (Head q)"
    using D(2,4,5) n mod_Suc_slot[of "unat (Head q)" 39]
    by (simp add: queue_put_def unat_next_slot)
  have ne: "unat (Tail q) \<noteq> unat (Head q)"
    using slot_neq_tail[OF assms(1), of 0] n D(2) by (simp add: slot_def queue_consts)
  have N: "Num q = 39"
    using n by (metis unat_numeral_39 word_unat_eq_iff)
  have q2: "q2 = queue_put g (queue_put f q)"
    by (simp add: assms(3) f_def g_def)
  have num: "Num q2 = 41"
    by (simp add: q2 queue_put_def N)
  moreover have "\<not> queue_wf q2"
    using queue_wfD(3)[of q2] num by auto
  moreover have "Entry q2 ! unat (Head q2) = g (Entry q ! unat (Head q))"
    using t1 ne D(1,2) by (simp add: q2 queue_put_def)
  moreover have "\<not> MlmeQueueFull q 1"
    using full_local[OF assms(1)] n by simp
  ultimately show ?thesis
    by (simp add: g_def)
qed

definition nearly_full :: MLME_QUEUE where
  "nearly_full = \<lparr>Num = 39, Head = 0, Tail = 39, Entry = replicate MAX_LEN_OF_MLME_QUEUE zero_elem\<rparr>"

lemma nearly_full_wf: "queue_wf nearly_full" "length (contents nearly_full) = 39"
  by (simp_all add: queue_wf_def nearly_full_def zero_elem_def slot_def queue_consts)

lemma enqueue_check_race_witness:
  "queue_wf nearly_full \<and> \<not> MlmeQueueFull nearly_full 1
    \<and> Num (queue_put (fill_local 1 0 0 None 0) (queue_put (fill_local 5 34 0 None 0) nearly_full)) = 41"
  using enqueue_check_race[OF nearly_full_wf refl, of 1 0 0 None 0 5 34 0 None 0] nearly_full_wf(1) by blast

end
