(* ===== verification/Mlme.thy ===== *)
theory Mlme
  imports Mlme_Queue
begin

text \<open>
  The management state machines and the task that drives them (\<^verbatim>\<open>common/mlme.c\<close>, the
  table set-up of \<^verbatim>\<open>sta/assoc.c\<close>, \<^verbatim>\<open>sta/auth.c\<close>, \<^verbatim>\<open>sta/auth_rsp.c\<close>,
  \<^verbatim>\<open>sta/sync.c\<close>, \<^verbatim>\<open>common/action.c\<close> and \<^verbatim>\<open>common/cmm_wpa.c\<close>, and the
  timer callbacks and timeout actions of the association, authentication and
  synchronisation machines).

  \<^item> A transition table is the array \<open>TransFunc\<close>, indexed as in the code by
    \<open>state * NrMsg + message - Base\<close>; an index outside the array has the result
    \<open>None\<close>, where the C program has no defined behaviour.
  \<^item> The functions in the tables act on the whole driver. They are the argument \<open>act\<close>
    of the handler, which receives the function's name and the index of the element;
    \<open>basic_action\<close> gives the bodies of those that only report to the control machine and
    leaves the others to its own argument.
  \<^item> The loop of \<^verbatim>\<open>MlmeHandler\<close> is a \<open>partial_function\<close>: \<open>None\<close> is also the
    result of not returning.
\<close>

section \<open>State machines\<close>

definition StateMachineInit :: "sm_func list \<Rightarrow> ULONG \<Rightarrow> ULONG \<Rightarrow> sm_func \<Rightarrow> ULONG \<Rightarrow> ULONG \<Rightarrow> STATE_MACHINE" where
  "StateMachineInit Trans StNr MsgNr DefFunc InitState base =
     \<lparr>Base = base, NrState = StNr, NrMsg = MsgNr, CurrState = InitState,
      TransFunc = fold (\<lambda>i t. fold (\<lambda>j t. t[i * unat MsgNr + j := DefFunc]) [0..<unat MsgNr] t) [0..<unat StNr] Trans\<rparr>"

definition StateMachineSetAction :: "ULONG \<Rightarrow> ULONG \<Rightarrow> sm_func \<Rightarrow> STATE_MACHINE \<Rightarrow> STATE_MACHINE" where
  "StateMachineSetAction St mt func S = (let MsgIdx = mt - Base S in
     if St < NrState S \<and> MsgIdx < NrMsg S
     then S\<lparr>TransFunc := (TransFunc S)[unat (St * NrMsg S + MsgIdx) := func]\<rparr> else S)"

definition sm_cell :: "STATE_MACHINE \<Rightarrow> ULONG \<Rightarrow> ULONG \<Rightarrow> sm_func option" where
  "sm_cell S st mt = (let i = unat (st * NrMsg S + mt - Base S)
     in if i < length (TransFunc S) then Some (TransFunc S ! i) else None)"

abbreviation set_actions :: "(ULONG \<times> ULONG \<times> sm_func) list \<Rightarrow> STATE_MACHINE \<Rightarrow> STATE_MACHINE" where
  "set_actions \<equiv> fold (\<lambda>(st, mt, f). StateMachineSetAction st mt f)"

definition AssocStateMachineInit :: "sm_func list \<Rightarrow> STATE_MACHINE" where
  "AssocStateMachineInit Trans = set_actions
     [(0, 0, MlmeAssocReqAction), (0, 1, MlmeReassocReqAction), (0, 2, MlmeDisassocReqAction),
      (0, 3, PeerDisassocAction),
      (1, 0, InvalidStateWhenAssoc), (1, 1, InvalidStateWhenReassoc), (1, 2, InvalidStateWhenDisassociate),
      (1, 3, PeerDisassocAction), (1, 5, PeerAssocRspAction), (1, 7, PeerAssocRspAction),
      (1, 9, AssocTimeoutAction),
      (2, 0, InvalidStateWhenAssoc), (2, 1, InvalidStateWhenReassoc), (2, 2, InvalidStateWhenDisassociate),
      (2, 3, PeerDisassocAction), (2, 7, PeerReassocRspAction), (2, 5, PeerReassocRspAction),
      (2, 10, ReassocTimeoutAction),
      (3, 0, InvalidStateWhenAssoc), (3, 1, InvalidStateWhenReassoc), (3, 2, InvalidStateWhenDisassociate),
      (3, 3, PeerDisassocAction), (3, 8, DisassocTimeoutAction)]
     (StateMachineInit Trans 4 11 Drop 0 0)"

definition AuthStateMachineInit :: "sm_func list \<Rightarrow> STATE_MACHINE" where
  "AuthStateMachineInit Trans = set_actions
     [(0, 0, MlmeAuthReqAction),
      (1, 0, InvalidStateWhenAuth), (1, 1, PeerAuthRspAtSeq2Action), (1, 2, AuthTimeoutAction),
      (2, 0, InvalidStateWhenAuth), (2, 1, PeerAuthRspAtSeq4Action), (2, 2, AuthTimeoutAction)]
     (StateMachineInit Trans 3 3 Drop 0 0)"

definition AuthRspStateMachineInit :: "sm_func list \<Rightarrow> STATE_MACHINE" where
  "AuthRspStateMachineInit Trans = set_actions
     [(0, 2, PeerDeauthAction), (1, 2, PeerDeauthAction)] (StateMachineInit Trans 2 3 Drop 0 0)"

definition SyncStateMachineInit :: "sm_func list \<Rightarrow> STATE_MACHINE" where
  "SyncStateMachineInit Trans = set_actions
     [(0, 0, MlmeScanReqAction), (0, 11, MlmeForceScanReqAction), (0, 1, MlmeJoinReqAction),
      (0, 10, MlmeForceJoinReqAction), (0, 2, MlmeStartReqAction), (0, 3, PeerBeacon), (0, 9, PeerProbeReqAction),
      (1, 1, MlmeJoinReqAction), (1, 2, InvalidStateWhenStart), (1, 3, PeerBeaconAtJoinAction),
      (1, 7, BeaconTimeoutAtJoinAction), (1, 4, PeerBeaconAtScanAction),
      (2, 1, MlmeJoinReqAction), (2, 2, InvalidStateWhenStart), (2, 3, PeerBeaconAtScanAction),
      (2, 4, PeerBeaconAtScanAction), (2, 6, ScanTimeoutAction),
      (3, 0, MlmeScanReqAction), (3, 3, PeerBeacon)]
     (StateMachineInit Trans 4 12 Drop 0 0)"

definition ActionStateMachineInit :: "sm_func list \<Rightarrow> STATE_MACHINE" where
  "ActionStateMachineInit Trans = set_actions
     [(0, 0, PeerSpectrumAction), (0, 1, PeerQOSAction), (0, 2, ReservedAction),
      (0, 3, PeerBAAction), (0, 7, PeerHTAction), (0, 18, MlmeADDBAAction), (0, 19, MlmeDELBAAction),
      (0, 20, MlmeDELBAAction),
      (0, 4, PeerPublicAction), (0, 5, PeerRMAction), (0, 21, MlmeQOSAction), (0, 22, MlmeDLSAction),
      (0, 23, MlmeInvalidAction)]
     (StateMachineInit Trans 1 24 Drop 0 0)"

definition WpaStateMachineInit :: "sm_func list \<Rightarrow> STATE_MACHINE" where
  "WpaStateMachineInit Trans = set_actions
     [(0, 0, WpaEAPPacketAction), (0, 1, WpaEAPOLStartAction), (0, 2, WpaEAPOLLogoffAction),
      (0, 3, WpaEAPOLKeyAction), (0, 4, WpaEAPOLASFAlertAction)]
     (StateMachineInit Trans 1 5 Drop 0 0)"

text \<open>
  The function tables inside \<^verbatim>\<open>MLME_STRUCT\<close> that the machines are set up with; the
  timers each machine initialises are recorded. \<^verbatim>\<open>WpaPskMachine\<close> is never set up.
\<close>

record func_arrays =
  AssocFunc :: "sm_func list"
  AuthFunc :: "sm_func list"
  AuthRspFunc :: "sm_func list"
  SyncFunc :: "sm_func list"
  ActFunc :: "sm_func list"
  WpaFunc :: "sm_func list"

definition MlmeInit :: "func_arrays \<Rightarrow> MLME_ADAPTER \<Rightarrow> MLME_ADAPTER" where
  "MlmeInit F a = a\<lparr>Mlme := (Mlme a)\<lparr>Queue := MlmeQueueInit (the_queue a), bRunning := False,
       AssocMachine := AssocStateMachineInit (AssocFunc F), AuthMachine := AuthStateMachineInit (AuthFunc F),
       AuthRspMachine := AuthRspStateMachineInit (AuthRspFunc F), SyncMachine := SyncStateMachineInit (SyncFunc F),
       CntlMachine := (CntlMachine (Mlme a))\<lparr>CurrState := 0\<rparr>,
       WpaMachine := WpaStateMachineInit (WpaFunc F), ActMachine := ActionStateMachineInit (ActFunc F)\<rparr>,
     Events := Events a @ [ScanTabInit, InitTimer AssocTimer, InitTimer ReassocTimer, InitTimer DisassocTimer,
       InitTimer AuthTimer, InitTimer BeaconTimer, InitTimer ScanTimer, InitTimer LinkDownTimer,
       InitTimer StaQuickResponeForRateUpTimer, InitTimer WpaDisassocAndBlockAssocTimer,
       InitTimer AutoWakeupTimer, InitTimer PeriodicTimer, SetTimer PeriodicTimer 100, InitTimer RxAntEvalTimer]\<rparr>"

section \<open>The handler\<close>

definition RTMPResumeMsduTransmission :: "MLME_ADAPTER \<Rightarrow> MLME_ADAPTER" where
  "RTMPResumeMsduTransmission a =
     (let a = (if R66CurrentValue a = 0 then a\<lparr>R66CurrentValue := 0x38\<rparr> else a);
          a = log_ev (SetAgc (R66CurrentValue a)) a;
          a = a\<lparr>BBPCurrentBW := bbp_bw a, Flags := Flags a AND NOT fRTMP_ADAPTER_BSS_SCAN_IN_PROGRESS\<rparr>
      in log_ev DeQueuePackets a)"

definition MlmeRestartStateMachine :: "MLME_ADAPTER \<Rightarrow> MLME_ADAPTER" where
  "MlmeRestartStateMachine a =
     (let a = a\<lparr>Events := Events a @ map CancelTimer [AssocTimer, ReassocTimer, DisassocTimer, AuthTimer,
                  BeaconTimer, ScanTimer] @ [SwitchChannel (CfgChannel a), LockChannel (CfgChannel a)]\<rparr>;
          a = RTMPResumeMsduTransmission a; m = Mlme a
      in a\<lparr>Mlme := m\<lparr>CntlMachine := (CntlMachine m)\<lparr>CurrState := 0\<rparr>,
           AssocMachine := (AssocMachine m)\<lparr>CurrState := 0\<rparr>, AuthMachine := (AuthMachine m)\<lparr>CurrState := 0\<rparr>,
           AuthRspMachine := (AuthRspMachine m)\<lparr>CurrState := 0\<rparr>, SyncMachine := (SyncMachine m)\<lparr>CurrState := 0\<rparr>,
           ActMachine := (ActMachine m)\<lparr>CurrState := 0\<rparr>\<rparr>\<rparr>)"

type_synonym actions = "sm_func \<Rightarrow> nat \<Rightarrow> MLME_ADAPTER \<Rightarrow> MLME_ADAPTER"

definition StateMachinePerformAction :: "actions \<Rightarrow> STATE_MACHINE \<Rightarrow> nat \<Rightarrow> MLME_ADAPTER \<Rightarrow> MLME_ADAPTER option" where
  "StateMachinePerformAction act S i a = (let e = Entry (the_queue a) ! i in
     map_option (\<lambda>f. act f i (log_ev (Performed f e) a)) (sm_cell S (CurrState S) (MsgType e)))"

definition dispatch :: "actions \<Rightarrow> nat \<Rightarrow> MLME_ADAPTER \<Rightarrow> MLME_ADAPTER option" where
  "dispatch act i a = (let e = Entry (the_queue a) ! i; m = Machine e; M = Mlme a in
     if m = ASSOC_STATE_MACHINE then StateMachinePerformAction act (AssocMachine M) i a
     else if m = AUTH_STATE_MACHINE then StateMachinePerformAction act (AuthMachine M) i a
     else if m = AUTH_RSP_STATE_MACHINE then StateMachinePerformAction act (AuthRspMachine M) i a
     else if m = SYNC_STATE_MACHINE then StateMachinePerformAction act (SyncMachine M) i a
     else if m = MLME_CNTL_STATE_MACHINE
       then Some (act MlmeCntlMachinePerformAction i (log_ev (Performed MlmeCntlMachinePerformAction e) a))
     else if m = WPA_PSK_STATE_MACHINE then StateMachinePerformAction act (WpaPskMachine M) i a
     else if m = ACTION_STATE_MACHINE then StateMachinePerformAction act (ActMachine M) i a
     else if m = WPA_STATE_MACHINE then StateMachinePerformAction act (WpaMachine M) i a
     else Some (log_ev (Illegal e) a))"

definition free_elem :: "nat \<Rightarrow> MLME_ADAPTER \<Rightarrow> MLME_ADAPTER" where
  "free_elem i = upd_queue (\<lambda>q. q\<lparr>Entry := (Entry q)[i := (Entry q ! i)\<lparr>Occupied := False, MsgLen := 0\<rparr>]\<rparr>)"

definition handle_one :: "actions \<Rightarrow> MLME_ADAPTER \<Rightarrow> MLME_ADAPTER option" where
  "handle_one act a = (case MlmeDequeue (the_queue a) of (i, q) \<Rightarrow>
     let a1 = upd_queue (\<lambda>_. q) a; e = Entry q ! i in
     if MsgType e = MT2_RESET_CONF then Some (free_elem i (MlmeRestartStateMachine (log_ev (Restarted e) a1)))
     else map_option (free_elem i) (dispatch act i a1))"

definition handler_stops :: "MLME_ADAPTER \<Rightarrow> bool" where
  "handler_stops a \<longleftrightarrow> RTMP_TEST_FLAG a fRTMP_ADAPTER_MLME_RESET_IN_PROGRESS
     \<or> RTMP_TEST_FLAG a fRTMP_ADAPTER_HALT_IN_PROGRESS \<or> RTMP_TEST_FLAG a fRTMP_ADAPTER_NIC_NOT_EXIST
     \<or> RTMP_TEST_FLAG a fRTMP_ADAPTER_SUSPEND"

partial_function (option) mlme_loop :: "actions \<Rightarrow> MLME_ADAPTER \<Rightarrow> MLME_ADAPTER option" where
  "mlme_loop act a = (if MlmeQueueEmpty (the_queue a) \<or> handler_stops a then Some a
     else Option.bind (handle_one act a) (mlme_loop act))"

definition set_running :: "bool \<Rightarrow> MLME_ADAPTER \<Rightarrow> MLME_ADAPTER" where
  "set_running b a = a\<lparr>Mlme := (Mlme a)\<lparr>bRunning := b\<rparr>\<rparr>"

definition MlmeHandler :: "actions \<Rightarrow> MLME_ADAPTER \<Rightarrow> MLME_ADAPTER option" where
  "MlmeHandler act a = (if bRunning (Mlme a) then Some a
     else map_option (set_running False) (mlme_loop act (set_running True a)))"

section \<open>Timeouts and invalid requests\<close>

definition status_mem :: "UINT16 \<Rightarrow> mem" where
  "status_mem s = (\<lambda>i. if i = 0 then ucast s else ucast (drop_bit 8 s))"

definition confirm :: "ULONG \<Rightarrow> UINT16 \<Rightarrow> MLME_ADAPTER \<Rightarrow> MLME_ADAPTER" where
  "confirm mt s a = snd (MlmeEnqueue MLME_CNTL_STATE_MACHINE mt 2 (Some (status_mem s)) 0 a)"

definition MLME_SUCCESS :: UINT16 where "MLME_SUCCESS = 0"
definition MLME_REJ_TIMEOUT :: UINT16 where "MLME_REJ_TIMEOUT = 16"
definition MLME_STATE_MACHINE_REJECT :: UINT16 where "MLME_STATE_MACHINE_REJECT = 0x53"

definition set_assoc_state :: "ULONG \<Rightarrow> MLME_ADAPTER \<Rightarrow> MLME_ADAPTER" where
  "set_assoc_state st a = a\<lparr>Mlme := (Mlme a)\<lparr>AssocMachine := (AssocMachine (Mlme a))\<lparr>CurrState := st\<rparr>\<rparr>\<rparr>"

definition set_auth_state :: "ULONG \<Rightarrow> MLME_ADAPTER \<Rightarrow> MLME_ADAPTER" where
  "set_auth_state st a = a\<lparr>Mlme := (Mlme a)\<lparr>AuthMachine := (AuthMachine (Mlme a))\<lparr>CurrState := st\<rparr>\<rparr>\<rparr>"

definition set_sync_state :: "ULONG \<Rightarrow> MLME_ADAPTER \<Rightarrow> MLME_ADAPTER" where
  "set_sync_state st a = a\<lparr>Mlme := (Mlme a)\<lparr>SyncMachine := (SyncMachine (Mlme a))\<lparr>CurrState := st\<rparr>\<rparr>\<rparr>"

definition do_AssocTimeoutAction :: "MLME_ADAPTER \<Rightarrow> MLME_ADAPTER" where
  "do_AssocTimeoutAction a = confirm 34 MLME_REJ_TIMEOUT (set_assoc_state 0 a)"

definition do_ReassocTimeoutAction :: "MLME_ADAPTER \<Rightarrow> MLME_ADAPTER" where
  "do_ReassocTimeoutAction a = confirm 38 MLME_REJ_TIMEOUT (set_assoc_state 0 a)"

definition do_DisassocTimeoutAction :: "MLME_ADAPTER \<Rightarrow> MLME_ADAPTER" where
  "do_DisassocTimeoutAction a = confirm 37 MLME_SUCCESS (set_assoc_state 0 a)"

definition do_InvalidStateWhenAssoc :: "MLME_ADAPTER \<Rightarrow> MLME_ADAPTER" where
  "do_InvalidStateWhenAssoc a = confirm 34 MLME_STATE_MACHINE_REJECT (set_assoc_state 0 a)"

definition do_InvalidStateWhenReassoc :: "MLME_ADAPTER \<Rightarrow> MLME_ADAPTER" where
  "do_InvalidStateWhenReassoc a = confirm 38 MLME_STATE_MACHINE_REJECT (set_assoc_state 0 a)"

definition do_InvalidStateWhenDisassociate :: "MLME_ADAPTER \<Rightarrow> MLME_ADAPTER" where
  "do_InvalidStateWhenDisassociate a = confirm 37 MLME_STATE_MACHINE_REJECT (set_assoc_state 0 a)"

definition do_AuthTimeoutAction :: "MLME_ADAPTER \<Rightarrow> MLME_ADAPTER" where
  "do_AuthTimeoutAction a = confirm 35 MLME_REJ_TIMEOUT (set_auth_state 0 a)"

definition do_InvalidStateWhenAuth :: "MLME_ADAPTER \<Rightarrow> MLME_ADAPTER" where
  "do_InvalidStateWhenAuth a = confirm 35 MLME_STATE_MACHINE_REJECT (set_auth_state 0 a)"

definition do_BeaconTimeoutAtJoinAction :: "MLME_ADAPTER \<Rightarrow> MLME_ADAPTER" where
  "do_BeaconTimeoutAtJoinAction a = confirm 40 MLME_REJ_TIMEOUT (set_sync_state 0 a)"

definition do_InvalidStateWhenStart :: "MLME_ADAPTER \<Rightarrow> MLME_ADAPTER" where
  "do_InvalidStateWhenStart a = confirm 42 MLME_STATE_MACHINE_REJECT (set_sync_state 0 a)"

definition basic_action :: "actions \<Rightarrow> actions" where
  "basic_action rest f i a = (case f of
       Drop \<Rightarrow> a
     | AssocTimeoutAction \<Rightarrow> do_AssocTimeoutAction a
     | ReassocTimeoutAction \<Rightarrow> do_ReassocTimeoutAction a
     | DisassocTimeoutAction \<Rightarrow> do_DisassocTimeoutAction a
     | InvalidStateWhenAssoc \<Rightarrow> do_InvalidStateWhenAssoc a
     | InvalidStateWhenReassoc \<Rightarrow> do_InvalidStateWhenReassoc a
     | InvalidStateWhenDisassociate \<Rightarrow> do_InvalidStateWhenDisassociate a
     | AuthTimeoutAction \<Rightarrow> do_AuthTimeoutAction a
     | InvalidStateWhenAuth \<Rightarrow> do_InvalidStateWhenAuth a
     | BeaconTimeoutAtJoinAction \<Rightarrow> do_BeaconTimeoutAtJoinAction a
     | InvalidStateWhenStart \<Rightarrow> do_InvalidStateWhenStart a
     | MlmeQOSAction \<Rightarrow> a
     | MlmeDLSAction \<Rightarrow> a
     | MlmeInvalidAction \<Rightarrow> a
     | PeerQOSAction \<Rightarrow> a
     | WpaEAPPacketAction \<Rightarrow> a
     | WpaEAPOLASFAlertAction \<Rightarrow> a
     | WpaEAPOLLogoffAction \<Rightarrow> a
     | _ \<Rightarrow> rest f i a)"

text \<open>The timer callbacks: a timeout message is queued and the MLME task is woken.\<close>

definition halting :: "MLME_ADAPTER \<Rightarrow> bool" where
  "halting a \<longleftrightarrow> RTMP_TEST_FLAG a (fRTMP_ADAPTER_HALT_IN_PROGRESS OR fRTMP_ADAPTER_NIC_NOT_EXIST)"

definition AssocTimeout :: "MLME_ADAPTER \<Rightarrow> MLME_ADAPTER" where
  "AssocTimeout a = (if halting a then a
     else log_ev MlmeTaskUp (snd (MlmeEnqueue ASSOC_STATE_MACHINE 9 0 None 0 a)))"

definition ReassocTimeout :: "MLME_ADAPTER \<Rightarrow> MLME_ADAPTER" where
  "ReassocTimeout a = (if halting a then a
     else log_ev MlmeTaskUp (snd (MlmeEnqueue ASSOC_STATE_MACHINE 10 0 None 0 a)))"

definition DisassocTimeout :: "MLME_ADAPTER \<Rightarrow> MLME_ADAPTER" where
  "DisassocTimeout a = (if halting a then a
     else log_ev MlmeTaskUp (snd (MlmeEnqueue ASSOC_STATE_MACHINE 8 0 None 0 a)))"

definition AuthTimeout :: "MLME_ADAPTER \<Rightarrow> MLME_ADAPTER" where
  "AuthTimeout a = (if halting a then a
     else let a = (if CurrState (AuthMachine (Mlme a)) = 1 then log_ev Cls2err a else a)
          in log_ev MlmeTaskUp (snd (MlmeEnqueue AUTH_STATE_MACHINE 2 0 None 0 a)))"

definition BW_40 :: UINT8 where "BW_40 = 1"

definition BeaconTimeout :: "MLME_ADAPTER \<Rightarrow> MLME_ADAPTER" where
  "BeaconTimeout a = (if RTMP_TEST_FLAG a fRTMP_ADAPTER_HALT_IN_PROGRESS then a
     else let a = (if BBPCurrentBW a = BW_40
                   then log_ev (LockChannel (CentralChannel a)) (log_ev (SwitchChannel (CentralChannel a)) (log_ev (SetBw BW_40) a))
                   else a)
          in log_ev MlmeTaskUp (snd (MlmeEnqueue SYNC_STATE_MACHINE 7 0 None 0 a)))"

section \<open>Facts on the tables\<close>

lemma fill_row:
  "c + n \<le> length t \<Longrightarrow> fold (\<lambda>j t. t[c + j := d]) [0..<n] t = take c t @ replicate n d @ drop (c + n) t"
proof (induction n)
  case (Suc n)
  have "drop (c + n) t = t ! (c + n) # drop (Suc (c + n)) t"
    using Suc.prems by (simp add: Cons_nth_drop_Suc)
  then show ?case
    using Suc by (simp add: list_update_append replicate_append_same)
qed simp

lemma fill_table:
  "k * n \<le> length t \<Longrightarrow>
     fold (\<lambda>i t. fold (\<lambda>j t. t[i * n + j := d]) [0..<n] t) [0..<k] t = replicate (k * n) d @ drop (k * n) t"
proof (induction k)
  case (Suc k)
  then have l: "k * n \<le> length t" "k * n + n \<le> length (replicate (k * n) d @ drop (k * n) t)"
    by simp_all
  have "fold (\<lambda>i t. fold (\<lambda>j t. t[i * n + j := d]) [0..<n] t) [0..<Suc k] t
      = fold (\<lambda>j t. t[k * n + j := d]) [0..<n] (replicate (k * n) d @ drop (k * n) t)"
    using Suc.IH[OF l(1)] by simp
  also have "\<dots> = replicate (k * n) d @ replicate n d @ drop n (drop (k * n) t)"
    using fill_row[OF l(2), of d] by simp
  also have "\<dots> = replicate (Suc k * n) d @ drop (Suc k * n) t"
    by (metis append_assoc drop_drop mult_Suc replicate_add add.commute)
  finally show ?case .
qed simp

lemma StateMachineInit_table:
  "length Trans = unat st * unat mt \<Longrightarrow>
     StateMachineInit Trans st mt d s0 b
       = \<lparr>Base = b, NrState = st, NrMsg = mt, CurrState = s0, TransFunc = replicate (unat st * unat mt) d\<rparr>"
  using fill_table[of "unat st" "unat mt" Trans d] by (simp add: StateMachineInit_def)

lemma replicate_table_44: "replicate 44 Drop = [Drop, Drop, Drop, Drop, Drop, Drop, Drop, Drop, Drop, Drop, Drop,
  Drop, Drop, Drop, Drop, Drop, Drop, Drop, Drop, Drop, Drop, Drop, Drop, Drop, Drop, Drop, Drop, Drop, Drop, Drop,
  Drop, Drop, Drop, Drop, Drop, Drop, Drop, Drop, Drop, Drop, Drop, Drop, Drop, Drop]"
  by code_simp

lemma AssocStateMachineInit_table:
  assumes "length Trans = 44"
  shows "AssocStateMachineInit Trans = \<lparr>Base = 0, NrState = 4, NrMsg = 11, CurrState = 0, TransFunc =
    [MlmeAssocReqAction, MlmeReassocReqAction, MlmeDisassocReqAction, PeerDisassocAction,
       Drop, Drop, Drop, Drop, Drop, Drop, Drop,
     InvalidStateWhenAssoc, InvalidStateWhenReassoc, InvalidStateWhenDisassociate, PeerDisassocAction,
       Drop, PeerAssocRspAction, Drop, PeerAssocRspAction, Drop, AssocTimeoutAction, Drop,
     InvalidStateWhenAssoc, InvalidStateWhenReassoc, InvalidStateWhenDisassociate, PeerDisassocAction,
       Drop, PeerReassocRspAction, Drop, PeerReassocRspAction, Drop, Drop, ReassocTimeoutAction,
     InvalidStateWhenAssoc, InvalidStateWhenReassoc, InvalidStateWhenDisassociate, PeerDisassocAction,
       Drop, Drop, Drop, Drop, DisassocTimeoutAction, Drop, Drop]\<rparr>"
  using StateMachineInit_table[of Trans 4 11] assms
  by (simp add: AssocStateMachineInit_def StateMachineSetAction_def replicate_table_44)

lemma AuthStateMachineInit_table:
  assumes "length Trans = 9"
  shows "AuthStateMachineInit Trans = \<lparr>Base = 0, NrState = 3, NrMsg = 3, CurrState = 0, TransFunc =
    [MlmeAuthReqAction, Drop, Drop,
     InvalidStateWhenAuth, PeerAuthRspAtSeq2Action, AuthTimeoutAction,
     InvalidStateWhenAuth, PeerAuthRspAtSeq4Action, AuthTimeoutAction]\<rparr>"
proof -
  have "replicate 9 Drop = [Drop, Drop, Drop, Drop, Drop, Drop, Drop, Drop, Drop]" by code_simp
  then show ?thesis
    using StateMachineInit_table[of Trans 3 3] assms
    by (simp add: AuthStateMachineInit_def StateMachineSetAction_def)
qed

lemma AuthRspStateMachineInit_table:
  assumes "length Trans = 6"
  shows "AuthRspStateMachineInit Trans = \<lparr>Base = 0, NrState = 2, NrMsg = 3, CurrState = 0, TransFunc =
    [Drop, Drop, PeerDeauthAction, Drop, Drop, PeerDeauthAction]\<rparr>"
proof -
  have "replicate 6 Drop = [Drop, Drop, Drop, Drop, Drop, Drop]" by code_simp
  then show ?thesis
    using StateMachineInit_table[of Trans 2 3] assms
    by (simp add: AuthRspStateMachineInit_def StateMachineSetAction_def)
qed

lemma replicate_table_48: "replicate 48 Drop = [Drop, Drop, Drop, Drop, Drop, Drop, Drop, Drop, Drop, Drop, Drop,
  Drop, Drop, Drop, Drop, Drop, Drop, Drop, Drop, Drop, Drop, Drop, Drop, Drop, Drop, Drop, Drop, Drop, Drop, Drop,
  Drop, Drop, Drop, Drop, Drop, Drop, Drop, Drop, Drop, Drop, Drop, Drop, Drop, Drop, Drop, Drop, Drop, Drop]"
  by code_simp

lemma SyncStateMachineInit_table:
  assumes "length Trans = 48"
  shows "SyncStateMachineInit Trans = \<lparr>Base = 0, NrState = 4, NrMsg = 12, CurrState = 0, TransFunc =
    [MlmeScanReqAction, MlmeJoinReqAction, MlmeStartReqAction, PeerBeacon, Drop, Drop, Drop, Drop, Drop,
       PeerProbeReqAction, MlmeForceJoinReqAction, MlmeForceScanReqAction,
     Drop, MlmeJoinReqAction, InvalidStateWhenStart, PeerBeaconAtJoinAction, PeerBeaconAtScanAction, Drop, Drop,
       BeaconTimeoutAtJoinAction, Drop, Drop, Drop, Drop,
     Drop, MlmeJoinReqAction, InvalidStateWhenStart, PeerBeaconAtScanAction, PeerBeaconAtScanAction, Drop,
       ScanTimeoutAction, Drop, Drop, Drop, Drop, Drop,
     MlmeScanReqAction, Drop, Drop, PeerBeacon, Drop, Drop, Drop, Drop, Drop, Drop, Drop, Drop]\<rparr>"
  using StateMachineInit_table[of Trans 4 12] assms
  by (simp add: SyncStateMachineInit_def StateMachineSetAction_def replicate_table_48)

lemma ActionStateMachineInit_table:
  assumes "length Trans = 24"
  shows "ActionStateMachineInit Trans = \<lparr>Base = 0, NrState = 1, NrMsg = 24, CurrState = 0, TransFunc =
    [PeerSpectrumAction, PeerQOSAction, ReservedAction, PeerBAAction, PeerPublicAction, PeerRMAction, Drop,
     PeerHTAction, Drop, Drop, Drop, Drop, Drop, Drop, Drop, Drop, Drop, Drop,
     MlmeADDBAAction, MlmeDELBAAction, MlmeDELBAAction, MlmeQOSAction, MlmeDLSAction, MlmeInvalidAction]\<rparr>"
proof -
  have "replicate 24 Drop = [Drop, Drop, Drop, Drop, Drop, Drop, Drop, Drop, Drop, Drop, Drop, Drop,
     Drop, Drop, Drop, Drop, Drop, Drop, Drop, Drop, Drop, Drop, Drop, Drop]" by code_simp
  then show ?thesis
    using StateMachineInit_table[of Trans 1 24] assms
    by (simp add: ActionStateMachineInit_def StateMachineSetAction_def)
qed

lemma WpaStateMachineInit_table:
  assumes "length Trans = 5"
  shows "WpaStateMachineInit Trans = \<lparr>Base = 0, NrState = 1, NrMsg = 5, CurrState = 0, TransFunc =
    [WpaEAPPacketAction, WpaEAPOLStartAction, WpaEAPOLLogoffAction, WpaEAPOLKeyAction, WpaEAPOLASFAlertAction]\<rparr>"
proof -
  have "replicate 5 Drop = [Drop, Drop, Drop, Drop, Drop]" by code_simp
  then show ?thesis
    using StateMachineInit_table[of Trans 1 5] assms
    by (simp add: WpaStateMachineInit_def StateMachineSetAction_def)
qed

lemmas init_tables = AssocStateMachineInit_table AuthStateMachineInit_table AuthRspStateMachineInit_table
  SyncStateMachineInit_table ActionStateMachineInit_table WpaStateMachineInit_table

text \<open>
  The set-up that the machines keep from initialisation on: the tables never change, only
  the current states do, within the states of each machine.
\<close>

definition same_table :: "STATE_MACHINE \<Rightarrow> STATE_MACHINE \<Rightarrow> bool" where
  "same_table S T \<longleftrightarrow> (\<exists>st. st < NrState T \<and> S = T\<lparr>CurrState := st\<rparr>)"

definition tables_ok :: "MLME_ADAPTER \<Rightarrow> bool" where
  "tables_ok a \<longleftrightarrow>
     same_table (AssocMachine (Mlme a)) (AssocStateMachineInit (replicate 44 Drop))
   \<and> same_table (AuthMachine (Mlme a)) (AuthStateMachineInit (replicate 9 Drop))
   \<and> same_table (AuthRspMachine (Mlme a)) (AuthRspStateMachineInit (replicate 6 Drop))
   \<and> same_table (SyncMachine (Mlme a)) (SyncStateMachineInit (replicate 48 Drop))
   \<and> same_table (ActMachine (Mlme a)) (ActionStateMachineInit (replicate 24 Drop))
   \<and> same_table (WpaMachine (Mlme a)) (WpaStateMachineInit (replicate 5 Drop))"

definition arrays_ok :: "func_arrays \<Rightarrow> bool" where
  "arrays_ok F \<longleftrightarrow> length (AssocFunc F) = 44 \<and> length (AuthFunc F) = 9 \<and> length (AuthRspFunc F) = 6
     \<and> length (SyncFunc F) = 48 \<and> length (ActFunc F) = 24 \<and> length (WpaFunc F) = 5"

lemma same_table_init: "CurrState T < NrState T \<Longrightarrow> same_table T T"
  by (auto simp: same_table_def intro!: exI[of _ "CurrState T"])

lemma same_table_upd: "same_table S T \<Longrightarrow> st < NrState T \<Longrightarrow> same_table (S\<lparr>CurrState := st\<rparr>) T"
  by (auto simp: same_table_def)

lemma MlmeInit_tables_ok: "arrays_ok F \<Longrightarrow> tables_ok (MlmeInit F a)"
  by (simp add: tables_ok_def arrays_ok_def MlmeInit_def init_tables same_table_init)

section \<open>Dispatch stays inside the tables\<close>

text \<open>A message is addressed when its type is one of its machine's messages.\<close>

definition addressed :: "ULONG \<Rightarrow> ULONG \<Rightarrow> bool" where
  "addressed mach mt \<longleftrightarrow>
     (if mach = ASSOC_STATE_MACHINE then mt < 11
      else if mach = AUTH_STATE_MACHINE \<or> mach = AUTH_RSP_STATE_MACHINE then mt < 3
      else if mach = SYNC_STATE_MACHINE then mt < 12
      else if mach = ACTION_STATE_MACHINE then mt < 24
      else if mach = WPA_STATE_MACHINE then mt < 5
      else mach \<noteq> WPA_PSK_STATE_MACHINE)"

lemma cell_index:
  assumes "st < ns" and "mt < nm" and "unat ns * unat nm < 2 ^ 63"
  shows "unat (st * nm + mt :: ULONG) = unat st * unat nm + unat mt"
    and "unat st * unat nm + unat mt < unat ns * unat nm"
proof -
  have s: "unat st < unat ns" and m: "unat mt < unat nm"
    using assms(1,2) by (simp_all add: word_less_nat_alt)
  have "Suc (unat st) * unat nm \<le> unat ns * unat nm"
    using s by (intro mult_le_mono1) simp
  then show b: "unat st * unat nm + unat mt < unat ns * unat nm"
    using m by simp
  then show "unat (st * nm + mt) = unat st * unat nm + unat mt"
    using assms(3) by (simp add: unat_word_ariths)
qed

lemma cell_in_table:
  assumes "same_table S T" and "Base T = 0" and "unat (NrState T) * unat (NrMsg T) = length (TransFunc T)"
    and "length (TransFunc T) \<le> 48" and "mt < NrMsg T"
  shows "sm_cell S (CurrState S) mt = Some (TransFunc T ! (unat (CurrState S) * unat (NrMsg T) + unat mt))"
proof -
  obtain st where st: "st < NrState T" "S = T\<lparr>CurrState := st\<rparr>"
    using assms(1) by (auto simp: same_table_def)
  show ?thesis
    using cell_index[OF st(1) assms(5)] assms(2-4) st(2) by (simp add: sm_cell_def)
qed

lemma table_cells:
  assumes "tables_ok a"
  shows "mt < 11 \<Longrightarrow> sm_cell (AssocMachine (Mlme a)) (CurrState (AssocMachine (Mlme a))) mt =
      Some (TransFunc (AssocStateMachineInit (replicate 44 Drop)) ! (unat (CurrState (AssocMachine (Mlme a))) * 11 + unat mt))"
    and "mt < 3 \<Longrightarrow> sm_cell (AuthMachine (Mlme a)) (CurrState (AuthMachine (Mlme a))) mt =
      Some (TransFunc (AuthStateMachineInit (replicate 9 Drop)) ! (unat (CurrState (AuthMachine (Mlme a))) * 3 + unat mt))"
    and "mt < 3 \<Longrightarrow> sm_cell (AuthRspMachine (Mlme a)) (CurrState (AuthRspMachine (Mlme a))) mt =
      Some (TransFunc (AuthRspStateMachineInit (replicate 6 Drop)) ! (unat (CurrState (AuthRspMachine (Mlme a))) * 3 + unat mt))"
    and "mt < 12 \<Longrightarrow> sm_cell (SyncMachine (Mlme a)) (CurrState (SyncMachine (Mlme a))) mt =
      Some (TransFunc (SyncStateMachineInit (replicate 48 Drop)) ! (unat (CurrState (SyncMachine (Mlme a))) * 12 + unat mt))"
    and "mt < 24 \<Longrightarrow> sm_cell (ActMachine (Mlme a)) (CurrState (ActMachine (Mlme a))) mt =
      Some (TransFunc (ActionStateMachineInit (replicate 24 Drop)) ! (unat (CurrState (ActMachine (Mlme a))) * 24 + unat mt))"
    and "mt < 5 \<Longrightarrow> sm_cell (WpaMachine (Mlme a)) (CurrState (WpaMachine (Mlme a))) mt =
      Some (TransFunc (WpaStateMachineInit (replicate 5 Drop)) ! (unat (CurrState (WpaMachine (Mlme a))) * 5 + unat mt))"
proof -
  note T = assms[unfolded tables_ok_def]
  show "mt < 11 \<Longrightarrow> sm_cell (AssocMachine (Mlme a)) (CurrState (AssocMachine (Mlme a))) mt =
      Some (TransFunc (AssocStateMachineInit (replicate 44 Drop)) ! (unat (CurrState (AssocMachine (Mlme a))) * 11 + unat mt))"
    using T cell_in_table[of "AssocMachine (Mlme a)" "AssocStateMachineInit (replicate 44 Drop)" mt]
    by (simp add: AssocStateMachineInit_table)
  show "mt < 3 \<Longrightarrow> sm_cell (AuthMachine (Mlme a)) (CurrState (AuthMachine (Mlme a))) mt =
      Some (TransFunc (AuthStateMachineInit (replicate 9 Drop)) ! (unat (CurrState (AuthMachine (Mlme a))) * 3 + unat mt))"
    using T cell_in_table[of "AuthMachine (Mlme a)" "AuthStateMachineInit (replicate 9 Drop)" mt]
    by (simp add: AuthStateMachineInit_table)
  show "mt < 3 \<Longrightarrow> sm_cell (AuthRspMachine (Mlme a)) (CurrState (AuthRspMachine (Mlme a))) mt =
      Some (TransFunc (AuthRspStateMachineInit (replicate 6 Drop)) ! (unat (CurrState (AuthRspMachine (Mlme a))) * 3 + unat mt))"
    using T cell_in_table[of "AuthRspMachine (Mlme a)" "AuthRspStateMachineInit (replicate 6 Drop)" mt]
    by (simp add: AuthRspStateMachineInit_table)
  show "mt < 12 \<Longrightarrow> sm_cell (SyncMachine (Mlme a)) (CurrState (SyncMachine (Mlme a))) mt =
      Some (TransFunc (SyncStateMachineInit (replicate 48 Drop)) ! (unat (CurrState (SyncMachine (Mlme a))) * 12 + unat mt))"
    using T cell_in_table[of "SyncMachine (Mlme a)" "SyncStateMachineInit (replicate 48 Drop)" mt]
    by (simp add: SyncStateMachineInit_table)
  show "mt < 24 \<Longrightarrow> sm_cell (ActMachine (Mlme a)) (CurrState (ActMachine (Mlme a))) mt =
      Some (TransFunc (ActionStateMachineInit (replicate 24 Drop)) ! (unat (CurrState (ActMachine (Mlme a))) * 24 + unat mt))"
    using T cell_in_table[of "ActMachine (Mlme a)" "ActionStateMachineInit (replicate 24 Drop)" mt]
    by (simp add: ActionStateMachineInit_table)
  show "mt < 5 \<Longrightarrow> sm_cell (WpaMachine (Mlme a)) (CurrState (WpaMachine (Mlme a))) mt =
      Some (TransFunc (WpaStateMachineInit (replicate 5 Drop)) ! (unat (CurrState (WpaMachine (Mlme a))) * 5 + unat mt))"
    using T cell_in_table[of "WpaMachine (Mlme a)" "WpaStateMachineInit (replicate 5 Drop)" mt]
    by (simp add: WpaStateMachineInit_table)
qed

lemma states_in_range:
  assumes "tables_ok a"
  shows "CurrState (AssocMachine (Mlme a)) < 4" and "CurrState (AuthMachine (Mlme a)) < 3"
    and "CurrState (AuthRspMachine (Mlme a)) < 2" and "CurrState (SyncMachine (Mlme a)) < 4"
    and "CurrState (ActMachine (Mlme a)) = 0" and "CurrState (WpaMachine (Mlme a)) = 0"
  using assms by (auto simp: tables_ok_def same_table_def init_tables)

lemma PerformAction_cell:
  "sm_cell S (CurrState S) (MsgType (Entry (the_queue a) ! i)) = Some f \<Longrightarrow>
     StateMachinePerformAction act S i a = Some (act f i (log_ev (Performed f (Entry (the_queue a) ! i)) a))"
  by (simp add: StateMachinePerformAction_def)

lemma dispatch_machines:
  "Machine (Entry (the_queue a) ! i) = ASSOC_STATE_MACHINE \<Longrightarrow>
     dispatch act i a = StateMachinePerformAction act (AssocMachine (Mlme a)) i a"
  "Machine (Entry (the_queue a) ! i) = AUTH_STATE_MACHINE \<Longrightarrow>
     dispatch act i a = StateMachinePerformAction act (AuthMachine (Mlme a)) i a"
  "Machine (Entry (the_queue a) ! i) = AUTH_RSP_STATE_MACHINE \<Longrightarrow>
     dispatch act i a = StateMachinePerformAction act (AuthRspMachine (Mlme a)) i a"
  "Machine (Entry (the_queue a) ! i) = SYNC_STATE_MACHINE \<Longrightarrow>
     dispatch act i a = StateMachinePerformAction act (SyncMachine (Mlme a)) i a"
  "Machine (Entry (the_queue a) ! i) = ACTION_STATE_MACHINE \<Longrightarrow>
     dispatch act i a = StateMachinePerformAction act (ActMachine (Mlme a)) i a"
  "Machine (Entry (the_queue a) ! i) = WPA_STATE_MACHINE \<Longrightarrow>
     dispatch act i a = StateMachinePerformAction act (WpaMachine (Mlme a)) i a"
  "Machine (Entry (the_queue a) ! i) = MLME_CNTL_STATE_MACHINE \<Longrightarrow> dispatch act i a =
     Some (act MlmeCntlMachinePerformAction i (log_ev (Performed MlmeCntlMachinePerformAction (Entry (the_queue a) ! i)) a))"
  by (simp_all add: dispatch_def Let_def machine_defs)

lemma dispatch_illegal:
  "Machine (Entry (the_queue a) ! i) \<notin> {ASSOC_STATE_MACHINE, AUTH_STATE_MACHINE, AUTH_RSP_STATE_MACHINE,
     SYNC_STATE_MACHINE, MLME_CNTL_STATE_MACHINE, WPA_PSK_STATE_MACHINE, ACTION_STATE_MACHINE, WPA_STATE_MACHINE} \<Longrightarrow>
     dispatch act i a = Some (log_ev (Illegal (Entry (the_queue a) ! i)) a)"
  by (simp add: dispatch_def Let_def)

lemma dispatch_addressed:
  assumes "tables_ok a" and "addressed (Machine (Entry (the_queue a) ! i)) (MsgType (Entry (the_queue a) ! i))"
  shows "(\<exists>f. \<forall>act. dispatch act i a = Some (act f i (log_ev (Performed f (Entry (the_queue a) ! i)) a)))
    \<or> (\<forall>act. dispatch act i a = Some (log_ev (Illegal (Entry (the_queue a) ! i)) a))"
proof -
  define e where "e = Entry (the_queue a) ! i"
  note cells = table_cells[OF assms(1), of "MsgType e", unfolded e_def]
  consider "Machine e = ASSOC_STATE_MACHINE" | "Machine e = AUTH_STATE_MACHINE" | "Machine e = AUTH_RSP_STATE_MACHINE"
    | "Machine e = SYNC_STATE_MACHINE" | "Machine e = ACTION_STATE_MACHINE" | "Machine e = WPA_STATE_MACHINE"
    | "Machine e = MLME_CNTL_STATE_MACHINE"
    | "Machine e \<notin> {ASSOC_STATE_MACHINE, AUTH_STATE_MACHINE, AUTH_RSP_STATE_MACHINE,
        SYNC_STATE_MACHINE, MLME_CNTL_STATE_MACHINE, WPA_PSK_STATE_MACHINE, ACTION_STATE_MACHINE, WPA_STATE_MACHINE}"
    using assms(2) by (fastforce simp: addressed_def e_def)
  then show ?thesis
    using assms(2)
    by cases (simp_all add: dispatch_machines e_def addressed_def machine_defs cells PerformAction_cell dispatch_illegal,
      blast+)
qed

section \<open>Frames from the air\<close>

text \<open>The functions meant for frames of a peer, as opposed to requests of the driver itself.\<close>

definition peer_func :: "sm_func \<Rightarrow> bool" where
  "peer_func f \<longleftrightarrow> f \<in> set [Drop, PeerDisassocAction, PeerAssocRspAction, PeerReassocRspAction,
     PeerAuthRspAtSeq2Action, PeerAuthRspAtSeq4Action, PeerDeauthAction, PeerBeacon, PeerProbeReqAction,
     PeerBeaconAtJoinAction, PeerBeaconAtScanAction, PeerSpectrumAction, PeerQOSAction, ReservedAction,
     PeerBAAction, PeerHTAction, PeerPublicAction, PeerRMAction, MlmeInvalidAction,
     WpaEAPPacketAction, WpaEAPOLStartAction, WpaEAPOLLogoffAction, WpaEAPOLKeyAction, WpaEAPOLASFAlertAction]"

definition all_peer :: "sm_func list \<Rightarrow> nat \<Rightarrow> nat \<Rightarrow> nat list \<Rightarrow> bool" where
  "all_peer tbl ns nm ms \<longleftrightarrow> list_all (\<lambda>s. list_all (\<lambda>m. peer_func (tbl ! (s * nm + m))) ms) [0..<ns]"

lemma all_peerD: "all_peer tbl ns nm ms \<Longrightarrow> s < ns \<Longrightarrow> m \<in> set ms \<Longrightarrow> peer_func (tbl ! (s * nm + m))"
  by (auto simp: all_peer_def list_all_iff)

lemma peer_columns:
  shows "all_peer (TransFunc (AssocStateMachineInit (replicate 44 Drop))) 4 11 [3, 4, 5, 6, 7]"
    and "all_peer (TransFunc (AuthStateMachineInit (replicate 9 Drop))) 3 3 [1]"
    and "all_peer (TransFunc (AuthRspStateMachineInit (replicate 6 Drop))) 2 3 [1, 2]"
    and "all_peer (TransFunc (SyncStateMachineInit (replicate 48 Drop))) 4 12 [3, 4, 5, 9]"
    and "all_peer (TransFunc (ActionStateMachineInit (replicate 24 Drop))) 1 24 (23 # [0..<18])"
    and "all_peer (TransFunc (WpaStateMachineInit (replicate 5 Drop))) 1 5 [0, 1, 2, 3, 4]"
  unfolding init_tables[OF length_replicate] STATE_MACHINE.simps by code_simp+

lemma MsgTypeSubst_cases:
  assumes "MsgTypeSubst p (0xff, 0) = Some (mach, mt)"
  obtains "mach = ASSOC_STATE_MACHINE" "unat mt \<in> set [3, 4, 5, 6, 7]"
  | "mach = AUTH_STATE_MACHINE" "unat mt \<in> set [1]"
  | "mach = AUTH_RSP_STATE_MACHINE" "unat mt \<in> set [1, 2]"
  | "mach = SYNC_STATE_MACHINE" "unat mt \<in> set [3, 4, 5, 9]"
  | "mach = ACTION_STATE_MACHINE" "unat mt \<in> set (23 # [0..<18])"
  | "mach = WPA_STATE_MACHINE" "unat mt \<in> set [0, 1, 2, 3, 4]"
  | "mach = 0xff" "mt = 0"
proof (cases "FC_SubType p = 13 \<or> FC_SubType p = 14")
  case True
  have "unat (ucast c :: ULONG) < 18" if "\<not> 17 < c" for c :: UINT8
    using that by (simp add: not_less word_le_nat_alt unsigned_ucast_eq take_bit_nat_eq_self)
  then show ?thesis
    using assms True that(5,6)
    by (auto simp: MsgTypeSubst_def WpaMsgTypeSubst_def Let_def MT2_ACT_INVALID_def MAX_PEER_CATE_MSG_def
        split: if_splits)
next
  case False
  then show ?thesis
    using assms that
    by (auto simp: MsgTypeSubst_def WpaMsgTypeSubst_def Let_def split: if_splits)
qed

text \<open>
  \<^bold>\<open>C15\<close> A frame from the air can only reach the functions meant for peers. Whatever
  its bytes, when \<^verbatim>\<open>MsgTypeSubst\<close> accepts it, the message is not the reset of the
  machines, and the dispatch reads a cell inside the table of the machine in its
  current state, whose function handles frames of a peer: no frame makes the station act on a
  request (scan, join, start, authenticate, associate, add or delete a block-ack session) as if
  the driver had made it, nor on a timeout. An authentication frame of an unknown
  algorithm is dispatched to no machine.
\<close>

theorem frame_dispatch_safe:
  assumes "tables_ok a" and "MsgTypeSubst p (0xff, 0) = Some (Machine e, MsgType e)"
    and "e = Entry (the_queue a) ! i"
  shows "MsgType e \<noteq> MT2_RESET_CONF
    \<and> ((\<exists>f. peer_func f \<and> dispatch act i a = Some (act f i (log_ev (Performed f e) a)))
       \<or> Machine e = 0xff \<and> dispatch act i a = Some (log_ev (Illegal e) a))"
proof -
  note cells = table_cells[OF assms(1), of "MsgType e"]
  note D = dispatch_machines[of a i act, folded assms(3)] dispatch_illegal[of a i act, folded assms(3)]
  note P = PerformAction_cell[of _ a i, folded assms(3)]
  note st = states_in_range[OF assms(1), unfolded word_less_nat_alt]
  have reset: "MsgType e \<noteq> MT2_RESET_CONF" if "unat (MsgType e) < 45"
    using that by (auto simp: MT2_RESET_CONF_def)
  from assms(2) show ?thesis
  proof (cases rule: MsgTypeSubst_cases)
    case 1
    then have "unat (MsgType e) < 11" by auto
    then show ?thesis
      using 1 D(1) P[OF cells(1)] all_peerD[OF peer_columns(1) _ 1(2)] st(1) reset
      by (auto simp: word_less_nat_alt)
  next
    case 2
    then have "unat (MsgType e) < 3" by auto
    then show ?thesis
      using 2 D(2) P[OF cells(2)] all_peerD[OF peer_columns(2) _ 2(2)] st(2) reset
      by (auto simp: word_less_nat_alt)
  next
    case 3
    then have "unat (MsgType e) < 3" by auto
    then show ?thesis
      using 3 D(3) P[OF cells(3)] all_peerD[OF peer_columns(3) _ 3(2)] st(3) reset
      by (auto simp: word_less_nat_alt)
  next
    case 4
    then have "unat (MsgType e) < 12" by auto
    then show ?thesis
      using 4 D(4) P[OF cells(4)] all_peerD[OF peer_columns(4) _ 4(2)] st(4) reset
      by (auto simp: word_less_nat_alt)
  next
    case 5
    then have "unat (MsgType e) < 24" by auto
    then show ?thesis
      using 5 D(5) P[OF cells(5)] all_peerD[OF peer_columns(5) _ 5(2), of 0] st(5) reset
      by (auto simp: word_less_nat_alt)
  next
    case 6
    then have "unat (MsgType e) < 5" by auto
    then show ?thesis
      using 6 D(6) P[OF cells(6)] all_peerD[OF peer_columns(6) _ 6(2), of 0] st(6) reset
      by (auto simp: word_less_nat_alt)
  next
    case 7
    then show ?thesis
      using D(8) reset by (auto simp: machine_defs)
  qed
qed

section \<open>The handler empties the queue\<close>

fun handled_msg :: "mlme_event \<Rightarrow> qmsg option" where
  "handled_msg (Performed f e) = Some (view e)"
| "handled_msg (Illegal e) = Some (view e)"
| "handled_msg (Restarted e) = Some (view e)"
| "handled_msg _ = None"

definition handled :: "MLME_ADAPTER \<Rightarrow> qmsg list" where
  "handled a = List.map_filter handled_msg (Events a)"

text \<open>
  What the handler needs of the functions in the tables. \<open>cost\<close> ranks the messages: a
  function that is called for a message may post others whose costs add up to
  less than the cost of that message. It may change the states of the machines, but it neither
  takes messages off the queue nor calls the handler, and sets no stop flag.
\<close>

definition deliverable :: "qmsg \<Rightarrow> bool" where
  "deliverable m \<longleftrightarrow> fst (snd m) = MT2_RESET_CONF \<or> addressed (fst m) (fst (snd m))"

definition calls :: "MLME_ADAPTER \<Rightarrow> nat \<Rightarrow> sm_func \<Rightarrow> bool" where
  "calls a i f \<longleftrightarrow>
     (\<forall>act. dispatch act i a = Some (act f i (log_ev (Performed f (Entry (the_queue a) ! i)) a)))"

definition well_behaved :: "(qmsg \<Rightarrow> nat) \<Rightarrow> actions \<Rightarrow> bool" where
  "well_behaved cost act \<longleftrightarrow> (\<forall>m. 0 < cost m) \<and>
     (\<forall>a i f. queue_wf (the_queue a) \<and> tables_ok a \<and> \<not> handler_stops a \<and> i < 40 \<and> calls a i f \<longrightarrow>
       (let b = act f i (log_ev (Performed f (Entry (the_queue a) ! i)) a) in
        queue_wf (the_queue b) \<and> tables_ok b \<and> \<not> handler_stops b \<and> Head (the_queue b) = Head (the_queue a)
        \<and> handled b = handled a @ [view (Entry (the_queue a) ! i)]
        \<and> (\<exists>new. contents (the_queue b) = contents (the_queue a) @ new
             \<and> sum_list (map cost new) < cost (view (Entry (the_queue a) ! i)) \<and> list_all deliverable new)))"

lemma handled_log [simp]:
  "handled (log_ev e a) = handled a @ (case handled_msg e of None \<Rightarrow> [] | Some m \<Rightarrow> [m])"
  by (simp add: handled_def log_ev_def map_filter_simps split: option.splits)
     (simp add: List.map_filter_def split: option.splits)

lemma handled_upd_queue [simp]: "handled (upd_queue f a) = handled a"
  by (simp add: handled_def)

lemma tables_ok_simps [simp]:
  "tables_ok (upd_queue f a) = tables_ok a" "tables_ok (log_ev e a) = tables_ok a"
  "handler_stops (upd_queue f a) = handler_stops a" "handler_stops (log_ev e a) = handler_stops a"
  "handler_stops (set_running r a) = handler_stops a" "tables_ok (set_running r a) = tables_ok a"
  "the_queue (set_running r a) = the_queue a" "handled (set_running r a) = handled a"
  by (simp_all add: tables_ok_def upd_queue_def log_ev_def handler_stops_def RTMP_TEST_FLAG_def set_running_def
      handled_def)

lemma free_elem_queue: "the_queue (free_elem i a) =
    (the_queue a)\<lparr>Entry := (Entry (the_queue a))[i := (Entry (the_queue a) ! i)\<lparr>Occupied := False, MsgLen := 0\<rparr>]\<rparr>"
  by (simp add: free_elem_def)

lemma free_elem_keeps:
  assumes "queue_wf (the_queue a)" and "length (contents (the_queue a)) < 40"
    and "i = slot (the_queue a) 39"
  shows "queue_wf (the_queue (free_elem i a))" and "contents (the_queue (free_elem i a)) = contents (the_queue a)"
proof -
  let ?q = "the_queue a"
  have i: "i < 40"
    by (simp add: assms(3))
  have "e \<in> set (Entry ?q) \<or> e = (Entry ?q ! i)\<lparr>Occupied := False, MsgLen := 0\<rparr>"
    if "e \<in> set (Entry (the_queue (free_elem i a)))" for e
    using that set_update_subset_insert by (fastforce simp: free_elem_queue)
  then have "\<forall>e \<in> set (Entry (the_queue (free_elem i a))). length (Msg e) = 1600"
    using queue_wfD(6)[OF assms(1)] wf_Msg[OF assms(1) i] by fastforce
  then show "queue_wf (the_queue (free_elem i a))"
    using assms(1) by (simp add: queue_wf_def free_elem_queue slot_def queue_consts)
  have "i \<noteq> slot ?q k" if "k < unat (Num ?q)" for k
    using that assms(2,3) mod_slot_inj[of "unat (Head ?q)" k 39] by (auto simp: slot_def queue_consts)
  then show "contents (the_queue (free_elem i a)) = contents ?q"
    by (simp add: contents_def elems_def free_elem_queue slot_def)
qed

lemma set_assoc_tables: "tables_ok a \<Longrightarrow> st < 4 \<Longrightarrow> tables_ok (set_assoc_state st a)"
  by (simp add: tables_ok_def set_assoc_state_def same_table_upd AssocStateMachineInit_table)

lemma set_auth_tables: "tables_ok a \<Longrightarrow> st < 3 \<Longrightarrow> tables_ok (set_auth_state st a)"
  by (simp add: tables_ok_def set_auth_state_def same_table_upd AuthStateMachineInit_table)

lemma set_sync_tables: "tables_ok a \<Longrightarrow> st < 4 \<Longrightarrow> tables_ok (set_sync_state st a)"
  by (simp add: tables_ok_def set_sync_state_def same_table_upd SyncStateMachineInit_table)

lemma clear_flag_test: "x AND f = 0 \<Longrightarrow> (x AND NOT s) AND f = (0 :: ULONG)"
  by (metis and.assoc and.commute and_zero_eq)

lemma MlmeRestart_keeps:
  shows "the_queue (MlmeRestartStateMachine a) = the_queue a"
    and "handled (MlmeRestartStateMachine a) = handled a"
    and "tables_ok a \<Longrightarrow> tables_ok (MlmeRestartStateMachine a)"
    and "\<not> handler_stops a \<Longrightarrow> \<not> handler_stops (MlmeRestartStateMachine a)"
proof -
  show "the_queue (MlmeRestartStateMachine a) = the_queue a"
    by (simp add: MlmeRestartStateMachine_def RTMPResumeMsduTransmission_def Let_def)
  show "handled (MlmeRestartStateMachine a) = handled a"
    by (simp add: MlmeRestartStateMachine_def RTMPResumeMsduTransmission_def Let_def handled_def log_ev_def
        List.map_filter_def)
  show "tables_ok a \<Longrightarrow> tables_ok (MlmeRestartStateMachine a)"
    by (simp add: MlmeRestartStateMachine_def RTMPResumeMsduTransmission_def Let_def tables_ok_def same_table_upd
        init_tables)
  have "Flags (MlmeRestartStateMachine a) = Flags a AND NOT fRTMP_ADAPTER_BSS_SCAN_IN_PROGRESS"
    by (simp add: MlmeRestartStateMachine_def RTMPResumeMsduTransmission_def Let_def)
  then show "\<not> handler_stops a \<Longrightarrow> \<not> handler_stops (MlmeRestartStateMachine a)"
    unfolding handler_stops_def RTMP_TEST_FLAG_def using clear_flag_test by metis
qed

lemma length_le_cost: "(\<And>m. 0 < cost m) \<Longrightarrow> length ms \<le> sum_list (map cost ms)" for cost :: "'a \<Rightarrow> nat"
proof (induction ms)
  case (Cons m ms)
  have "0 < cost m"
    by (rule Cons.prems)
  then show ?case
    using Cons.IH[OF Cons.prems] by simp
qed simp

lemma dequeued_slot:
  "queue_wf q \<Longrightarrow> Head q1 = Head (snd (MlmeDequeue q)) \<Longrightarrow> unat (Head q) = slot q1 39"
  using slot_dequeue[of q 39] queue_wfD(2)[of q]
  by (simp add: slot_def queue_consts)

lemma dequeue_head:
  assumes "queue_wf (the_queue a)" and "contents (the_queue a) = m # ms"
  obtains i q where "MlmeDequeue (the_queue a) = (i, q)" "queue_wf q" "contents q = ms" "view (Entry q ! i) = m"
    "i < 40" "i = slot q 39"
proof -
  have N: "Num (the_queue a) \<noteq> 0"
    using assms(2) by (metis length_contents list.size(3) list.discI unat_0 length_0_conv)
  show thesis
  proof (rule that)
    show "MlmeDequeue (the_queue a) = (unat (Head (the_queue a)), snd (MlmeDequeue (the_queue a)))"
      by (simp add: MlmeDequeue_def)
    show "queue_wf (snd (MlmeDequeue (the_queue a)))"
      by (rule MlmeDequeue_wf[OF assms(1) N])
    show "contents (snd (MlmeDequeue (the_queue a))) = ms"
      "view (Entry (snd (MlmeDequeue (the_queue a))) ! unat (Head (the_queue a))) = m"
      using elems_dequeue[OF assms(1) N] assms(2) by (simp_all add: contents_def)
    show "unat (Head (the_queue a)) < 40"
      by (rule queue_wfD(2)[OF assms(1)])
    show "unat (Head (the_queue a)) = slot (snd (MlmeDequeue (the_queue a))) 39"
      by (rule dequeued_slot[OF assms(1) refl])
  qed
qed

text \<open>One turn of the loop: the oldest message is handled, and what its function posts is queued last.\<close>

lemma handle_one_step:
  assumes wf: "queue_wf (the_queue a)" "tables_ok a" "\<not> handler_stops a"
    and ms: "contents (the_queue a) = m # ms" and d: "deliverable m"
    and act: "well_behaved cost act" and c: "sum_list (map cost (m # ms)) \<le> 40"
  obtains b new where "handle_one act a = Some b" "queue_wf (the_queue b)" "tables_ok b" "\<not> handler_stops b"
    "contents (the_queue b) = ms @ new" "handled b = handled a @ [m]"
    "sum_list (map cost new) < cost m" "list_all deliverable new"
proof -
  note fin = that
  obtain i q1 where dq: "MlmeDequeue (the_queue a) = (i, q1)" and q1: "queue_wf q1" "contents q1 = ms"
    "view (Entry q1 ! i) = m" and i: "i < 40" "i = slot q1 39"
    using dequeue_head[OF wf(1) ms] by metis
  define a1 where "a1 = upd_queue (\<lambda>_. q1) a"
  define e where "e = Entry q1 ! i"
  have e: "view e = m"
    by (simp add: e_def q1)
  have pos: "0 < cost m" for m
    using act unfolding well_behaved_def by blast
  have a1: "the_queue a1 = q1" "tables_ok a1" "\<not> handler_stops a1" "handled a1 = handled a"
    using wf by (simp_all add: a1_def)
  have step: "handle_one act a = (if MsgType e = MT2_RESET_CONF
      then Some (free_elem i (MlmeRestartStateMachine (log_ev (Restarted e) a1)))
      else map_option (free_elem i) (dispatch act i a1))"
    by (simp add: handle_one_def dq a1_def e_def Let_def)
  have finish: thesis
    if b: "handle_one act a = Some (free_elem i b)" "queue_wf (the_queue b)" "tables_ok b" "\<not> handler_stops b"
      "Head (the_queue b) = Head q1" "contents (the_queue b) = ms @ new" "handled b = handled a @ [m]"
      "sum_list (map cost new) < cost m" "list_all deliverable new" for b new
  proof -
    have "length (contents (the_queue b)) \<le> sum_list (map cost (ms @ new))"
      using length_le_cost[of cost] pos b(6) by metis
    then have "length (contents (the_queue b)) < 40"
      using b(8) c by simp
    moreover have "i = slot (the_queue b) 39"
      using i(2) b(5) by (simp add: slot_def)
    ultimately show thesis
      using fin[of "free_elem i b" new] free_elem_keeps[of b i] b by (simp add: free_elem_def)
  qed
  show thesis
  proof (cases "MsgType e = MT2_RESET_CONF")
    case True
    then show thesis
      using step a1 q1 e pos[of m]
      by (intro finish[of "MlmeRestartStateMachine (log_ev (Restarted e) a1)" "[]"])
        (simp_all add: MlmeRestart_keeps)
  next
    case False
    then have "addressed (Machine (Entry (the_queue a1) ! i)) (MsgType (Entry (the_queue a1) ! i))"
      using d q1(3) by (auto simp: deliverable_def view_def a1 e_def)
    from dispatch_addressed[OF a1(2) this] show thesis
    proof (elim disjE exE)
      fix f assume "\<forall>act. dispatch act i a1 = Some (act f i (log_ev (Performed f (Entry (the_queue a1) ! i)) a1))"
      then have f: "calls a1 i f"
        by (simp add: calls_def)
      define b where "b = act f i (log_ev (Performed f (Entry (the_queue a1) ! i)) a1)"
      have "handle_one act a = Some (free_elem i b)"
        using f step False by (simp add: calls_def b_def)
      moreover obtain new where "queue_wf (the_queue b)" "tables_ok b" "\<not> handler_stops b" "Head (the_queue b) = Head q1"
        "contents (the_queue b) = ms @ new" "handled b = handled a @ [m]"
        "sum_list (map cost new) < cost m" "list_all deliverable new"
        using act f a1 q1 i(1) unfolding well_behaved_def Let_def b_def by metis
      ultimately show thesis
        by (intro finish)
    next
      assume "\<forall>act. dispatch act i a1 = Some (log_ev (Illegal (Entry (the_queue a1) ! i)) a1)"
      then show thesis
        using step a1 q1 pos[of m] False
        by (intro finish[of "log_ev (Illegal e) a1" "[]"]) (simp_all add: e_def)
    qed
  qed
qed

lemma mlme_loop_empties:
  assumes "queue_wf (the_queue a)" "tables_ok a" "\<not> handler_stops a" "list_all deliverable (contents (the_queue a))"
    and "well_behaved cost act" "sum_list (map cost (contents (the_queue a))) \<le> 40"
  shows "\<exists>b posted. mlme_loop act a = Some b \<and> contents (the_queue b) = []
    \<and> handled b = handled a @ contents (the_queue a) @ posted \<and> queue_wf (the_queue b) \<and> tables_ok b"
  using assms
proof (induction "sum_list (map cost (contents (the_queue a)))" arbitrary: a rule: less_induct)
  case less
  show ?case
  proof (cases "contents (the_queue a)")
    case Nil
    then have "mlme_loop act a = Some a"
      using mq.isempty_iff[OF less.prems(1)] by (simp add: mlme_loop.simps)
    then show ?thesis
      using Nil less.prems by simp
  next
    case (Cons m ms)
    obtain b new where b: "handle_one act a = Some b" "queue_wf (the_queue b)" "tables_ok b" "\<not> handler_stops b"
      "contents (the_queue b) = ms @ new" "handled b = handled a @ [m]"
      "sum_list (map cost new) < cost m" "list_all deliverable new"
      using handle_one_step[OF less.prems(1-3) Cons _ less.prems(5)] less.prems(4,6) Cons by auto
    have "\<not> MlmeQueueEmpty (the_queue a)"
      using mq.isempty_iff[OF less.prems(1)] Cons by simp
    then have l: "mlme_loop act a = mlme_loop act b"
      using b(1) less.prems(3) mlme_loop.simps[of act a] by simp
    have "\<exists>c posted. mlme_loop act b = Some c \<and> contents (the_queue c) = []
        \<and> handled c = handled b @ contents (the_queue b) @ posted \<and> queue_wf (the_queue c) \<and> tables_ok c"
      using less.prems(4,6) Cons b by (intro less.hyps less.prems(5)) simp_all
    then show ?thesis
      using l b(5,6) Cons by auto
  qed
qed


section \<open>The actions that report to the control machine\<close>

definition quiet :: "actions \<Rightarrow> bool" where
  "quiet rest \<longleftrightarrow> (\<forall>f i a. the_queue (rest f i a) = the_queue a \<and> Flags (rest f i a) = Flags a
     \<and> handled (rest f i a) = handled a \<and> (tables_ok a \<longrightarrow> tables_ok (rest f i a)))"

definition cost2 :: "qmsg \<Rightarrow> nat" where
  "cost2 m = (if fst m = MLME_CNTL_STATE_MACHINE then 1 else 2)"

lemma basic_action_cases:
  obtains "basic_action rest f i a = a"
  | "basic_action rest f i a = rest f i a"
  | mt s g where "f \<noteq> MlmeCntlMachinePerformAction" "g \<in> {set_assoc_state 0, set_auth_state 0, set_sync_state 0}"
      "basic_action rest f i a = confirm mt s (g a)"
  by (cases f) (auto simp: basic_action_def do_AssocTimeoutAction_def do_ReassocTimeoutAction_def
      do_DisassocTimeoutAction_def do_InvalidStateWhenAssoc_def do_InvalidStateWhenReassoc_def
      do_InvalidStateWhenDisassociate_def do_AuthTimeoutAction_def do_InvalidStateWhenAuth_def
      do_BeaconTimeoutAtJoinAction_def do_InvalidStateWhenStart_def)

lemma set_state_keeps:
  assumes "g \<in> {set_assoc_state 0, set_auth_state 0, set_sync_state 0}"
  shows "the_queue (g a) = the_queue a" "Flags (g a) = Flags a" "handled (g a) = handled a" "tables_ok a \<Longrightarrow> tables_ok (g a)"
proof -
  show "the_queue (g a) = the_queue a" "Flags (g a) = Flags a" "handled (g a) = handled a"
    using assms by (auto simp: set_assoc_state_def set_auth_state_def set_sync_state_def handled_def)
  show "tables_ok a \<Longrightarrow> tables_ok (g a)"
    using assms by (auto intro: set_assoc_tables set_auth_tables set_sync_tables)
qed

lemma MlmeEnqueue_frame:
  "tables_ok (snd (MlmeEnqueue x y l p v a)) = tables_ok a"
  "handled (snd (MlmeEnqueue x y l p v a)) = handled a"
  "handler_stops (snd (MlmeEnqueue x y l p v a)) = handler_stops a"
  "Flags (snd (MlmeEnqueue x y l p v a)) = Flags a"
  "Head (the_queue (snd (MlmeEnqueue x y l p v a))) = Head (the_queue a)"
  by (simp_all add: MlmeEnqueue_def queue_put_def)

lemma map_status_mem: "map (status_mem s) [0..<unat (2 :: ULONG)] = [ucast s, ucast (drop_bit 8 s)]"
  by (simp add: status_mem_def upt_conv_Cons)

lemma confirm_contents:
  assumes "queue_wf (the_queue a)" and "\<not> handler_stops a"
  shows "queue_wf (the_queue (confirm mt s a))"
    and "contents (the_queue (confirm mt s a)) = contents (the_queue a) @
      (if length (contents (the_queue a)) < 40
       then [(MLME_CNTL_STATE_MACHINE, mt, [ucast s, ucast (drop_bit 8 s)], 0)] else [])"
proof -
  define m where "m = Post MLME_CNTL_STATE_MACHINE mt 2 (status_mem s) 0"
  have "\<not> RTMP_TEST_FLAG a (fRTMP_ADAPTER_HALT_IN_PROGRESS OR fRTMP_ADAPTER_NIC_NOT_EXIST)"
    using assms(2) by (auto simp: handler_stops_def RTMP_TEST_FLAG_def bit.conj_disj_distrib)
  then have adm: "admitted m a \<longleftrightarrow> length (contents (the_queue a)) < 40"
    by (simp add: m_def queue_consts)
  have c: "confirm mt s a = snd (post m a)"
    by (simp add: confirm_def m_def)
  have p: "posted m = (MLME_CNTL_STATE_MACHINE, mt, [ucast s, ucast (drop_bit 8 s)], 0)"
    by (simp only: m_def posted.simps map_status_mem)
  show "queue_wf (the_queue (confirm mt s a))"
    using mq.enq_admitted[OF assms(1), of m] mq.enq_refused[OF assms(1), of m] assms(1) c
    by (cases "admitted m a") auto
  show "contents (the_queue (confirm mt s a)) = contents (the_queue a) @
      (if length (contents (the_queue a)) < 40
       then [(MLME_CNTL_STATE_MACHINE, mt, [ucast s, ucast (drop_bit 8 s)], 0)] else [])"
    using mq.enq_admitted[OF assms(1), of m] mq.enq_refused[OF assms(1), of m] c p
    by (cases "admitted m a") (auto simp: adm)
qed

lemma calls_not_cntl:
  assumes "calls a i f" and "f \<noteq> MlmeCntlMachinePerformAction"
  shows "Machine (Entry (the_queue a) ! i) \<noteq> MLME_CNTL_STATE_MACHINE"
proof
  assume "Machine (Entry (the_queue a) ! i) = MLME_CNTL_STATE_MACHINE"
  then have "log_ev (Performed f (Entry (the_queue a) ! i)) a
      = log_ev (Performed MlmeCntlMachinePerformAction (Entry (the_queue a) ! i)) a"
    using assms(1) dispatch_machines(7)[of a i "\<lambda>_ _ x. x"] unfolding calls_def by auto
  then have "Events a @ [Performed f (Entry (the_queue a) ! i)]
      = Events a @ [Performed MlmeCntlMachinePerformAction (Entry (the_queue a) ! i)]"
    by (metis upd_queue_simps(7))
  then show False
    using assms(2) by simp
qed

lemma stops_flags: "Flags b = Flags a \<Longrightarrow> handler_stops b = handler_stops a"
  by (simp add: handler_stops_def RTMP_TEST_FLAG_def)

lemma well_behaved_basic:
  assumes "quiet rest"
  shows "well_behaved cost2 (basic_action rest)"
proof -
  have "queue_wf (the_queue b) \<and> tables_ok b \<and> \<not> handler_stops b \<and> Head (the_queue b) = Head (the_queue a)
      \<and> handled b = handled a @ [view (Entry (the_queue a) ! i)]
      \<and> (\<exists>new. contents (the_queue b) = contents (the_queue a) @ new
           \<and> sum_list (map cost2 new) < cost2 (view (Entry (the_queue a) ! i)) \<and> list_all deliverable new)"
    if A: "queue_wf (the_queue a)" "tables_ok a" "\<not> handler_stops a" "calls a i f"
      and b: "b = basic_action rest f i (log_ev (Performed f (Entry (the_queue a) ! i)) a)" for a i f b
  proof -
    define a1 where "a1 = log_ev (Performed f (Entry (the_queue a) ! i)) a"
    have a1: "the_queue a1 = the_queue a" "tables_ok a1" "\<not> handler_stops a1"
      "handled a1 = handled a @ [view (Entry (the_queue a) ! i)]"
      using A by (simp_all add: a1_def)
    have pos: "0 < cost2 m" for m
      by (simp add: cost2_def)
    show ?thesis
    proof (cases rule: basic_action_cases[of rest f i a1])
      case 1
      then show ?thesis
        using a1 A b[folded a1_def] pos by simp
    next
      case 2
      then show ?thesis
        using a1 A b[folded a1_def] pos assms stops_flags[of "rest f i a1" a1] by (simp add: quiet_def)
    next
      case (3 mt s g)
      note k = set_state_keeps[OF 3(2), of a1]
      have g: "queue_wf (the_queue (g a1))" "\<not> handler_stops (g a1)"
        using k a1 A stops_flags[OF k(2)] by simp_all
      have "cost2 (view (Entry (the_queue a) ! i)) = 2"
        using calls_not_cntl[OF A(4) 3(1)] by (simp add: cost2_def view_def)
      moreover have "deliverable (MLME_CNTL_STATE_MACHINE, x)" for x
        by (cases x) (simp add: deliverable_def addressed_def machine_defs)
      ultimately show ?thesis
        using confirm_contents[OF g, of mt s] k a1 A 3(3) b[folded a1_def]
        by (simp add: confirm_def MlmeEnqueue_frame cost2_def g(2))
    qed
  qed
  then show ?thesis
    unfolding well_behaved_def Let_def by (auto simp: cost2_def)
qed

section \<open>Witnesses and a whole run\<close>

definition zero_arrays :: func_arrays where
  "zero_arrays = \<lparr>AssocFunc = replicate 44 Drop, AuthFunc = replicate 9 Drop, AuthRspFunc = replicate 6 Drop,
     SyncFunc = replicate 48 Drop, ActFunc = replicate 24 Drop, WpaFunc = replicate 5 Drop\<rparr>"

definition init_mlme :: MLME_ADAPTER where
  "init_mlme = MlmeInit zero_arrays zero_mlme"

definition one_beacon :: MLME_ADAPTER where
  "one_beacon = snd (post (Frame zero_rx 4 beacon_mem) init_mlme)"

lemma init_mlme_facts:
  "tables_ok init_mlme" "the_queue init_mlme = zero_queue" "\<not> bRunning (Mlme init_mlme)" "Flags init_mlme = 0"
  "\<not> handler_stops init_mlme"
proof -
  show "tables_ok init_mlme"
    unfolding init_mlme_def by (rule MlmeInit_tables_ok) (simp add: arrays_ok_def zero_arrays_def)
  show "the_queue init_mlme = zero_queue" "\<not> bRunning (Mlme init_mlme)" "Flags init_mlme = 0"
    by (simp_all add: init_mlme_def MlmeInit_def init_zero_queue)
  then show "\<not> handler_stops init_mlme"
    by (simp add: handler_stops_def RTMP_TEST_FLAG_def)
qed

lemma one_beacon_eq: "one_beacon = log_ev MlmeTaskUp
    (upd_queue (queue_put (fill_recv zero_rx 4 beacon_mem (SYNC_STATE_MACHINE, 3) (LatchChannel init_mlme))) init_mlme)"
proof -
  have "\<not> MlmeQueueFull zero_queue 0"
    by (simp add: full_recv zero_queue_wf)
  then show ?thesis
    by (simp add: one_beacon_def MlmeEnqueueForRecv_def init_mlme_facts RTMP_TEST_FLAG_def queue_consts beacon_subst)
qed

lemma one_beacon_facts:
  "tables_ok one_beacon" "\<not> bRunning (Mlme one_beacon)" "\<not> handler_stops one_beacon" "queue_wf (the_queue one_beacon)"
  "contents (the_queue one_beacon) = [(SYNC_STATE_MACHINE, 3, [0x80, 7, 7, 7], 0)]"
proof -
  show "tables_ok one_beacon" "\<not> bRunning (Mlme one_beacon)" "\<not> handler_stops one_beacon"
    by (simp_all add: one_beacon_eq init_mlme_facts) (simp add: upd_queue_def init_mlme_facts)
  have adm: "admitted (Frame zero_rx 4 beacon_mem) init_mlme"
    using zero_queue_wf by (simp add: init_mlme_facts beacon_subst queue_consts RTMP_TEST_FLAG_def)
  have "queue_wf (the_queue init_mlme)"
    by (simp add: init_mlme_facts zero_queue_wf)
  from mq.enq_admitted[OF this adm] show "queue_wf (the_queue one_beacon)"
    "contents (the_queue one_beacon) = [(SYNC_STATE_MACHINE, 3, [0x80, 7, 7, 7], 0)]"
    unfolding one_beacon_def
    by (auto simp only: init_mlme_facts(2) zero_contents posted.simps beacon_subst beacon_bytes option.sel fst_conv
        snd_conv append_Nil)
qed

lemma quiet_id: "quiet (\<lambda>_ _ x. x)"
  by (simp add: quiet_def)


lemma one_beacon_elem:
  "Machine (Entry (the_queue one_beacon) ! 0) = SYNC_STATE_MACHINE \<and> MsgType (Entry (the_queue one_beacon) ! 0) = 3"
  by (simp add: one_beacon_eq init_mlme_facts queue_put_def zero_queue_def queue_consts fill_recv_def)

lemma frame_dispatch_safe_witness:
  "MsgTypeSubst beacon_mem (0xff, 0) = Some (SYNC_STATE_MACHINE, 3)
   \<and> (\<exists>f. peer_func f \<and> dispatch (\<lambda>_ _ x. x) 0 one_beacon
          = Some (log_ev (Performed f (Entry (the_queue one_beacon) ! 0)) one_beacon))"
  using frame_dispatch_safe[OF one_beacon_facts(1) _ refl, of beacon_mem 0 "\<lambda>_ _ x. x"] one_beacon_elem beacon_subst
  by (simp add: machine_defs)

lemma handle_one_call:
  assumes "MlmeDequeue (the_queue a) = (i, q)" and "MsgType (Entry q ! i) \<noteq> MT2_RESET_CONF"
    and "calls (upd_queue (\<lambda>_. q) a) i f"
  shows "handle_one act a = Some (free_elem i (act f i (log_ev (Performed f (Entry q ! i)) (upd_queue (\<lambda>_. q) a))))"
  using assms by (simp add: handle_one_def calls_def)

lemma assoc_timeout_called:
  assumes "tables_ok a" and "CurrState (AssocMachine (Mlme a)) = 1"
    and "Machine (Entry (the_queue a) ! i) = ASSOC_STATE_MACHINE" and "MsgType (Entry (the_queue a) ! i) = 9"
  shows "calls a i AssocTimeoutAction"
  using dispatch_machines(1)[OF assms(3)] table_cells(1)[OF assms(1), of 9] assms(2,4)
  by (simp add: calls_def PerformAction_cell AssocStateMachineInit_table)

text \<open>A message put into the slot that is then freed stays queued, without its body.\<close>

lemma reply_in_freed_slot:
  assumes "queue_wf q" and "unat (Num q) = 39" and "unat (Tail q) = i" and "unat len \<le> 1600"
    and "the_queue c = queue_put (fill_local mach mt len msg prv) q"
  shows "queue_wf (the_queue (free_elem i c))
    \<and> contents (the_queue (free_elem i c)) = contents q @ [(mach, mt, [], prv)]
    \<and> \<not> Occupied (last (elems (the_queue (free_elem i c))))"
proof -
  define g where "g = (\<lambda>e. (fill_local mach mt len msg prv e)\<lparr>Occupied := False, MsgLen := 0\<rparr>)"
  have "i < length (Entry q)"
    using queue_wfD(1,5)[OF assms(1)] assms(3) by simp
  then have qb: "the_queue (free_elem i c) = queue_put g q"
    using assms(3) by (simp add: free_elem_queue assms(5) queue_put_def g_def)
  have len: "length (Msg e) = 1600 \<Longrightarrow> length (Msg (g e)) = 1600" for e
    using assms(4) by (simp add: g_def fill_local_def)
  have el: "elems (queue_put g q) = elems q @ [g (Entry q ! i)]"
    using elems_put[OF assms(1)] assms(2,3) by simp
  have "view (g (Entry q ! i)) = (mach, mt, [], prv)"
    by (simp add: view_def g_def fill_local_def)
  then have "contents (queue_put g q) = contents q @ [(mach, mt, [], prv)]"
    using el by (simp add: contents_def)
  moreover have "queue_wf (queue_put g q)"
    using queue_put_wf[OF assms(1) _ len] assms(2) by simp
  ultimately show ?thesis
    using qb el by (simp add: g_def)
qed

text \<open>
  A full queue corrupts the message that the running function posts. With
  all 40 slots in use, the handler takes the association timeout off the queue, which frees
  its slot for \<^verbatim>\<open>MlmeEnqueue\<close> while the element is still being handled: the
  confirmation to the control machine goes into that very element, and when the function
  returns the handler clears the element's length and its occupied mark. The confirmation stays
  queued as the last message with an empty body.
\<close>

theorem full_queue_reply_truncated:
  assumes "queue_wf (the_queue a)" and "tables_ok a" and "\<not> handler_stops a"
    and "CurrState (AssocMachine (Mlme a)) = 1"
    and "contents (the_queue a) = (ASSOC_STATE_MACHINE, 9, body, prv) # ms" and "length ms = 39"
  shows "\<exists>b. handle_one (basic_action rest) a = Some b \<and> queue_wf (the_queue b)
    \<and> contents (the_queue b) = ms @ [(MLME_CNTL_STATE_MACHINE, 34, [], 0)]
    \<and> \<not> Occupied (last (elems (the_queue b)))"
proof -
  obtain i q where dq: "MlmeDequeue (the_queue a) = (i, q)" and q: "queue_wf q" "contents q = ms"
    "view (Entry q ! i) = (ASSOC_STATE_MACHINE, 9, body, prv)" and i: "i = slot q 39"
    using dequeue_head[OF assms(1,5)] by metis
  define a1 where "a1 = upd_queue (\<lambda>_. q) a"
  define a2 where "a2 = set_assoc_state 0 (log_ev (Performed AssocTimeoutAction (Entry q ! i)) a1)"
  have e: "Machine (Entry q ! i) = ASSOC_STATE_MACHINE" "MsgType (Entry q ! i) = 9"
    using q(3) by (simp_all add: view_def)
  have "AssocMachine (Mlme a1) = AssocMachine (Mlme a)"
    by (simp add: a1_def upd_queue_def)
  then have "calls a1 i AssocTimeoutAction"
    using assoc_timeout_called[of a1 i] assms(2,4) e by (simp add: a1_def)
  from handle_one_call[OF dq _ this[unfolded a1_def]] e(2)
  have h: "handle_one (basic_action rest) a = Some (free_elem i (confirm 34 MLME_REJ_TIMEOUT a2))"
    by (simp add: basic_action_def do_AssocTimeoutAction_def a2_def a1_def MT2_RESET_CONF_def)
  have a2: "the_queue a2 = q" "\<not> handler_stops a2"
    using assms(3) set_state_keeps(1,2)[of "set_assoc_state 0"] stops_flags[of a2 a]
    by (simp_all add: a2_def a1_def)
  have n: "unat (Num q) = 39"
    using q(2) assms(6) by (metis length_contents)
  have t: "unat (Tail q) = i"
    using queue_wfD(4)[OF q(1)] n by (simp add: i slot_def queue_consts)
  have "\<not> RTMP_TEST_FLAG a2 (fRTMP_ADAPTER_HALT_IN_PROGRESS OR fRTMP_ADAPTER_NIC_NOT_EXIST)"
    using a2(2) by (auto simp: handler_stops_def RTMP_TEST_FLAG_def bit.conj_disj_distrib)
  then have "the_queue (confirm 34 MLME_REJ_TIMEOUT a2)
      = queue_put (fill_local MLME_CNTL_STATE_MACHINE 34 2 (Some (status_mem MLME_REJ_TIMEOUT)) 0) q"
    using full_local[OF q(1)] n a2(1) by (simp add: confirm_def MlmeEnqueue_def queue_consts)
  from reply_in_freed_slot[OF q(1) n t _ this] show ?thesis
    using h q(2) by simp
qed

definition timeout_elem :: MLME_QUEUE_ELEM where
  "timeout_elem = zero_elem\<lparr>Machine := ASSOC_STATE_MACHINE, MsgType := 9\<rparr>"

definition full_mlme :: MLME_ADAPTER where
  "full_mlme = set_assoc_state 1 (upd_queue (\<lambda>q. q\<lparr>Num := 40, Entry := replicate MAX_LEN_OF_MLME_QUEUE timeout_elem\<rparr>) init_mlme)"

lemma full_mlme_facts:
  "queue_wf (the_queue full_mlme)" "tables_ok full_mlme" "\<not> handler_stops full_mlme"
  "CurrState (AssocMachine (Mlme full_mlme)) = 1"
  "contents (the_queue full_mlme) = (ASSOC_STATE_MACHINE, 9, [], 0) # replicate 39 (ASSOC_STATE_MACHINE, 9, [], 0)"
proof -
  have q: "the_queue full_mlme = \<lparr>Num = 40, Head = 0, Tail = 0, Entry = replicate 40 timeout_elem\<rparr>"
    by (simp add: full_mlme_def set_assoc_state_def init_mlme_facts zero_queue_def queue_consts)
  show "queue_wf (the_queue full_mlme)"
    by (simp add: q queue_wf_def queue_consts slot_def timeout_elem_def zero_elem_def)
  show "tables_ok full_mlme"
    unfolding full_mlme_def by (intro set_assoc_tables) (simp_all add: init_mlme_facts)
  show "\<not> handler_stops full_mlme"
    by (simp add: full_mlme_def handler_stops_def RTMP_TEST_FLAG_def set_assoc_state_def init_mlme_facts)
  show "CurrState (AssocMachine (Mlme full_mlme)) = 1"
    by (simp add: full_mlme_def set_assoc_state_def)
  have "contents (the_queue full_mlme) = map (\<lambda>_. (ASSOC_STATE_MACHINE, 9, [], 0)) [0..<40]"
    by (simp add: q contents_def elems_def slot_def queue_consts timeout_elem_def view_def zero_elem_def)
  also have "\<dots> = replicate (Suc 39) (ASSOC_STATE_MACHINE, 9, [], 0)"
    by (simp add: map_replicate_const)
  finally show "contents (the_queue full_mlme) = (ASSOC_STATE_MACHINE, 9, [], 0) # replicate 39 (ASSOC_STATE_MACHINE, 9, [], 0)"
    by (simp only: replicate_Suc)
qed

lemma full_queue_reply_truncated_witness:
  "length (contents (the_queue full_mlme)) = 40
   \<and> (\<exists>b. handle_one (basic_action (\<lambda>_ _ x. x)) full_mlme = Some b
        \<and> last (contents (the_queue b)) = (MLME_CNTL_STATE_MACHINE, 34, [], 0))"
  using full_queue_reply_truncated[OF full_mlme_facts, of "\<lambda>_ _ x. x"] full_mlme_facts(5)
  by (auto simp del: length_contents simp: full_mlme_facts(5))

lemma mlme_loop_step:
  "\<not> MlmeQueueEmpty (the_queue a) \<Longrightarrow> \<not> handler_stops a \<Longrightarrow> handle_one act a = Some b \<Longrightarrow>
     mlme_loop act a = mlme_loop act b"
  by (simp add: mlme_loop.simps[of act a])

lemma timeout_posted:
  assumes "queue_wf (the_queue a)" "\<not> handler_stops a" "contents (the_queue a) = []"
  shows "queue_wf (the_queue (AssocTimeout a))"
    and "contents (the_queue (AssocTimeout a)) = [(ASSOC_STATE_MACHINE, 9, [], 0)]"
    and "tables_ok (AssocTimeout a) = tables_ok a" and "handler_stops (AssocTimeout a) = handler_stops a"
    and "AssocMachine (Mlme (AssocTimeout a)) = AssocMachine (Mlme a)"
    and "bRunning (Mlme (AssocTimeout a)) = bRunning (Mlme a)" and "handled (AssocTimeout a) = handled a"
proof -
  have n: "unat (Num (the_queue a)) = 0"
    using assms(3) by (metis length_contents list.size(3))
  have h: "\<not> halting a"
    using assms(2) by (auto simp: halting_def handler_stops_def RTMP_TEST_FLAG_def bit.conj_disj_distrib)
  then have eq: "AssocTimeout a
      = log_ev MlmeTaskUp (upd_queue (queue_put (fill_local ASSOC_STATE_MACHINE 9 0 None 0)) a)"
    using full_local[OF assms(1)] n by (simp add: AssocTimeout_def MlmeEnqueue_def halting_def queue_consts)
  show "queue_wf (the_queue (AssocTimeout a))"
    unfolding eq using assms(1) n by (auto simp: fill_local_def copy_msg_def intro!: queue_put_wf)
  show "contents (the_queue (AssocTimeout a)) = [(ASSOC_STATE_MACHINE, 9, [], 0)]"
    unfolding eq using elems_put[OF assms(1)] n assms(3) by (simp add: contents_def view_def fill_local_def)
  show "tables_ok (AssocTimeout a) = tables_ok a" "handler_stops (AssocTimeout a) = handler_stops a"
    "AssocMachine (Mlme (AssocTimeout a)) = AssocMachine (Mlme a)"
    "bRunning (Mlme (AssocTimeout a)) = bRunning (Mlme a)" "handled (AssocTimeout a) = handled a"
    unfolding eq by simp_all (simp_all add: upd_queue_def)
qed

lemma timeout_handled:
  assumes "queue_wf (the_queue a)" "tables_ok a" "\<not> handler_stops a" "CurrState (AssocMachine (Mlme a)) = 1"
    and "contents (the_queue a) = [(ASSOC_STATE_MACHINE, 9, [], 0)]"
  obtains b where "handle_one (basic_action rest) a = Some b" "queue_wf (the_queue b)" "tables_ok b" "\<not> handler_stops b"
    "contents (the_queue b) = [(MLME_CNTL_STATE_MACHINE, 34, [16, 0], 0)]"
    "handled b = handled a @ [(ASSOC_STATE_MACHINE, 9, [], 0)]" "CurrState (AssocMachine (Mlme b)) = 0"
proof -
  obtain i q where dq: "MlmeDequeue (the_queue a) = (i, q)" and q: "queue_wf q" "contents q = []"
    "view (Entry q ! i) = (ASSOC_STATE_MACHINE, 9, [], 0)" and i: "i = slot q 39"
    using dequeue_head[OF assms(1,5)] by metis
  define a1 where "a1 = upd_queue (\<lambda>_. q) a"
  define a2 where "a2 = set_assoc_state 0 (log_ev (Performed AssocTimeoutAction (Entry q ! i)) a1)"
  define c where "c = confirm 34 MLME_REJ_TIMEOUT a2"
  have e: "Machine (Entry q ! i) = ASSOC_STATE_MACHINE" "MsgType (Entry q ! i) = 9"
    using q(3) by (simp_all add: view_def)
  have "AssocMachine (Mlme a1) = AssocMachine (Mlme a)"
    by (simp add: a1_def upd_queue_def)
  then have "calls a1 i AssocTimeoutAction"
    using assoc_timeout_called[of a1 i] assms(2,4) e by (simp add: a1_def)
  from handle_one_call[OF dq _ this[unfolded a1_def]] e(2)
  have h: "handle_one (basic_action rest) a = Some (free_elem i c)"
    by (simp add: basic_action_def do_AssocTimeoutAction_def c_def a2_def a1_def MT2_RESET_CONF_def)
  have a2: "the_queue a2 = q" "\<not> handler_stops a2" "tables_ok a2" "handled a2 = handled a @ [(ASSOC_STATE_MACHINE, 9, [], 0)]"
    using assms(2,3) q(3) set_state_keeps[of "set_assoc_state 0"] stops_flags[of a2 a]
    by (simp_all add: a2_def a1_def)
  have c: "queue_wf (the_queue c)" "contents (the_queue c) = [(MLME_CNTL_STATE_MACHINE, 34, [16, 0], 0)]"
    using confirm_contents[of a2 34 MLME_REJ_TIMEOUT] a2 q(1,2) by (simp_all add: c_def MLME_REJ_TIMEOUT_def)
  have "Head (the_queue c) = Head q"
    by (simp add: c_def confirm_def MlmeEnqueue_frame a2)
  then have f: "queue_wf (the_queue (free_elem i c))" "contents (the_queue (free_elem i c)) = contents (the_queue c)"
    using free_elem_keeps[OF c(1), of i] i c(2) by (simp_all add: slot_def del: length_contents)
  have "CurrState (AssocMachine (Mlme c)) = 0"
    by (simp add: c_def confirm_def MlmeEnqueue_def a2_def set_assoc_state_def upd_queue_def)
  then show thesis
    using that[OF h f(1)] f(2) c a2
    by (simp add: free_elem_def c_def confirm_def MlmeEnqueue_frame) (simp add: upd_queue_def)
qed

lemma cntl_handled:
  assumes "queue_wf (the_queue a)" "tables_ok a" "\<not> handler_stops a" "quiet rest"
    and "contents (the_queue a) = [(MLME_CNTL_STATE_MACHINE, 34, body, 0)]"
  obtains c i where "handle_one (basic_action rest) a = Some (free_elem i (rest MlmeCntlMachinePerformAction i c))"
    "AssocMachine (Mlme c) = AssocMachine (Mlme a)" "view (Entry (the_queue c) ! i) = (MLME_CNTL_STATE_MACHINE, 34, body, 0)"
    "contents (the_queue (free_elem i (rest MlmeCntlMachinePerformAction i c))) = []"
    "handled (free_elem i (rest MlmeCntlMachinePerformAction i c))
       = handled a @ [(MLME_CNTL_STATE_MACHINE, 34, body, 0)]"
proof -
  obtain i q where dq: "MlmeDequeue (the_queue a) = (i, q)" and q: "queue_wf q" "contents q = []"
    "view (Entry q ! i) = (MLME_CNTL_STATE_MACHINE, 34, body, 0)" and i: "i = slot q 39"
    using dequeue_head[OF assms(1,5)] by metis
  define a1 where "a1 = upd_queue (\<lambda>_. q) a"
  define c where "c = log_ev (Performed MlmeCntlMachinePerformAction (Entry q ! i)) a1"
  define d where "d = rest MlmeCntlMachinePerformAction i c"
  have e: "Machine (Entry q ! i) = MLME_CNTL_STATE_MACHINE" "MsgType (Entry q ! i) = 34"
    using q(3) by (simp_all add: view_def)
  have "calls a1 i MlmeCntlMachinePerformAction"
    using dispatch_machines(7)[of a1 i] e by (simp add: calls_def a1_def)
  from handle_one_call[OF dq _ this[unfolded a1_def]] e(2)
  have h: "handle_one (basic_action rest) a = Some (free_elem i d)"
    by (simp add: basic_action_def d_def c_def a1_def MT2_RESET_CONF_def)
  have d: "the_queue d = q" "handled d = handled a @ [(MLME_CNTL_STATE_MACHINE, 34, body, 0)]"
    using assms(4) q(3) by (simp_all add: d_def quiet_def c_def a1_def)
  have "contents (the_queue (free_elem i d)) = []"
    using free_elem_keeps(2)[of d i] d(1) q(1,2) i by (simp del: length_contents)
  then show thesis
    using that[of i c] h d q(3) by (simp add: d_def[symmetric] free_elem_def) (simp add: c_def a1_def upd_queue_def)
qed

text \<open>
  A lost association response does not wedge the station. When the
  association timer fires while the association machine waits for the response, the queue being
  empty and the task idle, one run of the handler consumes the timeout, puts the association
  machine back to idle, and calls the control machine, with the association
  machine idle, with the confirmation that carries the status timeout; then the handler
  returns with nothing left to do.
\<close>

theorem assoc_timeout_reported:
  assumes "queue_wf (the_queue a)" and "tables_ok a" and "\<not> handler_stops a" and "\<not> bRunning (Mlme a)"
    and "contents (the_queue a) = []" and "CurrState (AssocMachine (Mlme a)) = 1" and "quiet rest"
  shows "\<exists>b c i. MlmeHandler (basic_action rest) (AssocTimeout a) = Some b
    \<and> b = set_running False (free_elem i (rest MlmeCntlMachinePerformAction i c))
    \<and> CurrState (AssocMachine (Mlme c)) = 0
    \<and> view (Entry (the_queue c) ! i) = (MLME_CNTL_STATE_MACHINE, 34, [16, 0], 0)
    \<and> contents (the_queue b) = []
    \<and> handled b = handled a @ [(ASSOC_STATE_MACHINE, 9, [], 0), (MLME_CNTL_STATE_MACHINE, 34, [16, 0], 0)]"
proof -
  define t where "t = set_running True (AssocTimeout a)"
  note T = timeout_posted[OF assms(1,3,5)]
  have t: "queue_wf (the_queue t)" "tables_ok t" "\<not> handler_stops t" "CurrState (AssocMachine (Mlme t)) = 1"
    "contents (the_queue t) = [(ASSOC_STATE_MACHINE, 9, [], 0)]" "handled t = handled a"
    using T assms by (simp_all add: t_def) (simp add: set_running_def T)
  obtain b where b: "handle_one (basic_action rest) t = Some b" "queue_wf (the_queue b)" "tables_ok b" "\<not> handler_stops b"
    "contents (the_queue b) = [(MLME_CNTL_STATE_MACHINE, 34, [16, 0], 0)]"
    "handled b = handled t @ [(ASSOC_STATE_MACHINE, 9, [], 0)]" "CurrState (AssocMachine (Mlme b)) = 0"
    using timeout_handled[OF t(1-5)] by metis
  obtain c i where c: "handle_one (basic_action rest) b = Some (free_elem i (rest MlmeCntlMachinePerformAction i c))"
    "AssocMachine (Mlme c) = AssocMachine (Mlme b)"
    "view (Entry (the_queue c) ! i) = (MLME_CNTL_STATE_MACHINE, 34, [16, 0], 0)"
    "contents (the_queue (free_elem i (rest MlmeCntlMachinePerformAction i c))) = []"
    "handled (free_elem i (rest MlmeCntlMachinePerformAction i c))
       = handled b @ [(MLME_CNTL_STATE_MACHINE, 34, [16, 0], 0)]"
    using cntl_handled[OF b(2-4) assms(7) b(5)] by metis
  define d where "d = free_elem i (rest MlmeCntlMachinePerformAction i c)"
  have "MlmeQueueEmpty (the_queue d)"
    using c(4) unfolding d_def MlmeQueueEmpty_def by (metis length_contents list.size(3) unat_eq_zero)
  then have "mlme_loop (basic_action rest) d = Some d"
    by (simp add: mlme_loop.simps)
  moreover have "mlme_loop (basic_action rest) t = mlme_loop (basic_action rest) d"
    using mlme_loop_step[of t] mlme_loop_step[of b] b c(1) t mq.isempty_iff[OF t(1)] mq.isempty_iff[OF b(2)]
    by (simp add: d_def)
  ultimately have "MlmeHandler (basic_action rest) (AssocTimeout a) = Some (set_running False d)"
    using T(6) assms(4) by (simp add: MlmeHandler_def t_def)
  then show ?thesis
    using c b(6,7) t(6)
    by (intro exI[of _ "set_running False d"] exI[of _ c] exI[of _ i]) (simp add: d_def)
qed

definition waiting_mlme :: MLME_ADAPTER where
  "waiting_mlme = set_assoc_state 1 init_mlme"

lemma waiting_mlme_facts:
  "queue_wf (the_queue waiting_mlme)" "tables_ok waiting_mlme" "\<not> handler_stops waiting_mlme"
  "\<not> bRunning (Mlme waiting_mlme)" "contents (the_queue waiting_mlme) = []"
  "CurrState (AssocMachine (Mlme waiting_mlme)) = 1"
proof -
  show "tables_ok waiting_mlme"
    unfolding waiting_mlme_def by (intro set_assoc_tables) (simp_all add: init_mlme_facts)
qed (simp_all add: waiting_mlme_def set_assoc_state_def init_mlme_facts zero_queue_wf zero_contents
    handler_stops_def RTMP_TEST_FLAG_def)

lemma assoc_timeout_reported_witness:
  "\<exists>b. MlmeHandler (basic_action (\<lambda>_ _ x. x)) (AssocTimeout waiting_mlme) = Some b
    \<and> contents (the_queue b) = []
    \<and> handled b = handled waiting_mlme @ [(ASSOC_STATE_MACHINE, 9, [], 0), (MLME_CNTL_STATE_MACHINE, 34, [16, 0], 0)]"
  using assoc_timeout_reported[OF waiting_mlme_facts quiet_id] by blast

end
