(* ===== verification/Wep.thy ===== *)
theory Wep
  imports Driver_Prelude
begin

text \<open>
  WEP in software: the ARC4 stream cipher of \<^verbatim>\<open>common/crypt_arc4.c\<close> and the frame check sequence and the
  encapsulation of \<^verbatim>\<open>common/cmm_wep.c\<close>.

  \<^item> Encryption and decryption work in place. The decryption reads the cipher text behind the IV header and
    writes the plain text over the header, so \<^verbatim>\<open>ARC4_Compute\<close> is a loop over one buffer with a source and a
    destination offset.
  \<^item> \<open>wep_mem\<close> decides the outcome of each allocation in turn (past its end they succeed) and counts the
    allocations that were not freed.
  \<^item> The ARC4 context comes from an allocation that does not clear it; its first contents are the argument
    \<open>junk\<close>.
  \<^item> A result \<open>None\<close> stands for an access outside the seed or outside the frame buffer.
\<close>

section \<open>ARC4\<close>

record ARC4_CTX_STRUC =
  BlockIndex1 :: UINT32
  BlockIndex2 :: UINT32
  KeyBlock :: bytes

definition ARC4_KEY_BLOCK_SIZE :: nat where "ARC4_KEY_BLOCK_SIZE = 256"

definition swap_bytes :: "bytes \<Rightarrow> nat \<Rightarrow> nat \<Rightarrow> bytes" where
  "swap_bytes K i j = (K[i := K ! j])[j := K ! i]"

definition schedule_step :: "bytes \<Rightarrow> nat \<Rightarrow> nat \<Rightarrow> bytes \<times> UINT32 \<Rightarrow> bytes \<times> UINT32" where
  "schedule_step pKey KeyLength BlockIndex KS = (case KS of (K, SWAPIndex) \<Rightarrow>
     let SWAPIndex = (SWAPIndex + ucast (K ! BlockIndex) + ucast (pKey ! (BlockIndex mod KeyLength))) AND 0xff
     in (swap_bytes K BlockIndex (unat SWAPIndex), SWAPIndex))"

definition ARC4_INIT :: "bytes \<Rightarrow> nat \<Rightarrow> ARC4_CTX_STRUC" where
  "ARC4_INIT pKey KeyLength = \<lparr>BlockIndex1 = 0, BlockIndex2 = 0,
     KeyBlock = fst (fold (schedule_step pKey KeyLength) [0..<ARC4_KEY_BLOCK_SIZE]
                      (map of_nat [0..<ARC4_KEY_BLOCK_SIZE], 0))\<rparr>"

text \<open>The state change of one step of the generator, and the byte it yields.\<close>

definition arc4_next :: "ARC4_CTX_STRUC \<Rightarrow> ARC4_CTX_STRUC" where
  "arc4_next c = (let b1 = (BlockIndex1 c + 1) AND 0xff;
                      b2 = (BlockIndex2 c + ucast (KeyBlock c ! unat b1)) AND 0xff
                  in \<lparr>BlockIndex1 = b1, BlockIndex2 = b2, KeyBlock = swap_bytes (KeyBlock c) (unat b1) (unat b2)\<rparr>)"

definition arc4_byte :: "ARC4_CTX_STRUC \<Rightarrow> UINT8" where
  "arc4_byte c = KeyBlock c ! unat (KeyBlock c ! unat (BlockIndex2 c) + KeyBlock c ! unat (BlockIndex1 c))"

primrec ARC4_Compute :: "nat \<Rightarrow> ARC4_CTX_STRUC \<Rightarrow> bytes \<Rightarrow> nat \<Rightarrow> nat \<Rightarrow> bytes" where
  "ARC4_Compute 0 c buf src dst = buf"
| "ARC4_Compute (Suc n) c buf src dst =
     (let c = arc4_next c
      in ARC4_Compute n c (buf[dst := buf ! src XOR arc4_byte c]) (src + 1) (dst + 1))"

definition ARC4_Discard_KeyLength :: "ARC4_CTX_STRUC \<Rightarrow> nat \<Rightarrow> ARC4_CTX_STRUC" where
  "ARC4_Discard_KeyLength c n = (arc4_next ^^ n) c"

section \<open>Frame check sequence\<close>

definition FCSTAB_32 :: "UINT32 list" where
  "FCSTAB_32 = [
    0x00000000, 0x77073096, 0xee0e612c, 0x990951ba, 0x076dc419, 0x706af48f, 0xe963a535, 0x9e6495a3,
    0x0edb8832, 0x79dcb8a4, 0xe0d5e91e, 0x97d2d988, 0x09b64c2b, 0x7eb17cbd, 0xe7b82d07, 0x90bf1d91,
    0x1db71064, 0x6ab020f2, 0xf3b97148, 0x84be41de, 0x1adad47d, 0x6ddde4eb, 0xf4d4b551, 0x83d385c7,
    0x136c9856, 0x646ba8c0, 0xfd62f97a, 0x8a65c9ec, 0x14015c4f, 0x63066cd9, 0xfa0f3d63, 0x8d080df5,
    0x3b6e20c8, 0x4c69105e, 0xd56041e4, 0xa2677172, 0x3c03e4d1, 0x4b04d447, 0xd20d85fd, 0xa50ab56b,
    0x35b5a8fa, 0x42b2986c, 0xdbbbc9d6, 0xacbcf940, 0x32d86ce3, 0x45df5c75, 0xdcd60dcf, 0xabd13d59,
    0x26d930ac, 0x51de003a, 0xc8d75180, 0xbfd06116, 0x21b4f4b5, 0x56b3c423, 0xcfba9599, 0xb8bda50f,
    0x2802b89e, 0x5f058808, 0xc60cd9b2, 0xb10be924, 0x2f6f7c87, 0x58684c11, 0xc1611dab, 0xb6662d3d,
    0x76dc4190, 0x01db7106, 0x98d220bc, 0xefd5102a, 0x71b18589, 0x06b6b51f, 0x9fbfe4a5, 0xe8b8d433,
    0x7807c9a2, 0x0f00f934, 0x9609a88e, 0xe10e9818, 0x7f6a0dbb, 0x086d3d2d, 0x91646c97, 0xe6635c01,
    0x6b6b51f4, 0x1c6c6162, 0x856530d8, 0xf262004e, 0x6c0695ed, 0x1b01a57b, 0x8208f4c1, 0xf50fc457,
    0x65b0d9c6, 0x12b7e950, 0x8bbeb8ea, 0xfcb9887c, 0x62dd1ddf, 0x15da2d49, 0x8cd37cf3, 0xfbd44c65,
    0x4db26158, 0x3ab551ce, 0xa3bc0074, 0xd4bb30e2, 0x4adfa541, 0x3dd895d7, 0xa4d1c46d, 0xd3d6f4fb,
    0x4369e96a, 0x346ed9fc, 0xad678846, 0xda60b8d0, 0x44042d73, 0x33031de5, 0xaa0a4c5f, 0xdd0d7cc9,
    0x5005713c, 0x270241aa, 0xbe0b1010, 0xc90c2086, 0x5768b525, 0x206f85b3, 0xb966d409, 0xce61e49f,
    0x5edef90e, 0x29d9c998, 0xb0d09822, 0xc7d7a8b4, 0x59b33d17, 0x2eb40d81, 0xb7bd5c3b, 0xc0ba6cad,
    0xedb88320, 0x9abfb3b6, 0x03b6e20c, 0x74b1d29a, 0xead54739, 0x9dd277af, 0x04db2615, 0x73dc1683,
    0xe3630b12, 0x94643b84, 0x0d6d6a3e, 0x7a6a5aa8, 0xe40ecf0b, 0x9309ff9d, 0x0a00ae27, 0x7d079eb1,
    0xf00f9344, 0x8708a3d2, 0x1e01f268, 0x6906c2fe, 0xf762575d, 0x806567cb, 0x196c3671, 0x6e6b06e7,
    0xfed41b76, 0x89d32be0, 0x10da7a5a, 0x67dd4acc, 0xf9b9df6f, 0x8ebeeff9, 0x17b7be43, 0x60b08ed5,
    0xd6d6a3e8, 0xa1d1937e, 0x38d8c2c4, 0x4fdff252, 0xd1bb67f1, 0xa6bc5767, 0x3fb506dd, 0x48b2364b,
    0xd80d2bda, 0xaf0a1b4c, 0x36034af6, 0x41047a60, 0xdf60efc3, 0xa867df55, 0x316e8eef, 0x4669be79,
    0xcb61b38c, 0xbc66831a, 0x256fd2a0, 0x5268e236, 0xcc0c7795, 0xbb0b4703, 0x220216b9, 0x5505262f,
    0xc5ba3bbe, 0xb2bd0b28, 0x2bb45a92, 0x5cb36a04, 0xc2d7ffa7, 0xb5d0cf31, 0x2cd99e8b, 0x5bdeae1d,
    0x9b64c2b0, 0xec63f226, 0x756aa39c, 0x026d930a, 0x9c0906a9, 0xeb0e363f, 0x72076785, 0x05005713,
    0x95bf4a82, 0xe2b87a14, 0x7bb12bae, 0x0cb61b38, 0x92d28e9b, 0xe5d5be0d, 0x7cdcefb7, 0x0bdbdf21,
    0x86d3d2d4, 0xf1d4e242, 0x68ddb3f8, 0x1fda836e, 0x81be16cd, 0xf6b9265b, 0x6fb077e1, 0x18b74777,
    0x88085ae6, 0xff0f6a70, 0x66063bca, 0x11010b5c, 0x8f659eff, 0xf862ae69, 0x616bffd3, 0x166ccf45,
    0xa00ae278, 0xd70dd2ee, 0x4e048354, 0x3903b3c2, 0xa7672661, 0xd06016f7, 0x4969474d, 0x3e6e77db,
    0xaed16a4a, 0xd9d65adc, 0x40df0b66, 0x37d83bf0, 0xa9bcae53, 0xdebb9ec5, 0x47b2cf7f, 0x30b5ffe9,
    0xbdbdf21c, 0xcabac28a, 0x53b39330, 0x24b4a3a6, 0xbad03605, 0xcdd70693, 0x54de5729, 0x23d967bf,
    0xb3667a2e, 0xc4614ab8, 0x5d681b02, 0x2a6f2b94, 0xb40bbe37, 0xc30c8ea1, 0x5a05df1b, 0x2d02ef8d]"

definition fcs_step :: "UINT8 \<Rightarrow> UINT32 \<Rightarrow> UINT32" where
  "fcs_step b Fcs = drop_bit 8 Fcs XOR FCSTAB_32 ! unat ((Fcs XOR ucast b) AND 0xff)"

definition RTMP_CALC_FCS32 :: "UINT32 \<Rightarrow> bytes \<Rightarrow> nat \<Rightarrow> UINT32" where
  "RTMP_CALC_FCS32 Fcs Cp Len = fold fcs_step (take Len Cp) Fcs"

definition PPPINITFCS32 :: UINT32 where "PPPINITFCS32 = 0xffffffff"
definition LEN_ICV :: nat where "LEN_ICV = 4"
definition LEN_WEP_IV_HDR :: nat where "LEN_WEP_IV_HDR = 4"
definition LEN_WEP_TSC :: nat where "LEN_WEP_TSC = 3"

section \<open>WEP\<close>

record wep_mem =
  outcomes :: "bool list"
  live :: nat

definition wep_alloc :: "wep_mem \<Rightarrow> bool \<times> wep_mem" where
  "wep_alloc h = (case outcomes h of [] \<Rightarrow> (True, h\<lparr>live := live h + 1\<rparr>)
     | ok # r \<Rightarrow> (ok, h\<lparr>outcomes := r, live := if ok then live h + 1 else live h\<rparr>))"

definition wep_free :: "wep_mem \<Rightarrow> wep_mem" where
  "wep_free h = h\<lparr>live := live h - 1\<rparr>"

record CIPHER_KEY =
  Key :: bytes
  KeyLen :: UINT8

definition RTMPInitWepEngine ::
    "bytes \<Rightarrow> bytes \<Rightarrow> UINT8 \<Rightarrow> ARC4_CTX_STRUC \<Rightarrow> wep_mem \<Rightarrow> (ARC4_CTX_STRUC \<times> wep_mem) option" where
  "RTMPInitWepEngine pIv pKey len c h = (case wep_alloc h of (ok, h1) \<Rightarrow>
     if \<not> ok then Some (c, h1)
     else if 3 + unat len > 16 then None
     else let seed = move_at (move_at (replicate 16 0) 0 (take 3 pIv)) 3 (take (unat len) pKey)
          in Some (ARC4_INIT seed (unat (3 + len)), wep_free h1))"

definition RTMPConstructWEPIVHdr :: "UINT8 \<Rightarrow> bytes \<Rightarrow> bytes" where
  "RTMPConstructWEPIVHdr key_idx pn =
     (move_at (replicate LEN_WEP_IV_HDR 0) 0 (take LEN_WEP_TSC pn))[3 := push_bit 6 key_idx]"

definition RTMPSoftEncryptWEP ::
    "ARC4_CTX_STRUC \<Rightarrow> bytes \<Rightarrow> CIPHER_KEY \<Rightarrow> bytes \<Rightarrow> nat \<Rightarrow> wep_mem \<Rightarrow> (bool \<times> bytes \<times> wep_mem) option" where
  "RTMPSoftEncryptWEP junk pIvHdr pKey pData DataByteCnt h = (case wep_alloc h of (ok, h1) \<Rightarrow>
     if \<not> ok then Some (False, pData, h1)
     else if KeyLen pKey = 0 then Some (False, pData, h1)
     else case RTMPInitWepEngine pIvHdr (Key pKey) (KeyLen pKey) junk h1 of
         None \<Rightarrow> None
       | Some (c, h2) \<Rightarrow>
           if length pData < DataByteCnt + LEN_ICV then None
           else
             let FCSCRC32 = RTMP_CALC_FCS32 PPPINITFCS32 pData DataByteCnt XOR 0xffffffff;
                 d = move_at pData DataByteCnt (le32_bytes FCSCRC32)
             in Some (True, ARC4_Compute (DataByteCnt + LEN_ICV) c d 0 0, wep_free h2))"

definition RTMPSoftDecryptWEP ::
    "ARC4_CTX_STRUC \<Rightarrow> CIPHER_KEY \<Rightarrow> bytes \<Rightarrow> UINT16 \<Rightarrow> wep_mem \<Rightarrow> (bool \<times> bytes \<times> UINT16 \<times> wep_mem) option" where
  "RTMPSoftDecryptWEP junk pKey pData DataByteCnt h = (case wep_alloc h of (ok, h1) \<Rightarrow>
     if \<not> ok then Some (False, pData, DataByteCnt, h1)
     else if KeyLen pKey = 0 then Some (False, pData, DataByteCnt, h1)
     else case RTMPInitWepEngine pData (Key pKey) (KeyLen pKey) junk h1 of
         None \<Rightarrow> None
       | Some (c, h2) \<Rightarrow>
           let ciphertext_len = DataByteCnt - of_nat LEN_WEP_IV_HDR;
               plaintext_len = ciphertext_len - of_nat LEN_ICV
           in if length pData < LEN_WEP_IV_HDR + unat ciphertext_len then None
              else let d = ARC4_Compute (unat ciphertext_len) c pData LEN_WEP_IV_HDR 0
              in if length d < unat plaintext_len + LEN_ICV then None
              else let trailfcs = take LEN_ICV (drop (unat plaintext_len) d);
                       crc32 = RTMP_CALC_FCS32 PPPINITFCS32 d (unat plaintext_len) XOR 0xffffffff
                   in if le32_bytes crc32 \<noteq> trailfcs then Some (False, d, DataByteCnt, h2)
                      else Some (True, d, plaintext_len, wep_free h2))"

section \<open>The frame check sequence is CRC-32\<close>

text \<open>The reference: the reflected CRC of polynomial \<open>0xEDB88320\<close>, one bit at a time.\<close>

definition crc_bit :: "UINT32 \<Rightarrow> UINT32" where
  "crc_bit x = drop_bit 1 x XOR (if bit x 0 then 0xEDB88320 else 0)"

definition crc_byte :: "UINT8 \<Rightarrow> UINT32 \<Rightarrow> UINT32" where
  "crc_byte b x = (crc_bit ^^ 8) (x XOR ucast b)"

lemma crc_bit_xor: "crc_bit (x XOR y) = crc_bit x XOR crc_bit y"
  by (auto simp: crc_bit_def bit_xor_iff drop_bit_xor xor.assoc xor.left_commute)

lemma crc_bits_xor: "(crc_bit ^^ n) (x XOR y) = (crc_bit ^^ n) x XOR (crc_bit ^^ n) y"
  by (induction n) (simp_all add: crc_bit_xor)

lemma crc_bits_high:
  "take_bit n x = 0 \<Longrightarrow> (crc_bit ^^ n) x = drop_bit n x"
proof (induction n arbitrary: x)
  case (Suc n)
  have z: "\<not> bit x 0"
    using Suc.prems bit_take_bit_iff[of "Suc n" x 0] by simp
  have "take_bit n (drop_bit 1 x) = 0"
    using Suc.prems by (metis drop_bit_of_0 drop_bit_take_bit diff_Suc_1)
  then have "(crc_bit ^^ n) (drop_bit 1 x) = drop_bit n (drop_bit 1 x)"
    by (rule Suc.IH)
  moreover have "crc_bit x = drop_bit 1 x"
    using z by (simp add: crc_bit_def)
  moreover have "(crc_bit ^^ Suc n) x = (crc_bit ^^ n) (crc_bit x)"
    by (simp add: funpow_swap1)
  moreover have "drop_bit n (drop_bit 1 x) = drop_bit (Suc n) x"
    by (metis Suc_eq_plus1 drop_bit_drop_bit)
  ultimately show ?case
    by argo
qed simp

text \<open>The table doubles in size with every bit of the index.\<close>

lemma table_double:
  fixes f :: "UINT32 \<Rightarrow> UINT32"
  assumes lin: "\<And>x y. f (x XOR y) = f x XOR f y" and k: "k < 32"
  shows "map (\<lambda>i. f (of_nat i)) [0..<2 ^ Suc k] =
    map (\<lambda>i. f (of_nat i)) [0..<2 ^ k] @ map (\<lambda>v. f (2 ^ k) XOR v) (map (\<lambda>i. f (of_nat i)) [0..<2 ^ k])"
proof -
  have "of_nat (i + 2 ^ k) = (2 ^ k XOR of_nat i :: UINT32)" if "i < 2 ^ k" for i
  proof -
    have "bit (of_nat i :: UINT32) n \<Longrightarrow> n < k" for n
      using that by (auto simp: bit_of_nat_iff dest: bit_imp_possible_bit)
         (metis bit_nat_def bit_take_bit_iff take_bit_nat_eq_self_iff)
    then have "2 ^ k AND of_nat i = (0 :: UINT32)"
      by (intro bit_eqI) (auto simp: bit_and_iff bit_exp_iff)
    then have "2 ^ k + of_nat i = (2 ^ k XOR of_nat i :: UINT32)"
      by (simp add: disjunctive_add_eq_xor)
    then show ?thesis
      by (simp add: add.commute)
  qed
  then have "map (\<lambda>i. f (of_nat i)) (map (\<lambda>i. i + 2 ^ k) [0..<2 ^ k]) = map (\<lambda>v. f (2 ^ k) XOR v) (map (\<lambda>i. f (of_nat i)) [0..<2 ^ k])"
    using lin by (auto simp del: of_nat_add)
  moreover have "[0..<2 ^ Suc k] = [0..<2 ^ k] @ map (\<lambda>i. i + 2 ^ k) [0..<2 ^ k]"
    by (simp add: map_add_upt upt_add_eq_append[of 0 "2 ^ k" "2 ^ k", simplified] mult_2)
  ultimately show ?thesis
    by simp
qed

lemma funpow_8: "(f ^^ 8) x = f (f (f (f (f (f (f (f x)))))))"
  by (simp add: eval_nat_numeral)

lemma crc_basis:
  "(crc_bit ^^ 8) 0 = 0" "(crc_bit ^^ 8) 1 = 0x77073096" "(crc_bit ^^ 8) 2 = 0xee0e612c" "(crc_bit ^^ 8) 4 = 0x076dc419"
  "(crc_bit ^^ 8) 8 = 0x0edb8832" "(crc_bit ^^ 8) 16 = 0x1db71064" "(crc_bit ^^ 8) 32 = 0x3b6e20c8"
  "(crc_bit ^^ 8) 64 = 0x76dc4190" "(crc_bit ^^ 8) 128 = 0xedb88320"
  by (simp_all add: funpow_8 crc_bit_def)

lemma fcs_table: "map (\<lambda>i. (crc_bit ^^ 8) (of_nat i)) [0..<256] = FCSTAB_32"
proof -
  define T where "T k = map (\<lambda>i. (crc_bit ^^ 8) (of_nat i)) [0..<2 ^ k]" for k
  have step: "T (Suc k) = T k @ map (\<lambda>v. (crc_bit ^^ 8) (2 ^ k) XOR v) (T k)" if "k < 32" for k
    unfolding T_def by (rule table_double[OF crc_bits_xor that])
  have t0: "T 0 = [0]"
    by (simp add: T_def crc_basis)
  have t1: "T 1 = [0, 0x77073096]"
    using step[of 0] by (simp add: t0 crc_basis)
  have t2: "T 2 = [0, 0x77073096, 0xee0e612c, 0x990951ba]"
    using step[of 1] by (simp add: t1[simplified] crc_basis numeral_2_eq_2)
  have t3: "T 3 = take 8 FCSTAB_32"
    using step[of 2] by (simp add: t2 crc_basis FCSTAB_32_def)
  have t4: "T 4 = take 16 FCSTAB_32"
    using step[of 3] by (simp add: t3 crc_basis FCSTAB_32_def)
  have t5: "T 5 = take 32 FCSTAB_32"
    using step[of 4] by (simp add: t4 crc_basis FCSTAB_32_def)
  have t6: "T 6 = take 64 FCSTAB_32"
    using step[of 5] by (simp add: t5 crc_basis FCSTAB_32_def)
  have t7: "T 7 = take 128 FCSTAB_32"
    using step[of 6] by (simp add: t6 crc_basis FCSTAB_32_def)
  have "T 8 = FCSTAB_32"
    using step[of 7] by (simp add: t7 crc_basis FCSTAB_32_def)
  then show ?thesis
    by (simp add: T_def)
qed

lemma fcs_table_nth: "i < 256 \<Longrightarrow> FCSTAB_32 ! i = (crc_bit ^^ 8) (of_nat i)"
  by (simp flip: fcs_table)

lemma low_byte: "unat (x AND 0xff :: UINT32) < 256" "x AND 0xff = take_bit 8 x" for x :: UINT32
proof -
  show m: "x AND 0xff = take_bit 8 x"
    by (simp add: take_bit_eq_mask mask_eq_exp_minus_1)
  show "unat (x AND 0xff :: UINT32) < 256"
    unfolding m using take_bit_nat_less_exp[of 8 "unat x"] by (simp add: unsigned_take_bit_eq)
qed

lemma fcs_step_crc: "fcs_step b x = crc_byte b x"
proof -
  define y where "y = x XOR ucast b"
  have "of_nat (unat (y AND 0xff)) = y AND 0xff"
    by simp
  then have t: "FCSTAB_32 ! unat (y AND 0xff) = (crc_bit ^^ 8) (take_bit 8 y)"
    using fcs_table_nth[OF low_byte(1), of y] by (simp only: low_byte(2))
  define hi where "hi = y XOR take_bit 8 y"
  have "take_bit 8 hi = 0"
    by (simp add: hi_def take_bit_xor)
  then have h: "(crc_bit ^^ 8) hi = drop_bit 8 hi"
    by (rule crc_bits_high)
  have "drop_bit 8 (ucast b :: UINT32) = 0" "drop_bit 8 (take_bit 8 y) = 0"
    by (rule bit_eqI; auto simp: bit_simps dest: bit_imp_le_length)+
  then have d: "drop_bit 8 hi = drop_bit 8 x"
    by (simp add: hi_def y_def drop_bit_xor)
  have "crc_byte b x = (crc_bit ^^ 8) (hi XOR take_bit 8 y)"
    by (simp add: crc_byte_def hi_def y_def xor.assoc)
  also have "\<dots> = drop_bit 8 x XOR (crc_bit ^^ 8) (take_bit 8 y)"
    unfolding crc_bits_xor h d ..
  finally show ?thesis
    using t by (simp add: fcs_step_def y_def)
qed

text \<open>
  The table-driven frame check sequence is CRC-32: for every start value and every
  message, \<^verbatim>\<open>RTMP_CALC_FCS32\<close> is the bit-serial reflected CRC of polynomial \<open>0xEDB88320\<close>. This covers all 256
  entries of the table and the step that uses them.
\<close>

theorem fcs_is_crc32: "RTMP_CALC_FCS32 Fcs Cp Len = fold crc_byte (take Len Cp) Fcs"
proof -
  have "fcs_step = crc_byte"
    by (intro ext) (rule fcs_step_crc)
  then show ?thesis
    by (simp add: RTMP_CALC_FCS32_def)
qed

section \<open>The ARC4 generator\<close>

definition arc4_wf :: "ARC4_CTX_STRUC \<Rightarrow> bool" where
  "arc4_wf c \<longleftrightarrow> length (KeyBlock c) = 256 \<and> distinct (KeyBlock c)
     \<and> unat (BlockIndex1 c) < 256 \<and> unat (BlockIndex2 c) < 256"

lemma length_swap_bytes [simp, len_simps]: "length (swap_bytes K i j) = length K"
  by (simp add: swap_bytes_def)

lemma distinct_swap_bytes [simp]:
  "i < length K \<Longrightarrow> j < length K \<Longrightarrow> distinct (swap_bytes K i j) = distinct K"
  by (simp add: swap_bytes_def distinct_swap)

lemma schedule_wf:
  assumes "length K = 256" and "distinct K" and "set is \<subseteq> {..<256}"
  shows "length (fst (fold (schedule_step k n) is (K, s))) = 256 \<and> distinct (fst (fold (schedule_step k n) is (K, s)))"
  using assms
proof (induction "is" arbitrary: K s)
  case (Cons i "is")
  obtain K' s' where ks: "schedule_step k n i (K, s) = (K', s')"
    by fastforce
  then have "length K' = 256 \<and> distinct K'"
    using Cons.prems low_byte(1) by (auto simp: schedule_step_def Let_def)
  then show ?case
    using Cons.IH[of K' s'] Cons.prems(3) ks by simp
qed simp

lemma distinct_identity: "distinct (map of_nat [0..<256] :: bytes)"
proof -
  have "inj_on (of_nat :: nat \<Rightarrow> UINT8) {0..<256}"
    by (rule inj_onI, drule arg_cong[where f = unat]) (simp add: unat_of_nat take_bit_nat_eq_self)
  then show ?thesis
    by (simp add: distinct_map)
qed

lemma ARC4_INIT_wf [wf_intros]: "arc4_wf (ARC4_INIT k n)"
  using schedule_wf[OF _ distinct_identity, of "[0..<256]" k n 0]
  by (simp add: arc4_wf_def ARC4_INIT_def ARC4_KEY_BLOCK_SIZE_def lessThan_atLeast0)

lemma arc4_next_wf [wf_intros]: "arc4_wf c \<Longrightarrow> arc4_wf (arc4_next c)"
  using low_byte(1) by (simp add: arc4_wf_def arc4_next_def Let_def)

lemma discard_wf [wf_intros]: "arc4_wf c \<Longrightarrow> arc4_wf (ARC4_Discard_KeyLength c n)"
  unfolding ARC4_Discard_KeyLength_def by (induction n) (simp_all add: arc4_next_wf)

text \<open>
  The key block of ARC4 is a permutation of the 256 byte values after the key schedule and
  after any number of generator steps, whatever the key; both indices stay below 256, so that every
  access of \<^verbatim>\<open>ARC4_Compute\<close> and \<^verbatim>\<open>ARC4_Discard_KeyLength\<close> to it is in bounds.
\<close>

theorem arc4_permutation:
  "set (KeyBlock (ARC4_Discard_KeyLength (ARC4_INIT k len) n)) = UNIV
   \<and> length (KeyBlock (ARC4_Discard_KeyLength (ARC4_INIT k len) n)) = 256
   \<and> unat (BlockIndex1 (ARC4_Discard_KeyLength (ARC4_INIT k len) n)) < 256
   \<and> unat (BlockIndex2 (ARC4_Discard_KeyLength (ARC4_INIT k len) n)) < 256"
proof -
  define c where "c = ARC4_Discard_KeyLength (ARC4_INIT k len) n"
  have w: "arc4_wf c"
    unfolding c_def by (intro wf_intros)
  then have "card (set (KeyBlock c)) = card (UNIV :: UINT8 set)"
    by (simp add: arc4_wf_def distinct_card card_word)
  then have "set (KeyBlock c) = UNIV"
    by (intro card_eq_UNIV_imp_eq_UNIV) simp_all
  then show ?thesis
    using w by (simp add: arc4_wf_def c_def)
qed

text \<open>The key stream, and the in-place loop as one move of the text combined with it.\<close>

primrec keystream :: "nat \<Rightarrow> ARC4_CTX_STRUC \<Rightarrow> bytes" where
  "keystream 0 c = []"
| "keystream (Suc n) c = arc4_byte (arc4_next c) # keystream n (arc4_next c)"

lemma length_keystream [simp, len_simps]: "length (keystream n c) = n"
  by (induction n arbitrary: c) simp_all

lemma move_at_Cons:
  "dst < length buf \<Longrightarrow> move_at buf dst (x # xs) = move_at (buf[dst := x]) (dst + 1) xs"
  by (simp add: move_at_def take_Suc_conv_app_nth)

lemma length_ARC4_Compute [simp, len_simps]: "length (ARC4_Compute n c buf src dst) = length buf"
  by (induction n arbitrary: c buf src dst) (simp_all add: Let_def)

lemma ARC4_Compute_stream:
  "dst \<le> src \<Longrightarrow> src + n \<le> length buf \<Longrightarrow>
     ARC4_Compute n c buf src dst = move_at buf dst (xor_bytes (take n (drop src buf)) (keystream n c))"
proof (induction n arbitrary: c buf src dst)
  case (Suc n)
  define c' x where "c' = arc4_next c" and "x = buf ! src XOR arc4_byte c'"
  have "take n (drop (src + 1) (buf[dst := x])) = take n (drop (src + 1) buf)"
    using Suc.prems by simp
  then have "ARC4_Compute (Suc n) c buf src dst
      = move_at (buf[dst := x]) (dst + 1) (xor_bytes (take n (drop (src + 1) buf)) (keystream n c'))"
    using Suc.IH[of "dst + 1" "src + 1" "buf[dst := x]" c'] Suc.prems by (simp add: c'_def x_def Let_def)
  also have "\<dots> = move_at buf dst (x # xor_bytes (take n (drop (src + 1) buf)) (keystream n c'))"
    using Suc.prems by (simp add: move_at_Cons)
  also have "x # xor_bytes (take n (drop (src + 1) buf)) (keystream n c')
      = xor_bytes (take (Suc n) (drop src buf)) (keystream (Suc n) c)"
    using Suc.prems by (simp add: Cons_nth_drop_Suc[symmetric] xor_bytes_def x_def c'_def)
  finally show ?case .
qed (simp add: xor_bytes_def)

section \<open>Encapsulation\<close>

definition icv :: "bytes \<Rightarrow> bytes" where
  "icv p = le32_bytes (RTMP_CALC_FCS32 PPPINITFCS32 p (length p) XOR 0xffffffff)"

definition wep_ctx :: "bytes \<Rightarrow> CIPHER_KEY \<Rightarrow> ARC4_CTX_STRUC" where
  "wep_ctx iv k = ARC4_INIT (move_at (move_at (replicate 16 0) 0 (take 3 iv)) 3 (take (unat (KeyLen k)) (Key k)))
     (unat (3 + KeyLen k))"

definition wep_key_ok :: "CIPHER_KEY \<Rightarrow> bool" where
  "wep_key_ok k \<longleftrightarrow> 0 < unat (KeyLen k) \<and> unat (KeyLen k) \<le> 13"

lemma length_icv [simp, len_simps]: "length (icv p) = 4"
  by (simp add: icv_def le32_bytes_def)

lemma alloc_ok: "outcomes h = [] \<Longrightarrow> wep_alloc h = (True, h\<lparr>live := live h + 1\<rparr>)"
  by (simp add: wep_alloc_def)

lemma RTMPInitWepEngine_ok:
  assumes "outcomes h = []" and "wep_key_ok k"
  shows "RTMPInitWepEngine iv (Key k) (KeyLen k) c h = Some (wep_ctx iv k, h)"
  using assms by (simp add: RTMPInitWepEngine_def alloc_ok wep_key_ok_def wep_ctx_def wep_free_def)

lemma fcs_append: "RTMP_CALC_FCS32 f (p @ q) (length p) = RTMP_CALC_FCS32 f p (length p)"
  by (simp add: RTMP_CALC_FCS32_def)

lemma append_icv:
  "length pad = 4 \<Longrightarrow> move_at (p @ pad) (length p)
     (le32_bytes (RTMP_CALC_FCS32 PPPINITFCS32 p (length p) XOR 0xffffffff)) = p @ icv p"
  by (simp add: move_at_append_left icv_def le32_bytes_def)

lemma compute_icv:
  "ARC4_Compute (length p + 4) c (p @ icv p) 0 0 = xor_bytes (p @ icv p) (keystream (length p + 4) c)"
  by (simp add: ARC4_Compute_stream move_at_def)

lemma RTMPSoftEncryptWEP_ok:
  assumes "outcomes h = []" and "wep_key_ok k" and "length pad = 4"
  shows "RTMPSoftEncryptWEP junk iv k (p @ pad) (length p) h
    = Some (True, xor_bytes (p @ icv p) (keystream (length p + 4) (wep_ctx iv k)), h)"
proof -
  have "KeyLen k \<noteq> 0"
    using assms(2) by (auto simp: wep_key_ok_def)
  then show ?thesis
    using assms append_icv[of pad p] compute_icv RTMPInitWepEngine_ok[of "h\<lparr>live := live h + 1\<rparr>" k]
    by (simp add: RTMPSoftEncryptWEP_def alloc_ok LEN_ICV_def fcs_append wep_free_def)
qed

lemma unat_len16: "m < 65536 \<Longrightarrow> unat (of_nat m :: UINT16) = m"
  by (simp add: unat_of_nat take_bit_nat_eq_self)

lemma le32_split: "le32_bytes (RTMP_CALC_FCS32 PPPINITFCS32 d n XOR 0xffffffff) = drop n d \<longleftrightarrow> d = take n d @ icv (take n d)"
  if "n \<le> length d" for d :: bytes
proof -
  have "le32_bytes (RTMP_CALC_FCS32 PPPINITFCS32 d n XOR 0xffffffff) = icv (take n d)"
    using that by (simp add: icv_def RTMP_CALC_FCS32_def min_def)
  then show ?thesis
    by (metis append_eq_conv_conj append_take_drop_id same_append_eq)
qed

lemma RTMPSoftDecryptWEP_ok:
  assumes "outcomes h = []" and "wep_key_ok k" and "length hdr = 4" and "length ct = n + 4" and "n + 8 < 65536"
    and "d = xor_bytes ct (keystream (n + 4) (wep_ctx hdr k))"
  shows "RTMPSoftDecryptWEP junk k (hdr @ ct) (of_nat (n + 8)) h
    = Some (if d = take n d @ icv (take n d) then (True, d @ drop n ct, of_nat n, h)
            else (False, d @ drop n ct, of_nat (n + 8), h\<lparr>live := live h + 1\<rparr>))"
proof -
  have k: "KeyLen k \<noteq> 0"
    using assms(2) by (auto simp: wep_key_ok_def)
  have seed: "wep_ctx (hdr @ ct) k = wep_ctx hdr k"
    using assms(3) by (simp add: wep_ctx_def)
  have l: "of_nat (n + 8) - (4 :: UINT16) = of_nat (n + 4)" "of_nat (n + 4) - (4 :: UINT16) = of_nat n"
    by simp_all
  have d: "length d = n + 4" "ARC4_Compute (n + 4) (wep_ctx hdr k) (hdr @ ct) 4 0 = d @ drop n ct"
    using assms(3,4,6) by (simp_all add: ARC4_Compute_stream move_at_def)
  have t: "take 4 (drop n (d @ drop n ct)) = drop n d"
    and f: "RTMP_CALC_FCS32 PPPINITFCS32 (d @ drop n ct) n = RTMP_CALC_FCS32 PPPINITFCS32 d n"
    using d(1) by (simp_all add: RTMP_CALC_FCS32_def)
  have u: "unat (of_nat (n + 4) :: UINT16) = n + 4" "unat (of_nat n :: UINT16) = n"
    using assms(5) by (simp_all only: unat_len16)
  have i: "RTMPInitWepEngine (hdr @ ct) (Key k) (KeyLen k) junk (h\<lparr>live := live h + 1\<rparr>)
      = Some (wep_ctx hdr k, h\<lparr>live := live h + 1\<rparr>)"
    using RTMPInitWepEngine_ok[of "h\<lparr>live := live h + 1\<rparr>" k "hdr @ ct" junk] assms(1,2) seed by simp
  show ?thesis
    unfolding RTMPSoftDecryptWEP_def alloc_ok[OF assms(1)] prod.case i option.case LEN_WEP_IV_HDR_def LEN_ICV_def Let_def
      of_nat_numeral l u d(2) t f
    using k assms(3,4) d(1) le32_split[of n d] by (simp add: wep_free_def)
qed

text \<open>
  \<^bold>\<open>C20\<close> WEP decryption accepts exactly what WEP encryption produces. For every key of 1 to 13
  bytes, IV header, text \<open>p\<close> and cipher text of the matching length, \<^verbatim>\<open>RTMPSoftDecryptWEP\<close> on header and cipher
  text succeeds with the length and the bytes of \<open>p\<close> if and only if \<^verbatim>\<open>RTMPSoftEncryptWEP\<close> on \<open>p\<close> gives that
  cipher text; the in-place decryption over the header loses nothing, and all memory is freed.
\<close>

theorem wep_decrypt_iff_encrypt:
  assumes "outcomes h = []" and "wep_key_ok k" and "length hdr = LEN_WEP_IV_HDR" and "length pad = LEN_ICV"
    and "length ct = length p + LEN_ICV" and "length p + 8 < 65536"
  shows "(\<exists>d. RTMPSoftDecryptWEP junk k (hdr @ ct) (of_nat (length p + 8)) h = Some (True, d, of_nat (length p), h)
            \<and> take (length p) d = p)
    \<longleftrightarrow> RTMPSoftEncryptWEP junk' hdr k (p @ pad) (length p) h = Some (True, ct, h)"
proof -
  define s d where "s = keystream (length p + 4) (wep_ctx hdr k)" and "d = xor_bytes ct s"
  note L = assms(3-5)[unfolded LEN_WEP_IV_HDR_def LEN_ICV_def]
  have ld: "length d = length p + 4"
    by (simp add: d_def s_def L)
  have "(\<exists>x. RTMPSoftDecryptWEP junk k (hdr @ ct) (of_nat (length p + 8)) h = Some (True, x, of_nat (length p), h)
            \<and> take (length p) x = p)
      \<longleftrightarrow> d = take (length p) d @ icv (take (length p) d) \<and> take (length p) d = p"
    using RTMPSoftDecryptWEP_ok[OF assms(1,2) L(1,3) assms(6) refl, of junk] ld by (auto simp: d_def s_def)
  also have "\<dots> \<longleftrightarrow> d = p @ icv p"
    by auto
  also have "\<dots> \<longleftrightarrow> ct = xor_bytes (p @ icv p) s"
    unfolding d_def by (rule xor_bytes_swap) (simp_all add: s_def L)
  also have "\<dots> \<longleftrightarrow> RTMPSoftEncryptWEP junk' hdr k (p @ pad) (length p) h = Some (True, ct, h)"
    using RTMPSoftEncryptWEP_ok[OF assms(1,2) L(2), of junk' hdr p] by (auto simp: s_def)
  finally show ?thesis .
qed

definition ex_key :: CIPHER_KEY where
  "ex_key = \<lparr>Key = [1, 2, 3, 4, 5, 0, 0, 0, 0, 0, 0, 0, 0, 0, 0, 0], KeyLen = 5\<rparr>"

definition ex_mem :: wep_mem where
  "ex_mem = \<lparr>outcomes = [], live = 0\<rparr>"

definition ex_ctx :: ARC4_CTX_STRUC where
  "ex_ctx = \<lparr>BlockIndex1 = 0, BlockIndex2 = 0, KeyBlock = replicate 256 0\<rparr>"

definition ex_cipher :: bytes where
  "ex_cipher = xor_bytes ([7, 8, 9] @ icv [7, 8, 9]) (keystream 7 (wep_ctx [1, 1, 1, 0] ex_key))"

lemma ex_key_ok: "wep_key_ok ex_key"
  by (simp add: wep_key_ok_def ex_key_def)

lemma wep_decrypt_iff_encrypt_witness:
  "\<exists>d. RTMPSoftDecryptWEP ex_ctx ex_key ([1, 1, 1, 0] @ ex_cipher) 11 ex_mem = Some (True, d, 3, ex_mem) \<and> take 3 d = [7, 8, 9]"
proof -
  have h: "outcomes ex_mem = []"
    by (simp add: ex_mem_def)
  have "RTMPSoftEncryptWEP ex_ctx [1, 1, 1, 0] ex_key ([7, 8, 9] @ [0, 0, 0, 0]) (length [7, 8, 9 :: UINT8]) ex_mem
      = Some (True, ex_cipher, ex_mem)"
    using RTMPSoftEncryptWEP_ok[OF h ex_key_ok, of "[0, 0, 0, 0]" ex_ctx "[1, 1, 1, 0]" "[7, 8, 9]"] by (simp add: ex_cipher_def)
  moreover have "length ex_cipher = 7"
    by (simp add: ex_cipher_def)
  ultimately show ?thesis
    using wep_decrypt_iff_encrypt[OF h ex_key_ok, of "[1, 1, 1, 0]" "[0, 0, 0, 0]" ex_cipher "[7, 8, 9]" ex_ctx ex_ctx]
    by (simp add: LEN_WEP_IV_HDR_def LEN_ICV_def numeral_3_eq_3)
qed

section \<open>Failures\<close>

lemma short_wraps:
  assumes "unat (cnt :: UINT16) < 8"
  shows "unat cnt < 4 + unat (cnt - 4) \<or> unat cnt < unat (cnt - 4 - 4) + 4"
  using assms by (auto simp: unat_sub_if_size word_size split: if_splits)

text \<open>
  The decryption of a frame leaves its buffer exactly when the frame is shorter than the IV
  header and the ICV together: with allocations that succeed, a usable key and a buffer of \<open>DataByteCnt\<close> bytes,
  \<^verbatim>\<open>RTMPSoftDecryptWEP\<close> stays in bounds if and only if there are at least 8 bytes. Below that the 16-bit lengths
  wrap around, and about 64 KiB behind the buffer are decrypted or checked.
\<close>

theorem wep_decrypt_short_frame:
  assumes "outcomes h = []" and "wep_key_ok k" and "length pData = unat DataByteCnt"
  shows "RTMPSoftDecryptWEP junk k pData DataByteCnt h = None \<longleftrightarrow> unat DataByteCnt < 8"
proof (cases "unat DataByteCnt < 8")
  case True
  have k: "KeyLen k \<noteq> 0"
    using assms(2) by (auto simp: wep_key_ok_def)
  have i: "RTMPInitWepEngine pData (Key k) (KeyLen k) junk (h\<lparr>live := live h + 1\<rparr>)
      = Some (wep_ctx pData k, h\<lparr>live := live h + 1\<rparr>)"
    using RTMPInitWepEngine_ok[of "h\<lparr>live := live h + 1\<rparr>" k pData junk] assms(1,2) by simp
  show ?thesis
    unfolding RTMPSoftDecryptWEP_def alloc_ok[OF assms(1)] prod.case i option.case LEN_WEP_IV_HDR_def LEN_ICV_def Let_def
      of_nat_numeral
    using k short_wraps[OF True] True assms(3) by auto
next
  case False
  define n where "n = unat DataByteCnt - 8"
  have "DataByteCnt = of_nat (n + 8)" "n + 8 < 65536"
    using False unsigned_less[of DataByteCnt] by (simp_all add: n_def)
  moreover obtain hdr ct where "pData = hdr @ ct" "length hdr = 4" "length ct = n + 4"
    using that[of "take 4 pData" "drop 4 pData"] False assms(3) by (simp add: n_def)
  ultimately show ?thesis
    using RTMPSoftDecryptWEP_ok[OF assms(1,2), of hdr ct n _ junk] False by simp
qed

lemma wep_decrypt_short_frame_witness:
  "RTMPSoftDecryptWEP ex_ctx ex_key [1, 1, 1, 0, 9, 9, 9] 7 ex_mem = None"
  using wep_decrypt_short_frame[OF _ ex_key_ok, of ex_mem "[1, 1, 1, 0, 9, 9, 9]" 7 ex_ctx] by (simp add: ex_mem_def)

text \<open>
  A failed allocation makes WEP encrypt without the key. When the context is allocated and
  the seed is not, \<^verbatim>\<open>RTMPInitWepEngine\<close> returns without setting the context up and cannot report it:
  \<^verbatim>\<open>RTMPSoftEncryptWEP\<close> still returns TRUE, and the text is combined with the stream of whatever the allocated memory
  held, for every key alike. The other two failures return FALSE (an empty key, no context), the empty key without freeing
  the context.
\<close>

theorem wep_seed_alloc_failure:
  assumes "outcomes h = [True, False]" and "KeyLen k \<noteq> 0" and "length pad = LEN_ICV"
  shows "RTMPSoftEncryptWEP junk iv k (p @ pad) (length p) h
      = Some (True, xor_bytes (p @ icv p) (keystream (length p + 4) junk), h\<lparr>outcomes := []\<rparr>)
    \<and> RTMPSoftEncryptWEP junk iv (k\<lparr>KeyLen := 0\<rparr>) (p @ pad) (length p) h
      = Some (False, p @ pad, h\<lparr>outcomes := [False], live := live h + 1\<rparr>)"
  using assms append_icv[of pad p] compute_icv
  by (simp add: RTMPSoftEncryptWEP_def wep_alloc_def RTMPInitWepEngine_def LEN_ICV_def fcs_append wep_free_def)

lemma wep_seed_alloc_failure_witness:
  "RTMPSoftEncryptWEP ex_ctx [1, 1, 1, 0] ex_key ([7] @ [0, 0, 0, 0]) 1 \<lparr>outcomes = [True, False], live = 0\<rparr>
    = Some (True, xor_bytes ([7] @ icv [7]) (keystream 5 ex_ctx), \<lparr>outcomes = [], live = 0\<rparr>)"
  using wep_seed_alloc_failure[of "\<lparr>outcomes = [True, False], live = 0\<rparr>" ex_key "[0, 0, 0, 0]" ex_ctx "[1, 1, 1, 0]" "[7]"]
  by (simp add: ex_key_def LEN_ICV_def)

text \<open>A key of more than 13 bytes is copied past the end of the 16-byte seed.\<close>

lemma wep_long_key_overflows:
  assumes "outcomes h = []" and "13 < unat (KeyLen k)"
  shows "RTMPSoftEncryptWEP junk iv k pData n h = None"
proof -
  have "KeyLen k \<noteq> 0"
    using assms(2) by auto
  then show ?thesis
    using assms by (simp add: RTMPSoftEncryptWEP_def alloc_ok RTMPInitWepEngine_def)
qed

end
