(* ===== verification/Auth.thy ===== *)
theory Auth
  imports Mlme Wep
begin

text \<open>
  The authentication machine of the station (\<^verbatim>\<open>sta/auth.c\<close>, \<^verbatim>\<open>sta/auth_rsp.c\<close>, the authentication checks of
  \<^verbatim>\<open>common/cmm_sanity.c\<close> and the frame builders of \<^verbatim>\<open>common/mlme.c\<close>), on top of the MLME queue and the tables of
  \<^verbatim>\<open>Mlme\<close> and the encryption of \<^verbatim>\<open>Wep\<close>.

  \<^item> \<open>AUTH_AD\<close> is the part of the adapter that the handlers use: \<open>core\<close> has the machines and the queue, the other
    fields are the connection data, the shared keys, the timer (\<open>None\<close> when it does not run), the heap with its script of
    allocation outcomes, and logs of the frames and events handed to other layers.
  \<^item> Memory from the allocator has arbitrary contents, \<open>fresh\<close>. A handler returns \<open>None\<close> where it writes outside a
    buffer or reads outside the key table.
  \<^item> \<open>auth_step\<close> is the interleaving of the handlers with arriving messages and the expiry of the timer.
\<close>

section \<open>State\<close>

record SHARED_KEY =
  cipher_key :: CIPHER_KEY
  TxTsc :: bytes

record AUTH_AD =
  core :: MLME_ADAPTER
  CurrentAddress :: mac_addr
  aux_Bssid :: mac_addr
  aux_Alg :: UINT16
  bBlockAssoc :: bool
  cfg_DefaultKeyId :: UINT8
  SharedKeys :: "SHARED_KEY list"
  AuthFailReason :: UINT16
  AuthFailSta :: mac_addr
  DeauthReason :: UINT16
  DeauthSta :: mac_addr
  RunningTimer :: "ULONG option"
  heap :: wep_mem
  stale :: "nat \<Rightarrow> mem"
  arc4_junk :: ARC4_CTX_STRUC
  Sent :: "bytes list"
  IwEvents :: "nat list"

definition upd_core :: "(MLME_ADAPTER \<Rightarrow> MLME_ADAPTER) \<Rightarrow> AUTH_AD \<Rightarrow> AUTH_AD" where
  "upd_core f ad = ad\<lparr>core := f (core ad)\<rparr>"

definition os_alloc_mem :: "AUTH_AD \<Rightarrow> bool \<times> AUTH_AD" where
  "os_alloc_mem ad = (case wep_alloc (heap ad) of (ok, h) \<Rightarrow> (ok, ad\<lparr>heap := h\<rparr>))"

definition os_free_mem :: "AUTH_AD \<Rightarrow> AUTH_AD" where
  "os_free_mem ad = ad\<lparr>heap := wep_free (heap ad)\<rparr>"

definition fresh :: "AUTH_AD \<Rightarrow> nat \<Rightarrow> nat \<Rightarrow> bytes" where
  "fresh ad i n = map (stale ad i) [0..<n]"

definition RTMPSetTimer :: "ULONG \<Rightarrow> AUTH_AD \<Rightarrow> AUTH_AD" where
  "RTMPSetTimer v ad =
     (if halting (core ad) then ad
      else if RunningTimer ad \<noteq> None then ad
      else ad\<lparr>RunningTimer := Some v\<rparr>)"

definition RTMPCancelTimer :: "AUTH_AD \<Rightarrow> AUTH_AD" where
  "RTMPCancelTimer ad = ad\<lparr>RunningTimer := None\<rparr>"

definition MiniportMMRequest :: "bytes \<Rightarrow> AUTH_AD \<Rightarrow> AUTH_AD" where
  "MiniportMMRequest f ad = ad\<lparr>Sent := Sent ad @ [f]\<rparr>"

definition RTMPSendWirelessEvent :: "nat \<Rightarrow> AUTH_AD \<Rightarrow> AUTH_AD" where
  "RTMPSendWirelessEvent v ad = ad\<lparr>IwEvents := IwEvents ad @ [v]\<rparr>"

definition auth_state :: "ULONG \<Rightarrow> AUTH_AD \<Rightarrow> AUTH_AD" where
  "auth_state st = upd_core (set_auth_state st)"

definition report :: "ULONG \<Rightarrow> UINT16 \<Rightarrow> AUTH_AD \<Rightarrow> AUTH_AD" where
  "report mt s = upd_core (confirm mt s)"

definition MT2_AUTH_CONF :: ULONG where "MT2_AUTH_CONF = 35"
definition MT2_DEAUTH_CONF :: ULONG where "MT2_DEAUTH_CONF = 36"
definition MLME_INVALID_FORMAT :: UINT16 where "MLME_INVALID_FORMAT = 0x51"
definition MLME_FAIL_NO_RESOURCE :: UINT16 where "MLME_FAIL_NO_RESOURCE = 0x52"
definition SUBTYPE_AUTH :: UINT8 where "SUBTYPE_AUTH = 11"
definition SUBTYPE_DEAUTH :: UINT8 where "SUBTYPE_DEAUTH = 12"
definition AUTH_MODE_OPEN :: UINT16 where "AUTH_MODE_OPEN = 0"
definition AUTH_MODE_KEY :: UINT16 where "AUTH_MODE_KEY = 1"
definition CIPHER_TEXT_LEN :: nat where "CIPHER_TEXT_LEN = 128"
definition IE_CHALLENGE_TEXT :: UINT8 where "IE_CHALLENGE_TEXT = 16"
definition AUTH_TIMEOUT :: ULONG where "AUTH_TIMEOUT = 300"
definition REASON_CLS2ERR :: UINT16 where "REASON_CLS2ERR = 6"
definition IW_DEAUTH_EVENT_FLAG :: nat where "IW_DEAUTH_EVENT_FLAG = 0x0202"
definition IW_SHARED_WEP_FAIL :: nat where "IW_SHARED_WEP_FAIL = 0x021A"

lemmas auth_consts = MT2_AUTH_CONF_def MT2_DEAUTH_CONF_def MLME_INVALID_FORMAT_def MLME_FAIL_NO_RESOURCE_def SUBTYPE_AUTH_def SUBTYPE_DEAUTH_def
  AUTH_MODE_OPEN_def AUTH_MODE_KEY_def CIPHER_TEXT_LEN_def IE_CHALLENGE_TEXT_def AUTH_TIMEOUT_def REASON_CLS2ERR_def

section \<open>Frames\<close>

text \<open>
  The management header: frame control (type 0, the subtype in the upper half of the first byte, ToDs in bit 0 of the second), duration, three addresses and the
  sequence control field.
\<close>

definition MgtMacHeaderInit :: "AUTH_AD \<Rightarrow> UINT8 \<Rightarrow> UINT8 \<Rightarrow> mac_addr \<Rightarrow> mac_addr \<Rightarrow> bytes" where
  "MgtMacHeaderInit ad SubType ToDs pDA pBssid =
     [push_bit 4 SubType, ToDs AND 1, 0, 0] @ pDA @ CurrentAddress ad @ pBssid @ [0, 0]"

definition FC_Wep :: "bytes \<Rightarrow> bytes" where
  "FC_Wep hdr = hdr[1 := hdr ! 1 OR 0x40]"

definition MakeOutgoingFrame :: "bytes \<Rightarrow> bytes list \<Rightarrow> (bytes \<times> nat) option" where
  "MakeOutgoingFrame Buffer args =
     fold (\<lambda>p r. case r of None \<Rightarrow> None
              | Some (b, TotLeng) \<Rightarrow>
                  if TotLeng + length p \<le> length b then Some (move_at b TotLeng p, TotLeng + length p) else None)
       args (Some (Buffer, 0))"

definition send_mgmt :: "bytes list \<Rightarrow> AUTH_AD \<Rightarrow> AUTH_AD option" where
  "send_mgmt args ad = map_option (\<lambda>(b, FrameLen). MiniportMMRequest (take FrameLen b) ad)
     (MakeOutgoingFrame (fresh ad 2 MGMT_DMA_BUFFER_SIZE) args)"

fun INC_TX_TSC :: "bytes \<Rightarrow> nat \<Rightarrow> bytes" where
  "INC_TX_TSC [] cnt = []"
| "INC_TX_TSC (b # tsc) cnt =
     (if b + 1 = 0 \<and> cnt \<noteq> 1 then 0 # INC_TX_TSC tsc (cnt - 1) else (b + 1) # tsc)"

section \<open>Checks\<close>

definition MlmeAuthReqSanity :: "bytes \<Rightarrow> (mac_addr \<times> ULONG \<times> UINT16) option" where
  "MlmeAuthReqSanity m =
     (let Addr = take 6 m; Alg = le16 (m ! 6) (m ! 7);
          Timeout = ucast (le32_at m 8) OR push_bit 32 (ucast (le32_at m 12))
      in if (Alg = AUTH_MODE_KEY \<or> Alg = AUTH_MODE_OPEN) \<and> m ! 0 AND 1 = 0 then Some (Addr, Timeout, Alg) else None)"

definition PeerAuthSanity :: "bytes \<Rightarrow> bytes \<Rightarrow> (mac_addr \<times> UINT16 \<times> UINT16 \<times> UINT16 \<times> bytes) option" where
  "PeerAuthSanity m ChlgText =
     (let Addr2 = take 6 (drop 10 m);
          Alg = le16 (m ! 24) (m ! 25); Seq = le16 (m ! 26) (m ! 27); Status = le16 (m ! 28) (m ! 29)
      in if Alg = AUTH_MODE_OPEN then
           (if Seq = 1 \<or> Seq = 2 then Some (Addr2, Alg, Seq, Status, ChlgText) else None)
         else if Alg = AUTH_MODE_KEY then
           (if Seq = 1 \<or> Seq = 4 then Some (Addr2, Alg, Seq, Status, ChlgText)
            else if Seq = 2 \<or> Seq = 3 then
              Some (Addr2, Alg, Seq, Status, move_at ChlgText 0 (take CIPHER_TEXT_LEN (drop 32 m)))
            else None)
         else None)"

section \<open>Handlers\<close>

definition AUTH_ReqSend :: "MLME_QUEUE_ELEM \<Rightarrow> UINT16 \<Rightarrow> bytes \<Rightarrow> AUTH_AD \<Rightarrow> (bool \<times> AUTH_AD) option" where
  "AUTH_ReqSend e SeqNo NewElement ad =
     (if bBlockAssoc ad then
        Some (True, report MT2_AUTH_CONF MLME_STATE_MACHINE_REJECT (auth_state 0 ad))
      else case MlmeAuthReqSanity (Msg e) of
          None \<Rightarrow> Some (False, ad)
        | Some (Addr, Timeout, Alg) \<Rightarrow>
            let ad = (RTMPCancelTimer ad)\<lparr>aux_Bssid := Addr, aux_Alg := Alg\<rparr>
            in case os_alloc_mem ad of (ok, ad) \<Rightarrow>
                 if \<not> ok then Some (False, report MT2_AUTH_CONF MLME_FAIL_NO_RESOURCE (auth_state 0 ad))
                 else map_option (\<lambda>ad. (True, RTMPSetTimer Timeout (os_free_mem ad)))
                   (send_mgmt [MgtMacHeaderInit ad SUBTYPE_AUTH 0 Addr (aux_Bssid ad), le16_bytes Alg, le16_bytes SeqNo,
                               le16_bytes MLME_SUCCESS, NewElement] ad))"

definition do_MlmeAuthReqAction :: "MLME_QUEUE_ELEM \<Rightarrow> AUTH_AD \<Rightarrow> AUTH_AD option" where
  "do_MlmeAuthReqAction e ad = map_option
     (\<lambda>(ok, ad). if ok then auth_state 1 ad
               else report MT2_AUTH_CONF MLME_INVALID_FORMAT (auth_state 0 ad))
     (AUTH_ReqSend e 1 [] ad)"

text \<open>The part of \<^verbatim>\<open>PeerAuthRspAtSeq2Action\<close> that answers a challenge.\<close>

definition answer_challenge :: "mac_addr \<Rightarrow> UINT16 \<Rightarrow> UINT16 \<Rightarrow> bytes \<Rightarrow> AUTH_AD \<Rightarrow> AUTH_AD option" where
  "answer_challenge Addr2 Alg Seq ChlgText ad =
     (case os_alloc_mem ad of (ok, ad) \<Rightarrow>
        if \<not> ok then Some (report MT2_AUTH_CONF MLME_FAIL_NO_RESOURCE (auth_state 0 ad))
        else if length (SharedKeys ad) \<le> unat (cfg_DefaultKeyId ad) then None
        else
          let AuthHdr = FC_Wep (MgtMacHeaderInit ad SUBTYPE_AUTH 0 Addr2 (aux_Bssid ad));
              k = SharedKeys ad ! unat (cfg_DefaultKeyId ad);
              k = k\<lparr>TxTsc := INC_TX_TSC (TxTsc k) LEN_WEP_TSC\<rparr>;
              ad = ad\<lparr>SharedKeys := (SharedKeys ad)[unat (cfg_DefaultKeyId ad) := k]\<rparr>;
              iv_hdr = RTMPConstructWEPIVHdr (cfg_DefaultKeyId ad) (TxTsc k)
          in case MakeOutgoingFrame (fresh ad 1 (CIPHER_TEXT_LEN + 16))
                    [le16_bytes Alg, le16_bytes (Seq + 1), le16_bytes MLME_SUCCESS, [IE_CHALLENGE_TEXT],
                     [of_nat CIPHER_TEXT_LEN], take CIPHER_TEXT_LEN ChlgText] of
               None \<Rightarrow> None
             | Some (CyperChlgText, c_len) \<Rightarrow>
                 (case RTMPSoftEncryptWEP (arc4_junk ad) iv_hdr (cipher_key k) CyperChlgText c_len (heap ad) of
                    None \<Rightarrow> None
                  | Some (ok, CyperChlgText, h) \<Rightarrow>
                      let ad = ad\<lparr>heap := h\<rparr>
                      in if \<not> ok then Some (report MT2_AUTH_CONF MLME_FAIL_NO_RESOURCE (auth_state 0 (os_free_mem ad)))
                         else map_option (\<lambda>ad. auth_state 2 (RTMPSetTimer AUTH_TIMEOUT (os_free_mem ad)))
                                (send_mgmt [AuthHdr, iv_hdr, take (c_len + LEN_ICV) CyperChlgText] ad)))"

definition peer_seq2 :: "mac_addr \<times> UINT16 \<times> UINT16 \<times> UINT16 \<times> bytes \<Rightarrow> AUTH_AD \<Rightarrow> AUTH_AD option" where
  "peer_seq2 r ad = (case r of (Addr2, Alg, Seq, Status, ChlgText) \<Rightarrow>
     if aux_Bssid ad = Addr2 \<and> Seq = 2 then
       let ad = RTMPCancelTimer ad
       in if Status = MLME_SUCCESS then
            (if aux_Alg ad = AUTH_MODE_OPEN then Some (report MT2_AUTH_CONF Status (auth_state 0 ad))
             else answer_challenge Addr2 Alg Seq ChlgText ad)
          else Some (report MT2_AUTH_CONF Status (auth_state 0 (ad\<lparr>AuthFailReason := Status, AuthFailSta := Addr2\<rparr>)))
     else Some ad)"

definition do_PeerAuthRspAtSeq2Action :: "MLME_QUEUE_ELEM \<Rightarrow> AUTH_AD \<Rightarrow> AUTH_AD option" where
  "do_PeerAuthRspAtSeq2Action e ad =
     (case os_alloc_mem ad of (ok, ad) \<Rightarrow>
        if \<not> ok then Some ad
        else case os_alloc_mem ad of (ok, ad) \<Rightarrow>
          if \<not> ok then Some (os_free_mem ad)
          else map_option (\<lambda>ad. os_free_mem (os_free_mem ad))
                 (case PeerAuthSanity (Msg e) (fresh ad 0 CIPHER_TEXT_LEN) of
                    None \<Rightarrow> Some ad
                  | Some r \<Rightarrow> peer_seq2 r ad))"

definition peer_seq4 :: "mac_addr \<times> UINT16 \<times> UINT16 \<times> UINT16 \<times> bytes \<Rightarrow> AUTH_AD \<Rightarrow> AUTH_AD" where
  "peer_seq4 r ad = (case r of (Addr2, Alg, Seq, Status, ChlgText) \<Rightarrow>
     if aux_Bssid ad = Addr2 \<and> Seq = 4 then
       let ad = RTMPCancelTimer ad;
           ad = (if Status \<noteq> MLME_SUCCESS
                 then RTMPSendWirelessEvent IW_SHARED_WEP_FAIL (ad\<lparr>AuthFailReason := Status, AuthFailSta := Addr2\<rparr>)
                 else ad)
       in report MT2_AUTH_CONF Status (auth_state 0 ad)
     else ad)"

definition do_PeerAuthRspAtSeq4Action :: "MLME_QUEUE_ELEM \<Rightarrow> AUTH_AD \<Rightarrow> AUTH_AD" where
  "do_PeerAuthRspAtSeq4Action e ad =
     (case os_alloc_mem ad of (ok, ad) \<Rightarrow>
        if \<not> ok then ad
        else os_free_mem
               (case PeerAuthSanity (Msg e) (fresh ad 0 CIPHER_TEXT_LEN) of
                  None \<Rightarrow> ad
                | Some r \<Rightarrow> peer_seq4 r ad))"

definition MlmeDeauthReqAction :: "MLME_QUEUE_ELEM \<Rightarrow> AUTH_AD \<Rightarrow> AUTH_AD option" where
  "MlmeDeauthReqAction e ad =
     (let Addr = take 6 (Msg e); Reason = le16 (Msg e ! 6) (Msg e ! 7)
      in case os_alloc_mem ad of (ok, ad) \<Rightarrow>
           if \<not> ok then Some (report MT2_DEAUTH_CONF MLME_FAIL_NO_RESOURCE (auth_state 0 ad))
           else map_option
                  (\<lambda>ad. RTMPSendWirelessEvent IW_DEAUTH_EVENT_FLAG (report MT2_DEAUTH_CONF MLME_SUCCESS
                     (auth_state 0 ((os_free_mem ad)\<lparr>DeauthReason := Reason, DeauthSta := Addr\<rparr>))))
                  (send_mgmt [MgtMacHeaderInit ad SUBTYPE_DEAUTH 0 Addr (aux_Bssid ad), le16_bytes Reason] ad))"

definition Cls2errAction :: "mac_addr \<Rightarrow> AUTH_AD \<Rightarrow> AUTH_AD option" where
  "Cls2errAction pAddr ad =
     (case os_alloc_mem ad of (ok, ad) \<Rightarrow>
        if \<not> ok then Some ad
        else map_option (\<lambda>ad. (os_free_mem ad)\<lparr>DeauthReason := REASON_CLS2ERR, DeauthSta := pAddr\<rparr>)
               (send_mgmt [MgtMacHeaderInit ad SUBTYPE_DEAUTH 0 pAddr (aux_Bssid ad), le16_bytes REASON_CLS2ERR] ad))"

definition PeerAuthSimpleRspGenAndSend :: "mac_addr \<Rightarrow> UINT16 \<Rightarrow> UINT16 \<Rightarrow> UINT16 \<Rightarrow> AUTH_AD \<Rightarrow> AUTH_AD option" where
  "PeerAuthSimpleRspGenAndSend Addr2 Alg Seq Reason ad =
     (if Reason \<noteq> MLME_SUCCESS then Some ad
      else case os_alloc_mem ad of (ok, ad) \<Rightarrow>
        if \<not> ok then Some ad
        else map_option os_free_mem
               (send_mgmt [MgtMacHeaderInit ad SUBTYPE_AUTH 0 Addr2 (aux_Bssid ad), le16_bytes Alg, le16_bytes Seq, le16_bytes Reason] ad))"

text \<open>The timer function: it runs once the timer has expired, which then no longer runs.\<close>

definition AuthTimeoutFunction :: "AUTH_AD \<Rightarrow> AUTH_AD option" where
  "AuthTimeoutFunction ad =
     (if halting (core ad) then Some ad
      else map_option (upd_core (\<lambda>a. log_ev MlmeTaskUp (snd (MlmeEnqueue AUTH_STATE_MACHINE 2 0 None 0 a))))
             (if CurrState (AuthMachine (Mlme (core ad))) = 1 then Cls2errAction (aux_Bssid ad) ad else Some ad))"

section \<open>The machine\<close>

definition auth_perform :: "sm_func \<Rightarrow> MLME_QUEUE_ELEM \<Rightarrow> AUTH_AD \<Rightarrow> AUTH_AD option" where
  "auth_perform f e ad = (case f of
       MlmeAuthReqAction \<Rightarrow> do_MlmeAuthReqAction e ad
     | PeerAuthRspAtSeq2Action \<Rightarrow> do_PeerAuthRspAtSeq2Action e ad
     | PeerAuthRspAtSeq4Action \<Rightarrow> Some (do_PeerAuthRspAtSeq4Action e ad)
     | AuthTimeoutAction \<Rightarrow> Some (upd_core do_AuthTimeoutAction ad)
     | InvalidStateWhenAuth \<Rightarrow> Some (upd_core do_InvalidStateWhenAuth ad)
     | _ \<Rightarrow> Some ad)"

definition auth_message :: "MLME_QUEUE_ELEM \<Rightarrow> AUTH_AD \<Rightarrow> AUTH_AD option" where
  "auth_message e ad = (let S = AuthMachine (Mlme (core ad)) in
     case sm_cell S (CurrState S) (MsgType e) of None \<Rightarrow> None | Some f \<Rightarrow> auth_perform f e ad)"

text \<open>One round of the MLME task. The handlers of other machines leave the authentication data alone; what they put on the queue is a step of its own below.\<close>

definition auth_task :: "AUTH_AD \<Rightarrow> AUTH_AD option" where
  "auth_task ad = (case MlmeDequeue (the_queue (core ad)) of (i, q) \<Rightarrow>
     let ad = upd_core (upd_queue (\<lambda>_. q)) ad; e = Entry q ! i in
     if MsgType e = MT2_RESET_CONF then Some (upd_core (\<lambda>a. free_elem i (MlmeRestartStateMachine a)) (RTMPCancelTimer ad))
     else if Machine e = AUTH_STATE_MACHINE then map_option (upd_core (free_elem i)) (auth_message e ad)
     else Some (upd_core (free_elem i) ad))"

inductive auth_step :: "AUTH_AD \<Rightarrow> AUTH_AD \<Rightarrow> bool" where
  request: "deliverable (mach, mt, map p [0..<unat len], prv) \<Longrightarrow> MlmeEnqueue mach mt len (Some p) prv (core ad) = (True, a)
    \<Longrightarrow> auth_step ad (ad\<lparr>core := a\<rparr>)"
| frame: "MlmeEnqueueForRecv i len p (core ad) = (True, a) \<Longrightarrow> auth_step ad (ad\<lparr>core := a\<rparr>)"
| task: "0 < unat (Num (the_queue (core ad))) \<Longrightarrow> auth_task ad = Some ad' \<Longrightarrow> auth_step ad ad'"
| expire: "RunningTimer ad = Some v \<Longrightarrow> unat (Num (the_queue (core ad))) < MAX_LEN_OF_MLME_QUEUE \<Longrightarrow>
    AuthTimeoutFunction (ad\<lparr>RunningTimer := None\<rparr>) = Some ad' \<Longrightarrow> auth_step ad ad'"

section \<open>The answer to a challenge\<close>

lemma make_frame_from:
  "length a + length (concat args) \<le> length (a @ b) \<Longrightarrow>
   fold (\<lambda>p r. case r of None \<Rightarrow> None
              | Some (b, TotLeng) \<Rightarrow>
                  if TotLeng + length p \<le> length b then Some (move_at b TotLeng p, TotLeng + length p) else None)
       args (Some (a @ b, length a))
   = Some (a @ concat args @ drop (length (concat args)) b, length a + length (concat args))"
proof (induction args arbitrary: a b)
  case (Cons p args)
  have "move_at (a @ b) (length a) p = (a @ p) @ drop (length p) b" using Cons.prems by (simp add: move_at_append_left)
  then show ?case using Cons.IH[of "a @ p" "drop (length p) b"] Cons.prems by (simp add: add.assoc add.commute)
qed simp

lemma MakeOutgoingFrame_concat:
  assumes "length (concat args) \<le> length b"
  shows "MakeOutgoingFrame b args = Some (concat args @ drop (length (concat args)) b, length (concat args))"
  using make_frame_from[of "[]" args b] assms unfolding MakeOutgoingFrame_def by simp

lemma send_mgmt_concat:
  "length (concat args) \<le> MGMT_DMA_BUFFER_SIZE \<Longrightarrow> send_mgmt args ad = Some (MiniportMMRequest (concat args) ad)"
  by (simp add: send_mgmt_def MakeOutgoingFrame_concat fresh_def)

lemma length_fresh [simp, len_simps]: "length (fresh ad i n) = n"
  by (simp add: fresh_def)

lemma length_le16_bytes [simp, len_simps]: "length (le16_bytes v) = 2"
  by (simp add: le16_bytes_def)

lemma length_mgt_hdr:
  "length pDA = 6 \<Longrightarrow> length (CurrentAddress ad) = 6 \<Longrightarrow> length pBssid = 6 \<Longrightarrow> length (MgtMacHeaderInit ad s t pDA pBssid) = 24"
  by (simp add: MgtMacHeaderInit_def)

lemma length_INC_TX_TSC [simp, len_simps]: "length (INC_TX_TSC tsc n) = length tsc"
  by (induction tsc n rule: INC_TX_TSC.induct) simp_all

lemma length_iv_hdr: "3 \<le> length pn \<Longrightarrow> length (RTMPConstructWEPIVHdr i pn) = 4"
  by (simp add: RTMPConstructWEPIVHdr_def LEN_WEP_IV_HDR_def LEN_WEP_TSC_def move_at_def)

text \<open>The transmit counter counts modulo \<open>2^24\<close>.\<close>

fun le_value :: "bytes \<Rightarrow> nat" where
  "le_value [] = 0"
| "le_value (b # bs) = unat b + 256 * le_value bs"

lemma inc_tsc_value:
  assumes "length tsc = n" and "0 < n"
  shows "le_value (INC_TX_TSC tsc n) = (le_value tsc + 1) mod 256 ^ n"
  using assms
proof (induction tsc n rule: INC_TX_TSC.induct)
  case (2 b tsc n)
  have lt: "le_value bs < 256 ^ length bs" for bs
  proof (induction bs)
    case (Cons c bs)
    have "unat c < 256" using unsigned_less[of c, where 'a = nat] by simp
    then show ?case using Cons by simp
  qed simp
  have lb: "unat b < 256" using unsigned_less[of b, where 'a = nat] by simp
  have m: "unat (b + 1) = (unat b + 1) mod 256" by (simp add: unat_word_ariths)
  have z: "b + 1 = 0 \<longleftrightarrow> unat b = 255" using lb m by (auto simp: word_unat_eq_iff mod_Suc)
  show ?case
  proof (cases "b + 1 = 0")
    case True
    then have b: "unat b = 255" using z by simp
    show ?thesis
    proof (cases "n = 1")
      case True
      then show ?thesis using b \<open>b + 1 = 0\<close> 2 by simp
    next
      case False
      then obtain m where m: "n = Suc m" "0 < m" "length tsc = m" using 2 by (cases n) auto
      have "le_value (INC_TX_TSC tsc m) = (le_value tsc + 1) mod 256 ^ m" using 2 m True by simp
      then show ?thesis using m b True by (simp add: mult_mod_right)
    qed
  next
    case False
    have "unat (b + 1) + 256 * le_value tsc < 256 ^ n" using lt[of "(b + 1) # tsc"] 2(2) by auto
    then show ?thesis using False m z lb by (simp add: mod_Suc)
  qed
qed simp

abbreviation astate :: "AUTH_AD \<Rightarrow> ULONG" where
  "astate ad \<equiv> CurrState (AuthMachine (Mlme (core ad)))"

lemma alloc_succeeds: "outcomes (heap ad) = [] \<Longrightarrow> os_alloc_mem ad = (True, ad\<lparr>heap := (heap ad)\<lparr>live := live (heap ad) + 1\<rparr>\<rparr>)"
  by (simp add: os_alloc_mem_def wep_alloc_def)

lemma free_alloc: "os_free_mem (ad\<lparr>heap := h\<lparr>live := Suc n\<rparr>\<rparr>) = ad\<lparr>heap := h\<lparr>live := n\<rparr>\<rparr>"
  by (simp add: os_free_mem_def wep_free_def)

text \<open>The response to \<open>ch\<close> before and after encryption.\<close>

definition challenge_text :: "UINT16 \<Rightarrow> UINT16 \<Rightarrow> bytes \<Rightarrow> bytes" where
  "challenge_text Alg Seq ch = le16_bytes Alg @ le16_bytes Seq @ [0, 0, 16, 128] @ ch"

definition wep_cipher :: "bytes \<Rightarrow> CIPHER_KEY \<Rightarrow> bytes \<Rightarrow> bytes" where
  "wep_cipher iv k p = xor_bytes (p @ icv p) (keystream (length p + 4) (wep_ctx iv k))"

lemma length_challenge_text [simp, len_simps]: "length (challenge_text a s ch) = 8 + length ch"
  by (simp add: challenge_text_def)

lemma length_wep_cipher [simp, len_simps]: "length (wep_cipher iv k p) = length p + 4"
  by (simp add: wep_cipher_def)

lemma encrypt_in_place:
  assumes "outcomes h = []" and "wep_key_ok k" and "4 \<le> length pad"
  shows "RTMPSoftEncryptWEP junk iv k (p @ pad) (length p) h = Some (True, wep_cipher iv k p @ drop 4 pad, h)"
proof -
  have "KeyLen k \<noteq> 0" using assms(2) by (auto simp: wep_key_ok_def)
  moreover have "move_at (p @ pad) (length p) (le32_bytes (RTMP_CALC_FCS32 PPPINITFCS32 p (length p) XOR 0xffffffff)) = (p @ icv p) @ drop 4 pad"
    using assms(3) by (simp add: move_at_append_left icv_def le32_bytes_def eval_nat_numeral)
  moreover have "ARC4_Compute (length p + 4) c ((p @ icv p) @ drop 4 pad) 0 0 = xor_bytes (p @ icv p) (keystream (length p + 4) c) @ drop 4 pad" for c
    by (simp add: ARC4_Compute_stream move_at_def)
  ultimately show ?thesis
    using assms RTMPInitWepEngine_ok[of "h\<lparr>live := live h + 1\<rparr>" k]
    by (simp add: RTMPSoftEncryptWEP_def alloc_ok LEN_ICV_def fcs_append wep_free_def wep_cipher_def)
qed

lemma answer_challenge_sends:
  assumes "outcomes (heap ad) = []" and "unat (cfg_DefaultKeyId ad) < length (SharedKeys ad)"
    and "k = SharedKeys ad ! unat (cfg_DefaultKeyId ad)" and "wep_key_ok (cipher_key k)" and "3 \<le> length (TxTsc k)"
    and "length ch = 128" and "length Addr2 = 6" and "length (CurrentAddress ad) = 6" and "length (aux_Bssid ad) = 6"
    and "iv = RTMPConstructWEPIVHdr (cfg_DefaultKeyId ad) (INC_TX_TSC (TxTsc k) 3)"
  shows "answer_challenge Addr2 Alg Seq ch ad = Some (auth_state 2 (RTMPSetTimer 300
    (MiniportMMRequest (FC_Wep (MgtMacHeaderInit ad SUBTYPE_AUTH 0 Addr2 (aux_Bssid ad)) @ iv @ wep_cipher iv (cipher_key k) (challenge_text Alg (Seq + 1) ch))
      (ad\<lparr>SharedKeys := (SharedKeys ad)[unat (cfg_DefaultKeyId ad) := k\<lparr>TxTsc := INC_TX_TSC (TxTsc k) 3\<rparr>]\<rparr>))))"
proof -
  let ?p = "challenge_text Alg (Seq + 1) ch"
  let ?hdr = "FC_Wep (MgtMacHeaderInit ad SUBTYPE_AUTH 0 Addr2 (aux_Bssid ad))"
  define ad1 where "ad1 = ad\<lparr>heap := (heap ad)\<lparr>live := live (heap ad) + 1\<rparr>,
    SharedKeys := (SharedKeys ad)[unat (cfg_DefaultKeyId ad) := k\<lparr>TxTsc := INC_TX_TSC (TxTsc k) 3\<rparr>]\<rparr>"
  have parts: "concat [le16_bytes Alg, le16_bytes (Seq + 1), le16_bytes MLME_SUCCESS, [IE_CHALLENGE_TEXT], [of_nat CIPHER_TEXT_LEN], take CIPHER_TEXT_LEN ch] = ?p"
    using assms(6) by (simp add: challenge_text_def auth_consts MLME_SUCCESS_def le16_bytes_def)
  have m: "MakeOutgoingFrame (fresh ad1 1 (CIPHER_TEXT_LEN + 16))
      [le16_bytes Alg, le16_bytes (Seq + 1), le16_bytes MLME_SUCCESS, [IE_CHALLENGE_TEXT], [of_nat CIPHER_TEXT_LEN], take CIPHER_TEXT_LEN ch]
    = Some (?p @ drop 136 (fresh ad1 1 144), 136)"
    using MakeOutgoingFrame_concat[of "[le16_bytes Alg, le16_bytes (Seq + 1), le16_bytes MLME_SUCCESS, [IE_CHALLENGE_TEXT], [of_nat CIPHER_TEXT_LEN], take CIPHER_TEXT_LEN ch]"
        "fresh ad1 1 144"] assms(6) unfolding parts by (simp add: auth_consts)
  have e: "RTMPSoftEncryptWEP (arc4_junk ad) iv (cipher_key k) (?p @ drop 136 (fresh ad1 1 144)) 136 (heap ad1)
      = Some (True, wep_cipher iv (cipher_key k) ?p @ drop 140 (fresh ad1 1 144), heap ad1)"
    using encrypt_in_place[of "heap ad1" "cipher_key k" "drop 136 (fresh ad1 1 144)" "arc4_junk ad" iv ?p] assms(1,4,6) by (simp add: ad1_def)
  have h: "length ?hdr = 24" using assms(7-9) by (simp add: FC_Wep_def length_mgt_hdr)
  have i: "length iv = 4" using assms(5,10) by (simp add: length_iv_hdr)
  have snd: "send_mgmt [?hdr, iv, wep_cipher iv (cipher_key k) ?p] ad1 = Some (MiniportMMRequest (?hdr @ iv @ wep_cipher iv (cipher_key k) ?p) ad1)"
    using send_mgmt_concat[of "[?hdr, iv, wep_cipher iv (cipher_key k) ?p]" ad1] h i assms(6) by (simp add: queue_consts)
  have d: "(heap ad1) = (heap ad)\<lparr>live := live (heap ad) + 1\<rparr>" "SharedKeys ad1 = (SharedKeys ad)[unat (cfg_DefaultKeyId ad) := k\<lparr>TxTsc := INC_TX_TSC (TxTsc k) 3\<rparr>]"
    by (simp_all add: ad1_def)
  have hdr: "MgtMacHeaderInit (ad\<lparr>heap := x\<rparr>) a b c y = MgtMacHeaderInit ad a b c y" for x a b c y by (simp add: MgtMacHeaderInit_def)
  have n: "\<not> length (SharedKeys ad) \<le> unat (cfg_DefaultKeyId ad)" using assms(2) by simp
  have swap: "ad\<lparr>SharedKeys := x, heap := y\<rparr> = ad\<lparr>heap := y, SharedKeys := x\<rparr>" for x y by simp
  have "answer_challenge Addr2 Alg Seq ch ad = Some (auth_state 2 (RTMPSetTimer AUTH_TIMEOUT (os_free_mem (MiniportMMRequest (?hdr @ iv @ wep_cipher iv (cipher_key k) ?p) ad1))))"
    using n m e snd i assms(6)
    unfolding answer_challenge_def alloc_succeeds[OF assms(1)] Let_def
    by (simp add: ad1_def hdr swap assms(3)[symmetric] LEN_WEP_TSC_def LEN_ICV_def assms(10)[symmetric])
  moreover have "os_free_mem (MiniportMMRequest f ad1) = MiniportMMRequest f (ad\<lparr>SharedKeys := SharedKeys ad1\<rparr>)" for f
    by (simp add: ad1_def os_free_mem_def wep_free_def MiniportMMRequest_def)
  ultimately show ?thesis by (simp add: d auth_consts)
qed

lemma decrypt_cipher:
  assumes "outcomes h = []" and "wep_key_ok k" and "length iv = 4" and "length p + 8 < 65536"
  shows "\<exists>d. RTMPSoftDecryptWEP junk k (iv @ wep_cipher iv k p) (of_nat (length p + 8)) h = Some (True, d, of_nat (length p), h) \<and> take (length p) d = p"
proof -
  define d where "d = xor_bytes (wep_cipher iv k p) (keystream (length p + 4) (wep_ctx iv k))"
  have "d = p @ icv p \<longleftrightarrow> wep_cipher iv k p = xor_bytes (p @ icv p) (keystream (length p + 4) (wep_ctx iv k))"
    unfolding d_def by (rule xor_bytes_swap) simp_all
  then have d: "d = p @ icv p" by (simp add: wep_cipher_def)
  show ?thesis using RTMPSoftDecryptWEP_ok[OF assms(1-3) _ assms(4) d_def, of junk] d by simp
qed

text \<open>What a response needs: a usable default key, and memory.\<close>

definition key_ready :: "AUTH_AD \<Rightarrow> bool" where
  "key_ready ad \<longleftrightarrow> unat (cfg_DefaultKeyId ad) < length (SharedKeys ad)
     \<and> (let k = SharedKeys ad ! unat (cfg_DefaultKeyId ad) in wep_key_ok (cipher_key k) \<and> 3 \<le> length (TxTsc k))
     \<and> length (CurrentAddress ad) = 6 \<and> length (aux_Bssid ad) = 6 \<and> outcomes (heap ad) = [] \<and> \<not> halting (core ad)"

definition default_key :: "AUTH_AD \<Rightarrow> SHARED_KEY" where
  "default_key ad = SharedKeys ad ! unat (cfg_DefaultKeyId ad)"

text \<open>The access point reads a response: frame header, initialisation vector, decrypted body.\<close>

definition answers_with :: "AUTH_AD \<Rightarrow> bytes \<Rightarrow> bytes \<Rightarrow> bool" where
  "answers_with ad f p \<longleftrightarrow>
     take 24 f = FC_Wep (MgtMacHeaderInit ad SUBTYPE_AUTH 0 (aux_Bssid ad) (aux_Bssid ad))
   \<and> (\<forall>junk h. outcomes h = [] \<longrightarrow>
        (\<exists>d. RTMPSoftDecryptWEP junk (cipher_key (default_key ad)) (drop 24 f) (of_nat (length f - 24)) h = Some (True, d, of_nat (length p), h)
           \<and> take (length p) d = p))"

lemma seq2_answers:
  assumes "key_ready ad" and "aux_Alg ad \<noteq> AUTH_MODE_OPEN" and "length ch = 128"
    and "PeerAuthSanity (Msg e) (fresh ad 0 CIPHER_TEXT_LEN) = Some (aux_Bssid ad, Alg, 2, 0, ch)"
  shows "\<exists>ad' f. do_PeerAuthRspAtSeq2Action e ad = Some ad' \<and> Sent ad' = Sent ad @ [f] \<and> answers_with ad f (challenge_text Alg 3 ch)
    \<and> astate ad' = 2 \<and> RunningTimer ad' = Some 300 \<and> heap ad' = heap ad \<and> the_queue (core ad') = the_queue (core ad)
    \<and> TxTsc (default_key ad') = INC_TX_TSC (TxTsc (default_key ad)) 3
    \<and> take 3 (drop 24 f) = take 3 (TxTsc (default_key ad'))"
proof -
  define k where "k = default_key ad"
  define iv where "iv = RTMPConstructWEPIVHdr (cfg_DefaultKeyId ad) (INC_TX_TSC (TxTsc k) 3)"
  define p where "p = challenge_text Alg 3 ch"
  define hdr where "hdr = FC_Wep (MgtMacHeaderInit ad SUBTYPE_AUTH 0 (aux_Bssid ad) (aux_Bssid ad))"
  define f where "f = hdr @ iv @ wep_cipher iv (cipher_key k) p"
  define ad2 where "ad2 = ad\<lparr>heap := (heap ad)\<lparr>live := live (heap ad) + 2\<rparr>\<rparr>"
  define ad3 where "ad3 = RTMPCancelTimer ad2"
  note K = assms(1)[unfolded key_ready_def Let_def]
  have o: "outcomes (heap ad) = []" and halt: "\<not> halting (core ad)" using K by simp_all
  have a: "os_alloc_mem ad = (True, ad\<lparr>heap := (heap ad)\<lparr>live := live (heap ad) + 1\<rparr>\<rparr>)" by (rule alloc_succeeds[OF o])
  have b: "os_alloc_mem (ad\<lparr>heap := (heap ad)\<lparr>live := live (heap ad) + 1\<rparr>\<rparr>) = (True, ad2)"
    using o by (simp add: os_alloc_mem_def wep_alloc_def ad2_def)
  have fr: "fresh ad2 0 CIPHER_TEXT_LEN = fresh ad 0 CIPHER_TEXT_LEN" by (simp add: fresh_def ad2_def)
  have h3: "MgtMacHeaderInit ad3 SUBTYPE_AUTH 0 (aux_Bssid ad) (aux_Bssid ad3) = MgtMacHeaderInit ad SUBTYPE_AUTH 0 (aux_Bssid ad) (aux_Bssid ad)"
    by (simp add: MgtMacHeaderInit_def ad3_def ad2_def RTMPCancelTimer_def)
  have s: "answer_challenge (aux_Bssid ad) Alg 2 ch ad3 = Some (auth_state 2 (RTMPSetTimer 300 (MiniportMMRequest f
      (ad3\<lparr>SharedKeys := (SharedKeys ad)[unat (cfg_DefaultKeyId ad) := k\<lparr>TxTsc := INC_TX_TSC (TxTsc k) 3\<rparr>]\<rparr>))))"
    using answer_challenge_sends[of ad3 k ch "aux_Bssid ad" iv Alg 2] K assms(3) h3
    by (simp add: ad3_def ad2_def RTMPCancelTimer_def k_def iv_def p_def f_def hdr_def default_key_def)
  define r where "r = os_free_mem (os_free_mem (auth_state 2 (RTMPSetTimer 300 (MiniportMMRequest f
      (ad3\<lparr>SharedKeys := (SharedKeys ad)[unat (cfg_DefaultKeyId ad) := k\<lparr>TxTsc := INC_TX_TSC (TxTsc k) 3\<rparr>]\<rparr>)))))"
  have run: "do_PeerAuthRspAtSeq2Action e ad = Some r"
    unfolding r_def
      do_PeerAuthRspAtSeq2Action_def a prod.case b fr assms(4) option.case peer_seq2_def Let_def ad3_def[symmetric]
    using s assms(2) by (simp add: ad2_def ad3_def MLME_SUCCESS_def RTMPCancelTimer_def)
  have l: "length hdr = 24" "length iv = 4" using K by (simp_all add: hdr_def FC_Wep_def length_mgt_hdr iv_def length_iv_hdr k_def default_key_def)
  have f: "take 24 f = hdr" "drop 24 f = iv @ wep_cipher iv (cipher_key k) p" "length f - 24 = length p + 8" using l by (simp_all add: f_def)
  have pl: "length p = 136" by (simp add: p_def assms(3))
  have aw: "answers_with ad f p"
    unfolding answers_with_def f hdr_def[symmetric] k_def[symmetric]
    using decrypt_cipher[OF _ _ l(2), of _ "cipher_key k" p] K pl by (simp add: k_def default_key_def)
  have t: "take 3 iv = take 3 (INC_TX_TSC (TxTsc k) 3)"
    using K by (simp add: iv_def RTMPConstructWEPIVHdr_def LEN_WEP_IV_HDR_def LEN_WEP_TSC_def move_at_def take_update_cancel k_def default_key_def)
  have r: "Sent r = Sent ad @ [f]" "astate r = 2" "RunningTimer r = Some 300" "heap r = heap ad" "the_queue (core r) = the_queue (core ad)"
    "TxTsc (default_key r) = INC_TX_TSC (TxTsc k) 3"
    using K halt by (simp_all add: r_def os_free_mem_def wep_free_def auth_state_def upd_core_def set_auth_state_def RTMPSetTimer_def
      MiniportMMRequest_def ad3_def ad2_def RTMPCancelTimer_def default_key_def)
  show ?thesis using run aw r t l(2) f(2) unfolding p_def k_def by (intro exI[of _ r] exI[of _ f]) simp
qed

lemma take_INC_TX_TSC: "n \<le> length tsc \<Longrightarrow> 0 < n \<Longrightarrow> take n (INC_TX_TSC tsc n) = INC_TX_TSC (take n tsc) n"
proof (induction tsc n rule: INC_TX_TSC.induct)
  case (2 b tsc n)
  then show ?case by (cases n) auto
qed simp

lemma auth_cell:
  assumes "same_table (AuthMachine (Mlme (core ad))) (AuthStateMachineInit (replicate 9 Drop))" and "MsgType e < 3"
  shows "auth_message e ad = auth_perform
    ([MlmeAuthReqAction, Drop, Drop, InvalidStateWhenAuth, PeerAuthRspAtSeq2Action, AuthTimeoutAction,
      InvalidStateWhenAuth, PeerAuthRspAtSeq4Action, AuthTimeoutAction] ! (unat (astate ad) * 3 + unat (MsgType e))) e ad"
  using cell_in_table[OF assms(1), of "MsgType e"] assms(2) by (simp add: auth_message_def AuthStateMachineInit_table)

text \<open>
  \<^bold>\<open>C37\<close> Shared-key authentication answers a challenge correctly. When the station waits for the second message of a
  shared-key authentication and the access point sends a challenge \<open>ch\<close> with status 0, the machine sends one
  authentication frame, protected and addressed to the access point: decrypted with the shared key it carries sequence number 3, status 0
  and exactly the challenge text. Its initialisation vector is the transmit counter, which has advanced by one modulo \<open>2^24\<close>; the machine waits
  for the fourth message, the timer runs, and all memory is freed.
\<close>

theorem shared_key_response:
  assumes "key_ready ad" and "same_table (AuthMachine (Mlme (core ad))) (AuthStateMachineInit (replicate 9 Drop))"
    and "astate ad = 1" and "aux_Alg ad = AUTH_MODE_KEY" and "MsgType e = 1"
    and "Msg e = hd24 @ [1, 0, 2, 0, 0, 0, 16, 128] @ ch @ rest" and "length hd24 = 24" and "take 6 (drop 10 hd24) = aux_Bssid ad" and "length ch = 128"
  shows "\<exists>ad' f. auth_message e ad = Some ad' \<and> Sent ad' = Sent ad @ [f] \<and> answers_with ad f ([1, 0, 3, 0, 0, 0, 16, 128] @ ch)
    \<and> astate ad' = 2 \<and> RunningTimer ad' = Some 300 \<and> heap ad' = heap ad
    \<and> take 3 (drop 24 f) = take 3 (TxTsc (default_key ad'))
    \<and> le_value (take 3 (TxTsc (default_key ad'))) = (le_value (take 3 (TxTsc (default_key ad))) + 1) mod 2 ^ 24"
proof -
  have s: "PeerAuthSanity (Msg e) (fresh ad 0 CIPHER_TEXT_LEN) = Some (aux_Bssid ad, 1, 2, 0, ch)"
    using assms(7-9) unfolding assms(6) PeerAuthSanity_def
    by (simp add: nth_append le16_def auth_consts move_at_def)
  have m: "auth_message e ad = do_PeerAuthRspAtSeq2Action e ad"
    using auth_cell[OF assms(2), of e] assms(3,5) by (simp add: auth_perform_def)
  have t: "3 \<le> length (TxTsc (default_key ad))" using assms(1) by (simp add: key_ready_def Let_def default_key_def)
  have v: "le_value (take 3 (INC_TX_TSC (TxTsc (default_key ad)) 3)) = (le_value (take 3 (TxTsc (default_key ad))) + 1) mod 2 ^ 24"
    using take_INC_TX_TSC[OF t] inc_tsc_value[of "take 3 (TxTsc (default_key ad))" 3] t by simp
  have c: "challenge_text 1 3 ch = [1, 0, 3, 0, 0, 0, 16, 128] @ ch" by (simp add: challenge_text_def le16_bytes_def)
  show ?thesis
    using seq2_answers[OF assms(1) _ assms(9) s] assms(4) v unfolding m c by (auto simp: auth_consts)
qed

text \<open>
  \<^bold>\<open>C39\<close> A reply of the wrong kind makes the station send kernel memory. When the station waits for a challenge and receives a second message that names
  open authentication, with status 0, the check accepts it without storing a challenge. The station answers
  all the same, and the 128 bytes it encrypts and sends are the previous contents of the buffer that the allocator returned.
\<close>

theorem open_reply_sends_heap:
  assumes "key_ready ad" and "same_table (AuthMachine (Mlme (core ad))) (AuthStateMachineInit (replicate 9 Drop))"
    and "astate ad = 1" and "aux_Alg ad = AUTH_MODE_KEY" and "MsgType e = 1"
    and "Msg e = hd24 @ [0, 0, 2, 0, 0, 0] @ rest" and "length hd24 = 24" and "take 6 (drop 10 hd24) = aux_Bssid ad"
  shows "\<exists>ad' f. auth_message e ad = Some ad' \<and> Sent ad' = Sent ad @ [f] \<and> astate ad' = 2
    \<and> answers_with ad f ([0, 0, 3, 0, 0, 0, 16, 128] @ map (stale ad 0) [0..<128])"
proof -
  have s: "PeerAuthSanity (Msg e) (fresh ad 0 CIPHER_TEXT_LEN) = Some (aux_Bssid ad, 0, 2, 0, map (stale ad 0) [0..<128])"
    using assms(7,8) unfolding assms(6) PeerAuthSanity_def
    by (simp add: nth_append le16_def auth_consts fresh_def del: upt_rec_numeral)
  have m: "auth_message e ad = do_PeerAuthRspAtSeq2Action e ad"
    using auth_cell[OF assms(2), of e] assms(3,5) by (simp add: auth_perform_def)
  have c: "challenge_text 0 3 ch = [0, 0, 3, 0, 0, 0, 16, 128] @ ch" for ch by (simp add: challenge_text_def le16_bytes_def)
  have n: "aux_Alg ad \<noteq> AUTH_MODE_OPEN" using assms(4) by (simp add: auth_consts)
  show ?thesis
    using seq2_answers[OF assms(1) n _ s] unfolding m c length_map length_upt by (simp del: upt_rec_numeral) blast
qed

section \<open>The machine never waits without a time-out\<close>

definition pending :: "MLME_ADAPTER \<Rightarrow> bool" where
  "pending a \<longleftrightarrow> (AUTH_STATE_MACHINE, 2, [], 0) \<in> set (contents (the_queue a))"

definition core_ok :: "MLME_ADAPTER \<Rightarrow> bool" where
  "core_ok a \<longleftrightarrow> queue_wf (the_queue a) \<and> tables_ok a \<and> \<not> handler_stops a \<and> list_all deliverable (contents (the_queue a))"

definition auth_ok :: "AUTH_AD \<Rightarrow> bool" where
  "auth_ok ad \<longleftrightarrow> core_ok (core ad) \<and> \<not> bBlockAssoc ad
     \<and> unat (cfg_DefaultKeyId ad) < length (SharedKeys ad)
     \<and> list_all (\<lambda>k. unat (KeyLen (cipher_key k)) \<le> 13 \<and> 3 \<le> length (TxTsc k)) (SharedKeys ad)
     \<and> length (CurrentAddress ad) = 6 \<and> length (aux_Bssid ad) = 6"

definition auth_inv :: "AUTH_AD \<Rightarrow> bool" where
  "auth_inv ad \<longleftrightarrow> auth_ok ad \<and> (astate ad \<noteq> 0 \<longrightarrow> RunningTimer ad \<noteq> None \<or> pending (core ad))"

text \<open>\<open>good P\<close>: the invariant without the timer, and the time-out message is still queued if \<open>P\<close>.\<close>

definition good :: "bool \<Rightarrow> AUTH_AD \<Rightarrow> bool" where
  "good P ad \<longleftrightarrow> auth_ok ad \<and> (P \<longrightarrow> pending (core ad))"

definition core_good :: "bool \<Rightarrow> MLME_ADAPTER \<Rightarrow> bool" where
  "core_good P a \<longleftrightarrow> core_ok a \<and> (P \<longrightarrow> pending a)"

lemma good_core: "good P ad \<Longrightarrow> core_good P a \<Longrightarrow> good P (ad\<lparr>core := a\<rparr>)"
  by (simp add: good_def core_good_def auth_ok_def)

lemma goodD: "good P ad \<Longrightarrow> core_good P (core ad)"
  by (simp add: good_def core_good_def auth_ok_def)

lemma core_stops: "core_ok a \<Longrightarrow> \<not> halting a"
  by (auto simp: core_ok_def halting_def handler_stops_def RTMP_TEST_FLAG_def bit.conj_disj_distrib)

lemma cntl_deliverable: "deliverable (MLME_CNTL_STATE_MACHINE, x)"
  by (cases x) (simp add: deliverable_def addressed_def machine_defs)

lemma confirm_good: "core_good P a \<Longrightarrow> core_good P (confirm mt s a)"
  using confirm_contents[of a mt s]
  by (auto simp: core_good_def core_ok_def pending_def confirm_def MlmeEnqueue_frame cntl_deliverable)

lemma set_auth_good: "core_good P a \<Longrightarrow> n < 3 \<Longrightarrow> core_good P (set_auth_state n a)"
  using set_auth_tables[of a n]
  by (simp add: core_good_def core_ok_def pending_def set_auth_state_def handler_stops_def RTMP_TEST_FLAG_def)

lemma good_report: "good P ad \<Longrightarrow> good P (report mt s ad)"
  unfolding report_def upd_core_def by (intro good_core confirm_good goodD)

lemma good_auth_state: "good P ad \<Longrightarrow> n < 3 \<Longrightarrow> good P (auth_state n ad)"
  unfolding auth_state_def upd_core_def by (intro good_core set_auth_good goodD)

lemma good_fields:
  "good P ad \<Longrightarrow> good P (os_free_mem ad)" "good P ad \<Longrightarrow> good P (RTMPSetTimer v ad)" "good P ad \<Longrightarrow> good P (RTMPCancelTimer ad)"
  "good P ad \<Longrightarrow> good P (MiniportMMRequest f ad)" "good P ad \<Longrightarrow> good P (RTMPSendWirelessEvent w ad)" "good P ad \<Longrightarrow> good P (ad\<lparr>heap := h\<rparr>)"
  "good P ad \<Longrightarrow> good P (ad\<lparr>AuthFailReason := r, AuthFailSta := m\<rparr>)" "good P ad \<Longrightarrow> good P (ad\<lparr>DeauthReason := r, DeauthSta := m\<rparr>)"
  "good P ad \<Longrightarrow> length m = 6 \<Longrightarrow> good P (ad\<lparr>aux_Bssid := m, aux_Alg := g\<rparr>)"
  by (simp_all add: good_def auth_ok_def os_free_mem_def RTMPSetTimer_def RTMPCancelTimer_def MiniportMMRequest_def RTMPSendWirelessEvent_def)

lemma good_alloc: "good P ad \<Longrightarrow> os_alloc_mem ad = (ok, ad') \<Longrightarrow> good P ad' \<and> core ad' = core ad \<and> RunningTimer ad' = RunningTimer ad \<and> CurrentAddress ad' = CurrentAddress ad"
  by (auto simp: os_alloc_mem_def good_def auth_ok_def split: prod.splits)

lemmas good_intros = good_report good_auth_state good_fields

lemma report_simps [simp]:
  "astate (report mt s ad) = astate ad" "RunningTimer (report mt s ad) = RunningTimer ad"
  by (simp_all add: report_def upd_core_def confirm_def MlmeEnqueue_def upd_queue_def)

lemma astate_auth_state [simp]: "astate (auth_state n ad) = n" "RunningTimer (auth_state n ad) = RunningTimer ad"
  by (simp_all add: auth_state_def upd_core_def set_auth_state_def)

lemma field_simps_auth [simp]:
  "core (os_free_mem ad) = core ad" "RunningTimer (os_free_mem ad) = RunningTimer ad" "core (RTMPSetTimer v ad) = core ad"
  "core (RTMPCancelTimer ad) = core ad" "core (MiniportMMRequest f ad) = core ad" "RunningTimer (MiniportMMRequest f ad) = RunningTimer ad"
  "core (RTMPSendWirelessEvent w ad) = core ad" "RunningTimer (RTMPSendWirelessEvent w ad) = RunningTimer ad"
  by (simp_all add: os_free_mem_def RTMPSetTimer_def RTMPCancelTimer_def MiniportMMRequest_def RTMPSendWirelessEvent_def)

lemma timer_runs: "good P ad \<Longrightarrow> RunningTimer (RTMPSetTimer v ad) \<noteq> None"
  using core_stops[of "core ad"] by (simp add: RTMPSetTimer_def good_def auth_ok_def)

text \<open>The outcome of a handler: idle, waiting with the timer running, or nothing has changed.\<close>

definition settles :: "bool \<Rightarrow> AUTH_AD \<Rightarrow> AUTH_AD \<Rightarrow> bool" where
  "settles P ad ad' \<longleftrightarrow> good P ad' \<and> (astate ad' = 0 \<or> RunningTimer ad' \<noteq> None \<or> astate ad' = astate ad \<and> RunningTimer ad' = RunningTimer ad)"

lemma settles_idle: "good P ad' \<Longrightarrow> astate ad' = 0 \<Longrightarrow> settles P ad ad'"
  by (simp add: settles_def)

lemma settles_free: "settles P ad ad' \<Longrightarrow> settles P ad (os_free_mem ad')"
  by (simp add: settles_def good_fields(1))

lemma settles_from: "settles P b ad' \<Longrightarrow> core b = core ad \<Longrightarrow> RunningTimer b = RunningTimer ad \<Longrightarrow> settles P ad ad'"
  by (simp add: settles_def)

lemma encrypt_total:
  assumes "unat (KeyLen k) \<le> 13" and "n + 4 \<le> length d"
  shows "\<exists>ok d' h'. RTMPSoftEncryptWEP junk iv k d n h = Some (ok, d', h') \<and> length d' = length d"
proof -
  obtain ok h1 where a: "wep_alloc h = (ok, h1)" by (cases "wep_alloc h")
  obtain c h2 where i: "RTMPInitWepEngine iv (Key k) (KeyLen k) junk h1 = Some (c, h2)"
    using assms(1) by (cases "wep_alloc h1") (fastforce simp: RTMPInitWepEngine_def Let_def split: if_splits)
  show ?thesis using a i assms(2) by (auto simp: RTMPSoftEncryptWEP_def LEN_ICV_def Let_def le32_bytes_def)
qed

lemma answer_settles:
  assumes "good P ad" and "length ch = 128" and "length Addr2 = 6"
  shows "\<exists>ad'. answer_challenge Addr2 Alg Seq ch ad = Some ad' \<and> good P ad' \<and> (astate ad' = 0 \<or> RunningTimer ad' \<noteq> None)"
proof -
  obtain ok ad1 where a: "os_alloc_mem ad = (ok, ad1)" by (cases "os_alloc_mem ad")
  note g = good_alloc[OF assms(1) a]
  show ?thesis
  proof (cases ok)
    case False
    then show ?thesis using a g by (auto simp: answer_challenge_def intro!: good_intros)
  next
    case True
    define k where "k = SharedKeys ad1 ! unat (cfg_DefaultKeyId ad1)"
    define k1 where "k1 = k\<lparr>TxTsc := INC_TX_TSC (TxTsc k) LEN_WEP_TSC\<rparr>"
    define ad2 where "ad2 = ad1\<lparr>SharedKeys := (SharedKeys ad1)[unat (cfg_DefaultKeyId ad1) := k1]\<rparr>"
    define iv where "iv = RTMPConstructWEPIVHdr (cfg_DefaultKeyId ad1) (TxTsc k1)"
    define args where "args = [le16_bytes Alg, le16_bytes (Seq + 1), le16_bytes MLME_SUCCESS, [IE_CHALLENGE_TEXT], [of_nat CIPHER_TEXT_LEN], take CIPHER_TEXT_LEN ch]"
    define hdr where "hdr = FC_Wep (MgtMacHeaderInit ad1 SUBTYPE_AUTH 0 Addr2 (aux_Bssid ad1))"
    have n: "unat (cfg_DefaultKeyId ad1) < length (SharedKeys ad1)" using g by (simp add: good_def auth_ok_def)
    then have k: "unat (KeyLen (cipher_key k)) \<le> 13" "3 \<le> length (TxTsc k)" using g by (auto simp: good_def auth_ok_def k_def list_all_length)
    have g2: "good P ad2" using g k n unfolding ad2_def good_def auth_ok_def
      by (auto simp: k1_def list_all_length nth_list_update)
    have la: "length (concat args) = 136" using assms(2) by (simp add: args_def auth_consts)
    have m: "MakeOutgoingFrame (fresh ad2 1 (CIPHER_TEXT_LEN + 16)) args = Some (concat args @ drop 136 (fresh ad2 1 144), 136)"
      using MakeOutgoingFrame_concat[of args "fresh ad2 1 144"] assms(2) by (simp add: args_def auth_consts)
    obtain ok2 d h where e: "RTMPSoftEncryptWEP (arc4_junk ad2) iv (cipher_key k1) (concat args @ drop 136 (fresh ad2 1 144)) 136 (heap ad2) = Some (ok2, d, h)" "length d = 144"
      using encrypt_total[of "cipher_key k1" 136 "concat args @ drop 136 (fresh ad2 1 144)" "arc4_junk ad2" iv "heap ad2"] k la by (auto simp: k1_def)
    have "length (CurrentAddress ad1) = 6" "length (aux_Bssid ad1) = 6" using conjunct1[OF g] by (simp_all add: good_def auth_ok_def)
    then have lh: "length hdr = 24" using assms(3) by (simp add: hdr_def FC_Wep_def length_mgt_hdr)
    have li: "length iv = 4" using k by (simp add: iv_def k1_def length_iv_hdr)
    have s: "send_mgmt [hdr, iv, take (136 + LEN_ICV) d] (ad2\<lparr>heap := h\<rparr>) = Some (MiniportMMRequest (hdr @ iv @ take (136 + LEN_ICV) d) (ad2\<lparr>heap := h\<rparr>))"
      using send_mgmt_concat[of "[hdr, iv, take (136 + LEN_ICV) d]" "ad2\<lparr>heap := h\<rparr>"] lh li e(2) by (simp add: queue_consts LEN_ICV_def)
    define r where "r = (if \<not> ok2 then report MT2_AUTH_CONF MLME_FAIL_NO_RESOURCE (auth_state 0 (os_free_mem (ad2\<lparr>heap := h\<rparr>)))
      else auth_state 2 (RTMPSetTimer AUTH_TIMEOUT (os_free_mem (MiniportMMRequest (hdr @ iv @ take (136 + LEN_ICV) d) (ad2\<lparr>heap := h\<rparr>)))))"
    have "answer_challenge Addr2 Alg Seq ch ad = Some r"
      unfolding answer_challenge_def a prod.case Let_def k_def[symmetric] k1_def[symmetric] ad2_def[symmetric] hdr_def[symmetric] args_def[symmetric]
      using True n m e(1) s by (simp add: iv_def[symmetric] r_def ad2_def)
    moreover have "good P r \<and> (astate r = 0 \<or> RunningTimer r \<noteq> None)"
      using g2 timer_runs[of P "os_free_mem (MiniportMMRequest (hdr @ iv @ take (136 + LEN_ICV) d) (ad2\<lparr>heap := h\<rparr>))" AUTH_TIMEOUT]
      unfolding r_def by (auto intro!: good_intros)
    ultimately show ?thesis by blast
  qed
qed

lemma auth_sanity_lengths:
  assumes "PeerAuthSanity m ch0 = Some (Addr2, Alg, Seq, Status, ch)" and "length m = 1600" and "length ch0 = 128"
  shows "length Addr2 = 6" "length ch = 128"
  using assms by (auto simp: PeerAuthSanity_def Let_def auth_consts split: if_splits)

lemma seq2_settles:
  assumes "good P ad" and "length (Msg e) = 1600"
  shows "\<exists>ad'. do_PeerAuthRspAtSeq2Action e ad = Some ad' \<and> settles P ad ad'"
proof -
  obtain ok ad1 where a: "os_alloc_mem ad = (ok, ad1)" by (cases "os_alloc_mem ad")
  note g1 = good_alloc[OF assms(1) a]
  obtain ok2 ad2 where b: "os_alloc_mem ad1 = (ok2, ad2)" by (cases "os_alloc_mem ad1")
  note g2 = good_alloc[OF conjunct1[OF g1] b]
  have same: "settles P ad ad1" "settles P ad ad2" using g1 g2 by (simp_all add: settles_def)
  have p: "\<exists>x. peer_seq2 r ad2 = Some x \<and> settles P ad x" if "PeerAuthSanity (Msg e) (fresh ad2 0 CIPHER_TEXT_LEN) = Some r" for r
  proof -
    obtain Addr2 Alg Seq Status ch where r: "r = (Addr2, Alg, Seq, Status, ch)" by (cases r)
    have l: "length Addr2 = 6" "length ch = 128" using auth_sanity_lengths[OF that[unfolded r] assms(2)] by (simp_all add: auth_consts)
    have c: "good P (RTMPCancelTimer ad2)" using g2 by (intro good_intros) simp
    obtain x where x: "answer_challenge Addr2 Alg Seq ch (RTMPCancelTimer ad2) = Some x" "good P x" "astate x = 0 \<or> RunningTimer x \<noteq> None"
      using answer_settles[OF c l(2,1)] by blast
    have "settles P ad x" using x(2,3) by (auto simp: settles_def)
    then show ?thesis using x(1) c same
      by (auto simp: peer_seq2_def r Let_def intro!: settles_idle good_intros)
  qed
  show ?thesis
    using a b same p by (auto simp: do_PeerAuthRspAtSeq2Action_def settles_free split: option.splits)
qed

lemma seq4_settles:
  assumes "good P ad" and "length (Msg e) = 1600"
  shows "settles P ad (do_PeerAuthRspAtSeq4Action e ad)"
proof -
  obtain ok ad1 where a: "os_alloc_mem ad = (ok, ad1)" by (cases "os_alloc_mem ad")
  note g1 = good_alloc[OF assms(1) a]
  have same: "settles P ad ad1" using g1 by (simp add: settles_def)
  have c: "good P (RTMPCancelTimer ad1)" using g1 by (intro good_intros) simp
  have "settles P ad (peer_seq4 r ad1)" for r
    using c same by (cases r) (auto simp: peer_seq4_def Let_def intro!: settles_idle good_intros)
  then show ?thesis using a same by (auto simp: do_PeerAuthRspAtSeq4Action_def settles_free split: option.splits)
qed

lemma request_settles:
  assumes "good P ad" and "length (Msg e) = 1600"
  shows "\<exists>ad'. do_MlmeAuthReqAction e ad = Some ad' \<and> settles P ad ad'"
proof (cases "MlmeAuthReqSanity (Msg e)")
  case None
  have "\<not> bBlockAssoc ad" using assms(1) by (simp add: good_def auth_ok_def)
  then show ?thesis using None assms(1) by (auto simp: do_MlmeAuthReqAction_def AUTH_ReqSend_def intro!: settles_idle good_intros)
next
  case (Some r)
  obtain Addr T Alg where r: "r = (Addr, T, Alg)" by (cases r)
  have l: "length Addr = 6" using Some assms(2) by (auto simp: r MlmeAuthReqSanity_def Let_def split: if_splits)
  define ad0 where "ad0 = (RTMPCancelTimer ad)\<lparr>aux_Bssid := Addr, aux_Alg := Alg\<rparr>"
  have g0: "good P ad0" using assms(1) l unfolding ad0_def by (intro good_intros)
  obtain ok ad1 where a: "os_alloc_mem ad0 = (ok, ad1)" by (cases "os_alloc_mem ad0")
  note g1 = conjunct1[OF good_alloc[OF g0 a]]
  have al: "length (CurrentAddress ad1) = 6" "length (aux_Bssid ad1) = 6" "\<not> bBlockAssoc ad" using g1 assms(1) by (simp_all add: good_def auth_ok_def)
  define args where "args = [MgtMacHeaderInit ad1 SUBTYPE_AUTH 0 Addr (aux_Bssid ad1), le16_bytes Alg, le16_bytes 1, le16_bytes MLME_SUCCESS, []]"
  have s: "send_mgmt args ad1 = Some (MiniportMMRequest (concat args) ad1)"
    using al l by (intro send_mgmt_concat) (simp add: args_def length_mgt_hdr queue_consts)
  define x where "x = RTMPSetTimer T (os_free_mem (MiniportMMRequest (concat args) ad1))"
  have y: "good P (os_free_mem (MiniportMMRequest (concat args) ad1))" using g1 by (intro good_intros)
  have x: "good P x" "RunningTimer x \<noteq> None" unfolding x_def by (rule good_fields(2)[OF y], rule timer_runs[OF y])
  have run: "do_MlmeAuthReqAction e ad = Some (if ok then auth_state 1 x
      else report MT2_AUTH_CONF MLME_INVALID_FORMAT (auth_state 0 (report MT2_AUTH_CONF MLME_FAIL_NO_RESOURCE (auth_state 0 ad1))))"
    using al(3) Some a s by (auto simp: do_MlmeAuthReqAction_def AUTH_ReqSend_def r ad0_def[symmetric] args_def[symmetric] x_def)
  show ?thesis
    unfolding run using x g1 by (auto simp: settles_def intro!: good_intros)
qed

lemma action_settles:
  assumes "good P ad"
  shows "settles P ad (upd_core do_AuthTimeoutAction ad)" "settles P ad (upd_core do_InvalidStateWhenAuth ad)"
    "astate (upd_core do_AuthTimeoutAction ad) = 0" "astate (upd_core do_InvalidStateWhenAuth ad) = 0"
proof -
  have e: "upd_core do_AuthTimeoutAction ad = report 35 MLME_REJ_TIMEOUT (auth_state 0 ad)"
    "upd_core do_InvalidStateWhenAuth ad = report 35 MLME_STATE_MACHINE_REJECT (auth_state 0 ad)"
    by (simp_all add: upd_core_def report_def auth_state_def do_AuthTimeoutAction_def do_InvalidStateWhenAuth_def)
  then show "settles P ad (upd_core do_AuthTimeoutAction ad)" "settles P ad (upd_core do_InvalidStateWhenAuth ad)"
    "astate (upd_core do_AuthTimeoutAction ad) = 0" "astate (upd_core do_InvalidStateWhenAuth ad) = 0"
    using assms by (auto intro!: settles_idle good_intros)
qed

lemma auth_below_3: "tables_ok a \<Longrightarrow> CurrState (AuthMachine (Mlme a)) < 3"
  by (auto simp: tables_ok_def same_table_def AuthStateMachineInit_table)

lemma below_3: "x < 3 \<Longrightarrow> x = 0 \<or> x = 1 \<or> x = (2 :: ULONG)"
  by unat_arith

text \<open>Every message of the machine, in every state.\<close>

lemma message_settles:
  assumes "good P ad" and "length (Msg e) = 1600" and "MsgType e < 3"
  shows "\<exists>ad'. auth_message e ad = Some ad' \<and> settles P ad ad' \<and> (MsgType e = 2 \<longrightarrow> astate ad' = 0)"
proof -
  have t: "tables_ok (core ad)" using assms(1) by (simp add: good_def auth_ok_def core_ok_def)
  then have c: "auth_message e ad = auth_perform
    ([MlmeAuthReqAction, Drop, Drop, InvalidStateWhenAuth, PeerAuthRspAtSeq2Action, AuthTimeoutAction,
      InvalidStateWhenAuth, PeerAuthRspAtSeq4Action, AuthTimeoutAction] ! (unat (astate ad) * 3 + unat (MsgType e))) e ad"
    using assms(3) by (intro auth_cell) (simp_all add: tables_ok_def)
  have same: "settles P ad ad" using assms(1) by (simp add: settles_def)
  consider "astate ad = 0" | "astate ad = 1" | "astate ad = 2" using below_3[OF auth_below_3[OF t]] by blast
  then show ?thesis
    using below_3[OF assms(3)] c same request_settles[OF assms(1,2)] seq2_settles[OF assms(1,2)] seq4_settles[OF assms(1,2)] action_settles[OF assms(1)]
    by (cases; elim disjE; simp add: auth_perform_def)
qed

section \<open>Steps\<close>

lemma free_elem_view:
  "elems (the_queue (free_elem i a)) = map (\<lambda>k. if slot (the_queue a) k = i \<and> i < length (Entry (the_queue a))
     then (Entry (the_queue a) ! i)\<lparr>Occupied := False, MsgLen := 0\<rparr> else Entry (the_queue a) ! slot (the_queue a) k) [0..<unat (Num (the_queue a))]"
  by (cases "i < length (Entry (the_queue a))") (auto simp: elems_def free_elem_def slot_def nth_list_update list_update_beyond)

lemma free_elem_good:
  assumes "core_good P a" and "i < 40"
  shows "core_good P (free_elem i a)"
proof -
  let ?q = "the_queue a"
  have wf: "queue_wf ?q" using assms(1) by (simp add: core_good_def core_ok_def)
  have len: "length (Entry ?q) = 40" by (rule queue_wfD(1)[OF wf])
  have "e \<in> set (Entry ?q) \<or> e = (Entry ?q ! i)\<lparr>Occupied := False, MsgLen := 0\<rparr>"
    if "e \<in> set (Entry (the_queue (free_elem i a)))" for e
    using that set_update_subset_insert by (fastforce simp: free_elem_queue)
  then have "\<forall>e \<in> set (Entry (the_queue (free_elem i a))). length (Msg e) = 1600"
    using queue_wfD(6)[OF wf] wf_Msg[OF wf assms(2)] by fastforce
  then have w: "queue_wf (the_queue (free_elem i a))"
    using wf by (simp add: queue_wf_def free_elem_queue slot_def queue_consts)
  have v: "view (e\<lparr>Occupied := False, MsgLen := 0\<rparr>) = (Machine e, MsgType e, [], Priv e)" for e by (simp add: view_def)
  have dv: "deliverable (Machine e, MsgType e, [], Priv e) = deliverable (view e)" for e by (simp add: deliverable_def view_def)
  have d: "list_all deliverable (contents (the_queue (free_elem i a)))"
    using assms(1) unfolding contents_def free_elem_view core_good_def core_ok_def
    by (auto simp: list_all_iff elems_def v dv)
  have p: "pending (free_elem i a)" if pe: "pending a"
  proof -
    obtain k where k: "k < unat (Num ?q)" "view (Entry ?q ! slot ?q k) = (AUTH_STATE_MACHINE, 2, [], 0)"
      using pe by (auto simp: pending_def contents_def elems_def)
    then have "view (if slot ?q k = i \<and> i < length (Entry ?q) then (Entry ?q ! i)\<lparr>Occupied := False, MsgLen := 0\<rparr> else Entry ?q ! slot ?q k)
        = (AUTH_STATE_MACHINE, 2, [], 0)"
      by (auto simp: v) (simp_all add: view_def)
    then show ?thesis using k(1) unfolding pending_def contents_def free_elem_view by force
  qed
  have "tables_ok (free_elem i a) = tables_ok a" "handler_stops (free_elem i a) = handler_stops a"
    by (simp_all add: free_elem_def upd_queue_def tables_ok_def handler_stops_def RTMP_TEST_FLAG_def)
  then show ?thesis using assms(1) w d p by (simp add: core_good_def core_ok_def)
qed

lemma enqueue_good:
  assumes "core_good P a" and "MlmeEnqueue mach mt len (Some p) prv a = (True, b)" and "deliverable (mach, mt, map p [0..<unat len], prv)"
  shows "core_good P b"
proof -
  have wf: "queue_wf (the_queue a)" using assms(1) by (simp add: core_good_def core_ok_def)
  have adm: "admitted (Post mach mt len p prv) a"
    using post_refused[OF wf, of "Post mach mt len p prv"] assms(2) by auto
  obtain b' where "MlmeEnqueue mach mt len (Some p) prv a = (True, b')" "queue_wf (the_queue b')"
    "contents (the_queue b') = contents (the_queue a) @ [(mach, mt, map p [0..<unat len], prv)]"
    using MlmeEnqueue_admitted[OF wf adm] by blast
  then show ?thesis
    using assms MlmeEnqueue_frame[of mach mt len "Some p" prv a] by (simp add: core_good_def core_ok_def pending_def)
qed

lemma frame_deliverable: "MsgTypeSubst p (0xff, 0) = Some (mach, mt) \<Longrightarrow> deliverable (mach, mt, x)"
proof (erule MsgTypeSubst_cases)
  assume "mach = ACTION_STATE_MACHINE" "unat mt \<in> set (23 # [0..<18])"
  then show ?thesis by (auto simp: deliverable_def addressed_def machine_defs word_less_nat_alt)
qed (auto simp: deliverable_def addressed_def machine_defs word_less_nat_alt)

lemma recv_good:
  assumes "core_good P a" and "MlmeEnqueueForRecv i len p a = (True, b)"
  shows "core_good P b" "AuthMachine (Mlme b) = AuthMachine (Mlme a)"
proof -
  have wf: "queue_wf (the_queue a)" using assms(1) by (simp add: core_good_def core_ok_def)
  have adm: "admitted (Frame i len p) a" using post_refused[OF wf, of "Frame i len p"] assms(2) by auto
  then obtain mach mt where m: "MsgTypeSubst p (0xff, 0) = Some (mach, mt)" by auto
  obtain b' where b: "MlmeEnqueueForRecv i len p a = (True, b')" "queue_wf (the_queue b')"
    "contents (the_queue b') = contents (the_queue a) @ [posted (Frame i len p)]"
    using MlmeEnqueueForRecv_admitted[OF wf adm] by blast
  have "b = log_ev MlmeTaskUp (upd_queue (queue_put (fill_recv i len p (mach, mt) (LatchChannel a))) a)"
    using assms(2) m by (auto simp: MlmeEnqueueForRecv_def split: if_splits)
  then have "tables_ok b = tables_ok a" "handler_stops b = handler_stops a" "AuthMachine (Mlme b) = AuthMachine (Mlme a)"
    by (simp_all add: tables_ok_def handler_stops_def RTMP_TEST_FLAG_def log_ev_def upd_queue_def)
  then show "core_good P b" "AuthMachine (Mlme b) = AuthMachine (Mlme a)"
    using assms b m frame_deliverable[OF m] by (simp_all add: core_good_def core_ok_def pending_def)
qed

lemma request_machine: "MlmeEnqueue mach mt len p prv a = (True, b) \<Longrightarrow> AuthMachine (Mlme b) = AuthMachine (Mlme a)"
  by (auto simp: MlmeEnqueue_def upd_queue_def split: if_splits)

lemma timeout_good:
  assumes "core_ok a" and "unat (Num (the_queue a)) < 40"
  shows "core_good True (log_ev MlmeTaskUp (snd (MlmeEnqueue AUTH_STATE_MACHINE 2 0 None 0 a)))"
proof -
  let ?b = "upd_queue (queue_put (fill_local AUTH_STATE_MACHINE 2 0 None 0)) a"
  have wf: "queue_wf (the_queue a)" using assms(1) by (simp add: core_ok_def)
  have e: "snd (MlmeEnqueue AUTH_STATE_MACHINE 2 0 None 0 a) = ?b"
    using core_stops[OF assms(1)] full_local[OF wf] assms(2) by (simp add: MlmeEnqueue_def halting_def queue_consts)
  have "queue_wf (the_queue ?b)" using wf assms(2) by (auto simp: fill_local_def copy_msg_def intro!: queue_put_wf)
  moreover have "contents (the_queue ?b) = contents (the_queue a) @ [(AUTH_STATE_MACHINE, 2, [], 0)]"
    using elems_put[OF wf assms(2)] by (simp add: contents_def view_def fill_local_def)
  moreover have "tables_ok (log_ev MlmeTaskUp ?b) = tables_ok a" "handler_stops (log_ev MlmeTaskUp ?b) = handler_stops a"
    by (simp_all add: tables_ok_def handler_stops_def RTMP_TEST_FLAG_def log_ev_def upd_queue_def)
  ultimately show ?thesis unfolding e using assms(1)
    by (simp add: core_good_def core_ok_def pending_def deliverable_def addressed_def machine_defs)
qed

lemma expire_good:
  assumes "auth_ok ad" and "unat (Num (the_queue (core ad))) < 40"
  shows "\<exists>ad'. AuthTimeoutFunction (ad\<lparr>RunningTimer := None\<rparr>) = Some ad' \<and> good True ad'"
proof -
  define ad0 where "ad0 = ad\<lparr>RunningTimer := None\<rparr>"
  have g0: "good False ad0" using assms(1) by (simp add: good_def auth_ok_def ad0_def)
  have h: "\<not> halting (core ad0)" using assms(1) core_stops by (simp add: auth_ok_def ad0_def)
  have "\<exists>b. (if CurrState (AuthMachine (Mlme (core ad0))) = 1 then Cls2errAction (aux_Bssid ad0) ad0 else Some ad0) = Some b \<and> good False b \<and> core b = core ad0"
  proof (cases "CurrState (AuthMachine (Mlme (core ad0))) = 1")
    case True
    obtain ok ad1 where a: "os_alloc_mem ad0 = (ok, ad1)" by (cases "os_alloc_mem ad0")
    note g1 = good_alloc[OF g0 a]
    have l: "length (CurrentAddress ad1) = 6" "length (aux_Bssid ad1) = 6" "length (aux_Bssid ad0) = 6"
      using conjunct1[OF g1] g0 by (simp_all add: good_def auth_ok_def)
    define args where "args = [MgtMacHeaderInit ad1 SUBTYPE_DEAUTH 0 (aux_Bssid ad0) (aux_Bssid ad1), le16_bytes REASON_CLS2ERR]"
    have s: "send_mgmt args ad1 = Some (MiniportMMRequest (concat args) ad1)"
      using l by (intro send_mgmt_concat) (simp add: args_def length_mgt_hdr queue_consts)
    show ?thesis using True a s g1
      by (auto simp: Cls2errAction_def args_def[symmetric] intro!: good_intros)
  qed (use g0 in simp)
  then obtain b where b: "(if CurrState (AuthMachine (Mlme (core ad0))) = 1 then Cls2errAction (aux_Bssid ad0) ad0 else Some ad0) = Some b" "good False b" "core b = core ad"
    by (auto simp: ad0_def)
  have "core_good True (log_ev MlmeTaskUp (snd (MlmeEnqueue AUTH_STATE_MACHINE 2 0 None 0 (core b))))"
    using assms b(3) by (intro timeout_good) (simp_all add: auth_ok_def)
  then have "good True (upd_core (\<lambda>a. log_ev MlmeTaskUp (snd (MlmeEnqueue AUTH_STATE_MACHINE 2 0 None 0 a))) b)"
    using b(2) by (simp add: good_def core_good_def auth_ok_def upd_core_def)
  then show ?thesis using b(1) h unfolding AuthTimeoutFunction_def ad0_def[symmetric] by simp
qed

lemma freed_inv:
  assumes "good P x" and "astate x = 0 \<or> RunningTimer x \<noteq> None \<or> P" and "i < 40"
  shows "auth_inv (upd_core (free_elem i) x)"
proof -
  have "core_good P (free_elem i (core x))" using assms(1,3) by (intro free_elem_good goodD)
  then have "good P (upd_core (free_elem i) x)" using assms(1) unfolding upd_core_def by (rule good_core[rotated])
  moreover have "astate (upd_core (free_elem i) x) = astate x" "RunningTimer (upd_core (free_elem i) x) = RunningTimer x"
    by (simp_all add: upd_core_def free_elem_def upd_queue_def)
  ultimately show ?thesis using assms(2) by (auto simp: auth_inv_def good_def)
qed

lemma task_keeps_inv:
  assumes "auth_inv ad" and "0 < unat (Num (the_queue (core ad)))"
  shows "\<exists>ad'. auth_task ad = Some ad' \<and> auth_inv ad'"
proof -
  have wf: "queue_wf (the_queue (core ad))" and ok: "auth_ok ad" and tb: "tables_ok (core ad)"
    using assms(1) by (simp_all add: auth_inv_def auth_ok_def core_ok_def)
  obtain m ms where c: "contents (the_queue (core ad)) = m # ms"
    using assms(2) length_contents[of "the_queue (core ad)"] by (cases "contents (the_queue (core ad))") auto
  obtain i q where q: "MlmeDequeue (the_queue (core ad)) = (i, q)" "queue_wf q" "contents q = ms" "view (Entry q ! i) = m" "i < 40"
    using dequeue_head[OF wf c] by metis
  define e where "e = Entry q ! i"
  define ad1 where "ad1 = upd_core (upd_queue (\<lambda>_. q)) ad"
  define P where "P \<longleftrightarrow> pending (core ad1)"
  have dl: "list_all deliverable (m # ms)" using ok c by (simp add: auth_ok_def core_ok_def)
  have g1: "good P ad1"
    using ok q(2,3) dl unfolding P_def good_def auth_ok_def core_ok_def ad1_def upd_core_def
    by (simp add: tables_ok_def handler_stops_def RTMP_TEST_FLAG_def) (simp add: upd_queue_def)
  have s1: "astate ad1 = astate ad" "RunningTimer ad1 = RunningTimer ad" by (simp_all add: ad1_def upd_core_def upd_queue_def)
  have pd: "pending (core ad) \<Longrightarrow> m = (AUTH_STATE_MACHINE, 2, [], 0) \<or> P"
    using c q(3) by (auto simp: P_def pending_def ad1_def upd_core_def)
  have e: "Machine e = fst m" "MsgType e = fst (snd m)" "length (Msg e) = 1600" using q by (auto simp: e_def view_def)
  note fin = freed_inv[OF _ _ q(5), of P]
  consider (reset) "MsgType e = MT2_RESET_CONF" | (auth) "MsgType e \<noteq> MT2_RESET_CONF" "Machine e = AUTH_STATE_MACHINE"
    | (other) "MsgType e \<noteq> MT2_RESET_CONF" "Machine e \<noteq> AUTH_STATE_MACHINE" by blast
  then show ?thesis
  proof cases
    case reset
    let ?r = "upd_core MlmeRestartStateMachine (RTMPCancelTimer ad1)"
    have "good P ?r" using g1 MlmeRestart_keeps[of "core ad1"]
      by (simp add: good_def auth_ok_def core_ok_def pending_def upd_core_def RTMPCancelTimer_def)
    moreover have "astate ?r = 0" by (simp add: upd_core_def MlmeRestartStateMachine_def Let_def)
    ultimately have "auth_inv (upd_core (free_elem i) ?r)" using fin by blast
    then show ?thesis using reset q(1) by (simp add: auth_task_def e_def ad1_def upd_core_def comp_def)
  next
    case auth
    have "MsgType e < 3" using dl e auth by (simp add: deliverable_def addressed_def machine_defs)
    then obtain x where x: "auth_message e ad1 = Some x" "settles P ad1 x" "MsgType e = 2 \<longrightarrow> astate x = 0"
      using message_settles[OF g1 e(3)] by blast
    have "astate x = 0 \<or> RunningTimer x \<noteq> None \<or> P"
      using x(2,3) assms(1) pd e s1 by (auto simp: settles_def auth_inv_def)
    then have "auth_inv (upd_core (free_elem i) x)" using fin x(2) by (simp add: settles_def)
    then show ?thesis using auth q(1) x(1) by (simp add: auth_task_def Let_def e_def ad1_def)
  next
    case other
    have "astate ad1 = 0 \<or> RunningTimer ad1 \<noteq> None \<or> P" using assms(1) pd e other s1 by (auto simp: auth_inv_def)
    then have "auth_inv (upd_core (free_elem i) ad1)" using fin g1 by blast
    then show ?thesis using other q(1) by (simp add: auth_task_def Let_def e_def ad1_def)
  qed
qed

lemma inv_core:
  assumes "auth_inv ad" and "\<And>P. core_good P (core ad) \<Longrightarrow> core_good P a" and "AuthMachine (Mlme a) = AuthMachine (Mlme (core ad))"
  shows "auth_inv (ad\<lparr>core := a\<rparr>)"
  using assms(1,3) assms(2)[of "pending (core ad)"] by (auto simp: auth_inv_def auth_ok_def core_good_def)

lemma step_keeps_inv:
  assumes "auth_step ad ad'" and "auth_inv ad"
  shows "auth_inv ad'"
  using assms
proof cases
  case (request mach mt p len prv a)
  then show ?thesis using assms(2) enqueue_good request_machine by (auto intro!: inv_core)
next
  case (frame i len p a)
  have "core_good False (core ad)" using assms(2) by (simp add: core_good_def auth_inv_def auth_ok_def)
  from recv_good(2)[OF this frame(2)] show ?thesis unfolding frame(1) using assms(2) recv_good(1)[OF _ frame(2)] by (intro inv_core)
next
  case task
  then show ?thesis using task_keeps_inv[OF assms(2)] by auto
next
  case (expire v)
  then have "good True ad'" using expire_good[of ad] assms(2) by (auto simp: auth_inv_def queue_consts)
  then show ?thesis by (simp add: auth_inv_def good_def)
qed


section \<open>Requests during a block period\<close>

lemma report_contents:
  assumes "core_ok (core ad)" and "length (contents (the_queue (core ad))) < 40"
  shows "contents (the_queue (core (report mt s ad))) = contents (the_queue (core ad)) @ [(MLME_CNTL_STATE_MACHINE, mt, [ucast s, ucast (drop_bit 8 s)], 0)]"
    and "core_ok (core (report mt s ad))"
proof -
  have "core_good False (core ad)" using assms(1) by (simp add: core_good_def)
  from confirm_good[OF this] show "core_ok (core (report mt s ad))" by (simp add: core_good_def report_def upd_core_def)
  show "contents (the_queue (core (report mt s ad))) = contents (the_queue (core ad)) @ [(MLME_CNTL_STATE_MACHINE, mt, [ucast s, ucast (drop_bit 8 s)], 0)]"
    using confirm_contents(2)[of "core ad" mt s] assms by (simp add: core_ok_def report_def upd_core_def)
qed

lemma auth_state_core:
  assumes "core_ok (core ad)" and "n < 3"
  shows "core_ok (core (auth_state n ad))" "the_queue (core (auth_state n ad)) = the_queue (core ad)"
proof -
  have "core_good False (core ad)" using assms(1) by (simp add: core_good_def)
  from set_auth_good[OF this assms(2)] show "core_ok (core (auth_state n ad))" by (simp add: core_good_def auth_state_def upd_core_def)
qed (simp add: auth_state_def upd_core_def set_auth_state_def)

lemma Sent_simps [simp]: "Sent (report mt s ad) = Sent ad" "Sent (auth_state n ad) = Sent ad"
  by (simp_all add: report_def auth_state_def upd_core_def)

lemma invalid_state_rejects:
  assumes "core_ok (core ad)" and "length (contents (the_queue (core ad))) < 40" and "astate ad = 1" and "MsgType e = 0"
  shows "\<exists>ad'. auth_message e ad = Some ad' \<and> astate ad' = 0 \<and> Sent ad' = Sent ad
    \<and> contents (the_queue (core ad')) = contents (the_queue (core ad)) @ [(MLME_CNTL_STATE_MACHINE, 35, [0x53, 0], 0)]"
proof -
  have "auth_message e ad = Some (report 35 MLME_STATE_MACHINE_REJECT (auth_state 0 ad))"
    using auth_cell[of ad e] assms by (simp add: core_ok_def tables_ok_def auth_perform_def upd_core_def report_def auth_state_def do_InvalidStateWhenAuth_def)
  then show ?thesis
    using report_contents(1)[of "auth_state 0 ad" 35 MLME_STATE_MACHINE_REJECT] auth_state_core[OF assms(1), of 0] assms(2)
    by (simp add: MLME_STATE_MACHINE_REJECT_def)
qed

text \<open>
  \<^bold>\<open>C40\<close> A request during the block period leaves the machine waiting for an answer to nothing. It is reported as rejected and no frame is sent, but since
  \<^verbatim>\<open>AUTH_ReqSend\<close> returns TRUE the machine goes on to wait for the second message, without a timer; the first request after the
  block period is then rejected as well.
\<close>

theorem blocked_request_waits:
  assumes "core_ok (core ad)" and "bBlockAssoc ad" and "astate ad = 0" and "RunningTimer ad = None" and "MsgType e = 0" and "MsgType e' = 0"
    and "length (contents (the_queue (core ad))) < 39"
  shows "\<exists>ad' ad''. auth_message e ad = Some ad' \<and> astate ad' = 1 \<and> RunningTimer ad' = None \<and> Sent ad' = Sent ad
    \<and> contents (the_queue (core ad')) = contents (the_queue (core ad)) @ [(MLME_CNTL_STATE_MACHINE, 35, [0x53, 0], 0)]
    \<and> auth_message e' (ad'\<lparr>bBlockAssoc := False\<rparr>) = Some ad'' \<and> astate ad'' = 0 \<and> Sent ad'' = Sent ad
    \<and> contents (the_queue (core ad'')) = contents (the_queue (core ad')) @ [(MLME_CNTL_STATE_MACHINE, 35, [0x53, 0], 0)]"
proof -
  define r where "r = report MT2_AUTH_CONF MLME_STATE_MACHINE_REJECT (auth_state 0 ad)"
  have run: "auth_message e ad = Some (auth_state 1 r)"
    using auth_cell[of ad e] assms by (simp add: core_ok_def tables_ok_def auth_perform_def do_MlmeAuthReqAction_def AUTH_ReqSend_def r_def)
  note a0 = auth_state_core[OF assms(1), of 0]
  have r: "core_ok (core r)" "contents (the_queue (core r)) = contents (the_queue (core ad)) @ [(MLME_CNTL_STATE_MACHINE, 35, [0x53, 0], 0)]"
    using report_contents[of "auth_state 0 ad" MT2_AUTH_CONF MLME_STATE_MACHINE_REJECT] a0 assms(7)
    by (simp_all add: r_def MT2_AUTH_CONF_def MLME_STATE_MACHINE_REJECT_def)
  define ad' where "ad' = auth_state 1 r"
  have a1: "core_ok (core ad')" "the_queue (core ad') = the_queue (core r)" using auth_state_core[OF r(1), of 1] by (simp_all add: ad'_def)
  have "length (contents (the_queue (core ad'))) < 40" using r(2) a1(2) assms(7) by (simp del: length_contents)
  then obtain ad'' where "auth_message e' (ad'\<lparr>bBlockAssoc := False\<rparr>) = Some ad''" "astate ad'' = 0" "Sent ad'' = Sent ad'"
    "contents (the_queue (core ad'')) = contents (the_queue (core ad')) @ [(MLME_CNTL_STATE_MACHINE, 35, [0x53, 0], 0)]"
    using invalid_state_rejects[of "ad'\<lparr>bBlockAssoc := False\<rparr>" e'] a1(1) assms(6) by (auto simp: ad'_def)
  then show ?thesis
    using run r(2) a1(2) assms(4) by (intro exI[of _ ad'] exI[of _ ad'']) (simp add: ad'_def r_def)
qed

section \<open>Witnesses\<close>

definition ex_auth :: AUTH_AD where
  "ex_auth = \<lparr>core = init_mlme, CurrentAddress = replicate 6 2, aux_Bssid = replicate 6 4, aux_Alg = 1, bBlockAssoc = False, cfg_DefaultKeyId = 0,
     SharedKeys = [\<lparr>cipher_key = ex_key, TxTsc = replicate 16 0\<rparr>], AuthFailReason = 0, AuthFailSta = replicate 6 0, DeauthReason = 0,
     DeauthSta = replicate 6 0, RunningTimer = None, heap = ex_mem, stale = (\<lambda>_ _. 0), arc4_junk = ex_ctx, Sent = [], IwEvents = []\<rparr>"

definition ex_wait :: AUTH_AD where
  "ex_wait = auth_state 1 ex_auth"

definition auth_elem :: "bytes \<Rightarrow> MLME_QUEUE_ELEM" where
  "auth_elem b = zero_elem\<lparr>MsgType := 1, Msg := (replicate 10 0 @ replicate 6 4 @ replicate 8 0) @ b\<rparr>"

lemma ex_core: "core_ok init_mlme"
  by (simp add: core_ok_def init_mlme_facts zero_queue_wf zero_contents)

lemma ex_idle: "CurrState (AuthMachine (Mlme init_mlme)) = 0"
  by (simp add: init_mlme_def MlmeInit_def zero_arrays_def AuthStateMachineInit_table)

lemma ex_wait_facts: "key_ready ex_wait" "same_table (AuthMachine (Mlme (core ex_wait))) (AuthStateMachineInit (replicate 9 Drop))"
  "astate ex_wait = 1" "aux_Alg ex_wait = AUTH_MODE_KEY" "aux_Bssid ex_wait = replicate 6 4"
proof -
  have c: "core_ok (core ex_wait)" unfolding ex_wait_def by (rule auth_state_core(1)) (simp_all add: ex_auth_def ex_core)
  from core_stops[OF c] show "key_ready ex_wait"
    by (simp add: key_ready_def Let_def ex_key_ok) (simp add: ex_wait_def auth_state_def upd_core_def ex_auth_def ex_mem_def ex_key_ok)
  show "same_table (AuthMachine (Mlme (core ex_wait))) (AuthStateMachineInit (replicate 9 Drop))" using c by (simp add: core_ok_def tables_ok_def)
qed (simp_all add: ex_wait_def auth_state_def upd_core_def ex_auth_def set_auth_state_def auth_consts)

theorem shared_key_response_witness:
  "\<exists>ad' f. auth_message (auth_elem ([1, 0, 2, 0, 0, 0, 16, 128] @ replicate 128 7 @ replicate 1440 0)) ex_wait = Some ad'
    \<and> Sent ad' = Sent ex_wait @ [f] \<and> answers_with ex_wait f ([1, 0, 3, 0, 0, 0, 16, 128] @ replicate 128 7) \<and> astate ad' = 2"
proof -
  have "take 6 (drop 10 (replicate 10 0 @ replicate 6 4 @ replicate 8 0)) = aux_Bssid ex_wait"
    "length (replicate 10 0 @ replicate 6 4 @ replicate 8 0 :: bytes) = 24"
    by (simp_all add: ex_wait_facts(5))
  moreover have "MsgType (auth_elem b) = 1" "Msg (auth_elem b) = (replicate 10 0 @ replicate 6 4 @ replicate 8 0) @ b" for b
    by (simp_all add: auth_elem_def)
  ultimately show ?thesis
    using shared_key_response[OF ex_wait_facts(1-4), of "auth_elem ([1, 0, 2, 0, 0, 0, 16, 128] @ replicate 128 7 @ replicate 1440 0)"
        "replicate 10 0 @ replicate 6 4 @ replicate 8 0" "replicate 128 7" "replicate 1440 0"]
    by fastforce
qed

theorem open_reply_sends_heap_witness:
  "\<exists>ad' f. auth_message (auth_elem ([0, 0, 2, 0, 0, 0] @ replicate 1570 0)) ex_wait = Some ad'
    \<and> Sent ad' = Sent ex_wait @ [f] \<and> astate ad' = 2 \<and> answers_with ex_wait f ([0, 0, 3, 0, 0, 0, 16, 128] @ map (stale ex_wait 0) [0..<128])"
proof -
  have "take 6 (drop 10 (replicate 10 0 @ replicate 6 4 @ replicate 8 0)) = aux_Bssid ex_wait"
    "length (replicate 10 0 @ replicate 6 4 @ replicate 8 0 :: bytes) = 24"
    by (simp_all add: ex_wait_facts(5))
  moreover have "MsgType (auth_elem b) = 1" "Msg (auth_elem b) = (replicate 10 0 @ replicate 6 4 @ replicate 8 0) @ b" for b
    by (simp_all add: auth_elem_def)
  ultimately show ?thesis
    using open_reply_sends_heap[OF ex_wait_facts(1-4), of "auth_elem ([0, 0, 2, 0, 0, 0] @ replicate 1570 0)"
        "replicate 10 0 @ replicate 6 4 @ replicate 8 0" "replicate 1570 0"] by blast
qed


theorem blocked_request_waits_witness:
  "\<exists>ad'. auth_message zero_elem (ex_auth\<lparr>bBlockAssoc := True\<rparr>) = Some ad' \<and> astate ad' = 1 \<and> RunningTimer ad' = None \<and> Sent ad' = []"
proof -
  have "core_ok (core (ex_auth\<lparr>bBlockAssoc := True\<rparr>))" "astate (ex_auth\<lparr>bBlockAssoc := True\<rparr>) = 0" "RunningTimer (ex_auth\<lparr>bBlockAssoc := True\<rparr>) = None"
    "contents (the_queue (core (ex_auth\<lparr>bBlockAssoc := True\<rparr>))) = []" "Sent (ex_auth\<lparr>bBlockAssoc := True\<rparr>) = []"
    by (simp_all add: ex_auth_def ex_core ex_idle init_mlme_facts zero_contents)
  then show ?thesis using blocked_request_waits[of "ex_auth\<lparr>bBlockAssoc := True\<rparr>" zero_elem zero_elem] by (auto simp: zero_elem_def simp del: length_contents)
qed

end
