(* ===== verification/Bss_Entry.thy ===== *)
theory Bss_Entry
  imports Driver_Prelude "HOL-Library.Monad_Syntax"
begin

text \<open>
  An entry of the table of access points (\<^verbatim>\<open>BSS_ENTRY\<close> of \<^verbatim>\<open>include/mlme.h\<close>) and the two functions of
  \<^verbatim>\<open>common/mlme.c\<close> that fill it from a beacon or probe response: \<^verbatim>\<open>BssEntrySet\<close> and the parser of the
  security elements, \<^verbatim>\<open>BssCipherParse\<close>.

  \<^item> Arrays are lists of their C length. \<open>rd\<close> reads a byte of an array; a read or a move outside an array is \<open>None\<close>.
  \<^item> The capability structures (\<^verbatim>\<open>HT_CAPABILITY_IE\<close>, \<^verbatim>\<open>ADD_HT_INFO_IE\<close>, \<^verbatim>\<open>VHT_CAP_IE\<close>, \<^verbatim>\<open>VHT_OP_IE\<close>) are
    their bytes, since the code fills them by a move of a received length. The QoS structures are their
    \<open>bValid\<close> flag and the remaining bytes.
  \<^item> The clock (\<^verbatim>\<open>NdisGetSystemUpTime\<close>) is the argument \<open>now\<close>.
  \<^item> The build options are those of \<^verbatim>\<open>os/linux/config.mk\<close>: station, 802.11n and 802.11ac, cfg80211 (and with it
    \<^verbatim>\<open>EXT_BUILD_CHANNEL_LIST\<close>), no access-point client. Fields that no modelled function touches are left out.
\<close>

section \<open>Enumerations\<close>

datatype NDIS_802_11_WEP_STATUS =
    Ndis802_11WEPEnabled | Ndis802_11WEPDisabled | Ndis802_11WEPKeyAbsent | Ndis802_11WEPNotSupported
  | Ndis802_11Encryption2Enabled | Ndis802_11Encryption2KeyAbsent | Ndis802_11Encryption3Enabled
  | Ndis802_11Encryption3KeyAbsent | Ndis802_11Encryption4Enabled | Ndis802_11Encryption4KeyAbsent
  | Ndis802_11GroupWEP40Enabled | Ndis802_11GroupWEP104Enabled

datatype NDIS_802_11_AUTHENTICATION_MODE =
    Ndis802_11AuthModeOpen | Ndis802_11AuthModeShared | Ndis802_11AuthModeAutoSwitch | Ndis802_11AuthModeWPA
  | Ndis802_11AuthModeWPAPSK | Ndis802_11AuthModeWPANone | Ndis802_11AuthModeWPA2 | Ndis802_11AuthModeWPA2PSK
  | Ndis802_11AuthModeWPA1WPA2 | Ndis802_11AuthModeWPA1PSKWPA2PSK | Ndis802_11AuthModeMax

abbreviation Ndis802_11Encryption1Enabled :: NDIS_802_11_WEP_STATUS where
  "Ndis802_11Encryption1Enabled \<equiv> Ndis802_11WEPEnabled"

text \<open>The value of an enumeration constant, and the order that the code compares by.\<close>

primrec enc_code :: "NDIS_802_11_WEP_STATUS \<Rightarrow> nat" where
  "enc_code Ndis802_11WEPEnabled = 0"
| "enc_code Ndis802_11WEPDisabled = 1"
| "enc_code Ndis802_11WEPKeyAbsent = 2"
| "enc_code Ndis802_11WEPNotSupported = 3"
| "enc_code Ndis802_11Encryption2Enabled = 4"
| "enc_code Ndis802_11Encryption2KeyAbsent = 5"
| "enc_code Ndis802_11Encryption3Enabled = 6"
| "enc_code Ndis802_11Encryption3KeyAbsent = 7"
| "enc_code Ndis802_11Encryption4Enabled = 8"
| "enc_code Ndis802_11Encryption4KeyAbsent = 9"
| "enc_code Ndis802_11GroupWEP40Enabled = 10"
| "enc_code Ndis802_11GroupWEP104Enabled = 11"

primrec auth_code :: "NDIS_802_11_AUTHENTICATION_MODE \<Rightarrow> nat" where
  "auth_code Ndis802_11AuthModeOpen = 0"
| "auth_code Ndis802_11AuthModeShared = 1"
| "auth_code Ndis802_11AuthModeAutoSwitch = 2"
| "auth_code Ndis802_11AuthModeWPA = 3"
| "auth_code Ndis802_11AuthModeWPAPSK = 4"
| "auth_code Ndis802_11AuthModeWPANone = 5"
| "auth_code Ndis802_11AuthModeWPA2 = 6"
| "auth_code Ndis802_11AuthModeWPA2PSK = 7"
| "auth_code Ndis802_11AuthModeWPA1WPA2 = 8"
| "auth_code Ndis802_11AuthModeWPA1PSKWPA2PSK = 9"
| "auth_code Ndis802_11AuthModeMax = 10"

lemma enc_code_inj: "enc_code x = enc_code y \<longleftrightarrow> x = y"
  by (cases x; cases y; simp)

lemma auth_code_inj: "auth_code x = auth_code y \<longleftrightarrow> x = y"
  by (cases x; cases y; simp)

instantiation NDIS_802_11_WEP_STATUS :: linorder
begin

definition less_eq_enc: "x \<le> y \<longleftrightarrow> enc_code x \<le> enc_code y"
definition less_enc: "x < y \<longleftrightarrow> enc_code x < enc_code y"

instance
  by standard (auto simp: less_eq_enc less_enc enc_code_inj[symmetric])

end

instantiation NDIS_802_11_AUTHENTICATION_MODE :: linorder
begin

definition less_eq_auth: "x \<le> y \<longleftrightarrow> auth_code x \<le> auth_code y"
definition less_auth: "x < y \<longleftrightarrow> auth_code x < auth_code y"

instance
  by standard (auto simp: less_eq_auth less_auth auth_code_inj[symmetric])

end

lemmas enum_order = less_eq_enc less_enc less_eq_auth less_auth

section \<open>Data\<close>

record CIPHER_SUITE =
  PairCipher :: NDIS_802_11_WEP_STATUS
  PairCipherAux :: NDIS_802_11_WEP_STATUS
  GroupCipher :: NDIS_802_11_WEP_STATUS
  RsnCapability :: UINT16
  bMixMode :: bool

record FIXED_IEs =
  Timestamp :: bytes
  BeaconInterval :: UINT16
  Capabilities :: UINT16

record WPA_IE_ =
  IELen :: UINT8
  IE :: bytes

type_synonym qos_parm = "bool \<times> bytes"

record BSS_ENTRY =
  Bssid :: mac_addr
  Channel :: UINT8
  CentralChannel :: UINT8
  BssType :: UINT8
  AtimWin :: UINT16
  BeaconPeriod :: UINT16
  SupRate :: bytes
  SupRateLen :: UINT8
  ExtRate :: bytes
  ExtRateLen :: UINT8
  HtCapability :: bytes
  HtCapabilityLen :: UINT8
  AddHtInfo :: bytes
  AddHtInfoLen :: UINT8
  NewExtChanOffset :: UINT8
  Rssi :: UINT8 \<comment> \<open>a signed \<^verbatim>\<open>CHAR\<close>\<close>
  vht_cap_len :: UINT8
  vht_op_len :: UINT8
  vht_cap_ie :: bytes
  vht_op_ie :: bytes
  Privacy :: bool
  Hidden :: bool
  CapabilityInfo :: UINT16
  CfpCount :: UINT16
  CfpPeriod :: UINT16
  CfpMaxDuration :: UINT16
  CfpDurRemaining :: UINT16
  SsidLen :: UINT8
  Ssid :: bytes
  SameRxTimeCount :: UINT8
  LastBeaconRxTimeA :: ULONG
  LastBeaconRxTime :: ULONG
  bSES :: bool
  WPA :: CIPHER_SUITE
  WPA2 :: CIPHER_SUITE
  FixIEs :: FIXED_IEs
  AuthModeAux :: NDIS_802_11_AUTHENTICATION_MODE
  AuthMode :: NDIS_802_11_AUTHENTICATION_MODE
  WepStatus :: NDIS_802_11_WEP_STATUS
  VarIELen :: UINT16
  VarIEs :: bytes
  VarIeFromProbeRspLen :: UINT16
  pVarIeFromProbRsp :: "addr option"
  CkipFlag :: UINT8
  EdcaParm :: qos_parm
  QosCapability :: qos_parm
  QbssLoad :: qos_parm
  WpaIE :: WPA_IE_
  RsnIE :: WPA_IE_
  WpsIE :: WPA_IE_
  CountryString :: bytes
  bHasCountryIE :: bool


text \<open>An entry of zero bytes (\<^verbatim>\<open>NdisZeroMemory\<close>).\<close>

definition zero_suite :: CIPHER_SUITE where
  "zero_suite = \<lparr>PairCipher = Ndis802_11WEPEnabled, PairCipherAux = Ndis802_11WEPEnabled, GroupCipher = Ndis802_11WEPEnabled,
     RsnCapability = 0, bMixMode = False\<rparr>"

definition zero_bss :: BSS_ENTRY where
  "zero_bss = \<lparr>Bssid = replicate 6 0, Channel = 0, CentralChannel = 0, BssType = 0, AtimWin = 0, BeaconPeriod = 0,
     SupRate = replicate 12 0, SupRateLen = 0, ExtRate = replicate 12 0, ExtRateLen = 0, HtCapability = replicate 26 0,
     HtCapabilityLen = 0, AddHtInfo = replicate 22 0, AddHtInfoLen = 0, NewExtChanOffset = 0, Rssi = 0, vht_cap_len = 0,
     vht_op_len = 0, vht_cap_ie = replicate 12 0, vht_op_ie = replicate 5 0, Privacy = False, Hidden = False,
     CapabilityInfo = 0, CfpCount = 0, CfpPeriod = 0, CfpMaxDuration = 0, CfpDurRemaining = 0, SsidLen = 0,
     Ssid = replicate 32 0, SameRxTimeCount = 0, LastBeaconRxTimeA = 0, LastBeaconRxTime = 0, bSES = False,
     WPA = zero_suite, WPA2 = zero_suite, FixIEs = \<lparr>Timestamp = replicate 8 0, BeaconInterval = 0, Capabilities = 0\<rparr>,
     AuthModeAux = Ndis802_11AuthModeOpen, AuthMode = Ndis802_11AuthModeOpen, WepStatus = Ndis802_11WEPEnabled,
     VarIELen = 0, VarIEs = replicate 1024 0, VarIeFromProbeRspLen = 0, pVarIeFromProbRsp = None, CkipFlag = 0,
     EdcaParm = (False, replicate 31 0), QosCapability = (False, replicate 4 0), QbssLoad = (False, replicate 7 0),
     WpaIE = \<lparr>IELen = 0, IE = replicate 128 0\<rparr>, RsnIE = \<lparr>IELen = 0, IE = replicate 128 0\<rparr>,
     WpsIE = \<lparr>IELen = 0, IE = replicate 128 0\<rparr>, CountryString = replicate 3 0, bHasCountryIE = False\<rparr>"

section \<open>Security elements\<close>

definition rd :: "bytes \<Rightarrow> nat \<Rightarrow> UINT8 option" where
  "rd b i = (if i < length b then Some (b ! i) else None)"

definition rd16 :: "bytes \<Rightarrow> nat \<Rightarrow> UINT16 option" where
  "rd16 b i = do { lo \<leftarrow> rd b i; hi \<leftarrow> rd b (i + 1); Some (push_bit 8 (ucast hi) + ucast lo) }"

definition equal_memory :: "bytes \<Rightarrow> nat \<Rightarrow> bytes \<Rightarrow> bool option" where
  "equal_memory b i s = (if i + length s \<le> length b then Some (take (length s) (drop i b) = s) else None)"

definition WPA_OUI :: bytes where "WPA_OUI = [0x00, 0x50, 0xf2, 0x01]"
definition RSN_OUI :: bytes where "RSN_OUI = [0x00, 0x0f, 0xac]"
definition WPS_OUI :: bytes where "WPS_OUI = [0x00, 0x50, 0xf2, 0x04]"
definition SES_OUI :: bytes where "SES_OUI = [0x00, 0x90, 0x4c]"

definition group_cipher :: "UINT8 \<Rightarrow> NDIS_802_11_WEP_STATUS \<Rightarrow> NDIS_802_11_WEP_STATUS" where
  "group_cipher t old =
     (if t = 1 then Ndis802_11GroupWEP40Enabled
      else if t = 5 then Ndis802_11GroupWEP104Enabled
      else if t = 2 then Ndis802_11Encryption2Enabled
      else if t = 4 then Ndis802_11Encryption3Enabled
      else old)"

definition pair_cipher :: "UINT8 \<Rightarrow> NDIS_802_11_WEP_STATUS" where
  "pair_cipher t =
     (if t = 1 \<or> t = 5 then Ndis802_11Encryption1Enabled
      else if t = 2 then Ndis802_11Encryption2Enabled
      else if t = 4 then Ndis802_11Encryption3Enabled
      else Ndis802_11WEPDisabled)"

definition add_pair :: "UINT8 \<Rightarrow> CIPHER_SUITE \<Rightarrow> CIPHER_SUITE" where
  "add_pair t s = (let TmpCipher = pair_cipher t in
     if TmpCipher > PairCipher s then s\<lparr>PairCipherAux := PairCipher s, PairCipher := TmpCipher\<rparr>
     else s\<lparr>PairCipherAux := TmpCipher\<rparr>)"

primrec pair_loop :: "nat \<Rightarrow> bytes \<Rightarrow> nat \<Rightarrow> CIPHER_SUITE \<Rightarrow> (CIPHER_SUITE \<times> nat) option" where
  "pair_loop 0 b p s = Some (s, p)"
| "pair_loop (Suc Count) b p s = do { t \<leftarrow> rd b (p + 3); pair_loop Count b (p + 4) (add_pair t s) }"

definition set_auth :: "NDIS_802_11_AUTHENTICATION_MODE \<Rightarrow> BSS_ENTRY \<Rightarrow> BSS_ENTRY" where
  "set_auth m e = (if AuthMode e = Ndis802_11AuthModeOpen then e\<lparr>AuthMode := m\<rparr> else e\<lparr>AuthModeAux := m\<rparr>)"

definition akm_mode :: "UINT8 \<Rightarrow> NDIS_802_11_AUTHENTICATION_MODE" where
  "akm_mode t =
     (if t = 0 then Ndis802_11AuthModeWPANone else if t = 1 then Ndis802_11AuthModeWPA2
      else if t = 2 then Ndis802_11AuthModeWPA2PSK else Ndis802_11AuthModeMax)"

primrec akm_loop :: "nat \<Rightarrow> bytes \<Rightarrow> nat \<Rightarrow> BSS_ENTRY \<Rightarrow> (BSS_ENTRY \<times> nat) option" where
  "akm_loop 0 b p e = Some (e, p)"
| "akm_loop (Suc Count) b p e = do {
     eq \<leftarrow> equal_memory b p RSN_OUI;
     if \<not> eq then Some (e, p)
     else do { t \<leftarrow> rd b (p + 3); akm_loop Count b (p + 4) (set_auth (akm_mode t) e) } }"

text \<open>What the WPA element and the RSN element set after their suites have been read.\<close>

definition wpa_modes :: "UINT8 \<Rightarrow> BSS_ENTRY \<Rightarrow> BSS_ENTRY" where
  "wpa_modes t e =
     (if t = 1 then set_auth Ndis802_11AuthModeWPA e else if t = 2 then set_auth Ndis802_11AuthModeWPAPSK e else e)"

definition wpa_status :: "BSS_ENTRY \<Rightarrow> BSS_ENTRY" where
  "wpa_status e =
     (let e = (if BssType e = 0 then
                 let e = e\<lparr>AuthMode := Ndis802_11AuthModeWPANone, AuthModeAux := Ndis802_11AuthModeWPANone,
                           WepStatus := GroupCipher (WPA e)\<rparr>
                 in if PairCipherAux (WPA e) = Ndis802_11WEPDisabled
                    then e\<lparr>WPA := (WPA e)\<lparr>PairCipherAux := GroupCipher (WPA e)\<rparr>\<rparr> else e
               else e\<lparr>WepStatus := PairCipher (WPA e)\<rparr>)
      in if GroupCipher (WPA e) \<noteq> PairCipher (WPA e) then e\<lparr>WPA := (WPA e)\<lparr>bMixMode := True\<rparr>\<rparr> else e)"

definition rsn_status :: "BSS_ENTRY \<Rightarrow> BSS_ENTRY" where
  "rsn_status e =
     (let e = (if BssType e = 0 then
                 let e = e\<lparr>WPA := (WPA e)\<lparr>PairCipherAux := PairCipherAux (WPA2 e), GroupCipher := GroupCipher (WPA2 e)\<rparr>\<rparr>;
                     e = e\<lparr>WepStatus := GroupCipher (WPA e)\<rparr>
                 in if PairCipherAux (WPA e) = Ndis802_11WEPDisabled
                    then e\<lparr>WPA := (WPA e)\<lparr>PairCipherAux := GroupCipher (WPA e)\<rparr>\<rparr> else e
               else e)
      in e\<lparr>WepStatus := PairCipher (WPA2 e)\<rparr>)"

definition rsn_caps :: "UINT16 \<Rightarrow> BSS_ENTRY \<Rightarrow> BSS_ENTRY" where
  "rsn_caps cap e =
     (let e = e\<lparr>WPA2 := (WPA2 e)\<lparr>RsnCapability := cap\<rparr>\<rparr>
      in if GroupCipher (WPA2 e) \<noteq> PairCipher (WPA2 e) then e\<lparr>WPA2 := (WPA2 e)\<lparr>bMixMode := True\<rparr>\<rparr> else e)"

definition wpa_element :: "BSS_ENTRY \<Rightarrow> nat \<Rightarrow> BSS_ENTRY option" where
  "wpa_element e pos = do {
     ses \<leftarrow> equal_memory (VarIEs e) (pos + 2) SES_OUI;
     len \<leftarrow> rd (VarIEs e) (pos + 1);
     if ses \<and> len = 7 then Some (e\<lparr>bSES := True\<rparr>)
     else do {
       wpa \<leftarrow> equal_memory (VarIEs e) (pos + 2) WPA_OUI;
       if \<not> wpa then Some e
       else do {
         g \<leftarrow> rd (VarIEs e) (pos + 11);
         let s = (WPA e)\<lparr>GroupCipher := group_cipher g (GroupCipher (WPA e))\<rparr>;
         Count \<leftarrow> rd16 (VarIEs e) (pos + 12);
         (s, p) \<leftarrow> pair_loop (unat Count) (VarIEs e) (pos + 14) s;
         Count \<leftarrow> rd16 (VarIEs e) p;
         t \<leftarrow> rd (VarIEs e) (p + 5);
         Some (wpa_status (wpa_modes t (e\<lparr>WPA := s\<rparr>))) } } }"

definition rsn_element :: "BSS_ENTRY \<Rightarrow> nat \<Rightarrow> BSS_ENTRY option" where
  "rsn_element e pos = do {
     ver \<leftarrow> rd16 (VarIEs e) (pos + 2);
     if ver \<noteq> 1 then Some e
     else do {
       eq \<leftarrow> equal_memory (VarIEs e) (pos + 4) RSN_OUI;
       if \<not> eq then Some e
       else do {
         g \<leftarrow> rd (VarIEs e) (pos + 7);
         let s = (WPA2 e)\<lparr>GroupCipher := group_cipher g (GroupCipher (WPA2 e))\<rparr>;
         Count \<leftarrow> rd16 (VarIEs e) (pos + 8);
         (s, p) \<leftarrow> pair_loop (unat Count) (VarIEs e) (pos + 10) s;
         Count \<leftarrow> rd16 (VarIEs e) p;
         (e, p) \<leftarrow> akm_loop (unat Count) (VarIEs e) (p + 2) (e\<lparr>WPA2 := s\<rparr>);
         let e = rsn_status e;
         cap \<leftarrow> rd16 (VarIEs e) p;
         Some (rsn_caps cap e) } } }"

definition one_element :: "BSS_ENTRY \<Rightarrow> nat \<Rightarrow> BSS_ENTRY option" where
  "one_element e pos = do {
     eid \<leftarrow> rd (VarIEs e) pos;
     if eid = 221 then wpa_element e pos else if eid = 48 then rsn_element e pos else Some e }"

text \<open>\<open>n\<close> is the length of the elements and \<open>pos\<close> the offset \<^verbatim>\<open>VarIELen - Length\<close> of the current one.\<close>

function parse_loop :: "nat \<Rightarrow> BSS_ENTRY \<Rightarrow> nat \<Rightarrow> BSS_ENTRY option" where
  "parse_loop n e pos =
     (if pos < n then
        do { e \<leftarrow> one_element e pos; len \<leftarrow> rd (VarIEs e) (pos + 1); parse_loop n e (pos + unat len + 2) }
      else Some e)"
  by auto
termination by (relation "measure (\<lambda>(n, e, pos). n - pos)") auto

declare parse_loop.simps [simp del]

definition no_cipher :: CIPHER_SUITE where
  "no_cipher = \<lparr>PairCipher = Ndis802_11WEPDisabled, PairCipherAux = Ndis802_11WEPDisabled,
     GroupCipher = Ndis802_11WEPDisabled, RsnCapability = 0, bMixMode = False\<rparr>"

definition BssCipherParse :: "BSS_ENTRY \<Rightarrow> BSS_ENTRY option" where
  "BssCipherParse pBss =
     parse_loop (unat (VarIELen pBss)) (pBss\<lparr>WepStatus := (if Privacy pBss then Ndis802_11WEPEnabled else Ndis802_11WEPDisabled),
       AuthMode := Ndis802_11AuthModeOpen, AuthModeAux := Ndis802_11AuthModeOpen, WPA := no_cipher, WPA2 := no_cipher\<rparr>) 0"


section \<open>Filling an entry\<close>

definition MAX_LEN_OF_SSID :: nat where "MAX_LEN_OF_SSID = 32"
definition MAX_VIE_LEN :: nat where "MAX_VIE_LEN = 1024"
definition MAX_LEN_OF_SUPPORTED_RATES :: nat where "MAX_LEN_OF_SUPPORTED_RATES = 12"
definition MAX_CUSTOM_LEN :: nat where "MAX_CUSTOM_LEN = 128"

text \<open>The parsed frame. The fields of \<^verbatim>\<open>CF_PARM\<close> are \<open>ie_CfParm\<close>: valid, count, period, maximum and remaining duration.\<close>

record BCN_IE_LIST =
  ie_Bssid :: mac_addr
  ie_Ssid :: bytes
  ie_SsidLen :: UINT8
  ie_BssType :: UINT8
  ie_BeaconPeriod :: UINT16
  ie_Channel :: UINT8
  ie_AtimWin :: UINT16
  ie_CapabilityInfo :: UINT16
  ie_SupRate :: bytes
  ie_SupRateLen :: UINT8
  ie_ExtRate :: bytes
  ie_ExtRateLen :: UINT8
  ie_CkipFlag :: UINT8
  ie_TimeStamp :: bytes
  ie_CfParm :: "bool \<times> UINT8 \<times> UINT8 \<times> UINT16 \<times> UINT16"
  ie_EdcaParm :: qos_parm
  ie_QbssLoad :: qos_parm
  ie_QosCapability :: qos_parm
  ie_HtCapabilityLen :: UINT8
  ie_HtCapability :: bytes
  ie_AddHtInfoLen :: UINT8
  ie_AddHtInfo :: bytes
  ie_NewExtChannelOffset :: UINT8
  ie_vht_cap_len :: UINT8
  ie_vht_cap_ie :: bytes
  ie_vht_op_len :: UINT8
  ie_vht_op_ie :: bytes

text \<open>The part of \<^verbatim>\<open>pAd->CommonCfg\<close> that \<^verbatim>\<open>vht_cent_ch_freq\<close> reads and writes.\<close>

record VHT_CFG =
  vht_bw :: UINT8
  vht_cent_ch :: UINT8
  vht_cent_ch2 :: UINT8

definition vht_ch_80M :: "(UINT8 \<times> UINT8 \<times> UINT8) list" where
  "vht_ch_80M = [(36, 48, 42), (52, 64, 58), (100, 112, 106), (116, 128, 122), (132, 144, 138), (149, 161, 155)]"

definition vht_cent_ch_freq :: "VHT_CFG \<Rightarrow> UINT8 \<Rightarrow> UINT8 \<times> VHT_CFG" where
  "vht_cent_ch_freq c prim_ch =
     (if vht_bw c < 1 \<or> prim_ch < 36 then (prim_ch, c\<lparr>vht_cent_ch := 0, vht_cent_ch2 := 0\<rparr>)
      else case List.find (\<lambda>(low, up, cent). low \<le> prim_ch \<and> prim_ch \<le> up) vht_ch_80M of
             Some (low, up, cent) \<Rightarrow> (cent, c\<lparr>vht_cent_ch := cent\<rparr>)
           | None \<Rightarrow> (prim_ch, c))"

definition ControlChan :: "bytes \<Rightarrow> UINT8" where
  "ControlChan ht_op = ht_op ! 0"

definition ExtChanOffset :: "bytes \<Rightarrow> UINT8" where
  "ExtChanOffset ht_op = ht_op ! 1 AND 3"

definition ChannelWidth :: "bytes \<Rightarrow> UINT8" where
  "ChannelWidth ht_cap = drop_bit 1 (ht_cap ! 0) AND 1"

definition get_cent_ch_by_htinfo :: "bytes \<Rightarrow> bytes \<Rightarrow> UINT8" where
  "get_cent_ch_by_htinfo ht_op ht_cap =
     (if ControlChan ht_op > 2 \<and> ExtChanOffset ht_op = 3 \<and> ChannelWidth ht_cap = 1 then ControlChan ht_op - 2
      else if ExtChanOffset ht_op = 1 \<and> ChannelWidth ht_cap = 1 then ControlChan ht_op + 2
      else ControlChan ht_op)"

definition zero_prefix :: "bytes \<Rightarrow> nat \<Rightarrow> bool" where
  "zero_prefix s n \<longleftrightarrow> take n s = replicate n 0"

definition set_ssid :: "BCN_IE_LIST \<Rightarrow> BSS_ENTRY \<Rightarrow> BSS_ENTRY" where
  "set_ssid l e =
     (let e = e\<lparr>Hidden := True\<rparr>; n = unat (ie_SsidLen l) in
      if ie_SsidLen l > 0 then
        if zero_prefix (ie_Ssid l) n then e
        else e\<lparr>Ssid := move_at (replicate MAX_LEN_OF_SSID 0) 0 (take n (ie_Ssid l)), SsidLen := ie_SsidLen l, Hidden := False\<rparr>
      else if zero_prefix (Ssid e) (unat (SsidLen e)) then e\<lparr>Ssid := replicate MAX_LEN_OF_SSID 0, SsidLen := 0\<rparr>
      else e)"

definition set_ht :: "VHT_CFG \<Rightarrow> BCN_IE_LIST \<Rightarrow> BSS_ENTRY \<Rightarrow> BSS_ENTRY \<times> VHT_CFG" where
  "set_ht c l e =
     (if ie_HtCapabilityLen l > 0 then
        let e = e\<lparr>HtCapabilityLen := ie_HtCapabilityLen l,
                  HtCapability := move_at (HtCapability e) 0 (take (unat (ie_HtCapabilityLen l)) (ie_HtCapability l))\<rparr>;
            e = (if ie_AddHtInfoLen l > 0 then
                   e\<lparr>AddHtInfoLen := ie_AddHtInfoLen l,
                     AddHtInfo := move_at (AddHtInfo e) 0 (take (unat (ie_AddHtInfoLen l)) (ie_AddHtInfo l)),
                     CentralChannel := get_cent_ch_by_htinfo (ie_AddHtInfo l) (ie_HtCapability l)\<rparr>
                 else e);
            e = (if ie_vht_cap_len l \<noteq> 0 then
                   e\<lparr>vht_cap_ie := move_at (vht_cap_ie e) 0 (take (unat (ie_vht_cap_len l)) (ie_vht_cap_ie l)),
                     vht_cap_len := ie_vht_cap_len l\<rparr>
                 else e)
        in if ie_vht_op_len l \<noteq> 0 then
             let e = e\<lparr>vht_op_ie := move_at (vht_op_ie e) 0 (take (unat (ie_vht_op_len l)) (ie_vht_op_ie l)),
                       vht_op_len := ie_vht_op_len l\<rparr>
             in if ie_vht_op_ie l ! 0 > 0 \<and> ExtChanOffset (ie_AddHtInfo l) \<noteq> 0 \<and> ChannelWidth (ie_HtCapability l) = 1
                  \<and> CentralChannel e \<noteq> ControlChan (ie_AddHtInfo l)
                then let (cent_ch, c) = vht_cent_ch_freq c (ControlChan (ie_AddHtInfo l))
                     in (e\<lparr>CentralChannel := ie_vht_op_ie l ! 1\<rparr>, c)
                else (e, c)
           else (e, c)
      else (e, c))"

definition qos_set :: "qos_parm \<Rightarrow> qos_parm \<Rightarrow> qos_parm" where
  "qos_set new old = (if fst new then new else (False, snd old))"

text \<open>The vendor and RSN elements are kept with their headers, when they fit; the last one of a kind wins.\<close>

definition keep_ie :: "bytes \<Rightarrow> nat \<Rightarrow> UINT8 \<Rightarrow> WPA_IE_ \<Rightarrow> WPA_IE_" where
  "keep_ie pVIE p len w =
     (if unat len + 2 > MAX_CUSTOM_LEN then w\<lparr>IELen := 0\<rparr>
      else w\<lparr>IELen := len + 2, IE := move_at (IE w) 0 (take (unat len + 2) (drop p pVIE))\<rparr>)"

definition store_element :: "bytes \<Rightarrow> nat \<Rightarrow> UINT8 \<Rightarrow> UINT8 \<Rightarrow> BSS_ENTRY \<Rightarrow> BSS_ENTRY option" where
  "store_element pVIE p eid len e =
     (if eid = 221 then do {
        wps \<leftarrow> equal_memory pVIE (p + 2) WPS_OUI;
        if wps then Some (e\<lparr>WpsIE := keep_ie pVIE p len (WpsIE e)\<rparr>)
        else do {
          wpa \<leftarrow> equal_memory pVIE (p + 2) WPA_OUI;
          Some (if wpa then e\<lparr>WpaIE := keep_ie pVIE p len (WpaIE e)\<rparr> else e) } }
      else if eid = 48 then do {
        rsn \<leftarrow> equal_memory pVIE (p + 4) RSN_OUI;
        Some (if rsn then e\<lparr>RsnIE := keep_ie pVIE p len (RsnIE e)\<rparr> else e) }
      else if eid = 7 then
        (if p + 5 \<le> length pVIE then Some (e\<lparr>CountryString := take 3 (drop (p + 2) pVIE), bHasCountryIE := True\<rparr>) else None)
      else Some e)"

function store_loop :: "nat \<Rightarrow> bytes \<Rightarrow> nat \<Rightarrow> BSS_ENTRY \<Rightarrow> BSS_ENTRY option" where
  "store_loop LengthVIE pVIE p e = do {
     len \<leftarrow> rd pVIE (p + 1);
     if p + 2 + unat len \<le> LengthVIE then do {
       eid \<leftarrow> rd pVIE p;
       e \<leftarrow> store_element pVIE p eid len e;
       store_loop LengthVIE pVIE (p + 2 + unat len) e }
     else Some e }"
  by pat_completeness auto
termination by (relation "measure (\<lambda>(n, b, p, e). n + 1 - p)") auto

declare store_loop.simps [simp del]

definition empty_ie :: WPA_IE_ where
  "empty_ie = \<lparr>IELen = 0, IE = replicate MAX_CUSTOM_LEN 0\<rparr>"

text \<open>The lengths for which no move of \<^verbatim>\<open>BssEntrySet\<close> leaves its destination.\<close>

definition moves_fit :: "BCN_IE_LIST \<Rightarrow> nat \<Rightarrow> bool" where
  "moves_fit l LengthVIE \<longleftrightarrow> unat (ie_SsidLen l) \<le> MAX_LEN_OF_SSID \<and> LengthVIE \<le> MAX_VIE_LEN
     \<and> (ie_HtCapabilityLen l > 0 \<longrightarrow> unat (ie_HtCapabilityLen l) \<le> 26 \<and> unat (ie_AddHtInfoLen l) \<le> 22
          \<and> unat (ie_vht_cap_len l) \<le> 12 \<and> unat (ie_vht_op_len l) \<le> 5)"

definition set_fixed :: "ULONG \<Rightarrow> BCN_IE_LIST \<Rightarrow> UINT8 \<Rightarrow> BSS_ENTRY \<Rightarrow> BSS_ENTRY" where
  "set_fixed now l rssi e =
     (let e = e\<lparr>BssType := ie_BssType l, BeaconPeriod := ie_BeaconPeriod l\<rparr>;
          e = (if ie_BssType l = 1 then
                 (case ie_CfParm l of (valid, count, period, maxd, rem) \<Rightarrow>
                    if valid then e\<lparr>CfpCount := ucast count, CfpPeriod := ucast period, CfpMaxDuration := maxd, CfpDurRemaining := rem\<rparr>
                    else e)
               else e\<lparr>AtimWin := ie_AtimWin l\<rparr>)
      in e\<lparr>LastBeaconRxTime := now, CapabilityInfo := ie_CapabilityInfo l,
           Privacy := (ie_CapabilityInfo l AND 0x0010 \<noteq> 0),
           SupRate := move_at (SupRate e) 0 (take (min (unat (ie_SupRateLen l)) MAX_LEN_OF_SUPPORTED_RATES) (ie_SupRate l)),
           SupRateLen := ie_SupRateLen l,
           ExtRate := move_at (ExtRate e) 0 (take (unat (ie_ExtRateLen l)) (ie_ExtRate l)),
           NewExtChanOffset := ie_NewExtChannelOffset l, ExtRateLen := ie_ExtRateLen l,
           Channel := ie_Channel l, CentralChannel := ie_Channel l, Rssi := rssi, CkipFlag := ie_CkipFlag l,
           FixIEs := \<lparr>Timestamp = ie_TimeStamp l, BeaconInterval = ie_BeaconPeriod l, Capabilities = ie_CapabilityInfo l\<rparr>\<rparr>)"

definition BssEntrySet ::
    "VHT_CFG \<Rightarrow> ULONG \<Rightarrow> BSS_ENTRY \<Rightarrow> BCN_IE_LIST \<Rightarrow> UINT8 \<Rightarrow> UINT16 \<Rightarrow> bytes \<Rightarrow> (BSS_ENTRY \<times> BCN_IE_LIST \<times> VHT_CFG) option" where
  "BssEntrySet c now pBss ie_list rssi LengthVIE pVIE =
     (if \<not> moves_fit ie_list (unat LengthVIE) \<or> length pVIE < unat LengthVIE then None
      else
        let l = (if unat (ie_ExtRateLen ie_list) > MAX_LEN_OF_SUPPORTED_RATES
                 then ie_list\<lparr>ie_ExtRateLen := of_nat MAX_LEN_OF_SUPPORTED_RATES\<rparr> else ie_list);
            e = set_ssid l (pBss\<lparr>Bssid := ie_Bssid l\<rparr>);
            e = set_fixed now l rssi e;
            e = (if LengthVIE \<noteq> 0
                 then e\<lparr>VarIELen := LengthVIE, VarIEs := move_at (VarIEs e) 0 (take (unat LengthVIE) pVIE)\<rparr>
                 else e\<lparr>VarIELen := 0\<rparr>);
            (e, c) = set_ht c l (e\<lparr>AddHtInfoLen := 0, HtCapabilityLen := 0\<rparr>)
        in do {
          e \<leftarrow> BssCipherParse e;
          let e = e\<lparr>EdcaParm := qos_set (ie_EdcaParm l) (EdcaParm e), QosCapability := qos_set (ie_QosCapability l) (QosCapability e),
                    QbssLoad := qos_set (ie_QbssLoad l) (QbssLoad e), WpaIE := empty_ie, RsnIE := empty_ie, WpsIE := empty_ie,
                    CountryString := replicate 3 0, bHasCountryIE := False\<rparr>;
          e \<leftarrow> store_loop (unat LengthVIE) pVIE 0 e;
          Some (e, l, c) })"


section \<open>Reading what an access point announces\<close>

text \<open>The RSN element of IEEE 802.11i for a group cipher, pairwise ciphers, key management suites and capabilities.\<close>

definition suite :: "UINT8 \<Rightarrow> bytes" where
  "suite t = RSN_OUI @ [t]"

definition rsn_body :: "UINT8 \<Rightarrow> UINT8 list \<Rightarrow> UINT8 list \<Rightarrow> UINT16 \<Rightarrow> bytes" where
  "rsn_body g ps ks cap = [1, 0] @ suite g @ le16_bytes (of_nat (length ps)) @ concat (map suite ps)
     @ le16_bytes (of_nat (length ks)) @ concat (map suite ks) @ le16_bytes cap"

definition rsn_ie :: "UINT8 \<Rightarrow> UINT8 list \<Rightarrow> UINT8 list \<Rightarrow> UINT16 \<Rightarrow> bytes" where
  "rsn_ie g ps ks cap = [48, of_nat (length (rsn_body g ps ks cap))] @ rsn_body g ps ks cap"

lemma rd_append: "p = length a \<Longrightarrow> rd (a @ x # b) p = Some x"
  by (simp add: rd_def)

lemma le16_value: "push_bit 8 (ucast (ucast (drop_bit 8 w) :: UINT8)) + ucast (ucast w :: UINT8) = (w :: UINT16)"
proof -
  have "push_bit 8 (ucast (ucast (drop_bit 8 w) :: UINT8)) + ucast (ucast w :: UINT8)
      = (push_bit 8 (ucast (ucast (drop_bit 8 w) :: UINT8)) OR ucast (ucast w :: UINT8) :: UINT16)"
    by (rule disjunctive_add) (auto simp: bit_simps)
  also have "\<dots> = w"
    by (rule bit_eqI) (auto simp: bit_simps)
  finally show ?thesis .
qed

lemma rd16_append: "p = length a \<Longrightarrow> rd16 (a @ le16_bytes w @ b) p = Some w"
  using le16_value[of w] by (simp add: rd16_def le16_bytes_def rd_def nth_append)

lemma equal_memory_append: "p = length a \<Longrightarrow> equal_memory (a @ s @ b) p s = Some True"
  by (simp add: equal_memory_def)

lemma length_suite [simp]: "length (suite t) = 4"
  by (simp add: suite_def RSN_OUI_def)

lemma length_suites [simp]: "length (concat (map suite ts)) = 4 * length ts"
  by (induction ts) simp_all

lemma length_le16 [simp]: "length (le16_bytes w) = 2"
  by (simp add: le16_bytes_def)

lemma rd_suite: "p = length a + 3 \<Longrightarrow> rd (a @ suite t @ b) p = Some t"
  by (simp add: rd_def suite_def RSN_OUI_def nth_append)

lemma equal_suite: "p = length a \<Longrightarrow> equal_memory (a @ suite t @ b) p RSN_OUI = Some True"
  by (simp add: suite_def equal_memory_append)

lemma pair_loop_suites:
  "p = length a \<Longrightarrow> pair_loop (length ts) (a @ concat (map suite ts) @ b) p s = Some (fold add_pair ts s, p + 4 * length ts)"
proof (induction ts arbitrary: a p s)
  case (Cons t ts)
  show ?case
    using Cons.IH[of "p + 4" "a @ suite t" "add_pair t s"] Cons.prems rd_suite[of "p + 3" a t "concat (map suite ts) @ b"]
    by simp
qed simp

lemma akm_loop_suites:
  "p = length a \<Longrightarrow> akm_loop (length ts) (a @ concat (map suite ts) @ b) p e
     = Some (fold (\<lambda>t. set_auth (akm_mode t)) ts e, p + 4 * length ts)"
proof (induction ts arbitrary: a p e)
  case (Cons t ts)
  show ?case
    using Cons.IH[of "p + 4" "a @ suite t" "set_auth (akm_mode t) e"] Cons.prems
      rd_suite[of "p + 3" a t "concat (map suite ts) @ b"] equal_suite[of p a t "concat (map suite ts) @ b"]
    by simp
qed simp

lemma fold_add_pair:
  "PairCipher (fold add_pair ts s) = fold max (map pair_cipher ts) (PairCipher s)
   \<and> GroupCipher (fold add_pair ts s) = GroupCipher s \<and> bMixMode (fold add_pair ts s) = bMixMode s"
proof (induction ts arbitrary: s)
  case (Cons t ts)
  have "PairCipher (add_pair t s) = max (pair_cipher t) (PairCipher s)"
      "GroupCipher (add_pair t s) = GroupCipher s" "bMixMode (add_pair t s) = bMixMode s"
    by (auto simp: add_pair_def Let_def max_def)
  then show ?case
    using Cons.IH[of "add_pair t s"] by simp
qed simp

text \<open>The first suite is the mode, the last of the others the second mode; nothing else changes.\<close>

lemma akm_mode_not_open [simp]: "akm_mode t \<noteq> Ndis802_11AuthModeOpen"
  by (simp add: akm_mode_def)

lemma fold_set_auth_closed:
  "AuthMode e \<noteq> Ndis802_11AuthModeOpen \<Longrightarrow>
     fold (\<lambda>t. set_auth (akm_mode t)) ts e = (if ts = [] then e else e\<lparr>AuthModeAux := akm_mode (last ts)\<rparr>)"
proof (induction ts arbitrary: e)
  case (Cons t ts)
  then show ?case
    using Cons.IH[of "e\<lparr>AuthModeAux := akm_mode t\<rparr>"] by (simp add: set_auth_def)
qed simp

lemma fold_set_auth_open:
  assumes "AuthMode e = Ndis802_11AuthModeOpen"
  shows "fold (\<lambda>t. set_auth (akm_mode t)) (k # ks) e
    = (if ks = [] then e\<lparr>AuthMode := akm_mode k\<rparr> else e\<lparr>AuthMode := akm_mode k, AuthModeAux := akm_mode (last ks)\<rparr>)"
  using assms fold_set_auth_closed[of "e\<lparr>AuthMode := akm_mode k\<rparr>" ks] by (simp add: set_auth_def)


lemma rsn_reads:
  assumes "p = length a" and "length ps < 65536" and "length ks < 65536" and "b = a @ rsn_ie g ps ks cap @ z"
  shows "rd b p = Some 48" and "rd b (p + 1) = Some (of_nat (length (rsn_body g ps ks cap)))"
    and "rd16 b (p + 2) = Some 1" and "equal_memory b (p + 4) RSN_OUI = Some True" and "rd b (p + 7) = Some g"
    and "rd16 b (p + 8) = Some (of_nat (length ps))"
    and "pair_loop (length ps) b (p + 10) s = Some (fold add_pair ps s, p + 10 + 4 * length ps)"
    and "rd16 b (p + 10 + 4 * length ps) = Some (of_nat (length ks))"
    and "akm_loop (length ks) b (p + 12 + 4 * length ps) e
      = Some (fold (\<lambda>t. set_auth (akm_mode t)) ks e, p + 12 + 4 * length ps + 4 * length ks)"
    and "rd16 b (p + 12 + 4 * length ps + 4 * length ks) = Some cap"
proof -
  define L where "L = (of_nat (length (rsn_body g ps ks cap)) :: UINT8)"
  define P K where "P = concat (map suite ps)" and "K = concat (map suite ks)"
  have one: "[1, 0] = le16_bytes 1"
    by (simp add: le16_bytes_def)
  have b: "b = a @ [48, L] @ le16_bytes 1 @ suite g @ le16_bytes (of_nat (length ps)) @ P @ le16_bytes (of_nat (length ks)) @ K @ le16_bytes cap @ z"
    unfolding assms(4) rsn_ie_def rsn_body_def L_def P_def K_def one by (simp only: append_assoc)
  have l: "length P = 4 * length ps" "length K = 4 * length ks"
    by (simp_all add: P_def K_def)
  show "rd b p = Some 48" "rd b (p + 1) = Some (of_nat (length (rsn_body g ps ks cap)))"
    using assms(1) by (simp_all add: b rd_def nth_append L_def)
  show "rd16 b (p + 2) = Some 1"
    using assms(1) rd16_append[of "p + 2" "a @ [48, L]" 1] by (simp add: b)
  show "equal_memory b (p + 4) RSN_OUI = Some True"
    using assms(1) equal_suite[of "p + 4" "a @ [48, L] @ le16_bytes 1" g] by (simp add: b)
  show "rd b (p + 7) = Some g"
    using assms(1) rd_suite[of "p + 7" "a @ [48, L] @ le16_bytes 1" g] by (simp add: b)
  show "rd16 b (p + 8) = Some (of_nat (length ps))"
    using assms(1) rd16_append[of "p + 8" "a @ [48, L] @ le16_bytes 1 @ suite g" "of_nat (length ps)"] by (simp add: b)
  show "pair_loop (length ps) b (p + 10) s = Some (fold add_pair ps s, p + 10 + 4 * length ps)"
    using assms(1) pair_loop_suites[of "p + 10" "a @ [48, L] @ le16_bytes 1 @ suite g @ le16_bytes (of_nat (length ps))" ps _ s]
    by (simp add: b P_def)
  show "rd16 b (p + 10 + 4 * length ps) = Some (of_nat (length ks))"
    using assms(1) rd16_append[of "p + 10 + 4 * length ps" "a @ [48, L] @ le16_bytes 1 @ suite g @ le16_bytes (of_nat (length ps)) @ P"
        "of_nat (length ks)"] by (simp add: b l)
  show "akm_loop (length ks) b (p + 12 + 4 * length ps) e
      = Some (fold (\<lambda>t. set_auth (akm_mode t)) ks e, p + 12 + 4 * length ps + 4 * length ks)"
    using assms(1) akm_loop_suites[of "p + 12 + 4 * length ps" "a @ [48, L] @ le16_bytes 1 @ suite g @ le16_bytes (of_nat (length ps)) @ P
        @ le16_bytes (of_nat (length ks))" ks _ e] by (simp add: b l K_def)
  show "rd16 b (p + 12 + 4 * length ps + 4 * length ks) = Some cap"
    using assms(1) rd16_append[of "p + 12 + 4 * length ps + 4 * length ks" "a @ [48, L] @ le16_bytes 1 @ suite g
        @ le16_bytes (of_nat (length ps)) @ P @ le16_bytes (of_nat (length ks)) @ K" cap] by (simp add: b l)
qed

lemma length_rsn_body: "length (rsn_body g ps ks cap) = 12 + 4 * length ps + 4 * length ks"
  by (simp add: rsn_body_def)

lemma length_rsn_ie: "length (rsn_ie g ps ks cap) = 14 + 4 * length ps + 4 * length ks"
  by (simp add: rsn_ie_def length_rsn_body)

lemma unat_of_nat_len: "n < 65536 \<Longrightarrow> unat (of_nat n :: UINT16) = n"
  by (simp add: unat_of_nat take_bit_nat_eq_self)

definition rsn_result :: "UINT8 \<Rightarrow> UINT8 list \<Rightarrow> UINT8 list \<Rightarrow> UINT16 \<Rightarrow> BSS_ENTRY \<Rightarrow> BSS_ENTRY" where
  "rsn_result g ps ks cap e =
     (let s = fold add_pair ps ((WPA2 e)\<lparr>GroupCipher := group_cipher g (GroupCipher (WPA2 e))\<rparr>);
          e = fold (\<lambda>t. set_auth (akm_mode t)) ks e
      in e\<lparr>WPA2 := s\<lparr>RsnCapability := cap, bMixMode := (bMixMode s \<or> GroupCipher s \<noteq> PairCipher s)\<rparr>, WepStatus := PairCipher s\<rparr>)"

lemma set_auth_keeps: "VarIEs (set_auth m e) = VarIEs e" "BssType (set_auth m e) = BssType e" "WPA2 (set_auth m e) = WPA2 e"
    "set_auth m (e\<lparr>WPA2 := s\<rparr>) = (set_auth m e)\<lparr>WPA2 := s\<rparr>"
  by (simp_all add: set_auth_def)

lemma fold_set_auth_keeps:
  "VarIEs (fold (\<lambda>t. set_auth (akm_mode t)) ks e) = VarIEs e" "BssType (fold (\<lambda>t. set_auth (akm_mode t)) ks e) = BssType e"
  "fold (\<lambda>t. set_auth (akm_mode t)) ks (e\<lparr>WPA2 := s\<rparr>) = (fold (\<lambda>t. set_auth (akm_mode t)) ks e)\<lparr>WPA2 := s\<rparr>"
  by (induction ks arbitrary: e) (simp_all add: set_auth_keeps)

lemma rsn_element_ok:
  assumes "p = length a" and "length ps < 65536" and "length ks < 65536" and "VarIEs e = a @ rsn_ie g ps ks cap @ z"
    and "BssType e \<noteq> 0"
  shows "rsn_element e p = Some (rsn_result g ps ks cap e)"
proof -
  note R = rsn_reads[OF assms(1-4)]
  have p: "p + 10 + 4 * length ps + 2 = p + 12 + 4 * length ps"
    by simp
  define s where "s = fold add_pair ps ((WPA2 e)\<lparr>GroupCipher := group_cipher g (GroupCipher (WPA2 e))\<rparr>)"
  define f where "f = fold (\<lambda>t. set_auth (akm_mode t)) ks e"
  have f: "VarIEs f = VarIEs e" "BssType f \<noteq> 0"
    using assms(5) by (simp_all add: f_def fold_set_auth_keeps)
  have "rsn_element e p = Some (let g = f\<lparr>WPA2 := s, WepStatus := PairCipher s\<rparr>;
      g = g\<lparr>WPA2 := s\<lparr>RsnCapability := cap\<rparr>\<rparr>
      in if GroupCipher s \<noteq> PairCipher s then g\<lparr>WPA2 := s\<lparr>RsnCapability := cap, bMixMode := True\<rparr>\<rparr> else g)"
    unfolding rsn_element_def
    using f by (simp add: R p unat_of_nat_len[OF assms(2)] unat_of_nat_len[OF assms(3)] s_def[symmetric] fold_set_auth_keeps(3)
        f_def[symmetric] rsn_status_def rsn_caps_def Let_def del: add_2_eq_Suc add_2_eq_Suc')
  also have "\<dots> = Some (rsn_result g ps ks cap e)"
    unfolding rsn_result_def Let_def s_def[symmetric] f_def[symmetric] by simp
  finally show ?thesis .
qed


text \<open>Elements of other kinds are skipped.\<close>

definition other_ie :: "UINT8 \<times> bytes \<Rightarrow> bytes" where
  "other_ie x = fst x # of_nat (length (snd x)) # snd x"

definition is_other :: "UINT8 \<times> bytes \<Rightarrow> bool" where
  "is_other x \<longleftrightarrow> fst x \<noteq> 221 \<and> fst x \<noteq> 48 \<and> length (snd x) < 256"

lemma unat_of_nat_byte: "n < 256 \<Longrightarrow> unat (of_nat n :: UINT8) = n"
  by (simp add: unat_of_nat take_bit_nat_eq_self)

lemma parse_loop_others:
  assumes "p = length a" and "list_all is_other xs" and "VarIEs e = a @ concat (map other_ie xs) @ z"
    and "p + length (concat (map other_ie xs)) \<le> n"
  shows "parse_loop n e p = parse_loop n e (p + length (concat (map other_ie xs)))"
  using assms
proof (induction xs arbitrary: a p)
  case (Cons x xs)
  obtain i d where x: "x = (i, d)"
    by (cases x)
  have d: "length d < 256" "i \<noteq> 221" "i \<noteq> 48"
    using Cons.prems(2) by (simp_all add: x is_other_def)
  have o: "other_ie x = i # of_nat (length d) # d"
    by (simp add: x other_ie_def)
  have v: "VarIEs e = a @ i # of_nat (length d) # d @ concat (map other_ie xs) @ z"
    using Cons.prems(3) by (simp add: o)
  have l: "length (concat (map other_ie (x # xs))) = 2 + length d + length (concat (map other_ie xs))"
    by (simp add: o)
  have "one_element e p = Some e" "rd (VarIEs e) (p + 1) = Some (of_nat (length d))"
    using Cons.prems(1) d by (simp_all add: one_element_def v rd_def nth_append)
  then have "parse_loop n e p = parse_loop n e (p + length d + 2)"
    using Cons.prems(4) l by (subst parse_loop.simps) (simp add: unat_of_nat_byte[OF d(1)])
  also have "\<dots> = parse_loop n e (p + length d + 2 + length (concat (map other_ie xs)))"
    by (rule Cons.IH[of _ "a @ i # of_nat (length d) # d"]) (use Cons.prems v l in simp_all)
  finally show ?case
    using l by (simp add: algebra_simps)
qed simp

lemma rsn_result_VarIEs: "VarIEs (rsn_result g ps ks cap e) = VarIEs e"
  by (simp add: rsn_result_def Let_def fold_set_auth_keeps)

lemma parse_loop_rsn:
  assumes "p = length a" and "12 + 4 * length ps + 4 * length ks < 256" and "VarIEs e = a @ rsn_ie g ps ks cap @ z"
    and "BssType e \<noteq> 0" and "p < n"
  shows "parse_loop n e p = parse_loop n (rsn_result g ps ks cap e) (p + length (rsn_ie g ps ks cap))"
proof -
  have s: "length ps < 65536" "length ks < 65536"
    using assms(2) by simp_all
  note R = rsn_reads(1,2)[OF assms(1) s assms(3)]
  have "one_element e p = Some (rsn_result g ps ks cap e)"
    using rsn_element_ok[OF assms(1) s assms(3,4)] R(1) by (simp add: one_element_def)
  then have "parse_loop n e p
      = parse_loop n (rsn_result g ps ks cap e) (p + unat (of_nat (length (rsn_body g ps ks cap)) :: UINT8) + 2)"
    using R(2) assms(5) by (subst parse_loop.simps) (simp add: rsn_result_VarIEs)
  then show ?thesis
    using assms(2) unat_of_nat_byte[of "length (rsn_body g ps ks cap)"]
    by (simp add: length_rsn_body length_rsn_ie algebra_simps)
qed

text \<open>
  The security setting of an access point is read as announced. Whatever other elements surround the RSN
  element of a beacon, \<^verbatim>\<open>BssCipherParse\<close> ends within the array and records the announced group cipher, the
  strongest announced pairwise cipher (also as \<^verbatim>\<open>WepStatus\<close>), the mixed mode exactly if the two differ, the capabilities,
  the first key management suite as the authentication mode and the last of the others as the second one.
\<close>

theorem rsn_announcement_parsed:
  assumes "VarIEs e = concat (map other_ie xs) @ rsn_ie g ps (k # ks) cap @ concat (map other_ie ys) @ z"
    and "unat (VarIELen e) = length (concat (map other_ie xs) @ rsn_ie g ps (k # ks) cap @ concat (map other_ie ys))"
    and "list_all is_other xs" and "list_all is_other ys" and "16 + 4 * length ps + 4 * length ks < 256" and "BssType e = 1"
  shows "\<exists>e'. BssCipherParse e = Some e'
    \<and> GroupCipher (WPA2 e') = group_cipher g Ndis802_11WEPDisabled
    \<and> PairCipher (WPA2 e') = fold max (map pair_cipher ps) Ndis802_11WEPDisabled
    \<and> WepStatus e' = PairCipher (WPA2 e') \<and> (bMixMode (WPA2 e') \<longleftrightarrow> GroupCipher (WPA2 e') \<noteq> PairCipher (WPA2 e'))
    \<and> RsnCapability (WPA2 e') = cap \<and> AuthMode e' = akm_mode k
    \<and> AuthModeAux e' = (if ks = [] then Ndis802_11AuthModeOpen else akm_mode (last ks)) \<and> WPA e' = no_cipher"
proof -
  define X Y I where "X = concat (map other_ie xs)" and "Y = concat (map other_ie ys)" and "I = rsn_ie g ps (k # ks) cap"
  note v = assms(1)[folded X_def Y_def I_def] and n = assms(2)[folded X_def Y_def I_def]
  define e0 where "e0 = e\<lparr>WepStatus := (if Privacy e then Ndis802_11WEPEnabled else Ndis802_11WEPDisabled),
       AuthMode := Ndis802_11AuthModeOpen, AuthModeAux := Ndis802_11AuthModeOpen, WPA := no_cipher, WPA2 := no_cipher\<rparr>"
  define e1 where "e1 = rsn_result g ps (k # ks) cap e0"
  have I: "0 < length I"
    by (simp add: I_def length_rsn_ie)
  have "BssCipherParse e = parse_loop (unat (VarIELen e)) e0 0"
    by (simp add: BssCipherParse_def e0_def)
  also have "\<dots> = parse_loop (unat (VarIELen e)) e0 (length X)"
    using parse_loop_others[of 0 "[]" xs e0 "I @ Y @ z" "unat (VarIELen e)"] assms(3) n v by (simp add: e0_def X_def)
  also have "\<dots> = parse_loop (unat (VarIELen e)) e1 (length X + length I)"
    unfolding e1_def I_def
    by (rule parse_loop_rsn[where a = X and z = "Y @ z"]) (use assms(5,6) v n I in \<open>simp_all add: e0_def I_def\<close>)
  also have "\<dots> = parse_loop (unat (VarIELen e)) e1 (length X + length I + length Y)"
    using parse_loop_others[of "length X + length I" "X @ I" ys e1 z "unat (VarIELen e)"] assms(4) n v
    by (simp add: e1_def e0_def rsn_result_VarIEs Y_def)
  also have "\<dots> = Some e1"
    using n by (subst parse_loop.simps) simp
  finally have p: "BssCipherParse e = Some e1" .
  have o: "AuthMode e0 = Ndis802_11AuthModeOpen"
    by (simp add: e0_def)
  show ?thesis
    unfolding p e1_def rsn_result_def Let_def fold_set_auth_open[OF o]
    by (simp add: e0_def no_cipher_def fold_add_pair)
qed

lemma rsn_announcement_parsed_witness:
  "\<exists>e'. BssCipherParse (zero_bss\<lparr>VarIEs := rsn_ie 4 [2, 4] [2] 0 @ replicate 998 0, VarIELen := 26, BssType := 1\<rparr>) = Some e'
     \<and> PairCipher (WPA2 e') = Ndis802_11Encryption3Enabled \<and> AuthMode e' = Ndis802_11AuthModeWPA2PSK"
proof -
  have l: "length (rsn_ie 4 [2, 4] [2] 0) = 26"
    by (simp add: length_rsn_ie)
  have m: "fold max (map pair_cipher [2, 4]) Ndis802_11WEPDisabled = Ndis802_11Encryption3Enabled"
    by (simp add: pair_cipher_def max_def enum_order)
  show ?thesis
    using rsn_announcement_parsed[of "zero_bss\<lparr>VarIEs := rsn_ie 4 [2, 4] [2] 0 @ replicate 998 0, VarIELen := 26, BssType := 1\<rparr>"
        "[]" 4 "[2, 4]" 2 "[]" 0 "[]" "replicate 998 0"] l unfolding m by (auto simp: akm_mode_def)
qed

text \<open>The number of suites is not checked against the element or the array.\<close>

lemma pair_loop_None: "pair_loop n b p s = None \<longleftrightarrow> 0 < n \<and> length b < p + 4 * n"
proof (induction n arbitrary: p s)
  case (Suc n)
  then show ?case
    by (cases "p + 3 < length b") (auto simp: rd_def)
qed simp

text \<open>
  A beacon can make the parser read outside the entry's elements: an RSN element whose count of pairwise
  suites is so large that they do not fit the 1024-byte array sends \<^verbatim>\<open>BssCipherParse\<close> past its end, whatever the
  length of the element itself is. Counts up to 253 stay inside the array.
\<close>

theorem rsn_suite_count_overread:
  assumes "VarIEs e = [48, len, 1, 0] @ suite g @ le16_bytes Count @ z" and "length (VarIEs e) = MAX_VIE_LEN" and "0 < VarIELen e"
    and "254 \<le> unat Count"
  shows "BssCipherParse e = None"
proof -
  define e0 where "e0 = e\<lparr>WepStatus := (if Privacy e then Ndis802_11WEPEnabled else Ndis802_11WEPDisabled),
       AuthMode := Ndis802_11AuthModeOpen, AuthModeAux := Ndis802_11AuthModeOpen, WPA := no_cipher, WPA2 := no_cipher\<rparr>"
  have v: "VarIEs e0 = [48, len] @ le16_bytes 1 @ suite g @ le16_bytes Count @ z"
    using assms(1) by (simp add: e0_def le16_bytes_def)
  have R: "rd (VarIEs e0) 0 = Some 48" "rd16 (VarIEs e0) 2 = Some 1" "equal_memory (VarIEs e0) 4 RSN_OUI = Some True"
      "rd (VarIEs e0) 7 = Some g" "rd16 (VarIEs e0) 8 = Some Count"
    using rd16_append[of 2 "[48, len]" 1] equal_suite[of 4 "[48, len] @ le16_bytes 1" g] rd_suite[of 7 "[48, len] @ le16_bytes 1" g]
      rd16_append[of 8 "[48, len] @ le16_bytes 1 @ suite g" Count] by (simp_all add: v rd_def)
  have l: "pair_loop (unat Count) (VarIEs e0) 10 s = None" for s
    using assms(2,4) by (simp add: pair_loop_None e0_def MAX_VIE_LEN_def)
  have "rsn_element e0 0 = None"
    by (simp add: rsn_element_def R l numeral_2_eq_2[symmetric] del: add_2_eq_Suc add_2_eq_Suc')
  then have "one_element e0 0 = None"
    using R(1) by (simp add: one_element_def)
  moreover have "0 < unat (VarIELen e)"
    using assms(3) by (simp add: word_less_nat_alt)
  ultimately show ?thesis
    unfolding BssCipherParse_def e0_def[symmetric] by (subst parse_loop.simps) simp
qed


lemma rsn_suite_count_overread_witness:
  "BssCipherParse (zero_bss\<lparr>VarIEs := [48, 8, 1, 0] @ suite 4 @ le16_bytes 0xffff @ replicate 1014 0, VarIELen := 10\<rparr>) = None"
  by (rule rsn_suite_count_overread[where len = 8 and g = 4 and Count = "0xffff" and z = "replicate 1014 0"])
    (simp_all add: MAX_VIE_LEN_def)

text \<open>
  Hearing a beacon of an 80 MHz network changes the driver's own centre channel: \<^verbatim>\<open>set_ht\<close> calls
  \<^verbatim>\<open>vht_cent_ch_freq\<close> for a debug message, and that function writes \<^verbatim>\<open>CommonCfg.vht_cent_ch\<close>.
\<close>

lemma beacon_changes_own_centre_channel:
  assumes "0 < ie_HtCapabilityLen l" and "0 < ie_AddHtInfoLen l" and "ie_vht_op_len l \<noteq> 0" and "0 < ie_vht_op_ie l ! 0"
    and "ExtChanOffset (ie_AddHtInfo l) = 1" and "ChannelWidth (ie_HtCapability l) = 1" and "ControlChan (ie_AddHtInfo l) = 36"
    and "vht_bw c \<noteq> 0"
  shows "vht_cent_ch (snd (set_ht c l e)) = 42"
proof -
  have b: "\<not> vht_bw c < 1"
    using assms(8) by (simp add: word_less_1)
  have "vht_cent_ch_freq c 36 = (42, c\<lparr>vht_cent_ch := 42\<rparr>)"
    using b by (simp add: vht_cent_ch_freq_def vht_ch_80M_def)
  moreover have "get_cent_ch_by_htinfo (ie_AddHtInfo l) (ie_HtCapability l) = 38"
    using assms(5-7) by (simp add: get_cent_ch_by_htinfo_def)
  ultimately show ?thesis
    using assms(1-7) by (simp add: set_ht_def Let_def)
qed

end
