(* ===== verification/Beacon.thy ===== *)
theory Beacon
  imports Bss_Entry
begin

text \<open>
  The parser of beacons and probe responses, \<^verbatim>\<open>PeerBeaconAndProbeRspSanity\<close> of \<^verbatim>\<open>common/cmm_sanity.c\<close>, with \<^verbatim>\<open>ChannelSanity\<close> and
  \<^verbatim>\<open>GetTimBit\<close>. What it stores is the input of \<^verbatim>\<open>BssEntrySet\<close>.

  \<^item> \<open>m\<close> is the buffer of the queue element that holds the frame, \<open>n\<close> the length of the frame and \<open>off\<close> the offset of
    an element; the program's \<^verbatim>\<open>Length\<close> is this offset. A read outside \<open>m\<close> is \<open>None\<close>.
  \<^item> A step over an element ends in a \<open>flow\<close>: go on, the jump to \<^verbatim>\<open>SanityCheck\<close>, \<^verbatim>\<open>return FALSE\<close>, or \<open>Overrun\<close> when
    a move writes outside the buffer for the elements or the 512 bytes for the pieces of the WPS element.
  \<^item> Structures are their bytes, as in \<^verbatim>\<open>Bss_Entry\<close>; \<open>BCN_LIST\<close> adds the fields of \<^verbatim>\<open>BCN_IE_LIST\<close> that \<^verbatim>\<open>BssEntrySet\<close> does not read.
\<close>

section \<open>State\<close>

record BCN_LIST = BCN_IE_LIST +
  ie_Addr1 :: mac_addr
  ie_Addr2 :: mac_addr
  ie_NewChannel :: UINT8
  ie_Erp :: UINT8
  ie_DtimCount :: UINT8
  ie_DtimPeriod :: UINT8
  ie_BcastFlag :: bool
  ie_MessageToMe :: bool
  ie_AironetCellPowerLimit :: UINT8
  ie_RalinkIe :: ULONG
  ie_ExtCapInfo :: bytes
  ie_PreNHtCapabilityLen :: UINT8

record BCN_ENV =
  infra_on :: bool
  cfg_Bssid :: mac_addr
  env_Aid :: UINT16
  ChannelList :: "UINT8 list"
  LatchRfChannel :: UINT8

record BCN_ST =
  ie_list :: BCN_LIST
  LengthVIE :: UINT16
  pVIE :: bytes
  Sanity :: UINT8
  pPeerWscIe :: "bytes option"
  PeerWscIeLen :: nat
  CtrlChannel :: UINT8

datatype flow = Continue | SanityCheck | ReturnFalse | Overrun

definition RALINK_OUI :: bytes where "RALINK_OUI = [0x00, 0x0c, 0x43]"
definition PRE_N_HT_OUI :: bytes where "PRE_N_HT_OUI = [0x00, 0x90, 0x4c]"
definition CISCO_OUI :: bytes where "CISCO_OUI = [0x00, 0x40, 0x96]"
definition WME_INFO_ELEM :: bytes where "WME_INFO_ELEM = [0x00, 0x50, 0xf2, 0x02, 0x00, 0x01]"
definition WME_PARM_ELEM :: bytes where "WME_PARM_ELEM = [0x00, 0x50, 0xf2, 0x02, 0x01, 0x01]"

definition fetch :: "bytes \<Rightarrow> nat \<Rightarrow> nat \<Rightarrow> bytes option" where
  "fetch m off n = (if off + n \<le> length m then Some (take n (drop off m)) else None)"

definition ChannelSanity :: "BCN_ENV \<Rightarrow> UINT8 \<Rightarrow> bool" where
  "ChannelSanity v channel = list_ex (\<lambda>c. channel = c) (ChannelList v)"

definition upd_ie :: "(BCN_LIST \<Rightarrow> BCN_LIST) \<Rightarrow> BCN_ST \<Rightarrow> BCN_ST" where
  "upd_ie f s = s\<lparr>ie_list := f (ie_list s)\<rparr>"

section \<open>Elements\<close>

text \<open>The copy of a whole element to the list of variable elements.\<close>

definition copy_vie :: "bytes \<Rightarrow> nat \<Rightarrow> UINT8 \<Rightarrow> BCN_ST \<Rightarrow> (flow \<times> BCN_ST) option" where
  "copy_vie m off len s = do {
     d \<leftarrow> fetch m off (unat len + 2);
     if length (pVIE s) < unat (LengthVIE s) + length d then Some (Overrun, s)
     else Some (Continue, s\<lparr>pVIE := move_at (pVIE s) (unat (LengthVIE s)) d, LengthVIE := LengthVIE s + (ucast len + 2)\<rparr>) }"

definition GetTimBit :: "bytes \<Rightarrow> nat \<Rightarrow> UINT16 \<Rightarrow> BCN_LIST \<Rightarrow> BCN_LIST option" where
  "GetTimBit m off Aid l = do {
     TimLen \<leftarrow> rd m (off + 1);
     cnt \<leftarrow> rd m (off + 2);
     per \<leftarrow> rd m (off + 3);
     BitCntl \<leftarrow> rd m (off + 4);
     let l = l\<lparr>ie_DtimCount := cnt, ie_DtimPeriod := per, ie_BcastFlag := (cnt = 0 \<and> BitCntl AND 1 \<noteq> 0)\<rparr>;
     let N1 = BitCntl AND 0xfe;
     let N2 = TimLen - 4 + N1;
     if unat Aid < unat N1 * 8 \<or> (unat N2 + 1) * 8 \<le> unat Aid then Some (l\<lparr>ie_MessageToMe := False\<rparr>)
     else do {
       let MyByte = ucast (drop_bit 3 Aid) - N1;
       let MyBit = ucast (Aid AND 15) - (if MyByte AND 1 \<noteq> 0 then 8 else 0 :: UINT8);
       b \<leftarrow> rd m (off + 4 + unat MyByte + 1);
       Some (l\<lparr>ie_MessageToMe := bit (scast b :: UINT32) (unat MyBit)\<rparr>) } }"

text \<open>
  WMM parameters. The offsets are those of \<^verbatim>\<open>EDCA_PARM\<close> without \<^verbatim>\<open>bValid\<close>: four flags and the APSD flag, the update count, then \<^verbatim>\<open>Aifsn\<close>,
  \<^verbatim>\<open>Cwmin\<close> and \<^verbatim>\<open>Cwmax\<close> at 6, 10 and 14, the 16-bit \<^verbatim>\<open>Txop\<close> at 19 and \<^verbatim>\<open>bACM\<close> at 27.
\<close>

definition edca_ac :: "nat \<Rightarrow> UINT8 \<Rightarrow> UINT8 \<Rightarrow> UINT8 \<Rightarrow> UINT8 \<Rightarrow> UINT16 \<Rightarrow> bytes \<Rightarrow> bytes" where
  "edca_ac aci acm aifsn cwmin cwmax txop e =
     move_at (e[27 + aci := acm, 6 + aci := aifsn, 10 + aci := cwmin, 14 + aci := cwmax]) (19 + 2 * aci) (le16_bytes txop)"

definition edca_head :: "UINT8 \<Rightarrow> bytes \<Rightarrow> bytes" where
  "edca_head o6 e = e[1 := 0, 2 := 0, 3 := 0, 5 := o6 AND 0x0f, 4 := (if o6 AND 0x80 \<noteq> 0 then 1 else 0)]"

definition wme_ac :: "bytes \<Rightarrow> nat \<Rightarrow> bytes \<Rightarrow> bytes" where
  "wme_ac d i e =
     (let p = 8 + 4 * i; aci = unat (drop_bit 5 (d ! p AND 0x60)) in
      edca_ac aci (if d ! p AND 0x10 = 0x10 then 1 else 0) (d ! p AND 0x0f) (d ! (p + 1) AND 0x0f) (drop_bit 4 (d ! (p + 1)))
        (ucast (d ! (p + 2)) + 256 * ucast (d ! (p + 3))) e)"

definition wme_default :: "bytes \<Rightarrow> bytes" where
  "wme_default e = edca_ac 3 0 2 2 9 48 (edca_ac 2 0 2 3 10 96 (edca_ac 1 0 7 4 10 0 (edca_ac 0 0 3 4 10 0 e)))"

definition wps_piece :: "bytes \<Rightarrow> nat \<Rightarrow> UINT8 \<Rightarrow> BCN_ST \<Rightarrow> (flow \<times> BCN_ST) option" where
  "wps_piece m off len s = (case pPeerWscIe s of
       None \<Rightarrow> Some (Continue, s)
     | Some w \<Rightarrow>
         if 512 \<le> PeerWscIeLen s then Some (Continue, s)
         else if unat len < 4 \<or> length w < PeerWscIeLen s + (unat len - 4) then Some (Overrun, s)
         else do {
           d \<leftarrow> fetch m (off + 6) (unat len - 4);
           Some (Continue, s\<lparr>pPeerWscIe := Some (move_at w (PeerWscIeLen s) d), PeerWscIeLen := PeerWscIeLen s + (unat len - 4)\<rparr>) })"

definition vendor_element :: "bytes \<Rightarrow> nat \<Rightarrow> UINT8 \<Rightarrow> BCN_ST \<Rightarrow> (flow \<times> BCN_ST) option" where
  "vendor_element m off len s = do {
     ralink \<leftarrow> equal_memory m (off + 2) RALINK_OUI;
     if ralink \<and> len = 7 then do {
       o3 \<leftarrow> rd m (off + 5);
       Some (Continue, upd_ie (\<lambda>l. l\<lparr>ie_RalinkIe := (if o3 \<noteq> 0 then ucast o3 else 0xf0000000)\<rparr>) s) }
     else do {
       pren \<leftarrow> (if ie_HtCapabilityLen (ie_list s) = 0 then equal_memory m (off + 2) PRE_N_HT_OUI else Some False);
       if pren \<and> 4 \<le> unat len then do {
         o3 \<leftarrow> rd m (off + 5);
         s \<leftarrow> (if o3 = 51 \<and> 30 \<le> unat len
              then do { h \<leftarrow> fetch m (off + 6) 26; Some (upd_ie (\<lambda>l. l\<lparr>ie_HtCapability := h, ie_PreNHtCapabilityLen := 26\<rparr>) s) }
              else Some s);
         s \<leftarrow> (if o3 = 52 \<and> 26 \<le> unat len
              then do { a \<leftarrow> fetch m (off + 6) 22; Some (upd_ie (\<lambda>l. l\<lparr>ie_AddHtInfo := a, ie_AddHtInfoLen := 22\<rparr>) s) }
              else Some s);
         Some (Continue, s) }
       else do {
         wpa \<leftarrow> equal_memory m (off + 2) WPA_OUI;
         if wpa then copy_vie m off len s
         else do {
           parm \<leftarrow> equal_memory m (off + 2) WME_PARM_ELEM;
           if parm \<and> len = 24 then do {
             d \<leftarrow> fetch m (off + 2) 24;
             Some (Continue, upd_ie (\<lambda>l. l\<lparr>ie_EdcaParm := (True, fold (wme_ac d) [0..<4] (edca_head (d ! 6) (snd (ie_EdcaParm l))))\<rparr>) s) }
           else do {
             info \<leftarrow> equal_memory m (off + 2) WME_INFO_ELEM;
             if info \<and> len = 7 then do {
               o6 \<leftarrow> rd m (off + 8);
               Some (Continue, upd_ie (\<lambda>l. l\<lparr>ie_EdcaParm := (True, wme_default (edca_head o6 (snd (ie_EdcaParm l))))\<rparr>) s) }
             else do {
               wps \<leftarrow> equal_memory m (off + 2) WPS_OUI;
               if wps then wps_piece m off len s else Some (Continue, s) } } } } } }"

definition ht_cap_element :: "bytes \<Rightarrow> nat \<Rightarrow> UINT8 \<Rightarrow> BCN_ST \<Rightarrow> (flow \<times> BCN_ST) option" where
  "ht_cap_element m off len s =
     (if 26 \<le> unat len then do {
        d \<leftarrow> fetch m (off + 2) 26;
        copy_vie m off len (upd_ie (\<lambda>l. l\<lparr>ie_HtCapability := d, ie_HtCapabilityLen := 26, ie_PreNHtCapabilityLen := 0\<rparr>) s) }
      else Some (Continue, s))"

definition add_ht_element :: "bytes \<Rightarrow> nat \<Rightarrow> UINT8 \<Rightarrow> BCN_ST \<Rightarrow> (flow \<times> BCN_ST) option" where
  "add_ht_element m off len s =
     (if 22 \<le> unat len then do {
        d \<leftarrow> fetch m (off + 2) 22;
        copy_vie m off len (upd_ie (\<lambda>l. l\<lparr>ie_AddHtInfo := d, ie_AddHtInfoLen := 22\<rparr>) (s\<lparr>CtrlChannel := d ! 0\<rparr>)) }
      else Some (Continue, s))"

definition cf_element :: "bytes \<Rightarrow> nat \<Rightarrow> UINT8 \<Rightarrow> BCN_ST \<Rightarrow> (flow \<times> BCN_ST) option" where
  "cf_element m off len s =
     (if len = 6 then do {
        d \<leftarrow> fetch m (off + 2) 6;
        Some (Continue, upd_ie (\<lambda>l. l\<lparr>ie_CfParm := (True, d ! 0, d ! 1, ucast (d ! 2) + 256 * ucast (d ! 3), ucast (d ! 4) + 256 * ucast (d ! 5))\<rparr>) s) }
      else Some (ReturnFalse, s))"

definition qbss_element :: "bytes \<Rightarrow> nat \<Rightarrow> UINT8 \<Rightarrow> BCN_ST \<Rightarrow> (flow \<times> BCN_ST) option" where
  "qbss_element m off len s =
     (if len = 5 then do {
        d \<leftarrow> fetch m (off + 2) 5;
        copy_vie m off len (upd_ie (\<lambda>l. l\<lparr>ie_QbssLoad := (True, move_at ((snd (ie_QbssLoad l))[3 := d ! 2, 5 := d ! 3, 6 := d ! 4]) 1 [d ! 0, d ! 1])\<rparr>) s) }
      else Some (Continue, s))"

definition set_if :: "bool \<Rightarrow> bytes option \<Rightarrow> (bytes \<Rightarrow> BCN_LIST \<Rightarrow> BCN_LIST) \<Rightarrow> BCN_ST \<Rightarrow> (flow \<times> BCN_ST) option" where
  "set_if c d f s = (if c then do { d \<leftarrow> d; Some (Continue, upd_ie (f d) s) } else Some (Continue, s))"

text \<open>The switch over the kind of an element.\<close>

definition bcn_element :: "BCN_ENV \<Rightarrow> UINT8 \<Rightarrow> bytes \<Rightarrow> nat \<Rightarrow> UINT8 \<Rightarrow> UINT8 \<Rightarrow> BCN_ST \<Rightarrow> (flow \<times> BCN_ST) option" where
  "bcn_element v SubType m off eid len s =
     (if eid = 0 then
        (if Sanity s AND 1 \<noteq> 0 then Some (Continue, s)
         else if unat len \<le> MAX_LEN_OF_SSID then do {
           d \<leftarrow> fetch m (off + 2) (unat len);
           Some (Continue, upd_ie (\<lambda>l. l\<lparr>ie_Ssid := move_at (ie_Ssid l) 0 d, ie_SsidLen := len\<rparr>) (s\<lparr>Sanity := Sanity s OR 1\<rparr>)) }
         else Some (SanityCheck, s))
      else if eid = 1 then
        (if unat len \<le> MAX_LEN_OF_SUPPORTED_RATES then do {
           d \<leftarrow> fetch m (off + 2) (unat len);
           Some (Continue, upd_ie (\<lambda>l. l\<lparr>ie_SupRate := move_at (ie_SupRate l) 0 d, ie_SupRateLen := len\<rparr>) (s\<lparr>Sanity := Sanity s OR 2\<rparr>)) }
         else Some (SanityCheck, s))
      else if eid = 45 then ht_cap_element m off len s
      else if eid = 61 then add_ht_element m off len s
      else if eid = 62 then set_if (len = 1) (fetch m (off + 2) 1) (\<lambda>d l. l\<lparr>ie_NewExtChannelOffset := d ! 0\<rparr>) s
      else if eid = 3 then
        (if len = 1 then do {
           c \<leftarrow> rd m (off + 2);
           let s = upd_ie (\<lambda>l. l\<lparr>ie_Channel := c\<rparr>) s;
           if \<not> ChannelSanity v c then Some (SanityCheck, s) else Some (Continue, s\<lparr>Sanity := Sanity s OR 4\<rparr>) }
         else Some (SanityCheck, s))
      else if eid = 4 then cf_element m off len s
      else if eid = 6 then
        (if len = 2 then do { w \<leftarrow> rd16 m (off + 2); Some (Continue, upd_ie (\<lambda>l. l\<lparr>ie_AtimWin := w\<rparr>) s) }
         else Some (ReturnFalse, s))
      else if eid = 5 then
        (if SubType = 8 \<and> infra_on v \<and> ie_Bssid (ie_list s) = cfg_Bssid v then do {
           l \<leftarrow> GetTimBit m off (env_Aid v) (ie_list s);
           Some (Continue, s\<lparr>ie_list := l\<rparr>) }
         else Some (Continue, s))
      else if eid = 37 then set_if (len = 3) (fetch m (off + 2) 3) (\<lambda>d l. l\<lparr>ie_NewChannel := d ! 1\<rparr>) s
      else if eid = 221 then vendor_element m off len s
      else if eid = 50 then
        set_if (unat len \<le> MAX_LEN_OF_SUPPORTED_RATES) (fetch m (off + 2) (unat len))
          (\<lambda>d l. l\<lparr>ie_ExtRate := move_at (ie_ExtRate l) 0 d, ie_ExtRateLen := len\<rparr>) s
      else if eid = 42 then set_if (len = 1) (fetch m (off + 2) 1) (\<lambda>d l. l\<lparr>ie_Erp := d ! 0\<rparr>) s
      else if eid = 133 then set_if (28 \<le> unat len) (fetch m (off + 10) 1) (\<lambda>d l. l\<lparr>ie_CkipFlag := d ! 0\<rparr>) s
      else if eid = 150 then
        set_if (len = 6) (fetch m (off + 2) 6)
          (\<lambda>d l. if take 3 d = CISCO_OUI then l\<lparr>ie_AironetCellPowerLimit := d ! 4\<rparr> else l) s
      else if eid = 48 then do {
        rsn \<leftarrow> equal_memory m (off + 4) RSN_OUI;
        if rsn then copy_vie m off len s else Some (Continue, s) }
      else if eid = 7 then copy_vie m off len s
      else if eid = 11 then qbss_element m off len s
      else if eid = 127 then set_if (1 \<le> unat len) (fetch m (off + 2) 4) (\<lambda>d l. l\<lparr>ie_ExtCapInfo := d\<rparr>) s
      else if eid = 191 then set_if (len = 12) (fetch m (off + 2) 12) (\<lambda>d l. l\<lparr>ie_vht_cap_ie := d, ie_vht_cap_len := len\<rparr>) s
      else if eid = 192 then set_if (len = 5) (fetch m (off + 2) 5) (\<lambda>d l. l\<lparr>ie_vht_op_ie := d, ie_vht_op_len := len\<rparr>) s
      else Some (Continue, s))"

section \<open>The parser\<close>

function bcn_loop :: "BCN_ENV \<Rightarrow> UINT8 \<Rightarrow> bytes \<Rightarrow> nat \<Rightarrow> nat \<Rightarrow> BCN_ST \<Rightarrow> (flow \<times> BCN_ST) option" where
  "bcn_loop v SubType m n off s = do {
     len \<leftarrow> rd m (off + 1);
     if off + 2 + unat len \<le> n then
       (if MAX_VIE_LEN \<le> unat (LengthVIE s) + unat len + 2 then Some (Continue, s)
        else do {
          eid \<leftarrow> rd m off;
          r \<leftarrow> bcn_element v SubType m off eid len s;
          if fst r = Continue then bcn_loop v SubType m n (off + 2 + unat len) (snd r) else Some r })
     else Some (Continue, s) }"
  by auto
termination by (relation "measure (\<lambda>(v, t, m, n, off, s). n - off)") auto

declare bcn_loop.simps [simp del]

text \<open>The fixed fields; \<^verbatim>\<open>Msg\<close> has at least the 36 bytes of them.\<close>

definition bcn_fixed :: "bytes \<Rightarrow> BCN_LIST \<Rightarrow> BCN_LIST" where
  "bcn_fixed m l =
     (let cap = ucast (m ! 34) OR push_bit 8 (ucast (m ! 35)) in
      l\<lparr>ie_AironetCellPowerLimit := 0xff, ie_NewExtChannelOffset := 0xff,
        ie_Addr1 := take 6 (drop 4 m), ie_Addr2 := take 6 (drop 10 m), ie_Bssid := take 6 (drop 16 m),
        ie_TimeStamp := take 8 (drop 24 m), ie_BeaconPeriod := ucast (m ! 32) OR push_bit 8 (ucast (m ! 33)), ie_CapabilityInfo := cap,
        ie_BssType := (if cap AND 1 \<noteq> 0 then 1 else 0)\<rparr>)"

definition latch_channel :: "BCN_ENV \<Rightarrow> UINT8 \<Rightarrow> BCN_ST \<Rightarrow> BCN_ST" where
  "latch_channel v MsgChannel s =
     (if 14 < unat (LatchRfChannel v) \<and> Sanity s AND 4 = 0
      then upd_ie (\<lambda>l. l\<lparr>ie_Channel := (if CtrlChannel s \<noteq> 0 then CtrlChannel s else MsgChannel)\<rparr>) (s\<lparr>Sanity := Sanity s OR 4\<rparr>)
      else s)"

definition append_wsc :: "BCN_ST \<Rightarrow> flow \<times> BCN_ST" where
  "append_wsc s = (case pPeerWscIe s of
       None \<Rightarrow> (Continue, s)
     | Some w \<Rightarrow>
         if 0 < PeerWscIeLen s \<and> PeerWscIeLen s < 512 then
           if length (pVIE s) < unat (LengthVIE s) + 6 + PeerWscIeLen s then (Overrun, s)
           else (Continue, s\<lparr>pVIE := move_at (pVIE s) (unat (LengthVIE s))
                      ([0xdd, of_nat (PeerWscIeLen s + 4), 0x00, 0x50, 0xF2, 0x04] @ take (PeerWscIeLen s) w),
                    LengthVIE := LengthVIE s + of_nat (PeerWscIeLen s + 6)\<rparr>)
         else (Continue, s))"

text \<open>The result is the value returned, the parsed fields and the variable elements; \<open>wsc\<close> is the outcome of the allocation.\<close>

datatype bcn_result = Parsed bool BCN_LIST UINT16 bytes | BufferOverrun

definition PeerBeaconAndProbeRspSanity ::
    "BCN_ENV \<Rightarrow> bytes \<Rightarrow> nat \<Rightarrow> UINT8 \<Rightarrow> BCN_LIST \<Rightarrow> bytes \<Rightarrow> bytes option \<Rightarrow> bcn_result option" where
  "PeerBeaconAndProbeRspSanity v m MsgLen MsgChannel l vie wsc =
     (if length m < 36 then None
      else do {
        r \<leftarrow> bcn_loop v (drop_bit 4 (m ! 0)) m MsgLen 36
             \<lparr>ie_list = bcn_fixed m l, LengthVIE = 0, pVIE = vie, Sanity = 0, pPeerWscIe = wsc, PeerWscIeLen = 0, CtrlChannel = 0\<rparr>;
        let (f, s) = (if fst r = Continue then append_wsc (latch_channel v MsgChannel (snd r)) else r);
        Some (if f = Overrun then BufferOverrun
              else Parsed (f \<noteq> ReturnFalse \<and> Sanity s = 7) (ie_list s) (LengthVIE s) (pVIE s)) })"

section \<open>Frames of up to 548 bytes stay inside the buffers\<close>

text \<open>The lengths that the parsed fields keep, and the invariant of the loop at offset \<open>off\<close>.\<close>

definition l_ok :: "BCN_LIST \<Rightarrow> bool" where
  "l_ok l \<longleftrightarrow> length (ie_Ssid l) = 32 \<and> unat (ie_SsidLen l) \<le> 32 \<and> length (ie_SupRate l) = 12 \<and> unat (ie_SupRateLen l) \<le> 12
     \<and> length (ie_ExtRate l) = 12 \<and> unat (ie_ExtRateLen l) \<le> 12 \<and> unat (ie_HtCapabilityLen l) \<le> 26 \<and> unat (ie_AddHtInfoLen l) \<le> 22
     \<and> unat (ie_vht_cap_len l) \<le> 12 \<and> unat (ie_vht_op_len l) \<le> 5"

definition room :: "nat \<Rightarrow> BCN_ST \<Rightarrow> bool" where
  "room off s \<longleftrightarrow> length (pVIE s) = 1024 \<and> (\<forall>w. pPeerWscIe s = Some w \<longrightarrow> length w = 512)
     \<and> 36 + unat (LengthVIE s) + (if PeerWscIeLen s = 0 then 0 else PeerWscIeLen s + 6) \<le> off"

definition st_ok :: "nat \<Rightarrow> BCN_ST \<Rightarrow> bool" where
  "st_ok off s \<longleftrightarrow> l_ok (ie_list s) \<and> room off s"

definition fine :: "nat \<Rightarrow> (flow \<times> BCN_ST) option \<Rightarrow> bool" where
  "fine off r \<longleftrightarrow> (\<exists>f s. r = Some (f, s) \<and> f \<noteq> Overrun \<and> st_ok off s)"

lemma fine_Some: "st_ok off s \<Longrightarrow> f \<noteq> Overrun \<Longrightarrow> fine off (Some (f, s))"
  by (simp add: fine_def)

lemma fine_if: "(c \<Longrightarrow> fine off a) \<Longrightarrow> (\<not> c \<Longrightarrow> fine off b) \<Longrightarrow> fine off (if c then a else b)"
  by simp

lemma fine_rd: "i < length m \<Longrightarrow> (\<And>x. fine off (f x)) \<Longrightarrow> fine off (Option.bind (rd m i) f)"
  by (simp add: rd_def)

lemma fine_rd16: "i + 1 < length m \<Longrightarrow> (\<And>x. fine off (f x)) \<Longrightarrow> fine off (Option.bind (rd16 m i) f)"
  by (simp add: rd16_def rd_def)

lemma fine_fetch: "i + k \<le> length m \<Longrightarrow> (\<And>d. length d = k \<Longrightarrow> fine off (f d)) \<Longrightarrow> fine off (Option.bind (fetch m i k) f)"
  by (simp add: fetch_def)

lemma fine_equal:
  "i + length b \<le> length m \<Longrightarrow> (\<And>x. x \<longleftrightarrow> take (length b) (drop i m) = b \<Longrightarrow> fine off (f x)) \<Longrightarrow> fine off (Option.bind (equal_memory m i b) f)"
  by (simp add: equal_memory_def)

lemma fine_bind_if:
  "(c \<Longrightarrow> fine off (Option.bind a f)) \<Longrightarrow> (\<not> c \<Longrightarrow> fine off (Option.bind b f)) \<Longrightarrow> fine off (Option.bind (if c then a else b) f)"
  by simp

lemma fine_bind_Some: "fine off (f x) \<Longrightarrow> fine off (Option.bind (Some x) f)"
  by simp

lemma fine_assoc: "fine off (Option.bind a (\<lambda>x. Option.bind (g x) f)) \<Longrightarrow> fine off (Option.bind (Option.bind a g) f)"
  by (simp add: Option.bind_assoc)

lemma fine_set_if:
  assumes "st_ok off s" and "i + k \<le> length m" and "\<And>d. c \<Longrightarrow> length d = k \<Longrightarrow> l_ok (f d (ie_list s))"
  shows "fine off (set_if c (fetch m i k) f s)"
  using assms by (auto simp: set_if_def fetch_def fine_def st_ok_def room_def upd_ie_def)

lemma st_ok_mono: "st_ok off s \<Longrightarrow> off \<le> off' \<Longrightarrow> st_ok off' s"
  by (auto simp: st_ok_def room_def)

lemma st_ok_ie: "st_ok off s \<Longrightarrow> l_ok (f (ie_list s)) \<Longrightarrow> st_ok off (upd_ie f s)"
  by (auto simp: st_ok_def room_def upd_ie_def)

lemma st_ok_fields: "st_ok off (s\<lparr>Sanity := x\<rparr>) = st_ok off s" "st_ok off (s\<lparr>CtrlChannel := c\<rparr>) = st_ok off s"
  "ie_list (s\<lparr>Sanity := x\<rparr>) = ie_list s" "ie_list (s\<lparr>CtrlChannel := c\<rparr>) = ie_list s"
  by (simp_all add: st_ok_def room_def)

lemma len_bound: "unat (b :: UINT8) < 256"
  using unsigned_less[of b, where 'a = nat] by simp

lemma copy_vie_fine:
  assumes "st_ok off s" and "off + 2 + unat len \<le> 548" and "length m = 1600"
  shows "fine (off + 2 + unat len) (copy_vie m off len s)"
proof -
  have r: "36 + unat (LengthVIE s) + (if PeerWscIeLen s = 0 then 0 else PeerWscIeLen s + 6) \<le> off" "length (pVIE s) = 1024"
    using assms(1) by (auto simp: st_ok_def room_def)
  have l: "unat (ucast len + 2 :: UINT16) = unat len + 2"
  proof -
    have "unat (ucast len :: UINT16) = unat len" using len_bound[of len] by (simp add: unsigned_ucast_eq take_bit_nat_eq_self)
    then show ?thesis using len_bound[of len] by (subst unat_add_lem[THEN iffD1]) simp_all
  qed
  have u: "unat (LengthVIE s + (ucast len + 2)) = unat (LengthVIE s) + (unat len + 2)"
    using r(1) assms(2) l by (subst unat_add_lem[THEN iffD1]) simp_all
  show ?thesis
    using assms r u unfolding fine_def copy_vie_def fetch_def st_ok_def room_def by (auto split: if_splits)
qed

text \<open>A WPS element that is too short for its identifier.\<close>

definition short_wps :: "bytes \<Rightarrow> nat \<Rightarrow> bool" where
  "short_wps m i \<longleftrightarrow> m ! i = 221 \<and> unat (m ! (i + 1)) < 4 \<and> take 4 (drop (i + 2) m) = WPS_OUI"

lemma wps_piece_fine:
  assumes "st_ok off s" and "off + 2 + unat len \<le> 548" and "length m = 1600" and "4 \<le> unat len"
  shows "fine (off + 2 + unat len) (wps_piece m off len s)"
proof (cases "pPeerWscIe s")
  case None
  then show ?thesis using st_ok_mono[OF assms(1)] by (simp add: wps_piece_def fine_def)
next
  case (Some w)
  have r: "36 + unat (LengthVIE s) + (if PeerWscIeLen s = 0 then 0 else PeerWscIeLen s + 6) \<le> off" "length w = 512"
    using assms(1) Some by (auto simp: st_ok_def room_def)
  have "36 + unat (LengthVIE s) + (PeerWscIeLen s + (unat len - 4)) + 6 \<le> off + 2 + unat len" "PeerWscIeLen s + (unat len - 4) \<le> 512"
    using r(1) assms(2,4) by (auto split: if_splits)
  then show ?thesis
    using assms st_ok_mono[OF assms(1), of "off + 2 + unat len"] r(2) Some
    by (auto simp: wps_piece_def fetch_def fine_def st_ok_def room_def)
qed

lemma oui_lengths: "length RALINK_OUI = 3" "length PRE_N_HT_OUI = 3" "length WPA_OUI = 4" "length WME_PARM_ELEM = 6" "length WME_INFO_ELEM = 6"
  "length WPS_OUI = 4" "length RSN_OUI = 3"
  by (simp_all add: RALINK_OUI_def PRE_N_HT_OUI_def WPA_OUI_def WME_PARM_ELEM_def WME_INFO_ELEM_def WPS_OUI_def RSN_OUI_def)

lemma vendor_fine:
  assumes "st_ok off s" and "off + 2 + unat len \<le> 548" and "length m = 1600" and "m ! off = 221" and "m ! (off + 1) = len" and "\<not> short_wps m off"
  shows "fine (off + 2 + unat len) (vendor_element m off len s)"
proof -
  have s1: "st_ok (off + 2 + unat len) s" by (rule st_ok_mono[OF assms(1)]) simp
  have ok: "l_ok (ie_list s)" using assms(1) by (simp add: st_ok_def)
  have w: "take 4 (drop (Suc (Suc off)) m) = WPS_OUI \<Longrightarrow> fine (Suc (Suc (off + unat len))) (wps_piece m off len s)"
    using wps_piece_fine[OF assms(1-3)] assms(4-6) by (auto simp: short_wps_def)
  show ?thesis
    unfolding vendor_element_def
    by (intro fine_equal fine_if fine_rd fine_fetch fine_bind_if fine_bind_Some fine_assoc)
      (use w assms(2,3) s1 ok copy_vie_fine[OF assms(1-3)] in \<open>auto simp: oui_lengths l_ok_def upd_ie_def intro!: fine_Some st_ok_ie[unfolded upd_ie_def]\<close>)
qed

lemma GetTimBit_ok:
  assumes "off + 262 \<le> length m" and "l_ok l"
  shows "\<exists>l'. GetTimBit m off Aid l = Some l' \<and> l_ok l'"
proof -
  have r: "rd m (off + i) = Some (m ! (off + i))" if "i < 262" for i using that assms(1) by (simp add: rd_def)
  have b: "rd m (off + 4 + unat (b :: UINT8) + 1) = Some (m ! (off + 4 + unat b + 1))" for b
    using len_bound[of b] assms(1) by (simp add: rd_def)
  have r4: "rd m (off + 1) = Some (m ! (off + 1))" "rd m (off + 2) = Some (m ! (off + 2))" "rd m (off + 3) = Some (m ! (off + 3))" "rd m (off + 4) = Some (m ! (off + 4))"
    by (rule r; simp)+
  show ?thesis unfolding GetTimBit_def Let_def r4 b Option.bind.bind_lunit using assms(2) by (auto simp: l_ok_def)
qed

lemma small_element_fine:
  assumes "st_ok off s" and "off + 2 + unat len \<le> 548" and "length m = 1600"
  shows "fine (off + 2 + unat len) (ht_cap_element m off len s)" "fine (off + 2 + unat len) (add_ht_element m off len s)"
    "fine (off + 2 + unat len) (cf_element m off len s)" "fine (off + 2 + unat len) (qbss_element m off len s)"
proof -
  have s1: "st_ok (off + 2 + unat len) s" by (rule st_ok_mono[OF assms(1)]) simp
  have ok: "l_ok (ie_list s)" using assms(1) by (simp add: st_ok_def)
  have c: "l_ok (f (ie_list s)) \<Longrightarrow> fine (off + 2 + unat len) (copy_vie m off len (upd_ie f s))"
    "l_ok (f (ie_list s)) \<Longrightarrow> fine (off + 2 + unat len) (copy_vie m off len (upd_ie f (s\<lparr>CtrlChannel := x\<rparr>)))" for f x
    by (rule copy_vie_fine[OF st_ok_ie assms(2,3)]; simp add: st_ok_fields assms(1))+
  show "fine (off + 2 + unat len) (ht_cap_element m off len s)"
    unfolding ht_cap_element_def by (intro fine_if fine_fetch c fine_Some s1) (use ok assms in \<open>simp_all add: l_ok_def\<close>)
  show "fine (off + 2 + unat len) (add_ht_element m off len s)"
    unfolding add_ht_element_def by (intro fine_if fine_fetch c fine_Some s1) (use ok assms in \<open>simp_all add: l_ok_def\<close>)
  show "fine (off + 2 + unat len) (cf_element m off len s)"
    unfolding cf_element_def by (intro fine_if fine_fetch fine_Some st_ok_ie s1) (use ok assms in \<open>simp_all add: l_ok_def\<close>)
  show "fine (off + 2 + unat len) (qbss_element m off len s)"
    unfolding qbss_element_def by (intro fine_if fine_fetch c fine_Some s1) (use ok assms in \<open>simp_all add: l_ok_def\<close>)
qed

lemma element_fine:
  assumes "st_ok off s" and "off + 2 + unat len \<le> 548" and "length m = 1600" and "m ! off = eid" and "m ! (off + 1) = len" and "\<not> short_wps m off"
  shows "fine (off + 2 + unat len) (bcn_element v t m off eid len s)"
proof -
  have s1: "st_ok (off + 2 + unat len) s" by (rule st_ok_mono[OF assms(1)]) simp
  have ok: "l_ok (ie_list s)" using assms(1) by (simp add: st_ok_def)
  have tim: "fine (off + 2 + unat len) (do { l \<leftarrow> GetTimBit m off a (ie_list s); Some (Continue, s\<lparr>ie_list := l\<rparr>) })" for a
  proof -
    obtain l' where l: "GetTimBit m off a (ie_list s) = Some l'" "l_ok l'" using GetTimBit_ok[of off m "ie_list s" a] ok assms(2,3) by auto
    have "st_ok (off + 2 + unat len) (upd_ie (\<lambda>_. l') s)" using s1 l(2) by (rule st_ok_ie)
    then show ?thesis using l(1) by (simp add: fine_def upd_ie_def)
  qed
  have vend: "eid = 221 \<Longrightarrow> fine (off + 2 + unat len) (vendor_element m off len s)"
    using vendor_fine[OF assms(1-3) _ assms(5,6)] assms(4) by simp
  note k = len_bound[of len]
  show ?thesis
    unfolding bcn_element_def Let_def
    by (intro fine_if fine_rd fine_rd16 fine_fetch fine_equal fine_set_if fine_Some st_ok_ie s1 tim vend copy_vie_fine small_element_fine assms(1-3))
      (use ok s1 assms(2,3) k in \<open>auto simp: l_ok_def st_ok_fields oui_lengths MAX_LEN_OF_SSID_def MAX_LEN_OF_SUPPORTED_RATES_def intro!: st_ok_ie\<close>)
qed

lemma loop_fine:
  assumes "length m = 1600" and "n \<le> 548" and "\<And>i. i < n \<Longrightarrow> \<not> short_wps m i" and "st_ok off s" and "off \<le> n"
  shows "\<exists>f s' off'. bcn_loop v t m n off s = Some (f, s') \<and> f \<noteq> Overrun \<and> st_ok off' s' \<and> off' \<le> n"
  using assms
proof (induction v t m n off s rule: bcn_loop.induct)
  case (1 v t m n off s)
  define len where "len = m ! (off + 1)"
  have r: "rd m (off + 1) = Some len" "rd m off = Some (m ! off)" using "1.prems" by (simp_all add: rd_def len_def)
  show ?case
  proof (cases "off + 2 + unat len \<le> n \<and> \<not> MAX_VIE_LEN \<le> unat (LengthVIE s) + unat len + 2")
    case False
    then show ?thesis using r "1.prems"(4,5) by (auto simp: bcn_loop.simps[of v t m n off s])
  next
    case True
    have "fine (off + 2 + unat len) (bcn_element v t m off (m ! off) len s)"
      by (rule element_fine[OF "1.prems"(4) _ "1.prems"(1)]) (use True "1.prems"(2,3) in \<open>auto simp: len_def\<close>)
    then obtain f s' where e: "bcn_element v t m off (m ! off) len s = Some (f, s')" "f \<noteq> Overrun" "st_ok (off + 2 + unat len) s'"
      by (auto simp: fine_def)
    show ?thesis
    proof (cases "f = Continue")
      case True
      have "\<exists>f' s'' off'. bcn_loop v t m n (off + 2 + unat len) s' = Some (f', s'') \<and> f' \<noteq> Overrun \<and> st_ok off' s'' \<and> off' \<le> n"
        using "1.IH"[OF r(1) _ _ r(2) e(1)] \<open>off + 2 + unat len \<le> n \<and> _\<close> True e(3) "1.prems" by auto
      then show ?thesis using r e(1) True \<open>off + 2 + unat len \<le> n \<and> _\<close> by (simp add: bcn_loop.simps[of v t m n off s])
    next
      case False
      then show ?thesis using r e True by (auto simp: bcn_loop.simps[of v t m n off s])
    qed
  qed
qed

lemma append_wsc_fine:
  assumes "st_ok off s" and "off \<le> 548"
  shows "\<exists>s'. append_wsc s = (Continue, s') \<and> ie_list s' = ie_list s \<and> length (pVIE s') = 1024 \<and> 36 + unat (LengthVIE s') \<le> 548 \<and> Sanity s' = Sanity s"
proof (cases "pPeerWscIe s = None \<or> PeerWscIeLen s = 0 \<or> 512 \<le> PeerWscIeLen s")
  case True
  then show ?thesis using assms by (auto simp: append_wsc_def st_ok_def room_def split: option.splits if_splits)
next
  case False
  then obtain w where w: "pPeerWscIe s = Some w" "0 < PeerWscIeLen s" "PeerWscIeLen s < 512" by auto
  have r: "36 + unat (LengthVIE s) + (PeerWscIeLen s + 6) \<le> 548" "length (pVIE s) = 1024" "length w = 512"
    using assms w by (auto simp: st_ok_def room_def)
  have "unat (LengthVIE s + of_nat (PeerWscIeLen s + 6)) = unat (LengthVIE s) + (PeerWscIeLen s + 6)"
  proof -
    have "unat (of_nat (PeerWscIeLen s + 6) :: UINT16) = PeerWscIeLen s + 6" using r(1) by (simp add: unat_of_nat take_bit_nat_eq_self del: of_nat_add)
    then show ?thesis using r(1) by (subst unat_add_lem[THEN iffD1]) simp_all
  qed
  then show ?thesis using w r by (simp add: append_wsc_def del: of_nat_add)
qed

text \<open>
  \<^bold>\<open>C25\<close> Frames of up to 548 bytes are parsed inside all buffers. For every beacon or probe response of at most that length, whatever its bytes, in which no WPS element is shorter than its own
  identifier, the parser returns: no read leaves the 1600 bytes of the queue element, no move leaves the list of variable elements or the
  collected WPS data, and the lengths it reports are those for which \<^verbatim>\<open>BssEntrySet\<close> stays inside the scan table.
\<close>

theorem beacon_parse_safe:
  assumes "length m = 1600" and "36 \<le> n" and "n \<le> 548" and "\<And>i. i < n \<Longrightarrow> \<not> short_wps m i" and "l_ok l" and "length vie = 1024"
    and "wsc = None \<or> (\<exists>w. wsc = Some w \<and> length w = 512)"
  shows "\<exists>ok l' k vie'. PeerBeaconAndProbeRspSanity v m n ch l vie wsc = Some (Parsed ok l' k vie') \<and> l_ok l' \<and> length vie' = 1024
    \<and> 36 + unat k \<le> 548 \<and> moves_fit (BCN_IE_LIST.truncate l') (unat k)"
proof -
  define s0 where "s0 = \<lparr>ie_list = bcn_fixed m l, LengthVIE = 0, pVIE = vie, Sanity = 0, pPeerWscIe = wsc, PeerWscIeLen = 0, CtrlChannel = 0\<rparr>"
  have "st_ok 36 s0" using assms(5-7) by (auto simp: s0_def st_ok_def room_def l_ok_def bcn_fixed_def Let_def)
  then obtain f s off where r: "bcn_loop v (drop_bit 4 (m ! 0)) m n 36 s0 = Some (f, s)" "f \<noteq> Overrun" "st_ok off s" "off \<le> n"
    using loop_fine[OF assms(1,3,4) _ assms(2)] by blast
  define s1 where "s1 = latch_channel v ch s"
  have s1: "st_ok off s1" unfolding s1_def latch_channel_def using r(3)
    by (auto simp: st_ok_fields intro!: st_ok_ie) (simp_all add: st_ok_def l_ok_def)
  obtain s2 where s2: "append_wsc s1 = (Continue, s2)" "ie_list s2 = ie_list s1" "length (pVIE s2) = 1024" "36 + unat (LengthVIE s2) \<le> 548"
    using append_wsc_fine[OF s1] r(4) assms(3) by auto
  have m: "l_ok x \<Longrightarrow> unat k \<le> 512 \<Longrightarrow> moves_fit (BCN_IE_LIST.truncate x) (unat k)" for x k
    by (simp add: l_ok_def moves_fit_def MAX_LEN_OF_SSID_def MAX_VIE_LEN_def BCN_IE_LIST.truncate_def)
  have e: "PeerBeaconAndProbeRspSanity v m n ch l vie wsc = Some (if f = Continue then Parsed (Sanity s2 = 7) (ie_list s2) (LengthVIE s2) (pVIE s2)
      else Parsed (f \<noteq> ReturnFalse \<and> Sanity s = 7) (ie_list s) (LengthVIE s) (pVIE s))"
    using assms(1) r(1,2) s2(1) by (simp add: PeerBeaconAndProbeRspSanity_def s0_def[symmetric] s1_def)
  have "l_ok (ie_list s)" "length (pVIE s) = 1024" "36 + unat (LengthVIE s) \<le> 548" "l_ok (ie_list s2)"
    using r(3,4) s1 s2(2) assms(3) by (auto simp: st_ok_def room_def)
  then show ?thesis unfolding e using s2(3,4) m by (cases "f = Continue") auto
qed

section \<open>Steps over given elements\<close>

lemma loop_at:
  assumes "m = a @ other_ie (eid, d) @ z" and "off = length a" and "length d < 256" and "off + 2 + length d \<le> n"
    and "unat (LengthVIE s) + length d + 2 < 1024" and "bcn_element v t m off eid (of_nat (length d)) s = Some (f, s')"
  shows "bcn_loop v t m n off s = (if f = Continue then bcn_loop v t m n (off + 2 + length d) s' else Some (f, s'))"
proof -
  have "rd m off = Some eid" "rd m (off + 1) = Some (of_nat (length d))"
    unfolding assms(1,2) by (simp_all add: rd_def other_ie_def nth_append)
  then show ?thesis
    using assms(3-6) by (simp add: bcn_loop.simps[of v t m n off s] unat_of_nat_byte MAX_VIE_LEN_def)
qed

lemma loop_end:
  assumes "n + 1 < length m"
  shows "bcn_loop v t m n n s = Some (Continue, s)"
  using assms by (simp add: bcn_loop.simps[of v t m n n s] rd_def)

lemma fetch_at: "fetch (a @ d @ z) (length a) (length d) = Some d"
  by (simp add: fetch_def)

lemma equal_memory_drop: "i + length b \<le> length m \<Longrightarrow> equal_memory m i b = Some (take (length b) (drop i m) = b)"
  by (simp add: equal_memory_def)

definition silent :: "UINT8 \<times> bytes \<Rightarrow> bool" where
  "silent x \<longleftrightarrow> fst x \<notin> set [0, 1, 3, 4, 5, 6, 7, 11, 37, 42, 45, 48, 50, 61, 62, 127, 133, 150, 191, 192, 221] \<and> length (snd x) < 256"

lemma silent_element: "silent (i, d) \<Longrightarrow> bcn_element v t m off i len s = Some (Continue, s)"
  by (simp add: silent_def bcn_element_def)

lemma loop_silent:
  assumes "off = length a" and "list_all silent xs" and "m = a @ concat (map other_ie xs) @ z"
    and "off + length (concat (map other_ie xs)) \<le> n" and "unat (LengthVIE s) < 760"
  shows "bcn_loop v t m n off s = bcn_loop v t m n (off + length (concat (map other_ie xs))) s"
  using assms
proof (induction xs arbitrary: a off)
  case (Cons x xs)
  obtain i d where x: "x = (i, d)" by (cases x)
  have d: "length d < 256" using Cons.prems(2) by (simp add: x silent_def)
  have l: "length (concat (map other_ie (x # xs))) = 2 + length d + length (concat (map other_ie xs))" by (simp add: x other_ie_def)
  have "bcn_loop v t m n off s = bcn_loop v t m n (off + 2 + length d) s"
    using loop_at[of m a i d "concat (map other_ie xs) @ z" off n s v t Continue s] Cons.prems l d silent_element[of i d] by (simp add: x)
  also have "\<dots> = bcn_loop v t m n (off + 2 + length d + length (concat (map other_ie xs))) s"
    by (rule Cons.IH[of _ "a @ other_ie x"]) (use Cons.prems l in \<open>simp_all add: x other_ie_def\<close>)
  finally show ?case using l by (simp add: algebra_simps)
qed simp

lemma copy_at:
  assumes "m = a @ other_ie (eid, d) @ z" and "off = length a" and "length d < 256" and "unat (LengthVIE s) + length d + 2 \<le> length (pVIE s)"
  shows "copy_vie m off (of_nat (length d)) s = Some (Continue,
    s\<lparr>pVIE := move_at (pVIE s) (unat (LengthVIE s)) (other_ie (eid, d)), LengthVIE := LengthVIE s + of_nat (length d + 2)\<rparr>)"
proof -
  have u: "unat (of_nat (length d) :: UINT8) = length d" by (rule unat_of_nat_byte[OF assms(3)])
  have "length (other_ie (eid, d)) = length d + 2" by (simp add: other_ie_def)
  then have f: "fetch m off (length d + 2) = Some (other_ie (eid, d))" unfolding assms(1,2) using fetch_at by metis
  have "(ucast (of_nat (length d) :: UINT8) + 2 :: UINT16) = of_nat (length d + 2)"
  proof -
    have "(ucast (of_nat (length d) :: UINT8) :: UINT16) = of_nat (length d)"
      using assms(3) by (simp add: word_unat_eq_iff unsigned_ucast_eq unat_of_nat take_bit_nat_eq_self)
    then show ?thesis by simp
  qed
  then show ?thesis unfolding copy_vie_def u f using assms(4) by (simp add: other_ie_def del: of_nat_add)
qed

section \<open>WPS elements\<close>

abbreviation wps_ie :: "bytes \<Rightarrow> bytes" where
  "wps_ie d \<equiv> other_ie (221, WPS_OUI @ d)"

lemma oui_ends: "take 3 (WPS_OUI @ x) \<noteq> RALINK_OUI" "take 3 (WPS_OUI @ x) \<noteq> PRE_N_HT_OUI" "take 4 (WPS_OUI @ x) \<noteq> WPA_OUI"
  "take 6 (WPS_OUI @ x) \<noteq> WME_PARM_ELEM" "take 6 (WPS_OUI @ x) \<noteq> WME_INFO_ELEM" "take 4 (WPS_OUI @ x) = WPS_OUI"
  by (auto simp: RALINK_OUI_def PRE_N_HT_OUI_def WPA_OUI_def WME_PARM_ELEM_def WME_INFO_ELEM_def WPS_OUI_def)

lemma oui_differ: "WPS_OUI \<noteq> WPA_OUI"
  by (simp add: WPA_OUI_def WPS_OUI_def)

lemma vendor_wps:
  assumes "drop (off + 2) m = WPS_OUI @ x" and "2 \<le> length x"
  shows "bcn_element v t m off 221 len s = wps_piece m off len s"
proof -
  have "length m - (off + 2) = 4 + length x" using arg_cong[OF assms(1), of length] by (simp add: oui_lengths)
  then have l: "off + 2 + 6 \<le> length m" using assms(2) by simp
  have "equal_memory m (off + 2) b = Some (take (length b) (WPS_OUI @ x) = b)" if "length b \<le> 6" for b
    using equal_memory_drop[of "off + 2" b m] l that assms(1) by simp
  then show ?thesis
    by (simp add: bcn_element_def vendor_element_def oui_lengths oui_ends oui_differ del: take_append)
qed

lemma wps_step:
  assumes "m = a @ wps_ie d @ z" and "off = length a" and "length d < 252" and "off + 6 + length d \<le> n" and "2 \<le> length d"
    and "unat (LengthVIE s) + length d + 6 < 1024" and "pPeerWscIe s = Some w" and "PeerWscIeLen s < 512"
  shows "bcn_loop v t m n off s = (if length w < PeerWscIeLen s + length d then Some (Overrun, s)
     else bcn_loop v t m n (off + 6 + length d) (s\<lparr>pPeerWscIe := Some (move_at w (PeerWscIeLen s) d), PeerWscIeLen := PeerWscIeLen s + length d\<rparr>))"
proof -
  have u: "unat (of_nat (4 + length d) :: UINT8) = 4 + length d" using assms(3) by (intro unat_of_nat_byte) simp
  have dr: "drop (off + 2) m = WPS_OUI @ d @ z" unfolding assms(1,2) by (simp add: other_ie_def)
  have f: "fetch m (off + 6) (length d) = Some d"
    using fetch_at[of "a @ [221, of_nat (length (WPS_OUI @ d))] @ WPS_OUI" d z] unfolding assms(1,2) by (simp add: other_ie_def oui_lengths)
  have e: "bcn_element v t m off 221 (of_nat (length (WPS_OUI @ d))) s = wps_piece m off (of_nat (4 + length d)) s"
    using vendor_wps[OF dr] assms(5) by (simp add: oui_lengths del: of_nat_add)
  define r where "r = (if length w < PeerWscIeLen s + length d then (Overrun, s)
    else (Continue, s\<lparr>pPeerWscIe := Some (move_at w (PeerWscIeLen s) d), PeerWscIeLen := PeerWscIeLen s + length d\<rparr>))"
  have "wps_piece m off (of_nat (4 + length d)) s = Some r"
    unfolding wps_piece_def u using f assms(7,8) by (simp add: r_def del: of_nat_add)
  then show ?thesis
    using loop_at[of m a 221 "WPS_OUI @ d" z off n s v t "fst r" "snd r"] assms e by (auto simp: r_def oui_lengths add_ac del: of_nat_add)
qed

abbreviation bcn_start :: "bytes \<Rightarrow> BCN_LIST \<Rightarrow> bytes \<Rightarrow> bytes option \<Rightarrow> BCN_ST" where
  "bcn_start m l vie wsc \<equiv>
     \<lparr>ie_list = bcn_fixed m l, LengthVIE = 0, pVIE = vie, Sanity = 0, pPeerWscIe = wsc, PeerWscIeLen = 0, CtrlChannel = 0\<rparr>"

lemma overrun_result:
  assumes "bcn_loop v (drop_bit 4 (m ! 0)) m n 36 (bcn_start m l vie wsc) = Some (f, s)" and "36 \<le> length m"
    and "f = Overrun \<or> f = Continue \<and> fst (append_wsc (latch_channel v ch s)) = Overrun"
  shows "PeerBeaconAndProbeRspSanity v m n ch l vie wsc = Some BufferOverrun"
  using assms by (cases "append_wsc (latch_channel v ch s)") (auto simp: PeerBeaconAndProbeRspSanity_def)

lemma wsc_buffer_overrun:
  assumes "length h = 36" and "length w = 512" and "length d1 = 251" and "length d2 = 251" and "length d3 = 251"
    and m: "m = h @ wps_ie d1 @ wps_ie d2 @ wps_ie d3 @ z" and "807 \<le> n"
  shows "PeerBeaconAndProbeRspSanity v m n ch l vie (Some w) = Some BufferOverrun"
proof -
  define t s0 where "t = drop_bit 4 (m ! 0)" and "s0 = bcn_start m l vie (Some w)"
  define s1 where "s1 = s0\<lparr>pPeerWscIe := Some (move_at w 0 d1), PeerWscIeLen := 251\<rparr>"
  define s2 where "s2 = s1\<lparr>pPeerWscIe := Some (move_at (move_at w 0 d1) 251 d2), PeerWscIeLen := 502\<rparr>"
  have l: "length (wps_ie d1) = 257" "length (wps_ie d2) = 257" using assms(3,4) by (simp_all add: other_ie_def oui_lengths)
  have "bcn_loop v t m n 36 s0 = bcn_loop v t m n 293 s1"
    using wps_step[of m h d1 "wps_ie d2 @ wps_ie d3 @ z" 36 n s0 w v t] assms by (simp add: s0_def s1_def)
  also have "\<dots> = bcn_loop v t m n 550 s2"
    using wps_step[of m "h @ wps_ie d1" d2 "wps_ie d3 @ z" 293 n s1 "move_at w 0 d1" v t] assms l by (simp add: s0_def s1_def s2_def)
  also have "\<dots> = Some (Overrun, s2)"
    using wps_step[of m "h @ wps_ie d1 @ wps_ie d2" d3 z 550 n s2 "move_at (move_at w 0 d1) 251 d2" v t] assms l by (simp add: s0_def s1_def s2_def)
  finally show ?thesis using assms by (intro overrun_result[of v m n l vie "Some w" Overrun s2]) (simp_all add: t_def s0_def)
qed

lemma country_step:
  assumes "m = a @ other_ie (7, d) @ z" and "off = length a" and "length d = 255" and "off + 257 \<le> n" and "length (pVIE s) = 1024"
    and "unat (LengthVIE s) \<le> 600"
  shows "\<exists>s'. bcn_loop v t m n off s = bcn_loop v t m n (off + 257) s' \<and> length (pVIE s') = 1024 \<and> unat (LengthVIE s') = unat (LengthVIE s) + 257
    \<and> pPeerWscIe s' = pPeerWscIe s \<and> PeerWscIeLen s' = PeerWscIeLen s"
proof -
  define s' where "s' = s\<lparr>pVIE := move_at (pVIE s) (unat (LengthVIE s)) (other_ie (7, d)), LengthVIE := LengthVIE s + 257\<rparr>"
  have "copy_vie m off (of_nat (length d)) s = Some (Continue, s')"
    using copy_at[OF assms(1,2), of s] assms(3,5,6) by (simp add: s'_def)
  then have "bcn_element v t m off 7 (of_nat (length d)) s = Some (Continue, s')" by (simp add: bcn_element_def)
  from loop_at[OF assms(1,2) _ _ _ this, of n] have "bcn_loop v t m n off s = bcn_loop v t m n (off + 2 + length d) s'"
    using assms(3,4,6) by simp
  then have "bcn_loop v t m n off s = bcn_loop v t m n (off + 257) s'" using assms(3) by (simp add: add.commute)
  moreover have "unat (LengthVIE s + 257) = unat (LengthVIE s) + 257" using assms(6) by (subst unat_add_lem[THEN iffD1]) simp_all
  ultimately show ?thesis using assms(3,5,6) by (intro exI[of _ s']) (simp add: s'_def other_ie_def)
qed

lemma vie_buffer_overrun:
  assumes "length h = 36" and "length w = 512" and "length vie = 1024" and "length d = 251" and "length c1 = 255" and "length c2 = 255" and "length c3 = 255"
    and m: "m = h @ wps_ie d @ other_ie (7, c1) @ other_ie (7, c2) @ other_ie (7, c3) @ z" and "2 \<le> length z" and "n = 1064"
  shows "PeerBeaconAndProbeRspSanity v m n ch l vie (Some w) = Some BufferOverrun"
proof -
  define t s0 where "t = drop_bit 4 (m ! 0)" and "s0 = bcn_start m l vie (Some w)"
  define s1 where "s1 = s0\<lparr>pPeerWscIe := Some (move_at w 0 d), PeerWscIeLen := 251\<rparr>"
  have k: "length (wps_ie d) = 257" "length (other_ie (7, c1)) = 257" "length (other_ie (7, c2)) = 257" "length (other_ie (7, c3)) = 257"
    using assms(4-7) by (simp_all add: other_ie_def oui_lengths)
  have 1: "bcn_loop v t m n 36 s0 = bcn_loop v t m n 293 s1"
    using wps_step[of m h d "other_ie (7, c1) @ other_ie (7, c2) @ other_ie (7, c3) @ z" 36 n s0 w v t] assms by (simp add: s0_def s1_def)
  obtain s2 where 2: "bcn_loop v t m n 293 s1 = bcn_loop v t m n 550 s2" "length (pVIE s2) = 1024" "unat (LengthVIE s2) = 257"
    "pPeerWscIe s2 = Some (move_at w 0 d)" "PeerWscIeLen s2 = 251"
    using country_step[of m "h @ wps_ie d" c1 "other_ie (7, c2) @ other_ie (7, c3) @ z" 293 n s1 v t] assms k by (auto simp: s1_def s0_def)
  obtain s3 where 3: "bcn_loop v t m n 550 s2 = bcn_loop v t m n 807 s3" "length (pVIE s3) = 1024" "unat (LengthVIE s3) = 514"
    "pPeerWscIe s3 = Some (move_at w 0 d)" "PeerWscIeLen s3 = 251"
    using country_step[of m "h @ wps_ie d @ other_ie (7, c1)" c2 "other_ie (7, c3) @ z" 550 n s2 v t] assms k 2 by auto
  obtain s4 where 4: "bcn_loop v t m n 807 s3 = bcn_loop v t m n 1064 s4" "length (pVIE s4) = 1024" "unat (LengthVIE s4) = 771"
    "pPeerWscIe s4 = Some (move_at w 0 d)" "PeerWscIeLen s4 = 251"
    using country_step[of m "h @ wps_ie d @ other_ie (7, c1) @ other_ie (7, c2)" c3 z 807 n s3 v t] assms k 3 by auto
  have "n + 1 < length m" using assms k by simp
  then have "bcn_loop v t m n 36 s0 = Some (Continue, s4)" using 1 2(1) 3(1) 4(1) loop_end[of n m v t s4] assms(10) by simp
  moreover have "fst (append_wsc (latch_channel v ch s4)) = Overrun"
    using 4 by (simp add: append_wsc_def latch_channel_def upd_ie_def)
  ultimately show ?thesis using assms k by (intro overrun_result[of v m n l vie "Some w" Continue s4]) (simp_all add: t_def s0_def)
qed

lemma negative_move:
  assumes "length h = 36" and "unat len < 4" and "2 \<le> length z" and m: "m = h @ [221, len] @ WPS_OUI @ z" and "42 \<le> n"
  shows "PeerBeaconAndProbeRspSanity v m n ch l vie (Some w) = Some BufferOverrun"
proof (rule overrun_result)
  have r: "rd m 36 = Some 221" "rd m (36 + 1) = Some len" "drop (36 + 2) m = WPS_OUI @ z" unfolding m using assms(1) by (simp_all add: rd_def nth_append)
  have e: "bcn_element v t m 36 221 len s = wps_piece m 36 len s" for t s by (rule vendor_wps[OF r(3) assms(3)])
  show "bcn_loop v (drop_bit 4 (m ! 0)) m n 36 (bcn_start m l vie (Some w)) = Some (Overrun, bcn_start m l vie (Some w))"
    by (subst bcn_loop.simps) (use r e assms(2,5) in \<open>simp add: wps_piece_def MAX_VIE_LEN_def\<close>)
qed (use assms in simp_all)

text \<open>
  \<^bold>\<open>C26\<close> A beacon can make the parser write outside its buffers. WPS elements are collected in 512 bytes, and the test before a move looks only at what is there
  already: three elements with 251 bytes of payload overrun the heap block. An element shorter than its identifier makes the length of the move negative.
  And the collected element is appended to the list of variable elements without a test: after
  three country elements of full length it goes beyond the 1024 bytes. All of it is sent by anyone in range, without authentication.
\<close>

theorem wps_elements_overrun:
  assumes "length h = 36" and "length w = 512" and "length vie = 1024" and "length d1 = 251" and "length d2 = 251" and "length d3 = 251"
    and "length c1 = 255" and "length c2 = 255" and "length c3 = 255" and "unat len < 4" and "2 \<le> length z"
  shows "PeerBeaconAndProbeRspSanity v (h @ wps_ie d1 @ wps_ie d2 @ wps_ie d3 @ z) 807 ch l vie (Some w) = Some BufferOverrun
    \<and> PeerBeaconAndProbeRspSanity v (h @ [221, len] @ WPS_OUI @ z) 42 ch l vie (Some w) = Some BufferOverrun
    \<and> PeerBeaconAndProbeRspSanity v (h @ wps_ie d1 @ other_ie (7, c1) @ other_ie (7, c2) @ other_ie (7, c3) @ z) 1064 ch l vie (Some w) = Some BufferOverrun"
  using wsc_buffer_overrun[OF assms(1,2,4-6) refl order_refl] negative_move[OF assms(1,10,11) refl order_refl]
    vie_buffer_overrun[OF assms(1-4,7-9) refl assms(11) refl] by blast

section \<open>What a beacon announces is what is stored\<close>

lemma rsn_ie_other: "rsn_ie g ps ks cap = other_ie (48, rsn_body g ps ks cap)"
  by (simp add: rsn_ie_def other_ie_def)

lemma rsn_body_head: "take 3 (drop 2 (rsn_body g ps ks cap)) = RSN_OUI" "9 \<le> length (rsn_body g ps ks cap)"
  by (simp_all add: rsn_body_def suite_def RSN_OUI_def le16_bytes_def)

lemma unat_short: "k < 65536 \<Longrightarrow> unat (of_nat k :: UINT16) = k"
  by (simp add: unat_of_nat take_bit_nat_eq_self)

lemma rsn_step:
  assumes "m = a @ other_ie (48, d) @ z" and "off = length a" and "length d < 256" and "off + 2 + length d \<le> n" and "take 3 (drop 2 d) = RSN_OUI" and "5 \<le> length d"
    and "LengthVIE s = 0" and "length (pVIE s) = 1024"
  shows "bcn_loop v t m n off s = bcn_loop v t m n (off + 2 + length d)
    (s\<lparr>pVIE := move_at (pVIE s) 0 (other_ie (48, d)), LengthVIE := of_nat (length d + 2)\<rparr>)"
proof -
  have d: "drop (off + 4) m = drop 2 d @ z" unfolding assms(1,2) using assms(6) by (simp add: other_ie_def)
  have "off + 4 + 3 \<le> length m" unfolding assms(1,2) using assms(6) by (simp add: other_ie_def)
  then have "equal_memory m (off + 4) RSN_OUI = Some True"
    using assms(5,6) d by (simp add: equal_memory_def oui_lengths)
  then have "bcn_element v t m off 48 (of_nat (length d)) s
      = Some (Continue, s\<lparr>pVIE := move_at (pVIE s) 0 (other_ie (48, d)), LengthVIE := of_nat (length d + 2)\<rparr>)"
    using copy_at[OF assms(1-3), of s] assms(3,7,8) by (simp add: bcn_element_def del: of_nat_add)
  from loop_at[OF assms(1-4) _ this] show ?thesis using assms(3,7) by simp
qed

lemma ssid_step:
  assumes "m = a @ other_ie (0, d) @ z" and "off = length a" and "length d \<le> 32" and "off + 2 + length d \<le> n" and "LengthVIE s = 0" and "Sanity s = 0"
  shows "bcn_loop v t m n off s = bcn_loop v t m n (off + 2 + length d)
    (upd_ie (\<lambda>l. l\<lparr>ie_Ssid := move_at (ie_Ssid l) 0 d, ie_SsidLen := of_nat (length d)\<rparr>) (s\<lparr>Sanity := 1\<rparr>))"
proof -
  have f: "fetch m (off + 2) (length d) = Some d"
    using fetch_at[of "a @ [0, of_nat (length d)]" d z] unfolding assms(1,2) by (simp add: other_ie_def)
  have u: "unat (of_nat (length d) :: UINT8) = length d" using assms(3) by (intro unat_of_nat_byte) simp
  have "bcn_element v t m off 0 (of_nat (length d)) s
      = Some (Continue, upd_ie (\<lambda>l. l\<lparr>ie_Ssid := move_at (ie_Ssid l) 0 d, ie_SsidLen := of_nat (length d)\<rparr>) (s\<lparr>Sanity := 1\<rparr>))"
    using f u assms(3,6) by (simp add: bcn_element_def MAX_LEN_OF_SSID_def)
  from loop_at[OF assms(1,2) _ assms(4) _ this] show ?thesis using assms(3,5) by simp
qed

lemma rates_step:
  assumes "m = a @ other_ie (1, d) @ z" and "off = length a" and "length d \<le> 12" and "off + 2 + length d \<le> n" and "LengthVIE s = 0" and "Sanity s = 1"
  shows "bcn_loop v t m n off s = bcn_loop v t m n (off + 2 + length d)
    (upd_ie (\<lambda>l. l\<lparr>ie_SupRate := move_at (ie_SupRate l) 0 d, ie_SupRateLen := of_nat (length d)\<rparr>) (s\<lparr>Sanity := 3\<rparr>))"
proof -
  have f: "fetch m (off + 2) (length d) = Some d"
    using fetch_at[of "a @ [1, of_nat (length d)]" d z] unfolding assms(1,2) by (simp add: other_ie_def)
  have u: "unat (of_nat (length d) :: UINT8) = length d" using assms(3) by (intro unat_of_nat_byte) simp
  have "bcn_element v t m off 1 (of_nat (length d)) s
      = Some (Continue, upd_ie (\<lambda>l. l\<lparr>ie_SupRate := move_at (ie_SupRate l) 0 d, ie_SupRateLen := of_nat (length d)\<rparr>) (s\<lparr>Sanity := 3\<rparr>))"
    using f u assms(3,6) by (simp add: bcn_element_def MAX_LEN_OF_SUPPORTED_RATES_def)
  from loop_at[OF assms(1,2) _ assms(4) _ this] show ?thesis using assms(3,5) by simp
qed

lemma channel_step:
  assumes "m = a @ other_ie (3, [ch]) @ z" and "off = length a" and "off + 3 \<le> n" and "LengthVIE s = 0" and "Sanity s = 3" and "ch \<in> set (ChannelList v)"
  shows "bcn_loop v t m n off s = bcn_loop v t m n (off + 3) (upd_ie (\<lambda>l. l\<lparr>ie_Channel := ch\<rparr>) (s\<lparr>Sanity := 7\<rparr>))"
proof -
  have r: "rd m (off + 2) = Some ch" unfolding assms(1,2) by (simp add: other_ie_def rd_def nth_append)
  have c: "ChannelSanity v ch" using assms(6) by (auto simp: ChannelSanity_def list_ex_iff)
  have "bcn_element v t m off 3 (of_nat (length [ch])) s = Some (Continue, upd_ie (\<lambda>l. l\<lparr>ie_Channel := ch\<rparr>) (s\<lparr>Sanity := 7\<rparr>))"
    using r c assms(5) by (simp add: bcn_element_def upd_ie_def)
  from loop_at[OF assms(1,2) _ _ _ this, of n] show ?thesis using assms(3,4) by (simp add: numeral_3_eq_3)
qed

text \<open>A beacon with its mandatory elements, an RSN element and elements that the parser passes over.\<close>

definition beacon :: "bytes \<Rightarrow> bytes \<Rightarrow> bytes \<Rightarrow> UINT8 \<Rightarrow> (UINT8 \<times> bytes) list \<Rightarrow> bytes \<Rightarrow> (UINT8 \<times> bytes) list \<Rightarrow> bytes" where
  "beacon h ssid rates ch xs rsn ys = h @ other_ie (0, ssid) @ other_ie (1, rates) @ other_ie (3, [ch]) @ concat (map other_ie xs) @ rsn @ concat (map other_ie ys)"

definition bcn_stored :: "bytes \<Rightarrow> bytes \<Rightarrow> UINT8 \<Rightarrow> BCN_LIST \<Rightarrow> BCN_LIST" where
  "bcn_stored ssid rates ch l = l\<lparr>ie_Ssid := move_at (ie_Ssid l) 0 ssid, ie_SsidLen := of_nat (length ssid),
     ie_SupRate := move_at (ie_SupRate l) 0 rates, ie_SupRateLen := of_nat (length rates), ie_Channel := ch\<rparr>"

lemma beacon_run:
  assumes "length h = 36" and "length ssid \<le> 32" and "length rates \<le> 12" and "ch \<in> set (ChannelList v)" and "list_all silent xs" and "list_all silent ys"
    and "length d < 256" and "take 3 (drop 2 d) = RSN_OUI" and "5 \<le> length d" and "length vie = 1024" and "2 \<le> length z"
    and b: "b = beacon h ssid rates ch xs (other_ie (48, d)) ys"
  shows "bcn_loop v t (b @ z) (length b) 36 (bcn_start (b @ z) l vie wsc) = Some (Continue,
    \<lparr>ie_list = bcn_stored ssid rates ch (bcn_fixed (b @ z) l), LengthVIE = of_nat (length d + 2), pVIE = move_at vie 0 (other_ie (48, d)), Sanity = 7,
     pPeerWscIe = wsc, PeerWscIeLen = 0, CtrlChannel = 0\<rparr>)"
proof -
  define X Y R where "X = concat (map other_ie xs)" and "Y = concat (map other_ie ys)" and "R = other_ie (48, d)"
  define S T C where "S = other_ie (0, ssid)" and "T = other_ie (1, rates)" and "C = other_ie (3, [ch])"
  have m: "b = h @ S @ T @ C @ X @ R @ Y" by (simp add: b beacon_def X_def Y_def R_def S_def T_def C_def)
  have k: "length S = 2 + length ssid" "length T = 2 + length rates" "length C = 3" "length R = 2 + length d"
    by (simp_all add: S_def T_def C_def R_def other_ie_def)
  let ?m = "b @ z" and ?n = "length b"
  define s0 where "s0 = bcn_start ?m l vie wsc"
  define s1 where "s1 = upd_ie (\<lambda>l. l\<lparr>ie_Ssid := move_at (ie_Ssid l) 0 ssid, ie_SsidLen := of_nat (length ssid)\<rparr>) (s0\<lparr>Sanity := 1\<rparr>)"
  define s2 where "s2 = upd_ie (\<lambda>l. l\<lparr>ie_SupRate := move_at (ie_SupRate l) 0 rates, ie_SupRateLen := of_nat (length rates)\<rparr>) (s1\<lparr>Sanity := 3\<rparr>)"
  define s3 where "s3 = upd_ie (\<lambda>l. l\<lparr>ie_Channel := ch\<rparr>) (s2\<lparr>Sanity := 7\<rparr>)"
  define s4 where "s4 = s3\<lparr>pVIE := move_at (pVIE s3) 0 R, LengthVIE := of_nat (length d + 2)\<rparr>"
  have z: "LengthVIE s0 = 0" "LengthVIE s1 = 0" "LengthVIE s2 = 0" "LengthVIE s3 = 0" "Sanity s0 = 0" "Sanity s1 = 1" "Sanity s2 = 3" "pVIE s3 = vie"
    by (simp_all add: s0_def s1_def s2_def s3_def upd_ie_def)
  have u: "unat (of_nat (length d + 2) :: UINT16) = length d + 2" using assms(7) by (intro unat_short) simp
  have "bcn_loop v t ?m ?n 36 s0 = bcn_loop v t ?m ?n (36 + 2 + length ssid) s1"
    unfolding s1_def by (rule ssid_step[where a = h and z = "T @ C @ X @ R @ Y @ z"]) (use assms(1,2) z k in \<open>simp_all add: m S_def\<close>)
  also have "\<dots> = bcn_loop v t ?m ?n (36 + 2 + length ssid + 2 + length rates) s2"
    unfolding s2_def by (rule rates_step[where a = "h @ S" and z = "C @ X @ R @ Y @ z"]) (use assms(1,3) z k in \<open>simp_all add: m T_def\<close>)
  also have "\<dots> = bcn_loop v t ?m ?n (36 + 2 + length ssid + 2 + length rates + 3) s3"
    unfolding s3_def by (rule channel_step[where a = "h @ S @ T" and z = "X @ R @ Y @ z"]) (use assms(1,4) z k in \<open>simp_all add: m C_def\<close>)
  also have "\<dots> = bcn_loop v t ?m ?n (36 + 2 + length ssid + 2 + length rates + 3 + length X) s3"
    unfolding X_def by (rule loop_silent[where a = "h @ S @ T @ C" and z = "R @ Y @ z"]) (use assms(1,5) z k in \<open>simp_all add: m X_def\<close>)
  also have "\<dots> = bcn_loop v t ?m ?n (36 + 2 + length ssid + 2 + length rates + 3 + length X + 2 + length d) s4"
    unfolding s4_def R_def by (rule rsn_step[where a = "h @ S @ T @ C @ X" and z = "Y @ z"]) (use assms(1,7-10) z k in \<open>simp_all add: m R_def\<close>)
  also have "\<dots> = bcn_loop v t ?m ?n (36 + 2 + length ssid + 2 + length rates + 3 + length X + 2 + length d + length Y) s4"
    unfolding Y_def by (rule loop_silent[where a = "h @ S @ T @ C @ X @ R" and z = z]) (use assms(1,6,7) u k in \<open>simp_all add: m Y_def s4_def del: of_nat_add\<close>)
  also have "36 + 2 + length ssid + 2 + length rates + 3 + length X + 2 + length d + length Y = ?n" using k assms(1) by (simp add: m)
  also have "bcn_loop v t ?m ?n ?n s4 = Some (Continue, s4)" by (rule loop_end) (use assms(11) in simp)
  finally show ?thesis
    unfolding s0_def[symmetric] by (simp add: s4_def s3_def s2_def s1_def upd_ie_def bcn_stored_def R_def s0_def del: of_nat_add)
qed

text \<open>
  \<^bold>\<open>C24\<close> A beacon is understood. A frame with a name, rates, a channel of the channel list and an RSN element, among elements that the parser passes over, is accepted; the stored name, rates and channel,
  address and type are those of the frame and the only variable element is the RSN element, byte for byte. The security setting that \<^verbatim>\<open>BssCipherParse\<close> reads from a scan
  entry with these elements is the announced one: the group cipher, the strongest pairwise cipher, the first key management suite and the capabilities.
\<close>

theorem beacon_announcement_stored:
  assumes "length h = 36" and "h ! 34 AND 1 = 1" and "length ssid \<le> 32" and "length rates \<le> 12" and "ch \<in> set (ChannelList v)"
    and "list_all silent xs" and "list_all silent ys" and "16 + 4 * length ps + 4 * length ks < 256" and "length vie = 1024" and "2 \<le> length z"
    and "R = rsn_ie g ps (k # ks) cap" and "b = beacon h ssid rates ch xs R ys" and "BssType e = 1" and "unat (VarIELen e) = length R"
  shows "\<exists>l' vie'. PeerBeaconAndProbeRspSanity v (b @ z) (length b) mch l vie wsc = Some (Parsed True l' (of_nat (length R)) vie')
    \<and> take (length ssid) (ie_Ssid l') = ssid \<and> ie_SsidLen l' = of_nat (length ssid)
    \<and> take (length rates) (ie_SupRate l') = rates \<and> ie_SupRateLen l' = of_nat (length rates)
    \<and> ie_Channel l' = ch \<and> ie_Bssid l' = take 6 (drop 16 h) \<and> ie_BssType l' = 1 \<and> take (length R) vie' = R
    \<and> (\<exists>e'. BssCipherParse (e\<lparr>VarIEs := vie'\<rparr>) = Some e' \<and> GroupCipher (WPA2 e') = group_cipher g Ndis802_11WEPDisabled
         \<and> WepStatus e' = fold max (map pair_cipher ps) Ndis802_11WEPDisabled \<and> AuthMode e' = akm_mode k \<and> RsnCapability (WPA2 e') = cap)"
proof -
  define d where "d = rsn_body g ps (k # ks) cap"
  have R: "R = other_ie (48, d)" by (simp add: assms(11) d_def rsn_ie_other)
  have ld: "length d = 16 + 4 * length ps + 4 * length ks"
    using length_rsn_ie[of g ps "k # ks" cap] by (simp add: R[symmetric] assms(11)[symmetric] d_def rsn_ie_def)
  have lR: "length R = length d + 2" by (simp add: R other_ie_def)
  define s where "s = \<lparr>ie_list = bcn_stored ssid rates ch (bcn_fixed (b @ z) l), LengthVIE = of_nat (length d + 2), pVIE = move_at vie 0 R, Sanity = 7,
     pPeerWscIe = wsc, PeerWscIeLen = 0, CtrlChannel = 0\<rparr>"
  have run: "bcn_loop v t (b @ z) (length b) 36 (bcn_start (b @ z) l vie wsc) = Some (Continue, s)" for t
    unfolding s_def R
    by (rule beacon_run[OF assms(1,3-7) _ _ _ assms(9,10)]) (use assms(8,12) ld R rsn_body_head[of g ps "k # ks" cap] in \<open>simp_all add: d_def\<close>)
  have "append_wsc (latch_channel v mch s) = (Continue, s)" by (cases wsc) (simp_all add: append_wsc_def latch_channel_def s_def)
  moreover have "36 \<le> length (b @ z)" using assms(1) by (simp add: assms(12) beacon_def)
  ultimately have p: "PeerBeaconAndProbeRspSanity v (b @ z) (length b) mch l vie wsc = Some (Parsed True (ie_list s) (of_nat (length R)) (pVIE s))"
    using run by (simp add: PeerBeaconAndProbeRspSanity_def s_def lR del: of_nat_add)
  have hd: "b @ z = h @ drop 36 (b @ z)" using assms(1) by (simp add: assms(12) beacon_def)
  have nth: "(b @ z) ! i = h ! i" if "i < 36" for i using that assms(1) by (subst hd) (simp add: nth_append)
  have tk: "take 6 (drop 16 (b @ z)) = take 6 (drop 16 h)" using assms(1) by (subst hd) simp
  have ess: "((ucast (h ! 34) OR push_bit 8 (ucast (h ! 35))) AND 1 :: UINT16) \<noteq> 0"
  proof -
    have "bit (h ! 34) 0" using assms(2) by (metis and_one_eq bit_0 odd_iff_mod_2_eq_one)
    then have "bit ((ucast (h ! 34) OR push_bit 8 (ucast (h ! 35))) AND 1 :: UINT16) 0" by (simp add: bit_simps)
    then show ?thesis by (metis bit_0_eq bot_apply bot_bool_def)
  qed
  have vie: "pVIE s = R @ drop (length R) vie" by (simp add: s_def move_at_def)
  have "\<exists>e'. BssCipherParse (e\<lparr>VarIEs := pVIE s\<rparr>) = Some e' \<and> GroupCipher (WPA2 e') = group_cipher g Ndis802_11WEPDisabled
      \<and> WepStatus e' = fold max (map pair_cipher ps) Ndis802_11WEPDisabled \<and> AuthMode e' = akm_mode k \<and> RsnCapability (WPA2 e') = cap"
    using rsn_announcement_parsed[of "e\<lparr>VarIEs := pVIE s\<rparr>" "[]" g ps k ks cap "[]" "drop (length R) vie"] assms(8,11,13,14) vie by auto
  moreover have "ie_BssType (bcn_fixed (b @ z) l) = 1" using ess nth[of 34] nth[of 35] by (simp add: bcn_fixed_def Let_def)
  moreover have "ie_Bssid (bcn_fixed (b @ z) l) = take 6 (drop 16 h)" by (simp only: bcn_fixed_def Let_def tk) simp
  moreover have "take (length R) (pVIE s) = R" by (simp add: vie)
  ultimately show ?thesis
    using p by (intro exI[of _ "ie_list s"] exI[of _ "pVIE s"]) (simp add: s_def bcn_stored_def move_at_def del: of_nat_add)
qed

section \<open>Witnesses\<close>

definition ex_list :: BCN_LIST where
  "ex_list = \<lparr>ie_Bssid = replicate 6 0, ie_Ssid = replicate 32 0, ie_SsidLen = 0, ie_BssType = 0, ie_BeaconPeriod = 0, ie_Channel = 0, ie_AtimWin = 0,
     ie_CapabilityInfo = 0, ie_SupRate = replicate 12 0, ie_SupRateLen = 0, ie_ExtRate = replicate 12 0, ie_ExtRateLen = 0, ie_CkipFlag = 0,
     ie_TimeStamp = replicate 8 0, ie_CfParm = (False, 0, 0, 0, 0), ie_EdcaParm = (False, replicate 31 0), ie_QbssLoad = (False, replicate 7 0),
     ie_QosCapability = (False, replicate 4 0), ie_HtCapabilityLen = 0, ie_HtCapability = replicate 26 0, ie_AddHtInfoLen = 0, ie_AddHtInfo = replicate 22 0,
     ie_NewExtChannelOffset = 0, ie_vht_cap_len = 0, ie_vht_cap_ie = replicate 12 0, ie_vht_op_len = 0, ie_vht_op_ie = replicate 5 0,
     ie_Addr1 = replicate 6 0, ie_Addr2 = replicate 6 0, ie_NewChannel = 0, ie_Erp = 0, ie_DtimCount = 0, ie_DtimPeriod = 0, ie_BcastFlag = False,
     ie_MessageToMe = False, ie_AironetCellPowerLimit = 0, ie_RalinkIe = 0, ie_ExtCapInfo = replicate 4 0, ie_PreNHtCapabilityLen = 0\<rparr>"

definition ex_env :: BCN_ENV where
  "ex_env = \<lparr>infra_on = False, cfg_Bssid = replicate 6 0, env_Aid = 1, ChannelList = [1, 6, 11], LatchRfChannel = 6\<rparr>"

theorem beacon_parse_safe_witness:
  "\<exists>ok l' k vie'. PeerBeaconAndProbeRspSanity ex_env (replicate 1600 0x80) 548 6 ex_list (replicate 1024 0) None = Some (Parsed ok l' k vie')
    \<and> moves_fit (BCN_IE_LIST.truncate l') (unat k)"
proof -
  have "\<not> short_wps (replicate 1600 0x80) i" if "i < 548" for i using that by (simp add: short_wps_def)
  moreover have "l_ok ex_list" by (simp add: l_ok_def ex_list_def)
  ultimately show ?thesis
    using beacon_parse_safe[of "replicate 1600 0x80" 548 ex_list "replicate 1024 0" None ex_env 6] by fastforce
qed

theorem wps_elements_overrun_witness:
  "PeerBeaconAndProbeRspSanity ex_env (replicate 36 0 @ [221, 0] @ WPS_OUI @ [0, 0]) 42 6 ex_list (replicate 1024 0) (Some (replicate 512 0)) = Some BufferOverrun"
  using wps_elements_overrun[of "replicate 36 0" "replicate 512 0" "replicate 1024 0" "replicate 251 0" "replicate 251 0" "replicate 251 0"
      "replicate 255 0" "replicate 255 0" "replicate 255 0" 0 "[0, 0]" ex_env 6 ex_list] by simp

theorem beacon_announcement_stored_witness:
  "\<exists>l' vie'. PeerBeaconAndProbeRspSanity ex_env (beacon (replicate 34 0 @ [1, 0]) [65, 80] [2, 4] 6 [(71, [1])] (rsn_ie 4 [4] [2] 0) [] @ [0, 0])
       (length (beacon (replicate 34 0 @ [1, 0]) [65, 80] [2, 4] 6 [(71, [1])] (rsn_ie 4 [4] [2] 0) [])) 6 ex_list (replicate 1024 0) None
       = Some (Parsed True l' (of_nat (length (rsn_ie 4 [4] [2] 0))) vie')
    \<and> take 2 (ie_Ssid l') = [65, 80] \<and> ie_Channel l' = 6"
proof -
  have e: "unat (VarIELen (zero_bss\<lparr>BssType := 1, VarIELen := of_nat (length (rsn_ie 4 [4] [2] 0))\<rparr>)) = length (rsn_ie 4 [4] [2] 0)"
    "BssType (zero_bss\<lparr>BssType := 1, VarIELen := of_nat (length (rsn_ie 4 [4] [2] 0))\<rparr>) = 1"
    by (simp_all add: length_rsn_ie)
  have h: "length (replicate 34 0 @ [1, 0] :: bytes) = 36" "(replicate 34 0 @ [1, 0]) ! 34 AND 1 = (1 :: UINT8)" by (simp_all add: nth_append)
  have c: "6 \<in> set (ChannelList ex_env)" "list_all silent [(71, [1])]" by (simp_all add: ex_env_def silent_def)
  have n: "length [65, 80 :: UINT8] \<le> 32" "length [2, 4 :: UINT8] \<le> 12" "list_all silent []" "16 + 4 * length [4 :: UINT8] + 4 * length ([] :: bytes) < 256"
    "length (replicate 1024 0 :: bytes) = 1024" "2 \<le> length [0, 0 :: UINT8]" by simp_all
  obtain l' vie' where "PeerBeaconAndProbeRspSanity ex_env (beacon (replicate 34 0 @ [1, 0]) [65, 80] [2, 4] 6 [(71, [1])] (rsn_ie 4 [4] [2] 0) [] @ [0, 0])
       (length (beacon (replicate 34 0 @ [1, 0]) [65, 80] [2, 4] 6 [(71, [1])] (rsn_ie 4 [4] [2] 0) [])) 6 ex_list (replicate 1024 0) None
       = Some (Parsed True l' (of_nat (length (rsn_ie 4 [4] [2] 0))) vie')" "take (length [65, 80 :: UINT8]) (ie_Ssid l') = [65, 80]" "ie_Channel l' = 6"
    using beacon_announcement_stored[OF h n(1,2) c n(3-6) refl refl e(2,1), of 6 ex_list None] by blast
  then show ?thesis by (intro exI[of _ l'] exI[of _ vie']) (simp add: numeral_2_eq_2)
qed

end
