(* ===== verification/Bss_Table.thy ===== *)
theory Bss_Table
  imports Bss_Entry "HOL-Library.Multiset"
begin

text \<open>
  The tables of access points of \<^verbatim>\<open>common/mlme.c\<close> and \<^verbatim>\<open>sta/connect.c\<close>: the scan table and the list of candidates
  for a connection that is built from it.

  \<^item> A table has 128 entries, of which the first \<open>BssNr\<close> are in use.
  \<^item> Each entry points to a buffer for the elements of the last probe response. The buffers are allocated once, one
    for each entry of the scan table; their contents are the heap \<open>h\<close>. The functions that move entries work on
    entries, pointers and buffers, and whether two entries share a buffer matters.
  \<^item> A move from a NULL buffer is \<open>None\<close>; so is a failure of \<^verbatim>\<open>BssEntrySet\<close>.
\<close>

section \<open>Definitions\<close>

record BSS_TABLE =
  BssNr :: UINT8
  BssOverlapNr :: UINT8
  BssEntry :: "BSS_ENTRY list"

type_synonym ie_heap = "addr \<Rightarrow> bytes"

definition MAX_LEN_OF_BSS_TABLE :: nat where "MAX_LEN_OF_BSS_TABLE = 128"
definition BSS_NOT_FOUND :: nat where "BSS_NOT_FOUND = 0xFFFFFFFF"

abbreviation zeros :: bytes where "zeros \<equiv> replicate MAX_VIE_LEN 0"

definition zero_buffer :: "addr option \<Rightarrow> ie_heap \<Rightarrow> ie_heap" where
  "zero_buffer p h = (case p of None \<Rightarrow> h | Some a \<Rightarrow> h(a := zeros))"

definition cleared :: "BSS_ENTRY \<Rightarrow> BSS_ENTRY" where
  "cleared e = zero_bss\<lparr>pVarIeFromProbRsp := pVarIeFromProbRsp e\<rparr>"

definition BssTableInit :: "BSS_TABLE \<Rightarrow> ie_heap \<Rightarrow> BSS_TABLE \<times> ie_heap" where
  "BssTableInit Tab h =
     (Tab\<lparr>BssNr := 0, BssOverlapNr := 0, BssEntry := map (\<lambda>e. (cleared e)\<lparr>Rssi := - 127\<rparr>) (BssEntry Tab)\<rparr>,
      fold (\<lambda>e. zero_buffer (pVarIeFromProbRsp e)) (BssEntry Tab) h)"

definition first_index :: "(BSS_ENTRY \<Rightarrow> bool) \<Rightarrow> BSS_TABLE \<Rightarrow> nat" where
  "first_index P Tab = (case List.find (\<lambda>i. P (BssEntry Tab ! i)) [0..<unat (BssNr Tab)] of
     Some i \<Rightarrow> i | None \<Rightarrow> BSS_NOT_FOUND)"

definition same_band :: "UINT8 \<Rightarrow> UINT8 \<Rightarrow> bool" where
  "same_band c d \<longleftrightarrow> (c \<le> 14 \<and> d \<le> 14) \<or> (c > 14 \<and> d > 14)"

definition SSID_EQUAL :: "bytes \<Rightarrow> UINT8 \<Rightarrow> bytes \<Rightarrow> UINT8 \<Rightarrow> bool" where
  "SSID_EQUAL s1 l1 s2 l2 \<longleftrightarrow> l1 = l2 \<and> take (unat l1) s1 = take (unat l1) s2"

definition BssTableSearch :: "BSS_TABLE \<Rightarrow> mac_addr \<Rightarrow> UINT8 \<Rightarrow> nat" where
  "BssTableSearch Tab pBssid ch = first_index (\<lambda>e. same_band (Channel e) ch \<and> Bssid e = pBssid) Tab"

definition BssSsidTableSearch :: "BSS_TABLE \<Rightarrow> mac_addr \<Rightarrow> bytes \<Rightarrow> UINT8 \<Rightarrow> UINT8 \<Rightarrow> nat" where
  "BssSsidTableSearch Tab pBssid pSsid len ch =
     first_index (\<lambda>e. same_band (Channel e) ch \<and> Bssid e = pBssid \<and> SSID_EQUAL pSsid len (Ssid e) (SsidLen e)) Tab"

definition BssTableSearchWithSSID :: "BSS_TABLE \<Rightarrow> mac_addr \<Rightarrow> bytes \<Rightarrow> UINT8 \<Rightarrow> UINT8 \<Rightarrow> nat" where
  "BssTableSearchWithSSID Tab pBssid pSsid len ch =
     first_index (\<lambda>e. same_band (Channel e) ch \<and> Bssid e = pBssid
       \<and> (SSID_EQUAL pSsid len (Ssid e) (SsidLen e) \<or> zero_prefix pSsid (unat len) \<or> zero_prefix (Ssid e) (unat (SsidLen e)))) Tab"

definition BssSsidTableSearchBySSID :: "BSS_TABLE \<Rightarrow> bytes \<Rightarrow> UINT8 \<Rightarrow> nat" where
  "BssSsidTableSearchBySSID Tab pSsid len = first_index (\<lambda>e. SSID_EQUAL pSsid len (Ssid e) (SsidLen e)) Tab"

text \<open>One step of moving the entries behind a deleted one up, with the contents of their buffers.\<close>

definition move_up :: "nat \<Rightarrow> BSS_ENTRY list \<times> ie_heap \<Rightarrow> (BSS_ENTRY list \<times> ie_heap) option" where
  "move_up j eh = (case eh of (es, h) \<Rightarrow>
     let nxt = es ! (j + 1) in
     case pVarIeFromProbRsp (es ! j) of
       None \<Rightarrow> Some (es[j := nxt], h)
     | Some old \<Rightarrow>
         let h = h(old := zeros); n = unat (VarIeFromProbeRspLen nxt) in
         case pVarIeFromProbRsp nxt of
           None \<Rightarrow> if n = 0 then Some (es[j := nxt\<lparr>pVarIeFromProbRsp := Some old\<rparr>], h) else None
         | Some src \<Rightarrow> Some (es[j := nxt\<lparr>pVarIeFromProbRsp := Some old\<rparr>], h(old := move_at (h old) 0 (take n (h src)))))"

primrec move_up_all :: "nat list \<Rightarrow> BSS_ENTRY list \<times> ie_heap \<Rightarrow> (BSS_ENTRY list \<times> ie_heap) option" where
  "move_up_all [] eh = Some eh"
| "move_up_all (j # js) eh = (case move_up j eh of None \<Rightarrow> None | Some eh \<Rightarrow> move_up_all js eh)"

definition BssTableDeleteEntry :: "BSS_TABLE \<Rightarrow> ie_heap \<Rightarrow> mac_addr \<Rightarrow> UINT8 \<Rightarrow> (BSS_TABLE \<times> ie_heap) option" where
  "BssTableDeleteEntry Tab h pBssid ch =
     (case List.find (\<lambda>i. Channel (BssEntry Tab ! i) = ch \<and> Bssid (BssEntry Tab ! i) = pBssid) [0..<unat (BssNr Tab)] of
        None \<Rightarrow> Some (Tab, h)
      | Some i \<Rightarrow>
          let n = unat (BssNr Tab) in
          case move_up_all [i..<n - 1] (BssEntry Tab, h) of
            None \<Rightarrow> None
          | Some (es, h) \<Rightarrow>
              Some (Tab\<lparr>BssNr := BssNr Tab - 1, BssEntry := es[n - 1 := cleared (es ! (n - 1))]\<rparr>,
                    zero_buffer (pVarIeFromProbRsp (es ! (n - 1))) h))"

text \<open>What \<^verbatim>\<open>BssTableSetEntry\<close> reads of the adapter: the two connection flags and the wanted network.\<close>

record SET_CFG =
  media_connected :: bool
  ap_media_connected :: bool
  aux_Bssid :: mac_addr
  aux_Ssid :: bytes
  aux_SsidLen :: UINT8

definition BssTableSetEntry ::
    "SET_CFG \<Rightarrow> VHT_CFG \<Rightarrow> ULONG \<Rightarrow> BSS_TABLE \<Rightarrow> BCN_IE_LIST \<Rightarrow> UINT8 \<Rightarrow> UINT16 \<Rightarrow> bytes
     \<Rightarrow> (nat \<times> BSS_TABLE \<times> BCN_IE_LIST \<times> VHT_CFG) option" where
  "BssTableSetEntry s c now Tab l rssi LengthVIE pVIE =
     (let Idx = BssTableSearch Tab (ie_Bssid l) (ie_Channel l);
          put = (\<lambda>i. do { (e, l, c) \<leftarrow> BssEntrySet c now (BssEntry Tab ! i) l rssi LengthVIE pVIE;
                          Some (Tab\<lparr>BssEntry := (BssEntry Tab)[i := e]\<rparr>, l, c) })
      in if Idx = BSS_NOT_FOUND then
           if unat (BssNr Tab) \<ge> MAX_LEN_OF_BSS_TABLE then
             if \<not> media_connected s \<or> \<not> ap_media_connected s then
               if aux_Bssid s = ie_Bssid l \<or> SSID_EQUAL (aux_Ssid s) (aux_SsidLen s) (ie_Ssid l) (ie_SsidLen l) then
                 let Idx = unat (BssOverlapNr Tab) in
                 do { (Tab, l, c) \<leftarrow> put Idx;
                      Some (Idx, Tab\<lparr>BssOverlapNr := (BssOverlapNr Tab + 1) mod of_nat MAX_LEN_OF_BSS_TABLE\<rparr>, l, c) }
               else Some (Idx, Tab, l, c)
             else Some (BSS_NOT_FOUND, Tab, l, c)
           else
             let Idx = unat (BssNr Tab) in
             do { (Tab, l, c) \<leftarrow> put Idx; Some (Idx, Tab\<lparr>BssNr := BssNr Tab + 1\<rparr>, l, c) }
         else do { (Tab, l, c) \<leftarrow> put Idx; Some (Idx, Tab, l, c) })"

section \<open>Candidates for a connection\<close>

text \<open>\<^verbatim>\<open>BssTableSortByRssi\<close> is an exchange sort on the signed \<open>Rssi\<close>; \<open>ok\<close> is the outcome of its allocation.\<close>

definition exchange :: "nat \<Rightarrow> nat \<Rightarrow> BSS_ENTRY list \<Rightarrow> BSS_ENTRY list" where
  "exchange i j es = (if sint (Rssi (es ! j)) > sint (Rssi (es ! i)) then es[j := es ! i, i := es ! j] else es)"

definition BssTableSortByRssi :: "bool \<Rightarrow> BSS_TABLE \<Rightarrow> BSS_TABLE" where
  "BssTableSortByRssi ok Tab =
     (if \<not> ok then Tab
      else let n = unat (BssNr Tab)
           in Tab\<lparr>BssEntry := fold (\<lambda>i. fold (exchange i) [i + 1..<n]) [0..<n - 1] (BssEntry Tab)\<rparr>)"

text \<open>The configuration that \<^verbatim>\<open>BssTableSsidSort\<close> reads; \<open>ChannelList\<close> has channels with their \<^verbatim>\<open>DfsReq\<close> flag.\<close>

record STA_CFG =
  bAutoConnectIfNoSSID :: bool
  bIEEE80211H :: bool
  aux_Channel :: UINT8
  ChannelList :: "(UINT8 \<times> bool) list"
  sta_BssType :: UINT8
  WpaSupplicantUP :: UINT8
  strict_11d :: bool
  PhyMode :: UINT8
  sta_AuthMode :: NDIS_802_11_AUTHENTICATION_MODE
  sta_WepStatus :: NDIS_802_11_WEP_STATUS

definition RadarChannelCheck :: "STA_CFG \<Rightarrow> UINT8 \<Rightarrow> bool" where
  "RadarChannelCheck cfg ch = (case List.find (\<lambda>x. fst x = ch) (ChannelList cfg) of Some x \<Rightarrow> snd x | None \<Rightarrow> False)"

definition WMODE_HT_ONLY :: "UINT8 \<Rightarrow> bool" where
  "WMODE_HT_ONLY m \<longleftrightarrow> m AND NOT 0x38 = 0"

definition phy_ok :: "STA_CFG \<Rightarrow> BSS_ENTRY \<Rightarrow> bool" where
  "phy_ok cfg b \<longleftrightarrow> \<not> (HtCapabilityLen b = 0 \<and> WMODE_HT_ONLY (PhyMode cfg))
     \<and> \<not> (PhyMode cfg = 0x0c \<and> unat (SupRateLen b) + unat (ExtRateLen b) < 12)"

definition is_group_wep :: "NDIS_802_11_WEP_STATUS \<Rightarrow> bool" where
  "is_group_wep c \<longleftrightarrow> c = Ndis802_11GroupWEP40Enabled \<or> c = Ndis802_11GroupWEP104Enabled"

definition pair_ok :: "NDIS_802_11_WEP_STATUS \<Rightarrow> CIPHER_SUITE \<Rightarrow> bool" where
  "pair_ok w s \<longleftrightarrow> \<not> (w = Ndis802_11Encryption2Enabled \<and> w \<noteq> PairCipher s \<and> w \<noteq> PairCipherAux s)"

text \<open>The security checks with a given SSID (first branch of the loop) and without one (second branch).\<close>

definition security_ok :: "STA_CFG \<Rightarrow> BSS_ENTRY \<Rightarrow> bool" where
  "security_ok cfg b =
     (let m = sta_AuthMode cfg; w = sta_WepStatus cfg in
      if m \<ge> Ndis802_11AuthModeWPA then
        (m = AuthMode b \<or> m = AuthModeAux b)
        \<and> (if m = Ndis802_11AuthModeWPA \<or> m = Ndis802_11AuthModeWPAPSK then
             \<not> (\<not> bMixMode (WPA b) \<and> w \<noteq> GroupCipher (WPA b))
             \<and> \<not> (w < GroupCipher (WPA b) \<and> \<not> is_group_wep (GroupCipher (WPA b)))
             \<and> pair_ok w (WPA b)
           else if m = Ndis802_11AuthModeWPA2 \<or> m = Ndis802_11AuthModeWPA2PSK then
             \<not> (\<not> bMixMode (WPA2 b) \<and> w \<noteq> GroupCipher (WPA2 b))
             \<and> \<not> (w < GroupCipher (WPA b) \<and> \<not> is_group_wep (GroupCipher (WPA2 b)))
             \<and> pair_ok w (WPA2 b)
           else True)
      else w = WepStatus b \<or> bSES b)"

definition security_ok_any :: "STA_CFG \<Rightarrow> BSS_ENTRY \<Rightarrow> bool" where
  "security_ok_any cfg b =
     (let m = sta_AuthMode cfg; w = sta_WepStatus cfg in
      if m \<ge> Ndis802_11AuthModeWPA then
        (m = AuthMode b \<or> m = AuthModeAux b)
        \<and> (if m = Ndis802_11AuthModeWPA \<or> m = Ndis802_11AuthModeWPAPSK then
             \<not> (\<not> bMixMode (WPA b) \<and> w \<noteq> GroupCipher (WPA b)) \<and> \<not> w < GroupCipher (WPA b) \<and> pair_ok w (WPA b)
           else if m = Ndis802_11AuthModeWPA2 \<or> m = Ndis802_11AuthModeWPA2PSK then
             \<not> (\<not> bMixMode (WPA2 b) \<and> w \<noteq> GroupCipher (WPA2 b)) \<and> \<not> w < GroupCipher (WPA2 b) \<and> pair_ok w (WPA2 b)
           else True)
      else w = WepStatus b)"

definition hidden_included :: "STA_CFG \<Rightarrow> BSS_ENTRY \<Rightarrow> bool" where
  "hidden_included cfg b \<longleftrightarrow> bIEEE80211H cfg \<and> aux_Channel cfg > 14 \<and> RadarChannelCheck cfg (Channel b) \<and> Hidden b"

text \<open>
  What the loop does with one entry of the scan table: go on at once (\<^verbatim>\<open>continue\<close>), copy and go on at
  once, copy and test for a full table, or only test for a full table.
\<close>

datatype verdict = Skip | Copy_Continue | Copy | Pass

definition judge :: "STA_CFG \<Rightarrow> bytes \<Rightarrow> UINT8 \<Rightarrow> BSS_ENTRY \<Rightarrow> verdict" where
  "judge cfg s len b =
     (if BssType b = sta_BssType cfg \<and> (SSID_EQUAL s len (Ssid b) (SsidLen b) \<or> hidden_included cfg b) then
        if WpaSupplicantUP cfg AND 0x80 \<noteq> 0 then Copy_Continue
        else if strict_11d cfg \<and> \<not> bHasCountryIE b then Skip
        else if \<not> phy_ok cfg b then Skip
        else if \<not> security_ok cfg b then Skip
        else if len = 0 then Skip
        else Copy
      else if BssType b = sta_BssType cfg \<and> len = 0 then
        if \<not> phy_ok cfg b then Skip
        else if \<not> security_ok_any cfg b then Skip
        else Copy
      else Pass)"

definition append_entry :: "BSS_ENTRY \<Rightarrow> BSS_TABLE \<Rightarrow> BSS_TABLE" where
  "append_entry b Tab = Tab\<lparr>BssEntry := (BssEntry Tab)[unat (BssNr Tab) := b], BssNr := BssNr Tab + 1\<rparr>"

fun select_loop :: "(BSS_ENTRY \<Rightarrow> verdict) \<Rightarrow> BSS_ENTRY list \<Rightarrow> BSS_TABLE \<Rightarrow> BSS_TABLE" where
  "select_loop J [] Tab = Tab"
| "select_loop J (b # bs) Tab =
     (case J b of
        Skip \<Rightarrow> select_loop J bs Tab
      | Copy_Continue \<Rightarrow> select_loop J bs (append_entry b Tab)
      | v \<Rightarrow> let Tab = (if v = Copy then append_entry b Tab else Tab)
             in if unat (BssNr Tab) \<ge> MAX_LEN_OF_BSS_TABLE then Tab else select_loop J bs Tab)"

definition BssTableSsidSort ::
    "bool \<Rightarrow> STA_CFG \<Rightarrow> BSS_TABLE \<Rightarrow> BSS_TABLE \<Rightarrow> ie_heap \<Rightarrow> bytes \<Rightarrow> UINT8 \<Rightarrow> BSS_TABLE \<times> ie_heap" where
  "BssTableSsidSort ok cfg ScanTab OutTab h s len =
     (case BssTableInit OutTab h of (OutTab, h) \<Rightarrow>
        if len = 0 \<and> \<not> bAutoConnectIfNoSSID cfg then (OutTab, h)
        else (BssTableSortByRssi ok (select_loop (judge cfg s len) (take (unat (BssNr ScanTab)) (BssEntry ScanTab)) OutTab), h))"

section \<open>Ageing of the scan table\<close>

definition time_after :: "ULONG \<Rightarrow> ULONG \<Rightarrow> bool" where
  "time_after a b \<longleftrightarrow> sint (b - a) < 0"

record AGE_CFG =
  max_time :: ULONG \<comment> \<open>\<^verbatim>\<open>MaxRxTimeDiff * OS_HZ\<close>\<close>
  max_same :: UINT8
  age_connected :: bool
  own_Ssid :: bytes
  own_SsidLen :: UINT8

definition age_entry :: "BSS_ENTRY \<Rightarrow> BSS_ENTRY" where
  "age_entry b =
     (if LastBeaconRxTimeA b \<noteq> LastBeaconRxTime b then b\<lparr>LastBeaconRxTimeA := LastBeaconRxTime b, SameRxTimeCount := 0\<rparr>
      else b\<lparr>SameRxTimeCount := SameRxTimeCount b + 1\<rparr>)"

definition too_old :: "AGE_CFG \<Rightarrow> ULONG \<Rightarrow> BSS_ENTRY \<Rightarrow> bool" where
  "too_old g now b \<longleftrightarrow>
     (time_after now (LastBeaconRxTime b + max_time g) \<or> SameRxTimeCount b > max_same g)
     \<and> \<not> (age_connected g \<and> take (unat (own_SsidLen g)) (Ssid b) = take (unat (own_SsidLen g)) (own_Ssid g))"

text \<open>\<open>i\<close> is the loop index and \<open>n\<close> is \<^verbatim>\<open>total_bssNr\<close>. The clock does not advance during the loop.\<close>

function maintain_loop :: "AGE_CFG \<Rightarrow> ULONG \<Rightarrow> nat \<Rightarrow> nat \<Rightarrow> BSS_ENTRY list \<Rightarrow> ie_heap \<Rightarrow> (nat \<times> BSS_ENTRY list \<times> ie_heap) option" where
  "maintain_loop g now i n es h =
     (if i < n then
        let b = age_entry (es ! i); es = es[i := b] in
        if too_old g now b then
          (case move_up_all [i..<n - 1] (es, h) of
             None \<Rightarrow> None
           | Some (es, h) \<Rightarrow>
               maintain_loop g now (i + 1) (n - 1) (es[n - 1 := zero_bss]) (zero_buffer (pVarIeFromProbRsp (es ! (n - 1))) h))
        else maintain_loop g now (i + 1) n es h
      else Some (n, es, h))"
  by pat_completeness auto
termination by (relation "measure (\<lambda>(g, now, i, n, es, h). n - i)") auto

declare maintain_loop.simps [simp del]

definition MaintainBssTable :: "AGE_CFG \<Rightarrow> ULONG \<Rightarrow> BSS_TABLE \<Rightarrow> ie_heap \<Rightarrow> (BSS_TABLE \<times> ie_heap) option" where
  "MaintainBssTable g now Tab h =
     do { (n, es, h) \<leftarrow> maintain_loop g now 0 (unat (BssNr Tab)) (BssEntry Tab) h;
          Some (Tab\<lparr>BssNr := of_nat n, BssEntry := es\<rparr>, h) }"


section \<open>The exchange sort\<close>

abbreviation strength :: "BSS_ENTRY \<Rightarrow> int" where
  "strength e \<equiv> sint (Rssi e)"

lemma length_exchange [simp, len_simps]: "length (exchange i j es) = length es"
  by (simp add: exchange_def)

lemma mset_exchange: "i < length es \<Longrightarrow> j < length es \<Longrightarrow> mset (exchange i j es) = mset es"
  by (simp add: exchange_def mset_swap)

lemma exchange_inner:
  assumes "i < m" and "m \<le> length es"
  defines "es' \<equiv> fold (exchange i) [i + 1..<m] es"
  shows "length es' = length es \<and> mset es' = mset es \<and> (\<forall>k. k < i \<or> m \<le> k \<longrightarrow> es' ! k = es ! k)
    \<and> (\<forall>k. i < k \<and> k < m \<longrightarrow> strength (es' ! k) \<le> strength (es' ! i))"
  using assms(1,2) unfolding es'_def
proof (induction m)
  case (Suc m)
  show ?case
  proof (cases "m = i")
    case False
    define f where "f = fold (exchange i) [i + 1..<m] es"
    have m: "i < m" "m < length es"
      using Suc.prems False by auto
    have f: "length f = length es" "mset f = mset es" "\<forall>k. k < i \<or> m \<le> k \<longrightarrow> f ! k = es ! k"
        "\<forall>k. i < k \<and> k < m \<longrightarrow> strength (f ! k) \<le> strength (f ! i)"
      using Suc.IH m unfolding f_def by auto
    have "fold (exchange i) [i + 1..<Suc m] es = exchange i m f"
      using m by (simp add: f_def)
    moreover have "mset (exchange i m f) = mset es"
      using mset_exchange[of i f m] f m by simp
    moreover have "exchange i m f ! k = es ! k" if "k < i \<or> Suc m \<le> k" for k
      using that f(3) m by (auto simp: exchange_def nth_list_update)
    moreover have "strength (exchange i m f ! k) \<le> strength (exchange i m f ! i)" if "i < k" "k < Suc m" for k
      using that f m by (cases "k = m") (force simp: exchange_def nth_list_update)+
    ultimately show ?thesis
      using f(1) by auto
  qed simp
qed simp

lemma slice_set:
  assumes "mset es' = mset es" and "\<forall>k. k < i \<or> n \<le> k \<longrightarrow> es' ! k = es ! k" and "i \<le> n" and "n \<le> length es"
  shows "set (drop i (take n es')) = set (drop i (take n es))"
proof -
  have l: "length es' = length es"
    using assms(1) by (metis size_mset)
  have td: "take i es' = take i es" "drop n es' = drop n es"
    using assms(2-4) l by (auto intro!: nth_equalityI)
  have split: "mset xs = mset (take i xs) + mset (drop i (take n xs)) + mset (drop n xs)" for xs :: "'a list"
  proof -
    have "mset xs = mset (take n xs) + mset (drop n xs)"
      by (metis append_take_drop_id mset_append)
    also have "mset (take n xs) = mset (take i (take n xs)) + mset (drop i (take n xs))"
      by (metis append_take_drop_id mset_append)
    finally show ?thesis
      using assms(3) by (simp add: min_def)
  qed
  have "mset (take i es) + mset (drop i (take n es')) + mset (drop n es)
      = mset (take i es) + mset (drop i (take n es)) + mset (drop n es)"
    using assms(1) unfolding split[of es] split[of es'] td .
  then have "mset (drop i (take n es')) = mset (drop i (take n es))"
    by simp
  then show ?thesis
    by (rule mset_eq_setD)
qed

lemma exchange_outer:
  assumes "m < n" and "n \<le> length es"
  defines "es' \<equiv> fold (\<lambda>i. fold (exchange i) [i + 1..<n]) [0..<m] es"
  shows "length es' = length es \<and> mset es' = mset es \<and> (\<forall>k \<ge> n. es' ! k = es ! k)
    \<and> (\<forall>p < m. \<forall>k. p < k \<and> k < n \<longrightarrow> strength (es' ! k) \<le> strength (es' ! p))"
  using assms(1,2) unfolding es'_def
proof (induction m)
  case (Suc m)
  define f where "f = fold (\<lambda>i. fold (exchange i) [i + 1..<n]) [0..<m] es"
  define g where "g = fold (exchange m) [m + 1..<n] f"
  have f: "length f = length es" "mset f = mset es" "\<forall>k \<ge> n. f ! k = es ! k"
      "\<forall>p < m. \<forall>k. p < k \<and> k < n \<longrightarrow> strength (f ! k) \<le> strength (f ! p)"
    using Suc.IH Suc.prems unfolding f_def by auto
  have g: "length g = length f" "mset g = mset f" "\<forall>k. k < m \<or> n \<le> k \<longrightarrow> g ! k = f ! k"
      "\<forall>k. m < k \<and> k < n \<longrightarrow> strength (g ! k) \<le> strength (g ! m)"
    using exchange_inner[of m n f] Suc.prems f(1) unfolding g_def by auto
  have "strength (g ! k) \<le> strength (g ! p)" if "p < m" "p < k" "k < n" for p k
  proof (cases "k < m")
    case True
    then show ?thesis
      using that f(4) g(3) by auto
  next
    case False
    have l: "n \<le> length f" "n \<le> length g"
      using Suc.prems f(1) g(1) by simp_all
    have "g ! k = drop m (take n g) ! (k - m)"
      using False that l by simp
    then have "g ! k \<in> set (drop m (take n g))"
      using False that l by (metis diff_less_mono length_drop length_take min.absorb2 not_less nth_mem)
    then have "g ! k \<in> set (drop m (take n f))"
      using slice_set[OF g(2,3)] Suc.prems l by simp
    then obtain q where "q < n - m" "g ! k = f ! (m + q)"
      using l by (auto simp: in_set_conv_nth)
    then have "g ! k = f ! (m + q)" "m + q < n"
      by simp_all
    then show ?thesis
      using f(4) g(3) that(1) by (metis trans_less_add1)
  qed
  then have "\<forall>p < Suc m. \<forall>k. p < k \<and> k < n \<longrightarrow> strength (g ! k) \<le> strength (g ! p)"
    using g(4) by (auto simp: less_Suc_eq)
  moreover have "fold (\<lambda>i. fold (exchange i) [i + 1..<n]) [0..<Suc m] es = g"
    by (simp add: f_def g_def)
  ultimately show ?case
    using f g by simp
qed simp

definition strongest_first :: "BSS_ENTRY list \<Rightarrow> bool" where
  "strongest_first es \<longleftrightarrow> sorted_wrt (\<lambda>x y. strength y \<le> strength x) es"

lemma sort_by_rssi:
  assumes "unat (BssNr t) \<le> length (BssEntry t)"
  defines "n \<equiv> unat (BssNr t)" and "es \<equiv> BssEntry (BssTableSortByRssi True t)"
  shows "mset (take n es) = mset (take n (BssEntry t)) \<and> strongest_first (take n es)
    \<and> drop n es = drop n (BssEntry t) \<and> length es = length (BssEntry t)"
proof (cases "n = 0")
  case False
  have e: "es = fold (\<lambda>i. fold (exchange i) [i + 1..<n]) [0..<n - 1] (BssEntry t)"
    by (simp add: es_def n_def BssTableSortByRssi_def Let_def)
  have x: "length es = length (BssEntry t)" "mset es = mset (BssEntry t)" "\<forall>k \<ge> n. es ! k = BssEntry t ! k"
      "\<forall>p < n - 1. \<forall>k. p < k \<and> k < n \<longrightarrow> strength (es ! k) \<le> strength (es ! p)"
    using exchange_outer[of "n - 1" n "BssEntry t"] False assms(1) unfolding e n_def by auto
  have d: "drop n es = drop n (BssEntry t)"
    using x(1,3) by (auto intro!: nth_equalityI)
  have "mset (take n es) + mset (drop n es) = mset (take n (BssEntry t)) + mset (drop n (BssEntry t))"
    using x(2) by (metis append_take_drop_id mset_append)
  then have "mset (take n es) = mset (take n (BssEntry t))"
    by (simp add: d)
  moreover have "strongest_first (take n es)"
    using x assms(1) by (simp add: strongest_first_def sorted_wrt_iff_nth_less n_def)
  ultimately show ?thesis
    using d x(1) by simp
qed (simp_all add: es_def n_def BssTableSortByRssi_def strongest_first_def)


section \<open>Selection of candidates\<close>

definition chosen :: "verdict \<Rightarrow> bool" where
  "chosen v \<longleftrightarrow> v = Copy \<or> v = Copy_Continue"

definition used :: "BSS_TABLE \<Rightarrow> BSS_ENTRY list" where
  "used t = take (unat (BssNr t)) (BssEntry t)"

lemma unat_Suc_nr: "unat (x :: UINT8) < 128 \<Longrightarrow> unat (x + 1) = unat x + 1"
  by (simp add: unat_word_ariths)

lemma append_entry_used:
  assumes "length (BssEntry t) = 128" and "unat (BssNr t) < 128"
  shows "used (append_entry b t) = used t @ [b]" and "length (BssEntry (append_entry b t)) = 128"
    and "unat (BssNr (append_entry b t)) = unat (BssNr t) + 1"
  using assms by (simp_all add: append_entry_def used_def unat_Suc_nr take_Suc_conv_app_nth)

lemma select_loop_used:
  assumes "length (BssEntry t) = 128" and "unat (BssNr t) + length bs \<le> 128"
  shows "used (select_loop J bs t) = used t @ filter (\<lambda>b. chosen (J b)) bs
    \<and> length (BssEntry (select_loop J bs t)) = 128
    \<and> unat (BssNr (select_loop J bs t)) = unat (BssNr t) + length (filter (\<lambda>b. chosen (J b)) bs)"
  using assms
proof (induction bs arbitrary: t)
  case (Cons b bs)
  have n: "unat (BssNr t) < 128"
    using Cons.prems(2) by simp
  note A = append_entry_used[OF Cons.prems(1) n, of b]
  have x: "chosen Copy" "chosen Copy_Continue" "\<not> chosen Skip" "\<not> chosen Pass"
    by (simp_all add: chosen_def)
  note IH = Cons.IH[of t] Cons.IH[of "append_entry b t"]
  show ?case
  proof (cases "J b")
    case Copy
    then show ?thesis
      using IH(2) A Cons.prems x by (cases bs) (auto simp: MAX_LEN_OF_BSS_TABLE_def Let_def)
  next
    case Pass
    then show ?thesis
      using IH(1) Cons.prems x n by (auto simp: MAX_LEN_OF_BSS_TABLE_def Let_def)
  qed (use IH A Cons.prems x in auto)
qed simp

lemma BssTableInit_simps [simp]:
  "length (BssEntry (fst (BssTableInit t h))) = length (BssEntry t)" "BssNr (fst (BssTableInit t h)) = 0"
  by (simp_all add: BssTableInit_def)

lemma ssid_sort_used:
  assumes "length (BssEntry Out) = 128" and "length (BssEntry Scan) = 128" and "unat (BssNr Scan) \<le> 128"
    and "len \<noteq> 0 \<or> bAutoConnectIfNoSSID cfg"
  shows "mset (used (fst (BssTableSsidSort True cfg Scan Out h s len))) = mset (filter (\<lambda>b. chosen (judge cfg s len b)) (used Scan))
    \<and> strongest_first (used (fst (BssTableSsidSort True cfg Scan Out h s len)))"
proof -
  define t where "t = select_loop (judge cfg s len) (used Scan) (fst (BssTableInit Out h))"
  have l: "length (used Scan) \<le> 128" "used (fst (BssTableInit Out h)) = []"
    using assms(2,3) by (simp_all add: used_def)
  have t: "used t = filter (\<lambda>b. chosen (judge cfg s len b)) (used Scan)" "length (BssEntry t) = 128"
      "unat (BssNr t) = length (filter (\<lambda>b. chosen (judge cfg s len b)) (used Scan))"
    using select_loop_used[of "fst (BssTableInit Out h)" "used Scan" "judge cfg s len"] assms(1-3) l
    unfolding t_def by simp_all
  have le: "unat (BssNr t) \<le> length (BssEntry t)"
    using t(2,3) assms(2,3) length_filter_le[of "\<lambda>b. chosen (judge cfg s len b)" "used Scan"] by (simp add: used_def)
  have e: "fst (BssTableSsidSort True cfg Scan Out h s len) = BssTableSortByRssi True t"
    using assms(4) by (auto simp: BssTableSsidSort_def t_def used_def split: prod.split)
  have "BssNr (BssTableSortByRssi True t) = BssNr t"
    by (simp add: BssTableSortByRssi_def Let_def)
  then show ?thesis
    using sort_by_rssi[OF le] t(1) unfolding e by (simp add: used_def)
qed

text \<open>
  \<^bold>\<open>C22\<close> The candidates for a connection are the scanned access points that pass the checks, strongest first: after
  \<^verbatim>\<open>BssTableSsidSort\<close> the output table holds, with multiplicity, exactly the entries of the scan table that
  \<open>judge\<close> selects, ordered by decreasing signal strength.
\<close>

theorem BssTableSsidSort_correct:
  assumes "length (BssEntry Out) = 128" and "length (BssEntry Scan) = 128" and "unat (BssNr Scan) \<le> 128"
    and "len \<noteq> 0 \<or> bAutoConnectIfNoSSID cfg"
  shows "mset (used (fst (BssTableSsidSort True cfg Scan Out h s len))) = mset (filter (\<lambda>b. chosen (judge cfg s len b)) (used Scan))
    \<and> strongest_first (used (fst (BssTableSsidSort True cfg Scan Out h s len)))"
  using assms by (rule ssid_sort_used)

lemma zero_buffers:
  "fold (\<lambda>e. zero_buffer (pVarIeFromProbRsp e)) es h a = (if Some a \<in> pVarIeFromProbRsp ` set es then zeros else h a)"
  by (induction es arbitrary: h) (auto simp: zero_buffer_def split: option.splits)

lemma mset_used_mono: "mset (used t) = mset xs \<Longrightarrow> x \<in> set xs \<Longrightarrow> x \<in> set (BssEntry t)"
  by (metis in_set_takeD mset_eq_setD used_def)

text \<open>
  Building the list of candidates a second time erases scan results: the first call copies the entries
  together with their pointers to the probe-response buffers of the scan table, and the second call starts by clearing the
  buffers of all entries in its output table. The elements that an access point sent in its probe response, and which the
  scan table still counts as valid, are zero afterwards.
\<close>

theorem second_sort_erases_probe_responses:
  assumes "length (BssEntry Out) = 128" and "length (BssEntry Scan) = 128" and "unat (BssNr Scan) \<le> 128"
    and "len \<noteq> 0 \<or> bAutoConnectIfNoSSID cfg" and "b \<in> set (used Scan)" and "chosen (judge cfg s len b)"
    and "pVarIeFromProbRsp b = Some a"
  shows "snd (BssTableSsidSort ok cfg' Scan (fst (BssTableSsidSort True cfg Scan Out h s len)) h' s' len') a = zeros"
proof -
  define t where "t = fst (BssTableSsidSort True cfg Scan Out h s len)"
  have "b \<in> set (BssEntry t)"
    using ssid_sort_used[OF assms(1-4), of h s] mset_used_mono assms(5,6) unfolding t_def by fastforce
  then have "Some a \<in> pVarIeFromProbRsp ` set (BssEntry t)"
    using assms(7) by force
  then show ?thesis
    unfolding t_def[symmetric] by (simp add: BssTableSsidSort_def BssTableInit_def zero_buffers)
qed



section \<open>Deletion and the probe-response buffers\<close>

text \<open>
  Every entry of the scan table has a buffer of its own. \<open>ie_view\<close> is an entry without the pointer, with the elements that
  the buffer holds for it.
\<close>

definition ie_buffers_ok :: "BSS_ENTRY list \<Rightarrow> ie_heap \<Rightarrow> bool" where
  "ie_buffers_ok es h \<longleftrightarrow> distinct (map pVarIeFromProbRsp es)
     \<and> (\<forall>e \<in> set es. \<exists>a. pVarIeFromProbRsp e = Some a \<and> length (h a) = MAX_VIE_LEN)
     \<and> (\<forall>e \<in> set es. unat (VarIeFromProbeRspLen e) \<le> MAX_VIE_LEN)"

definition ie_view :: "ie_heap \<Rightarrow> BSS_ENTRY \<Rightarrow> BSS_ENTRY \<times> bytes" where
  "ie_view h e = (e\<lparr>pVarIeFromProbRsp := None\<rparr>, take (unat (VarIeFromProbeRspLen e)) (h (the (pVarIeFromProbRsp e))))"

lemma move_up_ok:
  assumes "ie_buffers_ok es h" and "j + 1 < length es"
  shows "\<exists>es' h'. move_up j (es, h) = Some (es', h') \<and> ie_buffers_ok es' h'
    \<and> map pVarIeFromProbRsp es' = map pVarIeFromProbRsp es
    \<and> (\<forall>k < length es. ie_view h' (es' ! k) = (if k = j then ie_view h (es ! (j + 1)) else ie_view h (es ! k)))"
proof -
  define p where "p k = the (pVarIeFromProbRsp (es ! k))" for k
  have S: "pVarIeFromProbRsp (es ! k) = Some (p k)" "length (h (p k)) = MAX_VIE_LEN"
      "unat (VarIeFromProbeRspLen (es ! k)) \<le> MAX_VIE_LEN" if "k < length es" for k
    using assms(1) nth_mem[OF that] unfolding ie_buffers_ok_def p_def by fastforce+
  have inj: "p k = p m \<longleftrightarrow> k = m" if "k < length es" "m < length es" for k m
    using assms(1) that S(1)[of k] S(1)[of m] unfolding ie_buffers_ok_def distinct_conv_nth by (metis length_map nth_map)
  define nx where "nx = es ! (j + 1)"
  define n where "n = unat (VarIeFromProbeRspLen nx)"
  define buf where "buf = move_at zeros 0 (take n (h (p (j + 1))))"
  define es' where "es' = es[j := nx\<lparr>pVarIeFromProbRsp := Some (p j)\<rparr>]"
  define h' where "h' = h(p j := buf)"
  have d: "p (j + 1) \<noteq> p j"
    using inj[of "j + 1" j] assms(2) by simp
  have n: "n \<le> MAX_VIE_LEN"
    using S(3)[of "j + 1"] assms(2) by (simp add: n_def nx_def)
  have m: "move_up j (es, h) = Some (es', h')"
    using S(1)[of j] S(1)[of "j + 1"] assms(2) d
    by (simp add: move_up_def Let_def es'_def h'_def nx_def[unfolded Suc_eq_plus1[symmetric]] buf_def n_def)
  have buf: "length buf = MAX_VIE_LEN" "take n buf = take n (h (p (j + 1)))"
    using n S(2)[of "j + 1"] assms(2) by (simp_all add: buf_def move_at_def)
  have q: "map pVarIeFromProbRsp es' = map pVarIeFromProbRsp es"
    using S(1)[of j] assms(2) by (auto simp: es'_def list_eq_iff_nth_eq nth_list_update)
  have "ie_buffers_ok es' h'"
  proof -
    have "\<exists>a. pVarIeFromProbRsp (es' ! k) = Some a \<and> length (h' a) = MAX_VIE_LEN"
        "unat (VarIeFromProbeRspLen (es' ! k)) \<le> MAX_VIE_LEN" if "k < length es" for k
      using that S[of k] buf(1) n assms(2) by (auto simp: es'_def h'_def nth_list_update n_def)
    then show ?thesis
      using assms(1) q by (auto simp: ie_buffers_ok_def in_set_conv_nth es'_def)
  qed
  moreover have "ie_view h' (es' ! k) = (if k = j then ie_view h (es ! (j + 1)) else ie_view h (es ! k))" if "k < length es" for k
  proof (cases "k = j")
    case True
    then show ?thesis
      using that buf(2) assms(2) S(1)[of "j + 1"] by (simp add: ie_view_def es'_def h'_def n_def nx_def)
  next
    case False
    then show ?thesis
      using that inj[of k j] assms(2) S(1)[of k] by (simp add: ie_view_def es'_def h'_def)
  qed
  ultimately show ?thesis
    using m q by blast
qed

lemma move_up_all_append:
  "move_up_all (xs @ ys) eh = (case move_up_all xs eh of None \<Rightarrow> None | Some eh \<Rightarrow> move_up_all ys eh)"
  by (induction xs arbitrary: eh) (auto split: option.split)

lemma move_up_all_ok:
  assumes "ie_buffers_ok es h" and "i \<le> m" and "m < length es"
  shows "\<exists>es' h'. move_up_all [i..<m] (es, h) = Some (es', h') \<and> ie_buffers_ok es' h'
    \<and> map pVarIeFromProbRsp es' = map pVarIeFromProbRsp es
    \<and> (\<forall>k < length es. ie_view h' (es' ! k) = (if i \<le> k \<and> k < m then ie_view h (es ! (k + 1)) else ie_view h (es ! k)))"
  using assms(2,3)
proof (induction m)
  case (Suc m)
  show ?case
  proof (cases "i = Suc m")
    case False
    then obtain f g where f: "move_up_all [i..<m] (es, h) = Some (f, g)" "ie_buffers_ok f g"
        "map pVarIeFromProbRsp f = map pVarIeFromProbRsp es"
        "\<forall>k < length es. ie_view g (f ! k) = (if i \<le> k \<and> k < m then ie_view h (es ! (k + 1)) else ie_view h (es ! k))"
      using Suc by auto
    have l: "length f = length es"
      using f(3) map_eq_imp_length_eq by blast
    obtain f' g' where f': "move_up m (f, g) = Some (f', g')" "ie_buffers_ok f' g'"
        "map pVarIeFromProbRsp f' = map pVarIeFromProbRsp f"
        "\<forall>k < length f. ie_view g' (f' ! k) = (if k = m then ie_view g (f ! (m + 1)) else ie_view g (f ! k))"
      using move_up_ok[OF f(2), of m] Suc.prems l by auto
    have "move_up_all [i..<Suc m] (es, h) = Some (f', g')"
      using f(1) f'(1) Suc.prems False by (simp add: move_up_all_append)
    moreover have "ie_view g' (f' ! k) = (if i \<le> k \<and> k < Suc m then ie_view h (es ! (k + 1)) else ie_view h (es ! k))"
      if "k < length es" for k
      using that f(4) f'(4) l Suc.prems False by (cases "k = m") auto
    ultimately show ?thesis
      using f(3) f'(2,3) by auto
  qed (use assms(1) in auto)
qed (use assms(1) in auto)

lemma clear_ok:
  assumes "ie_buffers_ok es h" and "j < length es"
  defines "es' \<equiv> es[j := cleared (es ! j)]" and "h' \<equiv> zero_buffer (pVarIeFromProbRsp (es ! j)) h"
  shows "ie_buffers_ok es' h' \<and> map pVarIeFromProbRsp es' = map pVarIeFromProbRsp es
    \<and> h' (the (pVarIeFromProbRsp (es' ! j))) = zeros \<and> (\<forall>k < length es. k \<noteq> j \<longrightarrow> ie_view h' (es' ! k) = ie_view h (es ! k))"
proof -
  have S: "\<exists>a. pVarIeFromProbRsp (es ! k) = Some a \<and> length (h a) = MAX_VIE_LEN"
      "unat (VarIeFromProbeRspLen (es ! k)) \<le> MAX_VIE_LEN" if "k < length es" for k
    using assms(1) nth_mem[OF that] unfolding ie_buffers_ok_def by auto
  obtain a where a: "pVarIeFromProbRsp (es ! j) = Some a"
    using S(1) assms(2) by blast
  have h': "h' = h(a := zeros)"
    by (simp add: h'_def zero_buffer_def a)
  have p: "map pVarIeFromProbRsp es' = map pVarIeFromProbRsp es"
    using assms(2) by (auto simp: es'_def list_eq_iff_nth_eq nth_list_update cleared_def)
  have "\<exists>b. pVarIeFromProbRsp (es' ! k) = Some b \<and> length (h' b) = MAX_VIE_LEN"
      "unat (VarIeFromProbeRspLen (es' ! k)) \<le> MAX_VIE_LEN" if "k < length es" for k
    using that S[OF that] assms(2) a by (auto simp: es'_def h' nth_list_update cleared_def zero_bss_def)
  then have "ie_buffers_ok es' h'"
    using assms(1) p by (auto simp: ie_buffers_ok_def in_set_conv_nth es'_def)
  moreover have "ie_view h' (es' ! k) = ie_view h (es ! k)" if k: "k < length es" "k \<noteq> j" for k
  proof -
    have "pVarIeFromProbRsp (es ! k) \<noteq> Some a"
      using assms(1,2) k a unfolding ie_buffers_ok_def distinct_conv_nth by (metis length_map nth_map)
    then show ?thesis
      using S(1)[OF k(1)] k by (auto simp: es'_def h' ie_view_def)
  qed
  ultimately show ?thesis
    using p a assms(2) by (simp add: h' es'_def cleared_def)
qed

definition ie_views :: "BSS_TABLE \<Rightarrow> ie_heap \<Rightarrow> (BSS_ENTRY \<times> bytes) list" where
  "ie_views t h = map (ie_view h) (used t)"

definition remove_nth :: "nat \<Rightarrow> 'a list \<Rightarrow> 'a list" where
  "remove_nth i xs = take i xs @ drop (i + 1) xs"

lemma nth_remove_nth: "k + 1 < length xs \<Longrightarrow> i < length xs \<Longrightarrow> remove_nth i xs ! k = (if k < i then xs ! k else xs ! (k + 1))"
  by (auto simp: remove_nth_def nth_append)

text \<open>
  Deleting an access point from the scan table removes its entry and nothing else: the remaining entries
  keep their order, their fields and the elements of their probe responses, although each of them moves to the buffer of
  its new place; every place keeps its buffer, and the buffer that becomes free is cleared. The copying between buffers never
  reads through a NULL pointer.
\<close>

theorem BssTableDeleteEntry_correct:
  assumes "length (BssEntry t) = 128" and "unat (BssNr t) \<le> 128" and "ie_buffers_ok (BssEntry t) h"
    and "List.find (\<lambda>i. Channel (BssEntry t ! i) = ch \<and> Bssid (BssEntry t ! i) = bssid) [0..<unat (BssNr t)] = Some i"
  shows "\<exists>t' h'. BssTableDeleteEntry t h bssid ch = Some (t', h') \<and> ie_views t' h' = remove_nth i (ie_views t h)
    \<and> map pVarIeFromProbRsp (BssEntry t') = map pVarIeFromProbRsp (BssEntry t) \<and> ie_buffers_ok (BssEntry t') h'
    \<and> h' (the (pVarIeFromProbRsp (BssEntry t' ! (unat (BssNr t) - 1)))) = zeros"
proof -
  define n where "n = unat (BssNr t)"
  have i: "i < n"
    using assms(4) unfolding n_def by (auto simp: find_Some_iff)
  then have n: "0 < n" "n \<le> 128" "i \<le> n - 1" "n - 1 < length (BssEntry t)"
    using assms(1,2) by (simp_all add: n_def)
  obtain es g where m: "move_up_all [i..<n - 1] (BssEntry t, h) = Some (es, g)" "ie_buffers_ok es g"
      "map pVarIeFromProbRsp es = map pVarIeFromProbRsp (BssEntry t)"
      "\<forall>k < 128. ie_view g (es ! k) = (if i \<le> k \<and> k < n - 1 then ie_view h (BssEntry t ! (k + 1)) else ie_view h (BssEntry t ! k))"
    using move_up_all_ok[OF assms(3) n(3,4)] assms(1) by auto
  have l: "length es = 128"
    using m(3) assms(1) map_eq_imp_length_eq by metis
  define es' g' where "es' = es[n - 1 := cleared (es ! (n - 1))]" and "g' = zero_buffer (pVarIeFromProbRsp (es ! (n - 1))) g"
  define t' where "t' = t\<lparr>BssNr := BssNr t - 1, BssEntry := es'\<rparr>"
  have D: "BssTableDeleteEntry t h bssid ch = Some (t', g')"
    unfolding BssTableDeleteEntry_def n_def[symmetric] assms(4)[folded n_def] option.case Let_def m(1) prod.case t'_def es'_def g'_def by (rule refl)
  have c: "ie_buffers_ok es' g'" "map pVarIeFromProbRsp es' = map pVarIeFromProbRsp es"
      "g' (the (pVarIeFromProbRsp (es' ! (n - 1)))) = zeros" "\<forall>k < n - 1. ie_view g' (es' ! k) = ie_view g (es ! k)"
    using clear_ok[OF m(2), of "n - 1"] n l unfolding es'_def g'_def by auto
  have nr: "unat (BssNr t') = n - 1"
  proof -
    have "BssNr t \<noteq> 0"
      using n(1) by (auto simp: n_def)
    then show ?thesis
      by (simp add: t'_def n_def unat_minus_one)
  qed
  have "ie_views t' g' = remove_nth i (ie_views t h)"
  proof (rule nth_equalityI)
    show "length (ie_views t' g') = length (remove_nth i (ie_views t h))"
      using nr n i assms(1) l by (simp add: ie_views_def used_def remove_nth_def n_def[symmetric] t'_def es'_def)
    fix k
    assume "k < length (ie_views t' g')"
    then have "k < n - 1"
      using nr by (simp add: ie_views_def used_def)
    then show "ie_views t' g' ! k = remove_nth i (ie_views t h) ! k"
      using c(4) m(4) nr n i assms(1) l
      by (simp add: nth_remove_nth ie_views_def used_def n_def[symmetric] t'_def es'_def)
  qed
  then show ?thesis
    using D c m(3) by (simp add: t'_def n_def[symmetric])
qed


section \<open>The scan table as a map\<close>

text \<open>The key of an access point is its BSSID together with the band; \<open>scan_map\<close> is the table as a finite map.\<close>

definition bss_key :: "BSS_ENTRY \<Rightarrow> mac_addr \<times> bool" where
  "bss_key e = (Bssid e, Channel e \<le> 14)"

definition scan_map :: "BSS_TABLE \<Rightarrow> mac_addr \<times> bool \<Rightarrow> BSS_ENTRY option" where
  "scan_map t = map_of (map (\<lambda>e. (bss_key e, e)) (used t))"

definition scan_wf :: "BSS_TABLE \<Rightarrow> bool" where
  "scan_wf t \<longleftrightarrow> length (BssEntry t) = 128 \<and> unat (BssNr t) \<le> 128 \<and> unat (BssOverlapNr t) < 128
     \<and> distinct (map bss_key (used t))"

lemma length_used: "scan_wf t \<Longrightarrow> length (used t) = unat (BssNr t)"
  by (simp add: scan_wf_def used_def)

lemma search_key:
  "BssTableSearch t b c = first_index (\<lambda>e. bss_key e = (b, c \<le> 14)) t"
  unfolding BssTableSearch_def by (rule arg_cong[where f = "\<lambda>P. first_index P t"]) (auto simp: bss_key_def same_band_def)

lemma first_index_found:
  assumes "scan_wf t" and "i < unat (BssNr t)" and "bss_key (used t ! i) = k"
  shows "first_index (\<lambda>e. bss_key e = k) t = i"
proof -
  have "List.find (\<lambda>j. bss_key (BssEntry t ! j) = k) [0..<unat (BssNr t)] = Some i"
    unfolding find_Some_iff
  proof (intro exI[of _ i] conjI allI impI)
    fix j
    assume "j < i"
    then have "map bss_key (used t) ! j \<noteq> map bss_key (used t) ! i"
      using assms(1,2) length_used[OF assms(1)] unfolding scan_wf_def distinct_conv_nth by (metis length_map less_trans nat_neq_iff)
    then show "bss_key (BssEntry t ! ([0..<unat (BssNr t)] ! j)) \<noteq> k"
      using \<open>j < i\<close> assms length_used[OF assms(1)] by (simp add: used_def)
  qed (use assms in \<open>simp_all add: used_def\<close>)
  then show ?thesis
    by (simp add: first_index_def)
qed

lemma first_index_cases:
  "first_index P t = BSS_NOT_FOUND \<and> (\<forall>i < unat (BssNr t). \<not> P (BssEntry t ! i))
   \<or> (first_index P t < unat (BssNr t) \<and> P (BssEntry t ! first_index P t))"
proof (cases "List.find (\<lambda>i. P (BssEntry t ! i)) [0..<unat (BssNr t)]")
  case None
  then have "first_index P t = BSS_NOT_FOUND"
    by (simp add: first_index_def)
  then show ?thesis
    using None by (simp add: find_None_iff)
next
  case (Some i)
  then have "first_index P t = i"
    by (simp add: first_index_def)
  then show ?thesis
    using Some by (auto simp: find_Some_iff)
qed

lemma nr_not_found: "unat (x :: UINT8) \<noteq> BSS_NOT_FOUND" "i < unat x \<Longrightarrow> i \<noteq> BSS_NOT_FOUND"
proof -
  have "unat x < 256"
    by (rule order.strict_trans2[OF unsigned_less]) simp
  then show "unat x \<noteq> BSS_NOT_FOUND" "i < unat x \<Longrightarrow> i \<noteq> BSS_NOT_FOUND"
    by (auto simp: BSS_NOT_FOUND_def)
qed

abbreviation key_map :: "BSS_ENTRY list \<Rightarrow> mac_addr \<times> bool \<Rightarrow> BSS_ENTRY option" where
  "key_map es \<equiv> map_of (map (\<lambda>e. (bss_key e, e)) es)"

lemma key_map_dom: "dom (key_map es) = bss_key ` set es"
  by (simp add: dom_map_of_conv_image_fst image_comp)

lemma key_map_insert:
  assumes "bss_key y \<notin> bss_key ` set A"
  shows "key_map (A @ y # B) = (key_map (A @ B))(bss_key y \<mapsto> y)"
  using assms map_add_upd_left[of "bss_key y" "key_map A" "key_map B" y] by (simp add: key_map_dom)

lemma key_map_replace:
  assumes "bss_key x \<notin> bss_key ` set (A @ B)" and "bss_key y \<notin> bss_key ` set (A @ B)"
  shows "key_map (A @ y # B) = (key_map (A @ x # B))(bss_key x := None, bss_key y \<mapsto> y)"
proof -
  have "key_map (A @ B) (bss_key x) = None"
    using assms(1) key_map_dom[of "A @ B"] by blast
  then have "(key_map (A @ B))(bss_key x := None) = key_map (A @ B)"
    by (simp add: fun_upd_idem)
  moreover have k: "bss_key x \<notin> bss_key ` set A" "bss_key y \<notin> bss_key ` set A"
    using assms by (simp_all add: image_Un)
  ultimately show ?thesis
    unfolding key_map_insert[OF k(1)] key_map_insert[OF k(2)] by (simp only: fun_upd_upd)
qed

lemma scan_map_update:
  assumes "scan_wf t" and "i < unat (BssNr t)" and "bss_key e = k" and "bss_key (used t ! i) = k \<or> k \<notin> bss_key ` set (used t)"
    and "t' = t\<lparr>BssEntry := (BssEntry t)[i := e], BssOverlapNr := x\<rparr>" and "unat x < 128"
  shows "scan_wf t' \<and> scan_map t' = (scan_map t)(bss_key (used t ! i) := None, k \<mapsto> e) \<and> used t' ! i = e"
proof -
  define us where "us = used t"
  have l: "i < length us" "distinct (map bss_key us)"
    using assms(1,2) length_used[OF assms(1)] by (simp_all add: us_def scan_wf_def)
  have u: "used t' = us[i := e]"
    using assms(1,2,5) by (simp add: us_def used_def take_update_swap)
  have s: "us = take i us @ us ! i # drop (Suc i) us"
    using l(1) by (rule id_take_nth_drop)
  define A B where "A = take i us" and "B = drop (Suc i) us"
  have us: "us = A @ us ! i # B" "us[i := e] = A @ e # B"
    using s l(1) by (simp_all add: A_def B_def upd_conv_take_nth_drop)
  have d: "bss_key (us ! i) \<notin> bss_key ` set A" "bss_key (us ! i) \<notin> bss_key ` set B" "distinct (map bss_key (A @ B))"
    using l(2) by (subst (asm) us(1), auto)+
  have k: "k \<notin> bss_key ` set A" "k \<notin> bss_key ` set B"
  proof -
    have "set A \<subseteq> set us" "set B \<subseteq> set us"
      by (simp_all add: A_def B_def set_take_subset set_drop_subset)
    then show "k \<notin> bss_key ` set A" "k \<notin> bss_key ` set B"
      using assms(4) d(1,2) unfolding us_def[symmetric] by auto
  qed
  have "scan_map t' = (scan_map t)(bss_key (us ! i) := None, k \<mapsto> e)"
    using key_map_replace[of "us ! i" A B e] d(1,2) k assms(3) unfolding scan_map_def u us(2) us_def[symmetric] us(1)[symmetric]
    by auto
  moreover have "scan_wf t'"
    using assms(1,3,5,6) u us(2) d(3) k by (simp add: scan_wf_def)
  ultimately show ?thesis
    using u l(1) by (auto simp: us_def)
qed

lemma scan_map_append:
  assumes "scan_wf t" and "unat (BssNr t) < 128" and "bss_key e = k" and "k \<notin> bss_key ` set (used t)"
    and "t' = t\<lparr>BssEntry := (BssEntry t)[unat (BssNr t) := e], BssNr := BssNr t + 1\<rparr>"
  shows "scan_wf t' \<and> scan_map t' = (scan_map t)(k \<mapsto> e) \<and> unat (BssNr t') = unat (BssNr t) + 1 \<and> used t' ! unat (BssNr t) = e"
proof -
  have "t' = append_entry e t"
    by (simp add: append_entry_def assms(5))
  then have u: "used t' = used t @ [e]" "length (BssEntry t') = 128" "unat (BssNr t') = unat (BssNr t) + 1"
    using append_entry_used[of t e] assms(1,2) by (simp_all add: scan_wf_def)
  have "scan_map t' = (scan_map t)(k \<mapsto> e)"
    using key_map_insert[of e "used t" "[]"] assms(3,4) unfolding scan_map_def u(1) by simp
  moreover have "scan_wf t'"
    using assms u by (simp add: scan_wf_def)
  ultimately show ?thesis
    using u length_used[OF assms(1)] by (auto simp: nth_append)
qed


text \<open>Parsing and storing the elements changes neither the key of an entry nor its buffer.\<close>

definition ident :: "BSS_ENTRY \<Rightarrow> mac_addr \<times> UINT8 \<times> addr option \<times> UINT16" where
  "ident e = (Bssid e, Channel e, pVarIeFromProbRsp e, VarIeFromProbeRspLen e)"

lemma ident_update [simp]:
  "ident (e\<lparr>WPA := x\<rparr>) = ident e" "ident (e\<lparr>WPA2 := x\<rparr>) = ident e" "ident (e\<lparr>WepStatus := y\<rparr>) = ident e"
  "ident (e\<lparr>AuthMode := m\<rparr>) = ident e" "ident (e\<lparr>AuthModeAux := m\<rparr>) = ident e" "ident (e\<lparr>bSES := b\<rparr>) = ident e"
  "ident (e\<lparr>WpaIE := w\<rparr>) = ident e" "ident (e\<lparr>RsnIE := w\<rparr>) = ident e" "ident (e\<lparr>WpsIE := w\<rparr>) = ident e"
  "ident (e\<lparr>CountryString := c\<rparr>) = ident e" "ident (e\<lparr>bHasCountryIE := b\<rparr>) = ident e"
  "ident (e\<lparr>EdcaParm := q\<rparr>) = ident e" "ident (e\<lparr>QosCapability := q\<rparr>) = ident e" "ident (e\<lparr>QbssLoad := q\<rparr>) = ident e"
  by (simp_all add: ident_def)

lemma ident_set_auth [simp]: "ident (set_auth m e) = ident e"
  by (simp add: set_auth_def)

lemma ident_akm_loop: "akm_loop n b p e = Some (e', p') \<Longrightarrow> ident e' = ident e"
  by (induction n arbitrary: p e) (auto split: bind_splits if_splits)

lemma ident_status [simp]:
  "ident (wpa_modes t e) = ident e" "ident (wpa_status e) = ident e" "ident (rsn_status e) = ident e" "ident (rsn_caps c e) = ident e"
  by (simp_all add: wpa_modes_def wpa_status_def rsn_status_def rsn_caps_def Let_def)

lemma ident_wpa_element: "wpa_element e pos = Some e' \<Longrightarrow> ident e' = ident e"
  unfolding wpa_element_def by (auto simp: bind_eq_Some_conv split: if_split_asm)

lemma ident_rsn_element: "rsn_element e pos = Some e' \<Longrightarrow> ident e' = ident e"
  unfolding rsn_element_def by (auto simp: bind_eq_Some_conv Let_def dest!: ident_akm_loop split: if_split_asm)

lemma ident_one_element: "one_element e pos = Some e' \<Longrightarrow> ident e' = ident e"
  unfolding one_element_def by (auto simp: bind_eq_Some_conv dest: ident_wpa_element ident_rsn_element split: if_split_asm)

lemma ident_parse_loop: "parse_loop n e pos = Some e' \<Longrightarrow> ident e' = ident e"
proof (induction n e pos rule: parse_loop.induct)
  case (1 n e pos)
  show ?case
  proof (cases "pos < n")
    case True
    then obtain f len where "one_element e pos = Some f" "rd (VarIEs f) (pos + 1) = Some len"
        "parse_loop n f (pos + unat len + 2) = Some e'"
      using "1.prems" by (subst (asm) parse_loop.simps) (auto simp: bind_eq_Some_conv)
    then show ?thesis
      using "1.IH"[OF True] ident_one_element by metis
  next
    case False
    then show ?thesis
      using "1.prems" by (subst (asm) parse_loop.simps) simp
  qed
qed

lemma ident_store_element: "store_element b p eid len e = Some e' \<Longrightarrow> ident e' = ident e"
  unfolding store_element_def by (auto simp: bind_eq_Some_conv split: if_split_asm)

lemma ident_store_loop: "store_loop n b p e = Some e' \<Longrightarrow> ident e' = ident e"
proof (induction n b p e rule: store_loop.induct)
  case (1 n b p e)
  obtain len where len: "rd b (p + 1) = Some len"
    using "1.prems" by (subst (asm) store_loop.simps) (auto simp: bind_eq_Some_conv)
  show ?case
  proof (cases "p + 2 + unat len \<le> n")
    case True
    then obtain eid f where "rd b p = Some eid" "store_element b p eid len e = Some f" "store_loop n b (p + 2 + unat len) f = Some e'"
      using "1.prems" len by (subst (asm) store_loop.simps) (auto simp: bind_eq_Some_conv)
    then show ?thesis
      using "1.IH"[OF len True] ident_store_element by metis
  next
    case False
    then show ?thesis
      using "1.prems" len by (subst (asm) store_loop.simps) simp
  qed
qed


lemma ident_set_ssid: "ident (set_ssid l e) = ident e"
  by (simp add: set_ssid_def ident_def Let_def)

lemma ident_set_fixed: "ident (set_fixed now l r e) = (Bssid e, ie_Channel l, pVarIeFromProbRsp e, VarIeFromProbeRspLen e)"
  by (simp add: set_fixed_def ident_def Let_def split: prod.split)

lemma ident_set_ht: "ident (fst (set_ht c l e)) = ident e"
  by (simp add: set_ht_def ident_def Let_def case_prod_beta)

lemma ident_BssCipherParse: "BssCipherParse e = Some e' \<Longrightarrow> ident e' = ident e"
  unfolding BssCipherParse_def by (drule ident_parse_loop) simp

lemma BssEntrySet_ident:
  assumes "BssEntrySet c now e l rssi n v = Some (e', l', c')"
  shows "ident e' = (ie_Bssid l, ie_Channel l, pVarIeFromProbRsp e, VarIeFromProbeRspLen e)"
proof -
  define m where "m = (if unat (ie_ExtRateLen l) > MAX_LEN_OF_SUPPORTED_RATES
                 then l\<lparr>ie_ExtRateLen := of_nat MAX_LEN_OF_SUPPORTED_RATES\<rparr> else l)"
  define f where "f = set_fixed now m rssi (set_ssid m (e\<lparr>Bssid := ie_Bssid m\<rparr>))"
  define g where "g = (if n \<noteq> 0 then f\<lparr>VarIELen := n, VarIEs := move_at (VarIEs f) 0 (take (unat n) v)\<rparr> else f\<lparr>VarIELen := 0\<rparr>)"
  define q where "q = set_ht c m (g\<lparr>AddHtInfoLen := 0, HtCapabilityLen := 0\<rparr>)"
  have m: "ie_Bssid m = ie_Bssid l" "ie_Channel m = ie_Channel l"
    by (simp_all add: m_def)
  have "ident (set_ssid m (e\<lparr>Bssid := ie_Bssid m\<rparr>)) = (ie_Bssid l, Channel e, pVarIeFromProbRsp e, VarIeFromProbeRspLen e)"
    by (simp add: ident_set_ssid) (simp add: ident_def m)
  then have f: "ident f = (ie_Bssid l, ie_Channel l, pVarIeFromProbRsp e, VarIeFromProbeRspLen e)"
    unfolding f_def ident_set_fixed by (simp add: ident_def m)
  have g: "ident (g\<lparr>AddHtInfoLen := 0, HtCapabilityLen := 0\<rparr>) = ident f"
    by (simp add: g_def ident_def)
  obtain h where h: "BssCipherParse (fst q) = Some h" "ident e' = ident h"
    using assms unfolding BssEntrySet_def m_def[symmetric] Let_def f_def[symmetric] g_def[symmetric] q_def[symmetric] case_prod_beta
    by (auto simp: bind_eq_Some_conv dest!: ident_store_loop split: if_split_asm)
  then show ?thesis
    using ident_BssCipherParse[OF h(1)] f g by (simp add: q_def ident_set_ht)
qed

lemma BssEntrySet_key:
  "BssEntrySet c now e l rssi n v = Some (e', l', c') \<Longrightarrow> bss_key e' = (ie_Bssid l, ie_Channel l \<le> 14)"
  using BssEntrySet_ident[of c now e l rssi n v] by (auto simp: ident_def bss_key_def)

text \<open>The three ways in which \<^verbatim>\<open>BssTableSetEntry\<close> writes an entry, as one.\<close>

definition replaced :: "BSS_TABLE \<Rightarrow> nat \<Rightarrow> mac_addr \<times> bool \<Rightarrow> BSS_ENTRY option" where
  "replaced t i = (if i < unat (BssNr t) then (scan_map t)(bss_key (BssEntry t ! i) := None) else scan_map t)"

lemma SetEntry_cases:
  assumes "BssTableSetEntry s c now t l rssi n v = Some (idx, t', l', c')"
  defines "k \<equiv> BssTableSearch t (ie_Bssid l) (ie_Channel l)"
  obtains (refused) "k = BSS_NOT_FOUND" "128 \<le> unat (BssNr t)" "idx = BSS_NOT_FOUND" "t' = t"
    | (overlap) e where "k = BSS_NOT_FOUND" "128 \<le> unat (BssNr t)" "idx = unat (BssOverlapNr t)"
        "BssEntrySet c now (BssEntry t ! idx) l rssi n v = Some (e, l', c')"
        "t' = t\<lparr>BssEntry := (BssEntry t)[idx := e], BssOverlapNr := (BssOverlapNr t + 1) mod 128\<rparr>"
    | (fresh) e where "k = BSS_NOT_FOUND" "unat (BssNr t) < 128" "idx = unat (BssNr t)"
        "BssEntrySet c now (BssEntry t ! idx) l rssi n v = Some (e, l', c')"
        "t' = t\<lparr>BssEntry := (BssEntry t)[idx := e], BssNr := BssNr t + 1\<rparr>"
    | (update) e where "k \<noteq> BSS_NOT_FOUND" "idx = k"
        "BssEntrySet c now (BssEntry t ! idx) l rssi n v = Some (e, l', c')"
        "t' = t\<lparr>BssEntry := (BssEntry t)[idx := e], BssOverlapNr := BssOverlapNr t\<rparr>"
proof (cases "k = BSS_NOT_FOUND")
  case True
  show ?thesis
  proof (cases "128 \<le> unat (BssNr t)")
    case full: True
    have "idx = BSS_NOT_FOUND \<and> t' = t \<or> idx = unat (BssOverlapNr t)
      \<and> (\<exists>e. BssEntrySet c now (BssEntry t ! unat (BssOverlapNr t)) l rssi n v = Some (e, l', c')
           \<and> t' = t\<lparr>BssEntry := (BssEntry t)[unat (BssOverlapNr t) := e], BssOverlapNr := (BssOverlapNr t + 1) mod 128\<rparr>)"
      using assms(1) True full unfolding BssTableSetEntry_def k_def[symmetric]
      by (simp add: Let_def MAX_LEN_OF_BSS_TABLE_def bind_eq_Some_conv split: if_split_asm) auto
    then show ?thesis
      using True full refused overlap by blast
  next
    case False
    then show ?thesis
      using assms(1) True fresh unfolding BssTableSetEntry_def k_def[symmetric]
      by (auto simp: Let_def MAX_LEN_OF_BSS_TABLE_def bind_eq_Some_conv)
  qed
next
  case False
  then show ?thesis
    using assms(1) update unfolding BssTableSetEntry_def k_def[symmetric]
    by (auto simp: Let_def bind_eq_Some_conv)
qed


lemma search_not_found:
  assumes "scan_wf t" and "BssTableSearch t b c = BSS_NOT_FOUND"
  shows "(b, c \<le> 14) \<notin> bss_key ` set (used t)"
proof -
  have "\<forall>i < unat (BssNr t). bss_key (BssEntry t ! i) \<noteq> (b, c \<le> 14)"
    using first_index_cases[of "\<lambda>e. bss_key e = (b, c \<le> 14)" t] assms(2) nr_not_found(2) unfolding search_key by metis
  then show ?thesis
    using length_used[OF assms(1)] by (fastforce simp: in_set_conv_nth used_def)
qed

lemma search_found:
  assumes "scan_wf t" and "BssTableSearch t b c \<noteq> BSS_NOT_FOUND"
  shows "BssTableSearch t b c < unat (BssNr t)" and "bss_key (used t ! BssTableSearch t b c) = (b, c \<le> 14)"
  using first_index_cases[of "\<lambda>e. bss_key e = (b, c \<le> 14)" t] assms length_used[OF assms(1)] unfolding search_key
  by (auto simp: used_def)

text \<open>
  \<^bold>\<open>C21\<close> The scan table refines a finite map from BSSID and band to entries. \<^verbatim>\<open>BssTableSetEntry\<close> keeps the table
  well formed (one entry per key, counters in range). Either it refuses, which happens only when the table is full and the
  access point is new, and leaves the table alone; or the map gains the entry that \<^verbatim>\<open>BssEntrySet\<close> fills for the
  access point in the place \<open>idx\<close>, loses at most the entry that was in this place, and a search for the access point
  returns \<open>idx\<close>.
\<close>

theorem BssTableSetEntry_refines_map:
  assumes "scan_wf t" and "BssTableSetEntry s c now t l rssi n v = Some (idx, t', l', c')"
  shows "scan_wf t' \<and>
    (idx = BSS_NOT_FOUND \<and> t' = t \<and> unat (BssNr t) = 128 \<and> scan_map t (ie_Bssid l, ie_Channel l \<le> 14) = None
     \<or> (\<exists>e. BssEntrySet c now (BssEntry t ! idx) l rssi n v = Some (e, l', c')
          \<and> scan_map t' = (replaced t idx)((ie_Bssid l, ie_Channel l \<le> 14) \<mapsto> e))
       \<and> BssTableSearch t' (ie_Bssid l) (ie_Channel l) = idx)"
  using assms(2)
proof (cases rule: SetEntry_cases)
  case refused
  then show ?thesis
    using assms(1) search_not_found[OF assms(1) refused(1)] key_map_dom[of "used t"] by (auto simp: scan_wf_def scan_map_def)
next
  case (overlap e)
  note K = BssEntrySet_key[OF overlap(4)]
  have i: "idx < unat (BssNr t)" "unat ((BssOverlapNr t + 1) mod 128) < 128"
    using assms(1) overlap(2,3) by (simp_all add: scan_wf_def unat_mod)
  have u: "used t ! idx = BssEntry t ! idx"
    using i(1) by (simp add: used_def)
  have *: "scan_wf t'" "scan_map t' = (replaced t idx)((ie_Bssid l, ie_Channel l \<le> 14) \<mapsto> e)" "used t' ! idx = e"
    using scan_map_update[OF assms(1) i(1) K _ overlap(5) i(2)] search_not_found[OF assms(1) overlap(1)] i(1) u
    by (simp_all add: replaced_def)
  have "BssTableSearch t' (ie_Bssid l) (ie_Channel l) = idx"
    unfolding search_key by (rule first_index_found[OF *(1)]) (use *(3) K i(1) overlap(5) in simp_all)
  then show ?thesis
    using * overlap(4) by blast
next
  case (fresh e)
  note K = BssEntrySet_key[OF fresh(4)]
  have *: "scan_wf t'" "scan_map t' = (replaced t idx)((ie_Bssid l, ie_Channel l \<le> 14) \<mapsto> e)"
      "unat (BssNr t') = idx + 1" "used t' ! idx = e"
    using scan_map_append[OF assms(1) fresh(2) K search_not_found[OF assms(1) fresh(1)] fresh(5)[unfolded fresh(3)]] fresh(3)
    by (simp_all add: replaced_def)
  have "BssTableSearch t' (ie_Bssid l) (ie_Channel l) = idx"
    unfolding search_key by (rule first_index_found[OF *(1)]) (use *(3,4) K in simp_all)
  then show ?thesis
    using * fresh(4) by blast
next
  case (update e)
  note K = BssEntrySet_key[OF update(3)]
  note F = search_found[OF assms(1) update(1), folded update(2)]
  have u: "used t ! idx = BssEntry t ! idx"
    using F(1) by (simp add: used_def)
  have *: "scan_wf t'" "scan_map t' = (replaced t idx)((ie_Bssid l, ie_Channel l \<le> 14) \<mapsto> e)" "used t' ! idx = e"
    using scan_map_update[OF assms(1) F(1) K _ update(4)] F u assms(1) by (simp_all add: replaced_def scan_wf_def)
  have "BssTableSearch t' (ie_Bssid l) (ie_Channel l) = idx"
    unfolding search_key by (rule first_index_found[OF *(1)]) (use *(3) K F(1) update(4) in simp_all)
  then show ?thesis
    using * update(3) by blast
qed

section \<open>Ageing\<close>

text \<open>
  Ageing loses buffers and skips entries. When the only two entries of the table are both out of date,
  \<^verbatim>\<open>MaintainBssTable\<close> removes the first and never looks at the second, which has moved to the index just visited; and
  the place that becomes free has no buffer any more, as \<^verbatim>\<open>MaintainBssTable\<close>, unlike \<^verbatim>\<open>BssTableDeleteEntry\<close>, does not put
  the pointer back after zeroing the entry.
\<close>

theorem MaintainBssTable_skips_and_leaks:
  assumes "ie_buffers_ok (BssEntry t) h" and "length (BssEntry t) = 128" and "BssNr t = 2"
    and "too_old g now (age_entry (BssEntry t ! 0))" and "too_old g now (age_entry (BssEntry t ! 1))"
  shows "\<exists>t' h'. MaintainBssTable g now t h = Some (t', h') \<and> BssNr t' = 1 \<and> Bssid (BssEntry t' ! 0) = Bssid (BssEntry t ! 1)
    \<and> pVarIeFromProbRsp (BssEntry t' ! 1) = None"
proof -
  define es where "es = (BssEntry t)[0 := age_entry (BssEntry t ! 0)]"
  have p: "pVarIeFromProbRsp (age_entry b) = pVarIeFromProbRsp b" "VarIeFromProbeRspLen (age_entry b) = VarIeFromProbeRspLen b" for b
    by (simp_all add: age_entry_def)
  have l: "length es = 128"
    using assms(2) by (simp add: es_def)
  have m: "map pVarIeFromProbRsp es = map pVarIeFromProbRsp (BssEntry t)" "map VarIeFromProbeRspLen es = map VarIeFromProbeRspLen (BssEntry t)"
    using assms(2) by (simp_all add: es_def map_update p list_update_same_conv)
  have "ie_buffers_ok es h"
  proof -
    have S: "\<exists>a. pVarIeFromProbRsp (BssEntry t ! k) = Some a \<and> length (h a) = MAX_VIE_LEN"
        "unat (VarIeFromProbeRspLen (BssEntry t ! k)) \<le> MAX_VIE_LEN" if "k < 128" for k
      using assms(1,2) nth_mem[of k "BssEntry t"] that unfolding ie_buffers_ok_def by auto
    have "pVarIeFromProbRsp (es ! k) = pVarIeFromProbRsp (BssEntry t ! k)"
        "VarIeFromProbeRspLen (es ! k) = VarIeFromProbeRspLen (BssEntry t ! k)" if "k < 128" for k
      using m that assms(2) l by (metis nth_map)+
    then show ?thesis
      using S assms(1) m(1) l by (auto simp: ie_buffers_ok_def in_set_conv_nth)
  qed
  then obtain f q where f: "move_up 0 (es, h) = Some (f, q)" "ie_view q (f ! 0) = ie_view h (es ! 1)" "length f = 128"
    using move_up_ok[of es h 0] l by (metis One_nat_def Suc_eq_plus1 length_map one_less_numeral_iff semiring_norm(76) zero_less_numeral)
  have b: "Bssid (f ! 0) = Bssid (BssEntry t ! 1)"
    using arg_cong[OF f(2), of "\<lambda>x. Bssid (fst x)"] by (simp add: ie_view_def es_def)
  have "maintain_loop g now 0 2 (BssEntry t) h
      = maintain_loop g now 1 1 (f[1 := zero_bss]) (zero_buffer (pVarIeFromProbRsp (f ! 1)) q)"
    using assms(4) f(1) by (subst maintain_loop.simps) (simp add: Let_def es_def[symmetric])
  also have "\<dots> = Some (1, f[1 := zero_bss], zero_buffer (pVarIeFromProbRsp (f ! 1)) q)"
    by (subst maintain_loop.simps) simp
  finally show ?thesis
    using b f(3) assms(3) by (simp add: MaintainBssTable_def zero_bss_def)
qed


section \<open>Concrete instances\<close>

definition ex_bss :: BSS_ENTRY where
  "ex_bss = zero_bss\<lparr>SsidLen := 1, Ssid := 7 # replicate 31 0, AuthMode := Ndis802_11AuthModeWPAPSK, pVarIeFromProbRsp := Some 0\<rparr>"

definition ex_tab :: "UINT8 \<Rightarrow> BSS_TABLE" where
  "ex_tab n = \<lparr>BssNr = n, BssOverlapNr = 0, BssEntry = ex_bss # map (\<lambda>i. zero_bss\<lparr>pVarIeFromProbRsp := Some i\<rparr>) [1..<128]\<rparr>"

definition ex_heap :: ie_heap where
  "ex_heap = (\<lambda>_. zeros)"

definition ex_sta_cfg :: STA_CFG where
  "ex_sta_cfg = \<lparr>bAutoConnectIfNoSSID = False, bIEEE80211H = False, aux_Channel = 1, ChannelList = [], sta_BssType = 0,
     WpaSupplicantUP = 0, strict_11d = False, PhyMode = 4, sta_AuthMode = Ndis802_11AuthModeWPAPSK,
     sta_WepStatus = Ndis802_11WEPEnabled\<rparr>"

lemma ex_tab_simps: "length (BssEntry (ex_tab n)) = 128" "BssEntry (ex_tab n) ! 0 = ex_bss" "BssNr (ex_tab n) = n"
    "used (ex_tab 1) = [ex_bss]"
  by (simp_all add: ex_tab_def used_def)

lemma ex_judge: "judge ex_sta_cfg [7] 1 ex_bss = Copy"
  by (simp add: judge_def ex_sta_cfg_def ex_bss_def zero_bss_def SSID_EQUAL_def phy_ok_def WMODE_HT_ONLY_def security_ok_def
      enum_order zero_suite_def pair_ok_def Let_def)

lemma BssTableSsidSort_correct_witness:
  "mset (used (fst (BssTableSsidSort True ex_sta_cfg (ex_tab 1) (ex_tab 0) ex_heap [7] 1))) = {# ex_bss #}"
  using BssTableSsidSort_correct[of "ex_tab 0" "ex_tab 1" 1 ex_sta_cfg ex_heap "[7]"] ex_judge
  by (simp add: ex_tab_simps chosen_def)

lemma second_sort_erases_probe_responses_witness:
  "snd (BssTableSsidSort True ex_sta_cfg (ex_tab 1) (fst (BssTableSsidSort True ex_sta_cfg (ex_tab 1) (ex_tab 0) ex_heap [7] 1))
     (\<lambda>_. replicate 1024 9) [7] 1) 0 = zeros"
  by (rule second_sort_erases_probe_responses[where b = ex_bss])
    (simp_all add: ex_tab_simps ex_judge chosen_def, simp add: ex_bss_def)


lemma ex_buffers: "ie_buffers_ok (BssEntry (ex_tab n)) ex_heap"
proof -
  have "map pVarIeFromProbRsp (BssEntry (ex_tab n)) = map Some [0..<128]"
    by (simp add: ex_tab_def ex_bss_def upt_conv_Cons[of 0 128] o_def)
  moreover have "\<forall>e \<in> set (BssEntry (ex_tab n)). unat (VarIeFromProbeRspLen e) \<le> MAX_VIE_LEN \<and> pVarIeFromProbRsp e \<noteq> None"
    by (auto simp: ex_tab_def ex_bss_def zero_bss_def)
  ultimately show ?thesis
    by (auto simp: ie_buffers_ok_def ex_heap_def distinct_map)
qed

lemma BssTableDeleteEntry_correct_witness:
  "\<exists>t' h'. BssTableDeleteEntry (ex_tab 2) ex_heap (replicate 6 0) 0 = Some (t', h')
     \<and> ie_views t' h' = remove_nth 0 (ie_views (ex_tab 2) ex_heap)"
proof -
  have "List.find (\<lambda>i. Channel (BssEntry (ex_tab 2) ! i) = 0 \<and> Bssid (BssEntry (ex_tab 2) ! i) = replicate 6 0) [0..<2] = Some 0"
    by (simp add: upt_conv_Cons[of 0 2] ex_tab_simps) (simp add: ex_bss_def zero_bss_def)
  then show ?thesis
    using BssTableDeleteEntry_correct[OF _ _ ex_buffers, of 2 0 "replicate 6 0" 0] by (auto simp: ex_tab_simps)
qed

definition ex_beacon :: BCN_IE_LIST where
  "ex_beacon = \<lparr>ie_Bssid = [2, 0, 0, 0, 0, 1], ie_Ssid = replicate 32 0, ie_SsidLen = 0, ie_BssType = 1, ie_BeaconPeriod = 100,
     ie_Channel = 6, ie_AtimWin = 0, ie_CapabilityInfo = 1, ie_SupRate = replicate 12 0, ie_SupRateLen = 4,
     ie_ExtRate = replicate 12 0, ie_ExtRateLen = 0, ie_CkipFlag = 0, ie_TimeStamp = replicate 8 0,
     ie_CfParm = (False, 0, 0, 0, 0), ie_EdcaParm = (False, []), ie_QbssLoad = (False, []), ie_QosCapability = (False, []),
     ie_HtCapabilityLen = 0, ie_HtCapability = replicate 26 0, ie_AddHtInfoLen = 0, ie_AddHtInfo = replicate 22 0,
     ie_NewExtChannelOffset = 0, ie_vht_cap_len = 0, ie_vht_cap_ie = replicate 12 0, ie_vht_op_len = 0,
     ie_vht_op_ie = replicate 5 0\<rparr>"

lemma BssEntrySet_no_elements:
  assumes "moves_fit l 0"
  shows "\<exists>e' l' c'. BssEntrySet c now e l rssi 0 [0, 0] = Some (e', l', c')"
proof -
  have p: "parse_loop 0 f 0 = Some f" and s: "store_loop 0 [0, 0] 0 f = Some f" for f
    by (subst parse_loop.simps, simp) (subst store_loop.simps, simp add: rd_def)
  have b: "BssCipherParse (fst (set_ht c l (f\<lparr>VarIELen := 0, AddHtInfoLen := 0, HtCapabilityLen := 0\<rparr>))) \<noteq> None" for c l f
    by (simp add: BssCipherParse_def p set_ht_def Let_def case_prod_beta)
  show ?thesis
    using assms b by (simp add: BssEntrySet_def Let_def case_prod_beta s bind_eq_Some_conv del: not_None_eq) (metis option.exhaust)
qed

definition ex_set :: SET_CFG where
  "ex_set = \<lparr>media_connected = False, ap_media_connected = False, aux_Bssid = [], aux_Ssid = [], aux_SsidLen = 0\<rparr>"

lemma BssTableSetEntry_refines_map_witness:
  "\<exists>t' l' c'. BssTableSetEntry ex_set \<lparr>vht_bw = 0, vht_cent_ch = 0, vht_cent_ch2 = 0\<rparr> 5 (ex_tab 0) ex_beacon 200 0 [0, 0]
      = Some (0, t', l', c') \<and> scan_wf t' \<and> BssTableSearch t' [2, 0, 0, 0, 0, 1] 6 = 0"
proof -
  have w: "scan_wf (ex_tab 0)" "BssTableSearch (ex_tab 0) b ch = BSS_NOT_FOUND" for b ch
    by (simp_all add: scan_wf_def ex_tab_simps BssTableSearch_def first_index_def used_def) (simp add: ex_tab_def)
  have m: "moves_fit ex_beacon 0" "ie_Bssid ex_beacon = [2, 0, 0, 0, 0, 1]" "ie_Channel ex_beacon = 6"
    by (simp_all add: moves_fit_def ex_beacon_def)
  obtain e l' c' where "BssEntrySet \<lparr>vht_bw = 0, vht_cent_ch = 0, vht_cent_ch2 = 0\<rparr> 5 ex_bss ex_beacon 200 0 [0, 0] = Some (e, l', c')"
    using BssEntrySet_no_elements[OF m(1)] by blast
  then have "BssTableSetEntry ex_set \<lparr>vht_bw = 0, vht_cent_ch = 0, vht_cent_ch2 = 0\<rparr> 5 (ex_tab 0) ex_beacon 200 0 [0, 0]
      = Some (0, (ex_tab 0)\<lparr>BssEntry := (BssEntry (ex_tab 0))[0 := e], BssNr := 1\<rparr>, l', c')"
    by (simp add: BssTableSetEntry_def w Let_def ex_tab_simps MAX_LEN_OF_BSS_TABLE_def)
  then show ?thesis
    using BssTableSetEntry_refines_map[OF w(1), of ex_set _ 5 ex_beacon 200 0 "[0, 0]" 0] unfolding m(2,3) by (simp add: BSS_NOT_FOUND_def)
qed

lemma MaintainBssTable_skips_and_leaks_witness:
  "\<exists>t' h'. MaintainBssTable \<lparr>max_time = 0, max_same = 9, age_connected = False, own_Ssid = [], own_SsidLen = 0\<rparr> 1 (ex_tab 2) ex_heap
      = Some (t', h') \<and> BssNr t' = 1 \<and> pVarIeFromProbRsp (BssEntry t' ! 1) = None"
proof -
  define g where "g = \<lparr>max_time = 0, max_same = 9, age_connected = False, own_Ssid = [], own_SsidLen = 0\<rparr>"
  have o: "too_old g 1 (age_entry (BssEntry (ex_tab 2) ! 0))" "too_old g 1 (age_entry (BssEntry (ex_tab 2) ! 1))"
    by (simp_all add: g_def ex_tab_def ex_bss_def zero_bss_def age_entry_def too_old_def time_after_def)
  show ?thesis
    using MaintainBssTable_skips_and_leaks[OF ex_buffers ex_tab_simps(1) ex_tab_simps(3) o] unfolding g_def by blast
qed

end
