(* ===== verification/Aes.thy ===== *)
theory Aes
  imports Driver_Prelude
begin

text \<open>
  The AES block cipher of \<^verbatim>\<open>common/crypt_aes.c\<close>: its tables, the key schedule and the encryption and
  decryption of one block.

  \<^item> \<^verbatim>\<open>State[r][c]\<close> is a list of four rows of four bytes.
  \<^item> \<^verbatim>\<open>KeyWordExpansion[r][i]\<close> is the list of its columns: byte \<open>r\<close> of word \<open>i\<close>.
  \<^item> The output buffer and its length are arguments and results; a call that fails a check, or
    whose memory allocation fails (\<open>ok = False\<close>), leaves both as they are.
  \<^item> Array lengths are natural numbers. Callers pass a key of \<^verbatim>\<open>KeyLength\<close> bytes and blocks of 16
    bytes; this is a hypothesis where it matters.

  The theorems show that the tables are the functions on GF(256) that FIPS 197 defines, that
  decryption inverts encryption for all three key lengths, and that the standard's test vector is met.
\<close>

section \<open>Tables\<close>

definition aes_rcon :: "UINT32 list" where
  "aes_rcon = [
    0x00000000, 0x01000000, 0x02000000, 0x04000000,
    0x08000000, 0x10000000, 0x20000000, 0x40000000,
    0x80000000, 0x1b000000, 0x36000000]"

definition aes_sbox_enc :: "UINT8 list" where
  "aes_sbox_enc = [
    0x63, 0x7c, 0x77, 0x7b, 0xf2, 0x6b, 0x6f, 0xc5, 0x30, 0x01, 0x67, 0x2b, 0xfe, 0xd7, 0xab, 0x76,
    0xca, 0x82, 0xc9, 0x7d, 0xfa, 0x59, 0x47, 0xf0, 0xad, 0xd4, 0xa2, 0xaf, 0x9c, 0xa4, 0x72, 0xc0,
    0xb7, 0xfd, 0x93, 0x26, 0x36, 0x3f, 0xf7, 0xcc, 0x34, 0xa5, 0xe5, 0xf1, 0x71, 0xd8, 0x31, 0x15,
    0x04, 0xc7, 0x23, 0xc3, 0x18, 0x96, 0x05, 0x9a, 0x07, 0x12, 0x80, 0xe2, 0xeb, 0x27, 0xb2, 0x75,
    0x09, 0x83, 0x2c, 0x1a, 0x1b, 0x6e, 0x5a, 0xa0, 0x52, 0x3b, 0xd6, 0xb3, 0x29, 0xe3, 0x2f, 0x84,
    0x53, 0xd1, 0x00, 0xed, 0x20, 0xfc, 0xb1, 0x5b, 0x6a, 0xcb, 0xbe, 0x39, 0x4a, 0x4c, 0x58, 0xcf,
    0xd0, 0xef, 0xaa, 0xfb, 0x43, 0x4d, 0x33, 0x85, 0x45, 0xf9, 0x02, 0x7f, 0x50, 0x3c, 0x9f, 0xa8,
    0x51, 0xa3, 0x40, 0x8f, 0x92, 0x9d, 0x38, 0xf5, 0xbc, 0xb6, 0xda, 0x21, 0x10, 0xff, 0xf3, 0xd2,
    0xcd, 0x0c, 0x13, 0xec, 0x5f, 0x97, 0x44, 0x17, 0xc4, 0xa7, 0x7e, 0x3d, 0x64, 0x5d, 0x19, 0x73,
    0x60, 0x81, 0x4f, 0xdc, 0x22, 0x2a, 0x90, 0x88, 0x46, 0xee, 0xb8, 0x14, 0xde, 0x5e, 0x0b, 0xdb,
    0xe0, 0x32, 0x3a, 0x0a, 0x49, 0x06, 0x24, 0x5c, 0xc2, 0xd3, 0xac, 0x62, 0x91, 0x95, 0xe4, 0x79,
    0xe7, 0xc8, 0x37, 0x6d, 0x8d, 0xd5, 0x4e, 0xa9, 0x6c, 0x56, 0xf4, 0xea, 0x65, 0x7a, 0xae, 0x08,
    0xba, 0x78, 0x25, 0x2e, 0x1c, 0xa6, 0xb4, 0xc6, 0xe8, 0xdd, 0x74, 0x1f, 0x4b, 0xbd, 0x8b, 0x8a,
    0x70, 0x3e, 0xb5, 0x66, 0x48, 0x03, 0xf6, 0x0e, 0x61, 0x35, 0x57, 0xb9, 0x86, 0xc1, 0x1d, 0x9e,
    0xe1, 0xf8, 0x98, 0x11, 0x69, 0xd9, 0x8e, 0x94, 0x9b, 0x1e, 0x87, 0xe9, 0xce, 0x55, 0x28, 0xdf,
    0x8c, 0xa1, 0x89, 0x0d, 0xbf, 0xe6, 0x42, 0x68, 0x41, 0x99, 0x2d, 0x0f, 0xb0, 0x54, 0xbb, 0x16]"

definition aes_sbox_dec :: "UINT8 list" where
  "aes_sbox_dec = [
    0x52, 0x09, 0x6a, 0xd5, 0x30, 0x36, 0xa5, 0x38, 0xbf, 0x40, 0xa3, 0x9e, 0x81, 0xf3, 0xd7, 0xfb,
    0x7c, 0xe3, 0x39, 0x82, 0x9b, 0x2f, 0xff, 0x87, 0x34, 0x8e, 0x43, 0x44, 0xc4, 0xde, 0xe9, 0xcb,
    0x54, 0x7b, 0x94, 0x32, 0xa6, 0xc2, 0x23, 0x3d, 0xee, 0x4c, 0x95, 0x0b, 0x42, 0xfa, 0xc3, 0x4e,
    0x08, 0x2e, 0xa1, 0x66, 0x28, 0xd9, 0x24, 0xb2, 0x76, 0x5b, 0xa2, 0x49, 0x6d, 0x8b, 0xd1, 0x25,
    0x72, 0xf8, 0xf6, 0x64, 0x86, 0x68, 0x98, 0x16, 0xd4, 0xa4, 0x5c, 0xcc, 0x5d, 0x65, 0xb6, 0x92,
    0x6c, 0x70, 0x48, 0x50, 0xfd, 0xed, 0xb9, 0xda, 0x5e, 0x15, 0x46, 0x57, 0xa7, 0x8d, 0x9d, 0x84,
    0x90, 0xd8, 0xab, 0x00, 0x8c, 0xbc, 0xd3, 0x0a, 0xf7, 0xe4, 0x58, 0x05, 0xb8, 0xb3, 0x45, 0x06,
    0xd0, 0x2c, 0x1e, 0x8f, 0xca, 0x3f, 0x0f, 0x02, 0xc1, 0xaf, 0xbd, 0x03, 0x01, 0x13, 0x8a, 0x6b,
    0x3a, 0x91, 0x11, 0x41, 0x4f, 0x67, 0xdc, 0xea, 0x97, 0xf2, 0xcf, 0xce, 0xf0, 0xb4, 0xe6, 0x73,
    0x96, 0xac, 0x74, 0x22, 0xe7, 0xad, 0x35, 0x85, 0xe2, 0xf9, 0x37, 0xe8, 0x1c, 0x75, 0xdf, 0x6e,
    0x47, 0xf1, 0x1a, 0x71, 0x1d, 0x29, 0xc5, 0x89, 0x6f, 0xb7, 0x62, 0x0e, 0xaa, 0x18, 0xbe, 0x1b,
    0xfc, 0x56, 0x3e, 0x4b, 0xc6, 0xd2, 0x79, 0x20, 0x9a, 0xdb, 0xc0, 0xfe, 0x78, 0xcd, 0x5a, 0xf4,
    0x1f, 0xdd, 0xa8, 0x33, 0x88, 0x07, 0xc7, 0x31, 0xb1, 0x12, 0x10, 0x59, 0x27, 0x80, 0xec, 0x5f,
    0x60, 0x51, 0x7f, 0xa9, 0x19, 0xb5, 0x4a, 0x0d, 0x2d, 0xe5, 0x7a, 0x9f, 0x93, 0xc9, 0x9c, 0xef,
    0xa0, 0xe0, 0x3b, 0x4d, 0xae, 0x2a, 0xf5, 0xb0, 0xc8, 0xeb, 0xbb, 0x3c, 0x83, 0x53, 0x99, 0x61,
    0x17, 0x2b, 0x04, 0x7e, 0xba, 0x77, 0xd6, 0x26, 0xe1, 0x69, 0x14, 0x63, 0x55, 0x21, 0x0c, 0x7d]"

definition aes_mul_2 :: "UINT8 list" where
  "aes_mul_2 = [
    0x00, 0x02, 0x04, 0x06, 0x08, 0x0a, 0x0c, 0x0e, 0x10, 0x12, 0x14, 0x16, 0x18, 0x1a, 0x1c, 0x1e,
    0x20, 0x22, 0x24, 0x26, 0x28, 0x2a, 0x2c, 0x2e, 0x30, 0x32, 0x34, 0x36, 0x38, 0x3a, 0x3c, 0x3e,
    0x40, 0x42, 0x44, 0x46, 0x48, 0x4a, 0x4c, 0x4e, 0x50, 0x52, 0x54, 0x56, 0x58, 0x5a, 0x5c, 0x5e,
    0x60, 0x62, 0x64, 0x66, 0x68, 0x6a, 0x6c, 0x6e, 0x70, 0x72, 0x74, 0x76, 0x78, 0x7a, 0x7c, 0x7e,
    0x80, 0x82, 0x84, 0x86, 0x88, 0x8a, 0x8c, 0x8e, 0x90, 0x92, 0x94, 0x96, 0x98, 0x9a, 0x9c, 0x9e,
    0xa0, 0xa2, 0xa4, 0xa6, 0xa8, 0xaa, 0xac, 0xae, 0xb0, 0xb2, 0xb4, 0xb6, 0xb8, 0xba, 0xbc, 0xbe,
    0xc0, 0xc2, 0xc4, 0xc6, 0xc8, 0xca, 0xcc, 0xce, 0xd0, 0xd2, 0xd4, 0xd6, 0xd8, 0xda, 0xdc, 0xde,
    0xe0, 0xe2, 0xe4, 0xe6, 0xe8, 0xea, 0xec, 0xee, 0xf0, 0xf2, 0xf4, 0xf6, 0xf8, 0xfa, 0xfc, 0xfe,
    0x1b, 0x19, 0x1f, 0x1d, 0x13, 0x11, 0x17, 0x15, 0x0b, 0x09, 0x0f, 0x0d, 0x03, 0x01, 0x07, 0x05,
    0x3b, 0x39, 0x3f, 0x3d, 0x33, 0x31, 0x37, 0x35, 0x2b, 0x29, 0x2f, 0x2d, 0x23, 0x21, 0x27, 0x25,
    0x5b, 0x59, 0x5f, 0x5d, 0x53, 0x51, 0x57, 0x55, 0x4b, 0x49, 0x4f, 0x4d, 0x43, 0x41, 0x47, 0x45,
    0x7b, 0x79, 0x7f, 0x7d, 0x73, 0x71, 0x77, 0x75, 0x6b, 0x69, 0x6f, 0x6d, 0x63, 0x61, 0x67, 0x65,
    0x9b, 0x99, 0x9f, 0x9d, 0x93, 0x91, 0x97, 0x95, 0x8b, 0x89, 0x8f, 0x8d, 0x83, 0x81, 0x87, 0x85,
    0xbb, 0xb9, 0xbf, 0xbd, 0xb3, 0xb1, 0xb7, 0xb5, 0xab, 0xa9, 0xaf, 0xad, 0xa3, 0xa1, 0xa7, 0xa5,
    0xdb, 0xd9, 0xdf, 0xdd, 0xd3, 0xd1, 0xd7, 0xd5, 0xcb, 0xc9, 0xcf, 0xcd, 0xc3, 0xc1, 0xc7, 0xc5,
    0xfb, 0xf9, 0xff, 0xfd, 0xf3, 0xf1, 0xf7, 0xf5, 0xeb, 0xe9, 0xef, 0xed, 0xe3, 0xe1, 0xe7, 0xe5]"

definition aes_mul_3 :: "UINT8 list" where
  "aes_mul_3 = [
    0x00, 0x03, 0x06, 0x05, 0x0c, 0x0f, 0x0a, 0x09, 0x18, 0x1b, 0x1e, 0x1d, 0x14, 0x17, 0x12, 0x11,
    0x30, 0x33, 0x36, 0x35, 0x3c, 0x3f, 0x3a, 0x39, 0x28, 0x2b, 0x2e, 0x2d, 0x24, 0x27, 0x22, 0x21,
    0x60, 0x63, 0x66, 0x65, 0x6c, 0x6f, 0x6a, 0x69, 0x78, 0x7b, 0x7e, 0x7d, 0x74, 0x77, 0x72, 0x71,
    0x50, 0x53, 0x56, 0x55, 0x5c, 0x5f, 0x5a, 0x59, 0x48, 0x4b, 0x4e, 0x4d, 0x44, 0x47, 0x42, 0x41,
    0xc0, 0xc3, 0xc6, 0xc5, 0xcc, 0xcf, 0xca, 0xc9, 0xd8, 0xdb, 0xde, 0xdd, 0xd4, 0xd7, 0xd2, 0xd1,
    0xf0, 0xf3, 0xf6, 0xf5, 0xfc, 0xff, 0xfa, 0xf9, 0xe8, 0xeb, 0xee, 0xed, 0xe4, 0xe7, 0xe2, 0xe1,
    0xa0, 0xa3, 0xa6, 0xa5, 0xac, 0xaf, 0xaa, 0xa9, 0xb8, 0xbb, 0xbe, 0xbd, 0xb4, 0xb7, 0xb2, 0xb1,
    0x90, 0x93, 0x96, 0x95, 0x9c, 0x9f, 0x9a, 0x99, 0x88, 0x8b, 0x8e, 0x8d, 0x84, 0x87, 0x82, 0x81,
    0x9b, 0x98, 0x9d, 0x9e, 0x97, 0x94, 0x91, 0x92, 0x83, 0x80, 0x85, 0x86, 0x8f, 0x8c, 0x89, 0x8a,
    0xab, 0xa8, 0xad, 0xae, 0xa7, 0xa4, 0xa1, 0xa2, 0xb3, 0xb0, 0xb5, 0xb6, 0xbf, 0xbc, 0xb9, 0xba,
    0xfb, 0xf8, 0xfd, 0xfe, 0xf7, 0xf4, 0xf1, 0xf2, 0xe3, 0xe0, 0xe5, 0xe6, 0xef, 0xec, 0xe9, 0xea,
    0xcb, 0xc8, 0xcd, 0xce, 0xc7, 0xc4, 0xc1, 0xc2, 0xd3, 0xd0, 0xd5, 0xd6, 0xdf, 0xdc, 0xd9, 0xda,
    0x5b, 0x58, 0x5d, 0x5e, 0x57, 0x54, 0x51, 0x52, 0x43, 0x40, 0x45, 0x46, 0x4f, 0x4c, 0x49, 0x4a,
    0x6b, 0x68, 0x6d, 0x6e, 0x67, 0x64, 0x61, 0x62, 0x73, 0x70, 0x75, 0x76, 0x7f, 0x7c, 0x79, 0x7a,
    0x3b, 0x38, 0x3d, 0x3e, 0x37, 0x34, 0x31, 0x32, 0x23, 0x20, 0x25, 0x26, 0x2f, 0x2c, 0x29, 0x2a,
    0x0b, 0x08, 0x0d, 0x0e, 0x07, 0x04, 0x01, 0x02, 0x13, 0x10, 0x15, 0x16, 0x1f, 0x1c, 0x19, 0x1a]"

definition aes_mul_9 :: "UINT8 list" where
  "aes_mul_9 = [
    0x00, 0x09, 0x12, 0x1b, 0x24, 0x2d, 0x36, 0x3f, 0x48, 0x41, 0x5a, 0x53, 0x6c, 0x65, 0x7e, 0x77,
    0x90, 0x99, 0x82, 0x8b, 0xb4, 0xbd, 0xa6, 0xaf, 0xd8, 0xd1, 0xca, 0xc3, 0xfc, 0xf5, 0xee, 0xe7,
    0x3b, 0x32, 0x29, 0x20, 0x1f, 0x16, 0x0d, 0x04, 0x73, 0x7a, 0x61, 0x68, 0x57, 0x5e, 0x45, 0x4c,
    0xab, 0xa2, 0xb9, 0xb0, 0x8f, 0x86, 0x9d, 0x94, 0xe3, 0xea, 0xf1, 0xf8, 0xc7, 0xce, 0xd5, 0xdc,
    0x76, 0x7f, 0x64, 0x6d, 0x52, 0x5b, 0x40, 0x49, 0x3e, 0x37, 0x2c, 0x25, 0x1a, 0x13, 0x08, 0x01,
    0xe6, 0xef, 0xf4, 0xfd, 0xc2, 0xcb, 0xd0, 0xd9, 0xae, 0xa7, 0xbc, 0xb5, 0x8a, 0x83, 0x98, 0x91,
    0x4d, 0x44, 0x5f, 0x56, 0x69, 0x60, 0x7b, 0x72, 0x05, 0x0c, 0x17, 0x1e, 0x21, 0x28, 0x33, 0x3a,
    0xdd, 0xd4, 0xcf, 0xc6, 0xf9, 0xf0, 0xeb, 0xe2, 0x95, 0x9c, 0x87, 0x8e, 0xb1, 0xb8, 0xa3, 0xaa,
    0xec, 0xe5, 0xfe, 0xf7, 0xc8, 0xc1, 0xda, 0xd3, 0xa4, 0xad, 0xb6, 0xbf, 0x80, 0x89, 0x92, 0x9b,
    0x7c, 0x75, 0x6e, 0x67, 0x58, 0x51, 0x4a, 0x43, 0x34, 0x3d, 0x26, 0x2f, 0x10, 0x19, 0x02, 0x0b,
    0xd7, 0xde, 0xc5, 0xcc, 0xf3, 0xfa, 0xe1, 0xe8, 0x9f, 0x96, 0x8d, 0x84, 0xbb, 0xb2, 0xa9, 0xa0,
    0x47, 0x4e, 0x55, 0x5c, 0x63, 0x6a, 0x71, 0x78, 0x0f, 0x06, 0x1d, 0x14, 0x2b, 0x22, 0x39, 0x30,
    0x9a, 0x93, 0x88, 0x81, 0xbe, 0xb7, 0xac, 0xa5, 0xd2, 0xdb, 0xc0, 0xc9, 0xf6, 0xff, 0xe4, 0xed,
    0x0a, 0x03, 0x18, 0x11, 0x2e, 0x27, 0x3c, 0x35, 0x42, 0x4b, 0x50, 0x59, 0x66, 0x6f, 0x74, 0x7d,
    0xa1, 0xa8, 0xb3, 0xba, 0x85, 0x8c, 0x97, 0x9e, 0xe9, 0xe0, 0xfb, 0xf2, 0xcd, 0xc4, 0xdf, 0xd6,
    0x31, 0x38, 0x23, 0x2a, 0x15, 0x1c, 0x07, 0x0e, 0x79, 0x70, 0x6b, 0x62, 0x5d, 0x54, 0x4f, 0x46]"

definition aes_mul_b :: "UINT8 list" where
  "aes_mul_b = [
    0x00, 0x0b, 0x16, 0x1d, 0x2c, 0x27, 0x3a, 0x31, 0x58, 0x53, 0x4e, 0x45, 0x74, 0x7f, 0x62, 0x69,
    0xb0, 0xbb, 0xa6, 0xad, 0x9c, 0x97, 0x8a, 0x81, 0xe8, 0xe3, 0xfe, 0xf5, 0xc4, 0xcf, 0xd2, 0xd9,
    0x7b, 0x70, 0x6d, 0x66, 0x57, 0x5c, 0x41, 0x4a, 0x23, 0x28, 0x35, 0x3e, 0x0f, 0x04, 0x19, 0x12,
    0xcb, 0xc0, 0xdd, 0xd6, 0xe7, 0xec, 0xf1, 0xfa, 0x93, 0x98, 0x85, 0x8e, 0xbf, 0xb4, 0xa9, 0xa2,
    0xf6, 0xfd, 0xe0, 0xeb, 0xda, 0xd1, 0xcc, 0xc7, 0xae, 0xa5, 0xb8, 0xb3, 0x82, 0x89, 0x94, 0x9f,
    0x46, 0x4d, 0x50, 0x5b, 0x6a, 0x61, 0x7c, 0x77, 0x1e, 0x15, 0x08, 0x03, 0x32, 0x39, 0x24, 0x2f,
    0x8d, 0x86, 0x9b, 0x90, 0xa1, 0xaa, 0xb7, 0xbc, 0xd5, 0xde, 0xc3, 0xc8, 0xf9, 0xf2, 0xef, 0xe4,
    0x3d, 0x36, 0x2b, 0x20, 0x11, 0x1a, 0x07, 0x0c, 0x65, 0x6e, 0x73, 0x78, 0x49, 0x42, 0x5f, 0x54,
    0xf7, 0xfc, 0xe1, 0xea, 0xdb, 0xd0, 0xcd, 0xc6, 0xaf, 0xa4, 0xb9, 0xb2, 0x83, 0x88, 0x95, 0x9e,
    0x47, 0x4c, 0x51, 0x5a, 0x6b, 0x60, 0x7d, 0x76, 0x1f, 0x14, 0x09, 0x02, 0x33, 0x38, 0x25, 0x2e,
    0x8c, 0x87, 0x9a, 0x91, 0xa0, 0xab, 0xb6, 0xbd, 0xd4, 0xdf, 0xc2, 0xc9, 0xf8, 0xf3, 0xee, 0xe5,
    0x3c, 0x37, 0x2a, 0x21, 0x10, 0x1b, 0x06, 0x0d, 0x64, 0x6f, 0x72, 0x79, 0x48, 0x43, 0x5e, 0x55,
    0x01, 0x0a, 0x17, 0x1c, 0x2d, 0x26, 0x3b, 0x30, 0x59, 0x52, 0x4f, 0x44, 0x75, 0x7e, 0x63, 0x68,
    0xb1, 0xba, 0xa7, 0xac, 0x9d, 0x96, 0x8b, 0x80, 0xe9, 0xe2, 0xff, 0xf4, 0xc5, 0xce, 0xd3, 0xd8,
    0x7a, 0x71, 0x6c, 0x67, 0x56, 0x5d, 0x40, 0x4b, 0x22, 0x29, 0x34, 0x3f, 0x0e, 0x05, 0x18, 0x13,
    0xca, 0xc1, 0xdc, 0xd7, 0xe6, 0xed, 0xf0, 0xfb, 0x92, 0x99, 0x84, 0x8f, 0xbe, 0xb5, 0xa8, 0xa3]"

definition aes_mul_d :: "UINT8 list" where
  "aes_mul_d = [
    0x00, 0x0d, 0x1a, 0x17, 0x34, 0x39, 0x2e, 0x23, 0x68, 0x65, 0x72, 0x7f, 0x5c, 0x51, 0x46, 0x4b,
    0xd0, 0xdd, 0xca, 0xc7, 0xe4, 0xe9, 0xfe, 0xf3, 0xb8, 0xb5, 0xa2, 0xaf, 0x8c, 0x81, 0x96, 0x9b,
    0xbb, 0xb6, 0xa1, 0xac, 0x8f, 0x82, 0x95, 0x98, 0xd3, 0xde, 0xc9, 0xc4, 0xe7, 0xea, 0xfd, 0xf0,
    0x6b, 0x66, 0x71, 0x7c, 0x5f, 0x52, 0x45, 0x48, 0x03, 0x0e, 0x19, 0x14, 0x37, 0x3a, 0x2d, 0x20,
    0x6d, 0x60, 0x77, 0x7a, 0x59, 0x54, 0x43, 0x4e, 0x05, 0x08, 0x1f, 0x12, 0x31, 0x3c, 0x2b, 0x26,
    0xbd, 0xb0, 0xa7, 0xaa, 0x89, 0x84, 0x93, 0x9e, 0xd5, 0xd8, 0xcf, 0xc2, 0xe1, 0xec, 0xfb, 0xf6,
    0xd6, 0xdb, 0xcc, 0xc1, 0xe2, 0xef, 0xf8, 0xf5, 0xbe, 0xb3, 0xa4, 0xa9, 0x8a, 0x87, 0x90, 0x9d,
    0x06, 0x0b, 0x1c, 0x11, 0x32, 0x3f, 0x28, 0x25, 0x6e, 0x63, 0x74, 0x79, 0x5a, 0x57, 0x40, 0x4d,
    0xda, 0xd7, 0xc0, 0xcd, 0xee, 0xe3, 0xf4, 0xf9, 0xb2, 0xbf, 0xa8, 0xa5, 0x86, 0x8b, 0x9c, 0x91,
    0x0a, 0x07, 0x10, 0x1d, 0x3e, 0x33, 0x24, 0x29, 0x62, 0x6f, 0x78, 0x75, 0x56, 0x5b, 0x4c, 0x41,
    0x61, 0x6c, 0x7b, 0x76, 0x55, 0x58, 0x4f, 0x42, 0x09, 0x04, 0x13, 0x1e, 0x3d, 0x30, 0x27, 0x2a,
    0xb1, 0xbc, 0xab, 0xa6, 0x85, 0x88, 0x9f, 0x92, 0xd9, 0xd4, 0xc3, 0xce, 0xed, 0xe0, 0xf7, 0xfa,
    0xb7, 0xba, 0xad, 0xa0, 0x83, 0x8e, 0x99, 0x94, 0xdf, 0xd2, 0xc5, 0xc8, 0xeb, 0xe6, 0xf1, 0xfc,
    0x67, 0x6a, 0x7d, 0x70, 0x53, 0x5e, 0x49, 0x44, 0x0f, 0x02, 0x15, 0x18, 0x3b, 0x36, 0x21, 0x2c,
    0x0c, 0x01, 0x16, 0x1b, 0x38, 0x35, 0x22, 0x2f, 0x64, 0x69, 0x7e, 0x73, 0x50, 0x5d, 0x4a, 0x47,
    0xdc, 0xd1, 0xc6, 0xcb, 0xe8, 0xe5, 0xf2, 0xff, 0xb4, 0xb9, 0xae, 0xa3, 0x80, 0x8d, 0x9a, 0x97]"

definition aes_mul_e :: "UINT8 list" where
  "aes_mul_e = [
    0x00, 0x0e, 0x1c, 0x12, 0x38, 0x36, 0x24, 0x2a, 0x70, 0x7e, 0x6c, 0x62, 0x48, 0x46, 0x54, 0x5a,
    0xe0, 0xee, 0xfc, 0xf2, 0xd8, 0xd6, 0xc4, 0xca, 0x90, 0x9e, 0x8c, 0x82, 0xa8, 0xa6, 0xb4, 0xba,
    0xdb, 0xd5, 0xc7, 0xc9, 0xe3, 0xed, 0xff, 0xf1, 0xab, 0xa5, 0xb7, 0xb9, 0x93, 0x9d, 0x8f, 0x81,
    0x3b, 0x35, 0x27, 0x29, 0x03, 0x0d, 0x1f, 0x11, 0x4b, 0x45, 0x57, 0x59, 0x73, 0x7d, 0x6f, 0x61,
    0xad, 0xa3, 0xb1, 0xbf, 0x95, 0x9b, 0x89, 0x87, 0xdd, 0xd3, 0xc1, 0xcf, 0xe5, 0xeb, 0xf9, 0xf7,
    0x4d, 0x43, 0x51, 0x5f, 0x75, 0x7b, 0x69, 0x67, 0x3d, 0x33, 0x21, 0x2f, 0x05, 0x0b, 0x19, 0x17,
    0x76, 0x78, 0x6a, 0x64, 0x4e, 0x40, 0x52, 0x5c, 0x06, 0x08, 0x1a, 0x14, 0x3e, 0x30, 0x22, 0x2c,
    0x96, 0x98, 0x8a, 0x84, 0xae, 0xa0, 0xb2, 0xbc, 0xe6, 0xe8, 0xfa, 0xf4, 0xde, 0xd0, 0xc2, 0xcc,
    0x41, 0x4f, 0x5d, 0x53, 0x79, 0x77, 0x65, 0x6b, 0x31, 0x3f, 0x2d, 0x23, 0x09, 0x07, 0x15, 0x1b,
    0xa1, 0xaf, 0xbd, 0xb3, 0x99, 0x97, 0x85, 0x8b, 0xd1, 0xdf, 0xcd, 0xc3, 0xe9, 0xe7, 0xf5, 0xfb,
    0x9a, 0x94, 0x86, 0x88, 0xa2, 0xac, 0xbe, 0xb0, 0xea, 0xe4, 0xf6, 0xf8, 0xd2, 0xdc, 0xce, 0xc0,
    0x7a, 0x74, 0x66, 0x68, 0x42, 0x4c, 0x5e, 0x50, 0x0a, 0x04, 0x16, 0x18, 0x32, 0x3c, 0x2e, 0x20,
    0xec, 0xe2, 0xf0, 0xfe, 0xd4, 0xda, 0xc8, 0xc6, 0x9c, 0x92, 0x80, 0x8e, 0xa4, 0xaa, 0xb8, 0xb6,
    0x0c, 0x02, 0x10, 0x1e, 0x34, 0x3a, 0x28, 0x26, 0x7c, 0x72, 0x60, 0x6e, 0x44, 0x4a, 0x58, 0x56,
    0x37, 0x39, 0x2b, 0x25, 0x0f, 0x01, 0x13, 0x1d, 0x47, 0x49, 0x5b, 0x55, 0x7f, 0x71, 0x63, 0x6d,
    0xd7, 0xd9, 0xcb, 0xc5, 0xef, 0xe1, 0xf3, 0xfd, 0xa7, 0xa9, 0xbb, 0xb5, 0x9f, 0x91, 0x83, 0x8d]"

section \<open>Operations\<close>

definition AES_BLOCK_SIZES :: nat where "AES_BLOCK_SIZES = 16"
definition AES_KEY128_LENGTH :: nat where "AES_KEY128_LENGTH = 16"
definition AES_KEY192_LENGTH :: nat where "AES_KEY192_LENGTH = 24"
definition AES_KEY256_LENGTH :: nat where "AES_KEY256_LENGTH = 32"

type_synonym aes_state = "UINT8 list list"
type_synonym key_words = "UINT8 list list"

definition rcon_bytes :: "UINT32 \<Rightarrow> bytes" where
  "rcon_bytes rc = [ucast (drop_bit 24 rc AND 0xff), ucast (drop_bit 16 rc AND 0xff), ucast (drop_bit 8 rc AND 0xff), ucast (rc AND 0xff)]"

text \<open>\<^verbatim>\<open>TempWord\<close> of the key schedule for word \<open>i\<close>, with \<open>n\<close> words in the key.\<close>

definition key_temp :: "nat \<Rightarrow> key_words \<Rightarrow> nat \<Rightarrow> bytes" where
  "key_temp n W i =
     (if i mod n = 0 then
        xor_bytes (map (\<lambda>b. aes_sbox_enc ! unat b) (rotate1 (W ! (i - 1)))) (rcon_bytes (aes_rcon ! (i div n)))
      else if n > 6 \<and> i mod n = 4 then
        map (\<lambda>b. aes_sbox_enc ! unat b) (W ! (i - 1))
      else W ! (i - 1))"

definition key_step :: "nat \<Rightarrow> nat \<Rightarrow> key_words \<Rightarrow> key_words" where
  "key_step n i W = W @ [xor_bytes (W ! (i - n)) (key_temp n W i)]"

definition RT_AES_KeyExpansion :: "bytes \<Rightarrow> nat \<Rightarrow> key_words" where
  "RT_AES_KeyExpansion Key KeyLength =
     (let n = KeyLength div 4 in
      fold (key_step n) [n..<4 * (n + 6 + 1)]
        (map (\<lambda>i. [Key ! (4 * i), Key ! (4 * i + 1), Key ! (4 * i + 2), Key ! (4 * i + 3)]) [0..<n]))"

definition block_to_state :: "bytes \<Rightarrow> aes_state" where
  "block_to_state b = map (\<lambda>r. map (\<lambda>c. b ! (r + 4 * c)) [0..<4]) [0..<4]"

definition state_to_block :: "aes_state \<Rightarrow> bytes" where
  "state_to_block s = concat (map (\<lambda>c. map (\<lambda>r. s ! r ! c) [0..<4]) [0..<4])"

definition AES_AddRoundKey :: "key_words \<Rightarrow> nat \<Rightarrow> aes_state \<Rightarrow> aes_state" where
  "AES_AddRoundKey W k s = map (\<lambda>r. map (\<lambda>c. s ! r ! c XOR W ! (k * 4 + c) ! r) [0..<4]) [0..<4]"

definition AES_SubBytes :: "aes_state \<Rightarrow> aes_state" where
  "AES_SubBytes s = map (map (\<lambda>b. aes_sbox_enc ! unat b)) s"

definition AES_InvSubBytes :: "aes_state \<Rightarrow> aes_state" where
  "AES_InvSubBytes s = map (map (\<lambda>b. aes_sbox_dec ! unat b)) s"

definition AES_ShiftRows :: "aes_state \<Rightarrow> aes_state" where
  "AES_ShiftRows s =
     [s ! 0,
      [s ! 1 ! 1, s ! 1 ! 2, s ! 1 ! 3, s ! 1 ! 0],
      [s ! 2 ! 2, s ! 2 ! 3, s ! 2 ! 0, s ! 2 ! 1],
      [s ! 3 ! 3, s ! 3 ! 0, s ! 3 ! 1, s ! 3 ! 2]]"

definition AES_InvShiftRows :: "aes_state \<Rightarrow> aes_state" where
  "AES_InvShiftRows s =
     [s ! 0,
      [s ! 1 ! 3, s ! 1 ! 0, s ! 1 ! 1, s ! 1 ! 2],
      [s ! 2 ! 2, s ! 2 ! 3, s ! 2 ! 0, s ! 2 ! 1],
      [s ! 3 ! 1, s ! 3 ! 2, s ! 3 ! 3, s ! 3 ! 0]]"

definition mix_column :: "UINT8 \<Rightarrow> UINT8 \<Rightarrow> UINT8 \<Rightarrow> UINT8 \<Rightarrow> bytes" where
  "mix_column Row0 Row1 Row2 Row3 =
     [aes_mul_2 ! unat Row0 XOR aes_mul_3 ! unat Row1 XOR Row2 XOR Row3,
      Row0 XOR aes_mul_2 ! unat Row1 XOR aes_mul_3 ! unat Row2 XOR Row3,
      Row0 XOR Row1 XOR aes_mul_2 ! unat Row2 XOR aes_mul_3 ! unat Row3,
      aes_mul_3 ! unat Row0 XOR Row1 XOR Row2 XOR aes_mul_2 ! unat Row3]"

definition inv_mix_column :: "UINT8 \<Rightarrow> UINT8 \<Rightarrow> UINT8 \<Rightarrow> UINT8 \<Rightarrow> bytes" where
  "inv_mix_column Row0 Row1 Row2 Row3 =
     [aes_mul_e ! unat Row0 XOR aes_mul_b ! unat Row1 XOR aes_mul_d ! unat Row2 XOR aes_mul_9 ! unat Row3,
      aes_mul_9 ! unat Row0 XOR aes_mul_e ! unat Row1 XOR aes_mul_b ! unat Row2 XOR aes_mul_d ! unat Row3,
      aes_mul_d ! unat Row0 XOR aes_mul_9 ! unat Row1 XOR aes_mul_e ! unat Row2 XOR aes_mul_b ! unat Row3,
      aes_mul_b ! unat Row0 XOR aes_mul_d ! unat Row1 XOR aes_mul_9 ! unat Row2 XOR aes_mul_e ! unat Row3]"

text \<open>A column operation applied to the four columns of the state.\<close>

definition on_columns :: "(UINT8 \<Rightarrow> UINT8 \<Rightarrow> UINT8 \<Rightarrow> UINT8 \<Rightarrow> bytes) \<Rightarrow> aes_state \<Rightarrow> aes_state" where
  "on_columns f s = map (\<lambda>r. map (\<lambda>c. f (s ! 0 ! c) (s ! 1 ! c) (s ! 2 ! c) (s ! 3 ! c) ! r) [0..<4]) [0..<4]"

definition AES_MixColumns :: "aes_state \<Rightarrow> aes_state" where
  "AES_MixColumns s = on_columns mix_column s"

definition AES_InvMixColumns :: "aes_state \<Rightarrow> aes_state" where
  "AES_InvMixColumns s = on_columns inv_mix_column s"

definition enc_round :: "key_words \<Rightarrow> nat \<Rightarrow> aes_state \<Rightarrow> aes_state" where
  "enc_round W k s = AES_AddRoundKey W k (AES_MixColumns (AES_ShiftRows (AES_SubBytes s)))"

definition enc_rounds :: "key_words \<Rightarrow> nat \<Rightarrow> aes_state \<Rightarrow> aes_state" where
  "enc_rounds W n s =
     AES_AddRoundKey W n (AES_ShiftRows (AES_SubBytes (fold (enc_round W) [1..<n] (AES_AddRoundKey W 0 s))))"

definition dec_round :: "key_words \<Rightarrow> nat \<Rightarrow> aes_state \<Rightarrow> aes_state" where
  "dec_round W k s = AES_InvMixColumns (AES_AddRoundKey W k (AES_InvSubBytes (AES_InvShiftRows s)))"

definition dec_rounds :: "key_words \<Rightarrow> nat \<Rightarrow> aes_state \<Rightarrow> aes_state" where
  "dec_rounds W n s =
     AES_AddRoundKey W 0 (AES_InvSubBytes (AES_InvShiftRows (fold (dec_round W) (rev [1..<n]) (AES_AddRoundKey W n s))))"

definition key_length_ok :: "nat \<Rightarrow> bool" where
  "key_length_ok n \<longleftrightarrow> \<not> (n \<noteq> AES_KEY128_LENGTH \<and> n \<noteq> AES_KEY192_LENGTH \<and> n \<noteq> AES_KEY256_LENGTH)"

definition RT_AES_Encrypt :: "bool \<Rightarrow> bytes \<Rightarrow> nat \<Rightarrow> bytes \<Rightarrow> nat \<Rightarrow> bytes \<Rightarrow> nat \<Rightarrow> bytes \<times> nat" where
  "RT_AES_Encrypt ok PlainBlock PlainBlockSize Key KeyLength CipherBlock CipherBlockSize =
     (if PlainBlockSize \<noteq> AES_BLOCK_SIZES then (CipherBlock, CipherBlockSize)
      else if \<not> key_length_ok KeyLength then (CipherBlock, CipherBlockSize)
      else if CipherBlockSize < AES_BLOCK_SIZES then (CipherBlock, CipherBlockSize)
      else if \<not> ok then (CipherBlock, CipherBlockSize)
      else
        let W = RT_AES_KeyExpansion Key KeyLength;
            s = enc_rounds W (KeyLength div 4 + 6) (block_to_state PlainBlock)
        in (move_at CipherBlock 0 (state_to_block s), 16))"

definition RT_AES_Decrypt :: "bool \<Rightarrow> bytes \<Rightarrow> nat \<Rightarrow> bytes \<Rightarrow> nat \<Rightarrow> bytes \<Rightarrow> nat \<Rightarrow> bytes \<times> nat" where
  "RT_AES_Decrypt ok CipherBlock CipherBlockSize Key KeyLength PlainBlock PlainBlockSize =
     (if PlainBlockSize < AES_BLOCK_SIZES then (PlainBlock, PlainBlockSize)
      else if \<not> key_length_ok KeyLength then (PlainBlock, PlainBlockSize)
      else if CipherBlockSize \<noteq> AES_BLOCK_SIZES then (PlainBlock, PlainBlockSize)
      else if \<not> ok then (PlainBlock, PlainBlockSize)
      else
        let W = RT_AES_KeyExpansion Key KeyLength;
            s = dec_rounds W (KeyLength div 4 + 6) (block_to_state CipherBlock)
        in (move_at PlainBlock 0 (state_to_block s), 16))"

section \<open>Arithmetic of GF(256)\<close>

definition xtime :: "UINT8 \<Rightarrow> UINT8" where
  "xtime b = push_bit 1 b XOR (if bit b 7 then 0x1b else 0)"

fun gmul_loop :: "nat \<Rightarrow> UINT8 \<Rightarrow> UINT8 \<Rightarrow> UINT8 \<Rightarrow> UINT8" where
  "gmul_loop 0 a b r = r"
| "gmul_loop (Suc n) a b r = gmul_loop n (drop_bit 1 a) (xtime b) (if bit a 0 then r XOR b else r)"

text \<open>The product of two field elements, by shift and add.\<close>

definition gmul :: "UINT8 \<Rightarrow> UINT8 \<Rightarrow> UINT8" where
  "gmul a b = gmul_loop 8 a b 0"

definition rotl8 :: "nat \<Rightarrow> UINT8 \<Rightarrow> UINT8" where
  "rotl8 n b = push_bit n b OR drop_bit (8 - n) b"

text \<open>The affine map of the S-box (FIPS 197, 5.1.1).\<close>

definition affine :: "UINT8 \<Rightarrow> UINT8" where
  "affine b = b XOR rotl8 1 b XOR rotl8 2 b XOR rotl8 3 b XOR rotl8 4 b XOR 0x63"

definition all_bytes :: "UINT8 list" where "all_bytes = map of_nat [0..<256]"

text \<open>The multiplicative inverses of all bytes, 0 for 0.\<close>

definition gf_inverses :: "UINT8 list" where
  "gf_inverses = [
    0x00, 0x01, 0x8d, 0xf6, 0xcb, 0x52, 0x7b, 0xd1, 0xe8, 0x4f, 0x29, 0xc0, 0xb0, 0xe1, 0xe5, 0xc7,
    0x74, 0xb4, 0xaa, 0x4b, 0x99, 0x2b, 0x60, 0x5f, 0x58, 0x3f, 0xfd, 0xcc, 0xff, 0x40, 0xee, 0xb2,
    0x3a, 0x6e, 0x5a, 0xf1, 0x55, 0x4d, 0xa8, 0xc9, 0xc1, 0x0a, 0x98, 0x15, 0x30, 0x44, 0xa2, 0xc2,
    0x2c, 0x45, 0x92, 0x6c, 0xf3, 0x39, 0x66, 0x42, 0xf2, 0x35, 0x20, 0x6f, 0x77, 0xbb, 0x59, 0x19,
    0x1d, 0xfe, 0x37, 0x67, 0x2d, 0x31, 0xf5, 0x69, 0xa7, 0x64, 0xab, 0x13, 0x54, 0x25, 0xe9, 0x09,
    0xed, 0x5c, 0x05, 0xca, 0x4c, 0x24, 0x87, 0xbf, 0x18, 0x3e, 0x22, 0xf0, 0x51, 0xec, 0x61, 0x17,
    0x16, 0x5e, 0xaf, 0xd3, 0x49, 0xa6, 0x36, 0x43, 0xf4, 0x47, 0x91, 0xdf, 0x33, 0x93, 0x21, 0x3b,
    0x79, 0xb7, 0x97, 0x85, 0x10, 0xb5, 0xba, 0x3c, 0xb6, 0x70, 0xd0, 0x06, 0xa1, 0xfa, 0x81, 0x82,
    0x83, 0x7e, 0x7f, 0x80, 0x96, 0x73, 0xbe, 0x56, 0x9b, 0x9e, 0x95, 0xd9, 0xf7, 0x02, 0xb9, 0xa4,
    0xde, 0x6a, 0x32, 0x6d, 0xd8, 0x8a, 0x84, 0x72, 0x2a, 0x14, 0x9f, 0x88, 0xf9, 0xdc, 0x89, 0x9a,
    0xfb, 0x7c, 0x2e, 0xc3, 0x8f, 0xb8, 0x65, 0x48, 0x26, 0xc8, 0x12, 0x4a, 0xce, 0xe7, 0xd2, 0x62,
    0x0c, 0xe0, 0x1f, 0xef, 0x11, 0x75, 0x78, 0x71, 0xa5, 0x8e, 0x76, 0x3d, 0xbd, 0xbc, 0x86, 0x57,
    0x0b, 0x28, 0x2f, 0xa3, 0xda, 0xd4, 0xe4, 0x0f, 0xa9, 0x27, 0x53, 0x04, 0x1b, 0xfc, 0xac, 0xe6,
    0x7a, 0x07, 0xae, 0x63, 0xc5, 0xdb, 0xe2, 0xea, 0x94, 0x8b, 0xc4, 0xd5, 0x9d, 0xf8, 0x90, 0x6b,
    0xb1, 0x0d, 0xd6, 0xeb, 0xc6, 0x0e, 0xcf, 0xad, 0x08, 0x4e, 0xd7, 0xe3, 0x5d, 0x50, 0x1e, 0xb3,
    0x5b, 0x23, 0x38, 0x34, 0x68, 0x46, 0x03, 0x8c, 0xdd, 0x9c, 0x7d, 0xa0, 0xcd, 0x1a, 0x41, 0x1c]"

lemma gmul_loop_numeral: "gmul_loop (numeral n) a b r =
    gmul_loop (pred_numeral n) (drop_bit 1 a) (xtime b) (if bit a 0 then r XOR b else r)"
  by (simp add: numeral_eq_Suc)

lemma all_bytes_nth: "all_bytes ! unat b = b" "length all_bytes = 256"
  using unsigned_less [of b, where 'a = nat] by (simp_all add: all_bytes_def)

lemma gmul_const:
  "gmul 2 b = xtime b" "gmul 3 b = b XOR xtime b" "gmul 9 b = b XOR xtime (xtime (xtime b))"
  "gmul 0xb b = b XOR xtime b XOR xtime (xtime (xtime b))"
  "gmul 0xd b = b XOR xtime (xtime b) XOR xtime (xtime (xtime b))"
  "gmul 0xe b = xtime b XOR xtime (xtime b) XOR xtime (xtime (xtime b))"
  by (simp_all add: gmul_def gmul_loop_numeral xor.assoc)

text \<open>The tables, entry by entry.\<close>

lemma mul_table_2: "aes_mul_2 = map (gmul 2) all_bytes"
  unfolding aes_mul_2_def all_bytes_def gmul_const by (simp add: upt_conv_Cons xtime_def)

lemma mul_table_3: "aes_mul_3 = map (gmul 3) all_bytes"
  unfolding aes_mul_3_def all_bytes_def gmul_const by (simp add: upt_conv_Cons xtime_def)

lemma mul_table_9: "aes_mul_9 = map (gmul 9) all_bytes"
  unfolding aes_mul_9_def all_bytes_def gmul_const by (simp add: upt_conv_Cons xtime_def)

lemma mul_table_b: "aes_mul_b = map (gmul 0xb) all_bytes"
  unfolding aes_mul_b_def all_bytes_def gmul_const by (simp add: upt_conv_Cons xtime_def)

lemma mul_table_d: "aes_mul_d = map (gmul 0xd) all_bytes"
  unfolding aes_mul_d_def all_bytes_def gmul_const by (simp add: upt_conv_Cons xtime_def)

lemma mul_table_e: "aes_mul_e = map (gmul 0xe) all_bytes"
  unfolding aes_mul_e_def all_bytes_def gmul_const by (simp add: upt_conv_Cons xtime_def)

lemmas mul_tables = mul_table_2 mul_table_3 mul_table_9 mul_table_b mul_table_d mul_table_e

lemma nth_index_cong: "n = m \<Longrightarrow> xs ! n = xs ! m"
  by simp

lemma dec_enc_all: "list_all2 (\<lambda>e b. aes_sbox_dec ! unat e = b) aes_sbox_enc all_bytes"
proof -
  have "list_all2 (\<lambda>e b. dec ! unat e = b) aes_sbox_enc all_bytes" if "dec = aes_sbox_dec" for dec
    unfolding aes_sbox_enc_def all_bytes_def
    apply (simp add: upt_conv_Cons)
    apply (unfold that aes_sbox_dec_def)
    apply (simp cong: nth_index_cong)
    done
  then show ?thesis by blast
qed

lemma enc_affine: "aes_sbox_enc = map affine gf_inverses"
  unfolding aes_sbox_enc_def gf_inverses_def by (simp add: affine_def rotl8_def)

lemma xtime_all: "map xtime all_bytes = aes_mul_2"
  by (simp add: mul_tables gmul_const cong: map_cong)

lemmas xtime_eval = xtime_all [unfolded all_bytes_def aes_mul_2_def, simplified upt_conv_Cons, simplified]

lemma inverses_all: "list_all2 (\<lambda>i b. gmul i b = (if b = 0 then 0 else 1)) gf_inverses all_bytes"
  unfolding gf_inverses_def all_bytes_def
  by (simp add: upt_conv_Cons gmul_def gmul_loop_numeral xtime_eval)

lemma mul_nth:
  "aes_mul_2 ! unat b = gmul 2 b" "aes_mul_3 ! unat b = gmul 3 b" "aes_mul_9 ! unat b = gmul 9 b"
  "aes_mul_b ! unat b = gmul 0xb b" "aes_mul_d ! unat b = gmul 0xd b" "aes_mul_e ! unat b = gmul 0xe b"
proof -
  have "unat b < length all_bytes" using unsigned_less [of b, where 'a = nat] by (simp add: all_bytes_nth)
  then show "aes_mul_2 ! unat b = gmul 2 b" "aes_mul_3 ! unat b = gmul 3 b" "aes_mul_9 ! unat b = gmul 9 b"
    "aes_mul_b ! unat b = gmul 0xb b" "aes_mul_d ! unat b = gmul 0xd b" "aes_mul_e ! unat b = gmul 0xe b"
    by (simp_all add: mul_tables all_bytes_nth)
qed

lemma dec_enc: "aes_sbox_dec ! unat (aes_sbox_enc ! unat b) = b"
  using list_all2_nthD [OF dec_enc_all, of "unat b"] unsigned_less [of b, where 'a = nat]
  by (simp add: all_bytes_nth list_all2_lengthD [OF dec_enc_all])

section \<open>Decryption inverts encryption\<close>

lemma xtime_xor: "xtime (a XOR b) = xtime a XOR xtime b"
  by (cases "bit a 7"; cases "bit b 7")
     (simp_all add: xtime_def bit_xor_iff push_bit_xor xor.assoc xor.left_commute xor.commute)

lemma xor_cancel [simp]: "(a :: UINT8) XOR (a XOR b) = b"
  by (simp flip: xor.assoc)

lemmas xor_ac = xor.assoc xor.commute xor.left_commute

lemma inv_mix_bytes:
  assumes "m0 = mix_column a b c d ! 0" "m1 = mix_column a b c d ! 1" "m2 = mix_column a b c d ! 2" "m3 = mix_column a b c d ! 3"
  shows "inv_mix_column m0 m1 m2 m3 = [a, b, c, d]"
  by (simp add: assms inv_mix_column_def mix_column_def mul_nth gmul_const xtime_xor xor_ac)

definition state_ok :: "aes_state \<Rightarrow> bool" where
  "state_ok s \<longleftrightarrow> (\<exists>a b c d e f g h i j k l m n p q. s = [[a, b, c, d], [e, f, g, h], [i, j, k, l], [m, n, p, q]])"

lemma upt4: "[0..<4] = [0, 1, 2, 3::nat]"
  by (simp add: upt_conv_Cons)

lemma list4: "length xs = 4 \<longleftrightarrow> (\<exists>a b c d. xs = [a, b, c, d])"
  by (auto simp: numeral_eq_Suc length_Suc_conv)

lemma state_ok_alt: "state_ok s \<longleftrightarrow> length s = 4 \<and> (\<forall>r \<in> set s. length r = 4)"
  by (auto simp: state_ok_def list4)

lemma rounds_ok [wf_intros]:
  "state_ok (AES_AddRoundKey W k s)" "state_ok s \<Longrightarrow> state_ok (AES_SubBytes s)" "state_ok s \<Longrightarrow> state_ok (AES_ShiftRows s)"
  "state_ok (AES_MixColumns s)" "state_ok (block_to_state b)"
  by (auto simp: state_ok_alt AES_AddRoundKey_def AES_SubBytes_def AES_ShiftRows_def AES_MixColumns_def on_columns_def
      block_to_state_def)

lemma AddRoundKey_twice [simp]: "state_ok s \<Longrightarrow> AES_AddRoundKey W k (AES_AddRoundKey W k s) = s"
  by (auto simp: state_ok_def AES_AddRoundKey_def upt4 xor.assoc)

lemma InvSubBytes [simp]: "AES_InvSubBytes (AES_SubBytes s) = s"
  by (simp add: AES_InvSubBytes_def AES_SubBytes_def dec_enc comp_def)

lemma InvShiftRows [simp]: "state_ok s \<Longrightarrow> AES_InvShiftRows (AES_ShiftRows s) = s"
  by (auto simp: state_ok_def AES_InvShiftRows_def AES_ShiftRows_def)

lemma InvMixColumns [simp]:
  assumes "state_ok s" shows "AES_InvMixColumns (AES_MixColumns s) = s"
proof -
  let ?M = "AES_MixColumns s"
  have nth: "?M ! r ! c = mix_column (s ! 0 ! c) (s ! 1 ! c) (s ! 2 ! c) (s ! 3 ! c) ! r" if "r < 4" "c < 4" for r c
    using that by (simp add: AES_MixColumns_def on_columns_def)
  have "inv_mix_column (?M ! 0 ! c) (?M ! 1 ! c) (?M ! 2 ! c) (?M ! 3 ! c) = [s ! 0 ! c, s ! 1 ! c, s ! 2 ! c, s ! 3 ! c]"
    if "c < 4" for c
    by (rule inv_mix_bytes) (rule nth; use that in simp)+
  then have "AES_InvMixColumns ?M = map (\<lambda>r. map (\<lambda>c. [s ! 0 ! c, s ! 1 ! c, s ! 2 ! c, s ! 3 ! c] ! r) [0..<4]) [0..<4]"
    unfolding AES_InvMixColumns_def on_columns_def by (intro map_cong refl) simp
  also have "\<dots> = s" using assms by (auto simp: state_ok_def upt4)
  finally show ?thesis .
qed

text \<open>
  The decryption interleaves its rounds the other way round: after the last key addition it undoes shift and
  substitution, then per round key addition, column mix, shift and substitution.
\<close>

lemma dec_enc_rounds:
  assumes "state_ok s"
  shows "dec_rounds W n (enc_rounds W n s) = s"
proof -
  let ?post = "\<lambda>t. AES_ShiftRows (AES_SubBytes t)"
  have move: "fold (dec_round W) (rev ks) (?post (fold (enc_round W) ks t)) = ?post t \<and> state_ok (fold (enc_round W) ks t)" if "state_ok t" for ks t
    using that by (induction ks arbitrary: t rule: rev_induct) (auto simp: rounds_ok enc_round_def dec_round_def)
  let ?s0 = "AES_AddRoundKey W 0 s"
  have ok: "state_ok ?s0" by (rule rounds_ok)
  have "dec_rounds W n (enc_rounds W n s) = AES_AddRoundKey W 0 (AES_InvSubBytes (AES_InvShiftRows (?post ?s0)))"
    using move [OF ok, of "[1..<n]"] by (simp add: dec_rounds_def enc_rounds_def rounds_ok)
  then show ?thesis using assms by (simp add: rounds_ok)
qed

lemma block_state: "length b = 16 \<Longrightarrow> state_to_block (block_to_state b) = b"
  by (rule nth_equalityI) (auto simp: state_to_block_def block_to_state_def upt4 numeral_eq_Suc less_Suc_eq)

lemma state_block: "state_ok s \<Longrightarrow> block_to_state (state_to_block s) = s"
  by (auto simp: state_ok_def state_to_block_def block_to_state_def upt4)

lemma length_state_to_block [simp]: "length (state_to_block s) = 16"
  by (simp add: state_to_block_def upt4)

lemma state_ok_rounds: "state_ok (enc_rounds W n s)" "state_ok (dec_rounds W n s)"
  by (simp_all add: enc_rounds_def dec_rounds_def Let_def rounds_ok)

section \<open>The block functions of a key\<close>

definition aes_enc :: "bytes \<Rightarrow> nat \<Rightarrow> bytes \<Rightarrow> bytes" where
  "aes_enc Key KeyLength b = state_to_block (enc_rounds (RT_AES_KeyExpansion Key KeyLength) (KeyLength div 4 + 6) (block_to_state b))"

definition aes_dec :: "bytes \<Rightarrow> nat \<Rightarrow> bytes \<Rightarrow> bytes" where
  "aes_dec Key KeyLength b = state_to_block (dec_rounds (RT_AES_KeyExpansion Key KeyLength) (KeyLength div 4 + 6) (block_to_state b))"

lemma aes_length [simp]: "length (aes_enc K n b) = 16" "length (aes_dec K n b) = 16"
  by (simp_all add: aes_enc_def aes_dec_def)

lemma aes_dec_enc: "length b = 16 \<Longrightarrow> aes_dec K n (aes_enc K n b) = b"
  by (simp add: aes_enc_def aes_dec_def state_block state_ok_rounds dec_enc_rounds rounds_ok block_state)

lemma RT_AES_Encrypt_eq:
  "key_length_ok n \<Longrightarrow> 16 \<le> c \<Longrightarrow> RT_AES_Encrypt True P 16 K n C c = (move_at C 0 (aes_enc K n P), 16)"
  by (simp add: RT_AES_Encrypt_def AES_BLOCK_SIZES_def aes_enc_def Let_def)

lemma RT_AES_Decrypt_eq:
  "key_length_ok n \<Longrightarrow> 16 \<le> p \<Longrightarrow> RT_AES_Decrypt True C 16 K n P p = (move_at P 0 (aes_dec K n C), 16)"
  by (simp add: RT_AES_Decrypt_def AES_BLOCK_SIZES_def aes_dec_def Let_def)

lemma block_to_state_take: "length b \<ge> 16 \<Longrightarrow> block_to_state b = block_to_state (take 16 b)"
  by (simp add: block_to_state_def upt4)

lemma aes_take: "length b \<ge> 16 \<Longrightarrow> aes_enc K n b = aes_enc K n (take 16 b)" "length b \<ge> 16 \<Longrightarrow> aes_dec K n b = aes_dec K n (take 16 b)"
  using block_to_state_take [of b] by (simp_all add: aes_enc_def aes_dec_def)

section \<open>Properties\<close>

text \<open>
  \<^bold>\<open>C11\<close>. The tables are right for every byte: the six multiplication tables are the products in
  GF(256), the S-box is the affine map of the multiplicative inverse, and the inverse S-box inverts it.
\<close>

theorem aes_tables_correct:
  "aes_mul_2 ! unat b = gmul 2 b \<and> aes_mul_3 ! unat b = gmul 3 b \<and> aes_mul_9 ! unat b = gmul 9 b \<and>
   aes_mul_b ! unat b = gmul 11 b \<and> aes_mul_d ! unat b = gmul 13 b \<and> aes_mul_e ! unat b = gmul 14 b \<and>
   (\<exists>i. gmul i b = (if b = 0 then 0 else 1) \<and> aes_sbox_enc ! unat b = affine (if b = 0 then 0 else i)) \<and>
   aes_sbox_dec ! unat (aes_sbox_enc ! unat b) = b"
proof -
  have L: "length gf_inverses = 256" using list_all2_lengthD [OF inverses_all] by (simp add: all_bytes_nth)
  have b: "unat b < 256" using unsigned_less [of b, where 'a = nat] by simp
  have "gmul (gf_inverses ! unat b) b = (if b = 0 then 0 else 1)"
    using list_all2_nthD [OF inverses_all, of "unat b"] b L by (simp add: all_bytes_nth)
  moreover have "aes_sbox_enc ! unat b = affine (gf_inverses ! unat b)" using b L by (simp add: enc_affine)
  moreover have "gf_inverses ! 0 = 0" by (simp add: gf_inverses_def)
  ultimately have "\<exists>i. gmul i b = (if b = 0 then 0 else 1) \<and> aes_sbox_enc ! unat b = affine (if b = 0 then 0 else i)"
    by (intro exI [of _ "gf_inverses ! unat b"]) auto
  then show ?thesis by (simp add: mul_nth dec_enc)
qed

text \<open>
  \<^bold>\<open>C12\<close>. Decryption inverts encryption, for the three key lengths, every key and every block: what
  \<^verbatim>\<open>RT_AES_Encrypt\<close> writes, \<^verbatim>\<open>RT_AES_Decrypt\<close> turns back into the plain block. Both write
  exactly the first 16 bytes of their output buffer.
\<close>

theorem RT_AES_roundtrip:
  assumes "key_length_ok n" and "length P = 16" and "16 \<le> c" and "16 \<le> q"
  shows "\<exists>B. length B = 16 \<and> RT_AES_Encrypt True P 16 K n C c = (B @ drop 16 C, 16) \<and>
             RT_AES_Decrypt True (B @ drop 16 C) 16 K n Q q = (P @ drop 16 Q, 16)"
proof -
  let ?B = "aes_enc K n P"
  have "aes_dec K n (?B @ drop 16 C) = P"
    using assms(2) aes_take(2) [of "?B @ drop 16 C"] by (simp add: aes_dec_enc)
  then show ?thesis
    using assms by (intro exI [of _ ?B]) (simp add: RT_AES_Encrypt_eq RT_AES_Decrypt_eq move_at_def)
qed

text \<open>
  The key schedule stays in bounds for every accepted key length: it fills at most the 60 columns that
  \<^verbatim>\<open>AES_CTX_STRUC\<close> has, exactly as many as the rounds use, each word has four bytes and the index into
  \<^verbatim>\<open>aes_rcon\<close> is below 11.
\<close>

lemma fold_key_step_length: "length (fold (key_step n) is W) = length W + length is"
  by (induction "is" arbitrary: W) (simp_all add: key_step_def)

lemma key_step_words:
  assumes "\<forall>w \<in> set W. length w = 4" and "0 < i" "i \<le> length W" "0 < n" "n \<le> i"
  shows "\<forall>w \<in> set (key_step n i W). length w = 4"
proof -
  have "W ! (i - 1) \<in> set W" "W ! (i - n) \<in> set W" using assms(2-5) by auto
  then have "length (key_temp n W i) = 4" "length (W ! (i - n)) = 4"
    using assms(1) by (auto simp: key_temp_def xor_bytes_def rcon_bytes_def)
  then show ?thesis using assms(1) by (simp add: key_step_def xor_bytes_def)
qed

lemma fold_key_step_words:
  assumes "\<forall>w \<in> set W. length w = 4" and "0 < n" "n \<le> length W" "i = length W"
  shows "\<forall>w \<in> set (fold (key_step n) [i..<i + m] W). length w = 4"
  using assms
proof (induction m arbitrary: W i)
  case (Suc m)
  have "\<forall>w \<in> set (key_step n i W). length w = 4" using Suc.prems by (intro key_step_words) auto
  moreover have "length (key_step n i W) = Suc i" using Suc.prems by (simp add: key_step_def)
  moreover have "[i..<i + Suc m] = i # [Suc i..<Suc i + m]" by (simp add: upt_conv_Cons)
  ultimately show ?case using Suc.IH [of "key_step n i W" "Suc i"] Suc.prems by simp
qed simp

theorem key_expansion_bounds:
  assumes "key_length_ok n"
  shows "length (RT_AES_KeyExpansion K n) = 4 * ((n div 4 + 6) + 1) \<and> length (RT_AES_KeyExpansion K n) \<le> 60 \<and>
         (\<forall>w \<in> set (RT_AES_KeyExpansion K n). length w = 4) \<and>
         (\<forall>i. i < length (RT_AES_KeyExpansion K n) \<longrightarrow> i div (n div 4) < length aes_rcon)"
proof -
  have n: "n = 16 \<or> n = 24 \<or> n = 32"
    using assms by (auto simp: key_length_ok_def AES_KEY128_LENGTH_def AES_KEY192_LENGTH_def AES_KEY256_LENGTH_def)
  have len: "length (RT_AES_KeyExpansion K n) = n + 28"
    using n by (auto simp: RT_AES_KeyExpansion_def Let_def fold_key_step_length)
  have "\<forall>w \<in> set (RT_AES_KeyExpansion K n). length w = 4"
  proof -
    define k where "k = n div 4"
    have k: "4 * (k + 6 + 1) = k + (3 * k + 28)" "0 < k" using n by (auto simp: k_def)
    show ?thesis
      unfolding RT_AES_KeyExpansion_def Let_def k_def [symmetric] k(1) by (rule fold_key_step_words) (use k(2) in auto)
  qed
  moreover have "i div (n div 4) < length aes_rcon" if "i < n + 28" for i
    using that n by (auto simp: aes_rcon_def less_mult_imp_div_less)
  ultimately show ?thesis using n len by auto
qed

theorem key_expansion_bounds_witness: "length (RT_AES_KeyExpansion (replicate 32 0) 32) = 60"
  using key_expansion_bounds [of 32 "replicate 32 0"] by (simp add: key_length_ok_def AES_KEY256_LENGTH_def)

text \<open>Evaluation on the example of FIPS 197, appendix B.\<close>

definition fips_key :: bytes where
  "fips_key = [0x2b, 0x7e, 0x15, 0x16, 0x28, 0xae, 0xd2, 0xa6, 0xab, 0xf7, 0x15, 0x88, 0x09, 0xcf, 0x4f, 0x3c]"

definition fips_plain :: bytes where
  "fips_plain = [0x32, 0x43, 0xf6, 0xa8, 0x88, 0x5a, 0x30, 0x8d, 0x31, 0x31, 0x98, 0xa2, 0xe0, 0x37, 0x07, 0x34]"

definition fips_cipher :: bytes where
  "fips_cipher = [0x39, 0x25, 0x84, 0x1d, 0x02, 0xdc, 0x09, 0xfb, 0xdc, 0x11, 0x85, 0x97, 0x19, 0x6a, 0x0b, 0x32]"

lemma map_nth_eval: "length xs = n \<Longrightarrow> 2 < n \<Longrightarrow> map ((!) xs) (0 # 1 # [2..<n]) = xs"
  using map_nth [of xs] by (simp add: upt_conv_Cons numeral_2_eq_2)

lemma sbox_all: "map ((!) aes_sbox_enc) (0 # 1 # [2..<256]) = aes_sbox_enc"
  by (rule map_nth_eval) (simp_all add: aes_sbox_enc_def)

lemma rcon_all: "map ((!) aes_rcon) (0 # 1 # [2..<11]) = aes_rcon"
  by (rule map_nth_eval) (simp_all add: aes_rcon_def)

lemmas sbox_eval = trans [OF sbox_all aes_sbox_enc_def, simplified]
lemmas rcon_eval = trans [OF rcon_all aes_rcon_def, simplified]

definition fips_words :: key_words where
  "fips_words = [
     [0x2b, 0x7e, 0x15, 0x16], [0x28, 0xae, 0xd2, 0xa6], [0xab, 0xf7, 0x15, 0x88], [0x09, 0xcf, 0x4f, 0x3c],
     [0xa0, 0xfa, 0xfe, 0x17], [0x88, 0x54, 0x2c, 0xb1], [0x23, 0xa3, 0x39, 0x39], [0x2a, 0x6c, 0x76, 0x05],
     [0xf2, 0xc2, 0x95, 0xf2], [0x7a, 0x96, 0xb9, 0x43], [0x59, 0x35, 0x80, 0x7a], [0x73, 0x59, 0xf6, 0x7f],
     [0x3d, 0x80, 0x47, 0x7d], [0x47, 0x16, 0xfe, 0x3e], [0x1e, 0x23, 0x7e, 0x44], [0x6d, 0x7a, 0x88, 0x3b],
     [0xef, 0x44, 0xa5, 0x41], [0xa8, 0x52, 0x5b, 0x7f], [0xb6, 0x71, 0x25, 0x3b], [0xdb, 0x0b, 0xad, 0x00],
     [0xd4, 0xd1, 0xc6, 0xf8], [0x7c, 0x83, 0x9d, 0x87], [0xca, 0xf2, 0xb8, 0xbc], [0x11, 0xf9, 0x15, 0xbc],
     [0x6d, 0x88, 0xa3, 0x7a], [0x11, 0x0b, 0x3e, 0xfd], [0xdb, 0xf9, 0x86, 0x41], [0xca, 0x00, 0x93, 0xfd],
     [0x4e, 0x54, 0xf7, 0x0e], [0x5f, 0x5f, 0xc9, 0xf3], [0x84, 0xa6, 0x4f, 0xb2], [0x4e, 0xa6, 0xdc, 0x4f],
     [0xea, 0xd2, 0x73, 0x21], [0xb5, 0x8d, 0xba, 0xd2], [0x31, 0x2b, 0xf5, 0x60], [0x7f, 0x8d, 0x29, 0x2f],
     [0xac, 0x77, 0x66, 0xf3], [0x19, 0xfa, 0xdc, 0x21], [0x28, 0xd1, 0x29, 0x41], [0x57, 0x5c, 0x00, 0x6e],
     [0xd0, 0x14, 0xf9, 0xa8], [0xc9, 0xee, 0x25, 0x89], [0xe1, 0x3f, 0x0c, 0xc8], [0xb6, 0x63, 0x0c, 0xa6]]"

lemma fips_words: "RT_AES_KeyExpansion fips_key 16 = fips_words"
proof -
  have "RT_AES_KeyExpansion fips_key 16 = fold (key_step 4) [4..<44]
      [[0x2b, 0x7e, 0x15, 0x16], [0x28, 0xae, 0xd2, 0xa6], [0xab, 0xf7, 0x15, 0x88], [0x09, 0xcf, 0x4f, 0x3c]]"
    by (simp add: RT_AES_KeyExpansion_def fips_key_def upt4)
  then show ?thesis
    by (simp add: fips_words_def key_step_def key_temp_def sbox_eval rcon_eval xor_bytes_def rcon_bytes_def
        cong: nth_index_cong)
qed

lemma words_all: "map ((!) fips_words) (0 # 1 # [2..<44]) = fips_words"
  by (rule map_nth_eval) (simp_all add: fips_words_def)

lemmas words_eval = trans [OF words_all fips_words_def, simplified]

lemma mix_eval: "mix_column a b c d =
    [xtime a XOR (b XOR xtime b) XOR c XOR d, a XOR xtime b XOR (c XOR xtime c) XOR d,
     a XOR b XOR xtime c XOR (d XOR xtime d), (a XOR xtime a) XOR b XOR c XOR xtime d]"
  by (simp add: mix_column_def mul_nth gmul_const)

lemma on_columns_eval: "on_columns f [[a, b, c, d], [e, g, h, i], [j, k, l, m], [n, p, q, r]] =
    (let u = f a e j n; v = f b g k p; w = f c h l q; x = f d i m r in
     [[u ! 0, v ! 0, w ! 0, x ! 0], [u ! 1, v ! 1, w ! 1, x ! 1], [u ! 2, v ! 2, w ! 2, x ! 2], [u ! 3, v ! 3, w ! 3, x ! 3]])"
  by (simp add: on_columns_def upt4 Let_def)

lemma fips_enc: "aes_enc fips_key 16 fips_plain = fips_cipher"
  unfolding aes_enc_def fips_words
  by (simp add: enc_rounds_def enc_round_def block_to_state_def state_to_block_def fips_plain_def fips_cipher_def
    AES_AddRoundKey_def AES_SubBytes_def AES_ShiftRows_def AES_MixColumns_def on_columns_eval mix_eval Let_def
    sbox_eval xtime_eval words_eval upt4 upt_conv_Cons)

text \<open>
  The example of FIPS 197, appendix B: \<^verbatim>\<open>RT_AES_Encrypt\<close> turns the plain block of the standard into its
  cipher block under the standard's 128-bit key, and reports 16 bytes written.
\<close>

theorem RT_AES_Encrypt_fips197:
  "RT_AES_Encrypt True fips_plain 16 fips_key 16 (replicate 16 0) 16 = (fips_cipher, 16)"
proof -
  have "key_length_ok 16" by (simp add: key_length_ok_def AES_KEY128_LENGTH_def)
  then show ?thesis by (simp add: RT_AES_Encrypt_eq fips_enc move_at_def fips_cipher_def)
qed

theorem RT_AES_roundtrip_witness:
  "RT_AES_Decrypt True fips_cipher 16 fips_key 16 (replicate 16 0) 16 = (fips_plain, 16)"
proof -
  have k: "key_length_ok 16" by (simp add: key_length_ok_def AES_KEY128_LENGTH_def)
  have c: "length fips_cipher = 16" by (simp add: fips_cipher_def)
  have "length fips_plain = 16" by (simp add: fips_plain_def)
  from RT_AES_roundtrip [OF k this order.refl order.refl, of fips_key "replicate 16 0" "replicate 16 0"]
  show ?thesis using k c by (auto simp: RT_AES_Encrypt_eq fips_enc move_at_def)
qed

end
