(* ===== verification/Aes_Modes.thy ===== *)
theory Aes_Modes
  imports Aes
begin

text \<open>
  The modes of operation built on the block cipher in \<^verbatim>\<open>common/crypt_aes.c\<close>: key wrap (RFC 3394), CBC with
  padding (RFC 3602), CMAC (RFC 4493) and CCM (NIST SP 800-38C).

  \<^item> A loop over blocks takes the block cipher call as an argument \<open>E\<close> or \<open>D\<close>; the entry points pass
    \<open>call_enc Key KeyLength\<close>, the call \<^verbatim>\<open>RT_AES_Encrypt\<close> on a 16-byte local buffer. The allocation
    inside that call is taken to succeed; the allocations of the modes themselves are arguments \<open>ok\<close>.
  \<^item> A function with an \<^verbatim>\<open>INT\<close> result returns it together with the bytes it has written to
    its output array; lengths are natural numbers and a 32-bit subtraction that can wrap is \<open>sub32\<close>.
  \<^item> \<^verbatim>\<open>AES_CBC_Decrypt\<close> does not check the size of its output; it works on an explicit buffer and
    an access outside of it is the result \<open>Overflow\<close>.

  The locale \<open>block_cipher\<close> states what the modes rely on. It is interpreted on the AES functions of a key.
\<close>

section \<open>Definitions\<close>

definition sub32 :: "nat \<Rightarrow> nat \<Rightarrow> nat" where
  "sub32 a b = (a + 2 ^ 32 - b) mod 2 ^ 32"

definition add32 :: "nat \<Rightarrow> nat \<Rightarrow> nat" where
  "add32 a b = (a + b) mod 2 ^ 32"

definition call_enc :: "bytes \<Rightarrow> nat \<Rightarrow> bytes \<Rightarrow> bytes" where
  "call_enc Key KeyLength b = fst (RT_AES_Encrypt True b 16 Key KeyLength (replicate 16 0) 16)"

definition call_dec :: "bytes \<Rightarrow> nat \<Rightarrow> bytes \<Rightarrow> bytes" where
  "call_dec Key KeyLength b = fst (RT_AES_Decrypt True b 16 Key KeyLength (replicate 16 0) 16)"

subsection \<open>Key wrap\<close>

definition Default_IV :: bytes where "Default_IV = replicate 8 0xa6"

definition wrap_step :: "(bytes \<Rightarrow> bytes) \<Rightarrow> nat \<Rightarrow> nat \<times> nat \<Rightarrow> bytes \<times> bytes \<Rightarrow> bytes \<times> bytes" where
  "wrap_step E n ji IVR =
     (case (ji, IVR) of ((j, i), (IV, R)) \<Rightarrow>
        let B = E (IV @ take 8 (drop (i * 8) R))
        in ((take 8 B)[7 := B ! 7 XOR of_nat (n * j + i + 1)], move_at R (i * 8) (drop 8 B)))"

definition wrap_order :: "nat \<Rightarrow> (nat \<times> nat) list" where
  "wrap_order n = List.product [0..<6] [0..<n]"

definition AES_Key_Wrap :: "bool \<Rightarrow> bytes \<Rightarrow> nat \<Rightarrow> bytes \<Rightarrow> nat \<Rightarrow> int \<times> bytes" where
  "AES_Key_Wrap ok PlainText PlainTextLength Key KeyLength =
     (if \<not> key_length_ok KeyLength then (-1, [])
      else if \<not> ok then (-2, [])
      else
        let n = PlainTextLength div 8
        in case fold (wrap_step (call_enc Key KeyLength) n) (wrap_order n) (Default_IV, take PlainTextLength PlainText) of
             (IV, R) \<Rightarrow> (0, IV @ R))"

definition unwrap_step :: "(bytes \<Rightarrow> bytes) \<Rightarrow> nat \<Rightarrow> nat \<times> nat \<Rightarrow> bytes \<times> bytes \<Rightarrow> bytes \<times> bytes" where
  "unwrap_step D n ji IVR =
     (case (ji, IVR) of ((j, i), (IV, R)) \<Rightarrow>
        let B = D (IV[7 := IV ! 7 XOR of_nat (n * j + i + 1)] @ take 8 (drop (i * 8) R))
        in (take 8 B, move_at R (i * 8) (drop 8 B)))"

definition AES_Key_Unwrap :: "bool \<Rightarrow> bytes \<Rightarrow> nat \<Rightarrow> bytes \<Rightarrow> nat \<Rightarrow> int \<times> bytes" where
  "AES_Key_Unwrap ok CipherText CipherTextLength Key KeyLength =
     (let PlainLength = sub32 CipherTextLength 8 in
      if \<not> key_length_ok KeyLength then (-1, [])
      else if \<not> ok then (-2, [])
      else
        let n = PlainLength div 8
        in case fold (unwrap_step (call_dec Key KeyLength) n) (rev (wrap_order n))
                  (take 8 CipherText, take PlainLength (drop 8 CipherText)) of
             (IV, R) \<Rightarrow> (0, R))"

subsection \<open>CBC\<close>

definition AES_CBC_IV_LENGTH :: nat where "AES_CBC_IV_LENGTH = 16"

function cbc_enc_loop :: "(bytes \<Rightarrow> bytes) \<Rightarrow> bytes \<Rightarrow> bytes \<Rightarrow> bytes" where
  "cbc_enc_loop E prev p =
     (if length p \<ge> 16 then
        let c = E (xor_bytes (take 16 p) prev) in c @ cbc_enc_loop E c (drop 16 p)
      else
        let pad = 16 - length p mod 16 in E (xor_bytes (p @ replicate pad (of_nat pad)) prev))"
  by auto
termination by (relation "measure (\<lambda>(E, prev, p). length p)") auto

declare cbc_enc_loop.simps [simp del]

text \<open>\<open>None\<close> is a return before anything was written.\<close>

definition AES_CBC_Encrypt :: "bytes \<Rightarrow> nat \<Rightarrow> bytes \<Rightarrow> nat \<Rightarrow> bytes \<Rightarrow> nat \<Rightarrow> nat \<Rightarrow> bytes option" where
  "AES_CBC_Encrypt PlainText PlainTextLength Key KeyLength IV IVLength CipherTextLength =
     (let PaddingSize = 16 - PlainTextLength mod 16 in
      if CipherTextLength < add32 PlainTextLength PaddingSize then None
      else if \<not> key_length_ok KeyLength then None
      else if IVLength \<noteq> AES_CBC_IV_LENGTH then None
      else Some (cbc_enc_loop (call_enc Key KeyLength) IV (take PlainTextLength PlainText)))"

datatype cbc_result = Refused | Overflow | Done bytes nat

text \<open>
  The loop of \<^verbatim>\<open>AES_CBC_Decrypt\<close>: \<open>cs\<close> and \<open>ps\<close> are \<^verbatim>\<open>CipherBlockStart\<close> and \<^verbatim>\<open>PlainBlockStart\<close>, \<open>prev\<close> the
  IV or the previous cipher block, \<open>c\<close> the cipher text from \<open>cs\<close> on.
\<close>

function cbc_dec_loop :: "bytes \<Rightarrow> nat \<Rightarrow> nat \<Rightarrow> bytes \<Rightarrow> bytes \<Rightarrow> bytes \<Rightarrow> nat \<Rightarrow> cbc_result" where
  "cbc_dec_loop Key KeyLength cap prev c PT ps =
     (if length c \<ge> 16 then
        (case RT_AES_Decrypt True c 16 Key KeyLength (drop ps PT) (sub32 cap ps) of
           (d, sz) \<Rightarrow>
             if ps + 16 > length PT then Overflow
             else
               let PT1 = take ps PT @ d;
                   PT2 = move_at PT1 ps (xor_bytes (take 16 (drop ps PT1)) prev)
               in cbc_dec_loop Key KeyLength cap (take 16 c) (drop 16 c) PT2 (ps + sz))
      else if ps = 0 \<or> ps > length PT then Overflow
      else Done PT (sub32 ps (unat (PT ! (ps - 1)))))"
  by auto
termination by (relation "measure (\<lambda>(K, n, cap, prev, c, PT, ps). length c)") auto

declare cbc_dec_loop.simps [simp del]

definition AES_CBC_Decrypt :: "bytes \<Rightarrow> nat \<Rightarrow> bytes \<Rightarrow> nat \<Rightarrow> bytes \<Rightarrow> nat \<Rightarrow> bytes \<Rightarrow> nat \<Rightarrow> cbc_result" where
  "AES_CBC_Decrypt CipherText CipherTextLength Key KeyLength IV IVLength PlainText PlainTextLength =
     (if CipherTextLength mod 16 \<noteq> 0 then Refused
      else if \<not> key_length_ok KeyLength then Refused
      else if IVLength \<noteq> AES_CBC_IV_LENGTH then Refused
      else cbc_dec_loop Key KeyLength PlainTextLength IV (take CipherTextLength CipherText) PlainText 0)"

subsection \<open>CMAC\<close>

definition Const_Zero :: bytes where "Const_Zero = replicate 16 0"
definition Const_Rb :: bytes where "Const_Rb = replicate 15 0 @ [0x87]"

text \<open>The shift loop: every byte is shifted and takes the top bit of the next one.\<close>

fun shift_left_bytes :: "bytes \<Rightarrow> bytes" where
  "shift_left_bytes [] = []"
| "shift_left_bytes [b] = [push_bit 1 b]"
| "shift_left_bytes (b # c # bs) =
     (push_bit 1 b OR (if c AND 0x80 \<noteq> 0 then 1 else 0)) # shift_left_bytes (c # bs)"

definition double_block :: "bytes \<Rightarrow> bytes" where
  "double_block L =
     (if L ! 0 AND 0x80 > 0 then xor_bytes (shift_left_bytes L) Const_Rb else shift_left_bytes L)"

definition AES_CMAC_GenerateSubKey :: "bytes \<Rightarrow> nat \<Rightarrow> bytes \<Rightarrow> bytes \<Rightarrow> bytes \<times> bytes" where
  "AES_CMAC_GenerateSubKey Key KeyLength SubKey1 SubKey2 =
     (if KeyLength \<noteq> AES_KEY128_LENGTH then (SubKey1, SubKey2)
      else
        let L = fst (RT_AES_Encrypt True Const_Zero 16 Key KeyLength SubKey1 16);
            K1 = double_block L
        in (K1, double_block K1))"

function cmac_loop :: "(bytes \<Rightarrow> bytes) \<Rightarrow> bytes \<Rightarrow> bytes \<Rightarrow> bytes \<times> bytes" where
  "cmac_loop E X p =
     (if length p > 16 then cmac_loop E (E (xor_bytes (take 16 p) X)) (drop 16 p) else (X, p))"
  by auto
termination by (relation "measure (\<lambda>(E, X, p). length p)") auto

declare cmac_loop.simps [simp del]

definition AES_MAC_LENGTH :: nat where "AES_MAC_LENGTH = 16"

definition AES_CMAC :: "bytes \<Rightarrow> nat \<Rightarrow> bytes \<Rightarrow> nat \<Rightarrow> bytes \<Rightarrow> nat \<Rightarrow> bytes \<times> nat" where
  "AES_CMAC PlainText PlainTextLength Key KeyLength MACText MACTextLength =
     (if MACTextLength < AES_MAC_LENGTH then (MACText, MACTextLength)
      else if KeyLength \<noteq> AES_KEY128_LENGTH then (MACText, MACTextLength)
      else
        let (SubKey1, SubKey2) = AES_CMAC_GenerateSubKey Key KeyLength (replicate 16 0) (replicate 16 0);
            (X, p) = cmac_loop (call_enc Key KeyLength) Const_Zero (take PlainTextLength PlainText);
            Y = (if length p = 16 then xor_bytes (xor_bytes p X) SubKey1
                 else xor_bytes (xor_bytes (p @ 0x80 # replicate (15 - length p) 0) X) SubKey2)
        in RT_AES_Encrypt True Y 16 Key KeyLength MACText MACTextLength)"

subsection \<open>CCM\<close>

text \<open>The first block: flags, nonce and payload length.\<close>

definition ccm_block0 :: "nat \<Rightarrow> bytes \<Rightarrow> nat \<Rightarrow> nat \<Rightarrow> nat \<Rightarrow> bytes" where
  "ccm_block0 PayloadLength Nonce NonceLength AADLength MACLength =
     (let b0 = (if AADLength > 0 then 0x40 else 0) OR of_nat ((MACLength - 2) div 2 * 8) OR of_nat (15 - NonceLength - 1);
          B1 = move_at (b0 # replicate 15 0) 1 (take NonceLength Nonce);
          B2 = (if NonceLength < 12 then B1[12 := of_nat (PayloadLength div 2 ^ 24)] else B1);
          B3 = (if NonceLength < 13 then B2[13 := of_nat (PayloadLength div 2 ^ 16)] else B2)
      in B3[14 := of_nat (PayloadLength div 2 ^ 8), 15 := of_nat PayloadLength])"

definition ccm_aad_head :: "nat \<Rightarrow> bytes" where
  "ccm_aad_head AADLength =
     (if AADLength > 0 \<and> AADLength < 0xFF00 then [of_nat (AADLength div 2 ^ 8), of_nat AADLength]
      else [0, 0, of_nat (AADLength div 2 ^ 24), of_nat (AADLength div 2 ^ 16), of_nat (AADLength div 2 ^ 8), of_nat AADLength])"

text \<open>The head has 2 or 6 bytes; the test on its length only makes the recursion well founded.\<close>

function ccm_aad_loop :: "(bytes \<Rightarrow> bytes) \<Rightarrow> bytes \<Rightarrow> bytes \<Rightarrow> bytes \<Rightarrow> bytes" where
  "ccm_aad_loop E head aad mac =
     (if aad = [] \<or> length head \<ge> 16 then mac
      else
        let n = min (min (length aad) 16) (16 - length head);
            Block = head @ take n aad @ replicate (16 - length head - n) 0
        in ccm_aad_loop E [] (drop n aad) (E (xor_bytes Block mac)))"
  by auto
termination by (relation "measure (\<lambda>(E, h, aad, mac). length aad)") (auto simp: min_def)

function ccm_payload_loop :: "(bytes \<Rightarrow> bytes) \<Rightarrow> bytes \<Rightarrow> bytes \<Rightarrow> bytes" where
  "ccm_payload_loop E p mac =
     (if p = [] then mac
      else
        let n = min (length p) 16
        in ccm_payload_loop E (drop n p) (E (xor_bytes (take n p @ replicate (16 - n) 0) mac)))"
  by auto
termination by (relation "measure (\<lambda>(E, p, mac). length p)") auto

declare ccm_aad_loop.simps [simp del] ccm_payload_loop.simps [simp del]

definition AES_CCM_MAC ::
  "bytes \<Rightarrow> nat \<Rightarrow> bytes \<Rightarrow> nat \<Rightarrow> bytes \<Rightarrow> nat \<Rightarrow> bytes \<Rightarrow> nat \<Rightarrow> nat \<Rightarrow> bytes" where
  "AES_CCM_MAC Payload PayloadLength Key KeyLength Nonce NonceLength AAD AADLength MACLength =
     (let E = call_enc Key KeyLength;
          M0 = E (ccm_block0 PayloadLength Nonce NonceLength AADLength MACLength);
          M1 = ccm_aad_loop E (ccm_aad_head AADLength) (take AADLength AAD) M0
      in take MACLength (ccm_payload_loop E (take PayloadLength Payload) M1))"

definition ccm_counter0 :: "bytes \<Rightarrow> nat \<Rightarrow> bytes" where
  "ccm_counter0 Nonce NonceLength = move_at (of_nat (15 - NonceLength - 1) # replicate 15 0) 1 (take NonceLength Nonce)"

function ccm_ctr_loop :: "(bytes \<Rightarrow> bytes) \<Rightarrow> bytes \<Rightarrow> bytes \<Rightarrow> bytes" where
  "ccm_ctr_loop E ctr p =
     (if p = [] then []
      else
        let ctr' = ctr[15 := ctr ! 15 + 1]; n = min (length p) 16
        in xor_bytes (take n p) (take n (E ctr')) @ ccm_ctr_loop E ctr' (drop n p))"
  by auto
termination by (relation "measure (\<lambda>(E, ctr, p). length p)") auto

declare ccm_ctr_loop.simps [simp del]

definition ccm_mac_length_ok :: "nat \<Rightarrow> bool" where
  "ccm_mac_length_ok m \<longleftrightarrow> m = 4 \<or> m = 6 \<or> m = 8 \<or> m = 10 \<or> m = 12 \<or> m = 14 \<or> m = 16"

definition AES_CCM_Encrypt ::
  "bytes \<Rightarrow> nat \<Rightarrow> bytes \<Rightarrow> nat \<Rightarrow> bytes \<Rightarrow> nat \<Rightarrow> bytes \<Rightarrow> nat \<Rightarrow> nat \<Rightarrow> nat \<Rightarrow> int \<times> bytes" where
  "AES_CCM_Encrypt PlainText PlainTextLength Key KeyLength Nonce NonceLength AAD AADLength MACLength CipherTextLength =
     (if KeyLength \<noteq> AES_KEY128_LENGTH then (-1, [])
      else if NonceLength < 7 \<or> NonceLength > 13 then (-2, [])
      else if \<not> ccm_mac_length_ok MACLength then (-3, [])
      else if CipherTextLength < add32 PlainTextLength MACLength then (-4, [])
      else
        let E = call_enc Key KeyLength;
            ctr = ccm_counter0 Nonce NonceLength;
            MAC = AES_CCM_MAC PlainText PlainTextLength Key KeyLength Nonce NonceLength AAD AADLength MACLength;
            MAC1 = xor_bytes MAC (take MACLength (E ctr))
        in (0, ccm_ctr_loop E ctr (take PlainTextLength PlainText) @ MAC1))"

definition AES_CCM_Decrypt ::
  "bytes \<Rightarrow> nat \<Rightarrow> bytes \<Rightarrow> nat \<Rightarrow> bytes \<Rightarrow> nat \<Rightarrow> bytes \<Rightarrow> nat \<Rightarrow> nat \<Rightarrow> nat \<Rightarrow> int \<times> bytes" where
  "AES_CCM_Decrypt CipherText CipherTextLength Key KeyLength Nonce NonceLength AAD AADLength MACLength PlainTextLength =
     (if KeyLength \<noteq> AES_KEY128_LENGTH then (-1, [])
      else if NonceLength < 7 \<or> NonceLength > 13 then (-2, [])
      else if \<not> ccm_mac_length_ok MACLength then (-3, [])
      else
        let n = sub32 CipherTextLength MACLength in
        if PlainTextLength < n then (-4, [])
        else
          let E = call_enc Key KeyLength;
              ctr = ccm_counter0 Nonce NonceLength;
              MAC_From_Cipher = xor_bytes (take MACLength (drop n CipherText)) (take MACLength (E ctr));
              P = ccm_ctr_loop E ctr (take n CipherText);
              MAC = AES_CCM_MAC P n Key KeyLength Nonce NonceLength AAD AADLength MACLength
          in if MAC_From_Cipher \<noteq> MAC then (-5, P) else (0, P))"

section \<open>Facts on byte strings\<close>

lemma sub32_le: "b \<le> a \<Longrightarrow> a < 2 ^ 32 \<Longrightarrow> sub32 a b = a - b"
proof -
  assume "b \<le> a" "a < 2 ^ 32"
  then have "a + 2 ^ 32 - b = 2 ^ 32 + (a - b)" by simp
  then have "sub32 a b = (2 ^ 32 + (a - b)) mod 2 ^ 32" by (simp only: sub32_def)
  then show ?thesis using \<open>a < 2 ^ 32\<close> by simp
qed

lemma add32_small: "a + b < 2 ^ 32 \<Longrightarrow> add32 a b = a + b"
  by (simp add: add32_def)

lemma take_drop_move_at:
  "off + length s \<le> length d \<Longrightarrow> take (length s) (drop off (move_at d off s)) = s"
  by (simp add: move_at_def)

lemma move_at_back:
  assumes "off + length s \<le> length d" and "length t = length s"
  shows "move_at (move_at d off s) off t = move_at d off t"
  using assms by (simp add: move_at_def)

lemma move_at_same: "off + n \<le> length d \<Longrightarrow> move_at d off (take n (drop off d)) = d"
proof -
  assume "off + n \<le> length d"
  moreover have "take n (drop off d) @ drop (off + n) d = drop off d"
    by (metis add.commute append_take_drop_id drop_drop)
  ultimately show ?thesis by (simp add: move_at_def)
qed

text \<open>Undoing a fold: the inverse steps in reverse order.\<close>

lemma fold_undo:
  assumes "\<And>k s. k \<in> set ks \<Longrightarrow> P s \<Longrightarrow> P (f k s) \<and> g k (f k s) = s" and "P s"
  shows "P (fold f ks s) \<and> fold g (rev ks) (fold f ks s) = s"
  using assms
proof (induction ks arbitrary: s rule: rev_induct)
  case (snoc k ks)
  then have IH: "P (fold f ks s) \<and> fold g (rev ks) (fold f ks s) = s" by simp
  moreover have "P (f k (fold f ks s)) \<and> g k (f k (fold f ks s)) = fold f ks s" using snoc.prems(1) IH by simp
  ultimately show ?case by simp
qed simp

section \<open>Block ciphers\<close>

text \<open>What the modes rely on: 16-byte blocks, and an inverse.\<close>

locale block_cipher =
  fixes E D :: "bytes \<Rightarrow> bytes"
  assumes E_length: "length (E b) = 16" and D_length: "length (D b) = 16"
    and D_E: "length b = 16 \<Longrightarrow> D (E b) = b"
begin

lemma unwrap_wrap_step:
  assumes "length IV = 8" and "i * 8 + 8 \<le> length R"
  shows "unwrap_step D n (j, i) (wrap_step E n (j, i) (IV, R)) = (IV, R)"
    and "case wrap_step E n (j, i) (IV, R) of (IV', R') \<Rightarrow> length IV' = 8 \<and> length R' = length R"
proof -
  define blk where "blk = take 8 (drop (i * 8) R)"
  define B where "B = E (IV @ blk)"
  define t where "t = (of_nat (n * j + i + 1) :: UINT8)"
  have tr: "of_nat (n * j + i + 1) = t" by (simp only: t_def)
  have l: "length blk = 8" "length B = 16" using assms by (simp_all add: blk_def B_def E_length)
  have w: "wrap_step E n (j, i) (IV, R) = ((take 8 B)[7 := B ! 7 XOR t], move_at R (i * 8) (drop 8 B))"
    unfolding wrap_step_def by (simp only: prod.case Let_def tr B_def blk_def)
  then show "case wrap_step E n (j, i) (IV, R) of (IV', R') \<Rightarrow> length IV' = 8 \<and> length R' = length R"
    using l assms(2) by simp
  have "((take 8 B)[7 := B ! 7 XOR t])[7 := ((take 8 B)[7 := B ! 7 XOR t]) ! 7 XOR t] = take 8 B"
    using l by (simp add: xor.assoc list_update_same_conv)
  moreover have "take 8 (drop (i * 8) (move_at R (i * 8) (drop 8 B))) = drop 8 B"
    using take_drop_move_at [of "i * 8" "drop 8 B" R] l assms(2) by simp
  moreover have "D B = IV @ blk" using D_E [of "IV @ blk"] l assms by (simp add: B_def)
  moreover have "move_at (move_at R (i * 8) (drop 8 B)) (i * 8) blk = R"
    using move_at_back [of "i * 8" "drop 8 B" R blk] move_at_same [of "i * 8" 8 R] l assms(2) by (simp add: blk_def)
  ultimately show "unwrap_step D n (j, i) (wrap_step E n (j, i) (IV, R)) = (IV, R)"
    using assms(1) l unfolding w unwrap_step_def prod.case Let_def tr by simp
qed

lemma unwrap_wrap:
  assumes "length IV = 8" and "n * 8 \<le> length R"
  shows "case fold (wrap_step E n) (wrap_order n) (IV, R) of (IV', R') \<Rightarrow> length IV' = 8 \<and> length R' = length R"
    and "fold (unwrap_step D n) (rev (wrap_order n)) (fold (wrap_step E n) (wrap_order n) (IV, R)) = (IV, R)"
proof -
  let ?P = "\<lambda>(IV', R'). length IV' = 8 \<and> length R' = length R"
  have "?P (wrap_step E n k s) \<and> unwrap_step D n k (wrap_step E n k s) = s" if k: "k \<in> set (wrap_order n)" and s: "?P s" for k s
  proof -
    obtain j i where ji: "k = (j, i)" "i < n" using k by (auto simp: wrap_order_def)
    obtain V W where VW: "s = (V, W)" "length V = 8" "length W = length R" using s by auto
    have "i * 8 + 8 \<le> length W" using ji(2) assms(2) VW(3) by linarith
    from unwrap_wrap_step [OF VW(2) this] show ?thesis by (simp add: ji(1) VW split: prod.splits)
  qed
  note st = this
  have "?P (fold (wrap_step E n) (wrap_order n) (IV, R)) \<and>
      fold (unwrap_step D n) (rev (wrap_order n)) (fold (wrap_step E n) (wrap_order n) (IV, R)) = (IV, R)"
    by (rule fold_undo [where P = ?P]) (use st assms(1) in auto)
  then show "?P (fold (wrap_step E n) (wrap_order n) (IV, R))"
    "fold (unwrap_step D n) (rev (wrap_order n)) (fold (wrap_step E n) (wrap_order n) (IV, R)) = (IV, R)" by simp_all
qed

end

text \<open>CBC decryption as a function of the cipher text, block by block.\<close>

function cbc_plain :: "(bytes \<Rightarrow> bytes) \<Rightarrow> bytes \<Rightarrow> bytes \<Rightarrow> bytes" where
  "cbc_plain D prev c =
     (if length c \<ge> 16 then xor_bytes (D (take 16 c)) prev @ cbc_plain D (take 16 c) (drop 16 c) else [])"
  by auto
termination by (relation "measure (\<lambda>(D, prev, c). length c)") auto

declare cbc_plain.simps [simp del]

definition cbc_padding :: "nat \<Rightarrow> bytes" where
  "cbc_padding n = replicate (16 - n mod 16) (of_nat (16 - n mod 16))"

context block_cipher
begin

lemma cbc_inverse:
  "length prev = 16 \<Longrightarrow> cbc_plain D prev (cbc_enc_loop E prev p) = p @ cbc_padding (length p)"
  "length (cbc_enc_loop E prev p) = length p + (16 - length p mod 16)"
proof -
  have "(length prev = 16 \<longrightarrow> cbc_plain D prev (cbc_enc_loop E prev p) = p @ cbc_padding (length p)) \<and>
      length (cbc_enc_loop E prev p) = length p + (16 - length p mod 16)"
  proof (induction p arbitrary: prev rule: length_induct)
    case (1 p)
    show ?case
    proof (cases "length p \<ge> 16")
      case True
      let ?c = "E (xor_bytes (take 16 p) prev)"
      have IH: "cbc_plain D ?c (cbc_enc_loop E ?c (drop 16 p)) = drop 16 p @ cbc_padding (length p - 16)"
        "length (cbc_enc_loop E ?c (drop 16 p)) = length p - 16 + (16 - (length p - 16) mod 16)"
        using 1 [rule_format, of "drop 16 p" ?c] True by (simp_all add: E_length)
      have m: "(length p - 16) mod 16 = length p mod 16" using True by (simp add: mod_if [of "length p"])
      have e: "cbc_enc_loop E prev p = ?c @ cbc_enc_loop E ?c (drop 16 p)"
        using True by (subst cbc_enc_loop.simps) (simp add: Let_def)
      have "cbc_plain D prev (cbc_enc_loop E prev p) = take 16 p @ drop 16 p @ cbc_padding (length p - 16)" if "length prev = 16"
        using True IH(1) that by (simp add: e cbc_plain.simps [of D prev "?c @ _"] E_length D_E)
      then show ?thesis using IH(2) True m by (simp add: e E_length cbc_padding_def)
    next
      case False
      let ?q = "p @ replicate (16 - length p) (of_nat (16 - length p))"
      have e: "cbc_enc_loop E prev p = E (xor_bytes ?q prev)"
        using False by (subst cbc_enc_loop.simps) (simp add: Let_def)
      have "cbc_plain D prev (cbc_enc_loop E prev p) = ?q" if "length prev = 16"
        using False that by (simp add: e cbc_plain.simps [of D prev "E _"] cbc_plain.simps [of D _ "[]"] E_length D_E)
      then show ?thesis using False by (simp add: e E_length cbc_padding_def)
    qed
  qed
  then show "length prev = 16 \<Longrightarrow> cbc_plain D prev (cbc_enc_loop E prev p) = p @ cbc_padding (length p)"
    "length (cbc_enc_loop E prev p) = length p + (16 - length p mod 16)" by blast+
qed

end

text \<open>The AES functions of a key are a block cipher; for an accepted key length they are what the modes call.\<close>

interpretation aes: block_cipher "aes_enc Key KeyLength" "aes_dec Key KeyLength"
  by unfold_locales (simp_all add: aes_dec_enc)

lemma call_enc_eq: "key_length_ok n \<Longrightarrow> call_enc K n = aes_enc K n"
  and call_dec_eq: "key_length_ok n \<Longrightarrow> call_dec K n = aes_dec K n"
  by (simp_all add: fun_eq_iff call_enc_def call_dec_def RT_AES_Encrypt_eq RT_AES_Decrypt_eq move_at_def)

lemma cbc_dec_step:
  assumes "key_length_ok n" and "length c \<ge> 16" and "ps + 16 \<le> length PT" and "16 \<le> sub32 cap ps"
  shows "cbc_dec_loop K n cap prev c PT ps =
    cbc_dec_loop K n cap (take 16 c) (drop 16 c) (move_at PT ps (xor_bytes (aes_dec K n (take 16 c)) prev @ drop (length prev) (aes_dec K n (take 16 c)))) (ps + 16)"
proof -
  let ?d = "aes_dec K n (take 16 c)"
  have "move_at (take ps PT @ move_at (drop ps PT) 0 ?d) ps (xor_bytes ?d prev) =
      move_at PT ps (xor_bytes ?d prev @ drop (length prev) ?d)"
    using assms(3) by (simp add: move_at_def min_def add.commute)
  then show ?thesis
    using assms aes_take(2) [OF assms(2), of K n]
    by (subst cbc_dec_loop.simps) (simp add: RT_AES_Decrypt_eq Let_def move_at_def)
qed

lemma cbc_dec_loop_ok:
  fixes K :: bytes
  assumes "key_length_ok n" and "length prev = 16" and "16 dvd length c" and "ps + length c \<le> cap" "cap \<le> length PT" "cap < 2 ^ 32"
    and "0 < ps + length c"
  defines "PT' \<equiv> move_at PT ps (cbc_plain (aes_dec K n) prev c)"
  shows "cbc_dec_loop K n cap prev c PT ps = Done PT' (sub32 (ps + length c) (unat (PT' ! (ps + length c - 1))))"
  using assms(2-5,7) unfolding PT'_def
proof (induction c arbitrary: prev PT ps rule: length_induct)
  case (1 c)
  show ?case
  proof (cases "length c \<ge> 16")
    case False
    then have "c = []" using 1(3) by (auto dest: dvd_imp_le)
    then show ?thesis using 1(5,6,4) by (subst cbc_dec_loop.simps) (simp add: cbc_plain.simps [of _ _ "[]"])
  next
    case True
    let ?b = "xor_bytes (aes_dec K n (take 16 c)) prev"
    have l: "length ?b = 16" using 1(2) by simp
    have s: "16 \<le> sub32 cap ps" using sub32_le [of ps cap] 1(4) True assms(6) by simp
    have "cbc_dec_loop K n cap prev c PT ps = cbc_dec_loop K n cap (take 16 c) (drop 16 c) (move_at PT ps ?b) (ps + 16)"
      using cbc_dec_step [OF assms(1) True _ s, of PT K prev] 1(2,4,5) True by simp
    also have "\<dots> = Done (move_at (move_at PT ps ?b) (ps + 16) (cbc_plain (aes_dec K n) (take 16 c) (drop 16 c)))
        (sub32 (ps + length c) (unat (move_at (move_at PT ps ?b) (ps + 16) (cbc_plain (aes_dec K n) (take 16 c) (drop 16 c)) ! (ps + length c - 1))))"
      using 1(1) [rule_format, of "drop 16 c" "take 16 c" "ps + 16" "move_at PT ps ?b"] 1(2-6) True l by (simp add: dvd_diff_nat)
    also have "move_at (move_at PT ps ?b) (ps + 16) (cbc_plain (aes_dec K n) (take 16 c) (drop 16 c)) =
        move_at PT ps (cbc_plain (aes_dec K n) prev c)"
      using True 1(4,5) l by (simp add: cbc_plain.simps [of _ prev c] move_at_def ac_simps)
    finally show ?thesis .
  qed
qed

lemma cbc_dec_loop_overflow:
  assumes "key_length_ok n" and "16 dvd length c" and "cap < ps + length c" and "ps \<le> cap" and "length PT = cap" and "cap < 2 ^ 32"
    and "length prev = 16"
  shows "cbc_dec_loop K n cap prev c PT ps = Overflow"
  using assms(2-5,7)
proof (induction c arbitrary: prev PT ps rule: length_induct)
  case (1 c)
  have L: "length c \<ge> 16" using 1(2-4) by (cases "length c = 0") (auto dest: dvd_imp_le)
  show ?case
  proof (cases "ps + 16 \<le> cap")
    case True
    have s: "16 \<le> sub32 cap ps" using sub32_le [of ps cap] 1(4) True assms(6) by simp
    show ?thesis
      using cbc_dec_step [OF assms(1) L _ s, of PT K prev] True L 1(2,3,5,6)
        1(1) [rule_format, of "drop 16 c" "ps + 16" "move_at PT ps (xor_bytes (aes_dec K n (take 16 c)) prev)" "take 16 c"]
      by (simp add: dvd_diff_nat)
  next
    case False
    then show ?thesis using L 1(5) by (subst cbc_dec_loop.simps) (simp split: prod.splits)
  qed
qed

section \<open>CCM\<close>

text \<open>
  The reference: the message is formatted into blocks (NIST SP 800-38C, appendix A), the tag is the CBC-MAC
  of the blocks.
\<close>

function chunks :: "bytes \<Rightarrow> bytes list" where
  "chunks xs = (if xs = [] then [] else take 16 xs # chunks (drop 16 xs))"
  by auto
termination by (relation "measure length") auto

declare chunks.simps [simp del]

definition zero_pad :: "bytes \<Rightarrow> bytes" where
  "zero_pad xs = xs @ replicate ((16 - length xs mod 16) mod 16) 0"

definition cbc_mac :: "(bytes \<Rightarrow> bytes) \<Rightarrow> bytes list \<Rightarrow> bytes \<Rightarrow> bytes" where
  "cbc_mac E bs x = fold (\<lambda>b x. E (xor_bytes b x)) bs x"

definition be_bytes :: "nat \<Rightarrow> nat \<Rightarrow> bytes" where
  "be_bytes q n = rev (map (\<lambda>i. of_nat (n div 256 ^ i)) [0..<q])"

definition ccm_spec_blocks :: "bytes \<Rightarrow> bytes \<Rightarrow> bytes \<Rightarrow> nat \<Rightarrow> bytes list" where
  "ccm_spec_blocks P N A t =
     (((if A = [] then 0 else 64) OR of_nat (8 * ((t - 2) div 2)) OR of_nat (15 - length N - 1)) # N @ be_bytes (15 - length N) (length P))
     # (if A = [] then [] else chunks (zero_pad (be_bytes 2 (length A) @ A))) @ chunks (zero_pad P)"

lemma chunks_step: "xs \<noteq> [] \<Longrightarrow> chunks xs = take 16 xs # chunks (drop 16 xs)"
  by (subst chunks.simps) simp

lemma chunks_Nil [simp]: "chunks [] = []"
  by (subst chunks.simps) simp

lemma zero_pad_Nil [simp]: "zero_pad [] = []"
  by (simp add: zero_pad_def)

lemma chunks_pad_long: "16 \<le> length xs \<Longrightarrow> chunks (zero_pad xs) = take 16 xs # chunks (zero_pad (drop 16 xs))"
proof -
  assume L: "16 \<le> length xs"
  then have "(length xs - 16) mod 16 = length xs mod 16" by (simp add: mod_if [of "length xs"])
  then show ?thesis using L by (subst chunks_step) (auto simp: zero_pad_def)
qed

lemma chunks_pad_short: "xs \<noteq> [] \<Longrightarrow> length xs < 16 \<Longrightarrow> chunks (zero_pad xs) = [xs @ replicate (16 - length xs) 0]"
  by (subst chunks_step) (auto simp: zero_pad_def)

lemma payload_loop_spec: "ccm_payload_loop E p m = cbc_mac E (chunks (zero_pad p)) m"
proof (induction p arbitrary: m rule: length_induct)
  case (1 p)
  show ?case
  proof (cases "length p \<ge> 16")
    case True
    then have "p \<noteq> []" by auto
    with True 1 show ?thesis
      by (subst ccm_payload_loop.simps) (simp add: chunks_pad_long cbc_mac_def Let_def min_def)
  next
    case False
    then show ?thesis
      by (subst ccm_payload_loop.simps)
         (simp add: chunks_pad_short cbc_mac_def Let_def min_def ccm_payload_loop.simps [of E "[]"])
  qed
qed

lemma aad_loop_empty_head: "ccm_aad_loop E [] a m = cbc_mac E (chunks (zero_pad a)) m"
proof (induction a arbitrary: m rule: length_induct)
  case (1 a)
  show ?case
  proof (cases "length a \<ge> 16")
    case True
    then have "a \<noteq> []" by auto
    with True 1 show ?thesis
      by (subst ccm_aad_loop.simps) (simp add: chunks_pad_long cbc_mac_def Let_def min_def)
  next
    case False
    then show ?thesis
      by (subst ccm_aad_loop.simps)
         (simp add: chunks_pad_short cbc_mac_def Let_def min_def ccm_aad_loop.simps [of E "[]" "[]"])
  qed
qed

lemma aad_loop_spec:
  assumes "a \<noteq> []" and "length h < 16"
  shows "ccm_aad_loop E h a m = cbc_mac E (chunks (zero_pad (h @ a))) m"
proof (cases "h = []"; cases "length h + length a \<ge> 16")
  assume "h \<noteq> []" "length h + length a \<ge> 16"
  moreover from this have "\<not> 16 \<le> 16 - length h" by (cases h) auto
  ultimately show ?thesis
    using assms by (subst ccm_aad_loop.simps)
      (simp add: chunks_pad_long cbc_mac_def Let_def min_def aad_loop_empty_head take_append drop_append)
next
  assume "h \<noteq> []" "\<not> length h + length a \<ge> 16"
  then show ?thesis
    using assms by (subst ccm_aad_loop.simps)
      (simp add: chunks_pad_short cbc_mac_def Let_def min_def aad_loop_empty_head take_append)
qed (simp_all add: aad_loop_empty_head)

lemma be_bytes_length [simp]: "length (be_bytes q n) = q"
  by (simp add: be_bytes_def)

lemma be_bytes_2: "be_bytes 2 n = [of_nat (n div 256), of_nat n]"
  by (simp add: be_bytes_def numeral_2_eq_2)

lemma block0_spec:
  assumes N: "7 \<le> length N" "length N \<le> 13" and P: "p < 2 ^ 32" "p < 256 ^ (15 - length N)"
  shows "ccm_block0 p N (length N) a t =
    ((if a = 0 then 0 else 64) OR of_nat (8 * ((t - 2) div 2)) OR of_nat (15 - length N - 1)) # N @ be_bytes (15 - length N) p"
    (is "_ = ?b0 # _")
proof (rule nth_equalityI)
  have L: "length (ccm_block0 p N (length N) a t) = 16" using N by (simp add: ccm_block0_def Let_def)
  then show "length (ccm_block0 p N (length N) a t) = length (?b0 # N @ be_bytes (15 - length N) p)" using N by simp
  have hi: "p div 256 ^ k = 0" if "4 \<le> k" for k
  proof -
    have "(256::nat) ^ 4 \<le> 256 ^ k" using that by (intro power_increasing) auto
    then show ?thesis using P(1) by (intro div_less) simp
  qed
  fix i assume "i < length (ccm_block0 p N (length N) a t)"
  then have i: "i < 16" using L by simp
  have be: "be_bytes q p ! k = of_nat (p div 256 ^ (q - 1 - k))" if "k < q" for q k
    using that by (simp add: be_bytes_def rev_nth)
  have tail: "(?b0 # N @ be_bytes (15 - length N) p) ! i = of_nat (p div 256 ^ (15 - i))" if ni: "length N < i"
  proof -
    obtain j where j: "i = Suc j" "length N \<le> j" using ni by (cases i) auto
    have "be_bytes (15 - length N) p ! (j - length N) = of_nat (p div 256 ^ (15 - length N - 1 - (j - length N)))"
      using j i by (intro be) simp
    also have "15 - length N - 1 - (j - length N) = 15 - i" using j by simp
    finally show ?thesis using j by (simp add: nth_append)
  qed
  show "ccm_block0 p N (length N) a t ! i = (?b0 # N @ be_bytes (15 - length N) p) ! i"
  proof (cases "length N < i")
    case True
    have "i = 15 \<or> i = 14 \<or> i = 13 \<or> i = 12 \<or> i < 12" using i by linarith
    then show ?thesis
      unfolding tail [OF True] using True N hi [of "15 - i"]
      by (auto simp: ccm_block0_def Let_def move_at_def nth_append nth_list_update)
  next
    case False
    then have "i = 0 \<or> (0 < i \<and> i \<le> length N)" by auto
    then show ?thesis
      using N by (auto simp: ccm_block0_def Let_def move_at_def nth_append nth_list_update nth_Cons' mult.commute)
  qed
qed

context block_cipher
begin

lemma cbc_mac_length: "length x = 16 \<Longrightarrow> length (cbc_mac E bs x) = 16"
  unfolding cbc_mac_def by (induction bs arbitrary: x) (simp_all add: E_length)

lemma ctr_loop_nth:
  assumes "length ctr = 16"
  shows "length (ccm_ctr_loop E ctr p) = length p \<and>
    (\<forall>i < length p. ccm_ctr_loop E ctr p ! i = p ! i XOR E (ctr[15 := ctr ! 15 + of_nat (i div 16 + 1)]) ! (i mod 16))"
  using assms
proof (induction p arbitrary: ctr rule: length_induct)
  case (1 p)
  show ?case
  proof (cases "p = []")
    case True
    then show ?thesis by (simp add: ccm_ctr_loop.simps [of E ctr "[]"])
  next
    case False
    define c where "c = ctr[15 := ctr ! 15 + 1]"
    define q where "q = drop 16 p"
    have lc: "length c = 16" using 1(2) by (simp add: c_def)
    have cc: "c[15 := c ! 15 + w] = ctr[15 := ctr ! 15 + (1 + w)]" for w using 1(2) by (simp add: c_def add.assoc)
    have IH: "length (ccm_ctr_loop E c q) = length q"
      "\<forall>i < length q. ccm_ctr_loop E c q ! i = q ! i XOR E (c[15 := c ! 15 + of_nat (i div 16 + 1)]) ! (i mod 16)"
      using 1(1) [rule_format, of q c] lc False by (auto simp: q_def)
    have e: "ccm_ctr_loop E ctr p = xor_bytes (take 16 p) (E c) @ ccm_ctr_loop E c q"
    proof -
      have "drop (length p) p = q" if "length p \<le> 16" using that by (simp add: q_def)
      moreover have "xor_bytes p (take (length p) (E c)) = xor_bytes p (E c)" if "length p \<le> 16"
        using that by (intro nth_equalityI) (auto simp: E_length)
      ultimately show ?thesis
        using False by (subst ccm_ctr_loop.simps) (simp add: Let_def min_def c_def q_def E_length)
    qed
    have l: "length (xor_bytes (take 16 p) (E c)) = min 16 (length p)" by (simp add: E_length)
    have "ccm_ctr_loop E ctr p ! i = p ! i XOR E (ctr[15 := ctr ! 15 + of_nat (i div 16 + 1)]) ! (i mod 16)"
      if i: "i < length p" for i
    proof (cases "i < 16")
      case True
      then show ?thesis using i l by (simp add: e nth_append E_length c_def)
    next
      case ge: False
      then have m: "(i - 16) div 16 + 1 = i div 16" "(i - 16) mod 16 = i mod 16"
        by (simp_all add: le_div_geq le_mod_geq)
      have "ccm_ctr_loop E ctr p ! i = ccm_ctr_loop E c q ! (i - 16)" using ge i l by (simp add: e nth_append)
      also have "\<dots> = p ! i XOR E (ctr[15 := ctr ! 15 + (1 + of_nat (i div 16))]) ! (i mod 16)"
        using IH(2) [rule_format, of "i - 16"] ge i unfolding cc m by (simp add: q_def)
      finally show ?thesis by (simp add: add.commute)
    qed
    moreover have "length (ccm_ctr_loop E ctr p) = length p" using IH(1) l by (simp add: e q_def E_length)
    ultimately show ?thesis by blast
  qed
qed

lemma ctr_loop_length: "length ctr = 16 \<Longrightarrow> length (ccm_ctr_loop E ctr p) = length p"
  using ctr_loop_nth by blast

lemma ctr_loop_twice: "length ctr = 16 \<Longrightarrow> ccm_ctr_loop E ctr (ccm_ctr_loop E ctr p) = p"
  using ctr_loop_nth [of ctr p] ctr_loop_nth [of ctr "ccm_ctr_loop E ctr p"]
  by (intro nth_equalityI) (auto simp: xor.assoc)

lemma ctr_loop_repeats:
  assumes "length ctr = 16" and "i + 4096 < length p"
  shows "ccm_ctr_loop E ctr p ! (i + 4096) XOR p ! (i + 4096) = ccm_ctr_loop E ctr p ! i XOR p ! i"
proof -
  have d: "(i + 4096) div 16 = i div 16 + 256" "(i + 4096) mod 16 = i mod 16"
    using div_mult_self1 [of 16 i 256] mod_mult_self1 [of i 256 16] by simp_all
  have "(of_nat (i div 16 + 256 + 1) :: UINT8) = of_nat (i div 16 + 1) + 256" by simp
  then have w: "(of_nat (i div 16 + 256 + 1) :: UINT8) = of_nat (i div 16 + 1)" by simp
  note n = ctr_loop_nth [OF assms(1), of p, THEN conjunct2, rule_format]
  show ?thesis
    unfolding n [OF assms(2)] n [of i, OF less_trans [OF _ assms(2), of i, simplified]] d w by (simp add: xor_ac)
qed

end

lemma ccm_counter0_length [simp]: "length N = nl \<Longrightarrow> nl \<le> 13 \<Longrightarrow> length (ccm_counter0 N nl) = 16"
  by (simp add: ccm_counter0_def)

lemma AES_CCM_MAC_length:
  assumes "key_length_ok k" and "t \<le> 16"
  shows "length (AES_CCM_MAC P p K k N nl A a t) = t"
proof -
  have aad: "length (ccm_aad_loop (aes_enc K k) h a' m) = 16" if "length m = 16" for h a' m
    using that
  proof (induction "aes_enc K k" h a' m rule: ccm_aad_loop.induct)
    case (1 h a' m)
    then show ?case by (subst ccm_aad_loop.simps) (simp add: Let_def)
  qed
  show ?thesis
    using assms by (simp add: AES_CCM_MAC_def call_enc_eq Let_def payload_loop_spec aes.cbc_mac_length aad)
qed

section \<open>Properties\<close>

lemma key128 [simp]: "key_length_ok 16"
  by (simp add: key_length_ok_def AES_KEY128_LENGTH_def)

lemma pad_dvd: "(16 :: nat) dvd n + (16 - n mod 16)"
proof -
  have a: "n + (16 - m) = (n - m) + 16" if "m \<le> n" "m < 16" for m using that by simp
  have "n + (16 - n mod 16) = (n - n mod 16) + 16" by (rule a) simp_all
  then show ?thesis by (metis dvd_add dvd_minus_mod dvd_refl)
qed

lemma aes_wrap_unwrap:
  assumes "key_length_ok k" and "8 dvd length P" and "length P + 8 < 2 ^ 32"
  shows "\<exists>C. AES_Key_Wrap True P (length P) K k = (0, C) \<and> length C = length P + 8 \<and>
             (\<forall>rest. AES_Key_Unwrap True (C @ rest) (length C) K k = (0, P))"
proof -
  let ?n = "length P div 8"
  have n: "?n * 8 \<le> length P" by simp
  obtain IV R where w: "fold (wrap_step (aes_enc K k) ?n) (wrap_order ?n) (Default_IV, P) = (IV, R)" by fastforce
  have l: "length IV = 8" "length R = length P"
    using aes.unwrap_wrap(1) [OF _ n, of Default_IV K k] w by (simp_all add: Default_IV_def)
  have u: "fold (unwrap_step (aes_dec K k) ?n) (rev (wrap_order ?n)) (IV, R) = (Default_IV, P)"
    using aes.unwrap_wrap(2) [OF _ n, of Default_IV K k] w by (simp add: Default_IV_def)
  have s: "sub32 (length P + 8) 8 = length P" using sub32_le [of 8 "length P + 8"] assms(3) by simp
  show ?thesis
    using assms(1) w l u s
    by (intro exI [of _ "IV @ R"]) (simp add: AES_Key_Wrap_def AES_Key_Unwrap_def call_enc_eq call_dec_eq Let_def add.commute)
qed

text \<open>
  \<^bold>\<open>C13\<close>. Key wrap: whatever is wrapped is unwrapped to the same bytes, for every accepted key and every text of
  whole 8-byte blocks; the wrapped text is 8 bytes longer.
\<close>

theorem AES_Key_Wrap_roundtrip:
  assumes "key_length_ok k" and "8 dvd length P" and "length P + 8 < 2 ^ 32"
  shows "\<exists>C. AES_Key_Wrap True P (length P) K k = (0, C) \<and> length C = length P + 8 \<and>
             AES_Key_Unwrap True C (length C) K k = (0, P)"
  using aes_wrap_unwrap [OF assms, of K] by (metis append_Nil2)

theorem AES_Key_Wrap_roundtrip_witness:
  "\<exists>C. AES_Key_Wrap True (replicate 24 7) 24 fips_key 16 = (0, C) \<and> AES_Key_Unwrap True C 32 fips_key 16 = (0, replicate 24 7)"
  using AES_Key_Wrap_roundtrip [OF key128, of "replicate 24 7" fips_key] by auto

text \<open>
  Key unwrap has no integrity check: every text of 8 bytes or more is accepted with code 0,
  whatever the recovered initial value is, though RFC 3394 requires it to be compared with A6A6A6A6A6A6A6A6.
\<close>

theorem AES_Key_Unwrap_accepts_all:
  assumes "key_length_ok k" and "8 \<le> length C" and "length C < 2 ^ 32"
  shows "fst (AES_Key_Unwrap True C (length C) K k) = 0"
  using assms by (simp add: AES_Key_Unwrap_def Let_def split: prod.splits)

theorem AES_Key_Unwrap_accepts_all_witness:
  "fst (AES_Key_Unwrap True (replicate 24 0) 24 fips_key 16) = 0"
  using AES_Key_Unwrap_accepts_all [OF key128, of "replicate 24 0" fips_key] by simp

text \<open>
  CBC: decrypting what \<^verbatim>\<open>AES_CBC_Encrypt\<close> returned, into a buffer that can hold it, gives back the plain
  text and its length.
\<close>

theorem AES_CBC_roundtrip:
  assumes "key_length_ok k" and "length IV = 16" and "length P + 16 < 2 ^ 32" and "length P + 16 \<le> cap"
    and "length PT = pcap" and "length P + 16 \<le> pcap" and "pcap < 2 ^ 32"
  shows "\<exists>C PT'. AES_CBC_Encrypt P (length P) K k IV 16 cap = Some C \<and> length C = length P + (16 - length P mod 16) \<and>
           AES_CBC_Decrypt C (length C) K k IV 16 PT pcap = Done PT' (length P) \<and> take (length P) PT' = P"
proof -
  define pad where "pad = 16 - length P mod 16"
  let ?C = "cbc_enc_loop (aes_enc K k) IV P"
  have L: "length ?C = length P + pad" unfolding pad_def by (rule aes.cbc_inverse)
  have cp: "cbc_padding (length P) = replicate pad (of_nat pad)" by (simp add: cbc_padding_def pad_def)
  have D: "cbc_plain (aes_dec K k) IV ?C = P @ cbc_padding (length P)" by (rule aes.cbc_inverse) (rule assms)
  have pad: "0 < pad" "pad \<le> 16" by (simp_all add: pad_def)
  have enc: "AES_CBC_Encrypt P (length P) K k IV 16 cap = Some ?C"
    using assms pad add32_small [of "length P" pad] by (simp add: AES_CBC_Encrypt_def AES_CBC_IV_LENGTH_def call_enc_eq Let_def flip: pad_def)
  define PT' where "PT' = move_at PT 0 (P @ cbc_padding (length P))"
  have dv: "16 dvd length P + pad" unfolding pad_def by (rule pad_dvd)
  have at: "PT' ! (length P + pad - 1) = of_nat pad"
  proof -
    have "PT' ! (length P + pad - 1) = (P @ cbc_padding (length P)) ! (length P + (pad - 1))"
      using pad assms(5,6) unfolding PT'_def move_at_def by (simp add: nth_append cp)
    also have "\<dots> = replicate pad (of_nat pad) ! (pad - 1)" by (simp only: cp nth_append_length_plus)
    also have "\<dots> = of_nat pad" using pad by simp
    finally show ?thesis .
  qed
  have "unat (of_nat pad :: UINT8) = pad" using pad by (simp add: unsigned_of_nat take_bit_nat_eq_self)
  then have "sub32 (length P + pad) (unat (PT' ! (length P + pad - 1))) = length P"
    unfolding at using sub32_le [of pad "length P + pad"] pad assms(3) by simp
  moreover have "cbc_dec_loop K k pcap IV ?C PT 0 =
      Done PT' (sub32 (length P + pad) (unat (PT' ! (length P + pad - 1))))"
    using cbc_dec_loop_ok [OF assms(1,2), of ?C 0 pcap PT K] assms(5-7) dv pad L D by (simp add: PT'_def)
  ultimately have "AES_CBC_Decrypt ?C (length ?C) K k IV 16 PT pcap = Done PT' (length P)"
    using assms(1) dv L by (simp add: AES_CBC_Decrypt_def AES_CBC_IV_LENGTH_def)
  moreover have "take (length P) PT' = P" by (simp add: PT'_def move_at_def)
  ultimately show ?thesis using enc L unfolding pad_def by blast
qed

theorem AES_CBC_roundtrip_witness:
  "\<exists>C PT'. AES_CBC_Encrypt (replicate 20 5) 20 fips_key 16 (replicate 16 1) 16 64 = Some C \<and>
     AES_CBC_Decrypt C 32 fips_key 16 (replicate 16 1) 16 (replicate 64 0) 64 = Done PT' 20 \<and> take 20 PT' = replicate 20 5"
  using AES_CBC_roundtrip [OF key128, of "replicate 16 1" "replicate 20 5" 64 "replicate 64 0" 64 fips_key] by auto

text \<open>
  \<^verbatim>\<open>AES_CBC_Decrypt\<close> never compares the cipher text with the size of the output: on a cipher text of whole
  blocks it accesses memory outside the plain text buffer exactly when the buffer is smaller than
  the cipher text, or the cipher text is empty.
\<close>

theorem AES_CBC_Decrypt_overflow:
  assumes "key_length_ok k" and "length IV = 16" and "16 dvd length C" and "length PT = pcap" and "pcap < 2 ^ 32"
  shows "AES_CBC_Decrypt C (length C) K k IV 16 PT pcap = Overflow \<longleftrightarrow> pcap < length C \<or> C = []"
proof (cases "pcap < length C \<or> C = []")
  case True
  then have "cbc_dec_loop K k pcap IV C PT 0 = Overflow"
    using cbc_dec_loop_overflow [OF assms(1,3), of pcap 0 PT IV K] assms by (cases "C = []") (auto simp: cbc_dec_loop.simps [of _ _ _ _ "[]"])
  then show ?thesis using True assms by (auto simp: AES_CBC_Decrypt_def AES_CBC_IV_LENGTH_def)
next
  case False
  then show ?thesis
    using cbc_dec_loop_ok [OF assms(1-3), of 0 pcap PT K] assms
    by (auto simp: AES_CBC_Decrypt_def AES_CBC_IV_LENGTH_def)
qed

theorem AES_CBC_Decrypt_overflow_witness:
  "AES_CBC_Decrypt (replicate 32 0) 32 fips_key 16 (replicate 16 0) 16 (replicate 20 0) 20 = Overflow"
  using AES_CBC_Decrypt_overflow [OF key128, of "replicate 16 0" "replicate 32 0" "replicate 20 0" 20 fips_key] by simp

text \<open>
  The tag of \<^verbatim>\<open>AES_CCM_MAC\<close> is the one of NIST SP 800-38C: the CBC-MAC of the formatted blocks, for
  every nonce of 7 to 13 bytes, every payload whose length fits its field and associated data shorter than
  0xFF00 bytes.
\<close>

theorem AES_CCM_MAC_spec:
  assumes "key_length_ok k" and "7 \<le> length N" and "length N \<le> 13" and "length P < 2 ^ 32" and "length P < 256 ^ (15 - length N)"
    and "length A < 0xFF00"
  shows "AES_CCM_MAC P (length P) K k N (length N) A (length A) t =
         take t (cbc_mac (aes_enc K k) (ccm_spec_blocks P N A t) (replicate 16 0))"
proof -
  let ?E = "aes_enc K k" and ?B0 = "ccm_block0 (length P) N (length N) (length A) t"
  have L: "length ?B0 \<le> 16" using block0_spec [OF assms(2-5), of "length A" t] assms(3) by simp
  have a: "ccm_aad_loop ?E (ccm_aad_head (length A)) A m =
      (if A = [] then m else cbc_mac ?E (chunks (zero_pad (be_bytes 2 (length A) @ A))) m)" for m
  proof (cases "A = []")
    case True
    then show ?thesis by (simp add: ccm_aad_loop.simps)
  next
    case False
    then have "ccm_aad_head (length A) = be_bytes 2 (length A)" using assms(6) by (simp add: ccm_aad_head_def be_bytes_2)
    then show ?thesis using aad_loop_spec [OF False, of "be_bytes 2 (length A)"] False by simp
  qed
  have "AES_CCM_MAC P (length P) K k N (length N) A (length A) t =
      take t (cbc_mac ?E (chunks (zero_pad P)) (ccm_aad_loop ?E (ccm_aad_head (length A)) A (?E ?B0)))"
    using assms(1) by (simp add: AES_CCM_MAC_def call_enc_eq payload_loop_spec Let_def)
  also have "\<dots> = take t (cbc_mac ?E (?B0 # (if A = [] then [] else chunks (zero_pad (be_bytes 2 (length A) @ A))) @
      chunks (zero_pad P)) (replicate 16 0))"
    using L by (simp add: a cbc_mac_def)
  also have "?B0 # (if A = [] then [] else chunks (zero_pad (be_bytes 2 (length A) @ A))) @ chunks (zero_pad P) =
      ccm_spec_blocks P N A t"
    using block0_spec [OF assms(2-5), of "length A" t] by (simp add: ccm_spec_blocks_def)
  finally show ?thesis .
qed

theorem AES_CCM_MAC_spec_witness:
  "AES_CCM_MAC (replicate 20 1) 20 fips_key 16 (replicate 13 2) 13 (replicate 22 3) 22 8 =
   take 8 (cbc_mac (aes_enc fips_key 16) (ccm_spec_blocks (replicate 20 1) (replicate 13 2) (replicate 22 3) 8) (replicate 16 0))"
  using AES_CCM_MAC_spec [OF key128, of "replicate 13 2" "replicate 20 1" "replicate 22 3" fips_key 8] by simp

lemma ccm_decrypt_encrypt:
  assumes "length N = nl" and "7 \<le> nl" and "nl \<le> 13" and "ccm_mac_length_ok t" and "t \<le> length C" and "length C < 2 ^ 32"
    and "length C \<le> ccap" and "length C - t \<le> pcap"
  shows "AES_CCM_Decrypt C (length C) K 16 N nl A al t pcap = (0, P) \<longleftrightarrow>
         AES_CCM_Encrypt P (length P) K 16 N nl A al t ccap = (0, C)"
proof -
  let ?E = "aes_enc K 16" and ?c = "ccm_counter0 N nl" and ?n = "length C - t"
  let ?S = "take t (?E ?c)" and ?M = "\<lambda>P. AES_CCM_MAC P (length P) K 16 N nl A al t"
  have t: "4 \<le> t" "t \<le> 16" using assms(4) by (auto simp: ccm_mac_length_ok_def)
  have c: "length ?c = 16" using assms(1,3) by simp
  note ctr = aes.ctr_loop_twice [OF c] aes.ctr_loop_length [OF c]
  have lM: "length (?M P) = t" for P using t by (simp add: AES_CCM_MAC_length)
  have s: "sub32 (length C) t = ?n" using sub32_le [OF assms(5,6)] .
  have dec: "AES_CCM_Decrypt C (length C) K 16 N nl A al t pcap = (0, P) \<longleftrightarrow>
      P = ccm_ctr_loop ?E ?c (take ?n C) \<and> xor_bytes (take t (drop ?n C)) ?S = ?M P"
    using assms(2-5,8) s ctr(2) [of K 16 "take ?n C"]
    by (auto simp: AES_CCM_Decrypt_def AES_KEY128_LENGTH_def call_enc_eq Let_def)
  have enc: "AES_CCM_Encrypt P (length P) K 16 N nl A al t ccap = (0, C) \<longleftrightarrow>
      length P = ?n \<and> C = ccm_ctr_loop ?E ?c P @ xor_bytes (?M P) ?S"
  proof -
    have "length C = length P + t" if "C = ccm_ctr_loop ?E ?c P @ xor_bytes (?M P) ?S"
      using arg_cong [OF that, of length] t ctr(2) lM by simp
    then show ?thesis
      using assms(2-4,6,7) add32_small [of "length P" t] assms(5)
      by (auto simp: AES_CCM_Encrypt_def AES_KEY128_LENGTH_def call_enc_eq Let_def)
  qed
  have tt: "take t (drop ?n C) = drop ?n C" using assms(5) by simp
  have sw: "xor_bytes (drop ?n C) ?S = ?M P \<longleftrightarrow> drop ?n C = xor_bytes (?M P) ?S"
    using xor_bytes_swap [of "drop ?n C" ?S "?M P"] assms(5) t lM by simp
  have "P = ccm_ctr_loop ?E ?c (take ?n C) \<longleftrightarrow> length P = ?n \<and> take ?n C = ccm_ctr_loop ?E ?c P"
    using ctr [of K 16 "take ?n C"] ctr(1) [of K 16 P] assms(5) by auto
  moreover have "C = X @ Y \<longleftrightarrow> take ?n C = X \<and> drop ?n C = Y" if "length X = ?n" for X Y
    using that assms(5) by (metis append_eq_conv_conj append_take_drop_id)
  ultimately show ?thesis
    unfolding dec enc tt sw using ctr(2) [of K 16 P] by metis
qed

text \<open>
  \<^bold>\<open>C14\<close>. CCM decryption accepts exactly what CCM encryption produces: \<^verbatim>\<open>AES_CCM_Decrypt\<close> returns 0 and the plain
  text \<open>P\<close> if and only if \<^verbatim>\<open>AES_CCM_Encrypt\<close> on \<open>P\<close> returns 0 and the cipher text.
\<close>

theorem AES_CCM_Decrypt_iff_Encrypt:
  assumes "length N = nl" and "7 \<le> nl" and "nl \<le> 13" and "ccm_mac_length_ok t" and "t \<le> length C" and "length C < 2 ^ 32"
    and "length C \<le> ccap" and "length C - t \<le> pcap"
  shows "AES_CCM_Decrypt C (length C) K 16 N nl A al t pcap = (0, P) \<longleftrightarrow>
         AES_CCM_Encrypt P (length P) K 16 N nl A al t ccap = (0, C)"
  using assms by (rule ccm_decrypt_encrypt)

theorem AES_CCM_Decrypt_iff_Encrypt_witness:
  "AES_CCM_Decrypt (snd (AES_CCM_Encrypt (replicate 20 1) 20 fips_key 16 (replicate 13 2) 13 [] 0 8 64)) 28
     fips_key 16 (replicate 13 2) 13 [] 0 8 64 = (0, replicate 20 1)"
proof -
  let ?P = "replicate 20 1 :: bytes" and ?N = "replicate 13 2 :: bytes"
  define C where "C = snd (AES_CCM_Encrypt ?P 20 fips_key 16 ?N 13 [] 0 8 64)"
  have "length (ccm_counter0 ?N 13) = 16" by simp
  then have C: "AES_CCM_Encrypt ?P 20 fips_key 16 ?N 13 [] 0 8 64 = (0, C)" "length C = 28"
    by (simp_all add: C_def AES_CCM_Encrypt_def AES_KEY128_LENGTH_def ccm_mac_length_ok_def add32_def Let_def
        call_enc_eq aes.ctr_loop_length AES_CCM_MAC_length)
  have "AES_CCM_Decrypt C (length C) fips_key 16 ?N 13 [] 0 8 64 = (0, ?P)"
    by (rule AES_CCM_Decrypt_iff_Encrypt [THEN iffD2]) (use C in \<open>simp_all add: ccm_mac_length_ok_def\<close>)
  then show ?thesis using C(2) by (simp add: C_def)
qed

text \<open>
  The counter of CCM is one byte: after 256 blocks it wraps, and the key stream at distance 4096
  is the same, so a payload longer than 4096 bytes is encrypted with a repeated key stream.
\<close>

theorem AES_CCM_keystream_repeats:
  assumes "length N = nl" and "AES_CCM_Encrypt P (length P) K 16 N nl A al t ccap = (0, C)" and "i + 4096 < length P"
  shows "C ! (i + 4096) XOR P ! (i + 4096) = C ! i XOR P ! i"
proof -
  have nl: "nl \<le> 13" and C: "C = ccm_ctr_loop (aes_enc K 16) (ccm_counter0 N nl) P @
      xor_bytes (AES_CCM_MAC P (length P) K 16 N nl A al t) (take t (aes_enc K 16 (ccm_counter0 N nl)))"
    using assms(2) by (auto simp: AES_CCM_Encrypt_def AES_KEY128_LENGTH_def call_enc_eq Let_def split: if_splits)
  have c: "length (ccm_counter0 N nl) = 16" using assms(1) nl by simp
  show ?thesis
    using aes.ctr_loop_repeats [OF c assms(3), of K 16] assms(3) by (simp add: C nth_append aes.ctr_loop_length [OF c])
qed

theorem AES_CCM_keystream_repeats_witness:
  "let C = snd (AES_CCM_Encrypt (replicate 5000 1) 5000 fips_key 16 (replicate 13 2) 13 [] 0 8 6000)
   in C ! 4096 = C ! 0"
proof -
  define P :: bytes where "P = replicate 5000 1"
  define C where "C = snd (AES_CCM_Encrypt P 5000 fips_key 16 (replicate 13 2) 13 [] 0 8 6000)"
  have l: "length P = 5000" "P ! 4096 = 1" "P ! 0 = 1" by (simp_all add: P_def)
  have "AES_CCM_Encrypt P (length P) fips_key 16 (replicate 13 2) 13 [] 0 8 6000 = (0, C)"
    by (simp add: l C_def AES_CCM_Encrypt_def AES_KEY128_LENGTH_def ccm_mac_length_ok_def add32_def Let_def)
  from AES_CCM_keystream_repeats [OF _ this, of 0] have "C ! 4096 XOR 1 = C ! 0 XOR 1" by (simp add: l)
  then have "(C ! 4096 XOR 1) XOR 1 = (C ! 0 XOR 1) XOR 1" by simp
  then have "C ! 4096 = C ! 0" by (simp add: xor.assoc)
  then show ?thesis by (simp add: C_def P_def)
qed

subsection \<open>CMAC\<close>

text \<open>The value of a byte string, most significant byte first.\<close>

fun be_value :: "bytes \<Rightarrow> nat" where
  "be_value [] = 0"
| "be_value (b # bs) = unat b * 256 ^ length bs + be_value bs"

lemma digit_bound: "a < k \<Longrightarrow> r < M \<Longrightarrow> a * M + r < k * M" for a k r M :: nat
proof -
  assume "a < k" "r < M"
  then have "Suc a * M \<le> k * M" by (intro mult_le_mono1) simp
  then show ?thesis using \<open>r < M\<close> unfolding mult_Suc by linarith
qed

lemma be_value_bound: "be_value xs < 256 ^ length xs"
proof (induction xs)
  case (Cons b bs)
  have "unat b < 256" using unsigned_less [of b, where 'a = nat] by simp
  from digit_bound [OF this Cons] show ?case by simp
qed simp

lemma top_bit: "(c :: UINT8) AND 0x80 \<noteq> 0 \<longleftrightarrow> 128 \<le> unat c"
proof -
  have c: "unat c < 256" using unsigned_less [of c, where 'a = nat] by simp
  have "c AND 0x80 \<noteq> 0 \<longleftrightarrow> bit c 7" using and_exp_eq_0_iff_not_bit [of c 7] by simp
  also have "\<dots> \<longleftrightarrow> bit (unat c) 7" by (simp add: bit_unsigned_iff)
  also have "\<dots> \<longleftrightarrow> odd (unat c div 128)" by (simp add: bit_iff_odd)
  also have "\<dots> \<longleftrightarrow> 128 \<le> unat c" using c by (cases "unat c < 128") (auto simp: div_if)
  finally show ?thesis .
qed

lemma unat_push1: "unat (push_bit 1 (b :: UINT8)) = 2 * unat b mod 256"
  by (simp add: push_bit_eq_mult unat_word_ariths mult.commute)

lemma unat_shift_in: "unat (push_bit 1 (b :: UINT8) OR (if t then 1 else 0)) = 2 * unat b mod 256 + (if t then 1 else 0)"
proof -
  have "push_bit 1 b AND 1 = 0" by (simp add: and_one_eq even_iff_mod_2_eq_zero [symmetric] push_bit_eq_mult)
  then have "push_bit 1 b OR 1 = push_bit 1 b + 1" by (simp add: disjunctive_add_eq_or)
  moreover have "even (2 * unat b mod 256)" by (simp add: dvd_mod)
  then have "2 * unat b mod 256 + 1 < 256" by (metis Suc_eq_plus1 Suc_lessI even_Suc even_numeral mod_less_divisor zero_less_numeral)
  ultimately show ?thesis by (auto simp: unat_push1 unat_word_ariths mult.commute)
qed

lemma shift_value: "be_value (shift_left_bytes xs) = 2 * be_value xs mod 256 ^ length xs \<and> length (shift_left_bytes xs) = length xs"
proof (induction xs rule: shift_left_bytes.induct)
  case (3 b c bs)
  let ?M = "256 ^ length (c # bs) :: nat" and ?r = "be_value (c # bs)" and ?t = "c AND 0x80 \<noteq> 0"
  have r: "?r < ?M" by (rule be_value_bound)
  have "?t \<longleftrightarrow> ?M \<le> 2 * ?r"
  proof -
    let ?N = "256 ^ length bs :: nat"
    have v: "be_value bs < ?N" by (rule be_value_bound)
    have "128 \<le> unat c \<longleftrightarrow> 128 * ?N \<le> unat c * ?N + be_value bs"
    proof
      assume "128 \<le> unat c"
      then show "128 * ?N \<le> unat c * ?N + be_value bs" using mult_le_mono1 [of 128 "unat c" ?N] by linarith
    next
      assume a: "128 * ?N \<le> unat c * ?N + be_value bs"
      show "128 \<le> unat c"
      proof (rule ccontr)
        assume "\<not> 128 \<le> unat c"
        then have "Suc (unat c) * ?N \<le> 128 * ?N" by (intro mult_le_mono1) simp
        then show False using a v unfolding mult_Suc by linarith
      qed
    qed
    moreover have "?M \<le> 2 * ?r \<longleftrightarrow> 128 * ?N \<le> unat c * ?N + be_value bs" by simp linarith
    ultimately show ?thesis unfolding top_bit by blast
  qed
  then have m: "2 * ?r = (if ?t then 1 else 0) * ?M + 2 * ?r mod ?M"
    using r by (auto simp: mod_if)
  have b: "2 * unat b = 256 * (2 * unat b div 256) + 2 * unat b mod 256" by (rule mult_div_mod_eq [symmetric])
  have "2 * be_value (b # c # bs) = (2 * unat b) * ?M + 2 * ?r" by simp
  also have "\<dots> = 256 * ?M * (2 * unat b div 256) + ((2 * unat b mod 256 + (if ?t then 1 else 0)) * ?M + 2 * ?r mod ?M)"
    by (subst m, subst b) (simp add: algebra_simps)
  finally have "2 * be_value (b # c # bs) mod (256 * ?M) =
      ((2 * unat b mod 256 + (if ?t then 1 else 0)) * ?M + 2 * ?r mod ?M) mod (256 * ?M)" by simp
  also have "\<dots> = (2 * unat b mod 256 + (if ?t then 1 else 0)) * ?M + 2 * ?r mod ?M"
  proof (rule mod_less, rule digit_bound)
    show "2 * unat b mod 256 + (if ?t then 1 else 0) < 256"
      using unsigned_less [of "push_bit 1 b OR (if ?t then 1 else 0)", where 'a = nat] unfolding unat_shift_in by simp
    show "2 * ?r mod ?M < ?M" by simp
  qed
  finally have e: "2 * be_value (b # c # bs) mod (256 * ?M) = (2 * unat b mod 256 + (if ?t then 1 else 0)) * ?M + 2 * ?r mod ?M" .
  have "be_value (shift_left_bytes (b # c # bs)) =
      (2 * unat b mod 256 + (if ?t then 1 else 0)) * 256 ^ length (shift_left_bytes (c # bs)) + be_value (shift_left_bytes (c # bs))"
    unfolding shift_left_bytes.simps(3) be_value.simps(2) unat_shift_in ..
  then have "be_value (shift_left_bytes (b # c # bs)) = 2 * be_value (b # c # bs) mod (256 * ?M)"
    unfolding e using 3 by metis
  then show ?case using 3 by simp
next
  case (2 b)
  show ?case using unat_push1 [of b] by simp
qed simp

lemma be_value_append: "be_value (xs @ [b]) = 256 * be_value xs + unat b"
  by (induction xs) (simp_all add: algebra_simps)

lemma nat_xor_low: "b < 256 \<Longrightarrow> c < 256 \<Longrightarrow> (256 * h + b) XOR c = 256 * h + (b XOR c)" for b c h :: nat
proof -
  assume bc: "b < 256" "c < 256"
  have x: "b XOR c < 256" using bc take_bit_nat_eq_self_iff [of 8 "b XOR c"] take_bit_nat_eq_self_iff [of 8 b] take_bit_nat_eq_self_iff [of 8 c]
    by (simp add: take_bit_xor)
  have "(256 * h + b) XOR c = 256 * (((256 * h + b) XOR c) div 256) + ((256 * h + b) XOR c) mod 256" by simp
  also have "((256 * h + b) XOR c) div 256 = drop_bit 8 (256 * h + b) XOR drop_bit 8 c"
    by (simp only: drop_bit_xor [symmetric]) (simp add: drop_bit_eq_div)
  also have "\<dots> = h" using bc by (simp add: drop_bit_eq_div)
  also have "((256 * h + b) XOR c) mod 256 = take_bit 8 (256 * h + b) XOR take_bit 8 c"
    by (simp only: take_bit_xor [symmetric]) (simp add: take_bit_eq_mod)
  also have "\<dots> = b XOR c" using bc by (simp add: take_bit_eq_mod)
  finally show ?thesis .
qed

text \<open>
  The subkey step of CMAC, done byte by byte with the carry of the next byte, is the doubling of RFC 4493
  on the 128-bit value: a shift by one modulo 2^128, with 0x87 added when the top bit was set.
\<close>

theorem double_block_value:
  assumes "length L = 16"
  shows "length (double_block L) = 16 \<and>
    be_value (double_block L) = (2 * be_value L mod 2 ^ 128) XOR (if 2 ^ 127 \<le> be_value L then 0x87 else 0)"
proof -
  let ?S = "shift_left_bytes L"
  have S: "length ?S = 16" "be_value ?S = 2 * be_value L mod 256 ^ 16" using shift_value [of L] assms by simp_all
  obtain s b where sb: "?S = s @ [b]" "length s = 15" using S(1) by (cases ?S rule: rev_cases) auto
  obtain c cs where c: "L = c # cs" "length cs = 15" using assms by (cases L) auto
  have "xor_bytes ?S Const_Rb = s @ [b XOR 0x87]"
    using sb by (simp add: Const_Rb_def xor_bytes_append) (simp add: xor_bytes_def)
  moreover have "unat (b XOR 0x87) = unat b XOR 0x87" by (simp add: unsigned_xor_eq)
  ultimately have x: "be_value (xor_bytes ?S Const_Rb) = be_value ?S XOR 0x87" "length (xor_bytes ?S Const_Rb) = 16"
    using sb unsigned_less [of b, where 'a = nat] by (simp_all add: be_value_append nat_xor_low)
  have "128 \<le> unat c \<longleftrightarrow> 2 ^ 127 \<le> be_value L"
  proof
    assume "128 \<le> unat c"
    then show "2 ^ 127 \<le> be_value L" using mult_le_mono1 [of 128 "unat c" "256 ^ 15"] c by simp
  next
    assume a: "2 ^ 127 \<le> be_value L"
    show "128 \<le> unat c"
    proof (rule ccontr)
      assume "\<not> 128 \<le> unat c"
      then have "Suc (unat c) * 256 ^ 15 \<le> 128 * 256 ^ 15" by (intro mult_le_mono1) simp
      then show False using a c be_value_bound [of cs] by simp
    qed
  qed
  then have "L ! 0 AND 0x80 > 0 \<longleftrightarrow> 2 ^ 127 \<le> be_value L" using top_bit [of c] c by (simp add: word_gt_0)
  moreover have "(256 :: nat) ^ 16 = 2 ^ 128" by simp
  ultimately show ?thesis using x S by (simp add: double_block_def)
qed

theorem double_block_value_witness:
  "be_value (double_block (0x80 # replicate 15 0)) = 0x87"
proof -
  have z: "be_value (replicate n 0) = 0" for n by (induction n) simp_all
  then show ?thesis using double_block_value [of "0x80 # replicate 15 0"] by simp
qed

text \<open>Evaluation on the examples of RFC 4493, section 4, whose key is the one of FIPS 197, appendix B.\<close>

lemmas aes_eval = enc_rounds_def enc_round_def block_to_state_def state_to_block_def AES_AddRoundKey_def AES_SubBytes_def
  AES_ShiftRows_def AES_MixColumns_def on_columns_eval mix_eval Let_def sbox_eval xtime_eval words_eval upt4 upt_conv_Cons

lemma cmac_L: "aes_enc fips_key 16 (replicate 16 0) = [0x7d, 0xf7, 0x6b, 0x0c, 0x1a, 0xb8, 0x99, 0xb3, 0x3e, 0x42, 0xf0, 0x47, 0xb9, 0x1b, 0x54, 0x6f]"
proof -
  have z: "replicate 16 (0 :: UINT8) = [0, 0, 0, 0, 0, 0, 0, 0, 0, 0, 0, 0, 0, 0, 0, 0]" by (simp add: numeral_eq_Suc)
  show ?thesis unfolding aes_enc_def fips_words z by (simp add: aes_eval)
qed

lemma cmac_subkeys:
  "AES_CMAC_GenerateSubKey fips_key 16 (replicate 16 0) (replicate 16 0) =
    ([0xfb, 0xee, 0xd6, 0x18, 0x35, 0x71, 0x33, 0x66, 0x7c, 0x85, 0xe0, 0x8f, 0x72, 0x36, 0xa8, 0xde],
     [0xf7, 0xdd, 0xac, 0x30, 0x6a, 0xe2, 0x66, 0xcc, 0xf9, 0x0b, 0xc1, 0x1e, 0xe4, 0x6d, 0x51, 0x3b])"
proof -
  have rb: "Const_Rb = [0, 0, 0, 0, 0, 0, 0, 0, 0, 0, 0, 0, 0, 0, 0, 0x87]" by (simp add: Const_Rb_def numeral_eq_Suc)
  show ?thesis
    by (simp add: AES_CMAC_GenerateSubKey_def AES_KEY128_LENGTH_def RT_AES_Encrypt_eq Const_Zero_def cmac_L move_at_def Let_def)
       (simp add: double_block_def rb xor_bytes_def)
qed

lemma cmac_last: "aes_enc fips_key 16 [0x77, 0xdd, 0xac, 0x30, 0x6a, 0xe2, 0x66, 0xcc, 0xf9, 0x0b, 0xc1, 0x1e, 0xe4, 0x6d, 0x51, 0x3b] = [0xbb, 0x1d, 0x69, 0x29, 0xe9, 0x59, 0x37, 0x28, 0x7f, 0xa3, 0x7d, 0x12, 0x9b, 0x75, 0x67, 0x46]"
  unfolding aes_enc_def fips_words by (simp add: aes_eval)

text \<open>
  Example 1 of RFC 4493: the subkeys and the tag of the empty message.
\<close>

theorem AES_CMAC_rfc4493:
  "AES_CMAC_GenerateSubKey fips_key 16 (replicate 16 0) (replicate 16 0) =
    ([0xfb, 0xee, 0xd6, 0x18, 0x35, 0x71, 0x33, 0x66, 0x7c, 0x85, 0xe0, 0x8f, 0x72, 0x36, 0xa8, 0xde],
     [0xf7, 0xdd, 0xac, 0x30, 0x6a, 0xe2, 0x66, 0xcc, 0xf9, 0x0b, 0xc1, 0x1e, 0xe4, 0x6d, 0x51, 0x3b]) \<and>
   AES_CMAC [] 0 fips_key 16 (replicate 16 0) 16 = ([0xbb, 0x1d, 0x69, 0x29, 0xe9, 0x59, 0x37, 0x28, 0x7f, 0xa3, 0x7d, 0x12, 0x9b, 0x75, 0x67, 0x46], 16)"
proof -
  have z: "xor_bytes (0x80 # replicate 15 0) [0xf7, 0xdd, 0xac, 0x30, 0x6a, 0xe2, 0x66, 0xcc, 0xf9, 0x0b, 0xc1, 0x1e, 0xe4, 0x6d, 0x51, 0x3b] = [0x77, 0xdd, 0xac, 0x30, 0x6a, 0xe2, 0x66, 0xcc, 0xf9, 0x0b, 0xc1, 0x1e, 0xe4, 0x6d, 0x51, 0x3b]"
    by (simp add: xor_bytes_def numeral_eq_Suc)
  show ?thesis
    using cmac_subkeys cmac_last
    by (simp add: AES_CMAC_def AES_MAC_LENGTH_def AES_KEY128_LENGTH_def cmac_loop.simps Const_Zero_def z RT_AES_Encrypt_eq move_at_def)
qed

end
