(* ===== verification/Aes_Soft.thy ===== *)
theory Aes_Soft
  imports Aes
begin

text \<open>
  The second AES of the driver, \<^verbatim>\<open>aes128k128d\<close> of \<^verbatim>\<open>common/cmm_aes.c\<close>, which the legacy CCMP and the CKIP code
  use: a block cipher on 16-byte arrays that computes the round keys as it goes. The theorem shows that it is
  the same function as \<^verbatim>\<open>RT_AES_Encrypt\<close> of \<^verbatim>\<open>common/crypt_aes.c\<close> with a 128-bit key.
\<close>

section \<open>Definitions\<close>

definition SboxTable :: "UINT8 list" where
  "SboxTable = [
    0x63, 0x7c, 0x77, 0x7b, 0xf2, 0x6b, 0x6f, 0xc5, 0x30, 0x01, 0x67, 0x2b, 0xfe, 0xd7, 0xab, 0x76,
    0xca, 0x82, 0xc9, 0x7d, 0xfa, 0x59, 0x47, 0xf0, 0xad, 0xd4, 0xa2, 0xaf, 0x9c, 0xa4, 0x72, 0xc0,
    0xb7, 0xfd, 0x93, 0x26, 0x36, 0x3f, 0xf7, 0xcc, 0x34, 0xa5, 0xe5, 0xf1, 0x71, 0xd8, 0x31, 0x15,
    0x04, 0xc7, 0x23, 0xc3, 0x18, 0x96, 0x05, 0x9a, 0x07, 0x12, 0x80, 0xe2, 0xeb, 0x27, 0xb2, 0x75,
    0x09, 0x83, 0x2c, 0x1a, 0x1b, 0x6e, 0x5a, 0xa0, 0x52, 0x3b, 0xd6, 0xb3, 0x29, 0xe3, 0x2f, 0x84,
    0x53, 0xd1, 0x00, 0xed, 0x20, 0xfc, 0xb1, 0x5b, 0x6a, 0xcb, 0xbe, 0x39, 0x4a, 0x4c, 0x58, 0xcf,
    0xd0, 0xef, 0xaa, 0xfb, 0x43, 0x4d, 0x33, 0x85, 0x45, 0xf9, 0x02, 0x7f, 0x50, 0x3c, 0x9f, 0xa8,
    0x51, 0xa3, 0x40, 0x8f, 0x92, 0x9d, 0x38, 0xf5, 0xbc, 0xb6, 0xda, 0x21, 0x10, 0xff, 0xf3, 0xd2,
    0xcd, 0x0c, 0x13, 0xec, 0x5f, 0x97, 0x44, 0x17, 0xc4, 0xa7, 0x7e, 0x3d, 0x64, 0x5d, 0x19, 0x73,
    0x60, 0x81, 0x4f, 0xdc, 0x22, 0x2a, 0x90, 0x88, 0x46, 0xee, 0xb8, 0x14, 0xde, 0x5e, 0x0b, 0xdb,
    0xe0, 0x32, 0x3a, 0x0a, 0x49, 0x06, 0x24, 0x5c, 0xc2, 0xd3, 0xac, 0x62, 0x91, 0x95, 0xe4, 0x79,
    0xe7, 0xc8, 0x37, 0x6d, 0x8d, 0xd5, 0x4e, 0xa9, 0x6c, 0x56, 0xf4, 0xea, 0x65, 0x7a, 0xae, 0x08,
    0xba, 0x78, 0x25, 0x2e, 0x1c, 0xa6, 0xb4, 0xc6, 0xe8, 0xdd, 0x74, 0x1f, 0x4b, 0xbd, 0x8b, 0x8a,
    0x70, 0x3e, 0xb5, 0x66, 0x48, 0x03, 0xf6, 0x0e, 0x61, 0x35, 0x57, 0xb9, 0x86, 0xc1, 0x1d, 0x9e,
    0xe1, 0xf8, 0x98, 0x11, 0x69, 0xd9, 0x8e, 0x94, 0x9b, 0x1e, 0x87, 0xe9, 0xce, 0x55, 0x28, 0xdf,
    0x8c, 0xa1, 0x89, 0x0d, 0xbf, 0xe6, 0x42, 0x68, 0x41, 0x99, 0x2d, 0x0f, 0xb0, 0x54, 0xbb, 0x16]"

definition RTMPCkipSbox :: "UINT8 \<Rightarrow> UINT8" where
  "RTMPCkipSbox a = SboxTable ! unat a"

definition xor_32 :: "bytes \<Rightarrow> bytes \<Rightarrow> bytes" where
  "xor_32 a b = map (\<lambda>i. a ! i XOR b ! i) [0..<4]"

definition xor_128 :: "bytes \<Rightarrow> bytes \<Rightarrow> bytes" where
  "xor_128 a b = map (\<lambda>i. a ! i XOR b ! i) [0..<16]"

definition rcon_table :: "UINT8 list" where
  "rcon_table = [0x01, 0x02, 0x04, 0x08, 0x10, 0x20, 0x40, 0x80, 0x1b, 0x36, 0x36, 0x36]"

definition next_key :: "bytes \<Rightarrow> nat \<Rightarrow> bytes" where
  "next_key key rnd =
     (let sbox_key = [RTMPCkipSbox (key ! 13), RTMPCkipSbox (key ! 14), RTMPCkipSbox (key ! 15), RTMPCkipSbox (key ! 12)];
          k0 = xor_32 (take 4 key) sbox_key;
          k0 = k0[0 := k0 ! 0 XOR rcon_table ! rnd];
          k1 = xor_32 (take 4 (drop 4 key)) k0;
          k2 = xor_32 (take 4 (drop 8 key)) k1;
          k3 = xor_32 (take 4 (drop 12 key)) k2
      in k0 @ k1 @ k2 @ k3)"

definition byte_sub :: "bytes \<Rightarrow> bytes" where
  "byte_sub b = map (\<lambda>i. RTMPCkipSbox (b ! i)) [0..<16]"

definition shift_row :: "bytes \<Rightarrow> bytes" where
  "shift_row b = [b ! 0, b ! 5, b ! 10, b ! 15, b ! 4, b ! 9, b ! 14, b ! 3,
                  b ! 8, b ! 13, b ! 2, b ! 7, b ! 12, b ! 1, b ! 6, b ! 11]"

definition shift_left_step :: "nat \<Rightarrow> bytes \<Rightarrow> bytes" where
  "shift_left_step i a = (let a = a[i := push_bit 1 (a ! i)]
     in if a ! (i - 1) AND 0x80 = 0x80 then a[i := a ! i OR 0x01] else a)"

definition mix_column_bytes :: "bytes \<Rightarrow> bytes" where
  "mix_column_bytes b =
     (let add1b = map (\<lambda>i. if b ! i AND 0x80 = 0x80 then 0x1b else 0x00) [0..<4];
          swap_halfs = [b ! 2, b ! 3, b ! 0, b ! 1];
          rotl = [b ! 3, b ! 0, b ! 1, b ! 2];
          andf7 = [b ! 0 AND 0x7f, b ! 1 AND 0x7f, b ! 2 AND 0x7f, b ! 3 AND 0x7f];
          andf7 = fold shift_left_step [3, 2, 1] andf7;
          andf7 = andf7[0 := push_bit 1 (andf7 ! 0) AND 0xfe];
          add1bf7 = xor_32 add1b andf7;
          rotr = xor_32 b add1bf7;
          rotr = [rotr ! 1, rotr ! 2, rotr ! 3, rotr ! 0];
          temp = xor_32 add1bf7 rotr;
          tempb = xor_32 swap_halfs rotl
      in xor_32 temp tempb)"

definition aes_soft_round :: "nat \<Rightarrow> bytes \<times> bytes \<Rightarrow> bytes \<times> bytes" where
  "aes_soft_round rnd KC = (case KC of (round_key, c) \<Rightarrow>
     let b = shift_row (byte_sub c);
         a = mix_column_bytes (take 4 b) @ mix_column_bytes (take 4 (drop 4 b))
             @ mix_column_bytes (take 4 (drop 8 b)) @ mix_column_bytes (take 4 (drop 12 b))
     in (next_key round_key rnd, xor_128 a round_key))"

definition aes128k128d :: "bytes \<Rightarrow> bytes \<Rightarrow> bytes" where
  "aes128k128d key data =
     (let round_key = map (\<lambda>i. key ! i) [0..<16];
          KC = fold aes_soft_round [1..<10] (next_key round_key 0, xor_128 round_key data)
      in xor_128 (shift_row (byte_sub (snd KC))) (fst KC))"

section \<open>The operations agree\<close>

lemma SboxTable_eq: "SboxTable = aes_sbox_enc"
  by (simp add: SboxTable_def aes_sbox_enc_def)

lemma upt16: "[0..<16] = [0, 1, 2, 3, 4, 5, 6, 7, 8, 9, 10, 11, 12, 13, 14, 15::nat]"
  by (simp add: upt_conv_Cons)

lemma list16: "length xs = 16 \<longleftrightarrow> (\<exists>a b c d e f g h i j k l m n p q. xs = [a, b, c, d, e, f, g, h, i, j, k, l, m, n, p, q])"
  by (auto simp: numeral_eq_Suc length_Suc_conv)

lemma to_state_explicit: "block_to_state [a, b, c, d, e, f, g, h, i, j, k, l, m, n, p, q] =
    [[a, e, i, m], [b, f, j, n], [c, g, k, p], [d, h, l, q]]"
  by (simp add: block_to_state_def upt4)

lemma length_ops [simp, len_simps]:
  "length (byte_sub b) = 16" "length (shift_row b) = 16" "length (xor_128 a b) = 16" "length (xor_32 a b) = 4"
  by (simp_all add: byte_sub_def shift_row_def xor_128_def xor_32_def)

lemma length_mix_column_bytes [simp, len_simps]: "length (mix_column_bytes c) = 4"
  unfolding mix_column_bytes_def Let_def by (rule length_ops)

lemma byte_sub_state: "length b = 16 \<Longrightarrow> block_to_state (byte_sub b) = AES_SubBytes (block_to_state b)"
  by (auto simp: list16 byte_sub_def upt16 to_state_explicit AES_SubBytes_def RTMPCkipSbox_def SboxTable_eq)

lemma shift_row_state: "length b = 16 \<Longrightarrow> block_to_state (shift_row b) = AES_ShiftRows (block_to_state b)"
  by (auto simp: list16 shift_row_def to_state_explicit AES_ShiftRows_def)

lemma and_0x80: "b AND 0x80 = 0x80 \<longleftrightarrow> bit b 7" for b :: UINT8
proof -
  have "b AND 2 ^ k = (if bit b k then 2 ^ k else 0)" for k
    by (rule bit_word_eqI) (auto simp: bit_and_iff bit_exp_iff)
  from this[of 7] show ?thesis
    by simp
qed

lemma push_and_mask: "push_bit n (b AND mask k) = push_bit n b" "push_bit n b AND NOT (mask n) = push_bit n b"
  if "LENGTH('a) = n + k" for b :: "'a :: len word"
proof -
  show "push_bit n (b AND mask k) = push_bit n b"
    by (rule bit_word_eqI) (use that in \<open>auto simp: bit_and_iff bit_push_bit_iff bit_mask_iff\<close>)
  show "push_bit n b AND NOT (mask n) = push_bit n b"
    by (rule bit_word_eqI) (auto simp: bit_and_iff bit_push_bit_iff bit_mask_iff bit_not_iff)
qed

lemma shift_7f: "push_bit 1 (b AND 0x7f) = push_bit 1 b" "\<not> bit (b AND 0x7f) 7" "push_bit 1 b AND 0xfe = push_bit 1 b"
  for b :: UINT8
proof -
  have m: "(0x7f :: UINT8) = mask 7" "(0xfe :: UINT8) = NOT (mask 1)"
    by (simp_all add: mask_eq_exp_minus_1)
  show "push_bit 1 (b AND 0x7f) = push_bit 1 b" "push_bit 1 b AND 0xfe = push_bit 1 b"
    unfolding m by (rule push_and_mask; simp)+
  show "\<not> bit (b AND 0x7f) 7"
    unfolding m by (simp add: bit_and_iff bit_mask_iff)
qed

lemma shift_left_step_clear:
  "i < length a \<Longrightarrow> 0 < i \<Longrightarrow> \<not> bit (a ! (i - 1)) 7 \<Longrightarrow> shift_left_step i a = a[i := push_bit 1 (a ! i)]"
  by (simp add: shift_left_step_def and_0x80 Let_def)

lemma shift_loop:
  "fold shift_left_step [3, 2, 1] [a AND 0x7f, b AND 0x7f, c AND 0x7f, d AND 0x7f]
    = [a AND 0x7f, push_bit 1 b, push_bit 1 c, push_bit 1 d]"
proof -
  have f: "fold g [3, 2, 1] x = g 1 (g 2 (g 3 x))" for g :: "nat \<Rightarrow> bytes \<Rightarrow> bytes" and x
    by simp
  show ?thesis
    unfolding f using shift_7f(1)[of b] shift_7f(1)[of c] shift_7f(1)[of d]
    by (simp add: shift_left_step_clear shift_7f(2))
qed

lemma xtime_soft: "(if b AND 0x80 = 0x80 then 0x1b else 0x00) XOR push_bit 1 b = xtime b" for b :: UINT8
  by (simp only: xtime_def and_0x80 xor.commute)

lemma xor_32_explicit: "xor_32 [a, b, c, d] [e, f, g, h] = [a XOR e, b XOR f, c XOR g, d XOR h]"
  by (simp add: xor_32_def upt4)

lemma mix_column_soft: "mix_column_bytes [a, b, c, d] = mix_column a b c d"
proof -
  define A B C D where "A = xtime a" and "B = xtime b" and "C = xtime c" and "D = xtime d"
  have l: "map (\<lambda>i. if [a, b, c, d] ! i AND 0x80 = 0x80 then 0x1b else 0x00) [0..<4]
      = [if a AND 0x80 = 0x80 then 0x1b else 0x00, if b AND 0x80 = 0x80 then 0x1b else 0x00,
         if c AND 0x80 = 0x80 then 0x1b else 0x00, if d AND 0x80 = 0x80 then 0x1b else (0x00 :: UINT8)]"
    by (simp add: upt4)
  have n: "[a, b, c, d] ! 0 = a" "[a, b, c, d] ! 1 = b" "[a, b, c, d] ! 2 = c" "[a, b, c, d] ! 3 = d" for a b c d :: UINT8
    by simp_all
  have u: "[x, y, z, w][0 := v] = [v, y, z, w]" for x y z w v :: UINT8
    by simp
  have "mix_column_bytes [a, b, c, d] =
      [(A XOR (b XOR B)) XOR (c XOR d), (B XOR (c XOR C)) XOR (d XOR a), (C XOR (d XOR D)) XOR (a XOR b), (D XOR (a XOR A)) XOR (b XOR c)]"
    unfolding mix_column_bytes_def l n shift_loop Let_def u shift_7f xor_32_explicit xtime_soft A_def B_def C_def D_def ..
  also have "\<dots> = mix_column a b c d"
    unfolding mix_eval A_def[symmetric] B_def[symmetric] C_def[symmetric] D_def[symmetric]
    by (simp add: xor.assoc xor.commute xor.left_commute)
  finally show ?thesis .
qed

lemma mix_state:
  assumes "length b = 16"
  shows "block_to_state (mix_column_bytes (take 4 b) @ mix_column_bytes (take 4 (drop 4 b))
      @ mix_column_bytes (take 4 (drop 8 b)) @ mix_column_bytes (take 4 (drop 12 b))) = AES_MixColumns (block_to_state b)"
proof -
  obtain a b' c d e f g h i j k l m n p q where b: "b = [a, b', c, d, e, f, g, h, i, j, k, l, m, n, p, q]"
    using assms by (auto simp: list16)
  have t: "take 4 b = [a, b', c, d]" "take 4 (drop 4 b) = [e, f, g, h]" "take 4 (drop 8 b) = [i, j, k, l]"
    "take 4 (drop 12 b) = [m, n, p, q]"
    by (simp_all add: b)
  have s: "\<exists>x y z w. mix_column a b c d = [x, y, z, w]" for a b c d
    by (simp add: mix_column_def)
  obtain x1 y1 z1 w1 x2 y2 z2 w2 x3 y3 z3 w3 x4 y4 z4 w4 where
    m: "mix_column a b' c d = [x1, y1, z1, w1]" "mix_column e f g h = [x2, y2, z2, w2]"
      "mix_column i j k l = [x3, y3, z3, w3]" "mix_column m n p q = [x4, y4, z4, w4]"
    using s[of a b' c d] s[of e f g h] s[of i j k l] s[of m n p q] by blast
  have r: "AES_MixColumns (block_to_state b) = [[x1, x2, x3, x4], [y1, y2, y3, y4], [z1, z2, z3, z4], [w1, w2, w3, w4]]"
    unfolding b to_state_explicit AES_MixColumns_def on_columns_eval m Let_def by simp
  show ?thesis
    unfolding t mix_column_soft m r append_Cons append_Nil to_state_explicit ..
qed

section \<open>The round keys agree\<close>

definition round_words :: "key_words \<Rightarrow> nat \<Rightarrow> bytes" where
  "round_words W r = W ! (4 * r) @ W ! (4 * r + 1) @ W ! (4 * r + 2) @ W ! (4 * r + 3)"

lemma xor_round_state:
  assumes "length b = 16" and "\<And>c. c < 4 \<Longrightarrow> length (W ! (4 * r + c)) = 4"
  shows "block_to_state (xor_128 b (round_words W r)) = AES_AddRoundKey W r (block_to_state b)"
proof -
  obtain a b' c d e f g h i j k l m n p q where b: "b = [a, b', c, d, e, f, g, h, i, j, k, l, m, n, p, q]"
    using assms(1) by (auto simp: list16)
  obtain x1 y1 z1 w1 x2 y2 z2 w2 x3 y3 z3 w3 x4 y4 z4 w4 where
    m: "W ! (4 * r) = [x1, y1, z1, w1]" "W ! (4 * r + 1) = [x2, y2, z2, w2]"
      "W ! (4 * r + 2) = [x3, y3, z3, w3]" "W ! (4 * r + 3) = [x4, y4, z4, w4]"
    using assms(2)[of 0] assms(2)[of 1] assms(2)[of 2] assms(2)[of 3] by (auto simp: list4)
  have "xor_128 b (round_words W r) = [a XOR x1, b' XOR y1, c XOR z1, d XOR w1, e XOR x2, f XOR y2, g XOR z2, h XOR w2,
      i XOR x3, j XOR y3, k XOR z3, l XOR w3, m XOR x4, n XOR y4, p XOR z4, q XOR w4]"
    unfolding round_words_def m b xor_128_def upt16 by simp
  moreover have "AES_AddRoundKey W r [[a, e, i, m], [b', f, j, n], [c, g, k, p], [d, h, l, q]] =
    [[a XOR x1, e XOR x2, i XOR x3, m XOR x4], [b' XOR y1, f XOR y2, j XOR y3, n XOR y4],
     [c XOR z1, g XOR z2, k XOR z3, p XOR z4], [d XOR w1, h XOR w2, l XOR w3, q XOR w4]]"
    using m by (simp add: AES_AddRoundKey_def upt4 mult.commute)
  ultimately show ?thesis
    by (simp only: b to_state_explicit)
qed

lemma expand_nth:
  assumes "length W0 = n" and "0 < n" and "n \<le> m"
  shows "length (fold (key_step n) [n..<m] W0) = m
    \<and> (\<forall>i < n. fold (key_step n) [n..<m] W0 ! i = W0 ! i)
    \<and> (\<forall>i. n \<le> i \<and> i < m \<longrightarrow> fold (key_step n) [n..<m] W0 ! i
         = xor_bytes (fold (key_step n) [n..<m] W0 ! (i - n)) (key_temp n (fold (key_step n) [n..<m] W0) i))"
  using assms(3)
proof (induction m rule: dec_induct)
  case (step m)
  define W where "W = fold (key_step n) [n..<m] W0"
  have W: "length W = m" "\<And>i. i < n \<Longrightarrow> W ! i = W0 ! i"
    "\<And>i. n \<le> i \<Longrightarrow> i < m \<Longrightarrow> W ! i = xor_bytes (W ! (i - n)) (key_temp n W i)"
    using step.IH by (simp_all add: W_def)
  have S: "fold (key_step n) [n..<Suc m] W0 = W @ [xor_bytes (W ! (m - n)) (key_temp n W m)]"
    using step.hyps by (simp add: W_def key_step_def)
  have t: "key_temp n (W @ [x]) i = key_temp n W i" if "0 < i" "i \<le> m" for i x
  proof -
    have "i - 1 < length W"
      using that W(1) by linarith
    then have "(W @ [x]) ! (i - 1) = W ! (i - 1)"
      by (simp add: nth_append)
    then show ?thesis
      unfolding key_temp_def by (simp only:)
  qed
  define x where "x = xor_bytes (W ! (m - n)) (key_temp n W m)"
  have n: "(W @ [x]) ! j = W ! j" if "j < m" for j
    using that W(1) by (simp add: nth_append)
  have "(W @ [x]) ! i = xor_bytes ((W @ [x]) ! (i - n)) (key_temp n (W @ [x]) i)" if i: "n \<le> i" "i < Suc m" for i
  proof (cases "i < m")
    case True
    have "i - n < m"
      using True by simp
    moreover have "key_temp n (W @ [x]) i = key_temp n W i"
      using i True assms(2) by (intro t) simp_all
    ultimately show ?thesis
      using W(3)[OF i(1) True] n[OF True] n[of "i - n"] by argo
  next
    case False
    then have "i = m"
      using i by simp
    moreover have "(W @ [x]) ! m = x"
      using W(1) by (simp add: nth_append)
    moreover have "(W @ [x]) ! (m - n) = W ! (m - n)"
      using step.hyps assms(2) by (intro n) simp
    moreover have "key_temp n (W @ [x]) m = key_temp n W m"
      using step.hyps assms(2) by (intro t) simp_all
    ultimately show ?thesis
      by (simp only: x_def)
  qed
  moreover have "(W @ [x]) ! i = W0 ! i" if "i < n" for i
    using that W(2) n[of i] step.hyps by simp
  ultimately show ?case
    unfolding S x_def[symmetric] using W(1) by simp
qed (use assms in auto)

lemma words_128:
  assumes "length key = 16"
  defines "W \<equiv> RT_AES_KeyExpansion key 16"
  shows "i < 44 \<Longrightarrow> length (W ! i) = 4" and "round_words W 0 = key"
    and "4 \<le> i \<Longrightarrow> i < 44 \<Longrightarrow> W ! i = xor_bytes (W ! (i - 4)) (key_temp 4 W i)"
proof -
  define W0 where "W0 = map (\<lambda>i. [key ! (4 * i), key ! (4 * i + 1), key ! (4 * i + 2), key ! (4 * i + 3)]) [0..<4]"
  have W: "W = fold (key_step 4) [4..<44] W0"
    by (simp add: W_def RT_AES_KeyExpansion_def W0_def)
  note E = expand_nth[of W0 4 44, folded W]
  have "length W0 = 4"
    by (simp add: W0_def)
  then have L: "length W = 44" "\<And>i. i < 4 \<Longrightarrow> W ! i = W0 ! i"
    "\<And>i. 4 \<le> i \<Longrightarrow> i < 44 \<Longrightarrow> W ! i = xor_bytes (W ! (i - 4)) (key_temp 4 W i)"
    using E by simp_all
  then show "4 \<le> i \<Longrightarrow> i < 44 \<Longrightarrow> W ! i = xor_bytes (W ! (i - 4)) (key_temp 4 W i)"
    by blast
  have "\<forall>w \<in> set (fold (key_step 4) [4..<4 + 40] W0). length w = 4"
    by (rule fold_key_step_words) (auto simp: W0_def)
  moreover have "4 + 40 = (44 :: nat)"
    by simp
  ultimately have "\<forall>w \<in> set W. length w = 4"
    unfolding W by (simp only:)
  then show "i < 44 \<Longrightarrow> length (W ! i) = 4"
    using L(1) by simp
  show "round_words W 0 = key"
    using assms(1) by (auto simp: round_words_def L(2) W0_def list16)
qed

lemma rcon_soft: "r < 10 \<Longrightarrow> rcon_bytes (aes_rcon ! (r + 1)) = [rcon_table ! r, 0, 0, 0]"
proof -
  have "map (\<lambda>r. rcon_bytes (aes_rcon ! (r + 1))) [0, 1, 2, 3, 4, 5, 6, 7, 8, 9]
      = map (\<lambda>r. [rcon_table ! r, 0, 0, 0]) [0, 1, 2, 3, 4, 5, 6, 7, 8, 9]"
    by (simp add: rcon_bytes_def aes_rcon_def rcon_table_def)
  then have "\<forall>r \<in> {0, 1, 2, 3, 4, 5, 6, 7, 8, 9}. rcon_bytes (aes_rcon ! (r + 1)) = [rcon_table ! r, 0, 0, 0]"
    by auto
  moreover assume "r < 10"
  then have "r \<in> {0, 1, 2, 3, 4, 5, 6, 7, 8, 9}"
    by auto
  ultimately show ?thesis
    by blast
qed

lemma xor_bytes4: "xor_bytes [a, b, c, d] [e, f, g, h] = [a XOR e, b XOR f, c XOR g, d XOR h]"
  by (simp add: xor_bytes_def)

lemma next_key_words:
  assumes "length key = 16" and "r < 10"
  defines "W \<equiv> RT_AES_KeyExpansion key 16"
  shows "next_key (round_words W r) r = round_words W (Suc r)"
proof -
  note L = words_128[OF assms(1), folded W_def]
  obtain x1 y1 z1 w1 x2 y2 z2 w2 x3 y3 z3 w3 x4 y4 z4 w4 where
    m: "W ! (4 * r) = [x1, y1, z1, w1]" "W ! (4 * r + 1) = [x2, y2, z2, w2]"
      "W ! (4 * r + 2) = [x3, y3, z3, w3]" "W ! (4 * r + 3) = [x4, y4, z4, w4]"
    using L(1)[of "4 * r"] L(1)[of "4 * r + 1"] L(1)[of "4 * r + 2"] L(1)[of "4 * r + 3"] assms(2) by (auto simp: list4)
  define S where "S b = aes_sbox_enc ! unat b" for b :: UINT8
  define q where "q = rcon_table ! r"
  have k0: "W ! (4 * Suc r) = [x1 XOR S y4 XOR q, y1 XOR S z4, z1 XOR S w4, w1 XOR S x4]"
  proof -
    have "4 * Suc r - 1 = 4 * r + 3" "4 * Suc r - 4 = 4 * r" "4 * Suc r div 4 = r + 1" "4 * Suc r mod 4 = 0"
      by simp_all
    then have "key_temp 4 W (4 * Suc r) = xor_bytes (map S (rotate1 (W ! (4 * r + 3)))) (rcon_bytes (aes_rcon ! (r + 1)))"
      unfolding key_temp_def S_def by (simp only: if_True refl)
    moreover have "W ! (4 * Suc r) = xor_bytes (W ! (4 * r)) (key_temp 4 W (4 * Suc r))"
      using L(3)[of "4 * Suc r"] assms(2) by simp
    ultimately have "W ! (4 * Suc r) = xor_bytes [x1, y1, z1, w1] (xor_bytes [S y4, S z4, S w4, S x4] [q, 0, 0, 0])"
      unfolding m rcon_soft[OF assms(2)] q_def by simp
    then show ?thesis
      by (simp add: xor_bytes4 xor.assoc)
  qed
  have kn: "W ! (4 * Suc r + Suc c) = xor_bytes (W ! (4 * r + Suc c)) (W ! (4 * Suc r + c))" if "c < 3" for c
  proof -
    have "Suc c < 4"
      using that by simp
    then have "(4 * Suc r + Suc c) mod 4 = Suc c"
      unfolding mod_mult_self4 by (rule mod_less)
    moreover have "4 * Suc r + Suc c - 1 = 4 * Suc r + c" "4 * Suc r + Suc c - 4 = 4 * r + Suc c" "4 * Suc r + Suc c < 44"
      using that assms(2) by simp_all
    ultimately show ?thesis
      using L(3)[of "4 * Suc r + Suc c"] by (simp add: key_temp_def add.assoc)
  qed
  show ?thesis
    using m k0 kn[of 0] kn[of 1] kn[of 2]
    by (simp add: round_words_def next_key_def xor_32_explicit xor_bytes4 RTMPCkipSbox_def SboxTable_eq S_def[symmetric] q_def[symmetric] Let_def
        numeral_2_eq_2 numeral_3_eq_3 xor.assoc)
qed

section \<open>Equivalence\<close>

lemma soft_rounds:
  assumes "length key = 16" and "k < 10"
  defines "W \<equiv> RT_AES_KeyExpansion key 16"
  shows "\<exists>c. fold aes_soft_round [1..<Suc k] (next_key key 0, xor_128 key b) = (round_words W (Suc k), c) \<and> length c = 16
    \<and> block_to_state c = fold (enc_round W) [1..<Suc k] (block_to_state (xor_128 key b))"
  using assms(2)
proof (induction k)
  case 0
  then show ?case
    using next_key_words[OF assms(1), of 0] words_128(2)[OF assms(1)] by (simp add: W_def)
next
  case (Suc k)
  then obtain c where c: "fold aes_soft_round [1..<Suc k] (next_key key 0, xor_128 key b) = (round_words W (Suc k), c)" "length c = 16"
    "block_to_state c = fold (enc_round W) [1..<Suc k] (block_to_state (xor_128 key b))"
    by auto
  define d where "d = shift_row (byte_sub c)"
  define e where "e = mix_column_bytes (take 4 d) @ mix_column_bytes (take 4 (drop 4 d))
      @ mix_column_bytes (take 4 (drop 8 d)) @ mix_column_bytes (take 4 (drop 12 d))"
  have l: "length d = 16" "length e = 16"
    by (simp_all add: d_def e_def)
  have w: "\<And>c. c < 4 \<Longrightarrow> length (W ! (4 * Suc k + c)) = 4"
    using words_128(1)[OF assms(1)] Suc.prems by (simp add: W_def)
  have "block_to_state d = AES_ShiftRows (AES_SubBytes (block_to_state c))"
    by (simp add: d_def shift_row_state byte_sub_state c(2))
  then have "block_to_state (xor_128 e (round_words W (Suc k))) = enc_round W (Suc k) (block_to_state c)"
    using xor_round_state[OF l(2) w] mix_state[OF l(1), folded e_def] by (simp only: enc_round_def)
  moreover have "aes_soft_round (Suc k) (round_words W (Suc k), c) = (round_words W (Suc (Suc k)), xor_128 e (round_words W (Suc k)))"
    using next_key_words[OF assms(1) Suc.prems] by (simp add: aes_soft_round_def Let_def d_def e_def W_def)
  moreover have "[1..<Suc (Suc k)] = [1..<Suc k] @ [Suc k]"
    by simp
  ultimately show ?case
    using c by simp
qed

lemma aes128k128d_eq:
  assumes "length key = 16" and "length b = 16"
  shows "aes128k128d key b = aes_enc key 16 b"
proof -
  define W where "W = RT_AES_KeyExpansion key 16"
  have key: "map ((!) key) [0..<16] = key"
    using assms(1) map_nth[of key] by simp
  have x0: "xor_128 key b = xor_128 b (round_words W 0)"
    using words_128(2)[OF assms(1)] by (simp add: W_def xor_128_def xor.commute)
  have w: "\<And>c. c < 4 \<Longrightarrow> length (W ! (4 * r + c)) = 4" if "r \<le> 10" for r
    using words_128(1)[OF assms(1)] that by (simp add: W_def)
  obtain c where c: "fold aes_soft_round [1..<10] (next_key key 0, xor_128 key b) = (round_words W 10, c)" "length c = 16"
    "block_to_state c = fold (enc_round W) [1..<10] (block_to_state (xor_128 key b))"
    using soft_rounds[OF assms(1), of 9 b] by (auto simp: W_def)
  define d where "d = xor_128 (shift_row (byte_sub c)) (round_words W 10)"
  have "block_to_state d = enc_rounds W 10 (block_to_state b)"
    unfolding d_def enc_rounds_def using c(2,3) x0 xor_round_state[OF assms(2) w[of 0]]
      xor_round_state[OF length_ops(2) w[of 10]]
    by (simp add: shift_row_state byte_sub_state)
  moreover have "aes128k128d key b = d"
    unfolding aes128k128d_def Let_def key c(1) by (simp add: d_def)
  ultimately show ?thesis
    using block_state[of d] by (simp add: aes_enc_def W_def d_def)
qed

text \<open>
  \<^bold>\<open>C19\<close> The driver's two AES implementations are the same function: for every 16-byte key and block,
  \<^verbatim>\<open>aes128k128d\<close> of \<^verbatim>\<open>cmm_aes.c\<close>, with its round keys computed on the fly and its bit-twiddled column mixing,
  gives what \<^verbatim>\<open>RT_AES_Encrypt\<close> of \<^verbatim>\<open>crypt_aes.c\<close> computes from its expanded key and its multiplication tables.
\<close>

theorem aes_implementations_agree:
  assumes "length key = 16" and "length data = 16"
  shows "RT_AES_Encrypt True data 16 key 16 (replicate 16 0) 16 = (aes128k128d key data, 16)"
proof -
  have "key_length_ok 16"
    by (simp add: key_length_ok_def AES_KEY128_LENGTH_def)
  then show ?thesis
    by (simp add: RT_AES_Encrypt_eq aes128k128d_eq[OF assms] move_at_def)
qed

lemma aes_implementations_agree_witness:
  "RT_AES_Encrypt True fips_plain 16 fips_key 16 (replicate 16 0) 16 = (aes128k128d fips_key fips_plain, 16)"
  by (rule aes_implementations_agree) (simp_all add: fips_key_def fips_plain_def)

end
