(* ===== verification/Ccmp.thy ===== *)
theory Ccmp
  imports Aes_Modes Wep
begin

unbundle bit_operations_syntax

text \<open>
  The CCMP encapsulation of 802.11 frames in software (\<^verbatim>\<open>common/cmm_aes.c\<close>, the routines from
  \<^verbatim>\<open>RTMPConstructCCMPAAD\<close> to \<^verbatim>\<open>RTMPSoftDecryptCCMP\<close>), on top of the CCM mode of \<^verbatim>\<open>Aes_Modes\<close>.

  \<^item> The MPDU header is the byte string \<open>pHdr\<close>; the two flags \<open>a4_exists\<close> and \<open>qc_exists\<close> (fourth address, QoS
    control) are computed from its frame control field as the two routines do it.
  \<^item> The stack arrays \<^verbatim>\<open>aad_hdr[30]\<close> and \<^verbatim>\<open>nonce_hdr[13]\<close> are arguments and results of the two constructors,
    zeroed by the callers.
  \<^item> Both routines work in place. They read every byte before they overwrite it, so the buffer after the call is the
    buffer with the result moved to its start. \<open>None\<close> is an access beyond the end of the buffer: decryption reads the
    8 bytes of the CCMP header first, and the rest of the frame only when the length check of CCM (result -4) passed.
  \<^item> The lemmas show that decryption accepts exactly the output of encryption, which header fields are
    authenticated, that nonces are injective, and that frames without room for header and MIC are rejected.
\<close>

section \<open>The source\<close>

definition LEN_PN :: nat where "LEN_PN = 6"
definition LEN_CCMP_HDR :: nat where "LEN_CCMP_HDR = 8"
definition LEN_CCMP_MIC :: nat where "LEN_CCMP_MIC = 8"
definition MAC_ADDR_LEN :: nat where "MAC_ADDR_LEN = 6"

definition frame_type :: "bytes \<Rightarrow> UINT8" where
  "frame_type pHdr = drop_bit 2 (pHdr ! 0) AND 0x03"

definition frame_subtype :: "bytes \<Rightarrow> UINT8" where
  "frame_subtype pHdr = drop_bit 4 (pHdr ! 0) AND 0x0f"

definition a4_exists :: "bytes \<Rightarrow> bool" where
  "a4_exists pHdr \<longleftrightarrow> drop_bit 1 (pHdr ! 1 AND 0x2) AND (pHdr ! 1 AND 0x1) \<noteq> 0"

definition qc_exists :: "bytes \<Rightarrow> bool" where
  "qc_exists pHdr \<longleftrightarrow> frame_type pHdr = 2
     \<and> (frame_subtype pHdr = 8 \<or> frame_subtype pHdr = 9 \<or> frame_subtype pHdr = 10 \<or> frame_subtype pHdr = 11)"

definition RTMPConstructCCMPAAD :: "bytes \<Rightarrow> bool \<Rightarrow> bool \<Rightarrow> bool \<Rightarrow> bytes \<Rightarrow> bytes \<times> nat" where
  "RTMPConstructCCMPAAD pHdr isDataFrame a4 qc aad_hdr =
     (let aad0 = aad_hdr[0 := (if isDataFrame then pHdr ! 0 AND 0x8f else pHdr ! 0)];
          aad1 = aad0[1 := pHdr ! 1 AND 0xc7];
          aad2 = aad1[1 := aad1 ! 1 OR 0x40];
          len = 2;
          aad3 = move_at aad2 len (take (3 * MAC_ADDR_LEN) (drop 4 pHdr));
          len = len + 3 * MAC_ADDR_LEN;
          aad4 = aad3[len := pHdr ! 22 AND 0x0f, len + 1 := 0];
          len = len + 2;
          (aad5, len) = (if a4 then (move_at aad4 len (take MAC_ADDR_LEN (drop 24 pHdr)), len + MAC_ADDR_LEN) else (aad4, len))
      in if qc \<and> a4 then (aad5[len := pHdr ! 30 AND 0x0f, len + 1 := 0], len + 2)
         else if qc \<and> \<not> a4 then (aad5[len := pHdr ! 24 AND 0x0f, len + 1 := 0], len + 2)
         else (aad5, len))"

definition RTMPConstructCCMPNonce :: "bytes \<Rightarrow> bool \<Rightarrow> bool \<Rightarrow> bool \<Rightarrow> bytes \<Rightarrow> bytes \<Rightarrow> bytes \<times> nat" where
  "RTMPConstructCCMPNonce pHdr a4 qc isMgmtFrame pn nonce_hdr =
     (let n0 = (if qc \<and> a4 then nonce_hdr[0 := pHdr ! 30 AND 0x0f] else nonce_hdr);
          n1 = (if qc \<and> \<not> a4 then n0[0 := pHdr ! 24 AND 0x0f] else n0);
          n2 = move_at n1 1 (take MAC_ADDR_LEN (drop 10 pHdr));
          n_offset = 1 + MAC_ADDR_LEN;
          n3 = fold (\<lambda>i n. n[n_offset + i := pn ! (5 - i)]) [0..<6] n2
      in (n3, n_offset + LEN_PN))"

definition RTMPConstructCCMPHdr :: "UINT8 \<Rightarrow> bytes \<Rightarrow> bytes" where
  "RTMPConstructCCMPHdr key_idx pn =
     (replicate 8 0)[0 := pn ! 0, 1 := pn ! 1, 3 := push_bit 6 key_idx OR 0x20,
        4 := pn ! 2, 5 := pn ! 3, 6 := pn ! 4, 7 := pn ! 5]"

definition ccmp_aad :: "bytes \<Rightarrow> bytes \<times> nat" where
  "ccmp_aad pHdr = RTMPConstructCCMPAAD pHdr (frame_type pHdr = 2) (a4_exists pHdr) (qc_exists pHdr) (replicate 30 0)"

definition ccmp_nonce :: "bytes \<Rightarrow> bytes \<Rightarrow> bytes \<times> nat" where
  "ccmp_nonce pHdr pn =
     RTMPConstructCCMPNonce pHdr (a4_exists pHdr) (qc_exists pHdr) (frame_type pHdr = 0) pn (replicate 13 0)"

definition RTMPSoftEncryptCCMP :: "bytes \<Rightarrow> bytes \<Rightarrow> bytes \<Rightarrow> bytes \<Rightarrow> nat \<Rightarrow> (bool \<times> bytes) option" where
  "RTMPSoftEncryptCCMP pHdr pIV pKey pData DataLen =
     (let out_len = add32 DataLen 8;
          (aad_hdr, aad_len) = ccmp_aad pHdr;
          (nonce_hdr, nonce_hdr_len) = ccmp_nonce pHdr pIV;
          (r, C) = AES_CCM_Encrypt pData DataLen pKey 16 nonce_hdr nonce_hdr_len aad_hdr aad_len LEN_CCMP_MIC out_len
      in if length pData < DataLen + LEN_CCMP_MIC then None
         else Some (r = 0, move_at pData 0 C))"

definition RTMPSoftDecryptCCMP :: "bytes \<Rightarrow> CIPHER_KEY \<Rightarrow> bytes \<Rightarrow> UINT16 \<Rightarrow> (bool \<times> bytes \<times> UINT16) option" where
  "RTMPSoftDecryptCCMP pHdr pKey pData DataLen =
     (if KeyLen pKey = 0 then Some (False, pData, DataLen)
      else if length pData < LEN_CCMP_HDR then None
      else
        let out_len = unat DataLen;
            pn = [pData ! 0, pData ! 1, pData ! 4, pData ! 5, pData ! 6, pData ! 7];
            cipherData = drop LEN_CCMP_HDR pData;
            cipherData_len = sub32 (unat DataLen) LEN_CCMP_HDR;
            (aad_hdr, aad_len) = ccmp_aad pHdr;
            (nonce_hdr, nonce_hdr_len) = ccmp_nonce pHdr pn;
            (r, P) = AES_CCM_Decrypt cipherData cipherData_len (Key pKey) 16 nonce_hdr nonce_hdr_len aad_hdr aad_len
                       LEN_CCMP_MIC out_len
        in if r = - 4 then Some (False, pData, DataLen)
           else if length pData < unat DataLen then None
           else if r \<noteq> 0 then Some (False, move_at pData 0 P, DataLen)
           else Some (True, move_at pData 0 P, of_nat (length P)))"

section \<open>The two blocks of header data\<close>

lemma list6: "length xs = 6 \<Longrightarrow> xs = [xs ! 0, xs ! 1, xs ! 2, xs ! 3, xs ! 4, xs ! 5]"
  by (rule nth_equalityI) (auto simp: less_Suc_eq numeral_eq_Suc)

definition priority :: "bytes \<Rightarrow> UINT8" where
  "priority pHdr = (if qc_exists pHdr then pHdr ! (if a4_exists pHdr then 30 else 24) AND 0x0f else 0)"

lemma nonce_form:
  assumes "16 \<le> length pHdr" and "length pn = 6"
  shows "ccmp_nonce pHdr pn = (priority pHdr # take 6 (drop 10 pHdr) @ rev pn, 13)"
proof -
  define A where "A = take 6 (drop 10 pHdr)"
  have A: "length A = 6"
    using assms(1) by (simp add: A_def)
  have p: "RTMPConstructCCMPNonce pHdr (a4_exists pHdr) (qc_exists pHdr) m pn (replicate 13 0)
      = (fold (\<lambda>i n. n[7 + i := pn ! (5 - i)]) [0..<6] (move_at (priority pHdr # replicate 12 0) 1 A), 13)" for m
    by (simp add: RTMPConstructCCMPNonce_def priority_def MAC_ADDR_LEN_def LEN_PN_def A_def numeral_eq_Suc Let_def)
  have "move_at (priority pHdr # replicate 12 0) 1 A = (priority pHdr # A) @ replicate 6 0"
    using A by (simp add: move_at_def)
  moreover have "fold (\<lambda>i n. n[7 + i := pn ! (5 - i)]) [0..<6] ((priority pHdr # A) @ replicate 6 0)
      = (priority pHdr # A) @ [pn ! 5, pn ! 4, pn ! 3, pn ! 2, pn ! 1, pn ! 0]"
    using A by (simp add: upt_rec list_update_append numeral_eq_Suc)
  moreover have "rev pn = [pn ! 5, pn ! 4, pn ! 3, pn ! 2, pn ! 1, pn ! 0]"
    by (subst list6[OF assms(2)]) simp
  ultimately show ?thesis
    unfolding ccmp_nonce_def p A_def[symmetric] by (simp only:) simp
qed

lemma snd_nonce [simp]: "snd (ccmp_nonce pHdr pn) = 13"
  by (simp add: ccmp_nonce_def RTMPConstructCCMPNonce_def MAC_ADDR_LEN_def LEN_PN_def Let_def)


lemma nonce_length: "16 \<le> length pHdr \<Longrightarrow> length pn = 6 \<Longrightarrow> length (fst (ccmp_nonce pHdr pn)) = 13"
  by (simp add: nonce_form)

lemma pn_of_hdr:
  assumes "length pn = 6"
  shows "[RTMPConstructCCMPHdr i pn ! 0, RTMPConstructCCMPHdr i pn ! 1, RTMPConstructCCMPHdr i pn ! 4,
          RTMPConstructCCMPHdr i pn ! 5, RTMPConstructCCMPHdr i pn ! 6, RTMPConstructCCMPHdr i pn ! 7] = pn"
proof -
  have "[RTMPConstructCCMPHdr i pn ! 0, RTMPConstructCCMPHdr i pn ! 1, RTMPConstructCCMPHdr i pn ! 4,
          RTMPConstructCCMPHdr i pn ! 5, RTMPConstructCCMPHdr i pn ! 6, RTMPConstructCCMPHdr i pn ! 7]
      = [pn ! 0, pn ! 1, pn ! 2, pn ! 3, pn ! 4, pn ! 5]"
    by (simp add: RTMPConstructCCMPHdr_def nth_list_update)
  also have "\<dots> = pn"
    using list6[OF assms] by (simp only:)
  finally show ?thesis .
qed

lemma length_ccmp_hdr [simp, len_simps]: "length (RTMPConstructCCMPHdr i pn) = 8"
  by (simp add: RTMPConstructCCMPHdr_def)

section \<open>Encapsulation and decapsulation\<close>

abbreviation ccmp_seal :: "bytes \<Rightarrow> bytes \<Rightarrow> bytes \<Rightarrow> bytes \<Rightarrow> int \<times> bytes" where
  "ccmp_seal pHdr pn K p \<equiv> AES_CCM_Encrypt p (length p) K 16 (fst (ccmp_nonce pHdr pn)) 13
     (fst (ccmp_aad pHdr)) (snd (ccmp_aad pHdr)) 8 (length p + 8)"

abbreviation ccmp_open :: "bytes \<Rightarrow> bytes \<Rightarrow> bytes \<Rightarrow> bytes \<Rightarrow> nat \<Rightarrow> int \<times> bytes" where
  "ccmp_open pHdr pn K ct cap \<equiv> AES_CCM_Decrypt ct (length ct) K 16 (fst (ccmp_nonce pHdr pn)) 13
     (fst (ccmp_aad pHdr)) (snd (ccmp_aad pHdr)) 8 cap"

lemma ccm_prefix: "AES_CCM_Encrypt (p @ pad) (length p) K kl N nl A al t cap = AES_CCM_Encrypt p (length p) K kl N nl A al t cap"
  by (simp add: AES_CCM_Encrypt_def AES_CCM_MAC_def)

lemma seal_length:
  assumes "16 \<le> length pHdr" and "length pn = 6" and "length p + 8 < 2 ^ 32"
  shows "fst (ccmp_seal pHdr pn K p) = 0 \<and> length (snd (ccmp_seal pHdr pn K p)) = length p + 8"
proof -
  have "length (ccm_counter0 (fst (ccmp_nonce pHdr pn)) 13) = 16"
    using nonce_length[OF assms(1,2)] by simp
  then show ?thesis
    using assms(3) by (simp add: AES_CCM_Encrypt_def AES_KEY128_LENGTH_def ccm_mac_length_ok_def add32_small Let_def
        call_enc_eq aes.ctr_loop_length AES_CCM_MAC_length)
qed

lemma RTMPSoftEncryptCCMP_form:
  assumes "16 \<le> length pHdr" and "length pn = 6" and "length p + 8 < 2 ^ 32" and "length pad = 8"
  shows "RTMPSoftEncryptCCMP pHdr pn K (p @ pad) (length p) = Some (True, snd (ccmp_seal pHdr pn K p))"
proof -
  obtain C where C: "ccmp_seal pHdr pn K p = (0, C)" "length C = length p + 8"
    using seal_length[OF assms(1-3), of K] by (metis prod.collapse)
  show ?thesis
    using C assms(3,4)
    by (simp add: RTMPSoftEncryptCCMP_def case_prod_beta LEN_CCMP_MIC_def add32_small ccm_prefix Let_def move_at_def)
qed

lemma CCM_Decrypt_result:
  assumes "length ct = n + 8" and "n + 8 < 2 ^ 32" and "n \<le> cap" and "length N = 13"
  shows "fst (AES_CCM_Decrypt ct (length ct) K 16 N 13 A al 8 cap) \<in> {0, - 5}
     \<and> length (snd (AES_CCM_Decrypt ct (length ct) K 16 N 13 A al 8 cap)) = n"
proof -
  have "sub32 (length ct) 8 = n"
    using sub32_le[of 8 "length ct"] assms(1,2) by simp
  moreover have "length (ccm_counter0 N 13) = 16"
    using assms(4) by simp
  ultimately show ?thesis
    using assms by (simp add: AES_CCM_Decrypt_def AES_KEY128_LENGTH_def ccm_mac_length_ok_def Let_def
        call_enc_eq aes.ctr_loop_length)
qed

lemma RTMPSoftDecryptCCMP_form:
  assumes "KeyLen k \<noteq> 0" and "16 \<le> length pHdr" and "length pn = 6" and "length ct = n + 8" and "n + 16 < 65536"
    and "ccmp_open pHdr pn (Key k) ct (n + 16) = (r, P)"
  shows "RTMPSoftDecryptCCMP pHdr k (RTMPConstructCCMPHdr i pn @ ct) (of_nat (n + 16))
    = Some (r = 0, P @ drop n (RTMPConstructCCMPHdr i pn @ ct), if r = 0 then of_nat n else of_nat (n + 16))"
proof -
  define h where "h = RTMPConstructCCMPHdr i pn"
  have h: "length h = 8" "[h ! 0, h ! 1, h ! 4, h ! 5, h ! 6, h ! 7] = pn"
    using pn_of_hdr[OF assms(3)] by (simp_all only: h_def length_ccmp_hdr)
  have u: "unat (of_nat (n + 16) :: UINT16) = n + 16"
    using assms(5) by (rule unat_len16)
  have s: "sub32 (n + 16) 8 = length ct"
    using sub32_le[of 8 "n + 16"] assms(4,5) by simp
  have P: "r \<noteq> - 4" "length P = n"
    using CCM_Decrypt_result[OF assms(4), of "n + 16" "fst (ccmp_nonce pHdr pn)" "Key k" "fst (ccmp_aad pHdr)"
        "snd (ccmp_aad pHdr)"] assms(5,6) nonce_length[OF assms(2,3)] by auto
  have x: "[(h @ ct) ! 0, (h @ ct) ! 1, (h @ ct) ! 4, (h @ ct) ! 5, (h @ ct) ! 6, (h @ ct) ! 7] = pn"
    using h by (simp add: nth_append)
  show ?thesis
    unfolding h_def[symmetric] RTMPSoftDecryptCCMP_def Let_def u LEN_CCMP_HDR_def LEN_CCMP_MIC_def s x case_prod_beta snd_nonce
    using assms(1,4,6) h(1) P by (simp add: move_at_def)
qed

text \<open>
  \<^bold>\<open>C18\<close> CCMP decapsulation accepts exactly what encapsulation produces: for every MPDU header, key,
  packet number and key index, \<^verbatim>\<open>RTMPSoftDecryptCCMP\<close> on the CCMP header and a cipher text succeeds with the length
  and the bytes of \<open>p\<close> if and only if \<^verbatim>\<open>RTMPSoftEncryptCCMP\<close> turns \<open>p\<close> into that cipher text. The packet number
  read back from the CCMP header is the one used, and the in-place move over that header loses nothing.
\<close>

theorem ccmp_decrypt_iff_encrypt:
  assumes "KeyLen k \<noteq> 0" and "16 \<le> length pHdr" and "length pn = LEN_PN" and "length pad = LEN_CCMP_MIC"
    and "length ct = length p + LEN_CCMP_MIC" and "length p + 16 < 65536"
  shows "(\<exists>d. RTMPSoftDecryptCCMP pHdr k (RTMPConstructCCMPHdr i pn @ ct) (of_nat (length p + 16))
            = Some (True, d, of_nat (length p)) \<and> take (length p) d = p)
    \<longleftrightarrow> RTMPSoftEncryptCCMP pHdr pn (Key k) (p @ pad) (length p) = Some (True, ct)"
proof -
  note L = assms(3-5)[unfolded LEN_PN_def LEN_CCMP_MIC_def]
  note N = nonce_length[OF assms(2) L(1)]
  obtain r P where o: "ccmp_open pHdr pn (Key k) ct (length p + 16) = (r, P)"
    by fastforce
  have P: "length P = length p"
    using CCM_Decrypt_result[OF L(3), of "length p + 16" "fst (ccmp_nonce pHdr pn)" "Key k" "fst (ccmp_aad pHdr)"
        "snd (ccmp_aad pHdr)"] assms(6) o N by auto
  have "(\<exists>d. RTMPSoftDecryptCCMP pHdr k (RTMPConstructCCMPHdr i pn @ ct) (of_nat (length p + 16))
            = Some (True, d, of_nat (length p)) \<and> take (length p) d = p)
      \<longleftrightarrow> ccmp_open pHdr pn (Key k) ct (length p + 16) = (0, p)"
    unfolding RTMPSoftDecryptCCMP_form[OF assms(1,2) L(1,3) assms(6) o] o using P by auto
  also have "\<dots> \<longleftrightarrow> ccmp_seal pHdr pn (Key k) p = (0, ct)"
    by (rule ccm_decrypt_encrypt) (use N L assms(6) in \<open>simp_all add: ccm_mac_length_ok_def\<close>)
  also have "\<dots> \<longleftrightarrow> RTMPSoftEncryptCCMP pHdr pn (Key k) (p @ pad) (length p) = Some (True, ct)"
    using RTMPSoftEncryptCCMP_form[OF assms(2) L(1) _ L(2), of p "Key k"] seal_length[OF assms(2) L(1), of p "Key k"] assms(6)
    by (auto simp: prod_eq_iff)
  finally show ?thesis .
qed

definition ex_hdr :: bytes where
  "ex_hdr = [0x88, 0x41] @ replicate 22 7 @ [3, 0]"

lemma ccmp_decrypt_iff_encrypt_witness:
  "\<exists>d. RTMPSoftDecryptCCMP ex_hdr (ex_key\<lparr>KeyLen := 16\<rparr>)
       (RTMPConstructCCMPHdr 1 [1, 2, 3, 4, 5, 6] @ snd (ccmp_seal ex_hdr [1, 2, 3, 4, 5, 6] (Key ex_key) [7, 8, 9])) 19
     = Some (True, d, 3) \<and> take 3 d = [7, 8, 9]"
proof -
  have h: "16 \<le> length ex_hdr"
    by (simp add: ex_hdr_def)
  have "RTMPSoftEncryptCCMP ex_hdr [1, 2, 3, 4, 5, 6] (Key ex_key) ([7, 8, 9] @ replicate 8 0) (length [7, 8, 9 :: UINT8])
      = Some (True, snd (ccmp_seal ex_hdr [1, 2, 3, 4, 5, 6] (Key ex_key) [7, 8, 9]))"
    by (rule RTMPSoftEncryptCCMP_form[OF h]) simp_all
  moreover have "length (snd (ccmp_seal ex_hdr [1, 2, 3, 4, 5, 6] (Key ex_key) [7, 8, 9])) = 11"
    using seal_length[OF h, of "[1, 2, 3, 4, 5, 6]" "[7, 8, 9]" "Key ex_key"] by simp
  ultimately show ?thesis
    using ccmp_decrypt_iff_encrypt[OF _ h, of "ex_key\<lparr>KeyLen := 16\<rparr>" "[1, 2, 3, 4, 5, 6]" "replicate 8 0"
        "snd (ccmp_seal ex_hdr [1, 2, 3, 4, 5, 6] (Key ex_key) [7, 8, 9])" "[7, 8, 9]" 1]
    by (simp add: LEN_PN_def LEN_CCMP_MIC_def numeral_3_eq_3)
qed


section \<open>Short frames, nonces and authenticated fields\<close>

text \<open>
  A received frame without room for the CCMP header and the MIC is rejected: with fewer than 16
  bytes the 32-bit lengths wrap to at least \<open>2\<^sup>32 - 16\<close>, the capacity check of \<^verbatim>\<open>AES_CCM_Decrypt\<close> fails, and
  \<^verbatim>\<open>RTMPSoftDecryptCCMP\<close> returns FALSE with the buffer and its length unchanged, whatever the key. (The WEP routine,
  with 16-bit lengths and no such check, reads past the buffer instead.) The only access that is not covered by
  a check is the read of the 8 header bytes.
\<close>

theorem ccmp_short_frame_rejected:
  assumes "unat DataLen < LEN_CCMP_HDR + LEN_CCMP_MIC" and "LEN_CCMP_HDR \<le> length pData"
  shows "RTMPSoftDecryptCCMP pHdr k pData DataLen = Some (False, pData, DataLen)"
proof -
  define n where "n = unat DataLen"
  have "n < 16"
    using assms(1) by (simp add: n_def LEN_CCMP_HDR_def LEN_CCMP_MIC_def)
  then have "n < sub32 (sub32 n 8) 8"
    by (cases "8 \<le> n") (auto simp: sub32_def mod_if)
  then have "fst (AES_CCM_Decrypt ct (sub32 n 8) K 16 N 13 A al 8 n) = - 4" for ct K N A al
    by (simp add: AES_CCM_Decrypt_def AES_KEY128_LENGTH_def ccm_mac_length_ok_def Let_def)
  then show ?thesis
    using assms(2) by (simp add: RTMPSoftDecryptCCMP_def Let_def case_prod_beta LEN_CCMP_HDR_def LEN_CCMP_MIC_def n_def[symmetric])
qed

lemma ccmp_short_frame_rejected_witness:
  "RTMPSoftDecryptCCMP ex_hdr ex_key [1, 2, 0, 0x20, 3, 4, 5, 6, 9, 9] 10 = Some (False, [1, 2, 0, 0x20, 3, 4, 5, 6, 9, 9], 10)"
  by (rule ccmp_short_frame_rejected) (simp_all add: LEN_CCMP_HDR_def LEN_CCMP_MIC_def)

text \<open>
  The nonce of \<^verbatim>\<open>RTMPConstructCCMPNonce\<close> determines the packet number, the transmitter address
  and the priority: a transmitter that never repeats a packet number never repeats a nonce.
\<close>

theorem ccmp_nonce_injective:
  assumes "16 \<le> length h" and "16 \<le> length h'" and "length pn = LEN_PN" and "length pn' = LEN_PN"
  shows "ccmp_nonce h pn = ccmp_nonce h' pn' \<longleftrightarrow>
     pn = pn' \<and> take 6 (drop 10 h) = take 6 (drop 10 h') \<and> priority h = priority h'"
  using assms by (auto simp: nonce_form LEN_PN_def)

lemma ccmp_nonce_injective_witness:
  "ccmp_nonce ex_hdr [1, 0, 0, 0, 0, 0] \<noteq> ccmp_nonce ex_hdr [0, 1, 0, 0, 0, 0]"
  using ccmp_nonce_injective[of ex_hdr ex_hdr "[1, 0, 0, 0, 0, 0]" "[0, 1, 0, 0, 0, 0]"]
  by (simp add: ex_hdr_def LEN_PN_def)

text \<open>The associated data as one list.\<close>

definition header_len :: "bytes \<Rightarrow> nat" where
  "header_len h = 24 + (if a4_exists h then 6 else 0) + (if qc_exists h then 2 else 0)"

definition protected_fields :: "bytes \<Rightarrow> bytes" where
  "protected_fields h =
     [if frame_type h = 2 then h ! 0 AND 0x8f else h ! 0, h ! 1 AND 0xc7 OR 0x40] @ take 18 (drop 4 h) @ [h ! 22 AND 0x0f, 0]
     @ (if a4_exists h then take 6 (drop 24 h) else []) @ (if qc_exists h then [priority h, 0] else [])"

lemma aad_array:
  assumes "length A = 18" and "length A4 = 6"
  shows "(move_at ((replicate 30 (0 :: UINT8))[0 := x, 1 := y, 1 := z]) 2 A)[20 := w, 21 := 0] = [x, z] @ A @ [w, 0] @ replicate 8 0"
    and "move_at ([x, z] @ A @ [w, 0] @ replicate 8 0) 22 A4 = [x, z] @ A @ [w, 0 :: UINT8] @ A4 @ replicate 2 0"
  using assms by (simp_all add: move_at_def list_update_append numeral_eq_Suc)

lemma aad_tail:
  assumes "length A = 18" and "length A4 = 6"
  shows "([x, z] @ A @ [w, 0] @ replicate 8 0)[22 := q, 23 := 0] = [x, z] @ A @ [w, 0] @ [q, 0] @ replicate 6 (0 :: UINT8)"
    and "([x, z] @ A @ [w, 0] @ A4 @ replicate 2 0)[28 := q, 29 := 0] = [x, z] @ A @ [w, 0] @ A4 @ [q, 0 :: UINT8]"
  using assms by (simp_all add: list_update_append numeral_eq_Suc)

lemma aad_form:
  assumes "header_len h \<le> length h"
  shows "ccmp_aad h = (protected_fields h @ replicate (30 - length (protected_fields h)) 0, length (protected_fields h))"
proof -
  define x where "x = (if frame_type h = 2 then h ! 0 AND 0x8f else h ! 0)"
  define z where "z = h ! 1 AND 0xc7 OR 0x40"
  define A A4 where "A = take 18 (drop 4 h)" and "A4 = (if a4_exists h then take 6 (drop 24 h) else replicate 6 0)"
  define w where "w = h ! 22 AND 0x0f"
  have L: "length A = 18" "length A4 = 6"
    using assms by (auto simp: A_def A4_def header_len_def)
  note arr = aad_array(1)[OF L, of x "h ! 1 AND 0xc7" z w] aad_array(2)[OF L, of x z w]
  have aad: "ccmp_aad h =
     (if qc_exists h \<and> a4_exists h then ([x, z] @ A @ [w, 0] @ A4 @ [priority h, 0], 30)
      else if qc_exists h then ([x, z] @ A @ [w, 0] @ [priority h, 0] @ replicate 6 0, 24)
      else if a4_exists h then ([x, z] @ A @ [w, 0] @ A4 @ replicate 2 0, 28)
      else ([x, z] @ A @ [w, 0] @ replicate 8 0, 22))"
  proof -
    have z: "((replicate 30 0)[0 := x, 1 := h ! 1 AND 0xc7]) ! 1 OR 0x40 = z"
      by (simp add: z_def)
    have A: "take (3 * 6) (drop 4 h) = A"
      by (simp add: A_def)
    have i: "2 + 3 * 6 = (20 :: nat)" "20 + 1 = (21 :: nat)" "20 + 2 = (22 :: nat)" "22 + 1 = (23 :: nat)" "22 + 2 = (24 :: nat)"
        "22 + 6 = (28 :: nat)" "28 + 1 = (29 :: nat)" "28 + 2 = (30 :: nat)"
      by simp_all
    have q: "qc_exists h \<Longrightarrow> a4_exists h \<Longrightarrow> h ! 30 AND 0x0f = priority h"
        "qc_exists h \<Longrightarrow> \<not> a4_exists h \<Longrightarrow> h ! 24 AND 0x0f = priority h" "a4_exists h \<Longrightarrow> take 6 (drop 24 h) = A4"
      by (simp_all add: priority_def A4_def)
    note step = ccmp_aad_def RTMPConstructCCMPAAD_def Let_def MAC_ADDR_LEN_def x_def[symmetric] z A i w_def[symmetric] arr
    show ?thesis
      by (cases "qc_exists h"; cases "a4_exists h"; simp only: step q aad_tail[OF L] if_True if_False simp_thms prod.case)
  qed
  show ?thesis
    unfolding aad protected_fields_def x_def[symmetric] z_def[symmetric] A_def[symmetric] w_def[symmetric]
    using L assms by (auto simp: A4_def header_len_def)
qed

text \<open>
  The associated data authenticates exactly the header fields of IEEE 802.11: two headers give
  the same associated data if and only if they agree on the frame control field outside the masked bits, the three
  addresses, the fragment number, and on presence and value of the fourth address and the traffic identifier. A
  retransmission, which may change the retry, power management and more data bits, the duration and the sequence
  number, thus gives the same result.
\<close>

theorem ccmp_authenticated_fields:
  assumes "header_len h \<le> length h" and "header_len h' \<le> length h'"
  shows "ccmp_aad h = ccmp_aad h' \<longleftrightarrow>
     (if frame_type h = 2 then h ! 0 AND 0x8f else h ! 0) = (if frame_type h' = 2 then h' ! 0 AND 0x8f else h' ! 0)
     \<and> h ! 1 AND 0xc7 OR 0x40 = h' ! 1 AND 0xc7 OR 0x40
     \<and> take 18 (drop 4 h) = take 18 (drop 4 h') \<and> h ! 22 AND 0x0f = h' ! 22 AND 0x0f
     \<and> a4_exists h = a4_exists h' \<and> (a4_exists h \<longrightarrow> take 6 (drop 24 h) = take 6 (drop 24 h'))
     \<and> qc_exists h = qc_exists h' \<and> priority h = priority h'"
proof -
  have L: "length (protected_fields g) = 22 + (if a4_exists g then 6 else 0) + (if qc_exists g then 2 else 0)"
    if "header_len g \<le> length g" for g
    using that by (auto simp: protected_fields_def header_len_def)
  have d: "length (take 18 (drop 4 h)) = length (take 18 (drop 4 h'))"
    using assms by (simp add: header_len_def)
  have p: "\<not> qc_exists g \<Longrightarrow> priority g = 0" for g
    by (simp add: priority_def)
  have "ccmp_aad h = ccmp_aad h' \<longleftrightarrow> protected_fields h = protected_fields h'"
    unfolding aad_form[OF assms(1)] aad_form[OF assms(2)] by auto
  also have "\<dots> \<longleftrightarrow> protected_fields h = protected_fields h' \<and> a4_exists h = a4_exists h' \<and> qc_exists h = qc_exists h'"
    using L[OF assms(1)] L[OF assms(2)] by (auto split: if_splits)
  finally show ?thesis
    unfolding protected_fields_def using d p by auto
qed

lemma ccmp_authenticated_fields_witness:
  "ccmp_aad ex_hdr = ccmp_aad (ex_hdr[1 := 0x79, 2 := 1, 3 := 2, 22 := 0xf7, 23 := 0xaa])"
  by (rule ccmp_authenticated_fields[THEN iffD2])
    (simp_all add: ex_hdr_def header_len_def a4_exists_def qc_exists_def frame_type_def frame_subtype_def priority_def numeral_eq_Suc)

end
