(* ===== verification/Hash.thy ===== *)
theory Hash
  imports Complex_Main Driver_Prelude "HOL-Library.Monad_Syntax"
begin

text \<open>
  The hash functions of \<^verbatim>\<open>common/crypt_md5.c\<close> and \<^verbatim>\<open>common/crypt_sha2.c\<close> (MD5, SHA-1, SHA-256) and the message
  authentication codes of \<^verbatim>\<open>common/crypt_hmac.c\<close> over them.

  \<^item> The three context structures have the same fields, so they are one record \<open>HASH_CTX\<close>; the number of words in
    \<open>HashValue\<close> differs. The functions to append a message and to finish are textually the same in the
    source, up to the names of the functions they call and the byte order; \<open>append_loop\<close>, \<open>hash_append_msg\<close>
    and \<open>hash_end\<close> are that text with the called functions as arguments, and
    \<^verbatim>\<open>RT_MD5_Append\<close> and its relatives are their instances.
  \<^item> Lengths are 32-bit words as in the code and their sums wrap. A move that leaves the 64-byte block, which
    only a wrap can cause, is \<open>None\<close>.
  \<^item> The host is little endian: \<^verbatim>\<open>cpu2le32\<close> is the identity and \<^verbatim>\<open>cpu2be32\<close> swaps the bytes.
  \<^item> The locale \<open>block_hash\<close> is what the padding and streaming code relies on, and \<open>streaming_hash\<close> what
    HMAC relies on; both are interpreted for the three functions.
\<close>

section \<open>Compression functions\<close>

definition ROTL32 :: "UINT32 \<Rightarrow> nat \<Rightarrow> UINT32" where
  "ROTL32 x n = push_bit n x OR drop_bit (32 - n) x"

definition ROTR32 :: "UINT32 \<Rightarrow> nat \<Rightarrow> UINT32" where
  "ROTR32 x n = drop_bit n x OR push_bit (32 - n) x"

subsection \<open>MD5\<close>

definition md5_F :: "UINT32 \<Rightarrow> UINT32 \<Rightarrow> UINT32 \<Rightarrow> UINT32" where "md5_F x y z = (x AND y) OR (NOT x AND z)"
definition md5_G :: "UINT32 \<Rightarrow> UINT32 \<Rightarrow> UINT32 \<Rightarrow> UINT32" where "md5_G x y z = (x AND z) OR (y AND NOT z)"
definition md5_H :: "UINT32 \<Rightarrow> UINT32 \<Rightarrow> UINT32 \<Rightarrow> UINT32" where "md5_H x y z = x XOR y XOR z"
definition md5_I :: "UINT32 \<Rightarrow> UINT32 \<Rightarrow> UINT32 \<Rightarrow> UINT32" where "md5_I x y z = y XOR (x OR NOT z)"

definition MD5_DefaultHashValue :: "UINT32 list" where
  "MD5_DefaultHashValue = [0x67452301, 0xefcdab89, 0x98badcfe, 0x10325476]"

text \<open>
  One \<^verbatim>\<open>ROUND\<close> macro call writes the first of its four variables and the next call names the variables rotated by one
  place; \<open>ROUND\<close> returns the variables in the order in which the next call takes them. The tables are the index into
  \<^verbatim>\<open>X\<close>, the shift and the constant of the calls.
\<close>

type_synonym md5_regs = "UINT32 \<times> UINT32 \<times> UINT32 \<times> UINT32"

fun ROUND :: "(UINT32 \<Rightarrow> UINT32 \<Rightarrow> UINT32 \<Rightarrow> UINT32) \<Rightarrow> UINT32 list \<Rightarrow> nat \<times> nat \<times> UINT32 \<Rightarrow> md5_regs \<Rightarrow> md5_regs" where
  "ROUND g X (k, s, ac) (a, b, c, d) = (d, ROTL32 (a + (g b c d + X ! k + ac)) s + b, b, c)"

definition ROUND1_OPS :: "(nat \<times> nat \<times> UINT32) list" where
  "ROUND1_OPS =
    [(0, 7, 0xd76aa478), (1, 12, 0xe8c7b756), (2, 17, 0x242070db), (3, 22, 0xc1bdceee),
     (4, 7, 0xf57c0faf), (5, 12, 0x4787c62a), (6, 17, 0xa8304613), (7, 22, 0xfd469501),
     (8, 7, 0x698098d8), (9, 12, 0x8b44f7af), (10, 17, 0xffff5bb1), (11, 22, 0x895cd7be),
     (12, 7, 0x6b901122), (13, 12, 0xfd987193), (14, 17, 0xa679438e), (15, 22, 0x49b40821)]"

definition ROUND2_OPS :: "(nat \<times> nat \<times> UINT32) list" where
  "ROUND2_OPS =
    [(1, 5, 0xf61e2562), (6, 9, 0xc040b340), (11, 14, 0x265e5a51), (0, 20, 0xe9b6c7aa),
     (5, 5, 0xd62f105d), (10, 9, 0x2441453), (15, 14, 0xd8a1e681), (4, 20, 0xe7d3fbc8),
     (9, 5, 0x21e1cde6), (14, 9, 0xc33707d6), (3, 14, 0xf4d50d87), (8, 20, 0x455a14ed),
     (13, 5, 0xa9e3e905), (2, 9, 0xfcefa3f8), (7, 14, 0x676f02d9), (12, 20, 0x8d2a4c8a)]"

definition ROUND3_OPS :: "(nat \<times> nat \<times> UINT32) list" where
  "ROUND3_OPS =
    [(5, 4, 0xfffa3942), (8, 11, 0x8771f681), (11, 16, 0x6d9d6122), (14, 23, 0xfde5380c),
     (1, 4, 0xa4beea44), (4, 11, 0x4bdecfa9), (7, 16, 0xf6bb4b60), (10, 23, 0xbebfbc70),
     (13, 4, 0x289b7ec6), (0, 11, 0xeaa127fa), (3, 16, 0xd4ef3085), (6, 23, 0x4881d05),
     (9, 4, 0xd9d4d039), (12, 11, 0xe6db99e5), (15, 16, 0x1fa27cf8), (2, 23, 0xc4ac5665)]"

definition ROUND4_OPS :: "(nat \<times> nat \<times> UINT32) list" where
  "ROUND4_OPS =
    [(0, 6, 0xf4292244), (7, 10, 0x432aff97), (14, 15, 0xab9423a7), (5, 21, 0xfc93a039),
     (12, 6, 0x655b59c3), (3, 10, 0x8f0ccc92), (10, 15, 0xffeff47d), (1, 21, 0x85845dd1),
     (8, 6, 0x6fa87e4f), (15, 10, 0xfe2ce6e0), (6, 15, 0xa3014314), (13, 21, 0x4e0811a1),
     (4, 6, 0xf7537e82), (11, 10, 0xbd3af235), (2, 15, 0x2ad7d2bb), (9, 21, 0xeb86d391)]"

definition md5_compress :: "UINT32 list \<Rightarrow> bytes \<Rightarrow> UINT32 list" where
  "md5_compress hv block =
     (let X = map (\<lambda>i. le32_at block (4 * i)) [0..<16];
          v = (hv ! 0, hv ! 1, hv ! 2, hv ! 3);
          v = fold (ROUND md5_F X) ROUND1_OPS v;
          v = fold (ROUND md5_G X) ROUND2_OPS v;
          v = fold (ROUND md5_H X) ROUND3_OPS v;
          (a, b, c, d) = fold (ROUND md5_I X) ROUND4_OPS v
      in [hv ! 0 + a, hv ! 1 + b, hv ! 2 + c, hv ! 3 + d])"

subsection \<open>SHA-1\<close>

definition Ch :: "UINT32 \<Rightarrow> UINT32 \<Rightarrow> UINT32 \<Rightarrow> UINT32" where "Ch x y z = (x AND y) XOR (NOT x AND z)"
definition Maj :: "UINT32 \<Rightarrow> UINT32 \<Rightarrow> UINT32 \<Rightarrow> UINT32" where "Maj x y z = (x AND y) XOR (x AND z) XOR (y AND z)"
definition Parity :: "UINT32 \<Rightarrow> UINT32 \<Rightarrow> UINT32 \<Rightarrow> UINT32" where "Parity x y z = x XOR y XOR z"

definition SHA1_K :: "UINT32 list" where
  "SHA1_K = [0x5a827999, 0x6ed9eba1, 0x8f1bbcdc, 0xca62c1d6]"

definition SHA1_DefaultHashValue :: "UINT32 list" where
  "SHA1_DefaultHashValue = [0x67452301, 0xefcdab89, 0x98badcfe, 0x10325476, 0xc3d2e1f0]"

text \<open>The first 16 words of the message schedule, and one step of its extension. The array \<^verbatim>\<open>W\<close> is as long as it is filled.\<close>

definition be_words :: "bytes \<Rightarrow> UINT32 list" where
  "be_words block = map (\<lambda>i. cpu2be32 (le32_at block (4 * i))) [0..<16]"

definition sha1_extend :: "nat \<Rightarrow> UINT32 list \<Rightarrow> UINT32 list" where
  "sha1_extend i W = W @ [ROTL32 (W ! (i - 3) XOR W ! (i - 8) XOR W ! (i - 14) XOR W ! (i - 16)) 1]"

type_synonym sha1_regs = "UINT32 \<times> UINT32 \<times> UINT32 \<times> UINT32 \<times> UINT32"

fun sha1_step :: "(UINT32 \<Rightarrow> UINT32 \<Rightarrow> UINT32 \<Rightarrow> UINT32) \<Rightarrow> UINT32 \<Rightarrow> UINT32 list \<Rightarrow> nat \<Rightarrow> sha1_regs \<Rightarrow> sha1_regs" where
  "sha1_step g K W t (a, b, c, d, e) = (ROTL32 a 5 + g b c d + e + K + W ! t, a, ROTL32 b 30, c, d)"

definition sha1_compress :: "UINT32 list \<Rightarrow> bytes \<Rightarrow> UINT32 list" where
  "sha1_compress hv block =
     (let W = fold sha1_extend [16..<80] (be_words block);
          v = (hv ! 0, hv ! 1, hv ! 2, hv ! 3, hv ! 4);
          v = fold (sha1_step Ch (SHA1_K ! 0) W) [0..<20] v;
          v = fold (sha1_step Parity (SHA1_K ! 1) W) [20..<40] v;
          v = fold (sha1_step Maj (SHA1_K ! 2) W) [40..<60] v;
          (a, b, c, d, e) = fold (sha1_step Parity (SHA1_K ! 3) W) [60..<80] v
      in [hv ! 0 + a, hv ! 1 + b, hv ! 2 + c, hv ! 3 + d, hv ! 4 + e])"

subsection \<open>SHA-256\<close>

definition Zsigma_256_0 :: "UINT32 \<Rightarrow> UINT32" where "Zsigma_256_0 x = ROTR32 x 2 XOR ROTR32 x 13 XOR ROTR32 x 22"
definition Zsigma_256_1 :: "UINT32 \<Rightarrow> UINT32" where "Zsigma_256_1 x = ROTR32 x 6 XOR ROTR32 x 11 XOR ROTR32 x 25"
definition Sigma_256_0 :: "UINT32 \<Rightarrow> UINT32" where "Sigma_256_0 x = ROTR32 x 7 XOR ROTR32 x 18 XOR drop_bit 3 x"
definition Sigma_256_1 :: "UINT32 \<Rightarrow> UINT32" where "Sigma_256_1 x = ROTR32 x 17 XOR ROTR32 x 19 XOR drop_bit 10 x"

definition SHA256_K :: "UINT32 list" where
  "SHA256_K =
    [0x428a2f98, 0x71374491, 0xb5c0fbcf, 0xe9b5dba5, 0x3956c25b, 0x59f111f1, 0x923f82a4, 0xab1c5ed5]
    @ [0xd807aa98, 0x12835b01, 0x243185be, 0x550c7dc3, 0x72be5d74, 0x80deb1fe, 0x9bdc06a7, 0xc19bf174]
    @ [0xe49b69c1, 0xefbe4786, 0x0fc19dc6, 0x240ca1cc, 0x2de92c6f, 0x4a7484aa, 0x5cb0a9dc, 0x76f988da]
    @ [0x983e5152, 0xa831c66d, 0xb00327c8, 0xbf597fc7, 0xc6e00bf3, 0xd5a79147, 0x06ca6351, 0x14292967]
    @ [0x27b70a85, 0x2e1b2138, 0x4d2c6dfc, 0x53380d13, 0x650a7354, 0x766a0abb, 0x81c2c92e, 0x92722c85]
    @ [0xa2bfe8a1, 0xa81a664b, 0xc24b8b70, 0xc76c51a3, 0xd192e819, 0xd6990624, 0xf40e3585, 0x106aa070]
    @ [0x19a4c116, 0x1e376c08, 0x2748774c, 0x34b0bcb5, 0x391c0cb3, 0x4ed8aa4a, 0x5b9cca4f, 0x682e6ff3]
    @ [0x748f82ee, 0x78a5636f, 0x84c87814, 0x8cc70208, 0x90befffa, 0xa4506ceb, 0xbef9a3f7, 0xc67178f2]"

definition SHA256_DefaultHashValue :: "UINT32 list" where
  "SHA256_DefaultHashValue = [0x6a09e667, 0xbb67ae85, 0x3c6ef372, 0xa54ff53a, 0x510e527f, 0x9b05688c, 0x1f83d9ab, 0x5be0cd19]"

definition sha256_extend :: "nat \<Rightarrow> UINT32 list \<Rightarrow> UINT32 list" where
  "sha256_extend t W =
     (if t > 15 then W @ [Sigma_256_1 (W ! (t - 2)) + W ! (t - 7) + Sigma_256_0 (W ! (t - 15)) + W ! (t - 16)] else W)"

type_synonym sha256_regs = "UINT32 \<times> UINT32 \<times> UINT32 \<times> UINT32 \<times> UINT32 \<times> UINT32 \<times> UINT32 \<times> UINT32"

fun sha256_rotate :: "UINT32 \<Rightarrow> UINT32 \<Rightarrow> sha256_regs \<Rightarrow> sha256_regs" where
  "sha256_rotate K w (a, b, c, d, e, f, g, h) =
     (let T1 = h + Zsigma_256_1 e + Ch e f g + K + w;
          T2 = Zsigma_256_0 a + Maj a b c
      in (T1 + T2, a, b, c, d + T1, e, f, g))"

fun sha256_step :: "nat \<Rightarrow> UINT32 list \<times> sha256_regs \<Rightarrow> UINT32 list \<times> sha256_regs" where
  "sha256_step t (W, v) = (let W = sha256_extend t W in (W, sha256_rotate (SHA256_K ! t) (W ! t) v))"

definition sha256_compress :: "UINT32 list \<Rightarrow> bytes \<Rightarrow> UINT32 list" where
  "sha256_compress hv block =
     (let v = (hv ! 0, hv ! 1, hv ! 2, hv ! 3, hv ! 4, hv ! 5, hv ! 6, hv ! 7);
          (W, a, b, c, d, e, f, g, h) = fold sha256_step [0..<64] (be_words block, v)
      in [hv ! 0 + a, hv ! 1 + b, hv ! 2 + c, hv ! 3 + d, hv ! 4 + e, hv ! 5 + f, hv ! 6 + g, hv ! 7 + h])"

section \<open>Contexts, appending and finishing\<close>

record HASH_CTX =
  HashValue :: "UINT32 list"
  MessageLen :: UINT64
  Block :: bytes
  BlockLen :: UINT32

abbreviation zero_block :: bytes where "zero_block \<equiv> replicate 64 0"

text \<open>\<^verbatim>\<open>NdisZeroMemory\<close> of a context with \<open>n\<close> hash words, initialisation, and the processing of a full block.\<close>

definition zero_ctx :: "nat \<Rightarrow> HASH_CTX" where
  "zero_ctx n = \<lparr>HashValue = replicate n 0, MessageLen = 0, Block = zero_block, BlockLen = 0\<rparr>"

definition hash_init :: "UINT32 list \<Rightarrow> HASH_CTX \<Rightarrow> HASH_CTX" where
  "hash_init iv ctx = ctx\<lparr>HashValue := iv, Block := zero_block, BlockLen := 0, MessageLen := 0\<rparr>"

definition hash_block :: "(UINT32 list \<Rightarrow> bytes \<Rightarrow> UINT32 list) \<Rightarrow> HASH_CTX \<Rightarrow> HASH_CTX" where
  "hash_block f ctx = ctx\<lparr>HashValue := f (HashValue ctx) (Block ctx), Block := zero_block, BlockLen := 0\<rparr>"

text \<open>\<open>m\<close> is the part of the message from \<^verbatim>\<open>appendLen\<close> on.\<close>

function append_loop :: "(UINT32 list \<Rightarrow> bytes \<Rightarrow> UINT32 list) \<Rightarrow> bytes \<Rightarrow> HASH_CTX \<Rightarrow> HASH_CTX option" where
  "append_loop f m ctx =
     (if m = [] then Some ctx
      else
        let diffLen = of_nat (length m) :: UINT32; off = unat (BlockLen ctx) in
        if BlockLen ctx + diffLen < 64 then
          if off + length m \<le> 64
          then Some (ctx\<lparr>Block := move_at (Block ctx) off m, BlockLen := BlockLen ctx + diffLen\<rparr>)
          else None
        else
          if off \<le> 64 \<and> 64 - off \<le> length m
          then append_loop f (drop (64 - off) m)
                 (hash_block f (ctx\<lparr>Block := move_at (Block ctx) off (take (64 - off) m), BlockLen := 64\<rparr>))
          else None)"
  by pat_completeness auto
termination
  by (relation "measure (\<lambda>(f, m, ctx). 2 * length m + (if BlockLen ctx = 0 then 0 else 1))")
    (auto simp: hash_block_def)

declare append_loop.simps [simp del]

definition hash_append_msg :: "(UINT32 list \<Rightarrow> bytes \<Rightarrow> UINT32 list) \<Rightarrow> HASH_CTX \<Rightarrow> bytes \<Rightarrow> HASH_CTX option" where
  "hash_append_msg f ctx Message =
     map_option (\<lambda>c. c\<lparr>MessageLen := MessageLen c + of_nat (length Message)\<rparr>) (append_loop f Message ctx)"

text \<open>\<open>order64\<close> and \<open>order32\<close> are the byte-order macros that the function applies to the length and to the hash value.\<close>

definition hash_end ::
    "(UINT32 list \<Rightarrow> bytes \<Rightarrow> UINT32 list) \<Rightarrow> (UINT64 \<Rightarrow> UINT64) \<Rightarrow> (UINT32 \<Rightarrow> UINT32) \<Rightarrow> HASH_CTX \<Rightarrow> HASH_CTX \<times> bytes" where
  "hash_end f order64 order32 ctx =
     (let ctx = ctx\<lparr>Block := (Block ctx)[unat (BlockLen ctx) := 0x80]\<rparr>;
          ctx = (if BlockLen ctx > 55 then hash_block f ctx else ctx);
          message_length_bits = order64 (MessageLen ctx * 8);
          ctx = hash_block f (ctx\<lparr>Block := move_at (Block ctx) 56 (le64_bytes message_length_bits)\<rparr>);
          ctx = ctx\<lparr>HashValue := map order32 (HashValue ctx)\<rparr>
      in (ctx, concat (map le32_bytes (HashValue ctx))))"

definition RT_MD5_Init :: "HASH_CTX \<Rightarrow> HASH_CTX" where "RT_MD5_Init = hash_init MD5_DefaultHashValue"
definition RT_MD5_Hash :: "HASH_CTX \<Rightarrow> HASH_CTX" where "RT_MD5_Hash = hash_block md5_compress"
definition RT_MD5_Append :: "HASH_CTX \<Rightarrow> bytes \<Rightarrow> HASH_CTX option" where "RT_MD5_Append = hash_append_msg md5_compress"
definition RT_MD5_End :: "HASH_CTX \<Rightarrow> HASH_CTX \<times> bytes" where "RT_MD5_End = hash_end md5_compress (\<lambda>x. x) (\<lambda>x. x)"

definition RT_MD5 :: "bytes \<Rightarrow> bytes option" where
  "RT_MD5 Message = map_option (\<lambda>c. snd (RT_MD5_End c)) (RT_MD5_Append (RT_MD5_Init (zero_ctx 4)) Message)"

definition RT_SHA1_Init :: "HASH_CTX \<Rightarrow> HASH_CTX" where "RT_SHA1_Init = hash_init SHA1_DefaultHashValue"
definition RT_SHA1_Hash :: "HASH_CTX \<Rightarrow> HASH_CTX" where "RT_SHA1_Hash = hash_block sha1_compress"
definition RT_SHA1_Append :: "HASH_CTX \<Rightarrow> bytes \<Rightarrow> HASH_CTX option" where "RT_SHA1_Append = hash_append_msg sha1_compress"
definition RT_SHA1_End :: "HASH_CTX \<Rightarrow> HASH_CTX \<times> bytes" where "RT_SHA1_End = hash_end sha1_compress cpu2be64 cpu2be32"

definition RT_SHA1 :: "bytes \<Rightarrow> bytes option" where
  "RT_SHA1 Message = map_option (\<lambda>c. snd (RT_SHA1_End c)) (RT_SHA1_Append (RT_SHA1_Init (zero_ctx 5)) Message)"

definition RT_SHA256_Init :: "HASH_CTX \<Rightarrow> HASH_CTX" where "RT_SHA256_Init = hash_init SHA256_DefaultHashValue"
definition RT_SHA256_Hash :: "HASH_CTX \<Rightarrow> HASH_CTX" where "RT_SHA256_Hash = hash_block sha256_compress"
definition RT_SHA256_Append :: "HASH_CTX \<Rightarrow> bytes \<Rightarrow> HASH_CTX option" where "RT_SHA256_Append = hash_append_msg sha256_compress"
definition RT_SHA256_End :: "HASH_CTX \<Rightarrow> HASH_CTX \<times> bytes" where "RT_SHA256_End = hash_end sha256_compress cpu2be64 cpu2be32"

definition RT_SHA256 :: "bytes \<Rightarrow> bytes option" where
  "RT_SHA256 Message = map_option (\<lambda>c. snd (RT_SHA256_End c)) (RT_SHA256_Append (RT_SHA256_Init (zero_ctx 8)) Message)"

section \<open>HMAC\<close>

text \<open>
  The text shared by the three functions of \<^verbatim>\<open>common/crypt_hmac.c\<close>: \<open>Init\<close>, \<open>Append\<close>, \<open>End\<close> and \<open>OneShot\<close> are the
  functions of the hash, \<open>nctx\<close> the words of its context and \<open>ndig\<close> the size of its digest. \<open>MAC\<close> is the caller's
  buffer; the result is the buffer afterwards.
\<close>

definition mac_key :: "(bytes \<Rightarrow> bytes option) \<Rightarrow> bytes \<Rightarrow> bytes option" where
  "mac_key OneShot Key =
     (if length Key \<le> 64 then Some (move_at zero_block 0 Key) else map_option (move_at zero_block 0) (OneShot Key))"

definition hmac_with ::
    "(HASH_CTX \<Rightarrow> HASH_CTX) \<Rightarrow> (HASH_CTX \<Rightarrow> bytes \<Rightarrow> HASH_CTX option) \<Rightarrow> (HASH_CTX \<Rightarrow> HASH_CTX \<times> bytes) \<Rightarrow> (bytes \<Rightarrow> bytes option)
     \<Rightarrow> nat \<Rightarrow> nat \<Rightarrow> bytes \<Rightarrow> bytes \<Rightarrow> bytes \<Rightarrow> nat \<Rightarrow> bytes option" where
  "hmac_with Init Append End OneShot nctx ndig Key Message MAC MACLen = do {
     K0 \<leftarrow> mac_key OneShot Key;
     let K0 = map (\<lambda>b. b XOR 0x36) K0;
     c \<leftarrow> Append (Init (zero_ctx nctx)) K0;
     c \<leftarrow> Append c Message;
     let Digest = snd (End c);
     let K0 = map (\<lambda>b. b XOR (0x36 XOR 0x5c)) K0;
     c \<leftarrow> Append (Init (zero_ctx nctx)) K0;
     c \<leftarrow> Append c Digest;
     let Digest = snd (End c);
     let n = (if MACLen > ndig then ndig else MACLen);
     if n \<le> length MAC then Some (move_at MAC 0 (take n Digest)) else None }"

definition RT_HMAC_SHA1 :: "bytes \<Rightarrow> bytes \<Rightarrow> bytes \<Rightarrow> nat \<Rightarrow> bytes option" where
  "RT_HMAC_SHA1 = hmac_with RT_SHA1_Init RT_SHA1_Append RT_SHA1_End RT_SHA1 5 20"

definition RT_HMAC_SHA256 :: "bytes \<Rightarrow> bytes \<Rightarrow> bytes \<Rightarrow> nat \<Rightarrow> bytes option" where
  "RT_HMAC_SHA256 = hmac_with RT_SHA256_Init RT_SHA256_Append RT_SHA256_End RT_SHA256 8 32"

definition RT_HMAC_MD5 :: "bytes \<Rightarrow> bytes \<Rightarrow> bytes \<Rightarrow> nat \<Rightarrow> bytes option" where
  "RT_HMAC_MD5 = hmac_with RT_MD5_Init RT_MD5_Append RT_MD5_End RT_MD5 4 16"

section \<open>Streaming\<close>

text \<open>The chaining value after all full blocks of a byte string, and what remains of the string.\<close>

function absorb :: "(UINT32 list \<Rightarrow> bytes \<Rightarrow> UINT32 list) \<Rightarrow> UINT32 list \<Rightarrow> bytes \<Rightarrow> UINT32 list" where
  "absorb f hv u = (if length u < 64 then hv else absorb f (f hv (take 64 u)) (drop 64 u))"
  by pat_completeness auto
termination by (relation "measure (\<lambda>(f, hv, u). length u)") auto

declare absorb.simps [simp del]

definition rest64 :: "bytes \<Rightarrow> bytes" where
  "rest64 u = drop (64 * (length u div 64)) u"

lemma absorb_short: "length u < 64 \<Longrightarrow> absorb f hv u = hv" "length u < 64 \<Longrightarrow> rest64 u = u"
  by (simp_all add: absorb.simps rest64_def)

lemma absorb_block: "length b = 64 \<Longrightarrow> absorb f hv (b @ u) = absorb f (f hv b) u"
  by (subst absorb.simps) simp

lemma rest64_block: "length b = 64 \<Longrightarrow> rest64 (b @ u) = rest64 u"
proof -
  assume "length b = 64"
  moreover have "(64 + length u) div 64 = 1 + length u div 64"
    by presburger
  ultimately show ?thesis
    by (simp add: rest64_def)
qed

lemma length_rest64: "length (rest64 u) = length u mod 64" "length (rest64 u) < 64"
  by (simp_all add: rest64_def minus_mult_div_eq_mod)

lemma absorb_append: "absorb f hv (u @ v) = absorb f (absorb f hv u) (rest64 u @ v)"
    "rest64 (u @ v) = rest64 (rest64 u @ v)"
proof (induction f hv u rule: absorb.induct)
  case (1 f hv u)
  show "absorb f hv (u @ v) = absorb f (absorb f hv u) (rest64 u @ v)" "rest64 (u @ v) = rest64 (rest64 u @ v)"
  proof -
    show "absorb f hv (u @ v) = absorb f (absorb f hv u) (rest64 u @ v)"
    proof (cases "length u < 64")
      case False
      have u: "u @ v = take 64 u @ drop 64 u @ v" "length (take 64 u) = 64" "rest64 u = rest64 (drop 64 u)"
        using False rest64_block[of "take 64 u" "drop 64 u"] by simp_all
      have "absorb f hv u = absorb f (f hv (take 64 u)) (drop 64 u)"
        using False by (subst absorb.simps) simp
      then show ?thesis
        using 1(1)[OF False] unfolding u(1) absorb_block[OF u(2)] u(3) by simp
    qed (simp add: absorb_short)
    show "rest64 (u @ v) = rest64 (rest64 u @ v)"
    proof (cases "length u < 64")
      case False
      have u: "u @ v = take 64 u @ drop 64 u @ v" "length (take 64 u) = 64" "rest64 u = rest64 (drop 64 u)"
        using False rest64_block[of "take 64 u" "drop 64 u"] by simp_all
      then show ?thesis
        using 1(2)[OF False] unfolding u(1) rest64_block[OF u(2)] u(3) by simp
    qed (simp add: absorb_short)
  qed
qed

text \<open>The context after a byte string \<open>u\<close> has been processed from the initial value \<open>iv\<close>.\<close>

definition filled :: "bytes \<Rightarrow> bytes" where
  "filled r = r @ replicate (64 - length r) 0"

definition ctx_after :: "(UINT32 list \<Rightarrow> bytes \<Rightarrow> UINT32 list) \<Rightarrow> UINT32 list \<Rightarrow> bytes \<Rightarrow> HASH_CTX \<Rightarrow> bool" where
  "ctx_after f iv u ctx \<longleftrightarrow> HashValue ctx = absorb f iv u \<and> Block ctx = filled (rest64 u) \<and> BlockLen ctx = of_nat (length (rest64 u))
     \<and> MessageLen ctx = of_nat (length u)"

lemma unat_of_nat_32: "n < 2 ^ 32 \<Longrightarrow> unat (of_nat n :: UINT32) = n"
  by (simp add: unat_of_nat take_bit_nat_eq_self)

lemma fill_test:
  assumes "r < 64" and "n + 64 \<le> 2 ^ 32"
  shows "(of_nat r + of_nat n :: UINT32) < 64 \<longleftrightarrow> r + n < 64"
  using assms unat_of_nat_32[of "r + n"] by (simp add: word_less_nat_alt)

lemma filled_move: "length r + length m \<le> 64 \<Longrightarrow> move_at (filled r) (length r) m = filled (r @ m)"
  by (simp add: filled_def move_at_append_left)

lemma append_loop_absorb:
  assumes "length r < 64" and "length m + 64 \<le> 2 ^ 32" and "Block ctx = filled r" and "BlockLen ctx = of_nat (length r)"
  shows "append_loop f m ctx = Some (ctx\<lparr>HashValue := absorb f (HashValue ctx) (r @ m), Block := filled (rest64 (r @ m)),
    BlockLen := of_nat (length (rest64 (r @ m)))\<rparr>)"
  using assms
proof (induction f m ctx arbitrary: r rule: append_loop.induct)
  case (1 f m ctx)
  have r: "unat (BlockLen ctx) = length r"
    using 1(2,5) unat_of_nat_32[of "length r"] by simp
  have t: "BlockLen ctx + of_nat (length m) < (64 :: UINT32) \<longleftrightarrow> length r + length m < 64"
    using fill_test[OF 1(2,3)] 1(5) by simp
  consider "m = []" | "m \<noteq> []" "length r + length m < 64" | "m \<noteq> []" "64 \<le> length r + length m"
    by linarith
  then show ?case
  proof cases
    case 1
    then show ?thesis
      using "1.prems" by (subst append_loop.simps) (simp add: absorb_short)
  next
    case 2
    then show ?thesis
      using "1.prems" t r by (subst append_loop.simps) (simp add: absorb_short filled_move)
  next
    case 3
    define k where "k = 64 - length r"
    define b where "b = r @ take k m"
    have k: "k \<le> length m" "length b = 64" "r @ m = b @ drop k m" "length r + k = 64"
      using 3 "1.prems" by (simp_all add: k_def b_def)
    have mv: "move_at (Block ctx) (length r) (take k m) = b"
      using k "1.prems"(3) filled_move[of r "take k m"] by (simp add: b_def filled_def)
    have "append_loop f m ctx = append_loop f (drop k m) (hash_block f (ctx\<lparr>Block := b, BlockLen := 64\<rparr>))"
      using 3 t r k(1) "1.prems"(1) mv by (subst append_loop.simps) (simp add: k_def[symmetric])
    also have "\<dots> = Some ((hash_block f (ctx\<lparr>Block := b, BlockLen := 64\<rparr>))\<lparr>
        HashValue := absorb f (HashValue (hash_block f (ctx\<lparr>Block := b, BlockLen := 64\<rparr>))) ([] @ drop k m),
        Block := filled (rest64 ([] @ drop k m)), BlockLen := of_nat (length (rest64 ([] @ drop k m)))\<rparr>)"
      using "1.IH"[of "of_nat (length m)" "length r" "[]"] 3 t r k "1.prems" mv
      by (simp add: hash_block_def filled_def k_def[symmetric])
    finally show ?thesis
      using k(3) absorb_block[OF k(2)] rest64_block[OF k(2)] by (simp add: hash_block_def)
  qed
qed

lemma init_ctx_after: "ctx_after f iv [] (hash_init iv ctx)"
  by (simp add: ctx_after_def hash_init_def absorb_short filled_def)

lemma append_ctx_after:
  assumes "ctx_after f iv u ctx" and "length m + 64 \<le> 2 ^ 32"
  shows "\<exists>c. hash_append_msg f ctx m = Some c \<and> ctx_after f iv (u @ m) c"
  using assms append_loop_absorb[OF length_rest64(2)[of u] assms(2), of ctx f]
  by (simp add: ctx_after_def hash_append_msg_def absorb_append[symmetric])


section \<open>Padding\<close>

text \<open>The padded message of RFC 1321 and FIPS 180-4; \<open>enc\<close> is the byte order of the length in bits.\<close>

definition md_pad :: "(UINT64 \<Rightarrow> bytes) \<Rightarrow> bytes \<Rightarrow> bytes" where
  "md_pad enc m = m @ [0x80] @ replicate ((119 - length m mod 64) mod 64) 0 @ enc (of_nat (8 * length m))"

definition md_hash :: "(UINT32 list \<Rightarrow> bytes \<Rightarrow> UINT32 list) \<Rightarrow> UINT32 list \<Rightarrow> (UINT64 \<Rightarrow> bytes) \<Rightarrow> (UINT32 \<Rightarrow> bytes) \<Rightarrow> bytes \<Rightarrow> bytes" where
  "md_hash f iv enc out m = concat (map out (absorb f iv (md_pad enc m)))"

lemma pad_count:
  assumes "r < 64"
  shows "(119 - r) mod 64 = (if 55 < r then 63 - r + 56 else 55 - r :: nat)"
proof (cases "55 < r")
  case False
  then have "119 - r = 55 - r + 64"
    by simp
  then show ?thesis
    using False by (simp only: mod_add_self2) simp
qed (use assms in simp)

lemma filled_end:
  assumes "length r < 64"
  shows "(filled r)[length r := 0x80] = filled (r @ [0x80])"
  using assms by (simp add: filled_def list_update_append Suc_diff_Suc[symmetric])

lemma filled_length_field:
  assumes "length r \<le> 56" and "length l = 8"
  shows "move_at (filled r) 56 l = r @ replicate (56 - length r) 0 @ l"
  using assms by (simp add: filled_def move_at_def replicate_add[symmetric])

lemma end_ctx_after:
  assumes "ctx_after f iv u ctx"
  shows "snd (hash_end f o64 o32 ctx) = md_hash f iv (\<lambda>n. le64_bytes (o64 n)) (\<lambda>w. le32_bytes (o32 w)) u"
proof -
  define r hv l where "r = rest64 u" and "hv = absorb f iv u" and "l = le64_bytes (o64 (8 * of_nat (length u)))"
  define z where "z = replicate ((119 - length u mod 64) mod 64) (0 :: UINT8)"
  have r: "length r < 64" "length r = length u mod 64" "unat (BlockLen ctx) = length r"
      "(55 :: UINT32) < BlockLen ctx \<longleftrightarrow> 55 < length r"
    using assms length_rest64[of u] unat_of_nat_32[of "length r"] by (simp_all add: r_def ctx_after_def word_less_nat_alt)
  have c: "HashValue ctx = hv" "Block ctx = filled r" "MessageLen ctx * 8 = 8 * of_nat (length u)"
    using assms by (simp_all add: ctx_after_def r_def hv_def mult.commute)
  have "absorb f iv (md_pad (\<lambda>n. le64_bytes (o64 n)) u) = absorb f hv (r @ [0x80] @ z @ l)"
    unfolding md_pad_def hv_def r_def z_def l_def of_nat_mult of_nat_numeral by (rule absorb_append)
  also have "\<dots> = (if 55 < length r then f (f hv (filled (r @ [0x80]))) (replicate 56 0 @ l)
      else f hv (r @ [0x80] @ replicate (55 - length r) 0 @ l))"
  proof (cases "55 < length r")
    case True
    have z: "z = replicate (63 - length r) 0 @ replicate 56 0"
      using True unfolding z_def r(2)[symmetric] pad_count[OF r(1)] by (simp add: replicate_add)
    have "r @ [0x80] @ z @ l = filled (r @ [0x80]) @ (replicate 56 0 @ l) @ []"
      using True r(1) by (simp add: z filled_def)
    moreover have "length (filled (r @ [0x80])) = 64" "length (replicate 56 0 @ l) = 64"
      using r(1) by (simp_all add: filled_def l_def)
    ultimately show ?thesis
      using True by (simp only: absorb_block absorb_short list.size if_True)
  next
    case False
    have z: "z = replicate (55 - length r) 0"
      using False unfolding z_def r(2)[symmetric] pad_count[OF r(1)] by simp
    have "length (r @ [0x80] @ z @ l) = 64"
      using False by (simp add: z l_def)
    then show ?thesis
      using False absorb_block[of "r @ [0x80] @ z @ l" f hv "[]"] by (simp add: z absorb_short)
  qed
  finally have a: "absorb f iv (md_pad (\<lambda>n. le64_bytes (o64 n)) u) = \<dots>" .
  have m: "move_at zero_block 56 l = replicate 56 0 @ l"
    using filled_length_field[of "[]" l] by (simp add: filled_def l_def)
  have n: "move_at (filled (r @ [0x80])) 56 l = r @ [0x80] @ replicate (55 - length r) 0 @ l" if "length r \<le> 55"
    using filled_length_field[of "r @ [0x80]" l] that by (simp add: l_def)
  show ?thesis
    unfolding hash_end_def md_hash_def a Let_def r(3) c(2) filled_end[OF r(1)]
    using r(4) c m n by (simp add: hash_block_def l_def[symmetric] comp_def)
qed



section \<open>The interface of a hash function\<close>

text \<open>HMAC over a hash function \<open>H\<close> with blocks of 64 bytes, as in RFC 2104.\<close>

definition rfc2104_key :: "(bytes \<Rightarrow> bytes) \<Rightarrow> bytes \<Rightarrow> bytes" where
  "rfc2104_key H K = (let k = (if length K \<le> 64 then K else H K) in k @ replicate (64 - length k) 0)"

definition rfc2104 :: "(bytes \<Rightarrow> bytes) \<Rightarrow> bytes \<Rightarrow> bytes \<Rightarrow> bytes" where
  "rfc2104 H K m = H (xor_bytes (rfc2104_key H K) (replicate 64 0x5c) @ H (xor_bytes (rfc2104_key H K) (replicate 64 0x36) @ m))"

text \<open>
  What a client relies on: \<open>rep u ctx\<close> says that the context stands for the byte string \<open>u\<close>, which the three
  functions keep up, and \<open>digest\<close> is the hash of a whole string.
\<close>

locale streaming_hash =
  fixes Init :: "HASH_CTX \<Rightarrow> HASH_CTX" and Append :: "HASH_CTX \<Rightarrow> bytes \<Rightarrow> HASH_CTX option" and End :: "HASH_CTX \<Rightarrow> HASH_CTX \<times> bytes"
    and rep :: "bytes \<Rightarrow> HASH_CTX \<Rightarrow> bool" and digest :: "bytes \<Rightarrow> bytes" and n :: nat
  assumes init: "rep [] (Init ctx)"
    and append: "rep u ctx \<Longrightarrow> length m + 64 \<le> 2 ^ 32 \<Longrightarrow> \<exists>c. Append ctx m = Some c \<and> rep (u @ m) c"
    and finish: "rep u ctx \<Longrightarrow> snd (End ctx) = digest u"
    and digest_length: "length (digest u) = n"
    and digest_fits: "n \<le> 64"
begin

definition one_shot :: "HASH_CTX \<Rightarrow> bytes \<Rightarrow> bytes option" where
  "one_shot ctx m = map_option (\<lambda>c. snd (End c)) (Append (Init ctx) m)"

lemma one_shot_digest: "length m + 64 \<le> 2 ^ 32 \<Longrightarrow> one_shot ctx m = Some (digest m)"
  using append[OF init, of m ctx] finish by (auto simp: one_shot_def)

lemma stream_digest:
  assumes "rep u ctx" and "\<forall>m \<in> set ms. length m + 64 \<le> 2 ^ 32"
  shows "\<exists>c. foldl (\<lambda>r m. r \<bind> (\<lambda>c. Append c m)) (Some ctx) ms = Some c \<and> snd (End c) = digest (u @ concat ms)"
  using assms
proof (induction ms arbitrary: u ctx)
  case (Cons m ms)
  obtain c where "Append ctx m = Some c" "rep (u @ m) c"
    using append[OF Cons.prems(1), of m] Cons.prems(2) by auto
  then show ?case
    using Cons.IH[of "u @ m" c] Cons.prems(2) by simp
qed (simp add: finish)

lemma length_hmac_key: "length (rfc2104_key digest K) = 64"
  using digest_fits by (simp add: rfc2104_key_def Let_def digest_length)

lemma map_xor: "length k = 64 \<Longrightarrow> map (\<lambda>b. b XOR c) k = xor_bytes k (replicate 64 c)"
  by (rule nth_equalityI) simp_all

lemma map_xor_twice: "map (\<lambda>b :: UINT8. b XOR (0x36 XOR 0x5c)) (map (\<lambda>b. b XOR 0x36) k) = map (\<lambda>b. b XOR 0x5c) k"
  by (simp add: comp_def xor.assoc)

lemma mac_key_ok:
  assumes "length K + 64 \<le> 2 ^ 32"
  shows "mac_key (one_shot ctx) K = Some (rfc2104_key digest K)"
  using one_shot_digest[OF assms] digest_fits digest_length[of K]
  by (simp add: mac_key_def rfc2104_key_def Let_def move_at_def)

lemma hmac_with_correct:
  assumes "length K + 64 \<le> 2 ^ 32" and "length m + 64 \<le> 2 ^ 32"
  shows "hmac_with Init Append End (one_shot ctx) nctx n K m MAC MACLen
    = (if min MACLen n \<le> length MAC then Some (move_at MAC 0 (take MACLen (rfc2104 digest K m))) else None)"
proof -
  have l: "length (map (\<lambda>b. b XOR c) (rfc2104_key digest K)) + 64 \<le> 2 ^ 32" for c
    by (simp add: length_hmac_key)
  obtain c1 where c1: "Append (Init (zero_ctx nctx)) (map (\<lambda>b. b XOR 0x36) (rfc2104_key digest K)) = Some c1" "rep (map (\<lambda>b. b XOR 0x36) (rfc2104_key digest K)) c1"
    using append[OF init l] by force
  obtain c2 where c2: "Append c1 m = Some c2" "snd (End c2) = digest (map (\<lambda>b. b XOR 0x36) (rfc2104_key digest K) @ m)"
    using append[OF c1(2) assms(2)] finish by force
  obtain c3 where c3: "Append (Init (zero_ctx nctx)) (map (\<lambda>b. b XOR 0x5c) (rfc2104_key digest K)) = Some c3" "rep (map (\<lambda>b. b XOR 0x5c) (rfc2104_key digest K)) c3"
    using append[OF init l] by force
  obtain c4 where c4: "Append c3 (snd (End c2)) = Some c4" "snd (End c4) = digest (map (\<lambda>b. b XOR 0x5c) (rfc2104_key digest K) @ snd (End c2))"
    using append[OF c3(2), of "snd (End c2)"] finish digest_fits digest_length c2(2) by force
  have h: "snd (End c4) = rfc2104 digest K m"
    unfolding c4(2) c2(2) rfc2104_def map_xor[OF length_hmac_key] ..
  have "hmac_with Init Append End (one_shot ctx) nctx n K m MAC MACLen = (let k = (if MACLen > n then n else MACLen) in
      if k \<le> length MAC then Some (move_at MAC 0 (take k (rfc2104 digest K m))) else None)"
    unfolding hmac_with_def mac_key_ok[OF assms(1)] Let_def bind.bind_lunit c1(1) c2(1) map_xor_twice c3(1) c4(1) h ..
  moreover have "length (rfc2104 digest K m) = n"
    by (simp add: rfc2104_def digest_length)
  ultimately show ?thesis
    by (auto simp: Let_def min_def)
qed

end

lemma md_hash_length:
  assumes "\<And>hv b. length hv = k \<Longrightarrow> length (f hv b) = k" and "length iv = k" and "\<And>w. length (out w) = 4"
  shows "length (md_hash f iv enc out m) = 4 * k"
proof -
  have "length (absorb f iv u) = k" for u
    using assms(2)
  proof (induction u arbitrary: iv rule: length_induct)
    case (1 u)
    then show ?case
      by (subst absorb.simps) (simp add: assms(1))
  qed
  then show ?thesis
    by (simp add: md_hash_def length_concat comp_def assms(3) sum_list_triv)
qed

section \<open>The standards\<close>

text \<open>
  MD5 as in RFC 1321 and the Secure Hash Algorithms as in FIPS 180-4, over the steps \<open>t\<close>. The message schedules are functions
  of the step. The order of the message words and the rotation amounts of MD5 are given by formulas.
\<close>

definition rfc1321_op :: "nat \<Rightarrow> nat \<times> nat \<times> UINT32" where
  "rfc1321_op t = ([t, 5 * t + 1, 3 * t + 5, 7 * t] ! (t div 16) mod 16,
     [[7, 12, 17, 22], [5, 9, 14, 20], [4, 11, 16, 23], [6, 10, 15, 21]] ! (t div 16) ! (t mod 4),
     snd (snd ((ROUND1_OPS @ ROUND2_OPS @ ROUND3_OPS @ ROUND4_OPS) ! t)))"

definition rfc1321_step :: "bytes \<Rightarrow> nat \<Rightarrow> md5_regs \<Rightarrow> md5_regs" where
  "rfc1321_step blk t v = (case rfc1321_op t of (k, s, T) \<Rightarrow> case v of (a, b, c, d) \<Rightarrow>
     (d, b + ROTL32 (a + ([md5_F, md5_G, md5_H, md5_I] ! (t div 16)) b c d + le32_at blk (4 * k) + T) s, b, c))"

definition rfc1321_block :: "UINT32 list \<Rightarrow> bytes \<Rightarrow> UINT32 list" where
  "rfc1321_block hv b =
     (case fold (rfc1321_step b) [0..<64] (hv ! 0, hv ! 1, hv ! 2, hv ! 3) of
        (a, b', c, d) \<Rightarrow> map2 (+) hv [a, b', c, d])"

definition be32_at :: "bytes \<Rightarrow> nat \<Rightarrow> UINT32" where
  "be32_at b i = push_bit 24 (ucast (b ! i)) OR push_bit 16 (ucast (b ! (i + 1))) OR push_bit 8 (ucast (b ! (i + 2)))
     OR ucast (b ! (i + 3))"

fun sha1_W :: "bytes \<Rightarrow> nat \<Rightarrow> UINT32" where
  "sha1_W b t =
     (if t < 16 then be32_at b (4 * t)
      else ROTL32 (sha1_W b (t - 3) XOR sha1_W b (t - 8) XOR sha1_W b (t - 14) XOR sha1_W b (t - 16)) 1)"

declare sha1_W.simps [simp del]

definition fips_sha1_step :: "bytes \<Rightarrow> nat \<Rightarrow> sha1_regs \<Rightarrow> sha1_regs" where
  "fips_sha1_step blk t v = (case v of (a, b, c, d, e) \<Rightarrow>
     (ROTL32 a 5 + ([Ch, Parity, Maj, Parity] ! (t div 20)) b c d + e + SHA1_K ! (t div 20) + sha1_W blk t, a, ROTL32 b 30, c, d))"

definition fips_sha1_block :: "UINT32 list \<Rightarrow> bytes \<Rightarrow> UINT32 list" where
  "fips_sha1_block hv blk =
     (case fold (fips_sha1_step blk) [0..<80] (hv ! 0, hv ! 1, hv ! 2, hv ! 3, hv ! 4) of
        (a, b, c, d, e) \<Rightarrow> map2 (+) hv [a, b, c, d, e])"

fun sha256_W :: "bytes \<Rightarrow> nat \<Rightarrow> UINT32" where
  "sha256_W b t =
     (if t < 16 then be32_at b (4 * t)
      else Sigma_256_1 (sha256_W b (t - 2)) + sha256_W b (t - 7) + Sigma_256_0 (sha256_W b (t - 15)) + sha256_W b (t - 16))"

declare sha256_W.simps [simp del]

definition fips_sha256_block :: "UINT32 list \<Rightarrow> bytes \<Rightarrow> UINT32 list" where
  "fips_sha256_block hv blk =
     (case fold (\<lambda>t. sha256_rotate (SHA256_K ! t) (sha256_W blk t)) [0..<64]
         (hv ! 0, hv ! 1, hv ! 2, hv ! 3, hv ! 4, hv ! 5, hv ! 6, hv ! 7) of
        (a, b, c, d, e, f, g, h) \<Rightarrow> map2 (+) hv [a, b, c, d, e, f, g, h])"

definition be_bytes32 :: "UINT32 \<Rightarrow> bytes" where "be_bytes32 w = rev (le32_bytes w)"
definition be_bytes64 :: "UINT64 \<Rightarrow> bytes" where "be_bytes64 w = rev (le64_bytes w)"

definition rfc1321_md5 :: "bytes \<Rightarrow> bytes" where
  "rfc1321_md5 = md_hash rfc1321_block MD5_DefaultHashValue le64_bytes le32_bytes"

definition fips_sha1 :: "bytes \<Rightarrow> bytes" where
  "fips_sha1 = md_hash fips_sha1_block SHA1_DefaultHashValue be_bytes64 be_bytes32"

definition fips_sha256 :: "bytes \<Rightarrow> bytes" where
  "fips_sha256 = md_hash fips_sha256_block SHA256_DefaultHashValue be_bytes64 be_bytes32"

lemma absorb_cong:
  assumes "\<And>hv b. length hv = k \<Longrightarrow> f hv b = g hv b" and "\<And>hv b. length hv = k \<Longrightarrow> length (f hv b) = k" and "length iv = k"
  shows "absorb f iv u = absorb g iv u"
  using assms(3)
proof (induction u arbitrary: iv rule: length_induct)
  case (1 u)
  then show ?case
  proof (cases "length u < 64")
    case False
    then have "absorb f (f iv (take 64 u)) (drop 64 u) = absorb g (f iv (take 64 u)) (drop 64 u)"
      using 1 by (simp add: assms(2))
    then show ?thesis
      using False 1(2) by (subst (1 2) absorb.simps) (simp add: assms(1))
  qed (simp add: absorb_short)
qed

lemma be32_swap: "cpu2be32 (le32_at b i) = be32_at b i"
proof -
  have "le32_bytes (be32_at b i) = rev [b ! i, b ! (i + 1), b ! (i + 2), b ! (i + 3)]"
    unfolding be32_at_def le32_bytes_def rev.simps append.simps list.inject
    by (intro conjI refl bit_word_eqI) (auto simp: bit_simps dest: bit_imp_le_length)
  then have "le32_bytes (cpu2be32 (le32_at b i)) = le32_bytes (be32_at b i)"
    by (simp add: SWAP32_bytes le32_bytes_at)
  then show ?thesis
    by (metis le32_at_bytes)
qed

lemma be_words_nth: "t < 16 \<Longrightarrow> be_words b ! t = be32_at b (4 * t)" "length (be_words b) = 16"
  by (simp_all add: be_words_def be32_swap)

subsection \<open>SHA-1 and SHA-256\<close>

lemma sha1_schedule:
  assumes "16 \<le> n"
  shows "fold sha1_extend [16..<n] (be_words b) = map (sha1_W b) [0..<n]"
  using assms
proof (induction n rule: dec_induct)
  case base
  show ?case
    by (rule nth_equalityI) (simp_all add: be_words_nth sha1_W.simps)
next
  case (step n)
  then show ?case
    by (simp add: sha1_extend_def sha1_W.simps[of b n])
qed

lemma sha1_compress_fips:
  assumes "length hv = 5"
  shows "sha1_compress hv b = fips_sha1_block hv b"
proof -
  have W: "fold sha1_extend [16..<80] (be_words b) = map (sha1_W b) [0..<80]"
    by (rule sha1_schedule) simp
  have s: "fold (sha1_step g K (map (sha1_W b) [0..<80])) [i..<j] v = fold (fips_sha1_step b) [i..<j] v"
    if "i = 20 * m" "j = 20 * m + 20" "m < 4" "g = [Ch, Parity, Maj, Parity] ! m" "K = SHA1_K ! m" for g K i j v m
  proof (rule fold_cong)
    fix t assume t: "t \<in> set [i..<j]"
    then have m: "t div 20 = m" "t < 80"
      using that by auto
    then have w: "map (sha1_W b) [0..<80] ! t = sha1_W b t"
      by (simp del: upt_Suc)
    show "sha1_step g K (map (sha1_W b) [0..<80]) t = fips_sha1_step b t"
      unfolding fun_eq_iff split_paired_All sha1_step.simps fips_sha1_step_def w m(1) that(4,5) by simp
  qed simp_all
  have u: "fold (fips_sha1_step b) [0..<80] v = fold (fips_sha1_step b) [60..<80] (fold (fips_sha1_step b) [40..<60]
      (fold (fips_sha1_step b) [20..<40] (fold (fips_sha1_step b) [0..<20] v)))" for v
    using upt_add_eq_append[of 0 20 60] upt_add_eq_append[of 20 40 40] upt_add_eq_append[of 40 60 20] by (simp del: upt_Suc)
  obtain x0 x1 x2 x3 x4 where hv: "hv = [x0, x1, x2, x3, x4]"
    using assms by (auto simp: length_Suc_conv eval_nat_numeral)
  have r: "fold (sha1_step Ch (SHA1_K ! 0) (map (sha1_W b) [0..<80])) [0..<20] v = fold (fips_sha1_step b) [0..<20] v"
      "fold (sha1_step Parity (SHA1_K ! 1) (map (sha1_W b) [0..<80])) [20..<40] v = fold (fips_sha1_step b) [20..<40] v"
      "fold (sha1_step Maj (SHA1_K ! 2) (map (sha1_W b) [0..<80])) [40..<60] v = fold (fips_sha1_step b) [40..<60] v"
      "fold (sha1_step Parity (SHA1_K ! 3) (map (sha1_W b) [0..<80])) [60..<80] v = fold (fips_sha1_step b) [60..<80] v" for v
    by ((rule s[where m = 0]; simp), (rule s[where m = 1]; simp), (rule s[where m = 2]; simp), (rule s[where m = 3]; simp))
  have "sha1_compress hv b = (case fold (fips_sha1_step b) [0..<80] (hv ! 0, hv ! 1, hv ! 2, hv ! 3, hv ! 4) of
      (a, c, d, e, f) \<Rightarrow> [hv ! 0 + a, hv ! 1 + c, hv ! 2 + d, hv ! 3 + e, hv ! 4 + f])"
    unfolding sha1_compress_def Let_def W u r ..
  then show ?thesis
    unfolding fips_sha1_block_def hv by (simp split: prod.split del: upt_Suc)
qed

lemma sha256_loop:
  assumes "n \<le> 64"
  shows "fold sha256_step [0..<n] (be_words b, v)
    = (map (sha256_W b) [0..<max 16 n], fold (\<lambda>t. sha256_rotate (SHA256_K ! t) (sha256_W b t)) [0..<n] v)"
  using assms
proof (induction n)
  case 0
  show ?case
    by simp (rule nth_equalityI; simp add: be_words_nth sha256_W.simps)
next
  case (Suc n)
  have "sha256_extend n (map (sha256_W b) [0..<max 16 n]) = map (sha256_W b) [0..<max 16 (Suc n)]"
    by (auto simp: sha256_extend_def max_def sha256_W.simps[of b n] not_le)
  moreover have "map (sha256_W b) [0..<max 16 (Suc n)] ! n = sha256_W b n"
    by (subst nth_map) (simp_all del: upt_Suc)
  ultimately show ?case
    using Suc by (simp add: Let_def del: max_Suc_numeral max_numeral_Suc)
qed

lemma sha256_compress_fips:
  assumes "length hv = 8"
  shows "sha256_compress hv b = fips_sha256_block hv b"
proof -
  obtain x0 x1 x2 x3 x4 x5 x6 x7 where "hv = [x0, x1, x2, x3, x4, x5, x6, x7]"
    using assms by (auto simp: length_Suc_conv eval_nat_numeral)
  then show ?thesis
    unfolding sha256_compress_def fips_sha256_block_def Let_def sha256_loop[OF order_refl] by (simp split: prod.split)
qed

subsection \<open>MD5\<close>

definition md5_ops :: "nat \<Rightarrow> (nat \<times> nat \<times> UINT32) list" where
  "md5_ops m = [ROUND1_OPS, ROUND2_OPS, ROUND3_OPS, ROUND4_OPS] ! m"

lemma md5_ops_formula: "m < 4 \<Longrightarrow> md5_ops m = map rfc1321_op [16 * m..<16 * m + 16]"
proof -
  have "\<forall>m \<in> {0, 1, 2, 3}. md5_ops m = map rfc1321_op [16 * m..<16 * m + 16]"
    by code_simp
  moreover assume "m < 4"
  ultimately show ?thesis
    by (auto simp: less_Suc_eq numeral_eq_Suc)
qed

lemma md5_round:
  assumes "m < 4" and "g = [md5_F, md5_G, md5_H, md5_I] ! m"
  shows "fold (ROUND g (map (\<lambda>i. le32_at b (4 * i)) [0..<16])) (md5_ops m) v = fold (rfc1321_step b) [16 * m..<16 * m + 16] v"
  unfolding md5_ops_formula[OF assms(1)] fold_map
proof (rule fold_cong)
  fix t assume t: "t \<in> set [16 * m..<16 * m + 16]"
  then have d: "t div 16 = m"
    by auto
  obtain k s T where op: "rfc1321_op t = (k, s, T)"
    by (cases "rfc1321_op t")
  have "k < 16"
    using op by (auto simp: rfc1321_op_def)
  then have x: "map (\<lambda>i. le32_at b (4 * i)) [0..<16] ! k = le32_at b (4 * k)"
    by (simp del: upt_Suc)
  show "(ROUND g (map (\<lambda>i. le32_at b (4 * i)) [0..<16]) \<circ> rfc1321_op) t = rfc1321_step b t"
    unfolding fun_eq_iff split_paired_All rfc1321_step_def comp_def op prod.case ROUND.simps x d assms(2)[symmetric]
    by (simp add: ac_simps)
qed simp_all

lemma md5_compress_rfc:
  assumes "length hv = 4"
  shows "md5_compress hv b = rfc1321_block hv b"
proof -
  have g: "md5_F = [md5_F, md5_G, md5_H, md5_I] ! 0" "md5_G = [md5_F, md5_G, md5_H, md5_I] ! 1"
      "md5_H = [md5_F, md5_G, md5_H, md5_I] ! 2" "md5_I = [md5_F, md5_G, md5_H, md5_I] ! 3"
    by simp_all
  have o: "ROUND1_OPS = md5_ops 0" "ROUND2_OPS = md5_ops 1" "ROUND3_OPS = md5_ops 2" "ROUND4_OPS = md5_ops 3"
    by (simp_all add: md5_ops_def)
  have u: "fold (rfc1321_step b) [0..<64] v = fold (rfc1321_step b) [48..<64] (fold (rfc1321_step b) [32..<48]
      (fold (rfc1321_step b) [16..<32] (fold (rfc1321_step b) [0..<16] v)))" for v
    using upt_add_eq_append[of 0 16 48] upt_add_eq_append[of 16 32 32] upt_add_eq_append[of 32 48 16] by (simp del: upt_Suc)
  define X where "X = map (\<lambda>i. le32_at b (4 * i)) [0..<16]"
  have r: "fold (ROUND md5_F X) ROUND1_OPS v = fold (rfc1321_step b) [0..<16] v"
      "fold (ROUND md5_G X) ROUND2_OPS v = fold (rfc1321_step b) [16..<32] v"
      "fold (ROUND md5_H X) ROUND3_OPS v = fold (rfc1321_step b) [32..<48] v"
      "fold (ROUND md5_I X) ROUND4_OPS v = fold (rfc1321_step b) [48..<64] v" for v
    using md5_round[OF _ g(1), of b v] md5_round[OF _ g(2), of b v] md5_round[OF _ g(3), of b v] md5_round[OF _ g(4), of b v]
    unfolding o X_def[symmetric] by simp_all
  obtain x0 x1 x2 x3 where hv: "hv = [x0, x1, x2, x3]"
    using assms by (auto simp: length_Suc_conv eval_nat_numeral)
  have "md5_compress hv b = (case fold (rfc1321_step b) [0..<64] (hv ! 0, hv ! 1, hv ! 2, hv ! 3) of
      (a, c, d, e) \<Rightarrow> [hv ! 0 + a, hv ! 1 + c, hv ! 2 + d, hv ! 3 + e])"
    unfolding md5_compress_def Let_def X_def[symmetric] u r ..
  then show ?thesis
    unfolding rfc1321_block_def hv by (simp split: prod.split del: upt_Suc)
qed

section \<open>Conformance\<close>

lemma compress_length:
  "length hv = 4 \<Longrightarrow> length (md5_compress hv b) = 4" "length hv = 5 \<Longrightarrow> length (sha1_compress hv b) = 5"
  "length hv = 8 \<Longrightarrow> length (sha256_compress hv b) = 8"
  by (simp_all add: md5_compress_def sha1_compress_def sha256_compress_def Let_def split: prod.split del: upt_Suc)

lemma default_length: "length MD5_DefaultHashValue = 4" "length SHA1_DefaultHashValue = 5" "length SHA256_DefaultHashValue = 8"
  by (simp_all add: MD5_DefaultHashValue_def SHA1_DefaultHashValue_def SHA256_DefaultHashValue_def)

lemma swapped_bytes: "(\<lambda>w. le32_bytes (cpu2be32 w)) = be_bytes32" "(\<lambda>n. le64_bytes (cpu2be64 n)) = be_bytes64"
  by (simp_all add: be_bytes32_def be_bytes64_def SWAP32_bytes SWAP64_bytes fun_eq_iff)

lemma code_hashes:
  "md_hash md5_compress MD5_DefaultHashValue le64_bytes le32_bytes = rfc1321_md5"
  "md_hash sha1_compress SHA1_DefaultHashValue be_bytes64 be_bytes32 = fips_sha1"
  "md_hash sha256_compress SHA256_DefaultHashValue be_bytes64 be_bytes32 = fips_sha256"
  unfolding rfc1321_md5_def fips_sha1_def fips_sha256_def fun_eq_iff md_hash_def
  using absorb_cong[OF md5_compress_rfc compress_length(1) default_length(1)]
    absorb_cong[OF sha1_compress_fips compress_length(2) default_length(2)]
    absorb_cong[OF sha256_compress_fips compress_length(3) default_length(3)] by simp_all

lemma digest_lengths: "length (rfc1321_md5 m) = 16" "length (fips_sha1 m) = 20" "length (fips_sha256 m) = 32"
  unfolding code_hashes[symmetric]
  using md_hash_length[OF compress_length(1) default_length(1)] md_hash_length[OF compress_length(2) default_length(2)]
    md_hash_length[OF compress_length(3) default_length(3)] by (simp_all add: be_bytes32_def)

interpretation md5: streaming_hash RT_MD5_Init RT_MD5_Append RT_MD5_End "ctx_after md5_compress MD5_DefaultHashValue" rfc1321_md5 16
  by unfold_locales (simp_all add: RT_MD5_Init_def init_ctx_after RT_MD5_Append_def append_ctx_after RT_MD5_End_def
      end_ctx_after code_hashes digest_lengths)

interpretation sha1: streaming_hash RT_SHA1_Init RT_SHA1_Append RT_SHA1_End "ctx_after sha1_compress SHA1_DefaultHashValue" fips_sha1 20
  by unfold_locales (simp_all add: RT_SHA1_Init_def init_ctx_after RT_SHA1_Append_def append_ctx_after RT_SHA1_End_def
      end_ctx_after swapped_bytes code_hashes digest_lengths)

interpretation sha256: streaming_hash RT_SHA256_Init RT_SHA256_Append RT_SHA256_End
    "ctx_after sha256_compress SHA256_DefaultHashValue" fips_sha256 32
  by unfold_locales (simp_all add: RT_SHA256_Init_def init_ctx_after RT_SHA256_Append_def append_ctx_after RT_SHA256_End_def
      end_ctx_after swapped_bytes code_hashes digest_lengths)

lemma one_shots: "RT_MD5 = md5.one_shot (zero_ctx 4)" "RT_SHA1 = sha1.one_shot (zero_ctx 5)" "RT_SHA256 = sha256.one_shot (zero_ctx 8)"
  by (simp_all add: fun_eq_iff RT_MD5_def md5.one_shot_def RT_SHA1_def sha1.one_shot_def RT_SHA256_def sha256.one_shot_def)



section \<open>The constants of the Secure Hash Algorithms\<close>

text \<open>The first 64 prime numbers.\<close>

definition primes_64 :: "nat list" where
  "primes_64 =
    [2, 3, 5, 7, 11, 13, 17, 19, 23, 29, 31, 37, 41, 43, 47, 53,
     59, 61, 67, 71, 73, 79, 83, 89, 97, 101, 103, 107, 109, 113, 127, 131,
     137, 139, 149, 151, 157, 163, 167, 173, 179, 181, 191, 193, 197, 199, 211, 223,
     227, 229, 233, 239, 241, 251, 257, 263, 269, 271, 277, 281, 283, 293, 307, 311]"

lemma floor_root:
  assumes "0 < k" and "c ^ k \<le> 2 ^ (s * k) * p" and "2 ^ (s * k) * p < (c + 1) ^ k"
  shows "\<lfloor>2 ^ s * root k (real p)\<rfloor> = int c"
proof -
  have x: "2 ^ s * root k (real p) = root k (real (2 ^ (s * k) * p))"
    using assms(1) by (simp add: real_root_mult power_mult real_root_power_cancel)
  have "real c = root k (real (c ^ k))" "real c + 1 = root k (real ((c + 1) ^ k))"
    using assms(1) by (simp_all add: real_root_power_cancel)
  then have "real c \<le> 2 ^ s * root k (real p)" "2 ^ s * root k (real p) < real c + 1"
    using assms unfolding x by (simp_all only: real_root_le_iff real_root_less_iff of_nat_le_iff of_nat_less_iff)
  then show ?thesis
    by linarith
qed

text \<open>\<open>K\<close> holds the low 32 bits of \<open>root k p\<close> in fixed point with \<open>s\<close> fractional bits; \<open>a\<close> is what lies above them.\<close>

definition root_word :: "nat \<Rightarrow> nat \<Rightarrow> nat \<Rightarrow> nat \<Rightarrow> UINT32 \<Rightarrow> bool" where
  "root_word k s a p K \<longleftrightarrow>
     (a * 2 ^ 32 + unat K) ^ k \<le> 2 ^ (s * k) * p \<and> 2 ^ (s * k) * p < (a * 2 ^ 32 + unat K + 1) ^ k"

lemma root_word_floor:
  assumes "0 < k" and "root_word k s a p K"
  shows "word_of_int \<lfloor>2 ^ s * root k (real p)\<rfloor> = K"
proof -
  have "\<lfloor>2 ^ s * root k (real p)\<rfloor> = int (a * 2 ^ 32 + unat K)"
    using assms(2) by (intro floor_root[OF assms(1)]) (simp_all add: root_word_def)
  moreover have "word_of_nat (a * 2 ^ 32) = (0 :: UINT32)"
    by (subst word_of_nat_eq_0_iff) simp
  ultimately show ?thesis
    by (simp only: of_int_of_nat_eq of_nat_add) simp
qed

lemma root_words:
  assumes "0 < k" and "length as = length ps" and "length Ks = length ps"
    and "list_all (\<lambda>(a, p, K). root_word k s a p K) (zip as (zip ps Ks))"
  shows "Ks = map (\<lambda>p. word_of_int \<lfloor>2 ^ s * root k (real p)\<rfloor>) ps"
  using assms(2-4)
proof (induction as ps arbitrary: Ks rule: list_induct2)
  case (Cons a as p ps)
  then show ?case
    by (cases Ks) (auto simp: root_word_floor[OF assms(1)])
qed simp

text \<open>
  The constants of the Secure Hash Algorithms are those of FIPS 180-4: the 64 round constants of SHA-256 are the first 32 bits
  of the fractional parts of the cube roots of the first 64 primes, its initial value those of the square roots of
  the first eight, and the round constants of SHA-1 are the square roots of 2, 3, 5 and 10 with 30 fractional bits.
\<close>

theorem sha_constants:
  "SHA256_K = map (\<lambda>p. word_of_int \<lfloor>2 ^ 32 * root 3 (real p)\<rfloor>) primes_64
   \<and> SHA256_DefaultHashValue = map (\<lambda>p. word_of_int \<lfloor>2 ^ 32 * sqrt (real p)\<rfloor>) (take 8 primes_64)
   \<and> SHA1_K = map (\<lambda>p. word_of_int \<lfloor>2 ^ 30 * sqrt (real p)\<rfloor>) [2, 3, 5, 10]"
proof (intro conjI)
  have "list_all (\<lambda>(a, p, K). root_word 3 32 a p K) (zip ([1, 1, 1, 1, 2, 2, 2, 2, 2, 3, 3, 3, 3, 3, 3, 3, 3, 3, 4, 4, 4, 4, 4, 4, 4, 4, 4, 4, 4, 4, 5, 5, 5, 5, 5, 5, 5, 5, 5, 5, 5, 5, 5, 5, 5, 5, 5, 6, 6, 6, 6, 6, 6, 6, 6, 6, 6, 6, 6, 6, 6, 6, 6, 6]) (zip primes_64 SHA256_K))"
    by (simp add: primes_64_def SHA256_K_def root_word_def)
  then show "SHA256_K = map (\<lambda>p. word_of_int \<lfloor>2 ^ 32 * root 3 (real p)\<rfloor>) primes_64"
    by (rule root_words[rotated 3]) (simp_all add: primes_64_def SHA256_K_def)
  have "list_all (\<lambda>(a, p, K). root_word 2 32 a p K) (zip [1, 1, 2, 2, 3, 3, 4, 4] (zip (take 8 primes_64) SHA256_DefaultHashValue))"
    by (simp add: primes_64_def SHA256_DefaultHashValue_def root_word_def)
  then show "SHA256_DefaultHashValue = map (\<lambda>p. word_of_int \<lfloor>2 ^ 32 * sqrt (real p)\<rfloor>) (take 8 primes_64)"
    unfolding sqrt_def by (rule root_words[rotated 3]) (simp_all add: primes_64_def SHA256_DefaultHashValue_def)
  have "list_all (\<lambda>(a, p, K). root_word 2 30 a p K) (zip [0, 0, 0, 0] (zip [2, 3, 5, 10] SHA1_K))"
    by (simp add: SHA1_K_def root_word_def)
  then show "SHA1_K = map (\<lambda>p. word_of_int \<lfloor>2 ^ 30 * sqrt (real p)\<rfloor>) [2, 3, 5, 10]"
    unfolding sqrt_def by (rule root_words[rotated 3]) (simp_all add: SHA1_K_def)
qed


section \<open>Message authentication codes\<close>

lemma hmac_correct:
  assumes "length K + 64 \<le> 2 ^ 32" and "length m + 64 \<le> 2 ^ 32"
  shows "RT_HMAC_SHA1 K m MAC n
      = (if min n 20 \<le> length MAC then Some (move_at MAC 0 (take n (rfc2104 fips_sha1 K m))) else None)"
    and "RT_HMAC_SHA256 K m MAC n
      = (if min n 32 \<le> length MAC then Some (move_at MAC 0 (take n (rfc2104 fips_sha256 K m))) else None)"
    and "RT_HMAC_MD5 K m MAC n
      = (if min n 16 \<le> length MAC then Some (move_at MAC 0 (take n (rfc2104 rfc1321_md5 K m))) else None)"
  unfolding RT_HMAC_SHA1_def RT_HMAC_SHA256_def RT_HMAC_MD5_def one_shots
    sha1.hmac_with_correct[OF assms] sha256.hmac_with_correct[OF assms] md5.hmac_with_correct[OF assms] by simp_all

lemma hmac_length [simp]: "length (rfc2104 fips_sha1 K m) = 20" "length (rfc2104 fips_sha256 K m) = 32"
    "length (rfc2104 rfc1321_md5 K m) = 16"
  by (simp_all add: rfc2104_def digest_lengths)

lemma hmac_full:
  assumes "length K + 64 \<le> 2 ^ 32" and "length m + 64 \<le> 2 ^ 32"
  shows "RT_HMAC_SHA1 K m MAC 20 = (if 20 \<le> length MAC then Some (move_at MAC 0 (rfc2104 fips_sha1 K m)) else None)"
    and "RT_HMAC_SHA256 K m MAC 32 = (if 32 \<le> length MAC then Some (move_at MAC 0 (rfc2104 fips_sha256 K m)) else None)"
    and "RT_HMAC_MD5 K m MAC 16 = (if 16 \<le> length MAC then Some (move_at MAC 0 (rfc2104 rfc1321_md5 K m)) else None)"
  by (simp_all add: hmac_correct[OF assms])

text \<open>
  The message authentication codes conform to RFC 2104. For keys and messages of up to \<open>2^32 - 64\<close> bytes each of the
  three functions writes the first \<open>n\<close> bytes of the HMAC, or all of it if \<open>n\<close> is larger, to the start of the caller's
  buffer and leaves the rest of the buffer alone; the only other outcome is a buffer that is too small.
\<close>

theorem hmac_functions_conform:
  assumes "length K + 64 \<le> 2 ^ 32" and "length m + 64 \<le> 2 ^ 32"
  shows "RT_HMAC_SHA1 K m MAC n
      = (if min n 20 \<le> length MAC then Some (move_at MAC 0 (take n (rfc2104 fips_sha1 K m))) else None)
    \<and> RT_HMAC_SHA256 K m MAC n
      = (if min n 32 \<le> length MAC then Some (move_at MAC 0 (take n (rfc2104 fips_sha256 K m))) else None)
    \<and> RT_HMAC_MD5 K m MAC n
      = (if min n 16 \<le> length MAC then Some (move_at MAC 0 (take n (rfc2104 rfc1321_md5 K m))) else None)"
  using hmac_correct[OF assms] by blast

lemma hmac_functions_conform_witness:
  "RT_HMAC_MD5 [1] [2] (replicate 16 0) 16 = Some (move_at (replicate 16 0) 0 (take 16 (rfc2104 rfc1321_md5 [1] [2])))"
  using hmac_functions_conform[of "[1]" "[2]" "replicate 16 0" 16] by simp

text \<open>
  Hashing in pieces. However a message is cut into pieces, appending them one after the other to a fresh context and finishing
  gives the digest of the whole message, for each of the three hash functions.
\<close>

theorem hash_in_pieces:
  assumes "\<forall>m \<in> set ms. length m + 64 \<le> 2 ^ 32"
  shows "map_option (\<lambda>c. snd (RT_MD5_End c)) (foldl (\<lambda>r m. r \<bind> (\<lambda>c. RT_MD5_Append c m)) (Some (RT_MD5_Init ctx)) ms)
      = Some (rfc1321_md5 (concat ms))
    \<and> map_option (\<lambda>c. snd (RT_SHA1_End c)) (foldl (\<lambda>r m. r \<bind> (\<lambda>c. RT_SHA1_Append c m)) (Some (RT_SHA1_Init ctx)) ms)
      = Some (fips_sha1 (concat ms))
    \<and> map_option (\<lambda>c. snd (RT_SHA256_End c)) (foldl (\<lambda>r m. r \<bind> (\<lambda>c. RT_SHA256_Append c m)) (Some (RT_SHA256_Init ctx)) ms)
      = Some (fips_sha256 (concat ms))"
  using md5.stream_digest[OF md5.init assms, of ctx] sha1.stream_digest[OF sha1.init assms, of ctx]
    sha256.stream_digest[OF sha256.init assms, of ctx] by auto

lemma hash_in_pieces_witness:
  "map_option (\<lambda>c. snd (RT_SHA1_End c)) (foldl (\<lambda>r m. r \<bind> (\<lambda>c. RT_SHA1_Append c m)) (Some (RT_SHA1_Init (zero_ctx 5))) [[1], [2, 3]])
     = Some (fips_sha1 [1, 2, 3])"
  using hash_in_pieces[of "[[1], [2, 3]]" "zero_ctx 5"] by simp

end
