(* ===== verification/Wpa_Keys.thy ===== *)
theory Wpa_Keys
  imports Hash
begin

text \<open>
  The key derivations of \<^verbatim>\<open>common/cmm_wpa.c\<close>: the pseudo-random function of IEEE 802.11i, the key of a pass phrase, the key
  derivation function of IEEE 802.11r, and the pairwise, group and cached keys and nonces made with them.

  \<^item> An output buffer is a list of its C length; a function returns the buffer afterwards, and \<open>None\<close> if it writes
    outside of it or of a local array.
  \<^item> \<open>ok\<close> is the outcome of the allocation of a work buffer. When it fails the code logs and returns, and the output stays
    as it was.
  \<^item> The clock of \<^verbatim>\<open>GenRandom\<close> is a function of the loop index.
\<close>

section \<open>Definitions\<close>

text \<open>The comparison of \<open>n\<close> bytes gives 1 for greater, 2 for less and 0 for equal.\<close>

fun RTMPCompareMemory :: "bytes \<Rightarrow> bytes \<Rightarrow> nat \<Rightarrow> nat" where
  "RTMPCompareMemory (x # xs) (y # ys) (Suc n) = (if x > y then 1 else if x < y then 2 else RTMPCompareMemory xs ys n)"
| "RTMPCompareMemory xs ys n = 0"

text \<open>\<open>pos\<close> counts up from \<open>iv\<close>'s first byte; the second and later bytes are incremented by one.\<close>

fun inc_iv_byte :: "bytes \<Rightarrow> UINT8 \<Rightarrow> bytes" where
  "inc_iv_byte [] cnt = []"
| "inc_iv_byte (b # bs) cnt = (if b + cnt > b then (b + cnt) # bs else (b + cnt) # inc_iv_byte bs 1)"

primrec prf_loop :: "nat \<Rightarrow> bytes \<Rightarrow> bytes \<Rightarrow> bytes \<Rightarrow> nat \<Rightarrow> bytes option" where
  "prf_loop 0 key input output currentindex = Some output"
| "prf_loop (Suc n) key input output currentindex = do {
     mac \<leftarrow> RT_HMAC_SHA1 key input (drop currentindex output) 20;
     let last = length input - 1;
     prf_loop n key (input[last := input ! last + 1]) (take currentindex output @ mac) (currentindex + 20) }"

definition PRF :: "bool \<Rightarrow> bytes \<Rightarrow> bytes \<Rightarrow> bytes \<Rightarrow> bytes \<Rightarrow> nat \<Rightarrow> bytes option" where
  "PRF ok key prefix data output len =
     (if \<not> ok then Some output
      else if length prefix + 1 + length data + 1 > 1024 then None
      else prf_loop ((len + 19) div 20) key (prefix @ [0] @ data @ [0]) output 0)"

text \<open>\<^verbatim>\<open>F\<close> with its two local arrays \<^verbatim>\<open>digest\<close> (36 bytes) and \<^verbatim>\<open>digest1\<close>.\<close>

primrec F_loop :: "nat \<Rightarrow> bytes \<Rightarrow> bytes \<Rightarrow> bytes \<Rightarrow> bytes \<Rightarrow> bytes option" where
  "F_loop 0 password digest digest1 output = Some output"
| "F_loop (Suc n) password digest digest1 output = do {
     digest \<leftarrow> RT_HMAC_SHA1 password digest1 digest 20;
     let digest1 = move_at digest1 0 (take 20 digest);
     F_loop n password digest digest1 (move_at output 0 (xor_bytes (take 20 output) (take 20 digest))) }"

definition F :: "bytes \<Rightarrow> bytes \<Rightarrow> nat \<Rightarrow> nat \<Rightarrow> bytes \<Rightarrow> bytes option" where
  "F password ssid iterations count output =
     (if length ssid + 4 > 36 \<or> length output < 20 then None
      else
        let digest = move_at (replicate 36 0) 0
              (ssid @ [of_nat (count div 2 ^ 24), of_nat (count div 2 ^ 16), of_nat (count div 2 ^ 8), of_nat count])
        in do {
          digest1 \<leftarrow> RT_HMAC_SHA1 password (take (length ssid + 4) digest) (replicate 20 0) 20;
          F_loop (iterations - 1) password digest digest1 (move_at output 0 digest1) })"

definition RtmpPasswordHash :: "bytes \<Rightarrow> bytes \<Rightarrow> bytes \<Rightarrow> (int \<times> bytes) option" where
  "RtmpPasswordHash password ssid output =
     (if length password > 63 \<or> length ssid > 32 then Some (0, output)
      else do {
        output \<leftarrow> F password ssid 4096 1 output;
        tail \<leftarrow> F password ssid 4096 2 (drop 20 output);
        Some (1, take 20 output @ tail) })"

primrec kdf_loop :: "nat \<Rightarrow> bytes \<Rightarrow> bytes \<Rightarrow> bytes \<Rightarrow> nat \<Rightarrow> bytes option" where
  "kdf_loop 0 key input output currentindex = Some output"
| "kdf_loop (Suc n) key input output currentindex = do {
     mac \<leftarrow> RT_HMAC_SHA256 key input (drop currentindex output) 32;
     kdf_loop n key (input[0 := input ! 0 + 1]) (take currentindex output @ mac) (currentindex + 32) }"

definition KDF :: "bool \<Rightarrow> bytes \<Rightarrow> bytes \<Rightarrow> bytes \<Rightarrow> bytes \<Rightarrow> UINT16 \<Rightarrow> bytes option" where
  "KDF ok key label data output len =
     (if \<not> ok then Some output
      else if 2 + length label + length data + 2 > 1024 then None
      else
        let len_in_bits = push_bit 3 (ucast len) :: UINT32;
            input = [1, 0] @ label @ data @ [ucast (len_in_bits AND 0xFF), ucast (drop_bit 8 (len_in_bits AND 0xFF00))]
        in kdf_loop (unat ((len_in_bits + 255) div 256)) key input output 0)"

definition ascii :: "string \<Rightarrow> bytes" where
  "ascii s = map (\<lambda>c. of_nat (of_char c)) s"

definition RTMPDerivePMKID :: "mac_addr \<Rightarrow> mac_addr \<Rightarrow> bytes \<Rightarrow> bytes \<Rightarrow> bytes option" where
  "RTMPDerivePMKID pAaddr pSpaddr pKey pPMKID = do {
     digest \<leftarrow> RT_HMAC_SHA1 (take 32 pKey) (ascii ''PMK Name'' @ take 6 pAaddr @ take 6 pSpaddr) (replicate 80 0) 20;
     if 16 \<le> length pPMKID then Some (move_at pPMKID 0 (take 16 digest)) else None }"

definition ptk_concatenation :: "bytes \<Rightarrow> bytes \<Rightarrow> bytes \<Rightarrow> bytes \<Rightarrow> bytes" where
  "ptk_concatenation ANonce AA SNonce SA =
     (let small = (if RTMPCompareMemory SA AA 6 = 1 then take 6 AA else take 6 SA);
          large = (if RTMPCompareMemory SA AA 6 = 1 then take 6 SA else take 6 AA);
          temp = large @ replicate 26 0
      in small @ large
         @ (if RTMPCompareMemory ANonce SNonce 32 = 0 then temp
            else if RTMPCompareMemory ANonce SNonce 32 = 1 then take 32 SNonce else take 32 ANonce)
         @ (if RTMPCompareMemory ANonce SNonce 32 = 0 then temp
            else if RTMPCompareMemory ANonce SNonce 32 = 1 then take 32 ANonce else take 32 SNonce))"

definition WpaDerivePTK :: "bool \<Rightarrow> bytes \<Rightarrow> bytes \<Rightarrow> bytes \<Rightarrow> bytes \<Rightarrow> bytes \<Rightarrow> bytes \<Rightarrow> nat \<Rightarrow> bytes option" where
  "WpaDerivePTK ok PMK ANonce AA SNonce SA output len =
     PRF ok (take 32 PMK) (ascii ''Pairwise key expansion'') (ptk_concatenation ANonce AA SNonce SA) output len"

definition WpaDeriveGTK :: "bool \<Rightarrow> bytes \<Rightarrow> bytes \<Rightarrow> bytes \<Rightarrow> bytes \<Rightarrow> bytes \<Rightarrow> nat \<Rightarrow> bytes option" where
  "WpaDeriveGTK ok temp GMK GNonce AA output len = do {
     temp \<leftarrow> PRF ok (take 32 GMK) (ascii ''Group key expansion'') (take 6 AA @ take 32 GNonce) temp len;
     if len \<le> length output then Some (move_at output 0 (take len temp)) else None }"

text \<open>One round of \<^verbatim>\<open>GenRandom\<close> hashes the address, the time, the last result and the loop index.\<close>

primrec gen_random_loop :: "bool \<Rightarrow> bytes \<Rightarrow> (nat \<Rightarrow> ULONG) \<Rightarrow> nat list \<Rightarrow> bytes \<Rightarrow> bytes option" where
  "gen_random_loop ok macAddr now [] result = Some result"
| "gen_random_loop ok macAddr now (i # is) result = do {
     result \<leftarrow> PRF ok (replicate 32 0) (ascii ''Init Counter'')
       (take 6 macAddr @ le64_bytes (now i) @ take 32 result @ le16_bytes (of_nat i)) result 32;
     gen_random_loop ok macAddr now is result }"

definition GenRandom :: "bool \<Rightarrow> bytes \<Rightarrow> (nat \<Rightarrow> ULONG) \<Rightarrow> bytes option" where
  "GenRandom ok macAddr now = map_option (take 32) (gen_random_loop ok macAddr now [0..<32] (replicate 80 0))"

section \<open>Comparison and counters\<close>

text \<open>The value of a big-endian and of a little-endian number.\<close>

definition be_val :: "bytes \<Rightarrow> nat" where
  "be_val bs = foldl (\<lambda>v b. v * 256 + unat b) 0 bs"

fun le_val :: "bytes \<Rightarrow> nat" where
  "le_val [] = 0"
| "le_val (b # bs) = unat b + 256 * le_val bs"

lemma byte_bound: "unat (b :: UINT8) < 256"
  using unsigned_less[of b] by simp

lemma foldl_be: "foldl (\<lambda>v b. v * 256 + unat b) a bs = a * 256 ^ length bs + be_val bs"
proof (induction bs arbitrary: a)
  case (Cons b bs)
  show ?case
    using Cons[of "a * 256 + unat b"] Cons[of "unat b"] by (simp add: be_val_def algebra_simps)
qed (simp add: be_val_def)

lemma be_val_Cons: "be_val (b # bs) = unat b * 256 ^ length bs + be_val bs"
  using foldl_be[of "unat b" bs] by (simp add: be_val_def)

lemma be_val_bound: "be_val bs < 256 ^ length bs"
proof (induction bs)
  case (Cons b bs)
  have "unat b * 256 ^ length bs + be_val bs < (unat b + 1) * 256 ^ length bs"
    using Cons by simp
  also have "\<dots> \<le> 256 * 256 ^ length bs"
    using byte_bound[of b] by (intro mult_right_mono) simp_all
  finally show ?case
    by (simp add: be_val_Cons)
qed (simp add: be_val_def)

lemma be_val_less: "x < y \<Longrightarrow> length xs = length ys \<Longrightarrow> be_val (x # xs) < be_val (y # ys)"
proof -
  assume "x < y" and l: "length xs = length ys"
  then have "unat x + 1 \<le> unat y"
    by (simp add: word_less_nat_alt)
  then have "(unat x + 1) * 256 ^ length xs \<le> unat y * 256 ^ length ys"
    using l by (intro mult_mono) simp_all
  then show ?thesis
    using be_val_bound[of xs] l by (simp add: be_val_Cons)
qed

text \<open>The comparison of arrays is that of the big-endian numbers.\<close>

lemma RTMPCompareMemory_value:
  assumes "length xs = n" and "length ys = n"
  shows "RTMPCompareMemory xs ys n = (if be_val xs > be_val ys then 1 else if be_val xs < be_val ys then 2 else 0)"
  using assms
proof (induction xs ys n rule: RTMPCompareMemory.induct)
  case (1 x xs y ys n)
  consider "x = y" | "x < y" | "y < x"
    by (meson linorder_neq_iff)
  then show ?case
  proof cases
    case 1
    then show ?thesis
      using "1.IH" "1.prems" by (simp add: be_val_Cons)
  next
    case 2
    then show ?thesis
      using be_val_less[OF 2, of xs ys] "1.prems" by auto
  next
    case 3
    then show ?thesis
      using be_val_less[OF 3, of ys xs] "1.prems" by auto
  qed
qed auto

lemma be_val_inj: "length xs = length ys \<Longrightarrow> be_val xs = be_val ys \<Longrightarrow> xs = ys"
proof (induction xs ys rule: list_induct2)
  case (Cons x xs y ys)
  have "x = y"
    using be_val_less[of x y xs ys] be_val_less[of y x ys xs] Cons by (metis less_irrefl linorder_neq_iff)
  then show ?case
    using Cons by (simp add: be_val_Cons)
qed simp

lemma RTMPCompareMemory_eq: "length xs = n \<Longrightarrow> length ys = n \<Longrightarrow> RTMPCompareMemory xs ys n = 0 \<longleftrightarrow> xs = ys"
  by (auto simp: RTMPCompareMemory_value dest: be_val_inj)

text \<open>\<^verbatim>\<open>inc_iv_byte\<close> adds to the little-endian counter and wraps at its length.\<close>

lemma byte_add:
  assumes "0 < (cnt :: UINT8)"
  shows "b + cnt > b \<longleftrightarrow> unat b + unat cnt < 256"
    and "unat (b + cnt) = (if unat b + unat cnt < 256 then unat b + unat cnt else unat b + unat cnt - 256)"
proof -
  have c: "0 < unat cnt" "unat cnt < 256" "unat b < 256"
    using assms byte_bound by (simp_all add: word_less_nat_alt)
  show u: "unat (b + cnt) = (if unat b + unat cnt < 256 then unat b + unat cnt else unat b + unat cnt - 256)"
    using c by (simp add: unat_word_ariths mod_if)
  show "b + cnt > b \<longleftrightarrow> unat b + unat cnt < 256"
    unfolding word_less_nat_alt u using c by auto
qed

lemma le_val_bound: "le_val bs < 256 ^ length bs"
proof (induction bs)
  case (Cons c bs)
  then show ?case
    using byte_bound[of c] by simp
qed simp

lemma length_inc_iv_byte: "length (inc_iv_byte iv cnt) = length iv"
  by (induction iv cnt rule: inc_iv_byte.induct) simp_all

lemma inc_iv_byte_value:
  assumes "0 < cnt"
  shows "le_val (inc_iv_byte iv cnt) = (le_val iv + unat cnt) mod 256 ^ length iv"
  using assms
proof (induction iv cnt rule: inc_iv_byte.induct)
  case (2 b bs cnt)
  note A = byte_add[OF "2.prems", of b]
  show ?case
  proof (cases "b + cnt > b")
    case True
    then have "le_val (inc_iv_byte (b # bs) cnt) = le_val (b # bs) + unat cnt"
      using A by simp
    then show ?thesis
      using le_val_bound[of "inc_iv_byte (b # bs) cnt"] unfolding length_inc_iv_byte by simp
  next
    case False
    have r: "(c + 256 * x) mod (256 * m) = c + 256 * (x mod m)" if "c < 256" for c x m :: nat
      using that by (simp add: mod_mult2_eq)
    have "unat b + unat cnt = unat (b + cnt) + 256"
      using A False by simp
    then have e: "le_val (b # bs) + unat cnt = unat (b + cnt) + 256 * (le_val bs + 1)"
      by simp
    show ?thesis
      unfolding e using False "2.IH"[OF False] r[OF byte_bound[of "b + cnt"], of "le_val bs + 1" "256 ^ length bs"] by simp
  qed
qed simp

section \<open>The pseudo-random function\<close>

text \<open>The PRF of IEEE 802.11i: \<open>n\<close> blocks of HMAC-SHA-1 with a counter.\<close>

definition ieee_prf :: "bytes \<Rightarrow> bytes \<Rightarrow> bytes \<Rightarrow> nat \<Rightarrow> bytes" where
  "ieee_prf K A B n = concat (map (\<lambda>i. rfc2104 fips_sha1 K (A @ [0] @ B @ [of_nat i])) [0..<n])"

lemma length_ieee_prf [simp]: "length (ieee_prf K A B n) = 20 * n"
  by (simp add: ieee_prf_def length_concat comp_def sum_list_triv)

definition counted :: "(bytes \<Rightarrow> bytes \<Rightarrow> bytes) \<Rightarrow> bytes \<Rightarrow> bytes \<Rightarrow> UINT8 \<Rightarrow> bytes \<Rightarrow> nat \<Rightarrow> bytes" where
  "counted M K a c z n = concat (map (\<lambda>i. M K (a @ [c + of_nat i] @ z)) [0..<n])"

lemma counted_Suc: "counted M K a c z (Suc n) = M K (a @ [c] @ z) @ counted M K a (c + 1) z n"
  unfolding counted_def upt_conv_Cons[OF zero_less_Suc] by (simp add: map_Suc_upt[symmetric] comp_def algebra_simps del: upt_Suc)

lemma prf_loop_blocks:
  assumes "length key + 64 \<le> 2 ^ 32" and "length a + 65 \<le> 2 ^ 32" and "cur \<le> length out"
  shows "prf_loop n key (a @ [c]) out cur = (if cur + 20 * n \<le> length out
    then Some (take cur out @ counted (rfc2104 fips_sha1) key a c [] n @ drop (cur + 20 * n) out) else None)"
  using assms(3)
proof (induction n arbitrary: c out cur)
  case (Suc n)
  show ?case
  proof (cases "20 \<le> length out - cur")
    case True
    then have "prf_loop (Suc n) key (a @ [c]) out cur
        = prf_loop n key (a @ [c + 1]) (take cur out @ rfc2104 fips_sha1 key (a @ [c]) @ drop (cur + 20) out) (cur + 20)"
      using assms(1,2) by (simp add: hmac_full move_at_def add.commute)
    then show ?thesis
      using True Suc.prems by (subst (asm) Suc.IH) (auto simp: counted_Suc ac_simps)
  qed (use assms in \<open>auto simp: hmac_full\<close>)
qed (simp add: counted_def)

lemma PRF_blocks:
  assumes "length key + 64 \<le> 2 ^ 32" and "length A + length B + 2 \<le> 1024"
  shows "PRF True key A B out len = (if 20 * ((len + 19) div 20) \<le> length out
    then Some (move_at out 0 (ieee_prf key A B ((len + 19) div 20))) else None)"
proof -
  have c: "counted (rfc2104 fips_sha1) key (A @ [0] @ B) 0 [] n = ieee_prf key A B n" for n
    by (simp add: ieee_prf_def counted_def)
  show ?thesis
    using assms prf_loop_blocks[OF assms(1), of "A @ [0] @ B" 0 out "(len + 19) div 20" 0] unfolding c
    by (simp add: PRF_def move_at_def)
qed

text \<open>
  \<^verbatim>\<open>PRF\<close> is the pseudo-random function of IEEE 802.11i. With inputs that fit its work buffer it writes
  \<open>20 * \<lceil>len / 20\<rceil>\<close> bytes, the blocks HMAC-SHA-1(key, A || 0 || B || i), to the start of the output. It leaves the
  buffer of its caller exactly if that has less room: the length that the caller asks for is not enough.
\<close>

theorem PRF_correct:
  assumes "length key + 64 \<le> 2 ^ 32" and "length A + length B + 2 \<le> 1024"
  shows "PRF True key A B out len = (if 20 * ((len + 19) div 20) \<le> length out
    then Some (move_at out 0 (ieee_prf key A B ((len + 19) div 20))) else None)"
  by (rule PRF_blocks[OF assms])

lemma PRF_correct_witness: "PRF True [] [] [] (replicate 80 0) 64 = Some (move_at (replicate 80 0) 0 (ieee_prf [] [] [] 4))"
  using PRF_correct[of "[]" "[]" "[]" "replicate 80 0" 64] by simp

section \<open>Pairwise keys\<close>

lemma ptk_swap:
  assumes "length AA = 6" and "length SA = 6" and "length ANonce = 32" and "length SNonce = 32"
  shows "ptk_concatenation ANonce AA SNonce SA = ptk_concatenation SNonce SA ANonce AA"
proof -
  note c = RTMPCompareMemory_value[OF assms(1,2)] RTMPCompareMemory_value[OF assms(2,1)]
    RTMPCompareMemory_value[OF assms(3,4)] RTMPCompareMemory_value[OF assms(4,3)]
  consider "be_val AA < be_val SA" | "be_val SA < be_val AA" | "AA = SA"
    using be_val_inj[of AA SA] assms by force
  then show ?thesis
    unfolding ptk_concatenation_def c by cases (auto simp: Let_def dest: be_val_inj)
qed

definition be_min :: "bytes \<Rightarrow> bytes \<Rightarrow> bytes" where "be_min a b = (if be_val a \<le> be_val b then a else b)"
definition be_max :: "bytes \<Rightarrow> bytes \<Rightarrow> bytes" where "be_max a b = (if be_val a \<le> be_val b then b else a)"

lemma ptk_sorted:
  assumes "length AA = 6" and "length SA = 6" and "length ANonce = 32" and "length SNonce = 32" and "ANonce \<noteq> SNonce"
  shows "ptk_concatenation ANonce AA SNonce SA = be_min AA SA @ be_max AA SA @ be_min ANonce SNonce @ be_max ANonce SNonce"
proof -
  have n: "be_val ANonce \<noteq> be_val SNonce"
    using assms be_val_inj by metis
  show ?thesis
    unfolding ptk_concatenation_def RTMPCompareMemory_value[OF assms(2,1)] RTMPCompareMemory_value[OF assms(3,4)] be_min_def be_max_def
    using n assms by (auto simp: Let_def intro: be_val_inj)
qed

text \<open>
  The pairwise transient key is that of IEEE 802.11i: from a 32-byte master key \<^verbatim>\<open>WpaDerivePTK\<close> computes
  PRF-512(PMK, ''Pairwise key expansion'', Min(AA, SPA) || Max(AA, SPA) || Min(ANonce, SNonce) || Max(ANonce, SNonce)), with the order of
  big-endian numbers. It does not matter which of the two sides calls it with its own values first.
\<close>

theorem WpaDerivePTK_correct:
  assumes "length AA = 6" and "length SA = 6" and "length ANonce = 32" and "length SNonce = 32" and "ANonce \<noteq> SNonce"
    and "length PMK = 32" and "80 \<le> length out"
  shows "WpaDerivePTK True PMK ANonce AA SNonce SA out 64 = Some (move_at out 0 (ieee_prf PMK (ascii ''Pairwise key expansion'')
      (be_min AA SA @ be_max AA SA @ be_min ANonce SNonce @ be_max ANonce SNonce) 4))
    \<and> WpaDerivePTK True PMK SNonce SA ANonce AA out 64 = WpaDerivePTK True PMK ANonce AA SNonce SA out 64"
proof -
  have "length (be_min AA SA) = 6" "length (be_max AA SA) = 6" "length (be_min ANonce SNonce) = 32" "length (be_max ANonce SNonce) = 32"
    using assms by (simp_all add: be_min_def be_max_def)
  then show ?thesis
    unfolding WpaDerivePTK_def ptk_swap[OF assms(1-4), symmetric] ptk_sorted[OF assms(1-5)]
    using assms by (simp add: PRF_blocks ascii_def)
qed

lemma WpaDerivePTK_correct_witness:
  "WpaDerivePTK True (replicate 32 0) (replicate 32 1) (replicate 6 0) (replicate 32 2) (replicate 6 0) (replicate 80 0) 64
   = WpaDerivePTK True (replicate 32 0) (replicate 32 2) (replicate 6 0) (replicate 32 1) (replicate 6 0) (replicate 80 0) 64"
  using WpaDerivePTK_correct[of "replicate 6 0" "replicate 6 0" "replicate 32 1" "replicate 32 2" "replicate 32 0" "replicate 80 0"]
  by simp

text \<open>With equal nonces the larger address takes their place twice, which is not in the standard.\<close>

lemma ptk_equal_nonces:
  assumes "length AA = 6" and "length SA = 6" and "length N = 32"
  shows "ptk_concatenation N AA N SA
    = be_min AA SA @ be_max AA SA @ (be_max AA SA @ replicate 26 0) @ (be_max AA SA @ replicate 26 0)"
  unfolding ptk_concatenation_def RTMPCompareMemory_value[OF assms(2,1)] RTMPCompareMemory_value[OF assms(3,3)] be_min_def be_max_def
  using assms by (auto simp: Let_def intro: be_val_inj)

section \<open>Pass phrases\<close>

text \<open>PBKDF2 of RFC 2898 with HMAC-SHA-1.\<close>

primrec pbkdf2_U :: "bytes \<Rightarrow> bytes \<Rightarrow> nat \<Rightarrow> nat \<Rightarrow> bytes" where
  "pbkdf2_U P S i 0 = rfc2104 fips_sha1 P (S @ rev (le32_bytes (of_nat i)))"
| "pbkdf2_U P S i (Suc c) = rfc2104 fips_sha1 P (pbkdf2_U P S i c)"

definition pbkdf2_T :: "bytes \<Rightarrow> bytes \<Rightarrow> nat \<Rightarrow> nat \<Rightarrow> bytes" where
  "pbkdf2_T P S i c = foldl (\<lambda>t k. xor_bytes t (pbkdf2_U P S i k)) (pbkdf2_U P S i 0) [1..<c]"

lemma length_pbkdf2_U [simp]: "length (pbkdf2_U P S i c) = 20"
  by (cases c) simp_all

lemma length_xor_fold: "length t = 20 \<Longrightarrow> length (foldl (\<lambda>t k. xor_bytes t (pbkdf2_U P S i k)) t ks) = 20"
  by (induction ks arbitrary: t) simp_all

lemma move_at_again: "length s = length t \<Longrightarrow> off \<le> length d \<Longrightarrow> move_at (move_at d off s) off t = move_at d off t"
  by (simp add: move_at_def)

lemma length_pbkdf2_T [simp]: "length (pbkdf2_T P S i c) = 20"
  by (simp add: pbkdf2_T_def length_xor_fold)

lemma F_loop_U:
  assumes "length P + 64 \<le> 2 ^ 32" and "length digest = 36" and "20 \<le> length out"
  shows "F_loop n P digest (pbkdf2_U P S i k) out
    = Some (move_at out 0 (foldl (\<lambda>t j. xor_bytes t (pbkdf2_U P S i j)) (take 20 out) [k + 1..<k + 1 + n]))"
  using assms(2,3)
proof (induction n arbitrary: k digest out)
  case (Suc n)
  have "RT_HMAC_SHA1 P (pbkdf2_U P S i k) digest 20 = Some (move_at digest 0 (pbkdf2_U P S i (Suc k)))"
    using assms(1) Suc.prems by (simp add: hmac_full)
  moreover have "move_at (pbkdf2_U P S i k) 0 (take 20 (move_at digest 0 (pbkdf2_U P S i (Suc k)))) = pbkdf2_U P S i (Suc k)"
    by (simp add: move_at_def del: pbkdf2_U.simps)
  moreover have "take 20 (move_at digest 0 (pbkdf2_U P S i (Suc k))) = pbkdf2_U P S i (Suc k)"
    by (simp add: move_at_def del: pbkdf2_U.simps)
  ultimately have "F_loop (Suc n) P digest (pbkdf2_U P S i k) out
      = F_loop n P (move_at digest 0 (pbkdf2_U P S i (Suc k))) (pbkdf2_U P S i (Suc k))
          (move_at out 0 (xor_bytes (take 20 out) (pbkdf2_U P S i (Suc k))))"
    by (simp del: pbkdf2_U.simps)
  also have "\<dots> = Some (move_at (move_at out 0 (xor_bytes (take 20 out) (pbkdf2_U P S i (Suc k)))) 0
      (foldl (\<lambda>t j. xor_bytes t (pbkdf2_U P S i j)) (take 20 (move_at out 0 (xor_bytes (take 20 out) (pbkdf2_U P S i (Suc k)))))
        [Suc k + 1..<Suc k + 1 + n]))"
    using Suc.prems by (intro Suc.IH) simp_all
  also have "take 20 (move_at out 0 (xor_bytes (take 20 out) (pbkdf2_U P S i (Suc k)))) = xor_bytes (take 20 out) (pbkdf2_U P S i (Suc k))"
    using Suc.prems by (simp add: move_at_def min_absorb2)
  finally show ?case
    using Suc.prems by (simp add: upt_conv_Cons move_at_again length_xor_fold del: pbkdf2_U.simps upt_Suc)
qed (simp add: move_at_def)

lemma be_byte: "k \<le> 24 \<Longrightarrow> (of_nat (i div 2 ^ k) :: UINT8) = ucast (drop_bit k (of_nat i :: UINT32))"
  unfolding drop_bit_eq_div[symmetric] by (rule bit_word_eqI) (auto simp: bit_simps)

lemma F_correct:
  assumes "length P + 64 \<le> 2 ^ 32" and "length S \<le> 32" and "20 \<le> length out" and "0 < c"
  shows "F P S c i out = Some (move_at out 0 (pbkdf2_T P S i c))"
proof -
  have b: "[of_nat (i div 2 ^ 24), of_nat (i div 2 ^ 16), of_nat (i div 2 ^ 8), of_nat i] = rev (le32_bytes (of_nat i))"
    using be_byte[of 24 i] be_byte[of 16 i] be_byte[of 8 i] be_byte[of 0 i] by (simp add: le32_bytes_def)
  define digest where "digest = move_at (replicate 36 0) 0 (S @ rev (le32_bytes (of_nat i)))"
  have d: "length digest = 36" "take (length S + 4) digest = S @ rev (le32_bytes (of_nat i))"
    using assms(2) by (simp_all add: digest_def move_at_def)
  have "RT_HMAC_SHA1 P (S @ rev (le32_bytes (of_nat i))) (replicate 20 0) 20 = Some (pbkdf2_U P S i 0)"
    using assms(1,2) by (simp add: hmac_full move_at_def)
  moreover have "F_loop (c - 1) P digest (pbkdf2_U P S i 0) (move_at out 0 (pbkdf2_U P S i 0)) = Some (move_at out 0 (pbkdf2_T P S i c))"
    using F_loop_U[OF assms(1) d(1), of "move_at out 0 (pbkdf2_U P S i 0)" "c - 1" S i 0] assms(3,4)
    by (simp add: move_at_again length_xor_fold pbkdf2_T_def del: pbkdf2_U.simps upt_Suc) (simp add: move_at_def del: pbkdf2_U.simps)
  ultimately show ?thesis
    using assms(2,3) unfolding F_def b digest_def[symmetric] Let_def d(2) by simp
qed

text \<open>
  The key of a pass phrase is that of WPA-PSK: for a pass phrase of up to 63 characters and an SSID of up to 32 bytes
  \<^verbatim>\<open>RtmpPasswordHash\<close> writes the first two blocks of PBKDF2(HMAC-SHA-1, pass phrase, SSID, 4096) to the first 40 bytes of its
  output, of which the first 32 are the pairwise master key; any other input is refused with the output unchanged.
\<close>

theorem RtmpPasswordHash_correct:
  assumes "40 \<le> length out"
  shows "RtmpPasswordHash P S out
    = (if length P \<le> 63 \<and> length S \<le> 32 then Some (1, move_at out 0 (pbkdf2_T P S 1 4096 @ pbkdf2_T P S 2 4096)) else Some (0, out))"
proof (cases "length P \<le> 63 \<and> length S \<le> 32")
  case True
  then have f: "F P S 4096 i o' = Some (move_at o' 0 (pbkdf2_T P S i 4096))" if "20 \<le> length o'" for i o'
    using F_correct[of P S o' 4096 i] that by simp
  have "F P S 4096 1 out = Some (move_at out 0 (pbkdf2_T P S 1 4096))"
    "F P S 4096 2 (drop 20 (move_at out 0 (pbkdf2_T P S 1 4096))) = Some (move_at (drop 20 out) 0 (pbkdf2_T P S 2 4096))"
    using assms by (simp_all add: f move_at_def)
  then show ?thesis
    using True by (simp add: RtmpPasswordHash_def) (simp add: move_at_def)
qed (auto simp: RtmpPasswordHash_def)

lemma RtmpPasswordHash_correct_witness:
  "RtmpPasswordHash [112] [115] (replicate 40 0)
     = Some (1, move_at (replicate 40 0) 0 (pbkdf2_T [112] [115] 1 4096 @ pbkdf2_T [112] [115] 2 4096))"
  using RtmpPasswordHash_correct[of "replicate 40 0" "[112]" "[115]"] by simp

section \<open>Key derivation function\<close>

text \<open>The KDF of IEEE 802.11r with 16-bit little-endian counter and length in bits.\<close>

definition ieee_kdf :: "bytes \<Rightarrow> bytes \<Rightarrow> bytes \<Rightarrow> nat \<Rightarrow> nat \<Rightarrow> bytes" where
  "ieee_kdf K label context len n =
     concat (map (\<lambda>i. rfc2104 fips_sha256 K (le16_bytes (of_nat i) @ label @ context @ le16_bytes (of_nat (8 * len)))) [1..<n + 1])"

lemma le16_small: "k < 256 \<Longrightarrow> le16_bytes (of_nat k) = [of_nat k, 0]"
proof -
  assume "k < 256"
  then have "drop_bit 8 (of_nat k :: UINT16) = 0"
    by (simp add: drop_bit_eq_div div_word_less word_less_nat_alt unsigned_of_nat take_bit_nat_eq_self)
  then show ?thesis
    using \<open>k < 256\<close> by (simp add: le16_bytes_def unsigned_of_nat take_bit_nat_eq_self)
qed

lemma le16_masked: "[ucast ((of_nat m :: UINT32) AND 0xFF), ucast (drop_bit 8 ((of_nat m :: UINT32) AND 0xFF00))] = le16_bytes (of_nat m)"
  unfolding le16_bytes_def byte_masks list.inject by (intro conjI refl bit_word_eqI) (auto simp: bit_simps)

lemma kdf_loop_blocks:
  assumes "length key + 64 \<le> 2 ^ 32" and "length z + 65 \<le> 2 ^ 32" and "cur \<le> length out"
  shows "kdf_loop n key (c # z) out cur = (if cur + 32 * n \<le> length out
    then Some (take cur out @ counted (rfc2104 fips_sha256) key [] c z n @ drop (cur + 32 * n) out) else None)"
  using assms(3)
proof (induction n arbitrary: c out cur)
  case (Suc n)
  show ?case
  proof (cases "32 \<le> length out - cur")
    case True
    then have "kdf_loop (Suc n) key (c # z) out cur
        = kdf_loop n key ((c + 1) # z) (take cur out @ rfc2104 fips_sha256 key (c # z) @ drop (cur + 32) out) (cur + 32)"
      using assms(1,2) by (simp add: hmac_full move_at_def add.commute)
    then show ?thesis
      using True Suc.prems by (subst (asm) Suc.IH) (auto simp: counted_Suc ac_simps)
  qed (use assms in \<open>auto simp: hmac_full\<close>)
qed (simp add: counted_def)

text \<open>
  \<^verbatim>\<open>KDF\<close> is the key derivation function of IEEE 802.11r for every length up to 8160 bytes, that is as long as
  its one-byte loop counter does not wrap, and writes \<open>32 * \<lceil>len / 32\<rceil>\<close> bytes.
\<close>

theorem KDF_correct:
  assumes "length key + 64 \<le> 2 ^ 32" and "length label + length context + 4 \<le> 1024" and "len \<le> 8160"
  shows "KDF True key label context out (of_nat len) = (if 32 * ((len + 31) div 32) \<le> length out
    then Some (move_at out 0 (ieee_kdf key label context len ((len + 31) div 32))) else None)"
proof -
  define n where "n = (len + 31) div 32"
  define bits where "bits = (push_bit 3 (ucast (of_nat len :: UINT16)) :: UINT32)"
  have b: "bits = of_nat (8 * len)"
    using assms(3) by (simp add: bits_def push_bit_eq_mult unsigned_of_nat take_bit_nat_eq_self)
  have "(8 * len + 255) div 256 = n"
    using div_mult2_eq[of "8 * len + 255" 8 32] by (simp add: n_def)
  moreover have "unat (bits + 255) = 8 * len + 255"
    using assms(3) unat_of_nat_32[of "8 * len + 255"] unfolding b by simp
  ultimately have n: "unat ((bits + 255) div 256) = n" "n \<le> 255"
    using assms(3) by (simp_all add: unat_div n_def)
  have l: "[ucast (bits AND 0xFF), ucast (drop_bit 8 (bits AND 0xFF00))] = le16_bytes (of_nat (8 * len))"
    unfolding b by (rule le16_masked)
  have "counted (rfc2104 fips_sha256) key [] 1 (0 # label @ context @ le16_bytes (of_nat (8 * len))) n = ieee_kdf key label context len n"
  proof -
    have e: "le16_bytes (of_nat (Suc i)) = [1 + of_nat i, 0]" if "i < n" for i
      using that n(2) le16_small[of "Suc i"] by simp
    have u: "[1..<n + 1] = map Suc [0..<n]"
      by (simp add: map_Suc_upt del: upt_Suc)
    show ?thesis
      unfolding counted_def ieee_kdf_def u list.map_comp
    proof (intro arg_cong[where f = concat] map_cong refl)
      fix i assume "i \<in> set [0..<n]"
      then show "rfc2104 fips_sha256 key ([] @ [1 + of_nat i] @ 0 # label @ context @ le16_bytes (of_nat (8 * len)))
          = ((\<lambda>i. rfc2104 fips_sha256 key (le16_bytes (of_nat i) @ label @ context @ le16_bytes (of_nat (8 * len)))) \<circ> Suc) i"
        unfolding comp_def by (subst e) simp_all
    qed
  qed
  moreover have "KDF True key label context out (of_nat len)
      = kdf_loop n key (1 # 0 # label @ context @ le16_bytes (of_nat (8 * len))) out 0"
    using assms(2) unfolding KDF_def bits_def[symmetric] Let_def n(1) l by simp
  moreover have "length (ieee_kdf key label context len n) = 32 * n"
    by (simp add: ieee_kdf_def length_concat comp_def sum_list_triv)
  ultimately show ?thesis
    using assms(2) kdf_loop_blocks[OF assms(1), of "0 # label @ context @ le16_bytes (of_nat (8 * len))" 0 out n 1]
    unfolding n_def[symmetric] by (simp add: move_at_def)
qed

lemma KDF_correct_witness: "KDF True [] [1] [2] (replicate 64 0) 48 = Some (move_at (replicate 64 0) 0 (ieee_kdf [] [1] [2] 48 2))"
  using KDF_correct[of "[]" "[1]" "[2]" 48 "replicate 64 0"] by simp

section \<open>Nonces and identifiers\<close>

lemma gen_random_blocks:
  assumes "length macAddr = 6" and "length result = 80"
  shows "\<exists>r. gen_random_loop True macAddr now is result = Some r \<and> length r = 80"
  using assms(2)
proof (induction "is" arbitrary: result)
  case (Cons i "is")
  then show ?case
    using assms(1) by (simp add: PRF_blocks ascii_def)
qed simp

lemma GenRandom_length:
  assumes "length macAddr = 6"
  shows "\<exists>r. GenRandom True macAddr now = Some r \<and> length r = 32"
  using gen_random_blocks[OF assms, of "replicate 80 0" now "[0..<32]"] by (auto simp: GenRandom_def simp del: upt_Suc)

lemma RTMPDerivePMKID_correct:
  assumes "length AA = 6" and "length SPA = 6" and "length PMK = 32" and "16 \<le> length out"
  shows "RTMPDerivePMKID AA SPA PMK out = Some (move_at out 0 (take 16 (rfc2104 fips_sha1 PMK (ascii ''PMK Name'' @ AA @ SPA))))"
  using assms by (simp add: RTMPDerivePMKID_def hmac_full ascii_def) (simp add: move_at_def)

end
