(* ===== verification/Eapol.thy ===== *)
theory Eapol
  imports Wpa_Keys Wep Aes_Modes Bss_Entry
begin

text \<open>
  EAPOL-Key messages of \<^verbatim>\<open>common/cmm_wpa.c\<close>: their layout (\<^verbatim>\<open>include/dot11i_wpa.h\<close>), construction, integrity code and
  the checks on a received message, with the installation of the keys it carries.

  \<^item> \<^verbatim>\<open>EAPOL_PACKET\<close> is a packed structure laid over a buffer; here it is a record, \<open>packet_bytes\<close> is its memory and
    \<open>packet_of\<close> the overlay. \<open>KeyData\<close> is the memory behind the structure, to the end of the buffer.
  \<^item> \<open>None\<close> is an access outside an array or through NULL. An optional pointer argument is an \<open>option\<close>.
  \<^item> \<open>mem_ok\<close> gives the outcome of each allocation; the places named by \<open>alloc_site\<close> are reached at most once by a
    handler, but for the 32 of \<^verbatim>\<open>GenRandom\<close>, which share an outcome. \<open>stale\<close> is what uninitialised memory holds. An allocation of nearly \<open>2^32\<close> bytes, which a wrapped length asks for in \<^verbatim>\<open>AES_Key_Unwrap\<close>, fails.
  \<^item> A pointer to a station entry is its index in \<open>Stations\<close>. Writes to the key tables of the chip, frames and events are
    recorded in \<open>wlog\<close>, the latest first.
  \<^item> The build is that of a station; the code for the access-point role that this build contains is modelled as it is.
\<close>

section \<open>Messages\<close>

record KEY_INFO =
  ki_KeyMic :: bool
  ki_Secure :: bool
  ki_Error :: bool
  ki_Request :: bool
  ki_EKD_DL :: bool
  ki_Rsvd :: UINT8
  ki_KeyDescVer :: UINT8
  ki_KeyType :: bool
  ki_KeyIndex :: UINT8
  ki_Install :: bool
  ki_KeyAck :: bool

definition key_info_bytes :: "KEY_INFO \<Rightarrow> bytes" where
  "key_info_bytes k =
     [of_bool (ki_KeyMic k) OR push_bit 1 (of_bool (ki_Secure k)) OR push_bit 2 (of_bool (ki_Error k))
        OR push_bit 3 (of_bool (ki_Request k)) OR push_bit 4 (of_bool (ki_EKD_DL k)) OR push_bit 5 (ki_Rsvd k),
      ki_KeyDescVer k OR push_bit 3 (of_bool (ki_KeyType k)) OR push_bit 4 (ki_KeyIndex k)
        OR push_bit 6 (of_bool (ki_Install k)) OR push_bit 7 (of_bool (ki_KeyAck k))]"

definition key_info_of :: "UINT8 \<Rightarrow> UINT8 \<Rightarrow> KEY_INFO" where
  "key_info_of b c =
     \<lparr>ki_KeyMic = bit b 0, ki_Secure = bit b 1, ki_Error = bit b 2, ki_Request = bit b 3, ki_EKD_DL = bit b 4,
      ki_Rsvd = drop_bit 5 b, ki_KeyDescVer = c AND 7, ki_KeyType = bit c 3, ki_KeyIndex = drop_bit 4 c AND 3,
      ki_Install = bit c 6, ki_KeyAck = bit c 7\<rparr>"

record EAPOL_PACKET =
  ProVer :: UINT8
  ProType :: UINT8
  Body_Len :: bytes
  DescType :: UINT8
  KeyInfo :: KEY_INFO
  KeyLength :: bytes
  ReplayCounter :: bytes
  KeyNonce :: bytes
  KeyIv :: bytes
  KeyRsc :: bytes
  KeyId :: bytes
  KeyMic :: bytes
  KeyDataLen :: bytes
  KeyData :: bytes

definition packet_bytes :: "EAPOL_PACKET \<Rightarrow> bytes" where
  "packet_bytes m = [ProVer m, ProType m] @ Body_Len m @ [DescType m] @ key_info_bytes (KeyInfo m) @ KeyLength m
     @ ReplayCounter m @ KeyNonce m @ KeyIv m @ KeyRsc m @ KeyId m @ KeyMic m @ KeyDataLen m @ KeyData m"

definition slice :: "bytes \<Rightarrow> nat \<Rightarrow> nat \<Rightarrow> bytes" where
  "slice b i n = take n (drop i b)"

definition packet_of :: "bytes \<Rightarrow> EAPOL_PACKET option" where
  "packet_of b =
     (if length b < 99 then None
      else Some \<lparr>ProVer = b ! 0, ProType = b ! 1, Body_Len = slice b 2 2, DescType = b ! 4, KeyInfo = key_info_of (b ! 5) (b ! 6),
        KeyLength = slice b 7 2, ReplayCounter = slice b 9 8, KeyNonce = slice b 17 32, KeyIv = slice b 49 16,
        KeyRsc = slice b 65 8, KeyId = slice b 73 8, KeyMic = slice b 81 16, KeyDataLen = slice b 97 2, KeyData = drop 99 b\<rparr>)"

definition CONV_ARRARY_TO_UINT16 :: "bytes \<Rightarrow> nat" where
  "CONV_ARRARY_TO_UINT16 v = unat (v ! 0) * 256 + unat (v ! 1)"

definition SET_UINT16_TO_ARRARY :: "nat \<Rightarrow> bytes" where
  "SET_UINT16_TO_ARRARY n = [of_nat (n div 256), of_nat n]"

text \<open>The increment of a replay counter, from its last byte on.\<close>

fun add_one_rev :: "bytes \<Rightarrow> bytes" where
  "add_one_rev [] = []"
| "add_one_rev (b # bs) = (if b + 1 = 0 then 0 # add_one_rev bs else (b + 1) # bs)"

definition ADD_ONE_To_64BIT_VAR :: "bytes \<Rightarrow> bytes" where
  "ADD_ONE_To_64BIT_VAR v = rev (add_one_rev (rev v))"

abbreviation (input) EAPOL_PAIR_MSG_1 :: nat where "EAPOL_PAIR_MSG_1 \<equiv> 1"
abbreviation (input) EAPOL_PAIR_MSG_2 :: nat where "EAPOL_PAIR_MSG_2 \<equiv> 2"
abbreviation (input) EAPOL_PAIR_MSG_3 :: nat where "EAPOL_PAIR_MSG_3 \<equiv> 3"
abbreviation (input) EAPOL_PAIR_MSG_4 :: nat where "EAPOL_PAIR_MSG_4 \<equiv> 4"
abbreviation (input) EAPOL_GROUP_MSG_1 :: nat where "EAPOL_GROUP_MSG_1 \<equiv> 5"
abbreviation (input) EAPOL_GROUP_MSG_2 :: nat where "EAPOL_GROUP_MSG_2 \<equiv> 6"
abbreviation (input) KEY_DESC_TKIP :: UINT8 where "KEY_DESC_TKIP \<equiv> 1"
abbreviation (input) KEY_DESC_AES :: UINT8 where "KEY_DESC_AES \<equiv> 2"
abbreviation (input) KEY_DESC_EXT :: UINT8 where "KEY_DESC_EXT \<equiv> 3"
abbreviation (input) MIN_LEN_OF_EAPOL_KEY_MSG :: nat where "MIN_LEN_OF_EAPOL_KEY_MSG \<equiv> 95"

section \<open>State\<close>

record KEY_ENTRY = CIPHER_KEY +
  TxMic :: bytes
  RxMic :: bytes
  CipherAlg :: UINT8

definition zero_key :: KEY_ENTRY where
  "zero_key = \<lparr>Key = replicate 16 0, KeyLen = 0, TxMic = replicate 8 0, RxMic = replicate 8 0, CipherAlg = 0\<rparr>"

record WPA_ENTRY =
  is_client :: bool
  is_apcli :: bool
  ent_Addr :: mac_addr
  ent_AuthMode :: NDIS_802_11_AUTHENTICATION_MODE
  ent_WepStatus :: NDIS_802_11_WEP_STATUS
  is_assoc :: bool \<comment> \<open>\<^verbatim>\<open>Sst == SST_ASSOC\<close>\<close>
  WpaState :: nat
  GTKState :: nat
  ent_PortSecured :: nat
  accept_all :: bool \<comment> \<open>\<^verbatim>\<open>PrivacyFilter == Ndis802_11PrivFilterAcceptAll\<close>\<close>
  R_Counter :: bytes
  ANonce :: bytes
  SNonce :: bytes
  PTK :: bytes
  PairwiseKey :: KEY_ENTRY
  ent_Aid :: UINT8
  ReTryCounter :: nat

datatype wpa_event =
    AddPairwiseKey UINT8 KEY_ENTRY
  | AddSharedKey UINT8 KEY_ENTRY
  | UpdateWCIDIVEIV UINT8 UINT32
  | UpdateWcidAttribute UINT8 UINT8 UINT8 bool
  | SendPacket bytes bytes bool
  | WirelessEvent nat mac_addr
  | MediaConnected
  | CancelLinkDownTimer
  | CancelRetryTimer
  | ModRetryTimer nat

datatype alloc_site = A_KEYDATA | A_unwrap | A_arc4 | A_random | A_prf | A_frame | A_mpool | A_wrap | A_mic | A_packet

record WPA_AD =
  Stations :: "WPA_ENTRY list"
  own_Addr :: mac_addr
  sta_PMK :: bytes
  sta_PTK :: bytes
  sta_GTK :: bytes
  DefaultKeyId :: UINT8
  sta_GroupCipher :: NDIS_802_11_WEP_STATUS
  sta_RSN_IE :: bytes
  sta_RSNIE_Len :: UINT8
  sta_PortSecured :: nat
  SharedKey :: "KEY_ENTRY list"
  scan_while_connected :: bool
  aux_Channel :: UINT8
  own_Channel :: UINT8
  mem_ok :: "alloc_site \<Rightarrow> bool"
  uptime :: "nat \<Rightarrow> ULONG"
  random_tsc :: bytes
  stale :: "nat \<Rightarrow> bytes"
  wlog :: "wpa_event list"

definition upd_ent :: "nat \<Rightarrow> (WPA_ENTRY \<Rightarrow> WPA_ENTRY) \<Rightarrow> WPA_AD \<Rightarrow> WPA_AD" where
  "upd_ent i f ad = ad\<lparr>Stations := (Stations ad)[i := f (Stations ad ! i)]\<rparr>"

definition wlog_add :: "wpa_event \<Rightarrow> WPA_AD \<Rightarrow> WPA_AD" where
  "wlog_add v ad = ad\<lparr>wlog := v # wlog ad\<rparr>"

definition is_wpa2 :: "WPA_ENTRY \<Rightarrow> bool" where
  "is_wpa2 e \<longleftrightarrow> ent_AuthMode e = Ndis802_11AuthModeWPA2 \<or> ent_AuthMode e = Ndis802_11AuthModeWPA2PSK"

section \<open>Installation of keys\<close>

definition RTMPSetWcidSecurityInfo :: "WPA_AD \<Rightarrow> UINT8 \<Rightarrow> UINT8 \<Rightarrow> UINT8 \<Rightarrow> bool \<Rightarrow> WPA_AD" where
  "RTMPSetWcidSecurityInfo ad KeyIdx alg Wcid shared =
     (if alg = 1 \<or> alg = 2 then
        let IV = push_bit 24 (push_bit 6 (ucast KeyIdx)) OR push_bit 16 (ucast (random_tsc ad ! 2))
                 OR push_bit 8 (ucast (random_tsc ad ! 1)) OR ucast (random_tsc ad ! 0)
        in wlog_add (UpdateWcidAttribute KeyIdx alg Wcid shared) (wlog_add (UpdateWCIDIVEIV Wcid IV) ad)
      else if alg = 3 \<or> alg = 4 then
        let IV_KEYID = push_bit 6 KeyIdx OR 0x20; IV = push_bit 24 (ucast IV_KEYID) OR 1
        in wlog_add (UpdateWcidAttribute KeyIdx alg Wcid shared) (wlog_add (UpdateWCIDIVEIV Wcid IV) ad)
      else ad)"

text \<open>The key entry that an installation leaves, and whether it is handed to the chip.\<close>

definition pairwise_key :: "WPA_ENTRY \<Rightarrow> bool \<Rightarrow> KEY_ENTRY \<times> bool" where
  "pairwise_key e bAE =
     (let k = zero_key\<lparr>KeyLen := 16, Key := slice (PTK e) 32 16\<rparr> in
      if ent_WepStatus e = Ndis802_11Encryption2Enabled then
        if bAE then (k\<lparr>CipherAlg := 3, TxMic := slice (PTK e) 48 8, RxMic := slice (PTK e) 56 8\<rparr>, True)
        else (k\<lparr>CipherAlg := 3, TxMic := slice (PTK e) 56 8, RxMic := slice (PTK e) 48 8\<rparr>, True)
      else if ent_WepStatus e = Ndis802_11Encryption3Enabled then (k\<lparr>CipherAlg := 4\<rparr>, True)
      else (zero_key, False))"

definition WPAInstallPairwiseKey :: "WPA_AD \<Rightarrow> nat \<Rightarrow> bool \<Rightarrow> WPA_AD" where
  "WPAInstallPairwiseKey ad i bAE =
     (let e = Stations ad ! i; (k, ok) = pairwise_key e bAE; ad = upd_ent i (\<lambda>e. e\<lparr>PairwiseKey := k\<rparr>) ad
      in if ok then RTMPSetWcidSecurityInfo (wlog_add (AddPairwiseKey (ent_Aid e) k) ad) 0 (CipherAlg k) (ent_Aid e) False else ad)"

definition group_alg :: "NDIS_802_11_WEP_STATUS \<Rightarrow> UINT8" where
  "group_alg c =
     (if c = Ndis802_11GroupWEP40Enabled then 1 else if c = Ndis802_11GroupWEP104Enabled then 2
      else if c = Ndis802_11Encryption2Enabled then 3 else if c = Ndis802_11Encryption3Enabled then 4 else 0)"

definition group_key :: "NDIS_802_11_WEP_STATUS \<Rightarrow> bool \<Rightarrow> bytes \<Rightarrow> UINT8 \<Rightarrow> KEY_ENTRY \<times> bool" where
  "group_key c bAE pGtk GtkLen =
     (let k = zero_key\<lparr>CipherAlg := group_alg c\<rparr> in
      if group_alg c = 0 then (k, False)
      else if group_alg c \<le> 2 then
        if GtkLen \<noteq> 5 \<and> GtkLen \<noteq> 13 then (k, False)
        else (k\<lparr>KeyLen := GtkLen, Key := move_at (Key k) 0 (take (unat GtkLen) pGtk)\<rparr>, True)
      else if GtkLen < 16 then (k, False)
      else
        let k = k\<lparr>KeyLen := 16, Key := take 16 pGtk\<rparr> in
        if group_alg c = 3 then
          if bAE then (k\<lparr>TxMic := slice pGtk 16 8, RxMic := slice pGtk 24 8\<rparr>, True)
          else (k\<lparr>TxMic := slice pGtk 24 8, RxMic := slice pGtk 16 8\<rparr>, True)
        else (k, True))"

definition WPAInstallSharedKey :: "WPA_AD \<Rightarrow> NDIS_802_11_WEP_STATUS \<Rightarrow> UINT8 \<Rightarrow> UINT8 \<Rightarrow> bool \<Rightarrow> bytes \<Rightarrow> UINT8 \<Rightarrow> WPA_AD" where
  "WPAInstallSharedKey ad c KeyIdx Wcid bAE pGtk GtkLen =
     (let (k, ok) = group_key c bAE pGtk GtkLen;
          ad = ad\<lparr>SharedKey := (SharedKey ad)[unat KeyIdx := k]\<rparr>
      in if \<not> ok then ad
         else if Wcid \<noteq> 0 then RTMPSetWcidSecurityInfo (wlog_add (AddSharedKey KeyIdx k) ad) KeyIdx (CipherAlg k) Wcid True
         else wlog_add (AddSharedKey KeyIdx k) ad)"

section \<open>Key data\<close>

text \<open>
  \<^verbatim>\<open>TKIP_GTK_KEY_WRAP\<close> of \<^verbatim>\<open>common/cmm_tkip.c\<close>: ARC4 with the first 256 key bytes discarded. The output buffer lies behind
  the input in the buffer of \<^verbatim>\<open>ARC4_Compute\<close>. Unwrapping is the same function.
\<close>

definition TKIP_GTK_KEY_WRAP :: "bool \<Rightarrow> bytes \<Rightarrow> bytes \<Rightarrow> bytes \<Rightarrow> nat \<Rightarrow> bytes \<Rightarrow> bytes" where
  "TKIP_GTK_KEY_WRAP ok key iv input n output =
     (if \<not> ok then output
      else
        let c = ARC4_Discard_KeyLength (ARC4_INIT (take 16 iv @ take 16 key) 32) 256
        in drop (length input) (ARC4_Compute n c (input @ output) 0 (length input)))"

definition OUI_WPA2 :: bytes where "OUI_WPA2 = [0x00, 0x0F, 0xAC]"

text \<open>The parsed group key: the local array, its length and its index; \<open>Inl\<close> is the return of \<^verbatim>\<open>FALSE\<close> for a short key.\<close>

type_synonym gtk_info = "bytes \<times> UINT8 \<times> UINT8"

definition gtk_kde :: "bytes \<Rightarrow> nat \<Rightarrow> UINT8 \<Rightarrow> gtk_info \<Rightarrow> (unit + gtk_info) option" where
  "gtk_kde kd pos len g = do {
     eid \<leftarrow> rd kd pos;
     if eid \<noteq> 0xdd then Some (Inr g)
     else do {
       oui \<leftarrow> equal_memory kd (pos + 2) OUI_WPA2;
       dt \<leftarrow> rd kd (pos + 5);
       if \<not> oui \<or> dt \<noteq> 1 then Some (Inr g)
       else do {
         kid \<leftarrow> rd kd (pos + 6);
         let GTKLEN = len - 6;
         if GTKLEN < 5 then Some (Inl ())
         else if unat GTKLEN > 32 \<or> pos + 8 + unat GTKLEN > length kd then None
         else Some (Inr (move_at (fst g) 0 (slice kd (pos + 8) (unat GTKLEN)), GTKLEN, kid AND 3)) } } }"

function kde_loop :: "bytes \<Rightarrow> nat \<Rightarrow> nat \<Rightarrow> gtk_info \<Rightarrow> (unit + gtk_info) option" where
  "kde_loop kd n pos g = do {
     len \<leftarrow> rd kd (pos + 1);
     if pos + 2 + unat len \<le> n then do {
       r \<leftarrow> gtk_kde kd pos len g;
       case r of Inl u \<Rightarrow> Some (Inl u) | Inr g \<Rightarrow> kde_loop kd n (pos + 2 + unat len) g }
     else Some (Inr g) }"
  by pat_completeness auto
termination by (relation "measure (\<lambda>(kd, n, pos, g). n + 1 - pos)") auto

declare kde_loop.simps [simp del]

definition install_gtk :: "WPA_AD \<Rightarrow> gtk_info \<Rightarrow> bool \<times> WPA_AD" where
  "install_gtk ad g = (case g of (GTK, GTKLEN, DefaultIdx) \<Rightarrow>
     if DefaultIdx > 3 then (False, ad)
     else
       let ad = ad\<lparr>sta_GTK := move_at (sta_GTK ad) 0 (take (unat GTKLEN) GTK), DefaultKeyId := DefaultIdx\<rparr>
       in (True, WPAInstallSharedKey ad (sta_GroupCipher ad) (DefaultKeyId ad) 0 False (sta_GTK ad) GTKLEN))"

definition RTMPParseEapolKeyData :: "WPA_AD \<Rightarrow> bytes \<Rightarrow> UINT8 \<Rightarrow> UINT8 \<Rightarrow> nat \<Rightarrow> bool \<Rightarrow> (bool \<times> WPA_AD) option" where
  "RTMPParseEapolKeyData ad kd KeyDataLength GroupKeyIndex MsgType bWPA2 =
     (if (MsgType = EAPOL_PAIR_MSG_2 \<or> MsgType = EAPOL_PAIR_MSG_3) \<and> \<not> (bWPA2 \<and> MsgType = EAPOL_PAIR_MSG_3) then Some (True, ad)
      else if bWPA2 \<and> (MsgType = EAPOL_PAIR_MSG_3 \<or> MsgType = EAPOL_GROUP_MSG_1) then do {
        r \<leftarrow> kde_loop kd (unat KeyDataLength) 0 (replicate 32 0, 0, 0);
        case r of Inl _ \<Rightarrow> Some (False, ad) | Inr g \<Rightarrow> Some (install_gtk ad g) }
      else if \<not> bWPA2 \<and> MsgType = EAPOL_GROUP_MSG_1 then
        if unat KeyDataLength > 32 then None
        else Some (install_gtk ad (move_at (replicate 32 0) 0 (take (unat KeyDataLength) kd), KeyDataLength, GroupKeyIndex))
      else Some (install_gtk ad (replicate 32 0, 0, 0)))"

section \<open>Checking a received message\<close>

definition eapol_mic :: "UINT8 \<Rightarrow> bytes \<Rightarrow> bytes \<Rightarrow> bytes option" where
  "eapol_mic ver ptk m =
     (if ver = KEY_DESC_TKIP then RT_HMAC_MD5 (take 16 ptk) m (replicate 16 0) 16
      else if ver = KEY_DESC_AES then map_option (take 16) (RT_HMAC_SHA1 (take 16 ptk) m (replicate 80 0) 20)
      else if ver = KEY_DESC_EXT then Some (fst (AES_CMAC m (length m) (take 16 ptk) 16 (replicate 16 0) 16))
      else Some (replicate 16 0))"

definition decrypt_key_data :: "WPA_AD \<Rightarrow> WPA_ENTRY \<Rightarrow> EAPOL_PACKET \<Rightarrow> (bytes \<times> EAPOL_PACKET) option" where
  "decrypt_key_data ad e m =
     (let n = CONV_ARRARY_TO_UINT16 (KeyDataLen m); kek = slice (PTK e) 16 16; kd = replicate 255 0 in
      if n > length (KeyData m) then None
      else if ki_KeyDescVer (KeyInfo m) = KEY_DESC_EXT \<or> ki_KeyDescVer (KeyInfo m) = KEY_DESC_AES then
        let ok = (mem_ok ad A_unwrap \<and> 8 \<le> n);
            (code, plain) = AES_Key_Unwrap ok (KeyData m) n kek 16;
            out = (if code = 0 then take (n - 8) plain else [])
        in if length out > 255 then None
           else Some (move_at kd 0 out, m\<lparr>KeyDataLen := SET_UINT16_TO_ARRARY (length out)\<rparr>)
      else if n > 255 then None
      else Some (TKIP_GTK_KEY_WRAP (mem_ok ad A_arc4) kek (KeyIv m) (KeyData m) n kd, m))"

definition check_key_data :: "WPA_AD \<Rightarrow> nat \<Rightarrow> EAPOL_PACKET \<Rightarrow> nat \<Rightarrow> (bool \<times> EAPOL_PACKET \<times> WPA_AD) option" where
  "check_key_data ad i m MsgType =
     (let e = Stations ad ! i; bWPA2 = is_wpa2 e; n = CONV_ARRARY_TO_UINT16 (KeyDataLen m) in
      if n = 0 then Some (True, m, ad)
      else if (MsgType = EAPOL_PAIR_MSG_3 \<and> bWPA2) \<or> MsgType = EAPOL_GROUP_MSG_1 then do {
        (kd, m) \<leftarrow> decrypt_key_data ad e m;
        let idx = (if \<not> bWPA2 \<and> MsgType = EAPOL_GROUP_MSG_1 then ki_KeyIndex (KeyInfo m) else 0);
        (r, ad) \<leftarrow> RTMPParseEapolKeyData ad kd (of_nat (CONV_ARRARY_TO_UINT16 (KeyDataLen m))) idx MsgType bWPA2;
        Some (r, m, ad) }
      else if MsgType = EAPOL_PAIR_MSG_2 \<or> (MsgType = EAPOL_PAIR_MSG_3 \<and> \<not> bWPA2) then
        if n > length (KeyData m) \<or> n > 255 then None
        else do {
          (r, ad) \<leftarrow> RTMPParseEapolKeyData ad (move_at (replicate 255 0) 0 (take n (KeyData m))) (of_nat n) 0 MsgType bWPA2;
          Some (r, m, ad) }
      else Some (True, m, ad))"

definition replay_diff :: "nat \<Rightarrow> bytes \<Rightarrow> bytes \<Rightarrow> bool" where
  "replay_diff MsgType received current =
     (if MsgType = EAPOL_PAIR_MSG_1 \<or> MsgType = EAPOL_PAIR_MSG_3 \<or> MsgType = EAPOL_GROUP_MSG_1 then
        RTMPCompareMemory received current 8 \<noteq> 1 \<and> RTMPCompareMemory received (replicate 8 0) 8 \<noteq> 0
      else received \<noteq> current)"

definition PeerWpaMessageSanity :: "WPA_AD \<Rightarrow> nat \<Rightarrow> EAPOL_PACKET \<Rightarrow> nat \<Rightarrow> (bool \<times> EAPOL_PACKET \<times> WPA_AD) option" where
  "PeerWpaMessageSanity ad i m MsgType =
     (let e = Stations ad ! i in
      if \<not> mem_ok ad A_KEYDATA then Some (False, m, ad)
      else if MsgType > EAPOL_GROUP_MSG_2 \<or> MsgType < EAPOL_PAIR_MSG_1 then Some (False, m, ad)
      else if replay_diff MsgType (ReplayCounter m) (R_Counter e) then Some (False, m, wlog_add (WirelessEvent 0x0205 (ent_Addr e)) ad)
      else if MsgType = EAPOL_PAIR_MSG_1 then check_key_data ad i m MsgType
      else
        let rcvd_mic = KeyMic m;
            m = m\<lparr>KeyMic := replicate 16 0\<rparr>;
            eapol_len = CONV_ARRARY_TO_UINT16 (Body_Len m) + 4
        in if eapol_len > length (packet_bytes m) then None
           else do {
             mic \<leftarrow> eapol_mic (ki_KeyDescVer (KeyInfo m)) (PTK e) (take eapol_len (packet_bytes m));
             if rcvd_mic \<noteq> mic then Some (False, m, wlog_add (WirelessEvent 0x0207 (ent_Addr e)) ad)
             else check_key_data ad i m MsgType })"

section \<open>Construction of messages\<close>

definition WPA_ConstructKdeHdr :: "UINT8 \<Rightarrow> UINT8 \<Rightarrow> bytes" where
  "WPA_ConstructKdeHdr data_type data_len = [0xdd, 4 + data_len] @ OUI_WPA2 @ [data_type]"

definition RTMPInsertRSNIE :: "bytes \<Rightarrow> UINT8 \<Rightarrow> bytes \<Rightarrow> UINT8 \<Rightarrow> bytes" where
  "RTMPInsertRSNIE rsnie rsnie_len pmkid pmkid_len =
     (let listed = (pmkid_len > 0 \<and> pmkid_len AND 0x0F = 0);
          extra_len = (if listed then 2 + pmkid_len else 0);
          pmk_count = (if listed then drop_bit 4 pmkid_len else 0);
          rsn = (slice rsnie 2 3 = OUI_WPA2)
      in if rsnie_len = 0 then []
         else [if rsn then 48 else 221, if rsn then rsnie_len + extra_len else rsnie_len] @ take (unat rsnie_len) rsnie
           @ (if rsn \<and> extra_len > 0 then [pmk_count, 0] @ take (unat pmkid_len) pmkid else []))"

definition gtk_included :: "WPA_ENTRY \<Rightarrow> nat \<Rightarrow> bool" where
  "gtk_included e MsgType \<longleftrightarrow> (MsgType = EAPOL_PAIR_MSG_3 \<and> is_wpa2 e) \<or> MsgType = EAPOL_GROUP_MSG_1"

definition clear_key_data ::
    "WPA_ENTRY \<Rightarrow> NDIS_802_11_WEP_STATUS \<Rightarrow> nat \<Rightarrow> UINT8 \<Rightarrow> bytes option \<Rightarrow> bytes option \<Rightarrow> UINT8 \<Rightarrow> bytes option" where
  "clear_key_data e gcipher MsgType idx GTK RSNIE RSNIE_LEN = do {
     ie \<leftarrow> (if RSNIE_LEN \<noteq> 0 \<and> (MsgType = EAPOL_PAIR_MSG_2 \<or> MsgType = EAPOL_PAIR_MSG_3)
           then map_option (\<lambda>r. RTMPInsertRSNIE r RSNIE_LEN [] 0) RSNIE else Some []);
     if \<not> gtk_included e MsgType then Some ie
     else do {
       gtk \<leftarrow> GTK;
       let gtk_len = (if gcipher = Ndis802_11Encryption3Enabled then 16 else 32);
       let hdr = (if is_wpa2 e then WPA_ConstructKdeHdr 1 (2 + gtk_len) @ [idx AND 3, 0] else []);
       if length gtk < unat gtk_len then None else Some (ie @ hdr @ take (unat gtk_len) gtk) } }"

definition pad_key_data :: "bytes \<Rightarrow> bytes" where
  "pad_key_data d = (if length d mod 8 = 0 then d else d @ 0xDD # replicate (7 - length d mod 8) 0)"

definition wrap_key_data :: "WPA_AD \<Rightarrow> WPA_ENTRY \<Rightarrow> UINT8 \<Rightarrow> bytes \<Rightarrow> bytes \<Rightarrow> bytes" where
  "wrap_key_data ad e ver iv d =
     (let kek = slice (PTK e) 16 16 in
      if ver = KEY_DESC_AES then
        let d = pad_key_data d; (code, c) = AES_Key_Wrap (mem_ok ad A_wrap) d (length d) kek 16
        in if code = 0 then c else []
      else take (length d) (TKIP_GTK_KEY_WRAP (mem_ok ad A_arc4) kek iv d (length d) (stale ad 512)))"

definition ConstructEapolKeyData ::
    "WPA_AD \<Rightarrow> WPA_ENTRY \<Rightarrow> NDIS_802_11_WEP_STATUS \<Rightarrow> UINT8 \<Rightarrow> nat \<Rightarrow> UINT8 \<Rightarrow> bytes option \<Rightarrow> bytes option \<Rightarrow> UINT8
     \<Rightarrow> EAPOL_PACKET \<Rightarrow> EAPOL_PACKET option" where
  "ConstructEapolKeyData ad e gcipher ver MsgType idx GTK RSNIE RSNIE_LEN m =
     (if MsgType = EAPOL_PAIR_MSG_1 \<or> MsgType = EAPOL_PAIR_MSG_4 \<or> MsgType = EAPOL_GROUP_MSG_2 then Some m
      else if \<not> mem_ok ad A_mpool then Some m
      else do {
        d \<leftarrow> clear_key_data e gcipher MsgType idx GTK RSNIE RSNIE_LEN;
        let d = (if gtk_included e MsgType then wrap_key_data ad e ver (KeyIv m) d else d);
        if length d > length (KeyData m) then None
        else Some (m\<lparr>KeyData := move_at (KeyData m) 0 d, KeyDataLen := SET_UINT16_TO_ARRARY (length d),
               Body_Len := SET_UINT16_TO_ARRARY (CONV_ARRARY_TO_UINT16 (Body_Len m) + length d)\<rparr>) })"

definition CalculateMIC :: "WPA_AD \<Rightarrow> UINT8 \<Rightarrow> bytes \<Rightarrow> EAPOL_PACKET \<Rightarrow> EAPOL_PACKET option" where
  "CalculateMIC ad ver ptk m =
     (if \<not> mem_ok ad A_mic then Some m
      else
        let FrameLen = CONV_ARRARY_TO_UINT16 (Body_Len m) + 4
        in if FrameLen > 512 \<or> FrameLen > length (packet_bytes m) then None
           else do {
             mic \<leftarrow> eapol_mic ver ptk (take FrameLen (packet_bytes m));
             Some (m\<lparr>KeyMic := mic\<rparr>) })"

definition set_key_info :: "bool \<Rightarrow> UINT8 \<Rightarrow> nat \<Rightarrow> UINT8 \<Rightarrow> KEY_INFO \<Rightarrow> KEY_INFO" where
  "set_key_info bWPA2 ver MsgType idx k =
     (let k = k\<lparr>ki_KeyDescVer := ver, ki_KeyType := (MsgType < EAPOL_GROUP_MSG_1)\<rparr>;
          k = (if \<not> bWPA2 \<and> MsgType \<ge> EAPOL_GROUP_MSG_1 then k\<lparr>ki_KeyIndex := idx AND 3\<rparr> else k);
          k = (if MsgType = EAPOL_PAIR_MSG_3 then k\<lparr>ki_Install := True\<rparr> else k);
          k = (if MsgType = EAPOL_PAIR_MSG_1 \<or> MsgType = EAPOL_PAIR_MSG_3 \<or> MsgType = EAPOL_GROUP_MSG_1 then k\<lparr>ki_KeyAck := True\<rparr> else k);
          k = (if MsgType \<noteq> EAPOL_PAIR_MSG_1 then k\<lparr>ki_KeyMic := True\<rparr> else k);
          k = (if (bWPA2 \<and> MsgType \<ge> EAPOL_PAIR_MSG_3) \<or> (\<not> bWPA2 \<and> MsgType \<ge> EAPOL_GROUP_MSG_1) then k\<lparr>ki_Secure := True\<rparr> else k)
      in if bWPA2 \<and> (MsgType = EAPOL_PAIR_MSG_3 \<or> MsgType = EAPOL_GROUP_MSG_1) then k\<lparr>ki_EKD_DL := True\<rparr> else k)"

definition set_key_length :: "WPA_ENTRY \<Rightarrow> NDIS_802_11_WEP_STATUS \<Rightarrow> nat \<Rightarrow> bytes \<Rightarrow> bytes" where
  "set_key_length e gcipher MsgType v =
     (let pair = (if ent_WepStatus e = Ndis802_11Encryption2Enabled then 32 else 16) in
      if is_wpa2 e then if MsgType = EAPOL_PAIR_MSG_1 \<or> MsgType = EAPOL_PAIR_MSG_3 then v[1 := pair] else v
      else if MsgType \<ge> EAPOL_GROUP_MSG_1 then v[1 := (if gcipher = Ndis802_11Encryption2Enabled then 32 else 16)]
      else v[1 := pair])"

definition set_nonce :: "bool \<Rightarrow> nat \<Rightarrow> bytes option \<Rightarrow> EAPOL_PACKET \<Rightarrow> EAPOL_PACKET option" where
  "set_nonce bWPA2 MsgType pNonce m =
     (if MsgType \<le> EAPOL_PAIR_MSG_3 \<or> (\<not> bWPA2 \<and> MsgType = EAPOL_GROUP_MSG_1) then do {
        nonce \<leftarrow> pNonce;
        let m = m\<lparr>KeyNonce := take 32 nonce\<rparr>;
        let iv = slice nonce 16 16;
        Some (if \<not> bWPA2 \<and> MsgType = EAPOL_GROUP_MSG_1 then m\<lparr>KeyIv := iv[15 := iv ! 15 + 2]\<rparr> else m) }
      else Some m)"

definition set_rsc :: "WPA_ENTRY \<Rightarrow> nat \<Rightarrow> bytes option \<Rightarrow> EAPOL_PACKET \<Rightarrow> EAPOL_PACKET option" where
  "set_rsc e MsgType TxRSC m =
     (if gtk_included e MsgType then map_option (\<lambda>r. m\<lparr>KeyRsc := move_at (KeyRsc m) 0 (take 6 r)\<rparr>) TxRSC else Some m)"

definition ConstructEapolMsg ::
    "WPA_AD \<Rightarrow> WPA_ENTRY \<Rightarrow> NDIS_802_11_WEP_STATUS \<Rightarrow> nat \<Rightarrow> UINT8 \<Rightarrow> bytes option \<Rightarrow> bytes option \<Rightarrow> bytes option
     \<Rightarrow> bytes option \<Rightarrow> UINT8 \<Rightarrow> EAPOL_PACKET \<Rightarrow> EAPOL_PACKET option" where
  "ConstructEapolMsg ad e gcipher MsgType idx pNonce TxRSC GTK RSNIE RSNIE_Len m =
     (let ver = (if ent_WepStatus e = Ndis802_11Encryption3Enabled \<or> gcipher = Ndis802_11Encryption3Enabled
                 then KEY_DESC_AES else KEY_DESC_TKIP);
          m = m\<lparr>ProVer := 1, ProType := 3, Body_Len := SET_UINT16_TO_ARRARY MIN_LEN_OF_EAPOL_KEY_MSG,
            DescType := (if is_wpa2 e then 2 else 254), KeyInfo := set_key_info (is_wpa2 e) ver MsgType idx (KeyInfo m),
            KeyLength := set_key_length e gcipher MsgType (KeyLength m), ReplayCounter := take 8 (R_Counter e)\<rparr>
      in do {
        m \<leftarrow> set_nonce (is_wpa2 e) MsgType pNonce m;
        m \<leftarrow> set_rsc e MsgType TxRSC m;
        m \<leftarrow> ConstructEapolKeyData ad e gcipher ver MsgType idx GTK RSNIE RSNIE_Len (m\<lparr>KeyMic := replicate 16 0\<rparr>);
        if MsgType = EAPOL_PAIR_MSG_1 then Some m else CalculateMIC ad ver (PTK e) m })"

text \<open>A freshly allocated and zeroed transmit buffer of 1500 bytes.\<close>

definition zero_frame :: EAPOL_PACKET where
  "zero_frame = \<lparr>ProVer = 0, ProType = 0, Body_Len = [0, 0], DescType = 0, KeyInfo = key_info_of 0 0, KeyLength = [0, 0],
     ReplayCounter = replicate 8 0, KeyNonce = replicate 32 0, KeyIv = replicate 16 0, KeyRsc = replicate 8 0,
     KeyId = replicate 8 0, KeyMic = replicate 16 0, KeyDataLen = [0, 0], KeyData = replicate 1401 0\<rparr>"

section \<open>Layout\<close>

text \<open>The bit fields hold values of their width and the arrays have their lengths.\<close>

definition wf_info :: "KEY_INFO \<Rightarrow> bool" where
  "wf_info k \<longleftrightarrow> ki_Rsvd k AND 7 = ki_Rsvd k \<and> ki_KeyDescVer k AND 7 = ki_KeyDescVer k \<and> ki_KeyIndex k AND 3 = ki_KeyIndex k"

definition wf_packet :: "EAPOL_PACKET \<Rightarrow> bool" where
  "wf_packet m \<longleftrightarrow> length (Body_Len m) = 2 \<and> wf_info (KeyInfo m) \<and> length (KeyLength m) = 2 \<and> length (ReplayCounter m) = 8
     \<and> length (KeyNonce m) = 32 \<and> length (KeyIv m) = 16 \<and> length (KeyRsc m) = 8 \<and> length (KeyId m) = 8
     \<and> length (KeyMic m) = 16 \<and> length (KeyDataLen m) = 2"

lemma small_masks: "(7 :: UINT8) = mask 3" "(3 :: UINT8) = mask 2"
  by (simp_all add: mask_eq_exp_minus_1)

lemma masked_bit:
  assumes "x AND mask n = (x :: UINT8)" shows "bit x i \<longleftrightarrow> i < n \<and> bit x i"
  using arg_cong[OF assms, of "\<lambda>w. bit w i"] by (auto simp: bit_simps)

lemma key_info_of_bytes:
  assumes "wf_info k" shows "key_info_of (key_info_bytes k ! 0) (key_info_bytes k ! 1) = k"
proof -
  have r: "bit (ki_Rsvd k) i \<longleftrightarrow> i < 3 \<and> bit (ki_Rsvd k) i" "bit (ki_KeyDescVer k) i \<longleftrightarrow> i < 3 \<and> bit (ki_KeyDescVer k) i"
    "bit (ki_KeyIndex k) i \<longleftrightarrow> i < 2 \<and> bit (ki_KeyIndex k) i" for i
    using assms masked_bit unfolding wf_info_def small_masks by blast+
  have f: "drop_bit 5 (key_info_bytes k ! 0) = ki_Rsvd k" "key_info_bytes k ! 1 AND 7 = ki_KeyDescVer k"
    "drop_bit 4 (key_info_bytes k ! 1) AND 3 = ki_KeyIndex k"
    unfolding small_masks
    by (rule bit_word_eqI; subst r; auto simp: key_info_bytes_def bit_simps dest: r[THEN iffD1])+
  have b: "bit (key_info_bytes k ! 0) 0 = ki_KeyMic k" "bit (key_info_bytes k ! 0) 1 = ki_Secure k" "bit (key_info_bytes k ! 0) 2 = ki_Error k"
    "bit (key_info_bytes k ! 0) 3 = ki_Request k" "bit (key_info_bytes k ! 0) 4 = ki_EKD_DL k"
    "bit (key_info_bytes k ! 1) 3 = ki_KeyType k" "bit (key_info_bytes k ! 1) 6 = ki_Install k" "bit (key_info_bytes k ! 1) 7 = ki_KeyAck k"
    using r(2)[of 3] r(2)[of 6] r(2)[of 7] r(3)[of 2] r(3)[of 3] by (auto simp: key_info_bytes_def bit_simps)
  show ?thesis unfolding key_info_of_def f b by simp
qed

lemma key_info_bytes_of: "key_info_bytes (key_info_of b c) = [b, c]" and wf_info_of: "wf_info (key_info_of b c)"
proof -
  show "wf_info (key_info_of b c)"
    unfolding wf_info_def key_info_of_def small_masks
    by (auto intro!: bit_word_eqI simp: bit_simps dest!: bit_imp_le_length[of b])
  have n: "n = 0 \<or> n = 1 \<or> n = 2 \<or> n = 3 \<or> n = 4 \<or> n = 5 \<or> n = 6 \<or> n = 7" if "n < LENGTH(8)" for n
    using that by simp arith
  have "bit (of_bool (bit b 0) OR push_bit 1 (of_bool (bit b 1)) OR push_bit 2 (of_bool (bit b 2)) OR push_bit 3 (of_bool (bit b 3))
        OR push_bit 4 (of_bool (bit b 4)) OR push_bit 5 (drop_bit 5 b)) i = bit b i" if "i < LENGTH(8)" for i
    using n[OF that] by (elim disjE) (simp_all add: bit_simps)
  moreover have "bit ((c AND mask 3) OR push_bit 3 (of_bool (bit c 3)) OR push_bit 4 (drop_bit 4 c AND mask 2)
        OR push_bit 6 (of_bool (bit c 6)) OR push_bit 7 (of_bool (bit c 7))) i = bit c i" if "i < LENGTH(8)" for i
    using n[OF that] by (elim disjE) (simp_all add: bit_simps)
  ultimately show "key_info_bytes (key_info_of b c) = [b, c]"
    unfolding key_info_bytes_def key_info_of_def KEY_INFO.select_convs list.inject small_masks
    by (intro conjI bit_word_eqI refl) blast+
qed

lemma length_key_info [simp]: "length (key_info_bytes k) = 2"
  by (simp add: key_info_bytes_def)

lemma length_slice [simp]: "length (slice b i n) = min n (length b - i)"
  by (simp add: slice_def)

lemma packet_of_bytes:
  assumes "wf_packet m" shows "packet_of (packet_bytes m) = Some m"
proof -
  obtain a b where k: "key_info_bytes (KeyInfo m) = [a, b]" "key_info_of a b = KeyInfo m"
    using key_info_of_bytes[of "KeyInfo m"] assms unfolding wf_packet_def key_info_bytes_def by auto
  show ?thesis
    using assms unfolding wf_packet_def packet_of_def packet_bytes_def k(1)
    by (simp add: slice_def k(2) nth_append)
qed

lemma take_drop_chain: "take n (drop i b) @ drop (i + n) b = drop i b"
  by (metis append_take_drop_id drop_drop add.commute)

lemma bytes_of_packet:
  assumes "packet_of b = Some m" shows "wf_packet m" and "packet_bytes m = b"
proof -
  have l: "99 \<le> length b" using assms by (simp add: packet_of_def split: if_splits)
  have m: "m = \<lparr>ProVer = b ! 0, ProType = b ! 1, Body_Len = slice b 2 2, DescType = b ! 4, KeyInfo = key_info_of (b ! 5) (b ! 6),
        KeyLength = slice b 7 2, ReplayCounter = slice b 9 8, KeyNonce = slice b 17 32, KeyIv = slice b 49 16,
        KeyRsc = slice b 65 8, KeyId = slice b 73 8, KeyMic = slice b 81 16, KeyDataLen = slice b 97 2, KeyData = drop 99 b\<rparr>"
    using assms l by (simp add: packet_of_def)
  show "wf_packet m" using l by (simp add: m wf_packet_def wf_info_of)
  have one: "b ! i # drop (Suc i) b = drop i b" if "i < 99" for i
    using that l by (simp add: Cons_nth_drop_Suc)
  have t: "take n (drop i b) @ drop j b = drop i b" if "j = i + n" for i n j
    using that take_drop_chain by simp
  have "packet_bytes m = b ! 0 # b ! 1 # slice b 2 2 @ b ! 4 # b ! 5 # b ! 6 # slice b 7 2 @ slice b 9 8 @ slice b 17 32 @ slice b 49 16
      @ slice b 65 8 @ slice b 73 8 @ slice b 81 16 @ slice b 97 2 @ drop 99 b"
    by (simp add: m packet_bytes_def key_info_bytes_of)
  also have "\<dots> = b" using one[of 0] one[of 1] one[of 4] one[of 5] one[of 6] by (simp add: slice_def t numeral_2_eq_2)
  finally show "packet_bytes m = b" .
qed

section \<open>Updates of the state\<close>

lemma upd_ent_fields [simp]:
  "own_Addr (upd_ent i f ad) = own_Addr ad"
  "sta_PMK (upd_ent i f ad) = sta_PMK ad"
  "sta_PTK (upd_ent i f ad) = sta_PTK ad"
  "sta_GTK (upd_ent i f ad) = sta_GTK ad"
  "DefaultKeyId (upd_ent i f ad) = DefaultKeyId ad"
  "sta_GroupCipher (upd_ent i f ad) = sta_GroupCipher ad"
  "sta_RSN_IE (upd_ent i f ad) = sta_RSN_IE ad"
  "sta_RSNIE_Len (upd_ent i f ad) = sta_RSNIE_Len ad"
  "sta_PortSecured (upd_ent i f ad) = sta_PortSecured ad"
  "SharedKey (upd_ent i f ad) = SharedKey ad"
  "scan_while_connected (upd_ent i f ad) = scan_while_connected ad"
  "aux_Channel (upd_ent i f ad) = aux_Channel ad"
  "own_Channel (upd_ent i f ad) = own_Channel ad"
  "mem_ok (upd_ent i f ad) = mem_ok ad"
  "uptime (upd_ent i f ad) = uptime ad"
  "random_tsc (upd_ent i f ad) = random_tsc ad"
  "stale (upd_ent i f ad) = stale ad"
  "wlog (upd_ent i f ad) = wlog ad"
  "length (Stations (upd_ent i f ad)) = length (Stations ad)"
  by (simp_all add: upd_ent_def)

lemma upd_ent_Stations: "Stations (upd_ent i f ad) = (Stations ad)[i := f (Stations ad ! i)]"
  by (simp add: upd_ent_def)

lemma wlog_add_fields [simp]:
  "own_Addr (wlog_add v ad) = own_Addr ad"
  "sta_PMK (wlog_add v ad) = sta_PMK ad"
  "sta_PTK (wlog_add v ad) = sta_PTK ad"
  "sta_GTK (wlog_add v ad) = sta_GTK ad"
  "DefaultKeyId (wlog_add v ad) = DefaultKeyId ad"
  "sta_GroupCipher (wlog_add v ad) = sta_GroupCipher ad"
  "sta_RSN_IE (wlog_add v ad) = sta_RSN_IE ad"
  "sta_RSNIE_Len (wlog_add v ad) = sta_RSNIE_Len ad"
  "sta_PortSecured (wlog_add v ad) = sta_PortSecured ad"
  "SharedKey (wlog_add v ad) = SharedKey ad"
  "scan_while_connected (wlog_add v ad) = scan_while_connected ad"
  "aux_Channel (wlog_add v ad) = aux_Channel ad"
  "own_Channel (wlog_add v ad) = own_Channel ad"
  "mem_ok (wlog_add v ad) = mem_ok ad"
  "uptime (wlog_add v ad) = uptime ad"
  "random_tsc (wlog_add v ad) = random_tsc ad"
  "stale (wlog_add v ad) = stale ad"
  "Stations (wlog_add v ad) = Stations ad"
  "wlog (wlog_add v ad) = v # wlog ad"
  by (simp_all add: wlog_add_def)

section \<open>Authentication of received messages\<close>

lemma eapol_mic_defined:
  assumes "ver = KEY_DESC_TKIP \<or> ver = KEY_DESC_AES" and "length m + 64 \<le> 2 ^ 32"
  shows "\<exists>mic. eapol_mic ver ptk m = Some mic \<and> length mic = 16"
  using assms hmac_full[of "take 16 ptk" m] by (auto simp: eapol_mic_def move_at_def)

lemma replay_diff_value:
  assumes "length c = 8" and "length r = 8"
  shows "replay_diff T c r \<longleftrightarrow>
    (if T = EAPOL_PAIR_MSG_1 \<or> T = EAPOL_PAIR_MSG_3 \<or> T = EAPOL_GROUP_MSG_1 then be_val c \<le> be_val r \<and> c \<noteq> replicate 8 0 else c \<noteq> r)"
  unfolding replay_diff_def RTMPCompareMemory_value[OF assms] by (simp add: RTMPCompareMemory_eq assms)

text \<open>The message that the integrity code protects, and the check of the code.\<close>

definition mic_input :: "EAPOL_PACKET \<Rightarrow> bytes" where
  "mic_input m = take (CONV_ARRARY_TO_UINT16 (Body_Len m) + 4) (packet_bytes (m\<lparr>KeyMic := replicate 16 0\<rparr>))"

definition mic_valid :: "bytes \<Rightarrow> EAPOL_PACKET \<Rightarrow> bool" where
  "mic_valid ptk m \<longleftrightarrow> eapol_mic (ki_KeyDescVer (KeyInfo m)) ptk (mic_input m) = Some (KeyMic m)"

text \<open>
  What decides which frames the device encrypts, decrypts and lets through: the installed keys, the open ports, and the
  operations on the key tables of the chip.
\<close>

fun key_event :: "wpa_event \<Rightarrow> bool" where
  "key_event (AddPairwiseKey _ _) = True"
| "key_event (AddSharedKey _ _) = True"
| "key_event (UpdateWCIDIVEIV _ _) = True"
| "key_event (UpdateWcidAttribute _ _ _ _) = True"
| "key_event _ = False"

record key_state =
  ks_pairwise :: "KEY_ENTRY list"
  ks_ports :: "(nat \<times> bool) list"
  ks_shared :: "KEY_ENTRY list"
  ks_sta :: "bytes \<times> bytes \<times> UINT8 \<times> nat"
  ks_chip :: "wpa_event list"

definition key_state_of :: "WPA_AD \<Rightarrow> key_state" where
  "key_state_of ad = \<lparr>ks_pairwise = map PairwiseKey (Stations ad), ks_ports = map (\<lambda>e. (ent_PortSecured e, accept_all e)) (Stations ad),
     ks_shared = SharedKey ad, ks_sta = (sta_PTK ad, sta_GTK ad, DefaultKeyId ad, sta_PortSecured ad),
     ks_chip = filter key_event (wlog ad)\<rparr>"

lemma key_state_log [simp]: "\<not> key_event v \<Longrightarrow> key_state_of (wlog_add v ad) = key_state_of ad"
  by (simp add: key_state_of_def wlog_add_def)

lemma map_upd_same: "g (f (xs ! i)) = g (xs ! i) \<Longrightarrow> map g (xs[i := f (xs ! i)]) = map g xs"
  by (metis list_update_beyond list_update_id map_update not_le nth_map)

lemma key_state_upd:
  assumes "\<And>e. PairwiseKey (f e) = PairwiseKey e" and "\<And>e. ent_PortSecured (f e) = ent_PortSecured e"
    and "\<And>e. accept_all (f e) = accept_all e"
  shows "key_state_of (upd_ent i f ad) = key_state_of ad"
  using assms by (simp add: key_state_of_def upd_ent_def map_upd_same)

subsection \<open>What parsing the key data changes\<close>

definition same_but_gtk :: "WPA_AD \<Rightarrow> WPA_AD \<Rightarrow> bool" where
  "same_but_gtk ad ad' \<longleftrightarrow>
     ad' = ad\<lparr>sta_GTK := sta_GTK ad', DefaultKeyId := DefaultKeyId ad', SharedKey := SharedKey ad', wlog := wlog ad'\<rparr>"

lemma same_but_gtk_refl [simp]: "same_but_gtk ad ad"
  by (simp add: same_but_gtk_def)

lemma same_but_gtk_fields:
  "same_but_gtk ad ad' \<Longrightarrow> Stations ad' = Stations ad \<and> own_Addr ad' = own_Addr ad \<and> sta_PMK ad' = sta_PMK ad \<and> sta_PTK ad' = sta_PTK ad
     \<and> sta_GroupCipher ad' = sta_GroupCipher ad \<and> sta_RSN_IE ad' = sta_RSN_IE ad \<and> sta_RSNIE_Len ad' = sta_RSNIE_Len ad
     \<and> sta_PortSecured ad' = sta_PortSecured ad \<and> mem_ok ad' = mem_ok ad \<and> uptime ad' = uptime ad \<and> stale ad' = stale ad
     \<and> random_tsc ad' = random_tsc ad \<and> scan_while_connected ad' = scan_while_connected ad
     \<and> aux_Channel ad' = aux_Channel ad \<and> own_Channel ad' = own_Channel ad"
  unfolding same_but_gtk_def by (elim ssubst) simp

lemma same_but_gtkI: "same_but_gtk ad (ad\<lparr>sta_GTK := g, DefaultKeyId := d, SharedKey := k, wlog := l\<rparr>)"
  by (simp add: same_but_gtk_def)

lemma set_wcid_log: "RTMPSetWcidSecurityInfo ad k a w s = ad\<lparr>wlog := wlog (RTMPSetWcidSecurityInfo ad k a w s)\<rparr>"
  by (simp add: RTMPSetWcidSecurityInfo_def wlog_add_def Let_def)

lemma set_wcid_shared: "SharedKey (RTMPSetWcidSecurityInfo ad k a w s) = SharedKey ad"
  by (simp add: RTMPSetWcidSecurityInfo_def wlog_add_def Let_def)

lemma install_shared:
  "WPAInstallSharedKey ad c i w b p n
   = ad\<lparr>SharedKey := SharedKey (WPAInstallSharedKey ad c i w b p n), wlog := wlog (WPAInstallSharedKey ad c i w b p n)\<rparr>"
proof -
  obtain k ok where g: "group_key c b p n = (k, ok)" by fastforce
  have s: "RTMPSetWcidSecurityInfo x k a w s = ad\<lparr>SharedKey := SharedKey (RTMPSetWcidSecurityInfo x k a w s),
      wlog := wlog (RTMPSetWcidSecurityInfo x k a w s)\<rparr>" if "x = ad\<lparr>SharedKey := K, wlog := l\<rparr>" for x K l k a s
    using set_wcid_log[of x k a w s] that by (simp add: set_wcid_shared)
  show ?thesis
  proof (cases "ok \<and> w \<noteq> 0")
    case True
    show ?thesis
      unfolding WPAInstallSharedKey_def g prod.case Let_def wlog_add_def using True by simp (rule s, simp)
  next
    case False
    then show ?thesis
      unfolding WPAInstallSharedKey_def g prod.case Let_def wlog_add_def by (cases ok) simp_all
  qed
qed

lemma install_gtk_frame: "same_but_gtk ad (snd (install_gtk ad g))" and install_gtk_reject: "\<not> fst (install_gtk ad g) \<Longrightarrow> snd (install_gtk ad g) = ad"
proof -
  obtain G n d where g: "g = (G, n, d)" by (cases g)
  show "\<not> fst (install_gtk ad g) \<Longrightarrow> snd (install_gtk ad g) = ad"
    by (auto simp: g install_gtk_def Let_def split: if_splits)
  let ?ad = "ad\<lparr>sta_GTK := move_at (sta_GTK ad) 0 (take (unat n) G), DefaultKeyId := d\<rparr>"
  obtain k l where "WPAInstallSharedKey ?ad (sta_GroupCipher ad) d 0 False (sta_GTK ?ad) n = ?ad\<lparr>SharedKey := k, wlog := l\<rparr>"
    using install_shared by metis
  then show "same_but_gtk ad (snd (install_gtk ad g))"
    using same_but_gtkI[of ad] by (simp add: g install_gtk_def Let_def)
qed

lemma parse_frame:
  assumes "RTMPParseEapolKeyData ad kd n idx T w = Some (r, ad')"
  shows "same_but_gtk ad ad'" and "\<not> r \<Longrightarrow> ad' = ad"
proof -
  have "(case y of Inl x \<Rightarrow> Some (False, ad) | Inr g \<Rightarrow> Some (install_gtk ad g)) = Some (r, ad')
      \<longleftrightarrow> (isl y \<and> \<not> r \<and> ad' = ad) \<or> (\<exists>g. y = Inr g \<and> install_gtk ad g = (r, ad'))" for y :: "unit + gtk_info"
    by (cases y) auto
  then have "(\<exists>g. install_gtk ad g = (r, ad')) \<or> ad' = ad"
    using assms unfolding RTMPParseEapolKeyData_def by (auto simp: bind_eq_Some_conv split: if_splits)
  then have "same_but_gtk ad ad' \<and> (\<not> r \<longrightarrow> ad' = ad)"
    using install_gtk_frame[of ad] install_gtk_reject[of ad] by (metis fst_conv same_but_gtk_refl snd_conv)
  then show "same_but_gtk ad ad'" "\<not> r \<Longrightarrow> ad' = ad"
    by simp_all
qed

lemma check_frame:
  assumes "check_key_data ad i m T = Some (r, m', ad')"
  shows "same_but_gtk ad ad'" and "\<not> r \<Longrightarrow> ad' = ad" and "\<exists>n. m' = m\<lparr>KeyDataLen := n\<rparr>"
    and "T = EAPOL_PAIR_MSG_1 \<or> T = EAPOL_PAIR_MSG_4 \<or> T = EAPOL_GROUP_MSG_2 \<Longrightarrow> r \<and> m' = m \<and> ad' = ad"
proof -
  have id: "\<exists>n. m = m\<lparr>KeyDataLen := n\<rparr>" by (rule exI[of _ "KeyDataLen m"]) simp
  have d: "\<exists>n. x = m\<lparr>KeyDataLen := n\<rparr>" if "decrypt_key_data ad e m = Some (kd, x)" for e kd x
    using that id by (auto simp: decrypt_key_data_def Let_def split: if_splits prod.splits)
  show "same_but_gtk ad ad'" "\<not> r \<Longrightarrow> ad' = ad"
    using assms parse_frame by (auto simp: check_key_data_def Let_def bind_eq_Some_conv split: if_splits prod.splits)
  show "\<exists>n. m' = m\<lparr>KeyDataLen := n\<rparr>"
    using assms id d by (auto simp: check_key_data_def Let_def bind_eq_Some_conv split: if_splits prod.splits)
  show "T = EAPOL_PAIR_MSG_1 \<or> T = EAPOL_PAIR_MSG_4 \<or> T = EAPOL_GROUP_MSG_2 \<Longrightarrow> r \<and> m' = m \<and> ad' = ad"
    using assms by (auto simp: check_key_data_def Let_def split: if_splits)
qed

subsection \<open>What an accepted message proves\<close>

definition sanity_guard :: "WPA_AD \<Rightarrow> nat \<Rightarrow> EAPOL_PACKET \<Rightarrow> nat \<Rightarrow> bool" where
  "sanity_guard ad i m T \<longleftrightarrow> mem_ok ad A_KEYDATA \<and> EAPOL_PAIR_MSG_1 \<le> T \<and> T \<le> EAPOL_GROUP_MSG_2
     \<and> \<not> replay_diff T (ReplayCounter m) (R_Counter (Stations ad ! i))"

lemma sanity_refuses:
  assumes "\<not> sanity_guard ad i m T"
  shows "PeerWpaMessageSanity ad i m T = Some (False, m, ad)
    \<or> PeerWpaMessageSanity ad i m T = Some (False, m, wlog_add (WirelessEvent 0x0205 (ent_Addr (Stations ad ! i))) ad)"
proof (cases "mem_ok ad A_KEYDATA \<and> EAPOL_PAIR_MSG_1 \<le> T \<and> T \<le> EAPOL_GROUP_MSG_2")
  case True
  then have "replay_diff T (ReplayCounter m) (R_Counter (Stations ad ! i))" using assms by (simp add: sanity_guard_def)
  then show ?thesis using True by (simp add: PeerWpaMessageSanity_def)
next
  case False
  then consider "\<not> mem_ok ad A_KEYDATA" | "mem_ok ad A_KEYDATA" "EAPOL_GROUP_MSG_2 < T \<or> T < EAPOL_PAIR_MSG_1" by linarith
  then show ?thesis by cases (simp_all only: PeerWpaMessageSanity_def Let_def if_True if_False simp_thms)
qed

lemma sanity_msg1: "sanity_guard ad i m EAPOL_PAIR_MSG_1 \<Longrightarrow> PeerWpaMessageSanity ad i m EAPOL_PAIR_MSG_1 = Some (True, m, ad)"
  by (simp add: sanity_guard_def PeerWpaMessageSanity_def check_key_data_def Let_def)

lemma sanity_passes:
  assumes "sanity_guard ad i m T" and "T \<noteq> EAPOL_PAIR_MSG_1"
  shows "PeerWpaMessageSanity ad i m T =
    (if CONV_ARRARY_TO_UINT16 (Body_Len m) + 4 > length (packet_bytes (m\<lparr>KeyMic := replicate 16 0\<rparr>)) then None
     else case eapol_mic (ki_KeyDescVer (KeyInfo m)) (PTK (Stations ad ! i)) (mic_input m) of
       None \<Rightarrow> None
     | Some mic \<Rightarrow> if KeyMic m \<noteq> mic
         then Some (False, m\<lparr>KeyMic := replicate 16 0\<rparr>, wlog_add (WirelessEvent 0x0207 (ent_Addr (Stations ad ! i))) ad)
         else check_key_data ad i (m\<lparr>KeyMic := replicate 16 0\<rparr>) T)"
  using assms
  by (cases "eapol_mic (ki_KeyDescVer (KeyInfo m)) (PTK (Stations ad ! i)) (mic_input m)")
    (simp_all add: sanity_guard_def PeerWpaMessageSanity_def mic_input_def Let_def not_less)

lemma sanity_accepts:
  assumes "PeerWpaMessageSanity ad i m T = Some (True, m', ad')" and "T \<noteq> EAPOL_PAIR_MSG_1"
  shows "mic_valid (PTK (Stations ad ! i)) m" and "\<not> replay_diff T (ReplayCounter m) (R_Counter (Stations ad ! i))"
    and "check_key_data ad i (m\<lparr>KeyMic := replicate 16 0\<rparr>) T = Some (True, m', ad')"
proof -
  have g: "sanity_guard ad i m T" using sanity_refuses[of ad i m T] assms(1) by fastforce
  then show "\<not> replay_diff T (ReplayCounter m) (R_Counter (Stations ad ! i))" by (simp add: sanity_guard_def)
  show "mic_valid (PTK (Stations ad ! i)) m" "check_key_data ad i (m\<lparr>KeyMic := replicate 16 0\<rparr>) T = Some (True, m', ad')"
    using assms(1) unfolding sanity_passes[OF g assms(2)] mic_valid_def by (auto split: if_split_asm option.split_asm)
qed

lemma sanity_rejects:
  assumes "PeerWpaMessageSanity ad i m T = Some (False, m', ad')"
  shows "ad' = ad \<or> (\<exists>c a. ad' = wlog_add (WirelessEvent c a) ad)"
proof (cases "sanity_guard ad i m T")
  case True
  show ?thesis
  proof (cases "T = EAPOL_PAIR_MSG_1")
    case False
    show ?thesis
      using assms check_frame(2)[of ad i "m\<lparr>KeyMic := replicate 16 0\<rparr>" T False m' ad'] unfolding sanity_passes[OF True False]
      by (auto split: if_split_asm option.split_asm)
  next
    case One: True
    show ?thesis using assms sanity_msg1 True unfolding One by simp
  qed
next
  case False
  show ?thesis using sanity_refuses[OF False] assms by (elim disjE) auto
qed

lemma sanity_accepts_frame:
  assumes "PeerWpaMessageSanity ad i m T = Some (True, m', ad')"
  shows "same_but_gtk ad ad'" and "ReplayCounter m' = ReplayCounter m" and "KeyNonce m' = KeyNonce m"
    and "T = EAPOL_PAIR_MSG_1 \<or> T = EAPOL_PAIR_MSG_4 \<or> T = EAPOL_GROUP_MSG_2 \<Longrightarrow> ad' = ad"
proof -
  obtain x where x: "check_key_data ad i x T = Some (True, m', ad')" "x = m \<or> x = m\<lparr>KeyMic := replicate 16 0\<rparr>"
  proof (cases "T = EAPOL_PAIR_MSG_1")
    case True
    have "sanity_guard ad i m T" using sanity_refuses[of ad i m T] assms by fastforce
    then have "check_key_data ad i m T = Some (True, m', ad')"
      using assms True sanity_msg1 by (auto simp: check_key_data_def Let_def)
    then show ?thesis using that by blast
  qed (use sanity_accepts(3) assms that in blast)
  show "same_but_gtk ad ad'" by (rule check_frame(1)[OF x(1)])
  show "ad' = ad" if "T = EAPOL_PAIR_MSG_1 \<or> T = EAPOL_PAIR_MSG_4 \<or> T = EAPOL_GROUP_MSG_2"
    using check_frame(4)[OF x(1) that] by simp
  obtain n where n: "m' = x\<lparr>KeyDataLen := n\<rparr>" using check_frame(3)[OF x(1)] by blast
  show "ReplayCounter m' = ReplayCounter m" "KeyNonce m' = KeyNonce m"
    unfolding n using x(2) by (elim disjE; simp)+
qed

lemma sanity_key_state:
  assumes "PeerWpaMessageSanity ad i m T = Some (r, m', ad')"
    and "\<not> r \<or> T = EAPOL_PAIR_MSG_1 \<or> T = EAPOL_PAIR_MSG_4 \<or> T = EAPOL_GROUP_MSG_2"
  shows "key_state_of ad' = key_state_of ad"
  using assms sanity_rejects[of ad i m T m' ad'] sanity_accepts_frame(4)[of ad i m T m' ad'] by (cases r) auto

section \<open>Correctness\<close>

text \<open>
  The record is the packed structure. Laying \<^verbatim>\<open>EAPOL_PACKET\<close> over a buffer yields a packet whose fields have the sizes of the
  declaration and whose memory is the buffer, and every such packet comes from its memory: no byte and no bit of the key information is lost or
  shared between fields.
\<close>

theorem eapol_packet_layout: "packet_of b = Some m \<longleftrightarrow> wf_packet m \<and> packet_bytes m = b"
  using packet_of_bytes bytes_of_packet by blast

end
