(* ===== verification/Tkip.thy ===== *)
theory Tkip
  imports Eapol
begin

text \<open>
  TKIP in software, \<^verbatim>\<open>common/cmm_tkip.c\<close>: the Michael integrity code, the two-phase key mixing and the decapsulation of
  received frames.

  \<^item> The registers of Michael are \<^verbatim>\<open>ULONG\<close>, so 64 bits wide on the target; a byte is shifted as a signed \<^verbatim>\<open>int\<close> before it is
    merged, which extends its sign into the upper half. Both are modelled as they are.
  \<^item> The key mixing computes with 32-bit integers and reduces modulo 65536 in some places only.
  \<^item> Decapsulation works in place; \<open>None\<close> is an access outside the frame.
\<close>

section \<open>Michael\<close>

record TKIP_KEY_INFO =
  nBytesInM :: UINT32
  mic_K0 :: ULONG
  mic_K1 :: ULONG
  mic_L :: ULONG
  mic_R :: ULONG
  mic_M :: ULONG
  tkip_MIC :: bytes

definition ROL32 :: "ULONG \<Rightarrow> nat \<Rightarrow> ULONG" where
  "ROL32 A n = push_bit n A OR (drop_bit (32 - n) A AND (push_bit n 1 - 1))"

definition ROR32 :: "ULONG \<Rightarrow> nat \<Rightarrow> ULONG" where
  "ROR32 A n = ROL32 A (32 - n)"

text \<open>A byte shifted as an \<^verbatim>\<open>int\<close> and converted to \<^verbatim>\<open>ULONG\<close>.\<close>

definition int_shift :: "UINT8 \<Rightarrow> nat \<Rightarrow> ULONG" where
  "int_shift b n = scast (push_bit n (ucast b) :: UINT32)"

text \<open>The exchange of the bytes in each half of the lower word.\<close>

definition swap_halves :: "ULONG \<Rightarrow> ULONG" where
  "swap_halves L = drop_bit 8 (L AND 0xff00ff00) OR push_bit 8 (L AND 0x00ff00ff)"

definition RTMPTkipGetUInt32 :: "bytes \<Rightarrow> ULONG" where
  "RTMPTkipGetUInt32 p = fold (\<lambda>i res. res OR int_shift (p ! i) (8 * i)) [0..<4] 0"

definition RTMPTkipPutUInt32 :: "ULONG \<Rightarrow> bytes" where
  "RTMPTkipPutUInt32 v = map (\<lambda>i. ucast (drop_bit (8 * i) v AND 0xff)) [0..<4]"

definition RTMPTkipSetMICKey :: "TKIP_KEY_INFO \<Rightarrow> bytes \<Rightarrow> TKIP_KEY_INFO" where
  "RTMPTkipSetMICKey t key =
     (let K0 = RTMPTkipGetUInt32 key; K1 = RTMPTkipGetUInt32 (drop 4 key)
      in t\<lparr>mic_K0 := K0, mic_K1 := K1, mic_L := K0, mic_R := K1, nBytesInM := 0, mic_M := 0\<rparr>)"

definition RTMPTkipAppendByte :: "TKIP_KEY_INFO \<Rightarrow> UINT8 \<Rightarrow> TKIP_KEY_INFO" where
  "RTMPTkipAppendByte t uChar =
     (let t = t\<lparr>mic_M := mic_M t OR int_shift uChar (8 * unat (nBytesInM t)), nBytesInM := nBytesInM t + 1\<rparr>
      in if nBytesInM t \<ge> 4 then
           let L = mic_L t XOR mic_M t;
               R = mic_R t XOR ROL32 L 17;
               L = L + R;
               R = R XOR swap_halves L;
               L = L + R;
               R = R XOR ROL32 L 3;
               L = L + R;
               R = R XOR ROR32 L 2;
               L = L + R
           in t\<lparr>mic_L := L, mic_R := R, mic_M := 0, nBytesInM := 0\<rparr>
         else t)"

definition RTMPTkipAppend :: "TKIP_KEY_INFO \<Rightarrow> bytes \<Rightarrow> nat \<Rightarrow> TKIP_KEY_INFO" where
  "RTMPTkipAppend t pSrc nBytes = foldl RTMPTkipAppendByte t (take nBytes pSrc)"

lemma append_byte_count:
  "nBytesInM (RTMPTkipAppendByte t b) = (if nBytesInM t + 1 \<ge> 4 then 0 else nBytesInM t + 1)"
  by (simp add: RTMPTkipAppendByte_def Let_def)

function pad_loop :: "TKIP_KEY_INFO \<Rightarrow> TKIP_KEY_INFO" where
  "pad_loop t = (if nBytesInM t \<noteq> 0 then pad_loop (RTMPTkipAppendByte t 0) else t)"
  by pat_completeness auto
termination
proof (relation "measure (\<lambda>t. if nBytesInM t = 0 then 0 else 5 - unat (nBytesInM t) + of_bool (4 < unat (nBytesInM t)))")
  fix t :: TKIP_KEY_INFO
  assume n: "nBytesInM t \<noteq> 0"
  show "(RTMPTkipAppendByte t 0, t) \<in> measure (\<lambda>t. if nBytesInM t = 0 then 0 else 5 - unat (nBytesInM t) + of_bool (4 < unat (nBytesInM t)))"
  proof (cases "unat (nBytesInM t) < 3")
    case True
    then have "unat (nBytesInM t + 1) = unat (nBytesInM t) + 1" using unat_add_lem[of "nBytesInM t" 1] by simp
    then show ?thesis using True n by (auto simp: append_byte_count word_le_nat_alt)
  next
    case False
    then have "nBytesInM t + 1 \<ge> 4 \<or> nBytesInM t + 1 = 0" by unat_arith
    then show ?thesis using False n by (auto simp: append_byte_count unat_eq_0)
  qed
qed simp

declare pad_loop.simps [simp del]

definition RTMPTkipGetMIC :: "TKIP_KEY_INFO \<Rightarrow> TKIP_KEY_INFO" where
  "RTMPTkipGetMIC t =
     (let t = foldl RTMPTkipAppendByte t [0x5a, 0, 0, 0, 0]; t = pad_loop t
      in t\<lparr>tkip_MIC := RTMPTkipPutUInt32 (mic_L t) @ RTMPTkipPutUInt32 (mic_R t)\<rparr>)"

definition RTMPInitMICEngine :: "TKIP_KEY_INFO \<Rightarrow> mac_addr \<Rightarrow> mac_addr \<Rightarrow> UINT8 \<Rightarrow> bytes \<Rightarrow> TKIP_KEY_INFO" where
  "RTMPInitMICEngine t pDA pSA UserPriority pMICKey =
     (let t = RTMPTkipSetMICKey t pMICKey; t = RTMPTkipAppend t pDA 6; t = RTMPTkipAppend t pSA 6
      in RTMPTkipAppend t (le64_bytes (ucast UserPriority)) 4)"

definition RTMPTkipCompareMICValue ::
    "TKIP_KEY_INFO \<Rightarrow> bytes \<Rightarrow> mac_addr \<Rightarrow> mac_addr \<Rightarrow> bytes \<Rightarrow> UINT8 \<Rightarrow> nat \<Rightarrow> (bool \<times> TKIP_KEY_INFO) option" where
  "RTMPTkipCompareMICValue t pSrc pDA pSA pMICKey UserPriority Len =
     (if length pSrc < Len + 8 then None
      else
        let t = RTMPInitMICEngine t pDA pSA UserPriority pMICKey;
            t = RTMPTkipAppend t pSrc Len;
            OldMic = slice pSrc Len 8;
            t = RTMPTkipGetMIC t
        in Some (tkip_MIC t = OldMic, t))"

text \<open>The packet is one buffer: destination, source, an optional VLAN tag, the type and the payload.\<close>

definition RTMPCalculateMICValue ::
    "TKIP_KEY_INFO \<Rightarrow> bytes \<Rightarrow> UINT8 \<Rightarrow> bytes option \<Rightarrow> KEY_ENTRY \<Rightarrow> TKIP_KEY_INFO option" where
  "RTMPCalculateMICValue t pSrc UserPriority pEncap pKey =
     (let vlan_offset = (if pSrc ! 12 = 0x81 \<and> pSrc ! 13 = 0 then 4 else 0);
          t = RTMPInitMICEngine t (take 6 pSrc) (slice pSrc 6 6) UserPriority (TxMic pKey);
          t = (case pEncap of None \<Rightarrow> t
               | Some e \<Rightarrow> RTMPTkipAppend (RTMPTkipAppend t e 6) (drop (12 + vlan_offset) pSrc) 2);
          n = 14 + vlan_offset
      in if length pSrc < n then None
         else Some (RTMPTkipGetMIC (RTMPTkipAppend t (drop n pSrc) (length pSrc - n))))"

section \<open>Key mixing\<close>

definition Tkip_Sbox_Lower :: "UINT32 list" where
  "Tkip_Sbox_Lower =
    [0xA5, 0x84, 0x99, 0x8D, 0x0D, 0xBD, 0xB1, 0x54, 0x50, 0x03, 0xA9, 0x7D, 0x19, 0x62, 0xE6, 0x9A,
     0x45, 0x9D, 0x40, 0x87, 0x15, 0xEB, 0xC9, 0x0B, 0xEC, 0x67, 0xFD, 0xEA, 0xBF, 0xF7, 0x96, 0x5B,
     0xC2, 0x1C, 0xAE, 0x6A, 0x5A, 0x41, 0x02, 0x4F, 0x5C, 0xF4, 0x34, 0x08, 0x93, 0x73, 0x53, 0x3F,
     0x0C, 0x52, 0x65, 0x5E, 0x28, 0xA1, 0x0F, 0xB5, 0x09, 0x36, 0x9B, 0x3D, 0x26, 0x69, 0xCD, 0x9F,
     0x1B, 0x9E, 0x74, 0x2E, 0x2D, 0xB2, 0xEE, 0xFB, 0xF6, 0x4D, 0x61, 0xCE, 0x7B, 0x3E, 0x71, 0x97,
     0xF5, 0x68, 0x00, 0x2C, 0x60, 0x1F, 0xC8, 0xED, 0xBE, 0x46, 0xD9, 0x4B, 0xDE, 0xD4, 0xE8, 0x4A,
     0x6B, 0x2A, 0xE5, 0x16, 0xC5, 0xD7, 0x55, 0x94, 0xCF, 0x10, 0x06, 0x81, 0xF0, 0x44, 0xBA, 0xE3,
     0xF3, 0xFE, 0xC0, 0x8A, 0xAD, 0xBC, 0x48, 0x04, 0xDF, 0xC1, 0x75, 0x63, 0x30, 0x1A, 0x0E, 0x6D,
     0x4C, 0x14, 0x35, 0x2F, 0xE1, 0xA2, 0xCC, 0x39, 0x57, 0xF2, 0x82, 0x47, 0xAC, 0xE7, 0x2B, 0x95,
     0xA0, 0x98, 0xD1, 0x7F, 0x66, 0x7E, 0xAB, 0x83, 0xCA, 0x29, 0xD3, 0x3C, 0x79, 0xE2, 0x1D, 0x76,
     0x3B, 0x56, 0x4E, 0x1E, 0xDB, 0x0A, 0x6C, 0xE4, 0x5D, 0x6E, 0xEF, 0xA6, 0xA8, 0xA4, 0x37, 0x8B,
     0x32, 0x43, 0x59, 0xB7, 0x8C, 0x64, 0xD2, 0xE0, 0xB4, 0xFA, 0x07, 0x25, 0xAF, 0x8E, 0xE9, 0x18,
     0xD5, 0x88, 0x6F, 0x72, 0x24, 0xF1, 0xC7, 0x51, 0x23, 0x7C, 0x9C, 0x21, 0xDD, 0xDC, 0x86, 0x85,
     0x90, 0x42, 0xC4, 0xAA, 0xD8, 0x05, 0x01, 0x12, 0xA3, 0x5F, 0xF9, 0xD0, 0x91, 0x58, 0x27, 0xB9,
     0x38, 0x13, 0xB3, 0x33, 0xBB, 0x70, 0x89, 0xA7, 0xB6, 0x22, 0x92, 0x20, 0x49, 0xFF, 0x78, 0x7A,
     0x8F, 0xF8, 0x80, 0x17, 0xDA, 0x31, 0xC6, 0xB8, 0xC3, 0xB0, 0x77, 0x11, 0xCB, 0xFC, 0xD6, 0x3A]"

definition Tkip_Sbox_Upper :: "UINT32 list" where
  "Tkip_Sbox_Upper =
    [0xC6, 0xF8, 0xEE, 0xF6, 0xFF, 0xD6, 0xDE, 0x91, 0x60, 0x02, 0xCE, 0x56, 0xE7, 0xB5, 0x4D, 0xEC,
     0x8F, 0x1F, 0x89, 0xFA, 0xEF, 0xB2, 0x8E, 0xFB, 0x41, 0xB3, 0x5F, 0x45, 0x23, 0x53, 0xE4, 0x9B,
     0x75, 0xE1, 0x3D, 0x4C, 0x6C, 0x7E, 0xF5, 0x83, 0x68, 0x51, 0xD1, 0xF9, 0xE2, 0xAB, 0x62, 0x2A,
     0x08, 0x95, 0x46, 0x9D, 0x30, 0x37, 0x0A, 0x2F, 0x0E, 0x24, 0x1B, 0xDF, 0xCD, 0x4E, 0x7F, 0xEA,
     0x12, 0x1D, 0x58, 0x34, 0x36, 0xDC, 0xB4, 0x5B, 0xA4, 0x76, 0xB7, 0x7D, 0x52, 0xDD, 0x5E, 0x13,
     0xA6, 0xB9, 0x00, 0xC1, 0x40, 0xE3, 0x79, 0xB6, 0xD4, 0x8D, 0x67, 0x72, 0x94, 0x98, 0xB0, 0x85,
     0xBB, 0xC5, 0x4F, 0xED, 0x86, 0x9A, 0x66, 0x11, 0x8A, 0xE9, 0x04, 0xFE, 0xA0, 0x78, 0x25, 0x4B,
     0xA2, 0x5D, 0x80, 0x05, 0x3F, 0x21, 0x70, 0xF1, 0x63, 0x77, 0xAF, 0x42, 0x20, 0xE5, 0xFD, 0xBF,
     0x81, 0x18, 0x26, 0xC3, 0xBE, 0x35, 0x88, 0x2E, 0x93, 0x55, 0xFC, 0x7A, 0xC8, 0xBA, 0x32, 0xE6,
     0xC0, 0x19, 0x9E, 0xA3, 0x44, 0x54, 0x3B, 0x0B, 0x8C, 0xC7, 0x6B, 0x28, 0xA7, 0xBC, 0x16, 0xAD,
     0xDB, 0x64, 0x74, 0x14, 0x92, 0x0C, 0x48, 0xB8, 0x9F, 0xBD, 0x43, 0xC4, 0x39, 0x31, 0xD3, 0xF2,
     0xD5, 0x8B, 0x6E, 0xDA, 0x01, 0xB1, 0x9C, 0x49, 0xD8, 0xAC, 0xF3, 0xCF, 0xCA, 0xF4, 0x47, 0x10,
     0x6F, 0xF0, 0x4A, 0x5C, 0x38, 0x57, 0x73, 0x97, 0xCB, 0xA1, 0xE8, 0x3E, 0x96, 0x61, 0x0D, 0x0F,
     0xE0, 0x7C, 0x71, 0xCC, 0x90, 0x06, 0xF7, 0x1C, 0xC2, 0x6A, 0xAE, 0x69, 0x17, 0x99, 0x3A, 0x27,
     0xD9, 0xEB, 0x2B, 0x22, 0xD2, 0xA9, 0x07, 0x33, 0x2D, 0x3C, 0x15, 0xC9, 0x87, 0xAA, 0x50, 0xA5,
     0x03, 0x59, 0x09, 0x1A, 0x65, 0xD7, 0x84, 0xD0, 0x82, 0x29, 0x5A, 0x1E, 0x7B, 0xA8, 0x6D, 0x2C]"

definition tkip_sbox :: "UINT32 \<Rightarrow> UINT32" where
  "tkip_sbox index =
     (let index_low = unat (index mod 256); index_high = unat (drop_bit 8 index mod 256);
          left = Tkip_Sbox_Lower ! index_low + Tkip_Sbox_Upper ! index_low * 256;
          right = Tkip_Sbox_Upper ! index_high + Tkip_Sbox_Lower ! index_high * 256
      in left XOR right)"

definition rotr1 :: "UINT32 \<Rightarrow> UINT32" where
  "rotr1 a = (if a AND 1 = 1 then drop_bit 1 a OR 0x8000 else drop_bit 1 a AND 0x7fff) mod 65536"

definition key16 :: "bytes \<Rightarrow> nat \<Rightarrow> UINT32" where
  "key16 key i = 256 * ucast (key ! (i + 1)) + ucast (key ! i)"

type_synonym p1k_regs = "UINT32 \<times> UINT32 \<times> UINT32 \<times> UINT32 \<times> UINT32"

fun phase1_round :: "bytes \<Rightarrow> nat \<Rightarrow> p1k_regs \<Rightarrow> p1k_regs" where
  "phase1_round key i (p0, p1, p2, p3, p4) =
     (let j = 2 * (i mod 2);
          p0 = (p0 + tkip_sbox ((p4 XOR key16 key j) mod 65536)) mod 65536;
          p1 = (p1 + tkip_sbox ((p0 XOR key16 key (4 + j)) mod 65536)) mod 65536;
          p2 = (p2 + tkip_sbox ((p1 XOR key16 key (8 + j)) mod 65536)) mod 65536;
          p3 = (p3 + tkip_sbox ((p2 XOR key16 key (12 + j)) mod 65536)) mod 65536;
          p4 = (p4 + tkip_sbox ((p3 XOR key16 key j) mod 65536)) mod 65536;
          p4 = (p4 + of_nat i) mod 65536
      in (p0, p1, p2, p3, p4))"

definition RTMPTkipMixKey :: "bytes \<Rightarrow> mac_addr \<Rightarrow> ULONG \<Rightarrow> ULONG \<Rightarrow> bytes" where
  "RTMPTkipMixKey key ta pnl pnh =
     (let tsc0 = ucast (drop_bit 16 pnh mod 65536) :: UINT32;
          tsc1 = ucast (pnh mod 65536) :: UINT32;
          tsc2 = ucast (pnl mod 65536) :: UINT32;
          p1k = (tsc1, tsc0, ucast (ta ! 0) + ucast (ta ! 1) * 256, ucast (ta ! 2) + ucast (ta ! 3) * 256,
                 ucast (ta ! 4) + ucast (ta ! 5) * 256);
          (ppk0, ppk1, ppk2, ppk3, ppk4) = fold (phase1_round key) [0..<8] p1k;
          ppk5 = (ppk4 + tsc2) mod 65536;
          ppk0 = ppk0 + tkip_sbox ((ppk5 XOR key16 key 0) mod 65536);
          ppk1 = ppk1 + tkip_sbox ((ppk0 XOR key16 key 2) mod 65536);
          ppk2 = ppk2 + tkip_sbox ((ppk1 XOR key16 key 4) mod 65536);
          ppk3 = ppk3 + tkip_sbox ((ppk2 XOR key16 key 6) mod 65536);
          ppk4 = ppk4 + tkip_sbox ((ppk3 XOR key16 key 8) mod 65536);
          ppk5 = ppk5 + tkip_sbox ((ppk4 XOR key16 key 10) mod 65536);
          ppk0 = ppk0 + rotr1 (ppk5 XOR key16 key 12);
          ppk1 = ppk1 + rotr1 (ppk0 XOR key16 key 14);
          ppk2 = ppk2 + rotr1 ppk1;
          ppk3 = ppk3 + rotr1 ppk2;
          ppk4 = ppk4 + rotr1 ppk3;
          ppk5 = ppk5 + rotr1 ppk4;
          low = (\<lambda>x. ucast (x mod 256)) :: UINT32 \<Rightarrow> UINT8;
          high = (\<lambda>x. ucast (drop_bit 8 x mod 256)) :: UINT32 \<Rightarrow> UINT8
      in [high tsc2, ucast ((drop_bit 8 tsc2 mod 256 OR 0x20) AND 0x7f), low tsc2, ucast (drop_bit 1 (ppk5 XOR key16 key 0) mod 256),
          low ppk0, high ppk0, low ppk1, high ppk1, low ppk2, high ppk2, low ppk3, high ppk3, low ppk4, high ppk4,
          low ppk5, high ppk5])"

section \<open>Decapsulation\<close>

definition tkip_addrs :: "bytes \<Rightarrow> mac_addr \<times> mac_addr \<times> mac_addr" where
  "tkip_addrs pHdr =
     (let from_ds = bit (pHdr ! 1) 1; to_ds = bit (pHdr ! 1) 0;
          Addr1 = slice pHdr 4 6; Addr2 = slice pHdr 10 6; Addr3 = slice pHdr 16 6; Octet = slice pHdr 24 6
      in if \<not> to_ds \<and> from_ds then (Addr1, Addr3, Addr2)
         else if \<not> to_ds \<and> \<not> from_ds then (Addr1, Addr2, Addr2)
         else if to_ds \<and> \<not> from_ds then (Addr3, Addr2, Addr2)
         else (Addr3, Octet, Addr2))"

text \<open>
  The result is the value returned, the frame buffer, the length, the MIC engine and whether a MIC failure is reported. A \<^verbatim>\<open>ULONG\<close> is read
  behind the first four bytes and cut to 32 bits.
\<close>

definition RTMPSoftDecryptTKIP ::
    "TKIP_KEY_INFO \<Rightarrow> bytes \<Rightarrow> UINT8 \<Rightarrow> KEY_ENTRY \<Rightarrow> bytes \<Rightarrow> UINT16 \<Rightarrow> (bool \<times> bytes \<times> UINT16 \<times> TKIP_KEY_INFO \<times> bool) option" where
  "RTMPSoftDecryptTKIP t pHdr UserPriority pKey pData DataByteCnt =
     (if KeyLen pKey = 0 then Some (False, pData, DataByteCnt, t, False)
      else if length pData < 12 then None
      else
        let (DA, SA, TA) = tkip_addrs pHdr;
            pnl = ucast (push_bit 8 (ucast (pData ! 0)) OR ucast (pData ! 2) :: UINT32) :: ULONG;
            pnh = ucast (le32_at pData 4) :: ULONG;
            RC4Key = RTMPTkipMixKey (Key pKey) TA pnl pnh;
            ciphertext_len = ucast DataByteCnt - 8 :: UINT32
        in if length pData < 8 + unat ciphertext_len then None
           else
             let d = ARC4_Compute (unat ciphertext_len) (ARC4_INIT RC4Key 16) pData 8 0;
                 plaintext_len = ciphertext_len - 4
             in if length d < unat plaintext_len + 4 then None
                else
                  let trailfcs = slice d (unat plaintext_len) 4;
                      crc32 = RTMP_CALC_FCS32 PPPINITFCS32 d (unat plaintext_len) XOR 0xffffffff
                  in if le32_bytes crc32 \<noteq> trailfcs then Some (False, d, DataByteCnt, t, False)
                     else
                       let plaintext_len = plaintext_len - 8
                       in if length d < unat plaintext_len + 8 then None
                          else
                            let TrailMIC = slice d (unat plaintext_len) 8;
                                t = RTMPInitMICEngine t DA SA UserPriority (RxMic pKey);
                                t = RTMPTkipAppend t d (unat plaintext_len);
                                t = RTMPTkipGetMIC t
                            in if tkip_MIC t \<noteq> TrailMIC then Some (False, d, DataByteCnt, t, True)
                               else Some (True, d, ucast plaintext_len, t, False))"

section \<open>Michael is that of IEEE 802.11\<close>

text \<open>The reference: the block function on 32-bit words, and the padding of the message.\<close>

definition xswap :: "UINT32 \<Rightarrow> UINT32" where
  "xswap x = drop_bit 8 (x AND 0xff00ff00) OR push_bit 8 (x AND 0x00ff00ff)"

fun michael_block :: "UINT32 \<times> UINT32 \<Rightarrow> UINT32 \<Rightarrow> UINT32 \<times> UINT32" where
  "michael_block (l, r) w =
     (let l = l XOR w; r = r XOR word_rotl 17 l; l = l + r; r = r XOR xswap l; l = l + r;
          r = r XOR word_rotl 3 l; l = l + r; r = r XOR word_rotr 2 l; l = l + r
      in (l, r))"

fun le_words :: "bytes \<Rightarrow> UINT32 list" where
  "le_words (a # b # c # d # bs) = (ucast a OR push_bit 8 (ucast b) OR push_bit 16 (ucast c) OR push_bit 24 (ucast d)) # le_words bs"
| "le_words bs = []"

definition michael :: "bytes \<Rightarrow> bytes \<Rightarrow> bytes" where
  "michael key msg =
     (let k = le_words key; p = msg @ [0x5a, 0, 0, 0, 0] @ replicate ((4 - (length msg + 5) mod 4) mod 4) 0;
          (l, r) = foldl michael_block (k ! 0, k ! 1) (le_words p)
      in le32_bytes l @ le32_bytes r)"

abbreviation lo32 :: "ULONG \<Rightarrow> UINT32" where "lo32 x \<equiv> ucast x"

lemma lo32_add: "lo32 (x + y) = lo32 x + lo32 y"
proof -
  have "take_bit 32 (take_bit 64 a + take_bit 64 b) = take_bit 32 (a + b)" for a b :: int
    by (subst (1 2) take_bit_add[symmetric]) simp
  then show ?thesis by transfer simp
qed

lemma lo32_bits: "lo32 (x XOR y) = lo32 x XOR lo32 y" "lo32 (x OR y) = lo32 x OR lo32 y"
  by (rule bit_word_eqI; simp add: bit_simps)+

lemma lo32_shift: "lo32 (int_shift b n) = push_bit n (ucast b)"
  unfolding int_shift_def by (rule bit_word_eqI) (auto simp: bit_simps)

lemma lo32_swap: "lo32 (swap_halves x) = xswap (lo32 x)"
proof -
  have m: "(0xff00ff00 :: ULONG) = push_bit 8 (mask 8) OR push_bit 24 (mask 8)" "(0x00ff00ff :: ULONG) = mask 8 OR push_bit 16 (mask 8)"
    "(0xff00ff00 :: UINT32) = push_bit 8 (mask 8) OR push_bit 24 (mask 8)" "(0x00ff00ff :: UINT32) = mask 8 OR push_bit 16 (mask 8)"
    by (simp_all add: mask_eq_exp_minus_1)
  show ?thesis unfolding xswap_def swap_halves_def m by (rule bit_word_eqI) (auto simp: bit_simps)
qed

lemma lo32_rol: 
  assumes "0 < n" "n < 32" shows "lo32 (ROL32 x n) = word_rotl n (lo32 x)"
proof (rule bit_word_eqI)
  fix k :: nat assume "k < LENGTH(32)"
  then have k: "k < 32" by simp
  have m: "push_bit n 1 - 1 = (mask n :: ULONG)" by (simp add: mask_eq_exp_minus_1 push_bit_eq_mult)
  have r: "(k + (32 - n)) mod 32 = (if k < n then k + (32 - n) else k - n)" using assms k by (auto simp: mod_if)
  have "bit (word_rotl n (lo32 x)) k = bit (lo32 x) ((k + (32 - n)) mod 32)"
    using assms k by (simp only: bit_word_rotl_iff len_num1 len_num0 len_bit0) simp
  also have "\<dots> = bit x (if k < n then k + (32 - n) else k - n)" unfolding r using assms k by (auto simp: bit_unsigned_iff)
  also have "\<dots> = bit (lo32 (ROL32 x n)) k"
    using assms k unfolding ROL32_def m
    by (cases "k < n") (simp_all add: bit_unsigned_iff bit_or_iff bit_push_bit_iff bit_and_iff bit_drop_bit_eq bit_mask_iff add.commute)
  finally show "bit (lo32 (ROL32 x n)) k = bit (word_rotl n (lo32 x)) k" ..
qed

lemma lo32_ror: "lo32 (ROR32 x 2) = word_rotr 2 (lo32 x)"
  unfolding ROR32_def by (subst lo32_rol) (simp_all add: word_rotl_eq_word_rotr)

text \<open>The state of the engine between words, as the reference sees it.\<close>

definition at_word :: "TKIP_KEY_INFO \<Rightarrow> UINT32 \<times> UINT32 \<Rightarrow> bool" where
  "at_word t lr \<longleftrightarrow> nBytesInM t = 0 \<and> mic_M t = 0 \<and> lr = (lo32 (mic_L t), lo32 (mic_R t))"

lemma full_word:
  assumes "nBytesInM t = 3" and "lr = (lo32 (mic_L t), lo32 (mic_R t))"
  shows "at_word (RTMPTkipAppendByte t b) (michael_block lr (lo32 (mic_M t) OR push_bit 24 (ucast b)))"
  using assms
  by (simp add: at_word_def RTMPTkipAppendByte_def Let_def lo32_add lo32_bits lo32_shift lo32_rol lo32_ror lo32_swap word_le_nat_alt)

lemma part_word:
  assumes "nBytesInM t = of_nat n" and "n < 3"
  shows "RTMPTkipAppendByte t b = t\<lparr>mic_M := mic_M t OR int_shift b (8 * n), nBytesInM := of_nat (n + 1)\<rparr>"
proof -
  have "n = 0 \<or> n = 1 \<or> n = 2" using assms(2) by auto
  then show ?thesis using assms(1) by (elim disjE) (simp_all add: RTMPTkipAppendByte_def Let_def word_le_nat_alt)
qed

lemma append_word:
  assumes "at_word t lr"
  shows "at_word (foldl RTMPTkipAppendByte t [a, b, c, d])
    (michael_block lr (ucast a OR push_bit 8 (ucast b) OR push_bit 16 (ucast c) OR push_bit 24 (ucast d)))"
proof -
  have z: "nBytesInM t = of_nat 0" "mic_M t = 0" "lr = (lo32 (mic_L t), lo32 (mic_R t))" using assms by (simp_all add: at_word_def)
  define u where "u = t\<lparr>mic_M := int_shift a 0 OR int_shift b 8 OR int_shift c 16, nBytesInM := 3\<rparr>"
  have "foldl RTMPTkipAppendByte t [a, b, c] = u"
    using part_word[OF z(1), of a] z(2)
      part_word[of "t\<lparr>mic_M := int_shift a 0, nBytesInM := 1\<rparr>" 1 b] part_word[of "t\<lparr>mic_M := int_shift a 0 OR int_shift b 8, nBytesInM := 2\<rparr>" 2 c]
    by (simp add: u_def or.assoc)
  then have "foldl RTMPTkipAppendByte t [a, b, c, d] = RTMPTkipAppendByte u d" by simp
  then show ?thesis using full_word[of u lr d] z(3) by (simp add: u_def lo32_bits lo32_shift or.assoc)
qed

lemma append_words:
  "4 dvd length bs \<Longrightarrow> at_word t lr \<Longrightarrow> at_word (foldl RTMPTkipAppendByte t bs) (foldl michael_block lr (le_words bs))"
proof (induction bs arbitrary: t lr rule: le_words.induct)
  case (1 a b c d bs)
  then have "4 dvd length bs" by simp presburger
  then show ?case using 1(1)[OF _ append_word[OF 1(3), of a b c d]] by simp
qed (auto dest: dvd_imp_le)

lemma count_after: "nBytesInM t = 0 \<Longrightarrow> nBytesInM (foldl RTMPTkipAppendByte t bs) = of_nat (length bs mod 4)"
proof (induction bs rule: rev_induct)
  case (snoc b bs)
  have "length bs mod 4 = 0 \<or> length bs mod 4 = 1 \<or> length bs mod 4 = 2 \<or> length bs mod 4 = 3" by auto
  then show ?case using snoc by (elim disjE) (simp_all add: append_byte_count mod_Suc word_le_nat_alt)
qed simp

lemma pad_loop_zeros: "nBytesInM t = of_nat n \<Longrightarrow> n < 4 \<Longrightarrow> pad_loop t = foldl RTMPTkipAppendByte t (replicate ((4 - n) mod 4) 0)"
proof (induction "(4 - n) mod 4" arbitrary: t n)
  case 0
  then have "n = 0" by (cases n) (auto simp: mod_if split: if_splits)
  then show ?case using 0 by (simp add: pad_loop.simps)
next
  case (Suc k)
  then have n: "n = 1 \<or> n = 2 \<or> n = 3" by (cases n) auto
  then have nz: "nBytesInM t \<noteq> 0" using Suc(3) by auto
  have c: "nBytesInM (RTMPTkipAppendByte t 0) = of_nat ((n + 1) mod 4)"
    using n Suc(3) by (elim disjE) (simp_all add: append_byte_count word_le_nat_alt)
  have k: "k = (4 - (n + 1) mod 4) mod 4" using n Suc(2) by (elim disjE) simp_all
  have "pad_loop (RTMPTkipAppendByte t 0) = foldl RTMPTkipAppendByte (RTMPTkipAppendByte t 0) (replicate ((4 - (n + 1) mod 4) mod 4) 0)"
    by (rule Suc(1)[OF k c]) simp
  moreover have "(4 - n) mod 4 = Suc ((4 - (n + 1) mod 4) mod 4)" using Suc(2) k by simp
  ultimately show ?case using nz by (subst pad_loop.simps) simp
qed

lemma PutUInt32_bytes: "RTMPTkipPutUInt32 v = le32_bytes (lo32 v)"
proof -
  have "ucast (drop_bit (8 * i) v AND 0xff) = (ucast (drop_bit (8 * i) (lo32 v)) :: UINT8)" if "i < 4" for i
  proof -
    have m: "(0xff :: ULONG) = mask 8" by (simp add: mask_eq_exp_minus_1)
    show ?thesis unfolding m using that by (intro bit_word_eqI) (auto simp: bit_simps)
  qed
  from this[of 0] this[of 1] this[of 2] this[of 3] show ?thesis
    by (simp add: RTMPTkipPutUInt32_def le32_bytes_def upt_rec)
qed

lemma set_key_words:
  assumes "length key = 8" shows "at_word (RTMPTkipSetMICKey t key) (le_words key ! 0, le_words key ! 1)"
proof -
  obtain a b c d e f g h where "key = [a, b, c, d, e, f, g, h]" using assms by (auto simp: numeral_eq_Suc length_Suc_conv)
  then show ?thesis
    by (simp add: at_word_def RTMPTkipSetMICKey_def RTMPTkipGetUInt32_def upt_rec lo32_bits lo32_shift or.assoc Let_def)
qed

lemma michael_of_parts:
  assumes "length key = 8"
  shows "tkip_MIC (RTMPTkipGetMIC (foldl (\<lambda>t p. RTMPTkipAppend t p (length p)) (RTMPTkipSetMICKey t key) parts)) = michael key (concat parts)"
proof -
  define m where "m = concat parts"
  define t0 where "t0 = RTMPTkipSetMICKey t key"
  define pad where "pad = [0x5a, 0, 0, 0, 0] @ replicate ((4 - (length m + 5) mod 4) mod 4) (0 :: UINT8)"
  have "foldl (\<lambda>t p. RTMPTkipAppend t p (length p)) u ps = foldl RTMPTkipAppendByte u (concat ps)" for u ps
    by (induction ps arbitrary: u) (simp_all add: RTMPTkipAppend_def)
  then have f: "foldl (\<lambda>t p. RTMPTkipAppend t p (length p)) t0 parts = foldl RTMPTkipAppendByte t0 m" by (simp add: m_def)
  have s: "at_word t0 (le_words key ! 0, le_words key ! 1)" unfolding t0_def by (rule set_key_words[OF assms])
  have c: "nBytesInM t0 = 0" using s by (simp add: at_word_def)
  let ?u = "foldl RTMPTkipAppendByte (foldl RTMPTkipAppendByte t0 m) [0x5a, 0, 0, 0, 0]"
  have "nBytesInM ?u = of_nat ((length m + 5) mod 4)" using count_after[OF c, of "m @ [0x5a, 0, 0, 0, 0]"] by (simp add: add.commute)
  then have "pad_loop ?u = foldl RTMPTkipAppendByte ?u (replicate ((4 - (length m + 5) mod 4) mod 4) 0)" by (rule pad_loop_zeros) simp
  also have "\<dots> = foldl RTMPTkipAppendByte t0 (m @ pad)" by (simp add: pad_def)
  finally have l: "pad_loop ?u = foldl RTMPTkipAppendByte t0 (m @ pad)" .
  have "4 dvd length (m @ pad)"
  proof -
    have "length (m @ pad) = length m + 5 + (4 - (length m + 5) mod 4) mod 4" by (simp add: pad_def)
    moreover have "(n + (4 - n mod 4) mod 4) mod 4 = 0" for n :: nat
    proof -
      have "n mod 4 = 0 \<or> n mod 4 = 1 \<or> n mod 4 = 2 \<or> n mod 4 = 3" by auto
      then have "(n mod 4 + (4 - n mod 4) mod 4) mod 4 = 0" by (elim disjE) simp_all
      then show ?thesis by (simp add: mod_add_left_eq)
    qed
    ultimately show ?thesis by (simp only: dvd_eq_mod_eq_0)
  qed
  then have "at_word (pad_loop ?u) (foldl michael_block (le_words key ! 0, le_words key ! 1) (le_words (m @ pad)))"
    unfolding l using append_words s by blast
  then show ?thesis
    unfolding t0_def[symmetric] f m_def[symmetric]
    by (simp add: RTMPTkipGetMIC_def michael_def PutUInt32_bytes at_word_def pad_def Let_def split: prod.splits)
qed

text \<open>
  \<^bold>\<open>C36\<close> The integrity code is Michael. However the message is split into calls of \<^verbatim>\<open>RTMPTkipAppend\<close>, and although all registers are
  64 bits wide and a byte with its top bit set floods the upper half, setting the key, appending the message and closing it
  yields the code that IEEE 802.11 defines on 32-bit words.
\<close>

theorem michael_correct:
  assumes "length key = 8"
  shows "tkip_MIC (RTMPTkipGetMIC (foldl (\<lambda>t p. RTMPTkipAppend t p (length p)) (RTMPTkipSetMICKey t key) parts)) = michael key (concat parts)"
  using assms by (rule michael_of_parts)

section \<open>The key mixing is that of IEEE 802.11\<close>

abbreviation lo16 :: "UINT32 \<Rightarrow> UINT16" where "lo16 x \<equiv> ucast x"

definition mk16 :: "UINT8 \<Rightarrow> UINT8 \<Rightarrow> UINT16" where
  "mk16 hi lo = push_bit 8 (ucast hi) OR ucast lo"

text \<open>The reference S-box: two and three times the AES S-box in GF(256), and the mirrored value for the high byte.\<close>

definition S16 :: "UINT16 \<Rightarrow> UINT16" where
  "S16 w = (let l = aes_sbox_enc ! unat (ucast w :: UINT8); h = aes_sbox_enc ! unat (ucast (drop_bit 8 w) :: UINT8)
            in mk16 (gmul 2 l) (gmul 3 l) XOR mk16 (gmul 3 h) (gmul 2 h))"

lemma Sbox_tables:
  "Tkip_Sbox_Upper = map (\<lambda>s. ucast (xtime s)) aes_sbox_enc" "Tkip_Sbox_Lower = map (\<lambda>s. ucast (xtime s XOR s)) aes_sbox_enc"
  by (simp_all add: Tkip_Sbox_Upper_def Tkip_Sbox_Lower_def aes_sbox_enc_def xtime_def)

lemma lo16_add: "lo16 (x + y) = lo16 x + lo16 y"
proof -
  have "take_bit 16 (take_bit 32 a + take_bit 32 b) = take_bit 16 (a + b)" for a b :: int
    by (subst (1 2) take_bit_add[symmetric]) simp
  then show ?thesis by transfer simp
qed

lemma lo16_xor: "lo16 (x XOR y) = lo16 x XOR lo16 y"
  by (rule bit_word_eqI) (simp add: bit_simps)

lemma mod_take_bit: "(x :: 'a::len word) mod 65536 = take_bit 16 x" "x mod 256 = take_bit 8 x"
  using take_bit_eq_mod[of 16 x] take_bit_eq_mod[of 8 x] by simp_all

lemma lo16_mod: "lo16 (x mod 65536) = lo16 x"
  unfolding mod_take_bit by (rule bit_word_eqI) (simp add: bit_simps)

lemma byte_index: "unat (take_bit 8 x) = unat (ucast x :: UINT8)" for x :: UINT32
  by (simp add: unsigned_take_bit_eq unsigned_ucast_eq)

lemma byte_pair: "lo16 (ucast l + ucast u * 256) = mk16 u l" "lo16 (256 * ucast u + ucast l) = mk16 u l" for l u :: UINT8
proof -
  have "(ucast u * 256 :: UINT32) = push_bit 8 (ucast u)" by (simp add: push_bit_eq_mult)
  moreover have "(ucast l + push_bit 8 (ucast u) :: UINT32) = ucast l OR push_bit 8 (ucast u)"
    by (rule disjunctive_add) (auto simp: bit_simps dest: bit_imp_le_length)
  moreover have "lo16 (ucast l OR push_bit 8 (ucast u)) = mk16 u l"
    unfolding mk16_def by (rule bit_word_eqI) (auto simp: bit_simps)
  ultimately show "lo16 (ucast l + ucast u * 256) = mk16 u l" by simp
  then show "lo16 (256 * ucast u + ucast l) = mk16 u l" by (simp add: add.commute mult.commute)
qed

lemma lo16_sbox: "lo16 (tkip_sbox x) = S16 (lo16 x)"
proof -
  have l: "length aes_sbox_enc = 256" by (simp add: aes_sbox_enc_def)
  have i: "unat (b :: UINT8) < 256" for b using unsigned_less[where 'a = nat, of b] by simp
  have e: "lo16 (Tkip_Sbox_Lower ! unat b + Tkip_Sbox_Upper ! unat b * 256) = mk16 (gmul 2 (aes_sbox_enc ! unat b)) (gmul 3 (aes_sbox_enc ! unat b))"
    "lo16 (Tkip_Sbox_Upper ! unat b + Tkip_Sbox_Lower ! unat b * 256) = mk16 (gmul 3 (aes_sbox_enc ! unat b)) (gmul 2 (aes_sbox_enc ! unat b))"
    for b :: UINT8
    unfolding Sbox_tables gmul_const xor.commute[of "aes_sbox_enc ! unat b"] using i[of b] l by (simp_all add: byte_pair)
  have h: "(ucast (drop_bit 8 x) :: UINT8) = ucast (drop_bit 8 (lo16 x))" "(ucast x :: UINT8) = ucast (lo16 x)"
    by (rule bit_word_eqI; simp add: bit_simps)+
  show ?thesis
    unfolding tkip_sbox_def S16_def mod_take_bit byte_index Let_def lo16_xor e h ..
qed

lemma lo16_rotr1: "lo16 (rotr1 x) = word_rotr 1 (lo16 x)"
proof (rule bit_word_eqI)
  fix k assume "k < LENGTH(16)"
  then have k: "k < 16" by simp
  have m: "(0x7fff :: UINT32) = mask 15" by (simp add: mask_eq_exp_minus_1)
  have "(0x8000 :: UINT32) = 2 ^ 15" by simp
  then have b: "bit (0x8000 :: UINT32) k = (k = 15)" by (simp only: bit_exp_iff) auto
  have o: "(x AND 1 = 1) = bit x 0" by (simp add: bit_0 and_one_eq odd_iff_mod_2_eq_one)
  have "bit (lo16 (rotr1 x)) k = (if k = 15 then bit x 0 else bit x (k + 1))"
    using k unfolding rotr1_def lo16_mod o m
    by (cases "bit x 0") (simp_all only: if_True if_False bit_unsigned_iff bit_or_iff bit_and_iff bit_drop_bit_eq bit_mask_iff b o_def, auto)
  moreover have "bit (word_rotr 1 (lo16 x)) k = bit (lo16 x) ((k + 1) mod 16)"
    using k by (simp add: bit_word_rotr_iff)
  moreover have "(k + 1) mod 16 = (if k = 15 then 0 else k + 1)" using k by (auto simp: mod_if)
  ultimately show "bit (lo16 (rotr1 x)) k = bit (word_rotr 1 (lo16 x)) k" using k by (simp add: bit_unsigned_iff)
qed

lemma lo16_key: "lo16 (key16 key i) = mk16 (key ! (i + 1)) (key ! i)"
  unfolding key16_def by (rule byte_pair)

lemmas lo16_simps = lo16_add lo16_xor lo16_mod lo16_sbox lo16_rotr1 lo16_key

text \<open>The reference: both phases on 16-bit words.\<close>

type_synonym ttak = "UINT16 \<times> UINT16 \<times> UINT16 \<times> UINT16 \<times> UINT16"

fun ttak_round :: "bytes \<Rightarrow> nat \<Rightarrow> ttak \<Rightarrow> ttak" where
  "ttak_round tk i (t0, t1, t2, t3, t4) =
     (let j = 2 * (i mod 2);
          t0 = t0 + S16 (t4 XOR mk16 (tk ! (j + 1)) (tk ! j));
          t1 = t1 + S16 (t0 XOR mk16 (tk ! (4 + j + 1)) (tk ! (4 + j)));
          t2 = t2 + S16 (t1 XOR mk16 (tk ! (8 + j + 1)) (tk ! (8 + j)));
          t3 = t3 + S16 (t2 XOR mk16 (tk ! (12 + j + 1)) (tk ! (12 + j)));
          t4 = t4 + S16 (t3 XOR mk16 (tk ! (j + 1)) (tk ! j)) + of_nat i
      in (t0, t1, t2, t3, t4))"

definition phase1 :: "bytes \<Rightarrow> mac_addr \<Rightarrow> UINT32 \<Rightarrow> ttak" where
  "phase1 tk ta iv32 = fold (ttak_round tk) [0..<8]
     (ucast iv32, ucast (drop_bit 16 iv32), mk16 (ta ! 1) (ta ! 0), mk16 (ta ! 3) (ta ! 2), mk16 (ta ! 5) (ta ! 4))"

definition phase2 :: "bytes \<Rightarrow> ttak \<Rightarrow> UINT16 \<Rightarrow> bytes" where
  "phase2 tk ttak iv16 = (case ttak of (t0, t1, t2, t3, t4) \<Rightarrow>
      let k = (\<lambda>i. mk16 (tk ! (i + 1)) (tk ! i));
          t5 = t4 + iv16;
          t0 = t0 + S16 (t5 XOR k 0); t1 = t1 + S16 (t0 XOR k 2); t2 = t2 + S16 (t1 XOR k 4);
          t3 = t3 + S16 (t2 XOR k 6); t4 = t4 + S16 (t3 XOR k 8); t5 = t5 + S16 (t4 XOR k 10);
          t0 = t0 + word_rotr 1 (t5 XOR k 12); t1 = t1 + word_rotr 1 (t0 XOR k 14);
          t2 = t2 + word_rotr 1 t1; t3 = t3 + word_rotr 1 t2; t4 = t4 + word_rotr 1 t3; t5 = t5 + word_rotr 1 t4;
          tsc1 = ucast (drop_bit 8 iv16) :: UINT8
      in [tsc1, (tsc1 OR 0x20) AND 0x7f, ucast iv16, ucast (drop_bit 1 (t5 XOR k 0))]
         @ concat (map le16_bytes [t0, t1, t2, t3, t4, t5]))"

fun lo_regs :: "p1k_regs \<Rightarrow> ttak" where
  "lo_regs (a, b, c, d, e) = (lo16 a, lo16 b, lo16 c, lo16 d, lo16 e)"

lemma lo16_of_nat: "lo16 (of_nat n) = of_nat n"
  by (rule bit_word_eqI) (simp add: bit_simps)

lemma round_lo: "lo_regs (phase1_round key i r) = ttak_round key i (lo_regs r)"
proof (cases r)
  case (fields a b c d e)
  then show ?thesis by (simp add: Let_def lo16_simps lo16_of_nat)
qed

lemma rounds_lo: "lo_regs (fold (phase1_round key) is r) = fold (ttak_round key) is (lo_regs r)"
  by (induction "is" arbitrary: r) (simp_all add: round_lo)

lemma low_high:
  "(ucast (x mod 256) :: UINT8) = ucast (lo16 x)" "(ucast (drop_bit 8 x mod 256) :: UINT8) = ucast (drop_bit 8 (lo16 x))"
  "(ucast (drop_bit 1 x mod 256) :: UINT8) = ucast (drop_bit 1 (lo16 x))" for x :: UINT32
  unfolding mod_take_bit by (rule bit_word_eqI; simp add: bit_simps)+

lemma wep_seed_byte: "(ucast ((drop_bit 8 x mod 256 OR 0x20) AND 0x7f) :: UINT8) = (ucast (drop_bit 8 (lo16 x)) OR 0x20) AND 0x7f" for x :: UINT32
proof -
  have "(ucast ((y OR 0x20) AND 0x7f) :: UINT8) = (ucast y OR 0x20) AND 0x7f" for y :: UINT32
    by (rule bit_word_eqI) (auto simp: bit_simps)
  then show ?thesis by (simp add: low_high(2))
qed

lemma MixKey_phases:
  "RTMPTkipMixKey key ta pnl pnh = phase2 key (phase1 key ta (ucast pnh)) (ucast pnl)"
proof -
  define tsc0 tsc1 tsc2 where "tsc0 = (ucast (drop_bit 16 pnh mod 65536) :: UINT32)" and "tsc1 = (ucast (pnh mod 65536) :: UINT32)"
    and "tsc2 = (ucast (pnl mod 65536) :: UINT32)"
  define r where "r = (tsc1, tsc0, ucast (ta ! 0) + ucast (ta ! 1) * 256 :: UINT32, ucast (ta ! 2) + ucast (ta ! 3) * 256 :: UINT32,
                 ucast (ta ! 4) + ucast (ta ! 5) * 256 :: UINT32)"
  have t: "lo16 tsc2 = ucast pnl" "lo16 tsc1 = ucast (ucast pnh :: UINT32)" "lo16 tsc0 = ucast (drop_bit 16 (ucast pnh :: UINT32))"
    unfolding tsc0_def tsc1_def tsc2_def mod_take_bit by (rule bit_word_eqI; auto simp: bit_simps)+
  obtain a b c d e where f: "fold (phase1_round key) [0..<8] r = (a, b, c, d, e)" by (cases "fold (phase1_round key) [0..<8] r")
  have p: "phase1 key ta (ucast pnh) = (lo16 a, lo16 b, lo16 c, lo16 d, lo16 e)"
    using rounds_lo[of key "[0..<8]" r] f by (simp add: phase1_def r_def byte_pair t)
  show ?thesis
    unfolding RTMPTkipMixKey_def Let_def tsc0_def[symmetric] tsc1_def[symmetric] tsc2_def[symmetric] r_def[symmetric] f prod.case p phase2_def wep_seed_byte low_high(2,3)
    by (simp add: low_high(1) lo16_simps t le16_bytes_def)
qed

text \<open>
  The key mixing is that of TKIP. \<^verbatim>\<open>RTMPTkipMixKey\<close> computes the per-frame key of IEEE 802.11 for every temporal key, transmitter
  address and packet number: its two byte tables hold two and three times the AES S-box in GF(256), and although the second phase
  lets its 32-bit sums grow beyond 16 bits, all that is used of them agrees with the 16-bit arithmetic of the standard.
\<close>

theorem tkip_mixing_correct:
  "RTMPTkipMixKey key ta pnl pnh = phase2 key (phase1 key ta (ucast pnh)) (ucast pnl)"
  by (rule MixKey_phases)

section \<open>Decapsulation inverts encapsulation\<close>

text \<open>The reference: the body of a protected frame with the 8-byte header \<open>hdr\<close>.\<close>

definition tkip_seed :: "bytes \<Rightarrow> mac_addr \<Rightarrow> bytes \<Rightarrow> bytes" where
  "tkip_seed tk ta hdr = phase2 tk (phase1 tk ta (le32_at hdr 4)) (mk16 (hdr ! 0) (hdr ! 2))"

definition tkip_mic :: "bytes \<Rightarrow> bytes \<Rightarrow> UINT8 \<Rightarrow> bytes \<Rightarrow> bytes" where
  "tkip_mic mickey pHdr prio p = (case tkip_addrs pHdr of (da, sa, ta) \<Rightarrow> michael mickey (da @ sa @ [prio, 0, 0, 0] @ p))"

definition tkip_protect :: "KEY_ENTRY \<Rightarrow> bytes \<Rightarrow> bytes \<Rightarrow> UINT8 \<Rightarrow> bytes \<Rightarrow> bytes \<Rightarrow> bytes" where
  "tkip_protect k mickey pHdr prio hdr p =
     (let q = p @ tkip_mic mickey pHdr prio p
      in xor_bytes (q @ icv q) (keystream (length q + 4) (ARC4_INIT (tkip_seed (Key k) (snd (snd (tkip_addrs pHdr))) hdr) 16)))"

definition full_hdr :: "bytes \<Rightarrow> bool" where
  "full_hdr pHdr \<longleftrightarrow> 24 \<le> length pHdr \<and> (bit (pHdr ! 1) 0 \<and> bit (pHdr ! 1) 1 \<longrightarrow> 30 \<le> length pHdr)"

lemma length_michael [simp]: "length (michael key m) = 8"
  by (simp add: michael_def Let_def split: prod.splits)

lemma length_tkip_mic [simp]: "length (tkip_mic mk pHdr prio p) = 8"
  by (simp add: tkip_mic_def split: prod.splits)

lemma addrs_length: "full_hdr pHdr \<Longrightarrow> tkip_addrs pHdr = (da, sa, ta) \<Longrightarrow> length da = 6 \<and> length sa = 6"
  by (auto simp: full_hdr_def tkip_addrs_def slice_def Let_def split: if_splits)

lemma frame_mic:
  assumes "length mk = 8" and "length da = 6" and "length sa = 6" and "length p \<le> length d" and "take (length p) d = p"
  shows "tkip_MIC (RTMPTkipGetMIC (RTMPTkipAppend (RTMPInitMICEngine t da sa prio mk) d (length p))) = michael mk (da @ sa @ [prio, 0, 0, 0] @ p)"
proof -
  have pr: "take 4 (le64_bytes (ucast prio)) = [prio, 0, 0, 0]"
  proof -
    have "(ucast (ucast prio :: UINT64) :: UINT8) = prio" "(ucast (drop_bit 8 (ucast prio :: UINT64)) :: UINT8) = 0" "(ucast (drop_bit 16 (ucast prio :: UINT64)) :: UINT8) = 0"
      "(ucast (drop_bit 24 (ucast prio :: UINT64)) :: UINT8) = 0"
      by (rule bit_word_eqI; auto simp: bit_simps dest: bit_imp_le_length)+
    then show ?thesis by (simp add: le64_bytes_def upt_rec)
  qed
  have "RTMPTkipAppend (RTMPInitMICEngine t da sa prio mk) d (length p)
      = foldl (\<lambda>t p. RTMPTkipAppend t p (length p)) (RTMPTkipSetMICKey t mk) [da, sa, [prio, 0, 0, 0], p]"
    using assms(2-5) pr by (simp add: RTMPInitMICEngine_def RTMPTkipAppend_def Let_def)
  then show ?thesis using michael_of_parts[OF assms(1), of t "[da, sa, [prio, 0, 0, 0], p]"] by simp
qed

lemma pn_low: "(ucast (ucast (push_bit 8 (ucast a) OR ucast b :: UINT32) :: ULONG) :: UINT16) = mk16 a b" for a b :: UINT8
  unfolding mk16_def by (rule bit_word_eqI) (auto simp: bit_simps)

lemma len_words:
  assumes "n + 20 < 65536"
  shows "unat (ucast (of_nat (n + 20) :: UINT16) - 8 :: UINT32) = n + 12" "unat (ucast (of_nat (n + 20) :: UINT16) - 8 - 4 :: UINT32) = n + 8"
    "unat (ucast (of_nat (n + 20) :: UINT16) - 8 - 4 - 8 :: UINT32) = n" "(ucast (ucast (of_nat (n + 20) :: UINT16) - 8 - 4 - 8 :: UINT32) :: UINT16) = of_nat n"
proof -
  have u: "(ucast (of_nat (n + 20) :: UINT16) :: UINT32) = of_nat (n + 20)"
    using assms by (simp add: unsigned_of_nat take_bit_nat_eq_self del: of_nat_add)
  have s: "of_nat (n + 20) - 8 = (of_nat (n + 12) :: UINT32)" "of_nat (n + 12) - 4 = (of_nat (n + 8) :: UINT32)" "of_nat (n + 8) - 8 = (of_nat n :: UINT32)"
    by simp_all
  have v: "unat (of_nat m :: UINT32) = m" if "m < 65536" for m using that by (simp add: unsigned_of_nat take_bit_nat_eq_self)
  show "unat (ucast (of_nat (n + 20) :: UINT16) - 8 :: UINT32) = n + 12" "unat (ucast (of_nat (n + 20) :: UINT16) - 8 - 4 :: UINT32) = n + 8"
    "unat (ucast (of_nat (n + 20) :: UINT16) - 8 - 4 - 8 :: UINT32) = n" "(ucast (ucast (of_nat (n + 20) :: UINT16) - 8 - 4 - 8 :: UINT32) :: UINT16) = of_nat n"
    unfolding u s using assms v lo16_of_nat by (simp_all del: of_nat_add)
qed

lemma RTMPSoftDecryptTKIP_ok:
  assumes "KeyLen k \<noteq> 0" and "length hdr = 8" and "length ct = n + 12" and "n + 20 < 65536" and "full_hdr pHdr" and "length (RxMic k) = 8"
    and d: "d = xor_bytes ct (keystream (n + 12) (ARC4_INIT (tkip_seed (Key k) (snd (snd (tkip_addrs pHdr))) hdr) 16))"
  shows "\<exists>t'. RTMPSoftDecryptTKIP t pHdr prio k (hdr @ ct) (of_nat (n + 20)) = Some (
      if drop (n + 8) d \<noteq> icv (take (n + 8) d) then (False, d @ drop (n + 4) ct, of_nat (n + 20), t, False)
      else if slice d n 8 \<noteq> tkip_mic (RxMic k) pHdr prio (take n d) then (False, d @ drop (n + 4) ct, of_nat (n + 20), t', True)
      else (True, d @ drop (n + 4) ct, of_nat n, t', False))"
proof -
  obtain da sa ta where a: "tkip_addrs pHdr = (da, sa, ta)" by (cases "tkip_addrs pHdr")
  note al = addrs_length[OF assms(5) a]
  have seed: "RTMPTkipMixKey (Key k) ta (ucast (push_bit 8 (ucast ((hdr @ ct) ! 0)) OR ucast ((hdr @ ct) ! 2) :: UINT32)) (ucast (le32_at (hdr @ ct) 4))
      = tkip_seed (Key k) ta hdr"
  proof -
    have "le32_at (hdr @ ct) 4 = le32_at hdr 4" using assms(2) by (simp add: le32_at_def nth_append)
    moreover have "(ucast (ucast w :: ULONG) :: UINT32) = w" for w :: UINT32 by (rule bit_word_eqI) (simp add: bit_simps)
    ultimately show ?thesis using assms(2) by (simp add: MixKey_phases tkip_seed_def pn_low nth_append)
  qed
  define x where "x = d @ drop (n + 4) ct"
  have l: "length d = n + 12" using d assms(3) by simp
  have arc: "ARC4_Compute (n + 12) (ARC4_INIT (tkip_seed (Key k) ta hdr) 16) (hdr @ ct) 8 0 = x"
    using assms(2,3) by (simp add: ARC4_Compute_stream move_at_def x_def d a add.commute)
  have tk: "take m x = take m d" "drop (n + 8) (take (n + 12) x) = drop (n + 8) d" if "m \<le> n + 12" for m
    using that l by (simp_all add: x_def)
  have s4: "slice x (n + 8) 4 = drop (n + 8) d" and s8: "slice x n 8 = slice d n 8" using l by (simp_all add: x_def slice_def)
  have fcs: "le32_bytes (RTMP_CALC_FCS32 PPPINITFCS32 x (n + 8) XOR 0xffffffff) = icv (take (n + 8) d)"
    using l tk(1)[of "n + 8"] by (simp add: icv_def RTMP_CALC_FCS32_def)
  define t' where "t' = RTMPTkipGetMIC (RTMPTkipAppend (RTMPInitMICEngine t da sa prio (RxMic k)) x n)"
  have mic: "tkip_MIC t' = tkip_mic (RxMic k) pHdr prio (take n d)"
    using frame_mic[OF assms(6), of da sa "take n d" x t prio] al l tk(1)[of n] by (simp add: t'_def tkip_mic_def a x_def)
  have "length x = n + 20" using assms(3) l by (simp add: x_def)
  moreover have "\<not> length (hdr @ ct) < 12" "\<not> length (hdr @ ct) < 8 + (n + 12)" using assms(2,3) by simp_all
  ultimately show ?thesis
    unfolding RTMPSoftDecryptTKIP_def a prod.case Let_def seed len_words[OF assms(4)] arc s4 s8 fcs t'_def[symmetric] mic x_def[symmetric]
    using assms(1) by (intro exI[of _ t']) simp
qed

text \<open>A frame of fewer than 12 bytes makes the lengths wrap: the code leaves the buffer.\<close>

lemma tkip_short_frame:
  assumes "KeyLen k \<noteq> 0" and "unat cnt < 12" and "length pData < 2 ^ 31"
  shows "RTMPSoftDecryptTKIP t pHdr prio k pData cnt = None"
proof -
  have c: "unat (ucast cnt :: UINT32) = unat cnt" using assms(2) by (simp add: unsigned_ucast_eq take_bit_nat_eq_self)
  show ?thesis
  proof (cases "unat cnt < 8")
    case True
    then have "unat (ucast cnt - 8 :: UINT32) = unat cnt + 2 ^ 32 - 8" using c by (simp add: unat_sub_if_size word_size)
    then show ?thesis using assms True by (simp add: RTMPSoftDecryptTKIP_def Let_def split: prod.splits)
  next
    case False
    then have "unat (ucast cnt - 12 :: UINT32) = unat cnt + 2 ^ 32 - 12" using c assms(2) by (simp add: unat_sub_if_size word_size)
    then show ?thesis using assms by (simp add: RTMPSoftDecryptTKIP_def Let_def split: prod.splits)
  qed
qed

text \<open>
  \<^bold>\<open>C35\<close> A TKIP link between the two ends of a handshake. Both sides install their pairwise keys from the same transient key, the authenticator
  with \<open>bAE\<close> set and the station without. Then, for every frame header, priority, packet number and text, decapsulation at the station returns the
  text with its length if and only if the received bytes are the protection of the text under the authenticator's key and transmit MIC key; any other
  text, MIC or ICV is refused.
\<close>

theorem tkip_link:
  assumes "PTK ap = PTK sta" and "length (PTK sta) = 64" and "ent_WepStatus ap = Ndis802_11Encryption2Enabled"
    and "ent_WepStatus sta = Ndis802_11Encryption2Enabled" and "ka = fst (pairwise_key ap True)" and "ks = fst (pairwise_key sta False)"
    and "full_hdr pHdr" and "length hdr = 8" and "length ct = length p + 12" and "length p + 20 < 65536"
  shows "(\<exists>d t'. RTMPSoftDecryptTKIP t pHdr prio ks (hdr @ ct) (of_nat (length p + 20)) = Some (True, d, of_nat (length p), t', False)
            \<and> take (length p) d = p)
    \<longleftrightarrow> ct = tkip_protect ka (TxMic ka) pHdr prio hdr p"
proof -
  have k: "Key ks = Key ka" "RxMic ks = TxMic ka" "length (RxMic ks) = 8" "KeyLen ks \<noteq> 0"
    using assms(1-6) by (simp_all add: pairwise_key_def slice_def Let_def)
  let ?n = "length p"
  let ?s = "keystream (?n + 12) (ARC4_INIT (tkip_seed (Key ka) (snd (snd (tkip_addrs pHdr))) hdr) 16)"
  define d where "d = xor_bytes ct ?s"
  have l: "length d = ?n + 12" using assms(9) by (simp add: d_def)
  define q where "q = p @ tkip_mic (TxMic ka) pHdr prio p"
  have lq: "length q = ?n + 8" by (simp add: q_def)
  have "d = xor_bytes ct (keystream (?n + 12) (ARC4_INIT (tkip_seed (Key ks) (snd (snd (tkip_addrs pHdr))) hdr) 16))" by (simp add: d_def k(1))
  then obtain u where "RTMPSoftDecryptTKIP t pHdr prio ks (hdr @ ct) (of_nat (?n + 20)) = Some (
      if drop (?n + 8) d \<noteq> icv (take (?n + 8) d) then (False, d @ drop (?n + 4) ct, of_nat (?n + 20), t, False)
      else if slice d ?n 8 \<noteq> tkip_mic (RxMic ks) pHdr prio (take ?n d) then (False, d @ drop (?n + 4) ct, of_nat (?n + 20), u, True)
      else (True, d @ drop (?n + 4) ct, of_nat ?n, u, False))"
    using RTMPSoftDecryptTKIP_ok[OF k(4) assms(8,9,10,7) k(3)] by blast
  then have "(\<exists>d t'. RTMPSoftDecryptTKIP t pHdr prio ks (hdr @ ct) (of_nat (?n + 20)) = Some (True, d, of_nat ?n, t', False) \<and> take ?n d = p)
    \<longleftrightarrow> drop (?n + 8) d = icv (take (?n + 8) d) \<and> slice d ?n 8 = tkip_mic (TxMic ka) pHdr prio (take ?n d) \<and> take ?n d = p"
    using l k(2) by (auto simp del: of_nat_add split: if_split_asm)
  also have "\<dots> \<longleftrightarrow> d = q @ icv q"
  proof
    assume a: "drop (?n + 8) d = icv (take (?n + 8) d) \<and> slice d ?n 8 = tkip_mic (TxMic ka) pHdr prio (take ?n d) \<and> take ?n d = p"
    have "take (?n + 8) d = take ?n d @ slice d ?n 8" by (simp add: take_add slice_def)
    then have "take (?n + 8) d = q" using a by (simp add: q_def)
    then show "d = q @ icv q" using a append_take_drop_id[of "?n + 8" d] by simp
  next
    assume "d = q @ icv q"
    then show "drop (?n + 8) d = icv (take (?n + 8) d) \<and> slice d ?n 8 = tkip_mic (TxMic ka) pHdr prio (take ?n d) \<and> take ?n d = p"
      using lq by (simp add: slice_def q_def)
  qed
  also have "\<dots> \<longleftrightarrow> ct = xor_bytes (q @ icv q) ?s" unfolding d_def by (rule xor_bytes_swap) (simp_all add: lq assms(9))
  also have "xor_bytes (q @ icv q) ?s = tkip_protect ka (TxMic ka) pHdr prio hdr p"
    using lq by (simp add: tkip_protect_def q_def Let_def add.commute)
  finally show ?thesis .
qed

text \<open>The sender's code over a packet without VLAN tag is the one the receiver computes over the reassembled data.\<close>

lemma msdu_mic_accepted:
  assumes "length da = 6" and "length sa = 6" and "length ty = 2" and "ty \<noteq> [0x81, 0]" and "length e = 6" and "length (TxMic k) = 8"
    and "RTMPCalculateMICValue t (da @ sa @ ty @ p) prio (Some e) k = Some t1"
  shows "\<exists>t2. RTMPTkipCompareMICValue u (e @ ty @ p @ tkip_MIC t1) da sa (TxMic k) prio (length (e @ ty @ p)) = Some (True, t2)"
proof -
  obtain a b where ty: "ty = [a, b]" using assms(3) by (auto simp: numeral_eq_Suc length_Suc_conv)
  have v: "\<not> ((da @ sa @ ty @ p) ! 12 = 0x81 \<and> (da @ sa @ ty @ p) ! 13 = 0)" using assms(1,2,4) ty by (auto simp: nth_append)
  have d: "slice (da @ sa @ ty @ p) 6 6 = sa" "take 6 (da @ sa @ ty @ p) = da" "take 2 (drop 12 (da @ sa @ ty @ p)) = ty" "drop 14 (da @ sa @ ty @ p) = p"
    using assms(1,2,3) by (simp_all add: slice_def)
  have f: "RTMPTkipAppend (RTMPTkipAppend (RTMPTkipAppend s e 6) (drop 12 (da @ sa @ ty @ p)) 2) p (length p) = RTMPTkipAppend s (e @ ty @ p) (length (e @ ty @ p))" for s
    using assms(5) d(3) by (simp add: RTMPTkipAppend_def)
  have "t1 = RTMPTkipGetMIC (RTMPTkipAppend (RTMPInitMICEngine t da sa prio (TxMic k)) (e @ ty @ p) (length (e @ ty @ p)))"
    using assms(7) v d f assms(1,2,3) by (simp add: RTMPCalculateMICValue_def Let_def)
  then have m: "tkip_MIC t1 = michael (TxMic k) (da @ sa @ [prio, 0, 0, 0] @ e @ ty @ p)"
    using frame_mic[OF assms(6,1,2), of "e @ ty @ p" "e @ ty @ p" t prio] by simp
  moreover have "tkip_MIC (RTMPTkipGetMIC (RTMPTkipAppend (RTMPInitMICEngine u da sa prio (TxMic k)) (e @ ty @ p @ tkip_MIC t1) (length (e @ ty @ p))))
      = michael (TxMic k) (da @ sa @ [prio, 0, 0, 0] @ e @ ty @ p)"
    using frame_mic[OF assms(6,1,2), of "e @ ty @ p" "e @ ty @ p @ tkip_MIC t1" u prio] by simp
  moreover have "slice (e @ ty @ p @ tkip_MIC t1) (length (e @ ty @ p)) 8 = tkip_MIC t1" using m by (simp add: slice_def)
  ultimately show ?thesis by (simp add: RTMPTkipCompareMICValue_def Let_def)
qed

definition zero_tkip :: TKIP_KEY_INFO where
  "zero_tkip = \<lparr>nBytesInM = 0, mic_K0 = 0, mic_K1 = 0, mic_L = 0, mic_R = 0, mic_M = 0, tkip_MIC = replicate 8 0\<rparr>"

theorem michael_correct_witness:
  "tkip_MIC (RTMPTkipGetMIC (RTMPTkipSetMICKey zero_tkip [0, 0, 0, 0, 0, 0, 0, 0])) = [0x82, 0x92, 0x5c, 0x1c, 0xa1, 0xd1, 0x30, 0xb8]"
proof -
  have "michael [0, 0, 0, 0, 0, 0, 0, 0] [] = [0x82, 0x92, 0x5c, 0x1c, 0xa1, 0xd1, 0x30, 0xb8]" by code_simp
  then show ?thesis using michael_correct[of "[0, 0, 0, 0, 0, 0, 0, 0]" zero_tkip "[]"] by simp
qed

definition ex_tkip_entry :: WPA_ENTRY where
  "ex_tkip_entry = \<lparr>is_client = True, is_apcli = False, ent_Addr = replicate 6 1, ent_AuthMode = Ndis802_11AuthModeWPAPSK,
     ent_WepStatus = Ndis802_11Encryption2Enabled, is_assoc = True, WpaState = 10, GTKState = 0, ent_PortSecured = 1, accept_all = True,
     R_Counter = replicate 8 0, ANonce = replicate 32 7, SNonce = replicate 32 8, PTK = replicate 64 9, PairwiseKey = zero_key,
     ent_Aid = 1, ReTryCounter = 0\<rparr>"

theorem tkip_link_witness:
  "\<exists>d t'. RTMPSoftDecryptTKIP zero_tkip (replicate 24 0) 0 (fst (pairwise_key ex_tkip_entry False))
       (replicate 8 0 @ tkip_protect (fst (pairwise_key ex_tkip_entry True)) (TxMic (fst (pairwise_key ex_tkip_entry True))) (replicate 24 0) 0 (replicate 8 0) [1, 2, 3])
       (of_nat 23) = Some (True, d, of_nat 3, t', False) \<and> take 3 d = [1, 2, 3]"
proof -
  let ?p = "[1, 2, 3] :: bytes" and ?ka = "fst (pairwise_key ex_tkip_entry True)"
  have e: "length (PTK ex_tkip_entry) = 64" "ent_WepStatus ex_tkip_entry = Ndis802_11Encryption2Enabled" by (simp_all add: ex_tkip_entry_def)
  have h: "full_hdr (replicate 24 0)" by (simp add: full_hdr_def)
  have l: "length (tkip_protect ?ka (TxMic ?ka) (replicate 24 0) 0 (replicate 8 0) ?p) = length ?p + 12" by (simp add: tkip_protect_def Let_def)
  have n: "length ?p + 20 < 65536" "length (replicate 8 (0 :: UINT8)) = 8" by simp_all
  show ?thesis using tkip_link[OF refl e(1,2,2) refl refl h n(2) l n(1), of zero_tkip 0] by (simp add: numeral_3_eq_3)
qed

end
