(* ===== verification/Eapol_Exchange.thy ===== *)
theory Eapol_Exchange
  imports Eapol
begin

text \<open>
  EAPOL-Key messages between two sides: what the functions that build a message put into it is what the functions that
  check and parse it take out. The locale \<open>key_data_cipher\<close> is the contract of the protection of key data; it is
  interpreted on AES key wrap and on ARC4.
\<close>

section \<open>Transmission\<close>

text \<open>The bytes of a message that are sent, and the packet that a receiver finds in its buffer.\<close>

definition sent_bytes :: "EAPOL_PACKET \<Rightarrow> bytes" where
  "sent_bytes m = take (CONV_ARRARY_TO_UINT16 (Body_Len m) + 4) (packet_bytes m)"

lemma packet_split:
  assumes "wf_packet m"
  shows "length (packet_bytes m) = 99 + length (KeyData m)" and "packet_bytes (m\<lparr>KeyData := d\<rparr>) = take 99 (packet_bytes m) @ d"
    and "drop 99 (packet_bytes m) = KeyData m"
  using assms by (simp_all add: wf_packet_def packet_bytes_def)

lemma wf_packet_updates [simp]:
  "wf_packet (m\<lparr>KeyData := d\<rparr>) = wf_packet m"
  "length s = 16 \<Longrightarrow> wf_packet m \<Longrightarrow> wf_packet (m\<lparr>KeyMic := s\<rparr>)"
  by (auto simp: wf_packet_def)

lemma packet_upd_commute: "m\<lparr>KeyData := d, KeyMic := s\<rparr> = m\<lparr>KeyMic := s, KeyData := d\<rparr>"
  by (cases m) simp

lemma packet_received:
  assumes "wf_packet m" and "n = CONV_ARRARY_TO_UINT16 (Body_Len m) + 4" and "99 \<le> n" and "n \<le> 99 + length (KeyData m)"
  shows "packet_of (sent_bytes m @ rest) = Some (m\<lparr>KeyData := take (n - 99) (KeyData m) @ rest\<rparr>)" (is "_ = Some ?p")
    and "mic_valid ptk (m\<lparr>KeyData := take (n - 99) (KeyData m) @ rest\<rparr>) \<longleftrightarrow> mic_valid ptk m" and "length (sent_bytes m) = n"
proof -
  have cut: "take n (packet_bytes x) @ r = packet_bytes (x\<lparr>KeyData := take (n - 99) (KeyData x) @ r\<rparr>)"
    if "wf_packet x" "KeyData x = KeyData m" for x r
    using packet_split[OF that(1)] assms(3,4) that
    by (metis add_diff_inverse_nat append_assoc append_take_drop_id le_add_diff_inverse not_less take_add)
  show "packet_of (sent_bytes m @ rest) = Some ?p"
    using cut[OF assms(1) refl] packet_of_bytes[of ?p] assms(1,2) by (simp add: sent_bytes_def)
  show "length (sent_bytes m) = n"
    using packet_split(1)[OF assms(1)] assms by (simp add: sent_bytes_def)
  have z: "wf_packet (m\<lparr>KeyMic := replicate 16 0\<rparr>)" using assms(1) by simp
  have "mic_input ?p = take n (packet_bytes (m\<lparr>KeyMic := replicate 16 0, KeyData := take (n - 99) (KeyData m) @ rest\<rparr>))"
    using assms(2) by (simp add: mic_input_def packet_upd_commute)
  also have "\<dots> = take n (packet_bytes (m\<lparr>KeyMic := replicate 16 0\<rparr>))"
    using cut[OF z, of rest] packet_split(1)[OF z] assms(3,4) by (simp add: min_def) (metis EAPOL_PACKET.select_convs append_eq_conv_conj length_take min.absorb2)
  finally have "mic_input ?p = mic_input m" using assms(2) by (simp add: mic_input_def)
  then show "mic_valid ptk ?p \<longleftrightarrow> mic_valid ptk m" by (simp add: mic_valid_def)
qed

section \<open>Protected key data\<close>

lemma ARC4_Compute_apart:
  "src + n \<le> dst \<Longrightarrow> dst + n \<le> length buf \<Longrightarrow>
     ARC4_Compute n c buf src dst = move_at buf dst (xor_bytes (take n (drop src buf)) (keystream n c))"
proof (induction n arbitrary: c buf src dst)
  case (Suc n)
  have d: "take (Suc n) (drop src buf) = buf ! src # take n (drop (src + 1) buf)"
    using Suc.prems by (simp add: take_Suc_conv_app_nth Cons_nth_drop_Suc[symmetric])
  have u: "take n (drop (Suc src) (buf[dst := x])) = take n (drop (Suc src) buf)" for x
    using Suc.prems by (simp add: drop_update_swap take_update_cancel)
  show ?case
    using Suc.IH[of "src + 1" "dst + 1" "buf[dst := buf ! src XOR arc4_byte (arc4_next c)]" "arc4_next c"] Suc.prems
    by (simp add: Let_def d u move_at_Cons xor_bytes_def)
qed (simp add: xor_bytes_def)

lemma TKIP_GTK_KEY_WRAP_stream:
  assumes "n \<le> length input" and "n \<le> length output"
  shows "TKIP_GTK_KEY_WRAP True key iv input n output = move_at output 0
    (xor_bytes (take n input) (keystream n (ARC4_Discard_KeyLength (ARC4_INIT (take 16 iv @ take 16 key) 32) 256)))"
  using assms by (simp add: TKIP_GTK_KEY_WRAP_def ARC4_Compute_apart move_at_def xor_bytes_def)

lemma SET_CONV [simp]: "n < 65536 \<Longrightarrow> CONV_ARRARY_TO_UINT16 (SET_UINT16_TO_ARRARY n) = n"
  by (simp add: CONV_ARRARY_TO_UINT16_def SET_UINT16_TO_ARRARY_def unat_of_nat take_bit_eq_mod)

lemma CONV_SET [simp]: "length v = 2 \<Longrightarrow> SET_UINT16_TO_ARRARY (CONV_ARRARY_TO_UINT16 v) = v"
proof -
  assume "length v = 2"
  then obtain a b where v: "v = [a, b]" by (metis length_0_conv length_Suc_conv numeral_2_eq_2)
  have "unat b < 256" using unsigned_less[where 'a = nat, of b] by simp
  moreover have "(256 :: UINT8) = 0" by simp
  ultimately have "(unat a * 256 + unat b) div 256 = unat a" "(of_nat (unat a * 256 + unat b) :: UINT8) = b"
    by (simp_all only: of_nat_add of_nat_mult of_nat_numeral of_nat_unat ucast_id) simp_all
  then show ?thesis by (simp add: v CONV_ARRARY_TO_UINT16_def SET_UINT16_TO_ARRARY_def)
qed

lemma length_SET [simp]: "length (SET_UINT16_TO_ARRARY n) = 2"
  by (simp add: SET_UINT16_TO_ARRARY_def)

text \<open>
  The contract of the two ways to protect key data, AES key wrap (with padding) and ARC4: what one side wrapped, the other
  side, with the same keys, finds in its buffer, followed by padding that holds no key.
\<close>

definition harmless_pad :: "bytes \<Rightarrow> bool" where
  "harmless_pad z \<longleftrightarrow> z = [] \<or> (\<exists>k < 7. z = 0xDD # replicate k 0)"

locale key_data_cipher =
  fixes ver :: UINT8 and padded :: "bytes \<Rightarrow> bytes" and growth :: nat
  assumes padded_ends: "\<exists>z. padded d = d @ z \<and> harmless_pad z"
    and growth: "growth \<le> 8"
    and wrapped_length: "mem_ok a A_wrap \<Longrightarrow> mem_ok a A_arc4 \<Longrightarrow> length (stale a 512) = 512 \<Longrightarrow> length d \<le> 400 \<Longrightarrow>
      length (wrap_key_data a e ver iv d) = length (padded d) + growth"
    and decrypts: "mem_ok a A_wrap \<Longrightarrow> mem_ok a A_arc4 \<Longrightarrow> length (stale a 512) = 512 \<Longrightarrow> mem_ok s A_unwrap \<Longrightarrow> mem_ok s A_arc4 \<Longrightarrow>
      PTK e' = PTK e \<Longrightarrow> length (padded d) \<le> 255 \<Longrightarrow> ki_KeyDescVer (KeyInfo m) = ver \<Longrightarrow>
      KeyData m = wrap_key_data a e ver (KeyIv m) d @ rest \<Longrightarrow>
      KeyDataLen m = SET_UINT16_TO_ARRARY (length (padded d) + growth) \<Longrightarrow>
      decrypt_key_data s e' m
        = Some (move_at (replicate 255 0) 0 (padded d), m\<lparr>KeyDataLen := SET_UINT16_TO_ARRARY (length (padded d))\<rparr>)"

lemma pad_key_data_ends: "\<exists>z. pad_key_data d = d @ z \<and> harmless_pad z"
proof (cases "length d mod 8 = 0")
  case False
  then have "7 - length d mod 8 < 7" by simp
  then show ?thesis using False by (auto simp: pad_key_data_def harmless_pad_def)
qed (simp add: pad_key_data_def harmless_pad_def)

lemma pad_key_data_dvd: "8 dvd length (pad_key_data d)"
proof (cases "length d mod 8 = 0")
  case False
  have "length (pad_key_data d) = length d + (8 - length d mod 8)" using False by (simp add: pad_key_data_def)
  moreover have "(length d + (8 - length d mod 8)) mod 8 = 0"
    using mod_less_divisor[of 8 "length d"] by presburger
  ultimately show ?thesis by (simp add: dvd_eq_mod_eq_0)
qed (simp add: pad_key_data_def dvd_eq_mod_eq_0)

lemma aes_key_data:
  assumes "mem_ok a A_wrap" and "length (pad_key_data d) \<le> 1000"
  shows "length (wrap_key_data a e KEY_DESC_AES iv d) = length (pad_key_data d) + 8"
    and "AES_Key_Unwrap True (wrap_key_data a e KEY_DESC_AES iv d @ rest) (length (pad_key_data d) + 8) (slice (PTK e) 16 16) 16
      = (0, pad_key_data d)"
proof -
  have "length (pad_key_data d) + 8 < 2 ^ 32" using assms(2) by simp
  from aes_wrap_unwrap[OF key128 pad_key_data_dvd this, of "slice (PTK e) 16 16"]
  obtain C where c: "AES_Key_Wrap True (pad_key_data d) (length (pad_key_data d)) (slice (PTK e) 16 16) 16 = (0, C)"
    "length C = length (pad_key_data d) + 8" "\<forall>rest. AES_Key_Unwrap True (C @ rest) (length C) (slice (PTK e) 16 16) 16 = (0, pad_key_data d)"
    by blast
  then have w: "wrap_key_data a e KEY_DESC_AES iv d = C" using assms(1) by (simp add: wrap_key_data_def Let_def)
  show "length (wrap_key_data a e KEY_DESC_AES iv d) = length (pad_key_data d) + 8" using c w by simp
  show "AES_Key_Unwrap True (wrap_key_data a e KEY_DESC_AES iv d @ rest) (length (pad_key_data d) + 8) (slice (PTK e) 16 16) 16
      = (0, pad_key_data d)" using c(2,3) unfolding w by metis
qed

lemma pad_key_data_le: "length (pad_key_data d) \<le> length d + 7"
  by (auto simp: pad_key_data_def)

interpretation aes_data: key_data_cipher KEY_DESC_AES pad_key_data 8
proof
  show "\<exists>z. pad_key_data d = d @ z \<and> harmless_pad z" for d by (rule pad_key_data_ends)
  show "length (wrap_key_data a e KEY_DESC_AES iv d) = length (pad_key_data d) + 8" if "mem_ok a A_wrap" "length d \<le> 400" for a e iv d
    using aes_key_data(1)[OF that(1)] pad_key_data_le[of d] that(2) by simp
  show "decrypt_key_data s e' m
        = Some (move_at (replicate 255 0) 0 (pad_key_data d), m\<lparr>KeyDataLen := SET_UINT16_TO_ARRARY (length (pad_key_data d))\<rparr>)"
    if "mem_ok a A_wrap" "mem_ok s A_unwrap" "PTK e' = PTK e" "length (pad_key_data d) \<le> 255" "ki_KeyDescVer (KeyInfo m) = KEY_DESC_AES"
      "KeyData m = wrap_key_data a e KEY_DESC_AES (KeyIv m) d @ rest"
      "KeyDataLen m = SET_UINT16_TO_ARRARY (length (pad_key_data d) + 8)" for s e' m d a e rest
    using aes_key_data[OF that(1), of d e "KeyIv m"] that by (simp add: decrypt_key_data_def)
qed simp

interpretation arc4_data: key_data_cipher KEY_DESC_TKIP "\<lambda>d. d" 0
proof
  have w: "wrap_key_data a e KEY_DESC_TKIP iv d
      = xor_bytes d (keystream (length d) (ARC4_Discard_KeyLength (ARC4_INIT (take 16 iv @ take 16 (slice (PTK e) 16 16)) 32) 256))"
    if "mem_ok a A_arc4" "length (stale a 512) = 512" "length d \<le> 512" for a e iv d
    using that by (simp add: wrap_key_data_def TKIP_GTK_KEY_WRAP_stream move_at_def)
  show "length (wrap_key_data a e KEY_DESC_TKIP iv d) = length d + 0"
    if "mem_ok a A_arc4" "length (stale a 512) = 512" "length d \<le> 400" for a e iv d
    using w that by simp
  show "decrypt_key_data s e' m = Some (move_at (replicate 255 0) 0 d, m\<lparr>KeyDataLen := SET_UINT16_TO_ARRARY (length d)\<rparr>)"
    if "mem_ok a A_arc4" "length (stale a 512) = 512" "mem_ok s A_arc4" "PTK e' = PTK e" "length d \<le> 255"
      "ki_KeyDescVer (KeyInfo m) = KEY_DESC_TKIP"
      "KeyData m = wrap_key_data a e KEY_DESC_TKIP (KeyIv m) d @ rest" "KeyDataLen m = SET_UINT16_TO_ARRARY (length d + 0)" for s e' m d a e rest
  proof -
    have "m\<lparr>KeyDataLen := SET_UINT16_TO_ARRARY (length d)\<rparr> = m" using that(8) by simp
    then show ?thesis
      using that w[of a d e "KeyIv m"] by (simp add: decrypt_key_data_def TKIP_GTK_KEY_WRAP_stream)
  qed
qed (simp_all add: harmless_pad_def)

section \<open>Parsing of key data elements\<close>

lemma kde_skip:
  assumes "pos + 1 < length kd" and "kd ! pos \<noteq> 0xdd" and "pos + 2 + unat (kd ! (pos + 1)) \<le> n"
  shows "kde_loop kd n pos g = kde_loop kd n (pos + 2 + unat (kd ! (pos + 1))) g"
  using assms by (subst kde_loop.simps) (simp add: rd_def gtk_kde_def)

lemma kde_zeros:
  assumes "\<And>j. pos \<le> j \<Longrightarrow> j < length kd \<Longrightarrow> kd ! j = 0" and "n + 2 \<le> length kd" and "pos \<le> n"
  shows "kde_loop kd n pos g = Some (Inr g)"
  using assms
proof (induction "n - pos" arbitrary: pos rule: less_induct)
  case less
  have z: "kd ! pos = 0" "kd ! Suc pos = 0" using less.prems(1)[of pos] less.prems(1)[of "Suc pos"] less.prems(2,3) by auto
  show ?case
  proof (cases "pos + 2 \<le> n")
    case True
    have "kde_loop kd n pos g = kde_loop kd n (pos + 2) g"
      using kde_skip[of pos kd n g] z True less.prems(2) by simp
    also have "\<dots> = Some (Inr g)"
      using True less.prems by (intro less.hyps) simp_all
    finally show ?thesis .
  next
    case False
    then show ?thesis using z less.prems(2,3) by (subst kde_loop.simps) (simp add: rd_def)
  qed
qed

lemma kde_pad:
  assumes "kd = A @ z @ replicate k 0" and "harmless_pad z" and "n = length A + length z" and "6 \<le> k"
  shows "kde_loop kd n (length A) g = Some (Inr g)"
  using assms(2) unfolding harmless_pad_def
proof (elim disjE exE conjE)
  assume "z = []"
  then show ?thesis using assms by (intro kde_zeros) (auto simp: nth_append)
next
  fix j assume z: "z = 0xDD # replicate j 0" and j: "j < 7"
  have kd: "kd = A @ 0xDD # replicate (j + k) 0" using assms(1) z by (simp add: replicate_add)
  show ?thesis
  proof (cases "j = 0")
    case True
    then show ?thesis using kd assms(3,4) z by (subst kde_loop.simps) (simp add: rd_def nth_append)
  next
    case False
    have "gtk_kde kd (length A) 0 g = Some (Inr g)"
      using assms(4) by (simp add: gtk_kde_def kd rd_def nth_append equal_memory_def OUI_WPA2_def)
    then have "kde_loop kd n (length A) g = kde_loop kd n (length A + 2) g"
      using False kd assms(3,4) z by (subst kde_loop.simps) (simp add: rd_def nth_append)
    also have "\<dots> = Some (Inr g)"
      using False kd assms(3,4) z by (intro kde_zeros) (auto simp: nth_append nth_Cons split: nat.split)
    finally show ?thesis .
  qed
qed

lemma kde_gtk:
  assumes "kd = A @ WPA_ConstructKdeHdr 1 (2 + L) @ [idx, 0] @ gtk @ B" and "length gtk = unat L" and "L = 16 \<or> L = 32"
    and "idx AND 3 = idx" and "length A + 8 + unat L \<le> n"
  shows "kde_loop kd n (length A) g = kde_loop kd n (length A + 8 + unat L) (move_at (fst g) 0 gtk, L, idx)"
proof -
  have l: "4 + (2 + L) - 6 = L" "unat (4 + (2 + L)) = 6 + unat L" "\<not> L < 5" "unat L \<le> 32" using assms(3) by auto
  have n: "kd ! length A = 0xdd" "kd ! Suc (length A) = 4 + (2 + L)" "kd ! (length A + 5) = 1" "kd ! (length A + 6) = idx"
    by (simp_all add: assms(1) WPA_ConstructKdeHdr_def OUI_WPA2_def nth_append)
  have s: "take 3 (drop (length A + 2) kd) = OUI_WPA2" "slice kd (length A + 8) (unat L) = gtk"
    by (simp_all add: assms(1,2) WPA_ConstructKdeHdr_def OUI_WPA2_def slice_def)
  have len: "length kd = length A + 8 + unat L + length B"
    by (simp add: assms(1,2) WPA_ConstructKdeHdr_def OUI_WPA2_def)
  have "gtk_kde kd (length A) (4 + (2 + L)) g = Some (Inr (move_at (fst g) 0 gtk, L, idx))"
    unfolding gtk_kde_def using n s l len assms(4) by (simp add: rd_def equal_memory_def OUI_WPA2_def numeral_3_eq_3)
  then show ?thesis
    using n l len assms(5) by (subst kde_loop.simps) (simp add: rd_def ac_simps)
qed

text \<open>An information element that the parser of key data skips.\<close>

definition skipped_ie :: "bytes \<Rightarrow> bool" where
  "skipped_ie ie \<longleftrightarrow> ie = [] \<or> (\<exists>e l b. ie = e # l # b \<and> e \<noteq> 0xdd \<and> length b = unat l)"

lemma parse_gtk:
  assumes "skipped_ie ie" and "harmless_pad z" and "length gtk = unat L" and "L = 16 \<or> L = 32" and "idx AND 3 = idx"
    and "P = ie @ WPA_ConstructKdeHdr 1 (2 + L) @ [idx, 0] @ gtk @ z" and "length P \<le> 249"
    and "T = EAPOL_PAIR_MSG_3 \<or> T = EAPOL_GROUP_MSG_1"
  shows "RTMPParseEapolKeyData ad (move_at (replicate 255 0) 0 P) (of_nat (length P)) j T True
    = Some (install_gtk ad (move_at (replicate 32 0) 0 gtk, L, idx))"
proof -
  define kd where "kd = move_at (replicate 255 0) 0 P"
  have h: "length (WPA_ConstructKdeHdr 1 (2 + L)) = 6" by (simp add: WPA_ConstructKdeHdr_def OUI_WPA2_def)
  have k: "kd = P @ replicate (255 - length P) 0" by (simp add: kd_def move_at_def)
  have p: "length P = length ie + 8 + unat L + length z" using h by (simp add: assms(3,6))
  have first: "kde_loop kd (length P) 0 g = kde_loop kd (length P) (length ie) g" for g
    using assms(1) unfolding skipped_ie_def
  proof (elim disjE exE conjE)
    fix e l b assume ie: "ie = e # l # b" "e \<noteq> 0xdd" "length b = unat l"
    then show ?thesis using kde_skip[of 0 kd "length P" g] p by (simp add: k assms(6))
  qed simp
  have "kde_loop kd (length P) (length ie) g = kde_loop kd (length P) (length ie + 8 + unat L) (move_at (fst g) 0 gtk, L, idx)" for g
    using p by (intro kde_gtk[OF _ assms(3,4,5), where B = "z @ replicate (255 - length P) 0"]) (simp_all add: k assms(6))
  moreover have "kde_loop kd (length P) (length ie + 8 + unat L) g = Some (Inr g)" for g
    using kde_pad[of kd "ie @ WPA_ConstructKdeHdr 1 (2 + L) @ [idx, 0] @ gtk" z "255 - length P" "length P" g] assms(2,3,7) h p
    by (simp add: k assms(6) add.assoc)
  ultimately have "kde_loop kd (length P) 0 (replicate 32 0, 0, 0) = Some (Inr (move_at (replicate 32 0) 0 gtk, L, idx))"
    using first by simp
  moreover have "unat (of_nat (length P) :: UINT8) = length P"
    using assms(7) by (simp add: unat_of_nat take_bit_eq_mod)
  ultimately show ?thesis
    using assms(8) by (auto simp: RTMPParseEapolKeyData_def kd_def)
qed

lemma inserted_ie_skipped:
  assumes "slice rsnie 2 3 = OUI_WPA2" and "unat n \<le> length rsnie"
  shows "skipped_ie (RTMPInsertRSNIE rsnie n [] 0)" and "length (RTMPInsertRSNIE rsnie n [] 0) \<le> 2 + unat n"
  using assms by (auto simp: RTMPInsertRSNIE_def skipped_ie_def)

section \<open>Construction of messages\<close>

abbreviation all_mem :: "WPA_AD \<Rightarrow> bool" where
  "all_mem ad \<equiv> (\<forall>s. mem_ok ad s) \<and> (\<forall>n. length (stale ad n) = n)"

definition desc_ver :: "WPA_ENTRY \<Rightarrow> NDIS_802_11_WEP_STATUS \<Rightarrow> UINT8" where
  "desc_ver e gcipher = (if ent_WepStatus e = Ndis802_11Encryption3Enabled \<or> gcipher = Ndis802_11Encryption3Enabled
     then KEY_DESC_AES else KEY_DESC_TKIP)"

lemma wf_zero_frame [simp]: "wf_packet zero_frame"
  by (simp add: wf_packet_def zero_frame_def wf_info_of)

lemma CalculateMIC_ok:
  assumes "mem_ok ad A_mic" and "wf_packet m" and "KeyMic m = replicate 16 0" and "ki_KeyDescVer (KeyInfo m) = ver"
    and "ver = KEY_DESC_TKIP \<or> ver = KEY_DESC_AES" and "CONV_ARRARY_TO_UINT16 (Body_Len m) + 4 \<le> min 512 (99 + length (KeyData m))"
  shows "\<exists>mic. CalculateMIC ad ver ptk m = Some (m\<lparr>KeyMic := mic\<rparr>) \<and> length mic = 16 \<and> mic_valid ptk (m\<lparr>KeyMic := mic\<rparr>)"
proof -
  have l: "CONV_ARRARY_TO_UINT16 (Body_Len m) + 4 \<le> length (packet_bytes m)" using packet_split(1)[OF assms(2)] assms(6) by simp
  have s: "m\<lparr>KeyMic := replicate 16 0\<rparr> = m" using assms(3) by simp
  obtain mic where "eapol_mic ver ptk (take (CONV_ARRARY_TO_UINT16 (Body_Len m) + 4) (packet_bytes m)) = Some mic" "length mic = 16"
    using eapol_mic_defined[OF assms(5), of "take (CONV_ARRARY_TO_UINT16 (Body_Len m) + 4) (packet_bytes m)" ptk] assms(6) by fastforce
  then show ?thesis
    using assms(1,4,6) l s by (auto simp: CalculateMIC_def Let_def mic_valid_def mic_input_def)
qed

text \<open>The fields that every constructed message has, before its nonce, sequence counter and key data are filled in.\<close>

definition base_msg :: "WPA_ENTRY \<Rightarrow> NDIS_802_11_WEP_STATUS \<Rightarrow> nat \<Rightarrow> UINT8 \<Rightarrow> EAPOL_PACKET" where
  "base_msg e gcipher T idx = zero_frame\<lparr>ProVer := 1, ProType := 3, Body_Len := SET_UINT16_TO_ARRARY 95,
     DescType := (if is_wpa2 e then 2 else 254), KeyInfo := set_key_info (is_wpa2 e) (desc_ver e gcipher) T idx (KeyInfo zero_frame),
     KeyLength := set_key_length e gcipher T (KeyLength zero_frame), ReplayCounter := take 8 (R_Counter e)\<rparr>"

lemma set_key_info_wf: "wf_info k \<Longrightarrow> ver AND 7 = ver \<Longrightarrow> wf_info (set_key_info w ver T idx k)"
  by (simp add: wf_info_def set_key_info_def Let_def and.assoc)

lemma desc_ver_mask [simp]: "desc_ver e g AND 7 = desc_ver e g" "desc_ver e g = KEY_DESC_TKIP \<or> desc_ver e g = KEY_DESC_AES"
  by (simp_all add: desc_ver_def)

lemma base_msg_wf: "length (R_Counter e) = 8 \<Longrightarrow> wf_packet (base_msg e g T idx)"
  by (simp add: base_msg_def wf_packet_def zero_frame_def set_key_info_wf wf_info_of set_key_length_def Let_def)

lemma base_msg_fields [simp]:
  "Body_Len (base_msg e g T idx) = SET_UINT16_TO_ARRARY 95" "KeyMic (base_msg e g T idx) = replicate 16 0"
  "KeyData (base_msg e g T idx) = replicate 1401 0" "KeyDataLen (base_msg e g T idx) = [0, 0]"
  "ReplayCounter (base_msg e g T idx) = take 8 (R_Counter e)" "ki_KeyDescVer (KeyInfo (base_msg e g T idx)) = desc_ver e g"
  "ProVer (base_msg e g T idx) = 1" "DescType (base_msg e g T idx) = (if is_wpa2 e then 2 else 254)"
  by (simp_all add: base_msg_def zero_frame_def set_key_info_def Let_def)

lemma zero_mic: "KeyMic m = replicate 16 0 \<Longrightarrow> m\<lparr>KeyMic := replicate 16 0\<rparr> = m"
  by simp

lemma construct_steps:
  "ConstructEapolMsg ad e g T idx pNonce TxRSC GTK RSNIE RSNIE_Len zero_frame = do {
     m \<leftarrow> set_nonce (is_wpa2 e) T pNonce (base_msg e g T idx);
     m \<leftarrow> set_rsc e T TxRSC m;
     m \<leftarrow> ConstructEapolKeyData ad e g (desc_ver e g) T idx GTK RSNIE RSNIE_Len (m\<lparr>KeyMic := replicate 16 0\<rparr>);
     if T = EAPOL_PAIR_MSG_1 then Some m else CalculateMIC ad (desc_ver e g) (PTK e) m }"
  unfolding ConstructEapolMsg_def base_msg_def desc_ver_def Let_def by (rule refl)

lemma answer_ok:
  assumes "all_mem ad" and "length (R_Counter e) = 8" and "T = EAPOL_PAIR_MSG_4 \<or> T = EAPOL_GROUP_MSG_2"
  shows "\<exists>mic. ConstructEapolMsg ad e g T idx None None None None 0 zero_frame = Some ((base_msg e g T idx)\<lparr>KeyMic := mic\<rparr>)
    \<and> length mic = 16 \<and> mic_valid (PTK e) ((base_msg e g T idx)\<lparr>KeyMic := mic\<rparr>)"
proof -
  have "ConstructEapolMsg ad e g T idx None None None None 0 zero_frame = CalculateMIC ad (desc_ver e g) (PTK e) (base_msg e g T idx)"
    unfolding construct_steps using assms(3) by (auto simp: set_nonce_def set_rsc_def gtk_included_def ConstructEapolKeyData_def zero_mic)
  then show ?thesis
    using CalculateMIC_ok[OF _ base_msg_wf[OF assms(2)], of ad g T idx "desc_ver e g" "PTK e"] assms(1) by simp
qed

text \<open>Message 2 carries the security element of the station in clear.\<close>

lemma msg2_ok:
  assumes "all_mem ad" and "length (R_Counter e) = 8" and "length nonce = 32" and "unat n \<le> length rsnie"
  shows "\<exists>f d. ConstructEapolMsg ad e g EAPOL_PAIR_MSG_2 0 (Some nonce) None None (Some rsnie) n zero_frame = Some f
    \<and> wf_packet f \<and> mic_valid (PTK e) f \<and> KeyNonce f = nonce \<and> ReplayCounter f = R_Counter e \<and> KeyInfo f = KeyInfo (base_msg e g 2 0)
    \<and> length d \<le> 2 + unat n \<and> KeyDataLen f = SET_UINT16_TO_ARRARY (length d) \<and> Body_Len f = SET_UINT16_TO_ARRARY (95 + length d)
    \<and> KeyData f = move_at (replicate 1401 0) 0 d"
proof -
  let ?m = "(base_msg e g EAPOL_PAIR_MSG_2 0)\<lparr>KeyNonce := nonce\<rparr>"
  define d where "d = (if n \<noteq> 0 then RTMPInsertRSNIE rsnie n [] 0 else [])"
  have dn: "length d \<le> 2 + unat n" using assms(4) by (simp add: d_def RTMPInsertRSNIE_def Let_def)
  then have dl: "length d \<le> 257" using unsigned_less[where 'a = nat, of n] by simp
  let ?f = "?m\<lparr>KeyData := move_at (replicate 1401 0) 0 d, KeyDataLen := SET_UINT16_TO_ARRARY (length d),
    Body_Len := SET_UINT16_TO_ARRARY (95 + length d)\<rparr>"
  have k: "ConstructEapolKeyData ad e g (desc_ver e g) EAPOL_PAIR_MSG_2 0 None (Some rsnie) n ?m = Some ?f"
  proof -
    have "clear_key_data e g EAPOL_PAIR_MSG_2 0 None (Some rsnie) n = Some d"
      by (simp add: clear_key_data_def gtk_included_def d_def)
    then show ?thesis using dl assms(1) by (simp add: ConstructEapolKeyData_def gtk_included_def)
  qed
  have "ConstructEapolMsg ad e g EAPOL_PAIR_MSG_2 0 (Some nonce) None None (Some rsnie) n zero_frame = CalculateMIC ad (desc_ver e g) (PTK e) ?f"
  proof -
    have "set_nonce (is_wpa2 e) EAPOL_PAIR_MSG_2 (Some nonce) (base_msg e g EAPOL_PAIR_MSG_2 0) = Some ?m" "set_rsc e EAPOL_PAIR_MSG_2 None ?m = Some ?m"
      using assms(3) by (simp_all add: set_nonce_def set_rsc_def gtk_included_def)
    moreover have "?m\<lparr>KeyMic := replicate 16 0\<rparr> = ?m" by (rule zero_mic) simp
    ultimately show ?thesis unfolding construct_steps using k by (simp only: bind.bind_lunit) simp
  qed
  moreover have wf: "wf_packet ?f" using base_msg_wf[OF assms(2)] assms(3) by (simp add: wf_packet_def)
  moreover obtain mic where "CalculateMIC ad (desc_ver e g) (PTK e) ?f = Some (?f\<lparr>KeyMic := mic\<rparr>)" "length mic = 16"
      "mic_valid (PTK e) (?f\<lparr>KeyMic := mic\<rparr>)"
    using CalculateMIC_ok[OF _ wf, of ad "desc_ver e g" "PTK e"] assms(1) dl by auto
  ultimately show ?thesis
    using dn assms(2) by (intro exI[of _ "?f\<lparr>KeyMic := mic\<rparr>"] exI[of _ d]) simp
qed

text \<open>
  Message 3 in WPA2 carries the security element of the sender and the group key, protected with the key encryption key.
\<close>

definition gtk_len :: "NDIS_802_11_WEP_STATUS \<Rightarrow> UINT8" where
  "gtk_len g = (if g = Ndis802_11Encryption3Enabled then 16 else 32)"

definition gtk_data :: "nat \<Rightarrow> NDIS_802_11_WEP_STATUS \<Rightarrow> UINT8 \<Rightarrow> bytes \<Rightarrow> bytes \<Rightarrow> UINT8 \<Rightarrow> bytes" where
  "gtk_data T g idx gtk rsnie n = (if n \<noteq> 0 \<and> T = EAPOL_PAIR_MSG_3 then RTMPInsertRSNIE rsnie n [] 0 else [])
     @ WPA_ConstructKdeHdr 1 (2 + gtk_len g) @ [idx AND 3, 0] @ take (unat (gtk_len g)) gtk"

lemma gtk_data_clear:
  assumes "is_wpa2 e" and "T = EAPOL_PAIR_MSG_3 \<or> T = EAPOL_GROUP_MSG_1" and "unat (gtk_len g) \<le> length gtk"
  shows "clear_key_data e g T idx (Some gtk) (Some rsnie) n = Some (gtk_data T g idx gtk rsnie n)"
  using assms by (auto simp: clear_key_data_def gtk_included_def gtk_data_def gtk_len_def)

lemma gtk_data_length:
  assumes "unat n \<le> length rsnie" and "unat n \<le> 200"
  shows "length (gtk_data T g idx gtk rsnie n) \<le> 242"
  using assms by (simp add: gtk_data_def RTMPInsertRSNIE_def WPA_ConstructKdeHdr_def OUI_WPA2_def gtk_len_def Let_def min_def)

context key_data_cipher
begin

lemma gtk_msg_ok:
  assumes "all_mem ad" and "length (R_Counter e) = 8" and "is_wpa2 e" and "T = EAPOL_PAIR_MSG_3 \<or> T = EAPOL_GROUP_MSG_1"
    and "length nonce = 32" and "length rsc = 6" and "unat (gtk_len g) \<le> length gtk" and "unat n \<le> length rsnie" and "unat n \<le> 200"
    and "desc_ver e g = ver" and d_def: "d = gtk_data T g idx gtk rsnie n"
  shows "\<exists>f. ConstructEapolMsg ad e g T idx (Some nonce) (Some rsc) (Some gtk) (Some rsnie) n zero_frame = Some f
    \<and> wf_packet f \<and> mic_valid (PTK e) f \<and> KeyInfo f = KeyInfo (base_msg e g T idx) \<and> ReplayCounter f = R_Counter e
    \<and> (T = EAPOL_PAIR_MSG_3 \<longrightarrow> KeyNonce f = nonce) \<and> ProVer f = 1 \<and> DescType f = 2
    \<and> length (padded d) \<le> 249 \<and> KeyDataLen f = SET_UINT16_TO_ARRARY (length (padded d) + growth)
    \<and> Body_Len f = SET_UINT16_TO_ARRARY (95 + (length (padded d) + growth))
    \<and> KeyData f = move_at (replicate 1401 0) 0 (wrap_key_data ad e ver (KeyIv f) d)"
proof -
  let ?b = "base_msg e g T idx"
  define m where "m = (if T = EAPOL_PAIR_MSG_3 then ?b\<lparr>KeyNonce := nonce\<rparr> else ?b)"
  define m' where "m' = m\<lparr>KeyRsc := move_at (KeyRsc m) 0 rsc\<rparr>"
  have n: "set_nonce (is_wpa2 e) T (Some nonce) ?b = Some m" using assms(3,4,5) by (auto simp: set_nonce_def m_def)
  have r: "set_rsc e T (Some rsc) m = Some m'" using assms(3,4,6) by (auto simp: set_rsc_def gtk_included_def m'_def)
  have wf: "wf_packet m'" using base_msg_wf[OF assms(2), of g T idx] assms(5,6) by (auto simp: wf_packet_def m_def m'_def move_at_def)
  have fields: "KeyMic m' = replicate 16 0" "KeyData m' = replicate 1401 0" "Body_Len m' = SET_UINT16_TO_ARRARY 95" "KeyInfo m' = KeyInfo ?b"
    "ReplayCounter m' = take 8 (R_Counter e)" "ProVer m' = 1" "DescType m' = 2" "T = EAPOL_PAIR_MSG_3 \<Longrightarrow> KeyNonce m' = nonce"
    using assms(3) by (auto simp: m'_def m_def)
  have dl: "length d \<le> 242" unfolding d_def by (rule gtk_data_length) (use assms(8,9) in auto)
  obtain z where "padded d = d @ z" "harmless_pad z" using padded_ends by blast
  then have pl: "length (padded d) \<le> 249" using dl by (auto simp: harmless_pad_def)
  let ?w = "wrap_key_data ad e ver (KeyIv m') d"
  have wl: "length ?w = length (padded d) + growth" using wrapped_length assms(1) dl by simp
  let ?f = "m'\<lparr>KeyData := move_at (replicate 1401 0) 0 ?w, KeyDataLen := SET_UINT16_TO_ARRARY (length ?w),
    Body_Len := SET_UINT16_TO_ARRARY (95 + length ?w)\<rparr>"
  have "ConstructEapolKeyData ad e g ver T idx (Some gtk) (Some rsnie) n m' = Some ?f"
    using assms(1,3,4) gtk_data_clear[OF assms(3,4,7), of idx rsnie n] wl pl growth fields
    by (auto simp: ConstructEapolKeyData_def d_def[symmetric] gtk_included_def)
  then have c: "ConstructEapolMsg ad e g T idx (Some nonce) (Some rsc) (Some gtk) (Some rsnie) n zero_frame = CalculateMIC ad ver (PTK e) ?f"
    unfolding construct_steps assms(10) using n r zero_mic[OF fields(1)] assms(4) by auto
  have wff: "wf_packet ?f" using wf by (simp add: wf_packet_def)
  obtain mic where "CalculateMIC ad ver (PTK e) ?f = Some (?f\<lparr>KeyMic := mic\<rparr>)" "length mic = 16" "mic_valid (PTK e) (?f\<lparr>KeyMic := mic\<rparr>)"
    using CalculateMIC_ok[OF _ wff, of ad ver "PTK e"] assms(1,10) fields wl pl growth by auto
  then show ?thesis
    using c wff pl wl fields assms(2) by (intro exI[of _ "?f\<lparr>KeyMic := mic\<rparr>"]) simp
qed

end

section \<open>Acceptance\<close>

lemma sanity_valid:
  assumes "sanity_guard ad i m T" and "T \<noteq> EAPOL_PAIR_MSG_1" and "mic_valid (PTK (Stations ad ! i)) m" and "wf_packet m"
    and "CONV_ARRARY_TO_UINT16 (Body_Len m) + 4 \<le> 99 + length (KeyData m)"
  shows "PeerWpaMessageSanity ad i m T = check_key_data ad i (m\<lparr>KeyMic := replicate 16 0\<rparr>) T"
proof -
  have "wf_packet (m\<lparr>KeyMic := replicate 16 0\<rparr>)" using assms(4) by simp
  then show ?thesis
    using assms(3,5) packet_split(1) by (simp add: sanity_passes[OF assms(1,2)] mic_valid_def)
qed

text \<open>The authenticator accepts an answer without key data: its code is right and its counter is that of the request.\<close>

lemma answer_accepted:
  assumes "mem_ok ad A_KEYDATA" and "T = EAPOL_PAIR_MSG_2 \<or> T = EAPOL_PAIR_MSG_4 \<or> T = EAPOL_GROUP_MSG_2"
    and "wf_packet m" and "mic_valid (PTK (Stations ad ! i)) m" and "ReplayCounter m = R_Counter (Stations ad ! i)"
    and "CONV_ARRARY_TO_UINT16 (Body_Len m) + 4 \<le> 99 + length (KeyData m)"
    and "CONV_ARRARY_TO_UINT16 (KeyDataLen m) \<le> min 255 (length (KeyData m))"
  shows "\<exists>m'. PeerWpaMessageSanity ad i m T = Some (True, m', ad)"
proof -
  have "sanity_guard ad i m T" using assms(1,2,5) by (auto simp: sanity_guard_def replay_diff_def)
  then have "PeerWpaMessageSanity ad i m T = check_key_data ad i (m\<lparr>KeyMic := replicate 16 0\<rparr>) T"
    using assms by (intro sanity_valid) auto
  also have "\<exists>m'. \<dots> = Some (True, m', ad)"
    using assms(2,7) by (auto simp: check_key_data_def RTMPParseEapolKeyData_def Let_def)
  finally show ?thesis .
qed

context key_data_cipher
begin

lemma gtk_checked:
  assumes "all_mem ad" and "all_mem s" and "is_wpa2 (Stations s ! i)" and "PTK (Stations s ! i) = PTK e"
    and "T = EAPOL_PAIR_MSG_3 \<or> T = EAPOL_GROUP_MSG_1" and "slice rsnie 2 3 = OUI_WPA2" and "unat n \<le> length rsnie"
    and "unat (gtk_len g) \<le> length gtk" and "d = gtk_data T g idx gtk rsnie n" and "length (padded d) \<le> 249"
    and "ki_KeyDescVer (KeyInfo m) = ver" and "KeyDataLen m = SET_UINT16_TO_ARRARY (length (padded d) + growth)"
    and "KeyData m = wrap_key_data ad e ver (KeyIv m) d @ rest"
  shows "\<exists>m'. check_key_data s i m T
    = Some (True, m', snd (install_gtk s (move_at (replicate 32 0) 0 (take (unat (gtk_len g)) gtk), gtk_len g, idx AND 3)))"
proof -
  let ?ie = "if n \<noteq> 0 \<and> T = EAPOL_PAIR_MSG_3 then RTMPInsertRSNIE rsnie n [] 0 else []"
  let ?g = "(move_at (replicate 32 0) 0 (take (unat (gtk_len g)) gtk), gtk_len g, idx AND 3)"
  let ?m = "m\<lparr>KeyDataLen := SET_UINT16_TO_ARRARY (length (padded d))\<rparr>"
  obtain z where z: "padded d = d @ z" "harmless_pad z" using padded_ends by blast
  have dec: "decrypt_key_data s (Stations s ! i) m = Some (move_at (replicate 255 0) 0 (padded d), ?m)"
    using assms by (intro decrypts[where a = ad and e = e and rest = rest]) auto
  have "skipped_ie ?ie" using inserted_ie_skipped(1)[OF assms(6,7)] by (simp add: skipped_ie_def)
  moreover have "padded d = ?ie @ WPA_ConstructKdeHdr 1 (2 + gtk_len g) @ [idx AND 3, 0] @ take (unat (gtk_len g)) gtk @ z"
    unfolding z(1) by (simp add: assms(9) gtk_data_def)
  ultimately have p: "RTMPParseEapolKeyData s (move_at (replicate 255 0) 0 (padded d)) (of_nat (length (padded d))) 0 T True
      = Some (install_gtk s ?g)"
    using assms(5,8,10) z(2) by (intro parse_gtk[where ie = ?ie and z = z]) (auto simp: gtk_len_def and.assoc)
  have i: "fst (install_gtk s ?g)"
  proof -
    have "idx AND 3 \<le> 3" by (rule word_and_le1)
    then show ?thesis by (simp add: install_gtk_def Let_def not_less)
  qed
  have n: "length (padded d) + growth \<noteq> 0"
    unfolding z(1) by (simp add: assms(9) gtk_data_def WPA_ConstructKdeHdr_def)
  have "check_key_data s i m T = Some (fst (install_gtk s ?g), ?m, snd (install_gtk s ?g))"
    using assms(3,5,10,12) growth n dec p
    by (auto simp: check_key_data_def Let_def split: prod.split)
  then show ?thesis using i by simp
qed

end

text \<open>What the installation of an accepted group key leaves.\<close>

lemma install_gtk_result:
  assumes "length (sta_GTK s) = 32" and "g = Ndis802_11Encryption2Enabled \<or> g = Ndis802_11Encryption3Enabled" and "sta_GroupCipher s = g"
    and "unat (gtk_len g) \<le> length gtk" and "idx \<le> 3"
  shows "snd (install_gtk s (move_at (replicate 32 0) 0 (take (unat (gtk_len g)) gtk), gtk_len g, idx)) =
    (let G = move_at (sta_GTK s) 0 (take (unat (gtk_len g)) gtk); k = fst (group_key g False G (gtk_len g)) in
     wlog_add (AddSharedKey idx k) (s\<lparr>sta_GTK := G, DefaultKeyId := idx, SharedKey := (SharedKey s)[unat idx := k]\<rparr>))"
proof -
  have ok: "snd (group_key g False G (gtk_len g))" for G
    using assms(2) by (auto simp: group_key_def group_alg_def gtk_len_def Let_def)
  have t: "take (unat (gtk_len g)) (move_at (replicate 32 0) 0 (take (unat (gtk_len g)) gtk)) = take (unat (gtk_len g)) gtk"
    using assms(4) by (simp add: move_at_def)
  obtain k where k: "group_key g False (move_at (sta_GTK s) 0 (take (unat (gtk_len g)) gtk)) (gtk_len g) = (k, True)"
    using ok[of "move_at (sta_GTK s) 0 (take (unat (gtk_len g)) gtk)"] by (metis prod.collapse)
  have "\<not> idx > 3" using assms(5) by (simp add: not_less)
  then show ?thesis
    by (simp add: install_gtk_def t WPAInstallSharedKey_def Let_def assms(3) k)
qed

end
