(* ===== verification/Wpa_Handshake.thy ===== *)
theory Wpa_Handshake
  imports Eapol_Exchange Mac_Table Mlme_Queue
begin
text \<open>
  The handlers of the four-way and the group key handshake of \<^verbatim>\<open>common/cmm_wpa.c\<close>, which the WPA state machine calls
  for received EAPOL-Key frames.

  \<^item> A frame is an element of the MLME queue; its buffer holds the 802.11 header (24 bytes), the LLC header (8 bytes) and the
    EAPOL packet, and behind it whatever the buffer held before.
  \<^item> The sender is found in the station table \<open>tab\<close> by \<^verbatim>\<open>MacTableLookup\<close> of \<^verbatim>\<open>Mac_Table\<close>; the handshake fields of
    the entry with that index are in \<open>Stations\<close>.
  \<^item> \<open>None\<close> is an access through NULL or outside an array. Sending hands a frame to the transmit path, recorded as \<open>SendPacket\<close>.
\<close>

section \<open>Sending\<close>

definition MAKE_802_3_HEADER :: "mac_addr \<Rightarrow> mac_addr \<Rightarrow> bytes" where
  "MAKE_802_3_HEADER dst src = take 6 dst @ take 6 src @ [0x88, 0x8E]"

definition RTMPToWirelessSta :: "WPA_AD \<Rightarrow> nat \<Rightarrow> bytes \<Rightarrow> bytes \<Rightarrow> bool \<Rightarrow> WPA_AD" where
  "RTMPToWirelessSta ad i hdr data bClearFrame =
     (let e = Stations ad ! i in
      if \<not> is_client e \<and> \<not> is_apcli e then ad
      else if \<not> mem_ok ad A_packet then ad
      else wlog_add (SendPacket hdr data bClearFrame) ad)"

definition send_eapol :: "WPA_AD \<Rightarrow> nat \<Rightarrow> EAPOL_PACKET \<Rightarrow> bool \<Rightarrow> WPA_AD" where
  "send_eapol ad i f bClearFrame =
     RTMPToWirelessSta ad i (MAKE_802_3_HEADER (ent_Addr (Stations ad ! i)) (own_Addr ad))
       (take (CONV_ARRARY_TO_UINT16 (Body_Len f) + 4) (packet_bytes f)) bClearFrame"

definition STA_PORT_SECURED :: "WPA_AD \<Rightarrow> WPA_AD" where
  "STA_PORT_SECURED ad =
     (let ad = wlog_add MediaConnected (ad\<lparr>sta_PortSecured := 1\<rparr>);
          ad = upd_ent 1 (\<lambda>e. e\<lparr>ent_PortSecured := sta_PortSecured ad, accept_all := True\<rparr>) ad
      in wlog_add CancelLinkDownTimer ad)"

section \<open>Handlers\<close>

abbreviation (input) AS_INITPSK :: nat where "AS_INITPSK \<equiv> 7"
abbreviation (input) AS_PTKSTART :: nat where "AS_PTKSTART \<equiv> 8"
abbreviation (input) AS_PTKINIT_NEGOTIATING :: nat where "AS_PTKINIT_NEGOTIATING \<equiv> 9"
abbreviation (input) AS_PTKINITDONE :: nat where "AS_PTKINITDONE \<equiv> 10"
abbreviation (input) WPA_802_1X_PORT_SECURED :: nat where "WPA_802_1X_PORT_SECURED \<equiv> 1"
abbreviation (input) REKEY_ESTABLISHED :: nat where "REKEY_ESTABLISHED \<equiv> 1"

definition peer_packet :: "MLME_QUEUE_ELEM \<Rightarrow> EAPOL_PACKET option" where
  "peer_packet E = packet_of (drop 32 (Msg E))"

definition PeerPairMsg1Action :: "WPA_AD \<Rightarrow> nat \<Rightarrow> MLME_QUEUE_ELEM \<Rightarrow> WPA_AD option" where
  "PeerPairMsg1Action ad i E =
     (let e = Stations ad ! i in
      if \<not> is_client e \<and> \<not> is_apcli e then Some ad
      else if MsgLen E < 131 then Some ad
      else do {
        m \<leftarrow> peer_packet E;
        (ok, m, ad) \<leftarrow> PeerWpaMessageSanity ad i m EAPOL_PAIR_MSG_1;
        if \<not> ok then Some ad
        else do {
          snonce \<leftarrow> GenRandom (mem_ok ad A_random) (own_Addr ad) (uptime ad);
          let ad = upd_ent i (\<lambda>e. e\<lparr>R_Counter := ReplayCounter m, ANonce := KeyNonce m, SNonce := snonce\<rparr>) ad;
          ptk \<leftarrow> WpaDerivePTK (mem_ok ad A_prf) (sta_PMK ad) (KeyNonce m) (ent_Addr e) snonce (own_Addr ad) (stale ad 80) 64;
          let ad = upd_ent i (\<lambda>e. e\<lparr>PTK := take 64 ptk, WpaState := AS_PTKINIT_NEGOTIATING\<rparr>) ad;
          if \<not> mem_ok ad A_frame then Some ad
          else do {
            f \<leftarrow> ConstructEapolMsg ad (Stations ad ! i) (sta_GroupCipher ad) EAPOL_PAIR_MSG_2 0 (Some snonce) None None
                  (Some (sta_RSN_IE ad)) (sta_RSNIE_Len ad) zero_frame;
            Some (send_eapol ad i f True) } } })"

text \<open>In the build of a station the pointers to the master key and the BSSID stay NULL.\<close>

definition PeerPairMsg2Action :: "WPA_AD \<Rightarrow> nat \<Rightarrow> MLME_QUEUE_ELEM \<Rightarrow> WPA_AD option" where
  "PeerPairMsg2Action ad i E =
     (let e = Stations ad ! i in
      if \<not> is_client e then Some ad
      else if MsgLen E < 131 then Some ad
      else if WpaState e < AS_PTKSTART then Some ad
      else do {
        m \<leftarrow> peer_packet E;
        Some (upd_ent i (\<lambda>e. e\<lparr>SNonce := KeyNonce m\<rparr>) ad) })"

definition PeerPairMsg3Action :: "WPA_AD \<Rightarrow> nat \<Rightarrow> MLME_QUEUE_ELEM \<Rightarrow> WPA_AD option" where
  "PeerPairMsg3Action ad i E =
     (let e = Stations ad ! i in
      if \<not> is_client e \<and> \<not> is_apcli e then Some ad
      else if MsgLen E < 131 then Some ad
      else do {
        m \<leftarrow> peer_packet E;
        (ok, m, ad) \<leftarrow> PeerWpaMessageSanity ad i m EAPOL_PAIR_MSG_3;
        if \<not> ok then Some ad
        else
          let ad = upd_ent i (\<lambda>e. e\<lparr>R_Counter := ReplayCounter m\<rparr>) ad in
          if ANonce e \<noteq> KeyNonce m then Some ad
          else if \<not> mem_ok ad A_frame then Some ad
          else do {
            f \<leftarrow> ConstructEapolMsg ad (Stations ad ! i) (sta_GroupCipher ad) EAPOL_PAIR_MSG_4 0 None None None None 0 zero_frame;
            let ad = upd_ent i (\<lambda>e. e\<lparr>WpaState := AS_PTKINITDONE\<rparr>) ad;
            let ad = WPAInstallPairwiseKey (ad\<lparr>sta_PTK := PTK (Stations ad ! i)\<rparr>) i False;
            let ad = ad\<lparr>SharedKey := (SharedKey ad)[0 := PairwiseKey (Stations ad ! i)]\<rparr>;
            let ad = (if is_wpa2 e
                      then STA_PORT_SECURED (upd_ent i (\<lambda>e. e\<lparr>ent_PortSecured := WPA_802_1X_PORT_SECURED, accept_all := True\<rparr>) ad)
                      else ad);
            Some (send_eapol ad i f True) } })"

text \<open>Again the pointers to the group key, its nonce and the BSSID stay NULL.\<close>

definition WPAStart2WayGroupHS :: "WPA_AD \<Rightarrow> nat \<Rightarrow> WPA_AD option" where
  "WPAStart2WayGroupHS ad i =
     (if \<not> is_client (Stations ad ! i) then Some ad
      else if \<not> mem_ok ad A_frame then Some ad
      else
        let ad = upd_ent i (\<lambda>e. e\<lparr>R_Counter := ADD_ONE_To_64BIT_VAR (R_Counter e)\<rparr>) ad
        in do {
          f \<leftarrow> ConstructEapolMsg ad (Stations ad ! i) Ndis802_11WEPDisabled EAPOL_GROUP_MSG_1 0 None (Some (stale ad 6)) None None 0 zero_frame;
          Some ad })"

definition PeerPairMsg4Action :: "WPA_AD \<Rightarrow> nat \<Rightarrow> MLME_QUEUE_ELEM \<Rightarrow> WPA_AD option" where
  "PeerPairMsg4Action ad i E =
     (let e = Stations ad ! i in
      if \<not> is_client e then Some ad
      else if MsgLen E < 131 then Some ad
      else if WpaState e < AS_PTKINIT_NEGOTIATING then Some ad
      else do {
        m \<leftarrow> peer_packet E;
        (ok, m, ad) \<leftarrow> PeerWpaMessageSanity ad i m EAPOL_PAIR_MSG_4;
        if \<not> ok then Some ad
        else
          let ad = WPAInstallPairwiseKey ad i True;
              ad = upd_ent i (\<lambda>e. e\<lparr>accept_all := True, WpaState := AS_PTKINITDONE, ent_PortSecured := WPA_802_1X_PORT_SECURED\<rparr>) ad
          in if is_wpa2 e then
               Some (wlog_add (WirelessEvent 0x020E (ent_Addr e)) (wlog_add CancelRetryTimer
                 (upd_ent i (\<lambda>e. e\<lparr>GTKState := REKEY_ESTABLISHED\<rparr>) ad)))
             else do {
               ad \<leftarrow> WPAStart2WayGroupHS ad i;
               Some (wlog_add (ModRetryTimer 3000) (upd_ent i (\<lambda>e. e\<lparr>ReTryCounter := 20\<rparr>) ad)) } })"

definition PeerGroupMsg1Action :: "WPA_AD \<Rightarrow> nat \<Rightarrow> MLME_QUEUE_ELEM \<Rightarrow> WPA_AD option" where
  "PeerGroupMsg1Action ad i E =
     (let e = Stations ad ! i; default_key = DefaultKeyId ad in
      if \<not> is_client e \<and> \<not> is_apcli e then Some ad
      else do {
        m \<leftarrow> peer_packet E;
        (ok, m, ad) \<leftarrow> PeerWpaMessageSanity ad i m EAPOL_GROUP_MSG_1;
        if \<not> ok then Some ad
        else
          let ad = upd_ent i (\<lambda>e. e\<lparr>R_Counter := ReplayCounter m\<rparr>) ad in
          if \<not> mem_ok ad A_frame then Some ad
          else do {
            f \<leftarrow> ConstructEapolMsg ad (Stations ad ! i) (sta_GroupCipher ad) EAPOL_GROUP_MSG_2 default_key None None None None 0 zero_frame;
            let ad = STA_PORT_SECURED (upd_ent i (\<lambda>e. e\<lparr>ent_PortSecured := WPA_802_1X_PORT_SECURED, accept_all := True\<rparr>) ad);
            let ad = (if scan_while_connected ad \<and> aux_Channel ad = own_Channel ad then ad\<lparr>aux_Channel := 0\<rparr> else ad);
            Some (send_eapol ad i f False) } })"

definition PeerGroupMsg2Action :: "WPA_AD \<Rightarrow> nat \<Rightarrow> MLME_QUEUE_ELEM \<Rightarrow> WPA_AD option" where
  "PeerGroupMsg2Action ad i E =
     (let e = Stations ad ! i in
      if \<not> is_client e then Some ad
      else if (ucast (MsgLen E - 24) :: UINT32) < 107 then Some ad
      else if WpaState e \<noteq> AS_PTKINITDONE then Some ad
      else do {
        m \<leftarrow> peer_packet E;
        (ok, m, ad) \<leftarrow> PeerWpaMessageSanity ad i m EAPOL_GROUP_MSG_2;
        if \<not> ok then Some ad
        else Some (wlog_add (WirelessEvent (if is_wpa2 e then 0x020E else 0x020D) (ent_Addr e))
               (upd_ent i (\<lambda>e. e\<lparr>GTKState := REKEY_ESTABLISHED\<rparr>) (wlog_add CancelRetryTimer ad))) })"

section \<open>Dispatch\<close>

text \<open>The handler for the key information of a frame.\<close>

definition key_frame_action :: "WPA_AD \<Rightarrow> nat \<Rightarrow> MLME_QUEUE_ELEM \<Rightarrow> EAPOL_PACKET \<Rightarrow> WPA_AD option" where
  "key_frame_action ad i E m =
     (let k = KeyInfo m in
      if ki_KeyAck k then
        if \<not> ki_Secure k \<and> \<not> ki_Request k \<and> \<not> ki_Error k \<and> ki_KeyType k then
          if \<not> ki_KeyMic k then PeerPairMsg1Action ad i E else PeerPairMsg3Action ad i E
        else if ki_Secure k \<and> ki_KeyMic k \<and> \<not> ki_Request k \<and> \<not> ki_Error k then
          if ki_KeyType k then PeerPairMsg3Action ad i E else PeerGroupMsg1Action ad i E
        else Some ad
      else if \<not> ki_Request k \<and> \<not> ki_Error k \<and> ki_KeyMic k then
        if \<not> ki_Secure k \<and> ki_KeyType k then
          if CONV_ARRARY_TO_UINT16 (KeyDataLen m) = 0 then PeerPairMsg4Action ad i E else PeerPairMsg2Action ad i E
        else if ki_Secure k \<and> ki_KeyType k then PeerPairMsg4Action ad i E
        else if ki_Secure k \<and> \<not> ki_KeyType k then PeerGroupMsg2Action ad i E
        else Some ad
      else Some ad)"

definition WpaEAPOLKeyAction :: "RTMP_ADAPTER \<Rightarrow> WPA_AD \<Rightarrow> MLME_QUEUE_ELEM \<Rightarrow> WPA_AD option" where
  "WpaEAPOLKeyAction tab ad E = do {
     m \<leftarrow> peer_packet E;
     let eapol_len = (of_nat (CONV_ARRARY_TO_UINT16 (Body_Len m) + 4) :: ULONG);
     p \<leftarrow> MacTableLookup tab (slice (Msg E) 10 6);
     case p of None \<Rightarrow> Some ad
     | Some i \<Rightarrow>
         let e = Stations ad ! i; ver = ki_KeyDescVer (KeyInfo m) in
         if \<not> is_client e \<and> \<not> is_apcli e then Some ad
         else if auth_code (ent_AuthMode e) < auth_code Ndis802_11AuthModeWPA then Some ad
         else if eapol_len > MsgLen E - 24 - 8 then Some ad
         else if (ProVer m \<noteq> 1 \<and> ProVer m \<noteq> 2) \<or> (DescType m \<noteq> 254 \<and> DescType m \<noteq> 2) then Some ad
         else if ent_WepStatus e = Ndis802_11Encryption2Enabled \<and> ver \<noteq> KEY_DESC_TKIP then Some ad
         else if ent_WepStatus e = Ndis802_11Encryption3Enabled \<and> ver \<noteq> KEY_DESC_AES \<and> ver \<noteq> KEY_DESC_EXT then Some ad
         else if is_assoc e \<and> WpaState e \<ge> AS_INITPSK then key_frame_action ad i E m
         else Some ad }"

text \<open>The checks before the dispatch on the key information.\<close>

definition handshake_peer :: "RTMP_ADAPTER \<Rightarrow> WPA_AD \<Rightarrow> nat \<Rightarrow> MLME_QUEUE_ELEM \<Rightarrow> bool" where
  "handshake_peer tab s i E \<longleftrightarrow> MacTableLookup tab (slice (Msg E) 10 6) = Some (Some i) \<and> i < length (Stations s)
     \<and> is_client (Stations s ! i) \<and> is_assoc (Stations s ! i) \<and> AS_INITPSK \<le> WpaState (Stations s ! i)
     \<and> auth_code Ndis802_11AuthModeWPA \<le> auth_code (ent_AuthMode (Stations s ! i))"

definition ver_matches :: "WPA_ENTRY \<Rightarrow> UINT8 \<Rightarrow> bool" where
  "ver_matches e ver \<longleftrightarrow> (ent_WepStatus e = Ndis802_11Encryption2Enabled \<longrightarrow> ver = KEY_DESC_TKIP)
     \<and> (ent_WepStatus e = Ndis802_11Encryption3Enabled \<longrightarrow> ver = KEY_DESC_AES \<or> ver = KEY_DESC_EXT)"

lemma dispatched:
  assumes "handshake_peer tab s i E" and "peer_packet E = Some p" and "\<not> of_nat (CONV_ARRARY_TO_UINT16 (Body_Len p) + 4) > MsgLen E - 24 - 8"
    and "ProVer p = 1 \<or> ProVer p = 2" and "DescType p = 2 \<or> DescType p = 254" and "ver_matches (Stations s ! i) (ki_KeyDescVer (KeyInfo p))"
  shows "WpaEAPOLKeyAction tab s E = key_frame_action s i E p"
  using assms unfolding WpaEAPOLKeyAction_def handshake_peer_def ver_matches_def by (auto simp: not_less Let_def)


text \<open>A frame is ignored or reaches the handler of its kind.\<close>

lemma key_action_cases:
  assumes "WpaEAPOLKeyAction tab s E = Some s'"
  obtains "s' = s"
  | i m where "MacTableLookup tab (slice (Msg E) 10 6) = Some (Some i)" "peer_packet E = Some m"
      "key_frame_action s i E m = Some s'" "ver_matches (Stations s ! i) (ki_KeyDescVer (KeyInfo m))"
proof -
  obtain m r where m: "peer_packet E = Some m" and r: "MacTableLookup tab (slice (Msg E) 10 6) = Some r"
    using assms(1) unfolding WpaEAPOLKeyAction_def by (auto simp: bind_eq_Some_conv)
  show thesis
  proof (cases r)
    case None
    then show ?thesis using that(1) assms by (simp add: WpaEAPOLKeyAction_def m r)
  next
    case (Some i)
    have "s' = s \<or> key_frame_action s i E m = Some s' \<and> ver_matches (Stations s ! i) (ki_KeyDescVer (KeyInfo m))"
      using assms(1) unfolding WpaEAPOLKeyAction_def ver_matches_def by (auto simp: m r Some Let_def split: if_split_asm)
    then show ?thesis using that m r Some by blast
  qed
qed


section \<open>Keys come from authenticated frames\<close>

lemma key_state_send [simp]: "key_state_of (send_eapol ad i f c) = key_state_of ad"
  by (simp add: send_eapol_def RTMPToWirelessSta_def Let_def)

lemma msg1_keeps_keys:
  assumes "PeerPairMsg1Action ad i E = Some ad'" shows "key_state_of ad' = key_state_of ad"
proof -
  have u: "key_state_of (upd_ent i (\<lambda>e. e\<lparr>R_Counter := c, ANonce := a, SNonce := s\<rparr>) x) = key_state_of x"
    "key_state_of (upd_ent i (\<lambda>e. e\<lparr>PTK := p, WpaState := w\<rparr>) x) = key_state_of x" for c a s p w x
    by (rule key_state_upd; simp)+
  have s: "key_state_of x = key_state_of ad" if "PeerWpaMessageSanity ad i m EAPOL_PAIR_MSG_1 = Some (r, m', x)" for r m m' x
    using sanity_key_state[OF that] by simp
  show ?thesis
    using assms unfolding PeerPairMsg1Action_def Let_def
    by (auto simp: bind_eq_Some_conv u split: if_split_asm dest!: s[unfolded One_nat_def])
qed

lemma msg2_keeps_keys:
  assumes "PeerPairMsg2Action ad i E = Some ad'" shows "key_state_of ad' = key_state_of ad"
proof -
  have "key_state_of (upd_ent i (\<lambda>e. e\<lparr>SNonce := s\<rparr>) ad) = key_state_of ad" for s by (rule key_state_upd; simp)
  then show ?thesis
    using assms unfolding PeerPairMsg2Action_def Let_def by (auto simp: bind_eq_Some_conv split: if_split_asm)
qed

lemma group2_keeps_keys:
  assumes "PeerGroupMsg2Action ad i E = Some ad'" shows "key_state_of ad' = key_state_of ad"
proof -
  have u: "key_state_of (upd_ent i (\<lambda>e. e\<lparr>GTKState := s\<rparr>) x) = key_state_of x" for s x by (rule key_state_upd; simp)
  have s: "key_state_of x = key_state_of ad" if "PeerWpaMessageSanity ad i m EAPOL_GROUP_MSG_2 = Some (r, m', x)" for r m m' x
    using sanity_key_state[OF that] by simp
  show ?thesis
    using assms unfolding PeerGroupMsg2Action_def Let_def
    by (auto simp: bind_eq_Some_conv u split: if_split_asm dest!: s)
qed

text \<open>A handler that checks a message of type \<open>T\<close> and stops when the check fails.\<close>

lemma checked_keys:
  assumes "do { (ok, m, x) \<leftarrow> PeerWpaMessageSanity ad i p T; if \<not> ok then Some x else k m x } = Some ad'"
    and "key_state_of ad' \<noteq> key_state_of ad" and "T \<noteq> EAPOL_PAIR_MSG_1"
  shows "mic_valid (PTK (Stations ad ! i)) p \<and> \<not> replay_diff T (ReplayCounter p) (R_Counter (Stations ad ! i))"
proof -
  obtain r m x where s: "PeerWpaMessageSanity ad i p T = Some (r, m, x)" and k: "(if \<not> r then Some x else k m x) = Some ad'"
    using assms(1) by (auto simp: bind_eq_Some_conv)
  have r
  proof (rule ccontr)
    assume "\<not> r" then show False using sanity_key_state[OF s] k assms(2) by simp
  qed
  then show ?thesis using s sanity_accepts[of ad i p T m x] assms(3) by simp
qed

lemma handler_keys:
  assumes "PeerPairMsg3Action ad i E = Some ad' \<and> T = EAPOL_PAIR_MSG_3 \<or> PeerPairMsg4Action ad i E = Some ad' \<and> T = EAPOL_PAIR_MSG_4
      \<or> PeerGroupMsg1Action ad i E = Some ad' \<and> T = EAPOL_GROUP_MSG_1"
    and "key_state_of ad' \<noteq> key_state_of ad" and "peer_packet E = Some p"
  shows "mic_valid (PTK (Stations ad ! i)) p \<and> \<not> replay_diff T (ReplayCounter p) (R_Counter (Stations ad ! i))"
  using assms(1)
proof (elim disjE conjE)
  assume "PeerPairMsg3Action ad i E = Some ad'" "T = EAPOL_PAIR_MSG_3"
  then show ?thesis
    using assms(2,3) unfolding PeerPairMsg3Action_def Let_def by (intro checked_keys) (auto split: if_split_asm)
next
  assume "PeerPairMsg4Action ad i E = Some ad'" "T = EAPOL_PAIR_MSG_4"
  then show ?thesis
    using assms(2,3) unfolding PeerPairMsg4Action_def Let_def by (intro checked_keys) (auto split: if_split_asm)
next
  assume "PeerGroupMsg1Action ad i E = Some ad'" "T = EAPOL_GROUP_MSG_1"
  then show ?thesis
    using assms(2,3) unfolding PeerGroupMsg1Action_def Let_def by (intro checked_keys) (auto split: if_split_asm)
qed

lemma key_frame_authentic:
  assumes "key_frame_action ad i E p = Some ad'" and "key_state_of ad' \<noteq> key_state_of ad" and "peer_packet E = Some p"
  shows "mic_valid (PTK (Stations ad ! i)) p" and "ki_KeyMic (KeyInfo p)"
    and "if ki_KeyAck (KeyInfo p) then \<not> replay_diff EAPOL_PAIR_MSG_3 (ReplayCounter p) (R_Counter (Stations ad ! i))
      else ReplayCounter p = R_Counter (Stations ad ! i)"
proof -
  have h: "ki_KeyMic (KeyInfo p) \<and> (\<exists>T. (ki_KeyAck (KeyInfo p) \<and> (PeerPairMsg3Action ad i E = Some ad' \<and> T = EAPOL_PAIR_MSG_3
         \<or> PeerGroupMsg1Action ad i E = Some ad' \<and> T = EAPOL_GROUP_MSG_1))
      \<or> (\<not> ki_KeyAck (KeyInfo p) \<and> PeerPairMsg4Action ad i E = Some ad' \<and> T = EAPOL_PAIR_MSG_4))"
    using assms(1,2) msg1_keeps_keys[of ad i E ad'] msg2_keeps_keys[of ad i E ad'] group2_keeps_keys[of ad i E ad']
    unfolding key_frame_action_def Let_def by (auto split: if_split_asm)
  then show "mic_valid (PTK (Stations ad ! i)) p" and "ki_KeyMic (KeyInfo p)"
    using handler_keys[OF _ assms(2,3)] by blast+
  show "if ki_KeyAck (KeyInfo p) then \<not> replay_diff EAPOL_PAIR_MSG_3 (ReplayCounter p) (R_Counter (Stations ad ! i))
      else ReplayCounter p = R_Counter (Stations ad ! i)"
    using h handler_keys[OF _ assms(2,3), of i EAPOL_PAIR_MSG_3] handler_keys[OF _ assms(2,3), of i EAPOL_PAIR_MSG_4]
      handler_keys[OF _ assms(2,3), of i EAPOL_GROUP_MSG_1]
    by (auto simp: replay_diff_def)
qed

section \<open>Well-formed states\<close>

definition wf_key :: "KEY_ENTRY \<Rightarrow> bool" where
  "wf_key k \<longleftrightarrow> length (Key k) = 16 \<and> length (TxMic k) = 8 \<and> length (RxMic k) = 8"

definition wf_entry :: "WPA_ENTRY \<Rightarrow> bool" where
  "wf_entry e \<longleftrightarrow> length (ent_Addr e) = 6 \<and> length (R_Counter e) = 8 \<and> length (ANonce e) = 32 \<and> length (SNonce e) = 32
     \<and> length (PTK e) = 64 \<and> wf_key (PairwiseKey e)"

definition wf_wpa :: "WPA_AD \<Rightarrow> bool" where
  "wf_wpa s \<longleftrightarrow> (\<forall>e \<in> set (Stations s). wf_entry e) \<and> (\<forall>k \<in> set (SharedKey s). wf_key k) \<and> length (SharedKey s) = 4
     \<and> length (own_Addr s) = 6 \<and> length (sta_PMK s) = 32 \<and> length (sta_PTK s) = 64 \<and> length (sta_GTK s) = 32
     \<and> length (sta_RSN_IE s) = 255 \<and> DefaultKeyId s \<le> 3 \<and> (\<forall>n. length (stale s n) = n)"

lemma wf_upd [wf_intros]:
  assumes "wf_wpa s" and "\<And>e. wf_entry e \<Longrightarrow> wf_entry (f e)" shows "wf_wpa (upd_ent i f s)"
proof -
  have "\<forall>e \<in> set ((Stations s)[i := f (Stations s ! i)]). wf_entry e"
  proof (cases "i < length (Stations s)")
    case True
    then have "wf_entry (f (Stations s ! i))" using assms by (simp add: wf_wpa_def)
    moreover have "\<forall>e \<in> set (Stations s). wf_entry e" using assms(1) by (simp add: wf_wpa_def)
    ultimately show ?thesis using set_update_subset_insert[of "Stations s" i "f (Stations s ! i)"] by blast
  qed (use assms(1) in \<open>simp add: wf_wpa_def not_less list_update_beyond\<close>)
  then show ?thesis using assms(1) by (simp add: wf_wpa_def upd_ent_Stations)
qed

lemma wf_log [simp]: "wf_wpa (wlog_add v s) = wf_wpa s"
  by (simp add: wf_wpa_def)

lemma wf_set_wcid [simp]: "wf_wpa (RTMPSetWcidSecurityInfo s k a w b) = wf_wpa s"
  by (simp add: RTMPSetWcidSecurityInfo_def Let_def)

lemma wf_zero_key [simp]: "wf_key zero_key"
  by (simp add: wf_key_def zero_key_def)

lemma wf_group_key: "length G = 32 \<Longrightarrow> wf_key (fst (group_key c b G n))"
proof -
  assume g: "length G = 32"
  have "n = 5 \<or> n = 13 \<Longrightarrow> unat n \<le> 13" by auto
  then show ?thesis using g by (auto simp: group_key_def wf_key_def zero_key_def Let_def)
qed

lemma wf_pairwise_key: "wf_entry e \<Longrightarrow> wf_key (fst (pairwise_key e b))"
  by (auto simp: pairwise_key_def wf_entry_def wf_key_def zero_key_def Let_def)

lemma wf_shared: "wf_wpa s \<Longrightarrow> wf_key k \<Longrightarrow> wf_wpa (s\<lparr>SharedKey := (SharedKey s)[j := k]\<rparr>)"
  using set_update_subset_insert[of "SharedKey s" j k] by (auto simp: wf_wpa_def)

lemma wf_install_gtk:
  assumes "wf_wpa s" and "length G = 32" shows "wf_wpa (snd (install_gtk s (G, n, d)))"
proof (cases "d > 3")
  case False
  define x where "x = s\<lparr>sta_GTK := move_at (sta_GTK s) 0 (take (unat n) G), DefaultKeyId := d\<rparr>"
  have x: "wf_wpa x" using assms False by (simp add: wf_wpa_def x_def not_less)
  then have "length (sta_GTK x) = 32" by (simp add: wf_wpa_def)
  then have k: "wf_wpa (x\<lparr>SharedKey := (SharedKey x)[unat d := fst (group_key c b (sta_GTK x) n)]\<rparr>)" for c b
    using wf_shared[OF x] wf_group_key by blast
  obtain K ok where K: "group_key (sta_GroupCipher x) False (sta_GTK x) n = (K, ok)" by fastforce
  then have "wf_wpa (x\<lparr>SharedKey := (SharedKey x)[unat d := K]\<rparr>)" using k[of "sta_GroupCipher x" False] by simp
  moreover have "snd (install_gtk s (G, n, d)) = WPAInstallSharedKey x (sta_GroupCipher x) d 0 False (sta_GTK x) n"
    using False by (simp add: install_gtk_def Let_def x_def)
  ultimately show ?thesis by (simp add: WPAInstallSharedKey_def K Let_def)
qed (use assms in \<open>simp add: install_gtk_def\<close>)

lemma kde_loop_length: "kde_loop kd n pos g = Some (Inr h) \<Longrightarrow> length (fst g) = 32 \<Longrightarrow> length (fst h) = 32"
proof (induction kd n pos g rule: kde_loop.induct)
  case (1 kd n pos g)
  obtain len where l: "rd kd (pos + 1) = Some len" using "1.prems"(1) by (subst (asm) kde_loop.simps) (auto simp: bind_eq_Some_conv)
  show ?case
  proof (cases "pos + 2 + unat len \<le> n")
    case True
    obtain r where r: "gtk_kde kd pos len g = Some r" using "1.prems"(1) l True by (subst (asm) kde_loop.simps) (auto simp: bind_eq_Some_conv)
    obtain g' where g: "r = Inr g'" using "1.prems"(1) l True r by (subst (asm) kde_loop.simps) (cases r; simp)
    have "length (fst g') = 32"
      using r "1.prems"(2) unfolding g gtk_kde_def by (auto simp: bind_eq_Some_conv Let_def split: if_split_asm)
    moreover have "kde_loop kd n (pos + 2 + unat len) g' = Some (Inr h)"
      using "1.prems"(1) l True r g by (subst (asm) kde_loop.simps) simp
    ultimately show ?thesis using "1.IH"[OF l True r g] by simp
  next
    case False
    then show ?thesis using "1.prems" l by (subst (asm) kde_loop.simps) simp
  qed
qed

lemma wf_parse:
  assumes "RTMPParseEapolKeyData s kd n j T w = Some (r, s')" and "wf_wpa s" shows "wf_wpa s'"
proof -
  have i: "wf_wpa s'" if "install_gtk s g = (r, s')" "length (fst g) = 32" for g
    using wf_install_gtk[OF assms(2), of "fst g" "fst (snd g)" "snd (snd g)"] that by simp
  consider "s' = s" | g where "kde_loop kd (unat n) 0 (replicate 32 0, 0, 0) = Some (Inr g)" "install_gtk s g = (r, s')"
    | g where "length (fst g) = 32" "install_gtk s g = (r, s')"
  proof -
    have c: "(case y of Inl x \<Rightarrow> Some (False, s) | Inr g \<Rightarrow> Some (install_gtk s g)) = Some (r, s')
      \<longleftrightarrow> (isl y \<and> \<not> r \<and> s' = s) \<or> (\<exists>g. y = Inr g \<and> install_gtk s g = (r, s'))" for y :: "unit + gtk_info"
      by (cases y) auto
    show thesis if "s' = s \<Longrightarrow> thesis" "\<And>g. kde_loop kd (unat n) 0 (replicate 32 0, 0, 0) = Some (Inr g) \<Longrightarrow> install_gtk s g = (r, s') \<Longrightarrow> thesis"
        "\<And>g. length (fst g) = 32 \<Longrightarrow> install_gtk s g = (r, s') \<Longrightarrow> thesis"
      using assms(1) that(1,2) that(3)[of "(replicate 32 0, 0, 0)"] that(3)[of "(move_at (replicate 32 0) 0 (take (unat n) kd), n, j)"]
      unfolding RTMPParseEapolKeyData_def by (auto simp: bind_eq_Some_conv c split: if_split_asm)
  qed
  then show ?thesis
    by cases (use assms(2) i kde_loop_length in \<open>auto dest: kde_loop_length\<close>)
qed

lemma wf_check:
  assumes "check_key_data s i m T = Some (r, m', s')" and "wf_wpa s" shows "wf_wpa s'"
  using assms wf_parse unfolding check_key_data_def
  by (auto simp: Let_def bind_eq_Some_conv split: if_split_asm prod.splits)

lemma wf_sanity:
  assumes "PeerWpaMessageSanity s i m T = Some (r, m', s')" and "wf_wpa s" shows "wf_wpa s'"
proof (cases r)
  case True
  show ?thesis
  proof (cases "T = EAPOL_PAIR_MSG_1")
    case False
    then have "check_key_data s i (m\<lparr>KeyMic := replicate 16 0\<rparr>) T = Some (True, m', s')" using sanity_accepts(3) assms(1) True by simp
    then show ?thesis using wf_check assms(2) by blast
  next
    case one: True
    then show ?thesis using sanity_accepts_frame(4)[of s i m T m' s'] assms True by simp
  qed
next
  case False
  then show ?thesis using sanity_rejects[of s i m T m' s'] assms by auto
qed


lemma PRF_length: "PRF ok key A B out len = Some r \<Longrightarrow> length key + 64 \<le> 2 ^ 32 \<Longrightarrow> length r = length out"
  using PRF_blocks[of key A B out len]
  by (cases ok; cases "length A + length B + 2 \<le> 1024") (auto simp: PRF_def[of False] split: if_split_asm simp flip: not_le simp: PRF_def[of True])

lemma gen_random_length: "gen_random_loop ok a now is x = Some r \<Longrightarrow> length r = length x"
  by (induction "is" arbitrary: x) (auto simp: bind_eq_Some_conv dest: PRF_length)

lemma GenRandom_any_length: "GenRandom ok a now = Some r \<Longrightarrow> length r = 32"
  unfolding GenRandom_def using gen_random_length by (force simp del: upt_Suc)

lemma WpaDerivePTK_length: "WpaDerivePTK ok PMK A AA S SA out n = Some r \<Longrightarrow> length r = length out"
  unfolding WpaDerivePTK_def by (erule PRF_length) simp

lemma wf_send [simp]: "wf_wpa (send_eapol s i f c) = wf_wpa s"
  by (simp add: send_eapol_def RTMPToWirelessSta_def Let_def)

lemma wf_port [wf_intros]: "wf_wpa s \<Longrightarrow> wf_wpa (STA_PORT_SECURED s)"
proof -
  assume "wf_wpa s"
  then have "wf_wpa (wlog_add MediaConnected (s\<lparr>sta_PortSecured := 1\<rparr>))" unfolding wf_log by (simp add: wf_wpa_def)
  then show ?thesis unfolding STA_PORT_SECURED_def Let_def by (simp only: wf_log[of CancelLinkDownTimer], intro wf_upd) (simp_all add: wf_entry_def)
qed

lemma wf_install_pairwise [wf_intros]: "wf_wpa s \<Longrightarrow> i < length (Stations s) \<Longrightarrow> wf_wpa (WPAInstallPairwiseKey s i b)"
proof -
  assume s: "wf_wpa s" and i: "i < length (Stations s)"
  obtain k ok where k: "pairwise_key (Stations s ! i) b = (k, ok)" by fastforce
  have "wf_key k" using wf_pairwise_key[of "Stations s ! i" b] s i k by (simp add: wf_wpa_def)
  then have "wf_wpa (upd_ent i (\<lambda>e. e\<lparr>PairwiseKey := k\<rparr>) s)" using s by (intro wf_upd) (simp_all add: wf_entry_def)
  then show ?thesis by (simp add: WPAInstallPairwiseKey_def k Let_def)
qed

lemma peer_packet_wf: "peer_packet E = Some m \<Longrightarrow> length (ReplayCounter m) = 8 \<and> length (KeyNonce m) = 32"
  using bytes_of_packet(1) by (auto simp: peer_packet_def wf_packet_def)

lemma sanity_lengths:
  assumes "peer_packet E = Some m" and "PeerWpaMessageSanity s i m T = Some (True, m', s')"
  shows "length (ReplayCounter m') = 8" and "length (KeyNonce m') = 32" and "length (Stations s') = length (Stations s)"
  using sanity_accepts_frame(1-3)[OF assms(2)] peer_packet_wf[OF assms(1)] same_but_gtk_fields[of s s'] by simp_all

lemma checked_wf:
  assumes "do { (ok, m, x) \<leftarrow> PeerWpaMessageSanity s i p T; if \<not> ok then Some x else k m x } = Some s'"
    and "peer_packet E = Some p" and "wf_wpa s"
    and "\<And>m x. wf_wpa x \<Longrightarrow> length (ReplayCounter m) = 8 \<Longrightarrow> length (KeyNonce m) = 32 \<Longrightarrow> length (Stations x) = length (Stations s) \<Longrightarrow>
      k m x = Some s' \<Longrightarrow> wf_wpa s'"
  shows "wf_wpa s'"
proof -
  obtain r m x where s: "PeerWpaMessageSanity s i p T = Some (r, m, x)" and k: "(if \<not> r then Some x else k m x) = Some s'"
    using assms(1) by (auto simp: bind_eq_Some_conv)
  show ?thesis
  proof (cases r)
    case True
    then show ?thesis using assms(4)[OF wf_sanity[OF s assms(3)] sanity_lengths[OF assms(2)]] s k by simp
  next
    case False
    then show ?thesis using wf_sanity[OF s assms(3)] k by simp
  qed
qed

lemma wf_msg1:
  assumes "PeerPairMsg1Action s i E = Some s'" and "wf_wpa s" and "peer_packet E = Some p" shows "wf_wpa s'"
proof -
  have u: "wf_wpa (upd_ent i (\<lambda>e. e\<lparr>PTK := take 64 ptk, WpaState := w\<rparr>)
      (upd_ent i (\<lambda>e. e\<lparr>R_Counter := c, ANonce := a, SNonce := sn\<rparr>) x))"
    if "wf_wpa x" "length ptk = length (stale x 80)" "length sn = 32" "length c = 8" "length a = 32" for x ptk sn c a w
  proof -
    have "length ptk = 80" using that(1,2) by (simp add: wf_wpa_def)
    then show ?thesis using that by (intro wf_upd) (simp_all add: wf_entry_def)
  qed
  show ?thesis
  proof (cases "(\<not> is_client (Stations s ! i) \<and> \<not> is_apcli (Stations s ! i)) \<or> MsgLen E < 131")
    case False
    then have g: "(\<not> is_client (Stations s ! i) \<and> \<not> is_apcli (Stations s ! i)) = False" "(MsgLen E < 131) = False" by auto
    note run = assms(1)[unfolded PeerPairMsg1Action_def Let_def g if_False]
    show ?thesis
      by (rule checked_wf[OF run[unfolded assms(3) bind.simps] assms(3,2)])
        (auto simp: bind_eq_Some_conv intro!: u split: if_split_asm dest!: GenRandom_any_length WpaDerivePTK_length)
  qed (use assms in \<open>auto simp: PeerPairMsg1Action_def Let_def split: if_split_asm\<close>)
qed

lemma wf_msg2:
  assumes "PeerPairMsg2Action s i E = Some s'" and "wf_wpa s" shows "wf_wpa s'"
  using assms peer_packet_wf
  by (auto simp: PeerPairMsg2Action_def Let_def bind_eq_Some_conv wf_entry_def split: if_split_asm intro!: wf_upd)

lemma wf_group2:
  assumes "PeerGroupMsg2Action s i E = Some s'" and "wf_wpa s" and "peer_packet E = Some p" shows "wf_wpa s'"
proof (cases "\<not> is_client (Stations s ! i) \<or> (ucast (MsgLen E - 24) :: UINT32) < 107 \<or> WpaState (Stations s ! i) \<noteq> AS_PTKINITDONE")
  case False
  then have g: "(\<not> is_client (Stations s ! i)) = False" "((ucast (MsgLen E - 24) :: UINT32) < 107) = False"
    "(WpaState (Stations s ! i) \<noteq> AS_PTKINITDONE) = False" by auto
  note run = assms(1)[unfolded PeerGroupMsg2Action_def Let_def g if_False]
  show ?thesis
    by (rule checked_wf[OF run[unfolded assms(3) bind.simps] assms(3,2)]) (auto simp: wf_entry_def intro!: wf_upd)
qed (use assms in \<open>auto simp: PeerGroupMsg2Action_def Let_def split: if_split_asm\<close>)


lemma wf_group1:
  assumes "PeerGroupMsg1Action s i E = Some s'" and "wf_wpa s" and "peer_packet E = Some p" shows "wf_wpa s'"
proof -
  have u: "wf_wpa (STA_PORT_SECURED (upd_ent i (\<lambda>e. e\<lparr>ent_PortSecured := Suc 0, accept_all := True\<rparr>) (upd_ent i (\<lambda>e. e\<lparr>R_Counter := c\<rparr>) x)))"
    "wf_wpa (upd_ent i (\<lambda>e. e\<lparr>R_Counter := c\<rparr>) x)"
    if "wf_wpa x" "length c = 8" for x c
    using that by (auto simp: wf_entry_def intro!: wf_port wf_upd)
  have aux: "wf_wpa (x\<lparr>aux_Channel := 0\<rparr>) = wf_wpa x" for x by (simp add: wf_wpa_def)
  show ?thesis
  proof (cases "\<not> is_client (Stations s ! i) \<and> \<not> is_apcli (Stations s ! i)")
    case False
    then have g: "(\<not> is_client (Stations s ! i) \<and> \<not> is_apcli (Stations s ! i)) = False" by auto
    note run = assms(1)[unfolded PeerGroupMsg1Action_def Let_def g if_False]
    show ?thesis
      by (rule checked_wf[OF run[unfolded assms(3) bind.simps] assms(3,2)])
        (auto simp: bind_eq_Some_conv aux intro!: u split: if_split_asm)
  qed (use assms in \<open>auto simp: PeerGroupMsg1Action_def Let_def split: if_split_asm\<close>)
qed

lemma install_pairwise_length [simp]: "length (Stations (WPAInstallPairwiseKey s i b)) = length (Stations s)"
proof -
  have "Stations (RTMPSetWcidSecurityInfo x k a w p) = Stations x" for x k a w p by (simp add: RTMPSetWcidSecurityInfo_def Let_def)
  then show ?thesis by (cases "pairwise_key (Stations s ! i) b") (simp add: WPAInstallPairwiseKey_def Let_def)
qed

lemma wf_finish3:
  assumes "wf_wpa x" and "length c = 8" and "i < length (Stations x)"
  defines "y \<equiv> WPAInstallPairwiseKey (upd_ent i (\<lambda>e. e\<lparr>WpaState := 10\<rparr>) (upd_ent i (\<lambda>e. e\<lparr>R_Counter := c\<rparr>) x)
    \<lparr>sta_PTK := PTK (Stations (upd_ent i (\<lambda>e. e\<lparr>WpaState := 10\<rparr>) (upd_ent i (\<lambda>e. e\<lparr>R_Counter := c\<rparr>) x)) ! i)\<rparr>) i False"
  shows "wf_wpa (y\<lparr>SharedKey := (SharedKey y)[0 := PairwiseKey (Stations y ! i)]\<rparr>)"
proof -
  define u where "u = upd_ent i (\<lambda>e. e\<lparr>WpaState := 10\<rparr>) (upd_ent i (\<lambda>e. e\<lparr>R_Counter := c\<rparr>) x)"
  have u: "wf_wpa u" "i < length (Stations u)" using assms(1-3) by (auto simp: u_def wf_entry_def intro!: wf_upd)
  have "wf_wpa (u\<lparr>sta_PTK := PTK (Stations u ! i)\<rparr>)" using u by (simp add: wf_wpa_def wf_entry_def)
  then have y: "wf_wpa y" using u(2) by (simp add: y_def u_def wf_install_pairwise)
  have "i < length (Stations y)" using u(2) by (simp add: y_def u_def)
  then have "wf_key (PairwiseKey (Stations y ! i))" using y by (simp add: wf_wpa_def wf_entry_def)
  then show ?thesis using wf_shared y by blast
qed


lemma wf_msg3:
  assumes "PeerPairMsg3Action s i E = Some s'" and "wf_wpa s" and "peer_packet E = Some p" and "i < length (Stations s)" shows "wf_wpa s'"
proof -
  have r: "wf_wpa (upd_ent i (\<lambda>e. e\<lparr>R_Counter := c\<rparr>) x)" if "wf_wpa x" "length c = 8" for x c
    using that by (auto simp: wf_entry_def intro!: wf_upd)
  have o: "wf_wpa (STA_PORT_SECURED (upd_ent i (\<lambda>e. e\<lparr>ent_PortSecured := Suc 0, accept_all := True\<rparr>) x))" if "wf_wpa x" for x
    using that by (auto simp: wf_entry_def intro!: wf_port wf_upd)
  show ?thesis
  proof (cases "(\<not> is_client (Stations s ! i) \<and> \<not> is_apcli (Stations s ! i)) \<or> MsgLen E < 131")
    case False
    then have g: "(\<not> is_client (Stations s ! i) \<and> \<not> is_apcli (Stations s ! i)) = False" "(MsgLen E < 131) = False" by auto
    note run = assms(1)[unfolded PeerPairMsg3Action_def Let_def g if_False]
    show ?thesis
      by (rule checked_wf[OF run[unfolded assms(3) bind.simps] assms(3,2)])
        (use assms(4) in \<open>auto simp: bind_eq_Some_conv intro!: r o wf_finish3 split: if_split_asm\<close>)
  qed (use assms in \<open>auto simp: PeerPairMsg3Action_def Let_def split: if_split_asm\<close>)
qed

lemma add_one_length: "length (ADD_ONE_To_64BIT_VAR c) = length c"
proof -
  have "length (add_one_rev r) = length r" for r by (induction r rule: add_one_rev.induct) simp_all
  then show ?thesis by (simp add: ADD_ONE_To_64BIT_VAR_def)
qed

lemma wf_start_group: "WPAStart2WayGroupHS s i = Some s' \<Longrightarrow> wf_wpa s \<Longrightarrow> wf_wpa s'"
  unfolding WPAStart2WayGroupHS_def
  by (auto simp: Let_def bind_eq_Some_conv wf_entry_def add_one_length split: if_split_asm intro!: wf_upd)

lemma wf_msg4:
  assumes "PeerPairMsg4Action s i E = Some s'" and "wf_wpa s" and "peer_packet E = Some p" and "i < length (Stations s)" shows "wf_wpa s'"
proof -
  have u: "wf_wpa (upd_ent i (\<lambda>e. e\<lparr>accept_all := True, WpaState := 10, ent_PortSecured := Suc 0\<rparr>) (WPAInstallPairwiseKey x i True))"
    if "wf_wpa x" "length (Stations x) = length (Stations s)" for x
    using that assms(4) by (auto simp: wf_entry_def intro!: wf_upd wf_install_pairwise)
  have k: "wf_wpa (upd_ent i (\<lambda>e. e\<lparr>GTKState := v\<rparr>) x)" "wf_wpa (upd_ent i (\<lambda>e. e\<lparr>ReTryCounter := w\<rparr>) x)" if "wf_wpa x" for v w x
    using that by (auto simp: wf_entry_def intro!: wf_upd)
  show ?thesis
  proof (cases "\<not> is_client (Stations s ! i) \<or> MsgLen E < 131 \<or> WpaState (Stations s ! i) < 9")
    case False
    then have g: "(\<not> is_client (Stations s ! i)) = False" "(MsgLen E < 131) = False" "(WpaState (Stations s ! i) < 9) = False" by auto
    note run = assms(1)[unfolded PeerPairMsg4Action_def Let_def g if_False]
    show ?thesis
      by (rule checked_wf[OF run[unfolded assms(3) bind.simps] assms(3,2)])
        (auto simp: bind_eq_Some_conv intro!: k u dest!: wf_start_group split: if_split_asm)
  qed (use assms in \<open>auto simp: PeerPairMsg4Action_def Let_def split: if_split_asm\<close>)
qed

text \<open>A key frame is handled by one of the six handlers or ignored.\<close>

lemma key_frame_handlers:
  obtains "key_frame_action s i E m = Some s" | "key_frame_action s i E m = PeerPairMsg1Action s i E" | "key_frame_action s i E m = PeerPairMsg2Action s i E"
  | "key_frame_action s i E m = PeerPairMsg3Action s i E" | "key_frame_action s i E m = PeerPairMsg4Action s i E"
  | "key_frame_action s i E m = PeerGroupMsg1Action s i E" | "key_frame_action s i E m = PeerGroupMsg2Action s i E"
proof -
  have if2: "(if c then a else b) \<in> A" if "a \<in> A" "b \<in> A" for c and a b :: "WPA_AD option" and A using that by simp
  have "key_frame_action s i E m \<in> {Some s, PeerPairMsg1Action s i E, PeerPairMsg2Action s i E, PeerPairMsg3Action s i E, PeerPairMsg4Action s i E,
      PeerGroupMsg1Action s i E, PeerGroupMsg2Action s i E}"
    unfolding key_frame_action_def Let_def by (intro if2) simp_all
  then show thesis using that by blast
qed

lemma wf_key_frame:
  assumes "key_frame_action s i E m = Some s'" and "wf_wpa s" and "peer_packet E = Some p" and "i < length (Stations s)" shows "wf_wpa s'"
  using key_frame_handlers[of s i E m] wf_msg1[OF _ assms(2,3)] wf_msg2[OF _ assms(2)] wf_msg3[OF _ assms(2-4)] wf_msg4[OF _ assms(2-4)]
    wf_group1[OF _ assms(2,3)] wf_group2[OF _ assms(2,3)] assms(1,2)
  by (metis option.inject)

end
