(* ===== verification/Wpa_Fourway.thy ===== *)
theory Wpa_Fourway
  imports Wpa_Handshake
begin

text \<open>
  What the handlers of \<^verbatim>\<open>Wpa_Handshake\<close> do in a handshake: the effect of messages 1 and 3 of the four-way handshake when the
  authenticator builds them as the driver itself does, what any frame at all can do to the keys, the weak points of the exchange,
  and a concrete handshake that shows that the hypotheses can hold.
\<close>

section \<open>Delivery\<close>

text \<open>A frame in the MLME queue that carries an EAPOL message, and the peer that it comes from.\<close>

definition delivered :: "MLME_QUEUE_ELEM \<Rightarrow> EAPOL_PACKET \<Rightarrow> bool" where
  "delivered E f \<longleftrightarrow> MsgLen E = of_nat (32 + length (sent_bytes f)) \<and> (\<exists>rest. drop 32 (Msg E) = sent_bytes f @ rest)"

definition received_as :: "EAPOL_PACKET \<Rightarrow> EAPOL_PACKET \<Rightarrow> bool" where
  "received_as f p \<longleftrightarrow> (\<exists>rest. p = f\<lparr>KeyData := take (CONV_ARRARY_TO_UINT16 (Body_Len f) + 4 - 99) (KeyData f) @ rest\<rparr>)"

lemma delivered_packet:
  assumes "delivered E f" and "wf_packet f" and "95 \<le> CONV_ARRARY_TO_UINT16 (Body_Len f)" and "CONV_ARRARY_TO_UINT16 (Body_Len f) \<le> 95 + length (KeyData f)"
    and "length (KeyData f) = 1401"
  shows "\<exists>p. peer_packet E = Some p \<and> received_as f p \<and> wf_packet p \<and> (\<forall>ptk. mic_valid ptk p = mic_valid ptk f)
    \<and> \<not> MsgLen E < 131 \<and> \<not> of_nat (CONV_ARRARY_TO_UINT16 (Body_Len p) + 4) > MsgLen E - 24 - 8
    \<and> CONV_ARRARY_TO_UINT16 (Body_Len p) + 4 \<le> 99 + length (KeyData p)"
proof -
  define n where "n = CONV_ARRARY_TO_UINT16 (Body_Len f) + 4"
  obtain rest where r: "drop 32 (Msg E) = sent_bytes f @ rest" using assms(1) by (auto simp: delivered_def)
  note p = packet_received[OF assms(2) n_def]
  have n: "99 \<le> n" "n \<le> 99 + length (KeyData f)" "n \<le> 1500" using assms(3,4,5) by (simp_all add: n_def)
  have l: "MsgLen E = of_nat (32 + n)" using assms(1) p(3)[OF n(1,2)] by (simp add: delivered_def)
  have u: "unat (of_nat (32 + n) :: ULONG) = 32 + n" using n(3) by (simp add: unsigned_of_nat take_bit_nat_eq_self del: of_nat_add)
  have "\<not> MsgLen E < 131" unfolding l word_less_nat_alt u using n(1) by simp
  moreover have "MsgLen E - 24 - 8 = of_nat n" unfolding l by simp
  moreover define p where "p = f\<lparr>KeyData := take (n - 99) (KeyData f) @ rest\<rparr>"
  moreover have "peer_packet E = Some p" unfolding peer_packet_def r p_def by (rule p(1)[OF n(1,2)])
  moreover have "received_as f p" unfolding received_as_def p_def n_def by (rule exI[of _ rest]) simp
  moreover have "Body_Len p = Body_Len f" "length (KeyData p) = n - 99 + length rest" "wf_packet p" using n assms(2) by (simp_all add: p_def)
  moreover have "mic_valid ptk p = mic_valid ptk f" for ptk unfolding p_def by (rule p(2)[OF n(1,2)])
  ultimately show ?thesis
    using n by (intro exI[of _ p]) (simp add: n_def add.commute)
qed

section \<open>Message 3\<close>

lemma send_fields [simp]:
  "Stations (send_eapol ad i f c) = Stations ad" "sta_PTK (send_eapol ad i f c) = sta_PTK ad" "sta_GTK (send_eapol ad i f c) = sta_GTK ad"
  "DefaultKeyId (send_eapol ad i f c) = DefaultKeyId ad" "SharedKey (send_eapol ad i f c) = SharedKey ad"
  "sta_PortSecured (send_eapol ad i f c) = sta_PortSecured ad"
  by (simp_all add: send_eapol_def RTMPToWirelessSta_def Let_def)

lemma send_log:
  assumes "is_client (Stations ad ! i)" and "mem_ok ad A_packet"
  shows "wlog (send_eapol ad i f c)
    = SendPacket (MAKE_802_3_HEADER (ent_Addr (Stations ad ! i)) (own_Addr ad)) (sent_bytes f) c # wlog ad"
  using assms by (simp add: send_eapol_def RTMPToWirelessSta_def sent_bytes_def Let_def)

lemma port_fields [simp]:
  "sta_PTK (STA_PORT_SECURED ad) = sta_PTK ad" "sta_GTK (STA_PORT_SECURED ad) = sta_GTK ad" "DefaultKeyId (STA_PORT_SECURED ad) = DefaultKeyId ad"
  "SharedKey (STA_PORT_SECURED ad) = SharedKey ad" "sta_PortSecured (STA_PORT_SECURED ad) = 1" "mem_ok (STA_PORT_SECURED ad) = mem_ok ad"
  "own_Addr (STA_PORT_SECURED ad) = own_Addr ad" "wlog (STA_PORT_SECURED ad) = CancelLinkDownTimer # MediaConnected # wlog ad"
  "Stations (STA_PORT_SECURED ad) = (Stations ad)[1 := (Stations ad ! 1)\<lparr>ent_PortSecured := 1, accept_all := True\<rparr>]"
  by (simp_all add: STA_PORT_SECURED_def Let_def upd_ent_Stations)

lemma pairwise_key_cong: "PTK e = PTK e' \<Longrightarrow> ent_WepStatus e = ent_WepStatus e' \<Longrightarrow> pairwise_key e b = pairwise_key e' b"
  by (simp add: pairwise_key_def Let_def)

lemma install_pairwise_result:
  assumes "ent_WepStatus (Stations s ! i) = Ndis802_11Encryption2Enabled \<or> ent_WepStatus (Stations s ! i) = Ndis802_11Encryption3Enabled"
    and "k = fst (pairwise_key (Stations s ! i) b)"
  shows "WPAInstallPairwiseKey s i b = wlog_add (UpdateWcidAttribute 0 (CipherAlg k) (ent_Aid (Stations s ! i)) False)
      (wlog_add (UpdateWCIDIVEIV (ent_Aid (Stations s ! i)) 0x20000001)
      (wlog_add (AddPairwiseKey (ent_Aid (Stations s ! i)) k) (upd_ent i (\<lambda>e. e\<lparr>PairwiseKey := k\<rparr>) s)))"
proof -
  have "pairwise_key (Stations s ! i) b = (k, True)" "CipherAlg k = 3 \<or> CipherAlg k = 4"
    using assms by (auto simp: pairwise_key_def Let_def zero_key_def)
  then show ?thesis
    by (auto simp: WPAInstallPairwiseKey_def RTMPSetWcidSecurityInfo_def Let_def)
qed

text \<open>The state after message 3 has been checked: keys installed, port open, message 4 sent.\<close>

lemma msg3_finishes:
  assumes "i < length (Stations s)" and "is_client (Stations s ! i)" and "\<not> MsgLen E < 131" and "peer_packet E = Some p" and "all_mem s"
    and "PeerWpaMessageSanity s i p EAPOL_PAIR_MSG_3 = Some (True, p', x)" and "ANonce (Stations s ! i) = KeyNonce p"
    and "is_wpa2 (Stations s ! i)" and "length (ReplayCounter p) = 8"
    and "ent_WepStatus (Stations s ! i) = Ndis802_11Encryption2Enabled \<or> ent_WepStatus (Stations s ! i) = Ndis802_11Encryption3Enabled"
  shows "\<exists>s' f. PeerPairMsg3Action s i E = Some s'
    \<and> PairwiseKey (Stations s' ! i) = fst (pairwise_key (Stations s ! i) False) \<and> sta_PTK s' = PTK (Stations s ! i)
    \<and> WpaState (Stations s' ! i) = AS_PTKINITDONE \<and> ent_PortSecured (Stations s' ! i) = 1 \<and> sta_PortSecured s' = 1
    \<and> R_Counter (Stations s' ! i) = ReplayCounter p
    \<and> sta_GTK s' = sta_GTK x \<and> DefaultKeyId s' = DefaultKeyId x
    \<and> SharedKey s' = (SharedKey x)[0 := fst (pairwise_key (Stations s ! i) False)]
    \<and> wlog s' = SendPacket (MAKE_802_3_HEADER (ent_Addr (Stations s ! i)) (own_Addr s)) (sent_bytes f) True # CancelLinkDownTimer # MediaConnected
        # UpdateWcidAttribute 0 (CipherAlg (fst (pairwise_key (Stations s ! i) False))) (ent_Aid (Stations s ! i)) False
        # UpdateWCIDIVEIV (ent_Aid (Stations s ! i)) 0x20000001
        # AddPairwiseKey (ent_Aid (Stations s ! i)) (fst (pairwise_key (Stations s ! i) False)) # wlog x
    \<and> wf_packet f \<and> mic_valid (PTK (Stations s ! i)) f \<and> ReplayCounter f = ReplayCounter p
    \<and> KeyInfo f = KeyInfo (base_msg (Stations s ! i) (sta_GroupCipher s) EAPOL_PAIR_MSG_4 0)
    \<and> Body_Len f = SET_UINT16_TO_ARRARY 95 \<and> KeyDataLen f = [0, 0] \<and> length (KeyData f) = 1401"
proof -
  let ?e = "Stations s ! i"
  note fr = sanity_accepts_frame[OF assms(6)]
  note sf = same_but_gtk_fields[OF fr(1)]
  let ?x = "upd_ent i (\<lambda>e. e\<lparr>R_Counter := ReplayCounter p\<rparr>) x"
  have e: "Stations ?x ! i = ?e\<lparr>R_Counter := ReplayCounter p\<rparr>" using assms(1) sf by (simp add: upd_ent_Stations)
  obtain mic where f: "ConstructEapolMsg ?x (Stations ?x ! i) (sta_GroupCipher ?x) EAPOL_PAIR_MSG_4 0 None None None None 0 zero_frame
      = Some ((base_msg (Stations ?x ! i) (sta_GroupCipher ?x) EAPOL_PAIR_MSG_4 0)\<lparr>KeyMic := mic\<rparr>)" "length mic = 16"
    "mic_valid (PTK (Stations ?x ! i)) ((base_msg (Stations ?x ! i) (sta_GroupCipher ?x) EAPOL_PAIR_MSG_4 0)\<lparr>KeyMic := mic\<rparr>)"
    using answer_ok[of ?x "Stations ?x ! i" EAPOL_PAIR_MSG_4 "sta_GroupCipher ?x" 0] assms(5,9) sf e by auto
  let ?f = "(base_msg (Stations ?x ! i) (sta_GroupCipher ?x) EAPOL_PAIR_MSG_4 0)\<lparr>KeyMic := mic\<rparr>"
  let ?y = "upd_ent i (\<lambda>e. e\<lparr>WpaState := AS_PTKINITDONE\<rparr>) ?x"
  let ?y1 = "?y\<lparr>sta_PTK := PTK (Stations ?y ! i)\<rparr>"
  define k where "k = fst (pairwise_key ?e False)"
  have y: "Stations ?y1 ! i = ?e\<lparr>R_Counter := ReplayCounter p, WpaState := AS_PTKINITDONE\<rparr>"
    using assms(1) sf by (simp add: upd_ent_Stations)
  have k: "k = fst (pairwise_key (Stations ?y1 ! i) False)"
    unfolding k_def y by (rule arg_cong[of _ _ fst], rule pairwise_key_cong) simp_all
  have w: "ent_WepStatus (Stations ?y1 ! i) = Ndis802_11Encryption2Enabled \<or> ent_WepStatus (Stations ?y1 ! i) = Ndis802_11Encryption3Enabled"
    using assms(10) unfolding y by simp
  note inst = install_pairwise_result[OF w k]
  let ?z = "WPAInstallPairwiseKey ?y1 i False"
  let ?z1 = "?z\<lparr>SharedKey := (SharedKey ?z)[0 := PairwiseKey (Stations ?z ! i)]\<rparr>"
  let ?s = "send_eapol (STA_PORT_SECURED (upd_ent i (\<lambda>e. e\<lparr>ent_PortSecured := WPA_802_1X_PORT_SECURED, accept_all := True\<rparr>) ?z1)) i ?f True"
  have run: "PeerPairMsg3Action s i E = Some ?s"
    using assms(2,3,5,7,8) fr(2,3) f(1) sf by (simp add: PeerPairMsg3Action_def assms(4,6) Let_def)
  have i: "i < length (Stations x)" using assms(1) sf by simp
  have zf: "Stations ?z = (Stations x)[i := ?e\<lparr>R_Counter := ReplayCounter p, WpaState := AS_PTKINITDONE, PairwiseKey := k\<rparr>]"
    "sta_PTK ?z = PTK ?e" "sta_GTK ?z = sta_GTK x" "DefaultKeyId ?z = DefaultKeyId x" "SharedKey ?z = SharedKey x"
    "own_Addr ?z = own_Addr s" "mem_ok ?z = mem_ok s"
    "wlog ?z = UpdateWcidAttribute 0 (CipherAlg k) (ent_Aid ?e) False # UpdateWCIDIVEIV (ent_Aid ?e) 0x20000001 # AddPairwiseKey (ent_Aid ?e) k # wlog x"
    unfolding inst using i sf by (simp_all add: upd_ent_Stations)
  define z where "z = ?z"
  note zf = zf[folded z_def]
  have s: "?s = send_eapol (STA_PORT_SECURED (upd_ent i (\<lambda>e. e\<lparr>ent_PortSecured := WPA_802_1X_PORT_SECURED, accept_all := True\<rparr>)
      (z\<lparr>SharedKey := (SharedKey z)[0 := PairwiseKey (Stations z ! i)]\<rparr>))) i ?f True" by (simp only: z_def)
  have st: "Stations ?s ! i = ?e\<lparr>R_Counter := ReplayCounter p, WpaState := AS_PTKINITDONE, PairwiseKey := k,
      ent_PortSecured := 1, accept_all := True\<rparr>"
    unfolding s using i by (simp add: zf upd_ent_Stations nth_list_update)
  have log: "wlog ?s = SendPacket (MAKE_802_3_HEADER (ent_Addr ?e) (own_Addr s)) (sent_bytes ?f) True # CancelLinkDownTimer # MediaConnected
        # UpdateWcidAttribute 0 (CipherAlg k) (ent_Aid ?e) False # UpdateWCIDIVEIV (ent_Aid ?e) 0x20000001
        # AddPairwiseKey (ent_Aid ?e) k # wlog x"
    unfolding s using i assms(2,5) by (subst send_log) (auto simp: zf upd_ent_Stations nth_list_update)
  have sh: "sta_PTK ?s = PTK ?e" "sta_PortSecured ?s = 1" "sta_GTK ?s = sta_GTK x" "DefaultKeyId ?s = DefaultKeyId x" "SharedKey ?s = (SharedKey x)[0 := k]"
    unfolding s using i by (simp_all add: zf)
  have info: "KeyInfo ?f = KeyInfo (base_msg ?e (sta_GroupCipher s) EAPOL_PAIR_MSG_4 0)"
    using sf by (simp add: e base_msg_def desc_ver_def is_wpa2_def)
  have wf: "wf_packet ?f" using f(2) e assms(9) by (intro wf_packet_updates(2) base_msg_wf) simp_all
  have fs: "mic_valid (PTK ?e) ?f" "ReplayCounter ?f = ReplayCounter p" "Body_Len ?f = SET_UINT16_TO_ARRARY 95" "KeyDataLen ?f = [0, 0]"
      "length (KeyData ?f) = 1401"
    using f(3) assms(9) by (simp_all add: e)
  show ?thesis
    using run st log sh fs info wf unfolding k_def by (intro exI[of _ ?s] exI[of _ ?f]) simp
qed


context key_data_cipher
begin

lemma msg3_accepted:
  assumes "all_mem a" and "all_mem s" and "handshake_peer tab s i E" and "delivered E f"
    and "ConstructEapolMsg a e (ent_WepStatus e) EAPOL_PAIR_MSG_3 idx (Some nonce) (Some rsc) (Some gtk) (Some rsnie) n zero_frame = Some f"
    and "length (R_Counter e) = 8" and "is_wpa2 e" and "length nonce = 32" and "length rsc = 6" and "unat (gtk_len (ent_WepStatus e)) \<le> length gtk"
    and "slice rsnie 2 3 = OUI_WPA2" and "unat n \<le> length rsnie" and "unat n \<le> 200" and "desc_ver e (ent_WepStatus e) = ver"
    and "ent_WepStatus (Stations s ! i) = ent_WepStatus e" and "ent_AuthMode (Stations s ! i) = ent_AuthMode e" and "PTK (Stations s ! i) = PTK e"
    and "length (R_Counter (Stations s ! i)) = 8" and "be_val (R_Counter (Stations s ! i)) < be_val (R_Counter e)"
  shows "\<exists>p p'. peer_packet E = Some p \<and> WpaEAPOLKeyAction tab s E = PeerPairMsg3Action s i E \<and> \<not> MsgLen E < 131
    \<and> KeyNonce p = nonce \<and> ReplayCounter p = R_Counter e
    \<and> PeerWpaMessageSanity s i p EAPOL_PAIR_MSG_3 = Some (True, p', snd (install_gtk s
        (move_at (replicate 32 0) 0 (take (unat (gtk_len (ent_WepStatus e))) gtk), gtk_len (ent_WepStatus e), idx AND 3)))"
proof -
  define d where "d = gtk_data EAPOL_PAIR_MSG_3 (ent_WepStatus e) idx gtk rsnie n"
  let ?l = "length (padded d) + growth"
  from gtk_msg_ok[OF assms(1,6,7) _ assms(8,9,10,12,13,14) d_def] assms(5)
  have f: "wf_packet f" "mic_valid (PTK e) f" "KeyInfo f = KeyInfo (base_msg e (ent_WepStatus e) EAPOL_PAIR_MSG_3 idx)" "ReplayCounter f = R_Counter e"
    "KeyNonce f = nonce" "ProVer f = 1" "DescType f = 2" "length (padded d) \<le> 249" "KeyDataLen f = SET_UINT16_TO_ARRARY ?l"
    "Body_Len f = SET_UINT16_TO_ARRARY (95 + ?l)" "KeyData f = move_at (replicate 1401 0) 0 (wrap_key_data a e ver (KeyIv f) d)"
    by auto
  have wl: "length (wrap_key_data a e ver (KeyIv f) d) = ?l"
  proof -
    have "length d \<le> 242" unfolding d_def by (rule gtk_data_length[OF assms(12,13)])
    then show ?thesis using wrapped_length[of a d e "KeyIv f"] assms(1) by simp
  qed
  have b: "CONV_ARRARY_TO_UINT16 (Body_Len f) = 95 + ?l" using f(8,10) growth by simp
  have kd: "length (KeyData f) = 1401" using f(8,11) wl growth by simp
  obtain p where p: "peer_packet E = Some p" "received_as f p" "wf_packet p" "\<And>ptk. mic_valid ptk p = mic_valid ptk f" "\<not> MsgLen E < 131"
    "\<not> of_nat (CONV_ARRARY_TO_UINT16 (Body_Len p) + 4) > MsgLen E - 24 - 8" "CONV_ARRARY_TO_UINT16 (Body_Len p) + 4 \<le> 99 + length (KeyData p)"
    using delivered_packet[OF assms(4) f(1)] b kd f(8) growth by auto
  obtain rest where r: "p = f\<lparr>KeyData := take ?l (KeyData f) @ rest\<rparr>" using p(2) b by (auto simp: received_as_def)
  have kp: "KeyData p = wrap_key_data a e ver (KeyIv p) d @ rest" using wl by (simp add: r f(11) move_at_def)
  have info: "KeyInfo p = set_key_info True ver EAPOL_PAIR_MSG_3 idx (key_info_of 0 0)"
    using assms(7,14) by (simp add: r f(3) base_msg_def zero_frame_def)
  have g: "sanity_guard s i p EAPOL_PAIR_MSG_3"
    using assms(2,6,18,19) by (simp add: sanity_guard_def replay_diff_value r f(4))
  have "is_wpa2 (Stations s ! i)" using assms(7,16) by (simp add: is_wpa2_def)
  then obtain p' where "check_key_data s i (p\<lparr>KeyMic := replicate 16 0\<rparr>) EAPOL_PAIR_MSG_3 = Some (True, p', snd (install_gtk s
        (move_at (replicate 32 0) 0 (take (unat (gtk_len (ent_WepStatus e))) gtk), gtk_len (ent_WepStatus e), idx AND 3)))"
    using gtk_checked[OF assms(1,2) _ assms(17) _ assms(11,12,10) d_def f(8), where m = "p\<lparr>KeyMic := replicate 16 0\<rparr>" and rest = rest]
      info kp f(9) by (auto simp: r set_key_info_def Let_def)
  then have s: "PeerWpaMessageSanity s i p EAPOL_PAIR_MSG_3 = Some (True, p', snd (install_gtk s
        (move_at (replicate 32 0) 0 (take (unat (gtk_len (ent_WepStatus e))) gtk), gtk_len (ent_WepStatus e), idx AND 3)))"
    using sanity_valid[OF g] p(3,4,7) f(2) assms(17) by simp
  have "ver_matches (Stations s ! i) (ki_KeyDescVer (KeyInfo p))"
    using assms(14,15) by (auto simp: ver_matches_def info set_key_info_def Let_def desc_ver_def)
  then have "WpaEAPOLKeyAction tab s E = key_frame_action s i E p"
    using dispatched[OF assms(3) p(1,6)] by (simp add: r f(6,7))
  also have "\<dots> = PeerPairMsg3Action s i E"
    by (simp add: key_frame_action_def info set_key_info_def Let_def key_info_of_def)
  finally show ?thesis using p(1,5) s by (intro exI[of _ p] exI[of _ p']) (simp add: r f(4,5))
qed

end

text \<open>The authenticator of WPA2 that sends message 3, and the station that expects it.\<close>

definition sends_msg3 :: "WPA_AD \<Rightarrow> WPA_ENTRY \<Rightarrow> UINT8 \<Rightarrow> bytes \<Rightarrow> bytes \<Rightarrow> bytes \<Rightarrow> bytes \<Rightarrow> UINT8 \<Rightarrow> EAPOL_PACKET \<Rightarrow> bool" where
  "sends_msg3 a e idx nonce rsc gtk rsnie n f \<longleftrightarrow>
     all_mem a \<and> is_wpa2 e \<and> (ent_WepStatus e = Ndis802_11Encryption2Enabled \<or> ent_WepStatus e = Ndis802_11Encryption3Enabled)
     \<and> length (R_Counter e) = 8 \<and> length nonce = 32 \<and> length rsc = 6 \<and> length gtk = 32
     \<and> slice rsnie 2 3 = OUI_WPA2 \<and> unat n \<le> length rsnie \<and> unat n \<le> 200
     \<and> ConstructEapolMsg a e (ent_WepStatus e) EAPOL_PAIR_MSG_3 idx (Some nonce) (Some rsc) (Some gtk) (Some rsnie) n zero_frame = Some f"

definition expects_msg3 :: "RTMP_ADAPTER \<Rightarrow> WPA_AD \<Rightarrow> nat \<Rightarrow> MLME_QUEUE_ELEM \<Rightarrow> WPA_ENTRY \<Rightarrow> bytes \<Rightarrow> bool" where
  "expects_msg3 tab s i E e nonce \<longleftrightarrow> (let x = Stations s ! i in
     all_mem s \<and> handshake_peer tab s i E \<and> ent_WepStatus x = ent_WepStatus e \<and> ent_AuthMode x = ent_AuthMode e \<and> PTK x = PTK e
     \<and> ANonce x = nonce \<and> length (R_Counter x) = 8 \<and> be_val (R_Counter x) < be_val (R_Counter e)
     \<and> sta_GroupCipher s = ent_WepStatus e \<and> length (sta_GTK s) = 32 \<and> length (SharedKey s) = 4)"

lemma gtk_len_le: "unat (gtk_len g) \<le> 32" "16 \<le> unat (gtk_len g)"
  by (simp_all add: gtk_len_def)

lemma msg3_run:
  assumes "sends_msg3 a e idx nonce rsc gtk rsnie n f" and "expects_msg3 tab s i E e nonce" and "delivered E f"
  shows "\<exists>p p'. peer_packet E = Some p \<and> WpaEAPOLKeyAction tab s E = PeerPairMsg3Action s i E \<and> \<not> MsgLen E < 131
    \<and> KeyNonce p = nonce \<and> ReplayCounter p = R_Counter e
    \<and> PeerWpaMessageSanity s i p EAPOL_PAIR_MSG_3 = Some (True, p', snd (install_gtk s
        (move_at (replicate 32 0) 0 (take (unat (gtk_len (ent_WepStatus e))) gtk), gtk_len (ent_WepStatus e), idx AND 3)))"
proof -
  have L: "unat (gtk_len (ent_WepStatus e)) \<le> length gtk" using assms(1) gtk_len_le by (simp add: sends_msg3_def)
  consider "desc_ver e (ent_WepStatus e) = KEY_DESC_AES" | "desc_ver e (ent_WepStatus e) = KEY_DESC_TKIP" using desc_ver_mask(2) by blast
  then show ?thesis
  proof cases
    case 1
    show ?thesis
      by (rule aes_data.msg3_accepted[OF _ _ _ assms(3) _ _ _ _ _ L _ _ _ 1])
        (use assms(1,2) in \<open>auto simp: sends_msg3_def expects_msg3_def Let_def\<close>)
  next
    case 2
    show ?thesis
      by (rule arc4_data.msg3_accepted[OF _ _ _ assms(3) _ _ _ _ _ L _ _ _ 2])
        (use assms(1,2) in \<open>auto simp: sends_msg3_def expects_msg3_def Let_def\<close>)
  qed
qed

lemma idx_mask: "(idx AND 3 :: UINT8) \<le> 3"
  by (rule word_and_le1)

lemma msg3_effect:
  assumes "sends_msg3 a e idx nonce rsc gtk rsnie n f" and "expects_msg3 tab s i E e nonce" and "delivered E f"
  defines "k \<equiv> fst (pairwise_key e False)" and "j \<equiv> idx AND 3" and "L \<equiv> unat (gtk_len (ent_WepStatus e))"
  shows "\<exists>s' f4. WpaEAPOLKeyAction tab s E = Some s' \<and> PairwiseKey (Stations s' ! i) = k
    \<and> WpaState (Stations s' ! i) = AS_PTKINITDONE \<and> ent_PortSecured (Stations s' ! i) = 1 \<and> sta_PortSecured s' = 1
    \<and> R_Counter (Stations s' ! i) = R_Counter e \<and> take L (sta_GTK s') = take L gtk \<and> DefaultKeyId s' = j
    \<and> (j \<noteq> 0 \<longrightarrow> SharedKey s' ! unat j = fst (group_key (ent_WepStatus e) False (sta_GTK s') (gtk_len (ent_WepStatus e))))
    \<and> (\<exists>new. wlog s' = SendPacket (MAKE_802_3_HEADER (ent_Addr (Stations s ! i)) (own_Addr s)) (sent_bytes f4) True # new @ wlog s
          \<and> UpdateWCIDIVEIV (ent_Aid (Stations s ! i)) 0x20000001 \<in> set new \<and> AddPairwiseKey (ent_Aid (Stations s ! i)) k \<in> set new
          \<and> (\<exists>K. AddSharedKey j K \<in> set new))
    \<and> wf_packet f4 \<and> mic_valid (PTK e) f4 \<and> ReplayCounter f4 = R_Counter e
    \<and> Body_Len f4 = SET_UINT16_TO_ARRARY 95 \<and> KeyDataLen f4 = [0, 0] \<and> length (KeyData f4) = 1401"
proof -
  obtain p p' where p: "peer_packet E = Some p" "WpaEAPOLKeyAction tab s E = PeerPairMsg3Action s i E" "\<not> MsgLen E < 131"
    "KeyNonce p = nonce" "ReplayCounter p = R_Counter e" "PeerWpaMessageSanity s i p EAPOL_PAIR_MSG_3 = Some (True, p', snd (install_gtk s
        (move_at (replicate 32 0) 0 (take L gtk), gtk_len (ent_WepStatus e), j)))"
    using msg3_run[OF assms(1-3)] unfolding L_def j_def by blast
  let ?x = "snd (install_gtk s (move_at (replicate 32 0) 0 (take L gtk), gtk_len (ent_WepStatus e), j))"
  let ?G = "move_at (sta_GTK s) 0 (take L gtk)"
  let ?K = "fst (group_key (ent_WepStatus e) False ?G (gtk_len (ent_WepStatus e)))"
  have st: "all_mem s" "i < length (Stations s)" "is_client (Stations s ! i)" "ANonce (Stations s ! i) = nonce" "PTK (Stations s ! i) = PTK e"
    "ent_WepStatus (Stations s ! i) = ent_WepStatus e" "is_wpa2 (Stations s ! i)" "length (R_Counter e) = 8" "length gtk = 32"
    "length (sta_GTK s) = 32" "sta_GroupCipher s = ent_WepStatus e" "length (SharedKey s) = 4"
    "ent_WepStatus e = Ndis802_11Encryption2Enabled \<or> ent_WepStatus e = Ndis802_11Encryption3Enabled"
    using assms(1,2) by (auto simp: sends_msg3_def expects_msg3_def handshake_peer_def Let_def is_wpa2_def)
  have k: "fst (pairwise_key (Stations s ! i) False) = k" unfolding k_def using pairwise_key_cong[of "Stations s ! i" e] st(5,6) by simp
  have x: "?x = wlog_add (AddSharedKey j ?K) (s\<lparr>sta_GTK := ?G, DefaultKeyId := j, SharedKey := (SharedKey s)[unat j := ?K]\<rparr>)"
    unfolding L_def using install_gtk_result[of s "ent_WepStatus e" gtk j] st gtk_len_le idx_mask[of idx] by (simp add: j_def Let_def)
  have j: "unat j < 4" using idx_mask[of idx] by (simp add: j_def word_le_nat_alt)
  have t: "take L ?G = take L gtk" using st(9) gtk_len_le(1)[of "ent_WepStatus e"] by (simp add: move_at_def L_def)
  have an: "ANonce (Stations s ! i) = KeyNonce p" "length (ReplayCounter p) = 8"
      "ent_WepStatus (Stations s ! i) = Ndis802_11Encryption2Enabled \<or> ent_WepStatus (Stations s ! i) = Ndis802_11Encryption3Enabled"
    using st p(4,5) by simp_all
  obtain s' f4 where r: "PeerPairMsg3Action s i E = Some s'" "PairwiseKey (Stations s' ! i) = k" "WpaState (Stations s' ! i) = AS_PTKINITDONE"
    "ent_PortSecured (Stations s' ! i) = 1" "sta_PortSecured s' = 1" "R_Counter (Stations s' ! i) = R_Counter e"
    "sta_GTK s' = sta_GTK ?x" "DefaultKeyId s' = DefaultKeyId ?x" "SharedKey s' = (SharedKey ?x)[0 := k]"
    "wlog s' = SendPacket (MAKE_802_3_HEADER (ent_Addr (Stations s ! i)) (own_Addr s)) (sent_bytes f4) True # CancelLinkDownTimer # MediaConnected
        # UpdateWcidAttribute 0 (CipherAlg k) (ent_Aid (Stations s ! i)) False # UpdateWCIDIVEIV (ent_Aid (Stations s ! i)) 0x20000001
        # AddPairwiseKey (ent_Aid (Stations s ! i)) k # wlog ?x"
    and f4: "wf_packet f4" "mic_valid (PTK e) f4" "ReplayCounter f4 = R_Counter e" "Body_Len f4 = SET_UINT16_TO_ARRARY 95" "KeyDataLen f4 = [0, 0]"
    "length (KeyData f4) = 1401"
    using msg3_finishes[OF st(2,3) p(3,1) st(1) p(6) an(1) st(7) an(2,3)] unfolding k st(5) p(5) by blast
  have "SharedKey s' ! unat j = ?K" if "j \<noteq> 0" using that j st(12) by (simp add: r(9) x unat_eq_0)
  moreover have "wlog s' = SendPacket (MAKE_802_3_HEADER (ent_Addr (Stations s ! i)) (own_Addr s)) (sent_bytes f4) True # [CancelLinkDownTimer, MediaConnected,
        UpdateWcidAttribute 0 (CipherAlg k) (ent_Aid (Stations s ! i)) False, UpdateWCIDIVEIV (ent_Aid (Stations s ! i)) 0x20000001,
        AddPairwiseKey (ent_Aid (Stations s ! i)) k, AddSharedKey j ?K] @ wlog s"
    unfolding r(10) x by simp
  moreover have "sta_GTK s' = ?G" "DefaultKeyId s' = j" unfolding r(7,8) x by simp_all
  ultimately show ?thesis
    using r(1-6) f4 t p(2) by (intro exI[of _ s'] exI[of _ f4] conjI exI) (assumption | simp)+
qed


section \<open>Message 1\<close>

definition is_msg1 :: "EAPOL_PACKET \<Rightarrow> bool" where
  "is_msg1 p \<longleftrightarrow> (let k = KeyInfo p in ki_KeyAck k \<and> \<not> ki_KeyMic k \<and> \<not> ki_Secure k \<and> \<not> ki_Request k \<and> \<not> ki_Error k \<and> ki_KeyType k)
     \<and> (ProVer p = 1 \<or> ProVer p = 2) \<and> (DescType p = 2 \<or> DescType p = 254)"

definition receives_msg1 :: "RTMP_ADAPTER \<Rightarrow> WPA_AD \<Rightarrow> nat \<Rightarrow> MLME_QUEUE_ELEM \<Rightarrow> EAPOL_PACKET \<Rightarrow> bool" where
  "receives_msg1 tab s i E p \<longleftrightarrow> handshake_peer tab s i E \<and> peer_packet E = Some p \<and> is_msg1 p \<and> \<not> MsgLen E < 131
     \<and> \<not> of_nat (CONV_ARRARY_TO_UINT16 (Body_Len p) + 4) > MsgLen E - 24 - 8 \<and> ver_matches (Stations s ! i) (ki_KeyDescVer (KeyInfo p))
     \<and> length (R_Counter (Stations s ! i)) = 8
     \<and> (be_val (R_Counter (Stations s ! i)) < be_val (ReplayCounter p) \<or> ReplayCounter p = replicate 8 0)"

lemma msg1_run:
  assumes "receives_msg1 tab s i E p" and "mem_ok s A_KEYDATA"
  shows "WpaEAPOLKeyAction tab s E = PeerPairMsg1Action s i E" and "PeerWpaMessageSanity s i p EAPOL_PAIR_MSG_1 = Some (True, p, s)"
    and "length (ReplayCounter p) = 8" and "length (KeyNonce p) = 32"
proof -
  show l: "length (ReplayCounter p) = 8" "length (KeyNonce p) = 32"
    using assms(1) bytes_of_packet(1) by (auto simp: receives_msg1_def peer_packet_def wf_packet_def)
  have "WpaEAPOLKeyAction tab s E = key_frame_action s i E p"
    using assms(1) by (intro dispatched) (auto simp: receives_msg1_def is_msg1_def)
  also have "\<dots> = PeerPairMsg1Action s i E"
    using assms(1) by (simp add: receives_msg1_def is_msg1_def key_frame_action_def Let_def)
  finally show "WpaEAPOLKeyAction tab s E = PeerPairMsg1Action s i E" .
  show "PeerWpaMessageSanity s i p EAPOL_PAIR_MSG_1 = Some (True, p, s)"
    using assms l by (intro sanity_msg1) (auto simp: sanity_guard_def receives_msg1_def replay_diff_value)
qed

lemma msg1_effect:
  assumes "receives_msg1 tab s i E p" and "all_mem s" and "length (own_Addr s) = 6" and "length (ent_Addr (Stations s ! i)) = 6"
    and "length (sta_PMK s) = 32" and "unat (sta_RSNIE_Len s) \<le> length (sta_RSN_IE s)"
  shows "\<exists>s' f n snonce ptk. WpaEAPOLKeyAction tab s E = Some s' \<and> length snonce = 32
    \<and> WpaDerivePTK True (sta_PMK s) (KeyNonce p) (ent_Addr (Stations s ! i)) snonce (own_Addr s) (stale s 80) 64 = Some ptk
    \<and> length ptk = 80
    \<and> Stations s' = (Stations s)[i := (Stations s ! i)\<lparr>R_Counter := ReplayCounter p, ANonce := KeyNonce p, SNonce := snonce, PTK := take 64 ptk,
         WpaState := AS_PTKINIT_NEGOTIATING\<rparr>]
    \<and> wlog s' = SendPacket (MAKE_802_3_HEADER (ent_Addr (Stations s ! i)) (own_Addr s)) (sent_bytes f) True # wlog s
    \<and> wf_packet f \<and> mic_valid (take 64 ptk) f \<and> KeyNonce f = snonce \<and> ReplayCounter f = ReplayCounter p
    \<and> n \<le> 2 + unat (sta_RSNIE_Len s) \<and> KeyDataLen f = SET_UINT16_TO_ARRARY n \<and> Body_Len f = SET_UINT16_TO_ARRARY (95 + n)
    \<and> length (KeyData f) = 1401"
proof -
  let ?e = "Stations s ! i"
  have m: "mem_ok s A_KEYDATA" using assms(2) by simp
  note run = msg1_run[OF assms(1) m]
  have hp: "i < length (Stations s)" "is_client ?e" "peer_packet E = Some p" "\<not> MsgLen E < 131"
    using assms(1) by (auto simp: receives_msg1_def handshake_peer_def)
  obtain snonce where sn: "GenRandom True (own_Addr s) (uptime s) = Some snonce" "length snonce = 32" using GenRandom_length[OF assms(3)] by blast
  obtain ptk where ptk: "WpaDerivePTK True (sta_PMK s) (KeyNonce p) (ent_Addr ?e) snonce (own_Addr s) (stale s 80) 64 = Some ptk" "length ptk = 80"
  proof -
    have "length (ptk_concatenation (KeyNonce p) (ent_Addr ?e) snonce (own_Addr s)) = 76"
      using assms(3,4) run(4) sn(2) by (simp add: ptk_concatenation_def Let_def)
    then show ?thesis using that assms(2,5) unfolding WpaDerivePTK_def by (simp add: PRF_blocks ascii_def)
  qed
  define ad1 where "ad1 = upd_ent i (\<lambda>e. e\<lparr>R_Counter := ReplayCounter p, ANonce := KeyNonce p, SNonce := snonce\<rparr>) s"
  define ad2 where "ad2 = upd_ent i (\<lambda>e. e\<lparr>PTK := take 64 ptk, WpaState := AS_PTKINIT_NEGOTIATING\<rparr>) ad1"
  have e2: "Stations ad2 = (Stations s)[i := ?e\<lparr>R_Counter := ReplayCounter p, ANonce := KeyNonce p, SNonce := snonce, PTK := take 64 ptk,
         WpaState := AS_PTKINIT_NEGOTIATING\<rparr>]"
    using hp(1) by (simp add: ad2_def ad1_def upd_ent_Stations)
  have fields: "mem_ok ad2 = mem_ok s" "stale ad2 = stale s" "own_Addr ad2 = own_Addr s" "wlog ad2 = wlog s" "sta_RSN_IE ad2 = sta_RSN_IE s"
      "sta_RSNIE_Len ad2 = sta_RSNIE_Len s" "sta_GroupCipher ad2 = sta_GroupCipher s" by (simp_all add: ad2_def ad1_def)
  obtain f d where f: "ConstructEapolMsg ad2 (Stations ad2 ! i) (sta_GroupCipher ad2) EAPOL_PAIR_MSG_2 0 (Some snonce) None None
      (Some (sta_RSN_IE ad2)) (sta_RSNIE_Len ad2) zero_frame = Some f" "wf_packet f" "mic_valid (PTK (Stations ad2 ! i)) f" "KeyNonce f = snonce"
      "ReplayCounter f = R_Counter (Stations ad2 ! i)" "length d \<le> 2 + unat (sta_RSNIE_Len ad2)" "KeyDataLen f = SET_UINT16_TO_ARRARY (length d)"
      "Body_Len f = SET_UINT16_TO_ARRARY (95 + length d)" "KeyData f = move_at (replicate 1401 0) 0 d"
    using msg2_ok[of ad2 "Stations ad2 ! i" snonce "sta_RSNIE_Len ad2" "sta_RSN_IE ad2" "sta_GroupCipher ad2"] assms(2,6) sn(2) run(3) hp(1)
    by (auto simp: fields e2)
  have act: "PeerPairMsg1Action s i E = Some (send_eapol ad2 i f True)"
    using hp(2,4) run(2) sn(1) ptk(1) f(1) assms(2)
    by (simp add: PeerPairMsg1Action_def hp(3) ad1_def[symmetric] ad2_def[symmetric] fields Let_def)
  have log: "wlog (send_eapol ad2 i f True) = SendPacket (MAKE_802_3_HEADER (ent_Addr ?e) (own_Addr s)) (sent_bytes f) True # wlog s"
    using hp(1,2) assms(2) by (subst send_log) (simp_all add: e2 fields)
  have d: "length d + 0 \<le> 1401" using f(6) unsigned_less[where 'a = nat, of "sta_RSNIE_Len s"] by (simp add: fields)
  have e: "PTK (Stations ad2 ! i) = take 64 ptk" "R_Counter (Stations ad2 ! i) = ReplayCounter p" using hp(1) by (simp_all add: e2)
  show ?thesis
  proof (rule exI[of _ "send_eapol ad2 i f True"], rule exI[of _ f], rule exI[of _ "length d"], rule exI[of _ snonce], rule exI[of _ ptk])
  qed (use run(1) act log d f(2-9) sn(2) ptk hp(1) in \<open>simp add: e e2 fields\<close>)
qed

lemma wf_msg1_state:
  assumes "wf_wpa s" and "receives_msg1 tab s i E p"
  shows "length (own_Addr s) = 6" and "length (ent_Addr (Stations s ! i)) = 6" and "length (sta_PMK s) = 32"
    and "unat (sta_RSNIE_Len s) \<le> length (sta_RSN_IE s)"
proof -
  have "i < length (Stations s)" using assms(2) by (simp add: receives_msg1_def handshake_peer_def)
  moreover have "unat (sta_RSNIE_Len s) \<le> 255" using unsigned_less[where 'a = nat, of "sta_RSNIE_Len s"] by simp
  ultimately show "length (own_Addr s) = 6" and "length (ent_Addr (Stations s ! i)) = 6" and "length (sta_PMK s) = 32"
    and "unat (sta_RSNIE_Len s) \<le> length (sta_RSN_IE s)"
    using assms(1) by (simp_all add: wf_wpa_def wf_entry_def)
qed

lemma WpaDerivePTK_out:
  assumes "length out = 80" and "length out' = 80" and "length PMK = 32"
    and "WpaDerivePTK True PMK A AA S SA out 64 = Some ptk"
  shows "WpaDerivePTK True PMK A AA S SA out' 64 = Some ptk"
proof -
  have "length (ptk_concatenation A AA S SA) \<le> 140" by (simp add: ptk_concatenation_def Let_def min_def)
  then show ?thesis
    using assms unfolding WpaDerivePTK_def by (auto simp: PRF_blocks ascii_def move_at_def)
qed

text \<open>
  \<^bold>\<open>C30\<close> Both sides derive the same transient key. When message 1 with a fresh counter reaches a station, the station derives the
  transient key from both nonces, sends its nonce in message 2, and an authenticator with the same master key that
  derives the transient key from the nonce in message 2 gets the same key and accepts message 2. No key is installed yet.
\<close>

theorem message_1_agrees_on_ptk:
  assumes "receives_msg1 tab s i E p" and "all_mem s" and "wf_wpa s" and "sta_RSNIE_Len s \<le> 253"
  shows "\<exists>s' f. WpaEAPOLKeyAction tab s E = Some s' \<and> key_state_of s' = key_state_of s
    \<and> wlog s' = SendPacket (MAKE_802_3_HEADER (ent_Addr (Stations s ! i)) (own_Addr s)) (sent_bytes f) True # wlog s
    \<and> WpaState (Stations s' ! i) = AS_PTKINIT_NEGOTIATING
    \<and> (\<forall>t h ptk out. mem_ok t A_KEYDATA \<and> R_Counter (Stations t ! h) = ReplayCounter p \<and> length out = 80
        \<and> WpaDerivePTK True (sta_PMK s) (KeyNonce p) (ent_Addr (Stations s ! i)) (KeyNonce f) (own_Addr s) out 64 = Some ptk
        \<and> PTK (Stations t ! h) = take 64 ptk
        \<longrightarrow> PTK (Stations s' ! i) = PTK (Stations t ! h) \<and> (\<exists>m. PeerWpaMessageSanity t h f EAPOL_PAIR_MSG_2 = Some (True, m, t)))"
proof -
  note l = wf_msg1_state[OF assms(3,1)]
  have n: "unat (sta_RSNIE_Len s) \<le> 253" using assms(4) by (simp add: word_le_nat_alt)
  obtain s' f n snonce ptk where r: "WpaEAPOLKeyAction tab s E = Some s'" "length snonce = 32"
    "WpaDerivePTK True (sta_PMK s) (KeyNonce p) (ent_Addr (Stations s ! i)) snonce (own_Addr s) (stale s 80) 64 = Some ptk" "length ptk = 80"
    "Stations s' = (Stations s)[i := (Stations s ! i)\<lparr>R_Counter := ReplayCounter p, ANonce := KeyNonce p, SNonce := snonce, PTK := take 64 ptk,
         WpaState := AS_PTKINIT_NEGOTIATING\<rparr>]"
    "wlog s' = SendPacket (MAKE_802_3_HEADER (ent_Addr (Stations s ! i)) (own_Addr s)) (sent_bytes f) True # wlog s"
    and f: "wf_packet f" "mic_valid (take 64 ptk) f" "KeyNonce f = snonce" "ReplayCounter f = ReplayCounter p" "n \<le> 2 + unat (sta_RSNIE_Len s)"
    "KeyDataLen f = SET_UINT16_TO_ARRARY n" "Body_Len f = SET_UINT16_TO_ARRARY (95 + n)" "length (KeyData f) = 1401"
    using msg1_effect[OF assms(1,2) l] by blast
  have st: "PTK (Stations s' ! i) = take 64 ptk" "WpaState (Stations s' ! i) = AS_PTKINIT_NEGOTIATING"
    using assms(1) by (simp_all add: r(5) receives_msg1_def handshake_peer_def)
  have same: "ptk' = ptk" if "length out = 80"
      "WpaDerivePTK True (sta_PMK s) (KeyNonce p) (ent_Addr (Stations s ! i)) snonce (own_Addr s) out 64 = Some ptk'" for out ptk'
    using WpaDerivePTK_out[OF that(1), of "stale s 80"] that(2) r(3) assms(2) l(3) by simp
  have acc: "\<exists>m. PeerWpaMessageSanity t h f EAPOL_PAIR_MSG_2 = Some (True, m, t)"
    if "mem_ok t A_KEYDATA" "R_Counter (Stations t ! h) = ReplayCounter p" "PTK (Stations t ! h) = take 64 ptk" for t h
    using that f n by (intro answer_accepted) simp_all
  have "key_state_of s' = key_state_of s" using msg1_run(1)[OF assms(1)] assms(2) r(1) msg1_keeps_keys by simp
  then show ?thesis
    using r(1,6) st acc same f(3) by (intro exI[of _ s'] exI[of _ f]) auto
qed

text \<open>
  \<^bold>\<open>C32\<close> A repeated message 3 installs the key again. A station that has finished the handshake and has this very pairwise key installed
  accepts message 3 with a higher counter, hands the same key to the chip and sets its packet number back to 1.
\<close>

theorem message_3_reinstalls_key:
  assumes "sends_msg3 a e idx nonce rsc gtk rsnie n f" and "expects_msg3 tab s i E e nonce" and "delivered E f"
    and "WpaState (Stations s ! i) = AS_PTKINITDONE" and "PairwiseKey (Stations s ! i) = fst (pairwise_key e False)"
  shows "\<exists>s' new. WpaEAPOLKeyAction tab s E = Some s' \<and> wlog s' = new @ wlog s
    \<and> AddPairwiseKey (ent_Aid (Stations s ! i)) (PairwiseKey (Stations s ! i)) \<in> set new
    \<and> UpdateWCIDIVEIV (ent_Aid (Stations s ! i)) 0x20000001 \<in> set new"
proof -
  obtain s' f4 new where r: "WpaEAPOLKeyAction tab s E = Some s'"
    "wlog s' = SendPacket (MAKE_802_3_HEADER (ent_Addr (Stations s ! i)) (own_Addr s)) (sent_bytes f4) True # new @ wlog s"
    "UpdateWCIDIVEIV (ent_Aid (Stations s ! i)) 0x20000001 \<in> set new" "AddPairwiseKey (ent_Aid (Stations s ! i)) (fst (pairwise_key e False)) \<in> set new"
    using msg3_effect[OF assms(1-3)] by blast
  show ?thesis
  proof (rule exI[of _ s'], rule exI[of _ "SendPacket (MAKE_802_3_HEADER (ent_Addr (Stations s ! i)) (own_Addr s)) (sent_bytes f4) True # new"])
  qed (use r assms(5) in simp)
qed



section \<open>What any frame can do\<close>



section \<open>A concrete handshake\<close>

definition ex_tab :: RTMP_ADAPTER where
  "ex_tab = zero_adapter\<lparr>Hash := (replicate 256 None)[0x28 := Some 1],
     Content := (Content zero_adapter)[1 := zero_entry\<lparr>EntryType := ENTRY_CLIENT, Addr := ex_peer\<rparr>]\<rparr>"

definition ex_ent :: "UINT8 \<Rightarrow> WPA_ENTRY" where
  "ex_ent c = \<lparr>is_client = True, is_apcli = False, ent_Addr = ex_peer, ent_AuthMode = Ndis802_11AuthModeWPA2PSK,
     ent_WepStatus = Ndis802_11Encryption3Enabled, is_assoc = True, WpaState = AS_INITPSK, GTKState = 0, ent_PortSecured = 0, accept_all = False,
     R_Counter = [0, 0, 0, 0, 0, 0, 0, c], ANonce = replicate 32 7, SNonce = replicate 32 8, PTK = replicate 64 9, PairwiseKey = zero_key,
     ent_Aid = 1, ReTryCounter = 0\<rparr>"

definition ex_wpa :: WPA_AD where
  "ex_wpa = \<lparr>Stations = [ex_ent 0, ex_ent 0], own_Addr = replicate 6 2, sta_PMK = replicate 32 3, sta_PTK = replicate 64 0, sta_GTK = replicate 32 0,
     DefaultKeyId = 0, sta_GroupCipher = Ndis802_11Encryption3Enabled, sta_RSN_IE = replicate 255 0, sta_RSNIE_Len = 20, sta_PortSecured = 0,
     SharedKey = replicate 4 zero_key, scan_while_connected = False, aux_Channel = 0, own_Channel = 1, mem_ok = (\<lambda>_. True), uptime = (\<lambda>_. 0),
     random_tsc = replicate 6 0, stale = (\<lambda>n. replicate n 0), wlog = []\<rparr>"

definition ex_elem :: "nat \<Rightarrow> bytes \<Rightarrow> MLME_QUEUE_ELEM" where
  "ex_elem n d = zero_elem\<lparr>Msg := replicate 10 0 @ ex_peer @ replicate 16 0 @ d, MsgLen := of_nat n\<rparr>"

definition ex_msg1 :: "UINT8 \<Rightarrow> EAPOL_PACKET" where
  "ex_msg1 c = zero_frame\<lparr>ProVer := 1, ProType := 3, Body_Len := [0, 95], DescType := 2, KeyInfo := key_info_of 0 0x8A,
     ReplayCounter := replicate 8 c\<rparr>"

lemma ex_lookup: "MacTableLookup ex_tab ex_peer = Some (Some 1)"
proof -
  have "MAC_ADDR_HASH_INDEX ex_peer = 0x28" by (simp add: MAC_ADDR_HASH_INDEX_def ex_peer_def)
  then show ?thesis
    by (simp add: MacTableLookup_def ex_tab_def, subst lookup_loop.simps)
      (simp add: ex_tab_def entry_none_def ENTRY_NONE_def ENTRY_CLIENT_def zero_adapter_def size_defs)
qed

lemma ex_elem_slice: "slice (Msg (ex_elem n d)) 10 6 = ex_peer" "drop 32 (Msg (ex_elem n d)) = d" "MsgLen (ex_elem n d) = of_nat n"
  by (simp_all add: ex_elem_def slice_def ex_peer_def)

lemma ex_wf: "wf_wpa ex_wpa"
  by (simp add: wf_wpa_def ex_wpa_def wf_entry_def ex_ent_def ex_peer_def)

lemma ex_all_mem: "all_mem ex_wpa"
  by (simp add: ex_wpa_def)

lemma ex_msg1_wf: "wf_packet (ex_msg1 c)"
  by (simp add: wf_packet_def wf_info_def ex_msg1_def zero_frame_def key_info_of_def)

lemma ex_peer_packet: "peer_packet (ex_elem n (packet_bytes (ex_msg1 c))) = Some (ex_msg1 c)"
  using packet_of_bytes[OF ex_msg1_wf] by (simp add: peer_packet_def ex_elem_slice)

lemma ex_station: "i < 2 \<Longrightarrow> Stations ex_wpa ! i = ex_ent 0" "length (Stations ex_wpa) = 2"
  by (auto simp: ex_wpa_def less_Suc_eq numeral_2_eq_2)

lemma ex_receives: "c \<noteq> 0 \<Longrightarrow> receives_msg1 ex_tab ex_wpa 1 (ex_elem 131 (packet_bytes (ex_msg1 c))) (ex_msg1 c)"
proof -
  assume c: "c \<noteq> 0"
  have "handshake_peer ex_tab ex_wpa 1 (ex_elem 131 (packet_bytes (ex_msg1 c)))"
    using ex_lookup ex_station by (simp add: handshake_peer_def ex_elem_slice ex_ent_def)
  moreover have "is_msg1 (ex_msg1 c)" "ver_matches (Stations ex_wpa ! 1) (ki_KeyDescVer (KeyInfo (ex_msg1 c)))"
    using ex_station by (simp_all add: is_msg1_def ex_msg1_def key_info_of_def Let_def ver_matches_def ex_ent_def)
  moreover have "be_val (R_Counter (Stations ex_wpa ! 1)) < be_val (ReplayCounter (ex_msg1 c))"
  proof -
    have "be_val (R_Counter (Stations ex_wpa ! 1)) = 0" using ex_station by (simp add: ex_ent_def be_val_def)
    moreover have "be_val (replicate 8 c) = unat c * 256 ^ 7 + be_val (replicate 7 c)" using be_val_Cons[of c "replicate 7 c"] by (simp flip: replicate_Suc)
    moreover have "0 < unat c" using c by (simp add: unat_gt_0)
    ultimately show ?thesis by (simp add: ex_msg1_def)
  qed
  ultimately show ?thesis
    using ex_station ex_peer_packet by (simp add: receives_msg1_def ex_elem_slice ex_msg1_def ex_ent_def CONV_ARRARY_TO_UINT16_def)
qed

abbreviation ex_sent :: "EAPOL_PACKET \<Rightarrow> bool" where
  "ex_sent \<equiv> sends_msg3 ex_wpa (ex_ent 1) 1 (replicate 32 7) (replicate 6 0) (replicate 32 5) ([1, 0] @ OUI_WPA2 @ replicate 15 0) 20"

abbreviation ex_delivery :: "EAPOL_PACKET \<Rightarrow> MLME_QUEUE_ELEM" where
  "ex_delivery f \<equiv> ex_elem (32 + length (sent_bytes f)) (sent_bytes f)"

lemma ex_sends: obtains f where "ex_sent f"
proof -
  let ?ie = "[1, 0] @ OUI_WPA2 @ replicate 15 0"
  have e: "is_wpa2 (ex_ent 1)" "desc_ver (ex_ent 1) (ent_WepStatus (ex_ent 1)) = KEY_DESC_AES" "length (R_Counter (ex_ent 1)) = 8"
    "ent_WepStatus (ex_ent 1) = Ndis802_11Encryption3Enabled"
    by (simp_all add: ex_ent_def is_wpa2_def desc_ver_def)
  have l: "unat (gtk_len g) \<le> length (replicate 32 (5 :: UINT8))" for g using gtk_len_le by simp
  have ie: "slice ?ie 2 3 = OUI_WPA2" "unat (20 :: UINT8) \<le> length ?ie" "unat (20 :: UINT8) \<le> 200"
    by (simp_all add: slice_def OUI_WPA2_def)
  obtain f where "ConstructEapolMsg ex_wpa (ex_ent 1) (ent_WepStatus (ex_ent 1)) EAPOL_PAIR_MSG_3 1 (Some (replicate 32 7)) (Some (replicate 6 0))
      (Some (replicate 32 5)) (Some ?ie) 20 zero_frame = Some f"
    using aes_data.gtk_msg_ok[OF ex_all_mem e(3,1), of EAPOL_PAIR_MSG_3 "replicate 32 7" "replicate 6 0", OF _ _ _ l ie(2,3) e(2) refl] by auto
  then show thesis using that e ie ex_all_mem by (simp add: sends_msg3_def)
qed

lemma ex_delivered: "delivered (ex_delivery f) f"
  by (simp add: delivered_def ex_elem_slice)

lemma ex_expects:
  assumes "s = ex_wpa \<or> s = ex_wpa\<lparr>Stations := [ex_ent 0, (ex_ent 0)\<lparr>WpaState := AS_PTKINITDONE, PairwiseKey := fst (pairwise_key (ex_ent 1) False)\<rparr>]\<rparr>"
  shows "expects_msg3 ex_tab s 1 (ex_delivery f) (ex_ent 1) (replicate 32 7)"
  using assms ex_lookup ex_all_mem
  by (auto simp: expects_msg3_def handshake_peer_def ex_elem_slice ex_ent_def ex_wpa_def be_val_def Let_def)

lemma ex_index: "\<forall>i. MacTableLookup ex_tab (slice (Msg (ex_elem n d)) 10 6) = Some (Some i) \<longrightarrow> i < length (Stations ex_wpa)"
  using ex_lookup by (simp add: ex_elem_slice ex_station)

theorem message_1_agrees_on_ptk_witness:
  "\<exists>s'. WpaEAPOLKeyAction ex_tab ex_wpa (ex_elem 131 (packet_bytes (ex_msg1 1))) = Some s' \<and> WpaState (Stations s' ! 1) = AS_PTKINIT_NEGOTIATING"
proof -
  have c: "(1 :: UINT8) \<noteq> 0" and l: "sta_RSNIE_Len ex_wpa \<le> 253" by (simp_all add: ex_wpa_def)
  from message_1_agrees_on_ptk[OF ex_receives[OF c] ex_all_mem ex_wf l] show ?thesis by blast
qed


theorem message_3_reinstalls_key_witness:
  "\<exists>f s' new. ex_sent f \<and> WpaEAPOLKeyAction ex_tab
       (ex_wpa\<lparr>Stations := [ex_ent 0, (ex_ent 0)\<lparr>WpaState := AS_PTKINITDONE, PairwiseKey := fst (pairwise_key (ex_ent 1) False)\<rparr>]\<rparr>) (ex_delivery f) = Some s'
     \<and> wlog s' = new \<and> UpdateWCIDIVEIV 1 0x20000001 \<in> set new"
proof -
  obtain f where f: "ex_sent f" by (rule ex_sends)
  let ?s = "ex_wpa\<lparr>Stations := [ex_ent 0, (ex_ent 0)\<lparr>WpaState := AS_PTKINITDONE, PairwiseKey := fst (pairwise_key (ex_ent 1) False)\<rparr>]\<rparr>"
  have "expects_msg3 ex_tab ?s 1 (ex_delivery f) (ex_ent 1) (replicate 32 7)" by (rule ex_expects) simp
  from message_3_reinstalls_key[OF f this ex_delivered] f show ?thesis by (auto simp: ex_ent_def ex_wpa_def)
qed





end
