(* ===== verification/Spec2Isabelle.thy ===== *)
theory Spec2Isabelle
  imports BA_Session Mac_Table Auth Beacon Bss_Table Aes_Modes Aes_Soft Wep Ccmp Tkip Wpa_Keys Wpa_Fourway
begin

text \<open>
  A verification development for the station driver of the MediaTek/Ralink MT7610U Wi-Fi chip.

  \<^bold>\<open>The program.\<close> The driver is a C kernel module. Received frames come from USB bulk transfers
  (\<^verbatim>\<open>common/rtusb_bulk.c\<close>, \<^verbatim>\<open>common/cmm_data.c\<close>): data frames of a block-ack session go through its
  reordering buffer (\<^verbatim>\<open>common/ba_action.c\<close>), management frames are put on a queue and handled by the MLME task
  (\<^verbatim>\<open>common/mlme.c\<close>), which runs one table-driven state machine per protocol
  (\<^verbatim>\<open>sta/assoc.c\<close>, \<^verbatim>\<open>sta/auth.c\<close>, \<^verbatim>\<open>sta/sync.c\<close>, \<^verbatim>\<open>common/action.c\<close>, \<^verbatim>\<open>common/cmm_wpa.c\<close>). The action machine
  calls the block-ack handlers, which keep their sessions in tables beside the station table
  (\<^verbatim>\<open>mgmt/mgmt_entrytb.c\<close>); the synchronisation machine collects beacons in the scan table and chooses the access point to
  join. EAPOL-Key frames run the key handshake of \<^verbatim>\<open>common/cmm_wpa.c\<close>, which derives the keys with the hash functions of
  \<^verbatim>\<open>common/crypt_md5.c\<close>, \<^verbatim>\<open>common/crypt_sha2.c\<close> and \<^verbatim>\<open>common/crypt_hmac.c\<close>. Keys are unwrapped, and frames that the hardware does not encrypt are
  encrypted, by the routines of \<^verbatim>\<open>common/crypt_aes.c\<close>, \<^verbatim>\<open>common/cmm_aes.c\<close>, \<^verbatim>\<open>common/crypt_arc4.c\<close>,
  \<^verbatim>\<open>common/cmm_wep.c\<close> and \<^verbatim>\<open>common/cmm_tkip.c\<close>.

  \<^bold>\<open>The theories.\<close>

  \<^item> \<^verbatim>\<open>Driver_Prelude\<close>: the C integer types, arrays with moves, bytewise exclusive or and the collections of
    lemmas that the components share.

  \<^item> \<^verbatim>\<open>BA_Reorder\<close>: the reordering buffer, the block pool and the frame classification of
    \<^verbatim>\<open>Indicate_AMPDU_Packet\<close>, over a log of what is handed to the network stack. Proved: frames leave in the order of
    their sequence numbers, however they arrive; every block is in exactly one place; the buffer is bounded; a stalled
    session is flushed by its time-outs; a BAR releases what it should. Three deviations are proved as such
    (a duplicate after a BAR, a leaked block and a broken order after an EAPOL frame).

  \<^item> \<^verbatim>\<open>Adapter\<close>: the part of \<^verbatim>\<open>RTMP_ADAPTER\<close> that the next two theories share, with a log of device
    operations and a script of allocation outcomes.

  \<^item> \<^verbatim>\<open>BA_Session\<close>: set-up, use and tear-down of sessions, and the ADDBA, DELBA and BAR handlers. The
    locale \<open>session_table\<close> is the contract of a table of sessions; it is interpreted on the
    recipient and the originator table. \<open>ba_step\<close> and \<open>ba_run\<close> are the interleavings of the operations;
    under them the cross references and counters stay consistent.

  \<^item> \<^verbatim>\<open>Mac_Table\<close>: lookup, insertion, deletion and reset of the station table with its hash chains. The locale
    \<open>address_table\<close> is the contract of a table searched by address, interpreted on the model. Walks along a
    chain are \<open>partial_function\<close>s, and are shown to end on well-formed tables.

  \<^item> \<^verbatim>\<open>Mlme_Queue\<close>: the ring of 40 elements between the driver's threads and the MLME task, with the classification
    of received frames. The locale \<open>bounded_fifo\<close> is the abstract queue; the ring refines it, so accepted
    messages are delivered once and in order. The race between the test for a full queue and the insertion is
    proved to overwrite a message.

  \<^item> \<^verbatim>\<open>Mlme\<close>: the six transition tables as the set-up functions build them, dispatch, the handler loop, machine restart,
    timer callbacks and the actions that only report to the control machine. Frames from the air are
    dispatched in bounds and never reach an action for local requests; the handler ends with an empty queue
    (it is a \<open>partial_function\<close>, and its result is shown to exist for every bounded source of messages).

  \<^item> \<^verbatim>\<open>Auth\<close>: the authentication machine of \<^verbatim>\<open>sta/auth.c\<close> on top of \<^verbatim>\<open>Mlme\<close> and \<^verbatim>\<open>Wep\<close>: request, challenge, response, time-out and
    deauthentication, with the frames they send. The response to a challenge decrypts to the challenge; \<open>auth_step\<close> interleaves the
    handlers with arriving messages and the timer, and under it the machine never waits without a pending time-out. Two faults are proved: kernel memory
    sent as a challenge, and a machine left waiting by a blocked request.

  \<^item> \<^verbatim>\<open>Bss_Entry\<close>: an entry of the scan table, \<^verbatim>\<open>BssEntrySet\<close> that fills it from a beacon and the parser of
    the security elements. The announced security setting is read back; a suite count that leads the parser
    out of the stored elements is proved as an error.

  \<^item> \<^verbatim>\<open>Beacon\<close>: the parser of beacons and probe responses of \<^verbatim>\<open>common/cmm_sanity.c\<close>, whose result \<^verbatim>\<open>BssEntrySet\<close> stores. What a beacon
    announces is stored and its security setting read back; frames of up to 548 bytes keep inside every buffer. Three ways in which WPS
    elements of longer or malformed frames write outside a buffer are proved.

  \<^item> \<^verbatim>\<open>Bss_Table\<close>: search, insertion, deletion and ageing of scan results and the choice of candidates for a connection, with
    the heap of probe-response buffers. The scan table refines a finite map from BSSID and band, the candidates
    are the selected entries sorted by signal strength and keep the configured security. Two faults in the handling of the
    shared buffers are proved.

  \<^item> \<^verbatim>\<open>Aes\<close> and \<^verbatim>\<open>Aes_Modes\<close>: \<^verbatim>\<open>common/crypt_aes.c\<close>: tables, key schedule, both directions of the block cipher,
    key wrap, CBC, CMAC and CCM. The tables are the functions of FIPS 197, decryption inverts encryption in every mode, CCM
    accepts exactly its own outputs and its tag is that of NIST SP 800-38C. The locale \<open>block_cipher\<close> is what
    the modes rely on.

  \<^item> \<^verbatim>\<open>Aes_Soft\<close>: the second AES, \<^verbatim>\<open>aes128k128d\<close> of \<^verbatim>\<open>common/cmm_aes.c\<close>, shown equal to the first.

  \<^item> \<^verbatim>\<open>Wep\<close>: ARC4, the frame check sequence (equal to the bitwise CRC-32) and WEP encapsulation in place.

  \<^item> \<^verbatim>\<open>Ccmp\<close>: associated data, nonce, header and frame encapsulation of CCMP: decapsulation accepts exactly the
    outputs of encapsulation, and the authenticated header fields are those of IEEE 802.11.

  \<^item> \<^verbatim>\<open>Hash\<close>: MD5, SHA-1 and SHA-256 with their contexts, and HMAC. The locale \<open>streaming_hash\<close> is the part that the three share:
    buffering and padding around a compression function; each function computes the digest of its standard, in one call or in
    pieces, and HMAC is that of RFC 2104.

  \<^item> \<^verbatim>\<open>Wpa_Keys\<close>: pass-phrase key, pseudo-random functions, transient keys and random numbers, shown equal to their
    definitions in IEEE 802.11i.

  \<^item> \<^verbatim>\<open>Eapol\<close>: EAPOL-Key messages: layout, construction, integrity code, the checks on a received message and the installation
    of keys. \<^verbatim>\<open>Eapol_Exchange\<close>: a message that is built, sent and received again is accepted and yields the key
    data that went in; the locale \<open>key_data_cipher\<close> is what this needs of the encryption of key data, interpreted on the AES
    key wrap and on ARC4.

  \<^item> \<^verbatim>\<open>Wpa_Handshake\<close>: the handlers of all messages of the four-way and the group key handshake and their dispatch, with the invariant
    \<open>wf_wpa\<close> of their state. \<^verbatim>\<open>Wpa_Fourway\<close>: both sides derive the same transient key, message 3 installs exactly the keys it should, keys change only
    through authenticated frames, and the state stays well-formed. Three weaknesses are proved: key reinstallation by a repeated message 3, the
    block of the handshake by one forged message 1, and the overflow by a group key element of a wrong length.

  \<^item> \<^verbatim>\<open>Tkip\<close>: the Michael integrity code, the key mixing with its S-box and the decapsulation of TKIP frames of
    \<^verbatim>\<open>common/cmm_tkip.c\<close>. The code that is appended byte by byte is Michael over 32-bit words, key mixing is that of
    IEEE 802.11, and decapsulation recovers what a sender with the same temporal key protected.

  \<^bold>\<open>Conventions.\<close> Integers that can wrap are words of their C width or written with an explicit modulus. A pointer to an
  element of a table is its index and NULL is \<open>None\<close>. An access outside an array is a value: a flag of the
  state, \<open>None\<close>, or a constructor of the result type. Kernel services (timers, packet hand-over, register access)
  are recorded in a log; allocations that can fail are driven by a script. Spin locks delimit the atomic steps. Loops over
  data are structural or have a measure; a loop that ends only on well-formed data is a \<open>partial_function\<close> and
  its termination is a theorem. No fuel is used.

  \<^bold>\<open>Not modelled.\<close>

  \<^item> Kernel and USB glue (\<^verbatim>\<open>os/linux\<close>, \<^verbatim>\<open>common/rtusb_*.c\<close>), register sequences of the chip and the radio
    (\<^verbatim>\<open>chips\<close>, \<^verbatim>\<open>phy\<close>, \<^verbatim>\<open>mac\<close>, \<^verbatim>\<open>common/cmm_asic.c\<close>), EEPROM and firmware images: effects on hardware without a
    specification in the repository.

  \<^item> Configuration parsing (\<^verbatim>\<open>common/cmm_profile.c\<close>, \<^verbatim>\<open>common/cmm_info.c\<close>, \<^verbatim>\<open>sta/sta_cfg.c\<close>) and the test
    equipment mode (\<^verbatim>\<open>ate\<close>).

  \<^item> Code that the build leaves out: access-point mode, DLS, TDLS, big-endian variants.

  \<^item> The parsers of association and action frames of \<^verbatim>\<open>common/cmm_sanity.c\<close>, the command queue of \<^verbatim>\<open>common/cmm_cmd.c\<close>, rate control, and the
    association and scan actions, which are bound to the registers of the chip: left out for their size.
\<close>

end
